(* ===== verification/Prelude.thy ===== *)
theory Prelude
  imports Main "HOL-Library.Word"
begin

text \<open>
  Types, the result type of effectful C code and the generic facts that the component theories
  share.  Machine integers keep their width (\<open>u8\<close>, \<open>u16\<close>); C's promotion of narrow
  unsigned operands to \<open>int\<close> is written with \<open>unat\<close> or \<open>int\<close> where it matters.
\<close>

unbundle bit_operations_syntax

type_synonym u8 = "8 word"
type_synonym u16 = "16 word"

named_theorems outcome_simps \<open>evaluation of sequenced effects\<close>
named_theorems wp_intros \<open>introduction rules for the safety predicate over outcomes\<close>

section \<open>Outcomes\<close>

text \<open>
  A C function that returns gives \<open>Done\<close> its value; a call through a null pointer or an access
  outside an object is \<open>Fault\<close>; a loop that never ends is \<open>Stuck\<close>.
\<close>

datatype 'a outcome = Done 'a | Stuck | Fault

primrec obind :: "'a outcome \<Rightarrow> ('a \<Rightarrow> 'b outcome) \<Rightarrow> 'b outcome" where
  "obind (Done x) f = f x"
| "obind Stuck f = Stuck"
| "obind Fault f = Fault"

declare obind.simps [outcome_simps]

text \<open>\<open>check b m\<close> runs \<open>m\<close> where the access described by \<open>b\<close> is inside its object.\<close>

definition check :: "bool \<Rightarrow> 'a outcome \<Rightarrow> 'a outcome" where
  "check b m = (if b then m else Fault)"

lemma check_True [simp, outcome_simps]: "check True m = m"
  by (simp add: check_def)

lemma check_False [simp, outcome_simps]: "check False m = Fault"
  by (simp add: check_def)

lemma check_eq_Done: "check b m = Done x \<longleftrightarrow> b \<and> m = Done x"
  by (simp add: check_def)

lemma obind_assoc: "obind (obind m f) g = obind m (\<lambda>x. obind (f x) g)"
  by (cases m) simp_all

lemma obind_Done_right [simp]: "obind m Done = m"
  by (cases m) simp_all

lemma obind_eq_Done: "obind m f = Done y \<longleftrightarrow> (\<exists>x. m = Done x \<and> f x = Done y)"
  by (cases m) simp_all

text \<open>
  \<open>safe Q m\<close>: running \<open>m\<close> commits no fault, and if it returns, the result satisfies \<open>Q\<close>.
\<close>

definition safe :: "('a \<Rightarrow> bool) \<Rightarrow> 'a outcome \<Rightarrow> bool" where
  "safe Q m \<longleftrightarrow> (case m of Done x \<Rightarrow> Q x | Stuck \<Rightarrow> True | Fault \<Rightarrow> False)"

lemma safe_simps [simp]:
  "safe Q (Done x) \<longleftrightarrow> Q x" "safe Q Stuck" "\<not> safe Q Fault"
  by (simp_all add: safe_def)

lemma safe_check [wp_intros]: "b \<Longrightarrow> safe Q m \<Longrightarrow> safe Q (check b m)"
  by simp

lemma safe_obind [wp_intros]: "safe (\<lambda>x. safe Q (f x)) m \<Longrightarrow> safe Q (obind m f)"
  by (cases m) simp_all

lemma safe_if [wp_intros]:
  "(b \<Longrightarrow> safe Q m) \<Longrightarrow> (\<not> b \<Longrightarrow> safe Q n) \<Longrightarrow> safe Q (if b then m else n)"
  by simp

lemma safe_mono: "safe P m \<Longrightarrow> (\<And>x. P x \<Longrightarrow> Q x) \<Longrightarrow> safe Q m"
  by (cases m) simp_all

lemma safe_conj: "safe P m \<Longrightarrow> safe Q m \<Longrightarrow> safe (\<lambda>x. P x \<and> Q x) m"
  by (cases m) simp_all

lemma safe_Done_iff: "m = Done x \<Longrightarrow> safe Q m \<longleftrightarrow> Q x"
  by simp

lemma safe_not_Fault: "safe Q m \<Longrightarrow> m \<noteq> Fault"
  by auto

section \<open>Byte buffers\<close>

text \<open>
  \<open>blit buf off xs\<close> is \<open>buf\<close> after \<open>memmove(buf + off, xs, length xs)\<close>; the caller checks that
  the range lies in the buffer.
\<close>

definition blit :: "'a list \<Rightarrow> nat \<Rightarrow> 'a list \<Rightarrow> 'a list" where
  "blit buf off xs = take off buf @ xs @ drop (off + length xs) buf"

lemma length_blit [simp]:
  "off + length xs \<le> length buf \<Longrightarrow> length (blit buf off xs) = length buf"
  by (simp add: blit_def)

lemma take_blit:
  "off + length xs \<le> length buf \<Longrightarrow> take (off + length xs) (blit buf off xs) = take off buf @ xs"
  by (cases "xs = []") (simp_all add: blit_def)

lemma take_blit_before: "off \<le> length buf \<Longrightarrow> n \<le> off \<Longrightarrow> take n (blit buf off xs) = take n buf"
  by (simp add: blit_def min_def)

lemma drop_blit_after:
  "off + length xs \<le> length buf \<Longrightarrow> off + length xs \<le> n \<Longrightarrow> drop n (blit buf off xs) = drop n buf"
  by (simp add: blit_def)

lemma take_drop_blit:
  "off + length xs \<le> length buf \<Longrightarrow> take (length xs) (drop off (blit buf off xs)) = xs"
  by (simp add: blit_def)

lemma blit_Nil [simp]: "blit buf off [] = buf"
  by (simp add: blit_def)

lemma take_list_update_append:
  "n < length xs \<Longrightarrow> take (Suc n) (xs[n := x]) = take n xs @ [x]"
  by (simp add: take_Suc_conv_app_nth)

lemma nth_take_prefix: "take n xs = ys \<Longrightarrow> i < n \<Longrightarrow> xs ! i = ys ! i"
  by (metis nth_take)

text \<open>The bytes of a text, without a terminator.\<close>

definition ascii :: "string \<Rightarrow> u8 list" where
  "ascii s = map of_char s"

lemma length_ascii [simp]: "length (ascii s) = length s"
  by (simp add: ascii_def)

lemma ascii_append: "ascii (s @ t) = ascii s @ ascii t"
  by (simp add: ascii_def)

section \<open>Bytes of a 16-bit value\<close>

definition hi8 :: "u16 \<Rightarrow> u8" where "hi8 w = ucast (drop_bit 8 w)"
definition lo8 :: "u16 \<Rightarrow> u8" where "lo8 w = ucast (w AND 0x00FF)"
definition be16 :: "u8 \<Rightarrow> u8 \<Rightarrow> u16" where "be16 h l = push_bit 8 (ucast h) OR ucast l"

lemma bit_255_int: "bit (255 :: int) n \<longleftrightarrow> n < 8"
proof -
  have h: "(255 :: int) = mask 8"
    by (simp add: mask_eq_exp_minus_1)
  show ?thesis
    by (subst h) (auto simp only: bit_mask_iff possible_bit_int)
qed

lemma bit_255_u16: "bit (255 :: u16) n \<longleftrightarrow> n < 8"
proof -
  have h: "(255 :: u16) = mask 8"
    by (simp add: mask_eq_exp_minus_1)
  show ?thesis
    by (subst h) (auto simp: bit_mask_iff simp del: mask_numeral)
qed

lemma lo8_eq: "lo8 w = ucast w"
  by (rule bit_word_eqI) (auto simp: lo8_def bit_simps bit_255_u16 bit_255_int)

lemma be16_hi8_lo8 [simp]: "be16 (hi8 w) (lo8 w) = w"
  by (rule bit_word_eqI) (auto simp: be16_def hi8_def lo8_eq bit_simps)

lemma hi8_be16 [simp]: "hi8 (be16 h l) = h"
  by (rule bit_word_eqI) (auto simp: be16_def hi8_def bit_simps dest: bit_imp_le_length)

lemma lo8_be16 [simp]: "lo8 (be16 h l) = l"
  by (rule bit_word_eqI) (auto simp: be16_def lo8_eq bit_simps)

end
