(* ===== verification/Icp_Types.thy ===== *)
theory Icp_Types
  imports Prelude
begin

text \<open>
  The data of the ICP library (\<^verbatim>\<open>icp/include/icp.h\<close>, \<^verbatim>\<open>icp_config.h\<close>, \<^verbatim>\<open>icp_shared_config.h\<close>):
  node addresses, roles, return codes, packets, the configuration object behind \<open>g_conf\<close> with
  the library's other globals, and the platform callbacks with the macros that call them.
\<close>

section \<open>Constants and enumerations\<close>

datatype mac_addr =
  BROADCAST | NODE_PC | NODE_CAM | NODE_EPS | NODE_CDHS | NODE_TEST | NODE_BUS
| NUM_OF_NODES | INVALID_MAC_ADDR

primrec mac_num :: "mac_addr \<Rightarrow> u8" where
  "mac_num BROADCAST = 0"
| "mac_num NODE_PC = 1"
| "mac_num NODE_CAM = 2"
| "mac_num NODE_EPS = 3"
| "mac_num NODE_CDHS = 4"
| "mac_num NODE_TEST = 5"
| "mac_num NODE_BUS = 6"
| "mac_num NUM_OF_NODES = 7"
| "mac_num INVALID_MAC_ADDR = 8"

primrec mac_addrs :: "mac_addr \<Rightarrow> string" where
  "mac_addrs BROADCAST = ''BROADCAST''"
| "mac_addrs NODE_PC = ''PC''"
| "mac_addrs NODE_CAM = ''CAM''"
| "mac_addrs NODE_EPS = ''EPS''"
| "mac_addrs NODE_CDHS = ''CDHS''"
| "mac_addrs NODE_TEST = ''TEST''"
| "mac_addrs NODE_BUS = ''BUS''"
| "mac_addrs NUM_OF_NODES = ''''"
| "mac_addrs INVALID_MAC_ADDR = ''''"

datatype role = NO_ROLE | TX | RX | LISTEN_IN

definition BUFFER_LEN :: nat where "BUFFER_LEN = 64 * 1024 - 1"
definition ICP_PACKET_HEAD_LENGTH :: nat where "ICP_PACKET_HEAD_LENGTH = 4"
definition ICP_PACKET_TAIL_LENGTH :: nat where "ICP_PACKET_TAIL_LENGTH = 2"
definition ICP_MAX_PAYLOAD_LENGTH :: nat where
  "ICP_MAX_PAYLOAD_LENGTH = BUFFER_LEN div 2 - ICP_PACKET_HEAD_LENGTH - ICP_PACKET_TAIL_LENGTH"
definition ICP_MIN_PAYLOAD_LENGTH :: nat where "ICP_MIN_PAYLOAD_LENGTH = 1"

lemmas icp_lengths = BUFFER_LEN_def ICP_PACKET_HEAD_LENGTH_def ICP_PACKET_TAIL_LENGTH_def
  ICP_MAX_PAYLOAD_LENGTH_def ICP_MIN_PAYLOAD_LENGTH_def

text \<open>Return codes (\<open>icp_error_t\<close>) and the two states of a signal line.\<close>

definition ICP_SUCCESS :: u8 where "ICP_SUCCESS = 0"
definition ICP_BUSY :: u8 where "ICP_BUSY = 1"
definition ICP_INVALID_PARAMETERS :: u8 where "ICP_INVALID_PARAMETERS = 2"
definition INACTIVE :: u8 where "INACTIVE = 0"
definition ACTIVE :: u8 where "ACTIVE = 1"

lemmas icp_codes = ICP_SUCCESS_def ICP_BUSY_def ICP_INVALID_PARAMETERS_def INACTIVE_def ACTIVE_def

definition c_bool :: "bool \<Rightarrow> u8" where "c_bool b = (if b then 1 else 0)"

section \<open>Packets\<close>

text \<open>
  \<open>data\<close> is \<open>None\<close> for a null pointer; otherwise the bytes readable behind the pointer.
  \<open>data_block\<close> is the size of the block the library allocated for the bytes, 0 for a packet of
  the host.
\<close>

record icp_packet =
  destination :: u8
  source :: u8
  data_length :: u16
  data :: "u8 list option"
  checksum :: u16
  receive_timestamp :: u16
  receive2_timestamp :: u16
  data_block :: nat

definition ICP_packet_initializer :: icp_packet where
  "ICP_packet_initializer = \<lparr>destination = 0, source = 0, data_length = 0, data = None,
     checksum = 0, receive_timestamp = 0, receive2_timestamp = 0, data_block = 0\<rparr>"

section \<open>The configuration object and the globals\<close>

record icp_config =
  transmition_timeout :: u16
  ack_timeout :: u16
  rx_buffer :: "u8 list"
  rx_buf_size :: u16
  rx_buf_pos :: u16
  tx_buffer :: "u8 list"
  tx_buf_size :: u16
  tx_buf_start :: u16
  tx_buf_end :: u16
  destination_received :: bool
  received_in_this_frame :: u8
  waiting_for_ack :: bool
  listen_to_all :: bool
  role :: role

text \<open>
  The library's state: \<open>*g_conf\<close> with the file-level variables of \<^verbatim>\<open>icp.c\<close>, the address the
  binary was built for, the trace switches, and \<open>env\<close>, the state the callbacks keep.
\<close>

record 'w icp = icp_config +
  g_conf_set :: bool
  icp_update_in_progress :: bool
  ack_timeout_cnt :: u8
  g_icp_enable_debug_output :: bool
  g_icp_enable_err_output :: bool
  g_icp_enable_warn_output :: bool
  g_icp_enable_info_output :: bool
  local_mac_addr :: mac_addr
  env :: 'w

section \<open>Platform callbacks\<close>

text \<open>
  A callback may run any code of the host, which may call back into the library: it maps the
  whole state to a result and a new state.  \<open>None\<close> is an unregistered (null) callback.
\<close>

type_synonym ('w, 'r) cb = "('w icp \<Rightarrow> ('r \<times> 'w icp) outcome) option"

record 'w icp_callbacks =
  bytes_out_cb :: "(u8 list \<Rightarrow> u16 \<Rightarrow> 'w icp \<Rightarrow> (u8 \<times> 'w icp) outcome) option"
  packet_received_cb :: "(icp_packet \<Rightarrow> 'w icp \<Rightarrow> (u8 \<times> 'w icp) outcome) option"
  get_time_cb :: "('w, u16) cb"
  notify_packet_ack_cb :: "('w, u8) cb"
  set_access_sig_cb :: "('w, u8) cb"
  clear_access_sig_cb :: "('w, u8) cb"
  get_access_sig_cb :: "('w, u8) cb"
  set_shudup_sig_cb :: "('w, u8) cb"
  clear_shudup_sig_cb :: "('w, u8) cb"
  get_shudup_sig_cb :: "('w, u8) cb"
  error_cb_set :: bool
  notify_wrong_recipient_cb :: "('w, u8) cb"

text \<open>The macros that test the pointer yield 0 for a null callback.\<close>

definition call0 :: "('w, u8) cb \<Rightarrow> 'w icp \<Rightarrow> (u8 \<times> 'w icp) outcome" where
  "call0 f s = (case f of None \<Rightarrow> Done (0, s) | Some g \<Rightarrow> g s)"

definition ICP_SET_ACCESS_SIG :: "'w icp_callbacks \<Rightarrow> 'w icp \<Rightarrow> (u8 \<times> 'w icp) outcome" where
  "ICP_SET_ACCESS_SIG cbs s = call0 (set_access_sig_cb cbs) s"

definition ICP_CLEAR_ACCESS_SIG :: "'w icp_callbacks \<Rightarrow> 'w icp \<Rightarrow> (u8 \<times> 'w icp) outcome" where
  "ICP_CLEAR_ACCESS_SIG cbs s = call0 (clear_access_sig_cb cbs) s"

definition ICP_GET_ACCESS_SIG :: "'w icp_callbacks \<Rightarrow> 'w icp \<Rightarrow> (u8 \<times> 'w icp) outcome" where
  "ICP_GET_ACCESS_SIG cbs s = call0 (get_access_sig_cb cbs) s"

definition ICP_NOTIFY_WRONG_RECIPIENT :: "'w icp_callbacks \<Rightarrow> 'w icp \<Rightarrow> (u8 \<times> 'w icp) outcome" where
  "ICP_NOTIFY_WRONG_RECIPIENT cbs s = call0 (notify_wrong_recipient_cb cbs) s"

definition ICP_NOTIFY_PACKET_ACK :: "'w icp_callbacks \<Rightarrow> 'w icp \<Rightarrow> (u8 \<times> 'w icp) outcome" where
  "ICP_NOTIFY_PACKET_ACK cbs s = call0 (notify_packet_ack_cb cbs) s"

definition ICP_PACKET_RECEIVED ::
    "'w icp_callbacks \<Rightarrow> icp_packet \<Rightarrow> 'w icp \<Rightarrow> (u8 \<times> 'w icp) outcome" where
  "ICP_PACKET_RECEIVED cbs p s =
     (case packet_received_cb cbs of None \<Rightarrow> Done (0, s) | Some g \<Rightarrow> g p s)"

text \<open>The two that do not test it call through the pointer: a null callback is a fault.\<close>

definition ICP_BYTES_OUT ::
    "'w icp_callbacks \<Rightarrow> u8 list \<Rightarrow> u16 \<Rightarrow> 'w icp \<Rightarrow> (u8 \<times> 'w icp) outcome" where
  "ICP_BYTES_OUT cbs bytes len s =
     (case bytes_out_cb cbs of None \<Rightarrow> Fault | Some g \<Rightarrow> g bytes len s)"

definition ICP_GET_TIME :: "'w icp_callbacks \<Rightarrow> 'w icp \<Rightarrow> (u16 \<times> 'w icp) outcome" where
  "ICP_GET_TIME cbs s = (case get_time_cb cbs of None \<Rightarrow> Fault | Some g \<Rightarrow> g s)"

lemmas icp_calls = call0_def ICP_SET_ACCESS_SIG_def ICP_CLEAR_ACCESS_SIG_def
  ICP_GET_ACCESS_SIG_def ICP_NOTIFY_WRONG_RECIPIENT_def ICP_NOTIFY_PACKET_ACK_def
  ICP_PACKET_RECEIVED_def ICP_BYTES_OUT_def ICP_GET_TIME_def

end
