(* ===== verification/Crc16.thy ===== *)
theory Crc16
  imports Prelude
begin

text \<open>
  The checksum of an ICP frame, \<^verbatim>\<open>icp/source/icp_config.c\<close>: \<open>crc16_ccitt\<close> folds one byte into
  the running remainder without a table, \<open>crc16\<close> runs it over a buffer.  The lemmas relate the
  routine to the bit-serial division by the polynomial $x^{16}+x^{12}+x^5+1$ and show what the
  frame check needs: a frame followed by its own checksum has remainder 0, and a change confined
  to two adjacent bytes always changes the checksum.
\<close>

section \<open>The code\<close>

definition crc16_ccitt :: "u16 \<Rightarrow> u8 \<Rightarrow> u16" where
  "crc16_ccitt crc ser_data =
     (let crc = ucast (ucast (drop_bit 8 crc) :: u8) OR push_bit 8 crc;
          crc = crc XOR ucast ser_data;
          crc = crc XOR ucast (drop_bit 4 (ucast (crc AND 0xff) :: u8));
          crc = crc XOR push_bit 4 (push_bit 8 crc);
          crc = crc XOR push_bit 1 (push_bit 4 (crc AND 0xff))
      in crc)"

function crc16_loop :: "u8 list \<Rightarrow> nat \<Rightarrow> nat \<Rightarrow> u16 \<Rightarrow> u16 outcome" where
  "crc16_loop p i len crc =
     (if i < len
      then check (i < length p) (crc16_loop p (Suc i) len (crc16_ccitt crc (p ! i)))
      else Done crc)"
  by pat_completeness auto
termination
  by (relation "measure (\<lambda>(p, i, len, crc). len - i)") auto

declare crc16_loop.simps [simp del]

definition crc16 :: "u8 list \<Rightarrow> nat \<Rightarrow> u16 outcome" where
  "crc16 p len = crc16_loop p 0 len 0"

section \<open>The loop as a fold\<close>

definition crc_of :: "u8 list \<Rightarrow> u16" where
  "crc_of bs = foldl crc16_ccitt 0 bs"

lemma crc16_loop_fold:
  "i \<le> len \<Longrightarrow> len \<le> length p \<Longrightarrow>
   crc16_loop p i len crc = Done (foldl crc16_ccitt crc (drop i (take len p)))"
proof (induction p i len crc rule: crc16_loop.induct)
  case (1 p i len crc)
  show ?case
  proof (cases "i < len")
    case True
    then have "drop i (take len p) = p ! i # drop (Suc i) (take len p)"
      using "1.prems" by (metis Cons_nth_drop_Suc length_take min.absorb2 nth_take)
    then show ?thesis
      using 1 True by (simp add: crc16_loop.simps [of p i len crc])
  next
    case False
    then show ?thesis
      using "1.prems" by (subst crc16_loop.simps) simp
  qed
qed

lemma crc16_eq_crc_of: "len \<le> length p \<Longrightarrow> crc16 p len = Done (crc_of (take len p))"
  by (simp add: crc16_def crc_of_def crc16_loop_fold)

section \<open>One step, bit by bit\<close>

text \<open>
  \<open>crc_mix\<close> is what a step adds to the remainder shifted by one byte; it depends only on the
  exclusive or of the outgoing byte and the incoming one.
\<close>

definition crc_mix :: "u8 \<Rightarrow> u16" where
  "crc_mix t = (let u = ucast (t XOR drop_bit 4 t) in u XOR push_bit 5 u XOR push_bit 12 u)"

lemma bit_crc_mix:
  "bit (crc_mix t) n \<longleftrightarrow> n < 16 \<and>
     (bit (t XOR drop_bit 4 t) n \<noteq>
       ((5 \<le> n \<and> bit (t XOR drop_bit 4 t) (n - 5)) \<noteq> (12 \<le> n \<and> bit (t XOR drop_bit 4 t) (n - 12))))"
  by (auto simp: crc_mix_def Let_def bit_simps)


lemma crc16_ccitt_mix: "crc16_ccitt c d = push_bit 8 c XOR crc_mix (hi8 c XOR d)"
proof -
  define t where "t = hi8 c XOR d"
  define u where "u = (ucast (t XOR drop_bit 4 t) :: u16)"
  have 1: "(ucast (ucast (drop_bit 8 c) :: u8) OR push_bit 8 c) XOR ucast d
      = push_bit 8 c XOR ucast t"
    by (rule bit_word_eqI) (auto simp: t_def hi8_def bit_simps)
  have 2: "ucast ((push_bit 8 c XOR ucast t) AND 0xff) = t"
    by (rule bit_word_eqI) (auto simp: bit_simps bit_255_int)
  have 3: "(push_bit 8 c XOR ucast t) XOR ucast (drop_bit 4 t) = push_bit 8 c XOR u"
    by (rule bit_word_eqI) (auto simp: u_def bit_simps)
  have 4: "push_bit 4 (push_bit 8 (push_bit 8 c XOR u)) = push_bit 12 u"
    by (rule bit_word_eqI) (auto simp: bit_simps)
  have 5: "((push_bit 8 c XOR u) XOR push_bit 12 u) AND 0xff = u"
    by (rule bit_word_eqI)
      (auto simp: u_def bit_simps bit_255_int bit_255_u16 dest: bit_imp_le_length)
  have 6: "push_bit 1 (push_bit 4 u) = push_bit 5 u"
    by simp
  show ?thesis
    unfolding crc16_ccitt_def Let_def 1 2 3 4 5 6
    by (simp add: crc_mix_def u_def t_def Let_def ac_simps)
qed

lemma crc_mix_0 [simp]: "crc_mix 0 = 0"
  by (simp add: crc_mix_def)


lemma lo8_crc_mix_inj:
  assumes "lo8 (crc_mix s) = lo8 (crc_mix t)"
  shows "s = t"
proof (rule bit_word_eqI)
  fix n :: nat
  assume "n < LENGTH(8)"
  then have n: "n < 8" by simp
  define U where "U x = x XOR drop_bit 4 x" for x :: u8
  have b: "bit (crc_mix s) i = bit (crc_mix t) i" if "i < 8" for i
    using arg_cong [OF assms, of "\<lambda>w. bit w i"] that by (simp add: lo8_eq bit_simps)
  have low: "bit (U s) i = bit (U t) i" if "i < 5" for i
    using b [of i] that by (simp add: bit_crc_mix U_def)
  have all: "bit (U s) i = bit (U t) i" if "i < 8" for i
    using b [of i] low [of i] low [of "i - 5"] that
    by (cases "i < 5") (auto simp: bit_crc_mix U_def)
  have top: "bit s i = bit t i" if "4 \<le> i" "i < 8" for i
    using all [of i] that bit_imp_le_length [of s "4 + i"] bit_imp_le_length [of t "4 + i"]
    by (auto simp: U_def bit_simps)
  show "bit s n = bit t n"
    using all [OF n] top [of n] top [of "4 + n"] n
    by (cases "4 \<le> n") (auto simp: U_def bit_simps add.commute)
qed

lemma lo8_crc16_ccitt: "lo8 (crc16_ccitt c d) = lo8 (crc_mix (hi8 c XOR d))"
  by (rule bit_word_eqI) (simp add: crc16_ccitt_mix lo8_eq bit_simps)

lemma hi8_lo8_eqI: "hi8 c = hi8 c' \<Longrightarrow> lo8 c = lo8 c' \<Longrightarrow> c = c'"
  by (metis be16_hi8_lo8)

lemma lo8_push_8: "push_bit 8 c = push_bit 8 c' \<longleftrightarrow> lo8 c = lo8 c'" for c c' :: u16
proof
  assume h: "push_bit 8 c = push_bit 8 c'"
  show "lo8 c = lo8 c'"
  proof (rule bit_word_eqI)
    fix n :: nat
    assume "n < LENGTH(8)"
    with arg_cong [OF h, of "\<lambda>w. bit w (n + 8)"] show "bit (lo8 c) n = bit (lo8 c') n"
      by (simp add: lo8_eq bit_simps)
  qed
next
  assume h: "lo8 c = lo8 c'"
  show "push_bit 8 c = push_bit 8 c'"
  proof (rule bit_word_eqI)
    fix n :: nat
    assume "n < LENGTH(16)"
    with arg_cong [OF h, of "\<lambda>w. bit w (n - 8)"]
    show "bit (push_bit 8 c) n = bit (push_bit 8 c') n"
      by (auto simp: lo8_eq bit_simps)
  qed
qed

text \<open>One step determines the byte it mixed in with the high byte, and the low byte.\<close>

lemma crc16_ccitt_eqD:
  assumes "crc16_ccitt c d = crc16_ccitt c' d'"
  shows "hi8 c XOR d = hi8 c' XOR d'" "lo8 c = lo8 c'"
proof -
  have "lo8 (crc_mix (hi8 c XOR d)) = lo8 (crc_mix (hi8 c' XOR d'))"
    using assms by (metis lo8_crc16_ccitt)
  then show h: "hi8 c XOR d = hi8 c' XOR d'"
    by (rule lo8_crc_mix_inj)
  have "push_bit 8 x = crc16_ccitt x y XOR crc_mix (hi8 x XOR y)" for x y
    by (simp add: crc16_ccitt_mix xor.assoc)
  then have "push_bit 8 c = push_bit 8 c'"
    using assms h by metis
  then show "lo8 c = lo8 c'"
    by (simp add: lo8_push_8)
qed

section \<open>What the checksum detects\<close>

lemma foldl_crc16_inj: "foldl crc16_ccitt c xs = foldl crc16_ccitt c' xs \<Longrightarrow> c = c'"
proof (induction xs arbitrary: c c')
  case Nil
  then show ?case by simp
next
  case (Cons x xs)
  have "crc16_ccitt c x = crc16_ccitt c' x"
    using Cons.prems by (intro Cons.IH [of "crc16_ccitt c x" "crc16_ccitt c' x"]) simp
  note D = crc16_ccitt_eqD [OF this]
  from D(1) have "(hi8 c XOR x) XOR x = (hi8 c' XOR x) XOR x"
    by simp
  then have "hi8 c = hi8 c'"
    by (simp add: xor.assoc)
  with D(2) show ?case
    by (rule hi8_lo8_eqI [rotated])
qed

lemma xor_cancel_left: "a XOR x = a XOR y \<longleftrightarrow> x = y" for a :: "'a::len word"
  by (metis xor.assoc xor.left_neutral xor_self_eq)

lemma crc16_two_bytes_inj:
  assumes "crc16_ccitt (crc16_ccitt c a) b = crc16_ccitt (crc16_ccitt c a') b'"
  shows "a = a'" "b = b'"
proof -
  note D = crc16_ccitt_eqD [OF assms]
  from D(2) have "hi8 c XOR a = hi8 c XOR a'"
    unfolding lo8_crc16_ccitt by (rule lo8_crc_mix_inj)
  then show a: "a = a'"
    by (simp add: xor_cancel_left)
  with D(1) show "b = b'"
    by (simp add: xor_cancel_left)
qed

lemma crc_of_append: "crc_of (xs @ ys) = foldl crc16_ccitt (crc_of xs) ys"
  by (simp add: crc_of_def)

lemma crc_of_burst:
  assumes "(a, b) \<noteq> (a', b')"
  shows "crc_of (xs @ [a, b] @ ys) \<noteq> crc_of (xs @ [a', b'] @ ys)"
proof
  assume "crc_of (xs @ [a, b] @ ys) = crc_of (xs @ [a', b'] @ ys)"
  then have "foldl crc16_ccitt (crc16_ccitt (crc16_ccitt (crc_of xs) a) b) ys =
      foldl crc16_ccitt (crc16_ccitt (crc16_ccitt (crc_of xs) a') b') ys"
    by (simp add: crc_of_append)
  then show False
    using assms crc16_two_bytes_inj foldl_crc16_inj by blast
qed

lemma crc16_ccitt_hi8: "crc16_ccitt c (hi8 c) = push_bit 8 c"
  by (simp add: crc16_ccitt_mix)

lemma hi8_push_8: "hi8 (push_bit 8 c) = lo8 c"
  by (rule bit_word_eqI) (simp add: hi8_def lo8_eq bit_simps)

lemma crc_of_residue: "crc_of (xs @ [hi8 (crc_of xs), lo8 (crc_of xs)]) = 0"
proof -
  define c where "c = crc_of xs"
  have "crc16_ccitt (push_bit 8 c) (lo8 c) = push_bit 8 (push_bit 8 c)"
    by (metis crc16_ccitt_hi8 hi8_push_8)
  also have "\<dots> = 0"
    by (rule bit_word_eqI) (simp add: bit_simps)
  finally show ?thesis
    by (simp add: crc_of_append crc16_ccitt_hi8 flip: c_def)
qed

section \<open>The bit-serial division\<close>

text \<open>
  One message bit at a time, most significant first, through the shift register of the
  polynomial \<open>0x1021\<close>: the specification the table-free routine is measured against.
\<close>

definition crc_shift :: "u16 \<Rightarrow> bool \<Rightarrow> u16" where
  "crc_shift c b = (if bit c 15 \<noteq> b then push_bit 1 c XOR 0x1021 else push_bit 1 c)"

definition crc_serial :: "u8 list \<Rightarrow> u16" where
  "crc_serial bs = foldl crc_shift 0 (concat (map (\<lambda>d. map (bit d) [7, 6, 5, 4, 3, 2, 1, 0]) bs))"

lemma bit_0x1021: "bit (0x1021 :: u16) n \<longleftrightarrow> n = 0 \<or> n = 5 \<or> n = 12"
proof -
  have h: "(0x1021 :: u16) = push_bit 12 1 OR push_bit 5 1 OR 1"
    by simp
  have b: "bit (push_bit k 1 :: u16) n \<longleftrightarrow> n = k" if "k < 16" for k
    using that by (auto simp only: bit_push_bit_iff bit_1_iff possible_bit_word) auto
  show ?thesis
    unfolding h bit_or_iff by (simp only: b bit_1_iff possible_bit_word) auto
qed

lemma bit_crc_shift:
  "bit (crc_shift c b) n \<longleftrightarrow> n < 16 \<and>
    ((0 < n \<and> bit c (n - 1)) \<noteq> ((bit c 15 \<noteq> b) \<and> (n = 0 \<or> n = 5 \<or> n = 12)))"
proof -
  have "bit (push_bit 1 c) n \<longleftrightarrow> n < 16 \<and> 0 < n \<and> bit c (n - 1)"
    by (simp only: bit_push_bit_iff possible_bit_word) auto
  moreover have "bit (push_bit 1 c XOR 0x1021) n \<longleftrightarrow> bit (push_bit 1 c) n \<noteq> bit (0x1021 :: u16) n"
    by (simp only: bit_xor_iff)
  ultimately show ?thesis
    unfolding crc_shift_def bit_0x1021 by (cases "bit c 15 \<noteq> b") (simp_all only: if_True if_False, auto)
qed

lemma less_16_cases: "n < (16::nat) \<longleftrightarrow> n \<in> {0, 1, 2, 3, 4, 5, 6, 7, 8, 9, 10, 11, 12, 13, 14, 15}"
  unfolding insert_iff empty_iff by arith

lemma crc_serial_byte:
  "foldl crc_shift c (map (bit d) [7, 6, 5, 4, 3, 2, 1, 0]) = crc16_ccitt c d"
proof (rule bit_word_eqI)
  fix n :: nat
  assume "n < LENGTH(16)"
  then have "n \<in> {0, 1, 2, 3, 4, 5, 6, 7, 8, 9, 10, 11, 12, 13, 14, 15}"
    unfolding less_16_cases [symmetric] by simp
  moreover have "\<not> bit d k" if "8 \<le> k" for k
    using that bit_imp_le_length [of d k] by auto
  ultimately show "bit (foldl crc_shift c (map (bit d) [7, 6, 5, 4, 3, 2, 1, 0])) n
      = bit (crc16_ccitt c d) n"
    by (elim insertE; simp add: bit_crc_shift crc16_ccitt_mix bit_xor_iff bit_push_bit_iff bit_crc_mix
        hi8_def bit_drop_bit_eq bit_ucast_iff; argo?)
qed

lemma crc_serial_eq: "crc_serial bs = crc_of bs"
proof -
  have "foldl crc_shift c (concat (map (\<lambda>d. map (bit d) [7, 6, 5, 4, 3, 2, 1, 0]) bs))
      = foldl crc16_ccitt c bs" for c
  proof (induction bs arbitrary: c)
    case Nil
    then show ?case by simp
  next
    case (Cons d bs)
    have "foldl crc_shift c (concat (map (\<lambda>d. map (bit d) [7, 6, 5, 4, 3, 2, 1, 0]) (d # bs)))
        = foldl crc_shift (foldl crc_shift c (map (bit d) [7, 6, 5, 4, 3, 2, 1, 0]))
            (concat (map (\<lambda>d. map (bit d) [7, 6, 5, 4, 3, 2, 1, 0]) bs))"
      by simp
    then show ?case
      by (simp only: crc_serial_byte Cons.IH foldl_Cons)
  qed
  then show ?thesis
    by (simp add: crc_serial_def crc_of_def)
qed

end
