(* ===== verification/Icp_Core.thy ===== *)
theory Icp_Core
  imports Icp_Types Crc16
begin

text \<open>
  The operations of \<^verbatim>\<open>icp/source/icp.c\<close>, one definition per function, in the state-passing form
  of \<open>outcome\<close>.  The \<open>ICP_CHECK_ERR\<close> and \<open>ICP_CHECK_EXIT\<close> macros jump to the labels
  \<open>error\<close> and \<open>end\<close>: each is an \<open>if\<close> whose other branch is the code at the label.  Log output is
  left out; the one trace block that has an effect beyond output (its loop counter is 8 bits
  wide) is \<open>icp_debug_dump\<close>.
\<close>

section \<open>Initialisation\<close>

definition icp_init_conf_struct ::
    "bool \<Rightarrow> bool \<Rightarrow> 'w icp \<Rightarrow> (u8 \<times> 'w icp_callbacks \<times> 'w icp) outcome" where
  "icp_init_conf_struct p_conf_null debug s =
     (let cbs = \<lparr>bytes_out_cb = None, packet_received_cb = None, get_time_cb = None,
                 notify_packet_ack_cb = None, set_access_sig_cb = None, clear_access_sig_cb = None,
                 get_access_sig_cb = None, set_shudup_sig_cb = None, clear_shudup_sig_cb = None,
                 get_shudup_sig_cb = None, error_cb_set = False, notify_wrong_recipient_cb = None\<rparr>
      in if p_conf_null
         then (if debug then Done (ICP_INVALID_PARAMETERS, cbs, s) else Fault)
         else Done (ICP_SUCCESS, cbs,
                s\<lparr>transmition_timeout := 10000, ack_timeout := 5, waiting_for_ack := False,
                  destination_received := False, listen_to_all := False,
                  received_in_this_frame := 0, role := NO_ROLE\<rparr>))"

text \<open>
  \<open>icp_init\<close> on the configuration object: \<open>rx_mem\<close> and \<open>tx_mem\<close> are what the two calls of
  \<open>malloc\<close> return (\<open>None\<close> for no memory, otherwise the block with its initial content).  The
  third component of the result says whether the error path released the object behind
  \<open>g_conf\<close>.
\<close>

definition icp_init_error :: "'w icp \<Rightarrow> (u8 \<times> bool \<times> 'w icp) outcome" where
  "icp_init_error s = Done (ICP_INVALID_PARAMETERS, g_conf_set s, s)"

definition icp_init ::
    "bool \<Rightarrow> 'w icp_callbacks \<Rightarrow> u8 list option \<Rightarrow> u8 list option \<Rightarrow> 'w icp
      \<Rightarrow> (u8 \<times> bool \<times> 'w icp) outcome" where
  "icp_init p_conf_null cbs rx_mem tx_mem s =
     (if p_conf_null then icp_init_error s
      else if bytes_out_cb cbs = None then icp_init_error s
      else if packet_received_cb cbs = None then icp_init_error s
      else if get_time_cb cbs = None then icp_init_error s
      else if notify_packet_ack_cb cbs = None then icp_init_error s
      else if set_access_sig_cb cbs = None then icp_init_error s
      else if clear_access_sig_cb cbs = None then icp_init_error s
      else if get_access_sig_cb cbs = None then icp_init_error s
      else if set_shudup_sig_cb cbs = None then icp_init_error s
      else if clear_shudup_sig_cb cbs = None then icp_init_error s
      else if get_shudup_sig_cb cbs = None then icp_init_error s
      else
        (let s = s\<lparr>g_conf_set := True\<rparr> in
         case rx_mem of None \<Rightarrow> icp_init_error s
         | Some rx \<Rightarrow>
             check (BUFFER_LEN \<le> length rx)
               (let s = s\<lparr>rx_buffer := blit rx 0 (replicate BUFFER_LEN 0xFF), rx_buf_pos := 0,
                          rx_buf_size := of_nat BUFFER_LEN\<rparr> in
                case tx_mem of None \<Rightarrow> icp_init_error s
                | Some tx \<Rightarrow>
                    Done (ICP_SUCCESS, False,
                      s\<lparr>tx_buffer := tx, tx_buf_start := 0, tx_buf_end := 0,
                        tx_buf_size := of_nat BUFFER_LEN, icp_update_in_progress := False\<rparr>))))"

definition icp_deinit :: "'w icp \<Rightarrow> (u8 \<times> 'w icp) outcome" where
  "icp_deinit s = Done (ICP_SUCCESS, s)"

section \<open>Receiving\<close>

definition icp_flush_rx_buffer :: "'w icp \<Rightarrow> (u8 \<times> 'w icp) outcome" where
  "icp_flush_rx_buffer s =
     check (BUFFER_LEN \<le> length (rx_buffer s))
       (Done (1, s\<lparr>rx_buffer := blit (rx_buffer s) 0 (replicate BUFFER_LEN 0xFF),
                   rx_buf_pos := 0\<rparr>))"

text \<open>The first block of \<open>icp_bytes_in\<close>: the destination byte of a new frame.\<close>

definition icp_check_destination ::
    "'w icp_callbacks \<Rightarrow> u8 list \<Rightarrow> 'w icp \<Rightarrow> 'w icp outcome" where
  "icp_check_destination cbs byte_array s =
     (if role s = RX \<and> \<not> destination_received s
      then (let s = s\<lparr>destination_received := True\<rparr> in
            check (byte_array \<noteq> [])
              (if hd byte_array \<noteq> mac_num (local_mac_addr s)
               then (let s = s\<lparr>role := (if listen_to_all s then LISTEN_IN else NO_ROLE)\<rparr> in
                     if role s = NO_ROLE
                     then obind (icp_flush_rx_buffer s) (\<lambda>(_, s).
                          obind (ICP_NOTIFY_WRONG_RECIPIENT cbs s) (\<lambda>(_, s). Done s))
                     else Done s)
               else Done s))
      else Done s)"

definition icp_bytes_in ::
    "'w icp_callbacks \<Rightarrow> u8 list \<Rightarrow> u16 \<Rightarrow> 'w icp \<Rightarrow> (u8 \<times> 'w icp) outcome" where
  "icp_bytes_in cbs byte_array num_bytes s =
     obind (icp_check_destination cbs byte_array s) (\<lambda>s.
       if \<not> (role s = RX \<or> role s = LISTEN_IN) then Done (ICP_BUSY, s)
       else if \<not> (rx_buf_pos s < rx_buf_size s) then Done (ICP_BUSY, s)
       else if \<not> (unat (rx_buf_pos s) + unat num_bytes < unat (rx_buf_size s))
       then Done (ICP_BUSY, s)
       else if num_bytes \<noteq> 1
       then check (unat num_bytes \<le> length byte_array
                   \<and> unat (rx_buf_pos s) + unat num_bytes \<le> length (rx_buffer s))
              (Done (ICP_SUCCESS,
                 s\<lparr>rx_buffer := blit (rx_buffer s) (unat (rx_buf_pos s))
                                 (take (unat num_bytes) byte_array),
                   rx_buf_pos := rx_buf_pos s + num_bytes\<rparr>))
       else check (byte_array \<noteq> [] \<and> unat (rx_buf_pos s) < length (rx_buffer s))
              (Done (ICP_SUCCESS,
                 s\<lparr>rx_buffer := (rx_buffer s)[unat (rx_buf_pos s) := hd byte_array],
                   rx_buf_pos := rx_buf_pos s + 1\<rparr>)))"

text \<open>
  \<open>icp_process_rx_buffer\<close>.  Reads of the buffer are checked against its length (\<open>rx_at\<close>).  The
  copy of the payload moves \<open>data_length + 1\<close> bytes into a block of \<open>data_length\<close> bytes, as the
  code does: \<open>data\<close> holds the bytes moved and \<open>data_block\<close> the size of the block.  The
  allocation itself is taken to succeed.
\<close>

definition rx_at :: "'w icp \<Rightarrow> nat \<Rightarrow> u8 outcome" where
  "rx_at s i = check (i < length (rx_buffer s)) (Done (rx_buffer s ! i))"

definition rx_be16 :: "'w icp \<Rightarrow> nat \<Rightarrow> u16 outcome" where
  "rx_be16 s i = obind (rx_at s i) (\<lambda>h. obind (rx_at s (i + 1)) (\<lambda>l. Done (be16 h l)))"

definition icp_deliver ::
    "'w icp_callbacks \<Rightarrow> icp_packet \<Rightarrow> 'w icp \<Rightarrow> (u8 \<times> 'w icp) outcome" where
  "icp_deliver cbs packet s =
     obind (ICP_GET_TIME cbs s) (\<lambda>(t, s).
     let packet = packet\<lparr>receive_timestamp := t\<rparr> in
     obind (if role s = RX \<or> role s = LISTEN_IN
            then obind (if role s = RX
                        then obind (ICP_CLEAR_ACCESS_SIG cbs s) (\<lambda>(_, s). Done s)
                        else Done s)
                   (\<lambda>s. Done (s\<lparr>role := NO_ROLE\<rparr>))
            else Done s)
       (\<lambda>s. obind (icp_flush_rx_buffer s) (\<lambda>(_, s).
            obind (ICP_PACKET_RECEIVED cbs packet s) (\<lambda>(_, s). Done (ICP_SUCCESS, s)))))"

definition icp_process_rx_buffer ::
    "'w icp_callbacks \<Rightarrow> 'w icp \<Rightarrow> (u8 \<times> 'w icp) outcome" where
  "icp_process_rx_buffer cbs s =
     (if rx_buf_pos s = 0 then Done (ICP_SUCCESS, s)
      else obind (rx_at s 0) (\<lambda>dst.
        if \<not> dst < mac_num NUM_OF_NODES then Done (ICP_SUCCESS, s)
        else obind (rx_at s 1) (\<lambda>src.
          if \<not> src < mac_num NUM_OF_NODES then Done (ICP_SUCCESS, s)
          else obind (rx_be16 s 2) (\<lambda>len.
            if \<not> (unat len \<le> ICP_MAX_PAYLOAD_LENGTH \<and> ICP_MIN_PAYLOAD_LENGTH \<le> unat len)
            then Done (ICP_SUCCESS, s)
            else check (4 + (unat len + 1) \<le> length (rx_buffer s))
             (let packet_data = take (unat len + 1) (drop 4 (rx_buffer s));
                  i = 4 + unat len in
              obind (rx_be16 s i) (\<lambda>stored.
              obind (crc16 (rx_buffer s) i) (\<lambda>crc.
              if stored \<noteq> crc then Done (ICP_SUCCESS, s)
              else icp_deliver cbs
                     (ICP_packet_initializer
                        \<lparr>destination := dst, source := src, data_length := len,
                         data := Some packet_data, data_block := unat len, checksum := stored\<rparr>)
                     s)))))))"

section \<open>Sending\<close>

text \<open>
  The trace block of \<open>icp_send_packet\<close>, compiled in by \<open>ICPDEBUG\<close> and run while
  \<open>g_icp_enable_debug_output\<close> is set: two loops over the payload with a \<open>uint8_t\<close> counter.  A
  loop that visits a counter value again never ends (the body changes nothing else), so 256
  rounds of fuel decide the outcome.
\<close>

fun debug_loop :: "nat \<Rightarrow> u8 \<Rightarrow> u16 \<Rightarrow> u8 list \<Rightarrow> unit outcome" where
  "debug_loop 0 i len d = Stuck"
| "debug_loop (Suc fuel) i len d =
     (if unat i < unat len
      then check (unat i < length d) (debug_loop fuel (i + 1) len d)
      else Done ())"

definition icp_debug_dump :: "icp_packet option \<Rightarrow> 'w icp \<Rightarrow> unit outcome" where
  "icp_debug_dump p_packet s =
     (if g_icp_enable_debug_output s
      then (case p_packet of None \<Rightarrow> Fault
            | Some p \<Rightarrow>
                check (destination p < mac_num NUM_OF_NODES)
                  (obind (debug_loop 257 0 (data_length p) (case data p of None \<Rightarrow> [] | Some d \<Rightarrow> d))
                     (\<lambda>_. debug_loop 257 0 (data_length p) (case data p of None \<Rightarrow> [] | Some d \<Rightarrow> d))))
      else Done ())"

text \<open>The bytes written to the transmit buffer, in the order of the code.\<close>

definition icp_write_frame :: "icp_packet \<Rightarrow> u8 list \<Rightarrow> 'w icp \<Rightarrow> (u8 \<times> 'w icp) outcome" where
  "icp_write_frame p d s =
     (let data_len = data_length p;
          s = s\<lparr>tx_buf_start := 0, tx_buf_end := 0\<rparr> in
      check (4 + unat data_len + 2 \<le> length (tx_buffer s) \<and> unat data_len \<le> length d)
       (let tx = (tx_buffer s)[0 := destination p, 1 := mac_num (local_mac_addr s),
                   2 := ucast (drop_bit 8 data_len), 3 := ucast (data_len AND 0x00FF)];
            tx = (if data_len \<noteq> 0 then blit tx 4 (take (unat data_len) d) else tx);
            buf_i = 4 + data_len in
        obind (crc16 tx (unat buf_i)) (\<lambda>crc.
          let tx = tx[unat buf_i := ucast (drop_bit 8 crc),
                      unat buf_i + 1 := ucast (crc AND 0x00FF)];
              buf_i = buf_i + 2
          in Done (ICP_SUCCESS, s\<lparr>tx_buffer := tx, tx_buf_end := tx_buf_end s + (buf_i - 1)\<rparr>))))"

definition icp_send_packet :: "icp_packet option \<Rightarrow> 'w icp \<Rightarrow> (u8 \<times> 'w icp) outcome" where
  "icp_send_packet p_packet s =
     obind (icp_debug_dump p_packet s) (\<lambda>_.
       case p_packet of None \<Rightarrow> Done (ICP_INVALID_PARAMETERS, s)
       | Some p \<Rightarrow>
           if data p = None \<and> data_length p \<noteq> 0 then Done (ICP_INVALID_PARAMETERS, s)
           else if \<not> unat (data_length p) \<le> ICP_MAX_PAYLOAD_LENGTH
           then Done (ICP_INVALID_PARAMETERS, s)
           else if \<not> ICP_MIN_PAYLOAD_LENGTH < unat (data_length p)
           then Done (ICP_INVALID_PARAMETERS, s)
           else if \<not> destination p < mac_num NUM_OF_NODES then Done (ICP_INVALID_PARAMETERS, s)
           else icp_write_frame p (case data p of None \<Rightarrow> [] | Some d \<Rightarrow> d) s)"

definition icp_send_data ::
    "mac_addr \<Rightarrow> u8 list option \<Rightarrow> u16 \<Rightarrow> 'w icp \<Rightarrow> (u8 \<times> 'w icp) outcome" where
  "icp_send_data destination_mac d len s =
     icp_send_packet (Some (ICP_packet_initializer
        \<lparr>destination := mac_num destination_mac, data_length := len, data := d\<rparr>)) s"

text \<open>
  \<open>g_conf->tx_buf_start <= g_conf->tx_buf_end-1\<close> compares as \<open>int\<close>; the number of bytes the
  callback reports is a \<open>uint8_t\<close>.
\<close>

definition icp_tx_push :: "'w icp_callbacks \<Rightarrow> 'w icp \<Rightarrow> (bool \<times> 'w icp) outcome" where
  "icp_tx_push cbs s =
     check (unat (tx_buf_start s) < length (tx_buffer s))
       (obind (ICP_BYTES_OUT cbs (drop (unat (tx_buf_start s)) (tx_buffer s))
                 (tx_buf_end s - tx_buf_start s + 1) s)
          (\<lambda>(n, s). let s = s\<lparr>tx_buf_start := tx_buf_start s + ucast n\<rparr>
                    in Done (tx_buf_end s < tx_buf_start s, s)))"

definition icp_process_tx_buffer :: "'w icp_callbacks \<Rightarrow> 'w icp \<Rightarrow> (bool \<times> 'w icp) outcome" where
  "icp_process_tx_buffer cbs s =
     (if \<not> int (unat (tx_buf_start s)) \<le> int (unat (tx_buf_end s)) - 1
      then Done (tx_buf_end s < tx_buf_start s, s)
      else if role s \<noteq> TX
      then obind (ICP_GET_ACCESS_SIG cbs s) (\<lambda>(a, s).
             if a \<noteq> INACTIVE then Done (tx_buf_end s < tx_buf_start s, s)
             else obind (ICP_SET_ACCESS_SIG cbs s) (\<lambda>(r, s).
               if r \<noteq> ICP_SUCCESS then Done (tx_buf_end s < tx_buf_start s, s)
               else icp_tx_push cbs (s\<lparr>role := TX\<rparr>)))
      else icp_tx_push cbs s)"

definition icp_flush_tx_buffer :: "'w icp \<Rightarrow> (u8 \<times> 'w icp) outcome" where
  "icp_flush_tx_buffer s = Done (ICP_SUCCESS, s)"

section \<open>Notifications from the host\<close>

definition icp_notify_bytes_out_finished ::
    "'w icp_callbacks \<Rightarrow> 'w icp \<Rightarrow> (u8 \<times> 'w icp) outcome" where
  "icp_notify_bytes_out_finished cbs s =
     (let rc = 0 in
      check (tx_buffer s \<noteq> [])
       (if hd (tx_buffer s) = mac_num BROADCAST
        then obind (ICP_CLEAR_ACCESS_SIG cbs s) (\<lambda>(r, s).
               if r \<noteq> ICP_SUCCESS then Done (rc, s)
               else Done (rc, s\<lparr>role := NO_ROLE\<rparr>))
        else Done (rc, s\<lparr>waiting_for_ack := True\<rparr>)))"

definition icp_notify_acces_inactive ::
    "'w icp_callbacks \<Rightarrow> 'w icp \<Rightarrow> (u8 \<times> 'w icp) outcome" where
  "icp_notify_acces_inactive cbs s =
     obind (ICP_GET_ACCESS_SIG cbs s) (\<lambda>(a, s).
       let rc = c_bool (a = INACTIVE) in
       if rc = 0 then Done (rc, s)
       else if waiting_for_ack s \<and> role s = TX
       then obind (ICP_NOTIFY_PACKET_ACK cbs (s\<lparr>role := NO_ROLE, waiting_for_ack := False\<rparr>))
              (\<lambda>(_, s). Done (rc, s))
       else if role s = RX \<or> role s = LISTEN_IN
       then obind (icp_flush_rx_buffer (s\<lparr>role := NO_ROLE\<rparr>)) (\<lambda>(_, s). Done (rc, s))
       else Done (rc, s))"

definition icp_notify_acces_active ::
    "'w icp_callbacks \<Rightarrow> 'w icp \<Rightarrow> (u8 \<times> 'w icp) outcome" where
  "icp_notify_acces_active cbs s =
     obind (ICP_GET_ACCESS_SIG cbs s) (\<lambda>(a, s).
       let rc = c_bool (a = ACTIVE) in
       if rc = 0 then Done (rc, s)
       else Done (rc, s\<lparr>role := RX, received_in_this_frame := 0, destination_received := False\<rparr>))"

definition icp_set_listen_to_all :: "bool \<Rightarrow> 'w icp \<Rightarrow> (u8 \<times> 'w icp) outcome" where
  "icp_set_listen_to_all enable s = Done (1, s\<lparr>listen_to_all := enable\<rparr>)"

section \<open>The periodic update\<close>

definition icp_ack_timeout :: "'w icp_callbacks \<Rightarrow> 'w icp \<Rightarrow> (u8 \<times> 'w icp) outcome" where
  "icp_ack_timeout cbs s =
     obind (ICP_CLEAR_ACCESS_SIG cbs
              (s\<lparr>ack_timeout_cnt := 0, waiting_for_ack := False, role := NO_ROLE\<rparr>))
       (\<lambda>(_, s). Done (ICP_SUCCESS, s))"

text \<open>The code at the label \<open>end\<close>: the counter is compared, then incremented.\<close>

definition icp_update_end :: "'w icp_callbacks \<Rightarrow> 'w icp \<Rightarrow> (u8 \<times> 'w icp) outcome" where
  "icp_update_end cbs s =
     obind (if waiting_for_ack s
            then (let expired = unat (ack_timeout s) \<le> unat (ack_timeout_cnt s);
                      s = s\<lparr>ack_timeout_cnt := ack_timeout_cnt s + 1\<rparr> in
                  if expired then obind (icp_ack_timeout cbs s) (\<lambda>(_, s). Done s) else Done s)
            else Done s)
       (\<lambda>s. Done (ICP_BUSY, s\<lparr>icp_update_in_progress := False\<rparr>))"

definition icp_update :: "'w icp_callbacks \<Rightarrow> 'w icp \<Rightarrow> (u8 \<times> 'w icp) outcome" where
  "icp_update cbs s =
     (if icp_update_in_progress s then icp_update_end cbs s
      else obind (icp_process_rx_buffer cbs (s\<lparr>icp_update_in_progress := True\<rparr>)) (\<lambda>(_, s).
        if role s \<noteq> NO_ROLE then icp_update_end cbs s
        else obind (icp_process_tx_buffer cbs s) (\<lambda>(_, s).
               Done (ICP_SUCCESS, s\<lparr>icp_update_in_progress := False\<rparr>))))"

section \<open>Trace switches\<close>

definition icp_enable_debug_output :: "bool \<Rightarrow> 'w icp \<Rightarrow> u8 \<times> 'w icp" where
  "icp_enable_debug_output enabled s = (0, s\<lparr>g_icp_enable_debug_output := enabled\<rparr>)"

definition icp_enable_err_output :: "bool \<Rightarrow> 'w icp \<Rightarrow> u8 \<times> 'w icp" where
  "icp_enable_err_output enabled s = (0, s\<lparr>g_icp_enable_err_output := enabled\<rparr>)"

definition icp_enable_warn_output :: "bool \<Rightarrow> 'w icp \<Rightarrow> u8 \<times> 'w icp" where
  "icp_enable_warn_output enabled s = (0, s\<lparr>g_icp_enable_warn_output := enabled\<rparr>)"

definition icp_enable_info_output :: "bool \<Rightarrow> 'w icp \<Rightarrow> u8 \<times> 'w icp" where
  "icp_enable_info_output enabled s = (0, s\<lparr>g_icp_enable_info_output := enabled\<rparr>)"

definition icp_enable_all_output :: "bool \<Rightarrow> 'w icp \<Rightarrow> u8 \<times> 'w icp" where
  "icp_enable_all_output enabled s =
     (let (_, s) = icp_enable_debug_output enabled s;
          (_, s) = icp_enable_err_output enabled s;
          (_, s) = icp_enable_warn_output enabled s;
          (_, s) = icp_enable_info_output enabled s
      in (0, s))"

end
