(* ===== verification/Icp_Frame.thy ===== *)
theory Icp_Frame
  imports Icp_Core
begin

text \<open>
  The wire format of ICP as an abstract specification (\<open>icp_frame\<close>, \<open>icp_parse\<close>), the proof
  that \<open>icp_send_packet\<close> writes it and \<open>icp_process_rx_buffer\<close> reads it, and the locale
  \<open>frame_checksum\<close> with the two laws of the checksum routine that the format relies on: the
  library calls the routine through the macro \<open>icp_crc16\<close>, which a port may redefine.
\<close>

section \<open>What the frame format needs of a checksum\<close>

locale frame_checksum =
  fixes chk :: "u8 list \<Rightarrow> u16"
  assumes residue: "chk (m @ [hi8 (chk m), lo8 (chk m)]) = 0"
    and burst: "(a, b) \<noteq> (a', b') \<Longrightarrow> chk (xs @ [a, b] @ ys) \<noteq> chk (xs @ [a', b'] @ ys)"
begin

lemma trailer_unique: "chk (m @ [h, l]) = 0 \<longleftrightarrow> chk m = be16 h l"
proof
  assume "chk (m @ [h, l]) = 0"
  then have "chk (m @ [h, l] @ []) = chk (m @ [hi8 (chk m), lo8 (chk m)] @ [])"
    by (simp add: residue)
  then have "(h, l) = (hi8 (chk m), lo8 (chk m))"
    using burst by blast
  then show "chk m = be16 h l"
    by simp
next
  assume "chk m = be16 h l"
  then show "chk (m @ [h, l]) = 0"
    by (metis residue hi8_be16 lo8_be16)
qed

lemma corrupted_pair_rejected:
  assumes "chk (xs @ [a, b] @ ys) = 0" and "(a, b) \<noteq> (a', b')"
    and "xs @ [a', b'] @ ys = m @ [h, l]"
  shows "chk m \<noteq> be16 h l"
proof
  assume "chk m = be16 h l"
  then have "chk (xs @ [a', b'] @ ys) = 0"
    using assms(3) by (simp add: trailer_unique)
  then show False
    using assms(1,2) burst by metis
qed

end

interpretation crc: frame_checksum crc_of
  by unfold_locales (rule crc_of_residue, rule crc_of_burst)

section \<open>The format\<close>

definition icp_frame_body :: "u8 \<Rightarrow> u8 \<Rightarrow> u8 list \<Rightarrow> u8 list" where
  "icp_frame_body dst src d =
     [dst, src, hi8 (of_nat (length d)), lo8 (of_nat (length d))] @ d"

definition icp_frame :: "u8 \<Rightarrow> u8 \<Rightarrow> u8 list \<Rightarrow> u8 list" where
  "icp_frame dst src d =
     icp_frame_body dst src d @
       [hi8 (crc_of (icp_frame_body dst src d)), lo8 (crc_of (icp_frame_body dst src d))]"

lemma length_icp_frame_body [simp]: "length (icp_frame_body dst src d) = 4 + length d"
  by (simp add: icp_frame_body_def)

lemma length_icp_frame [simp]: "length (icp_frame dst src d) = 6 + length d"
  by (simp add: icp_frame_def)

lemma crc_of_icp_frame: "crc_of (icp_frame dst src d) = 0"
  by (simp add: icp_frame_def crc.residue)

section \<open>The sender writes the format\<close>

lemma list_update_pair:
  assumes "take n buf = xs" and "n + 1 < length buf"
  shows "buf[n := a, n + 1 := b] = xs @ [a, b] @ drop (n + 2) buf"
proof -
  obtain p q r where r: "drop n buf = p # q # r"
    using assms(2) by (metis Cons_nth_drop_Suc Suc_eq_plus1 Suc_lessD)
  have n: "length xs = n"
    using assms by auto
  have buf: "buf = xs @ p # q # r"
    using assms(1) r by (metis append_take_drop_id)
  have "drop (n + 2) buf = r"
    using n by (simp add: buf)
  then show ?thesis
    using n by (simp add: buf list_update_append)
qed

lemma length2_split:
  assumes "length xs = Suc (Suc 0)"
  obtains x y where "xs = [x, y]"
  using assms by (auto simp: length_Suc_conv)

lemma list4_split:
  assumes "4 \<le> length buf"
  obtains b0 b1 b2 b3 r where "buf = b0 # b1 # b2 # b3 # r"
  using assms by (metis (no_types) Suc_le_length_iff eval_nat_numeral(2,3) numeral_eq_Suc semiring_norm(26,27) pred_numeral_simps)


lemma icp_write_frame_eq:
  assumes room: "4 + length d + 2 \<le> length (tx_buffer s)"
    and len: "length d \<le> ICP_MAX_PAYLOAD_LENGTH"
    and p: "data_length p = of_nat (length d)"
  shows "icp_write_frame p (d @ e) s = Done (ICP_SUCCESS,
      s\<lparr>tx_buf_start := 0,
        tx_buffer := icp_frame (destination p) (mac_num (local_mac_addr s)) d
                       @ drop (6 + length d) (tx_buffer s),
        tx_buf_end := of_nat (5 + length d)\<rparr>)"
proof -
  let ?n = "length d"
  let ?body = "icp_frame_body (destination p) (mac_num (local_mac_addr s)) d"
  obtain b0 b1 b2 b3 r where tx: "tx_buffer s = b0 # b1 # b2 # b3 # r"
    using room by (metis add_leD1 list4_split)
  have u: "unat (of_nat ?n :: u16) = ?n" "unat (4 + of_nat ?n :: u16) = 4 + ?n"
    using len by (simp_all add: icp_lengths unat_word_ariths unat_of_nat)
  have e: "(4 + of_nat ?n + 2 - 1 :: u16) = of_nat (5 + ?n)"
    by simp
  define t1 where "t1 = (tx_buffer s)[0 := destination p, 1 := mac_num (local_mac_addr s),
      2 := hi8 (data_length p), 3 := lo8 (data_length p)]"
  define t2 where "t2 = (if data_length p \<noteq> 0 then blit t1 4 (take ?n (d @ e)) else t1)"
  have t2: "t2 = ?body @ drop (4 + ?n) (tx_buffer s)"
    using u room by (cases "d = []")
      (auto simp: t2_def t1_def p tx icp_frame_body_def blit_def word_unat_eq_iff numeral_eq_Suc)
  have "icp_write_frame p (d @ e) s =
     obind (crc16 t2 (4 + ?n)) (\<lambda>crc. Done (ICP_SUCCESS,
       s\<lparr>tx_buf_start := 0, tx_buffer := t2[4 + ?n := hi8 crc, 4 + ?n + 1 := lo8 crc],
         tx_buf_end := of_nat (5 + ?n)\<rparr>))"
    using room unfolding icp_write_frame_def Let_def p t2_def t1_def
    by (simp add: u e hi8_def lo8_def)
  moreover have "crc16 t2 (4 + ?n) = Done (crc_of ?body)"
    by (simp add: t2 crc16_eq_crc_of)
  moreover have "t2[4 + ?n := hi8 (crc_of ?body), 4 + ?n + 1 := lo8 (crc_of ?body)]
      = icp_frame (destination p) (mac_num (local_mac_addr s)) d @ drop (6 + ?n) (tx_buffer s)"
    using room by (subst list_update_pair [where xs = ?body]) (simp_all add: t2 icp_frame_def)
  ultimately show ?thesis
    by simp
qed

section \<open>The receiver reads the format\<close>

text \<open>
  \<open>icp_parse\<close> is the specification of the receiver's search: the packet that the bytes at the
  start of the buffer describe, if the header is valid and the checksum agrees.
\<close>

definition icp_parse :: "u8 list \<Rightarrow> icp_packet option" where
  "icp_parse buf =
     (let len = unat (be16 (buf ! 2) (buf ! 3)) in
      if buf ! 0 < mac_num NUM_OF_NODES \<and> buf ! 1 < mac_num NUM_OF_NODES
         \<and> ICP_MIN_PAYLOAD_LENGTH \<le> len \<and> len \<le> ICP_MAX_PAYLOAD_LENGTH
         \<and> be16 (buf ! (4 + len)) (buf ! (5 + len)) = crc_of (take (4 + len) buf)
      then Some (ICP_packet_initializer
        \<lparr>destination := buf ! 0, source := buf ! 1, data_length := of_nat len,
         data := Some (take (len + 1) (drop 4 buf)), data_block := len,
         checksum := crc_of (take (4 + len) buf)\<rparr>)
      else None)"

lemma icp_process_rx_buffer_parse:
  assumes "length (rx_buffer s) = BUFFER_LEN"
  shows "icp_process_rx_buffer cbs s =
     (if rx_buf_pos s = 0 then Done (ICP_SUCCESS, s)
      else case icp_parse (rx_buffer s) of None \<Rightarrow> Done (ICP_SUCCESS, s)
           | Some p \<Rightarrow> icp_deliver cbs p s)"
proof -
  have crc: "crc16 (rx_buffer s) (4 + n) = Done (crc_of (take (4 + n) (rx_buffer s)))"
    if "n \<le> ICP_MAX_PAYLOAD_LENGTH" for n
    using that assms by (intro crc16_eq_crc_of) (simp add: icp_lengths)
  show ?thesis
    using assms unfolding icp_process_rx_buffer_def icp_parse_def rx_be16_def rx_at_def Let_def
    by (auto simp: crc icp_lengths)
qed

text \<open>A buffer that begins with a frame parses to the frame's fields.\<close>

lemma icp_parse_frame:
  assumes "take (6 + length d) buf = icp_frame dst src d"
    and "dst < mac_num NUM_OF_NODES" "src < mac_num NUM_OF_NODES"
    and "ICP_MIN_PAYLOAD_LENGTH \<le> length d" "length d \<le> ICP_MAX_PAYLOAD_LENGTH"
  shows "icp_parse buf = Some (ICP_packet_initializer
     \<lparr>destination := dst, source := src, data_length := of_nat (length d),
      data := Some (d @ [hi8 (crc_of (icp_frame_body dst src d))]), data_block := length d,
      checksum := crc_of (icp_frame_body dst src d)\<rparr>)"
proof -
  let ?n = "length d"
  let ?c = "crc_of (icp_frame_body dst src d)"
  obtain r where "buf = icp_frame dst src d @ r"
    using assms(1) by (metis append_take_drop_id)
  then have buf: "buf = dst # src # hi8 (of_nat ?n) # lo8 (of_nat ?n) # d @ hi8 ?c # lo8 ?c # r"
    and pre: "buf = icp_frame_body dst src d @ hi8 ?c # lo8 ?c # r"
    by (simp_all add: icp_frame_def icp_frame_body_def)
  have u: "unat (of_nat ?n :: u16) = ?n"
    using assms(5) by (simp add: icp_lengths unat_of_nat)
  have body: "take (4 + ?n) buf = icp_frame_body dst src d"
    by (simp add: pre)
  have len: "be16 (buf ! 2) (buf ! 3) = of_nat ?n"
    by (simp add: buf)
  have dat: "take (?n + 1) (drop 4 buf) = d @ [hi8 ?c]"
    by (simp add: buf)
  have stored: "buf ! (4 + ?n) = hi8 ?c" "buf ! (5 + ?n) = lo8 ?c"
    by (simp_all add: pre nth_append)
  show ?thesis
    using assms(2-) by (simp add: icp_parse_def Let_def len u body stored dat) (simp add: buf)
qed

text \<open>Nothing but a frame parses.\<close>

lemma icp_parse_sound:
  assumes "icp_parse buf = Some p" and "6 + unat (data_length p) \<le> length buf"
  shows "\<exists>d. data p = Some (d @ [hi8 (checksum p)]) \<and> length d = unat (data_length p)
    \<and> take (6 + length d) buf = icp_frame (destination p) (source p) d
    \<and> destination p < mac_num NUM_OF_NODES \<and> source p < mac_num NUM_OF_NODES
    \<and> ICP_MIN_PAYLOAD_LENGTH \<le> length d \<and> length d \<le> ICP_MAX_PAYLOAD_LENGTH"
proof -
  define len where "len = unat (be16 (buf ! 2) (buf ! 3))"
  define c where "c = crc_of (take (4 + len) buf)"
  define d where "d = take len (drop 4 buf)"
  have hdr: "buf ! 0 < mac_num NUM_OF_NODES" "buf ! 1 < mac_num NUM_OF_NODES"
    "ICP_MIN_PAYLOAD_LENGTH \<le> len" "len \<le> ICP_MAX_PAYLOAD_LENGTH"
    and crc: "be16 (buf ! (4 + len)) (buf ! (5 + len)) = c"
    and p: "p = ICP_packet_initializer
        \<lparr>destination := buf ! 0, source := buf ! 1, data_length := of_nat len,
         data := Some (take (len + 1) (drop 4 buf)), data_block := len, checksum := c\<rparr>"
    using assms(1) by (auto simp: icp_parse_def Let_def len_def c_def split: if_splits)
  have u: "unat (data_length p) = len" "(of_nat len :: u16) = be16 (buf ! 2) (buf ! 3)"
    by (simp_all add: p len_def)
  have room: "6 + len \<le> length buf"
    using assms(2) u by simp
  then have "4 \<le> length buf"
    by simp
  then obtain b0 b1 b2 b3 r where buf: "buf = b0 # b1 # b2 # b3 # r"
    by (rule list4_split)
  have ld: "length d = len"
    using room by (simp add: d_def)
  have "4 + len = Suc (Suc (Suc (Suc len)))"
    by simp
  then have body: "icp_frame_body (buf ! 0) (buf ! 1) d = take (4 + len) buf"
    unfolding icp_frame_body_def ld u(2) by (simp only: buf d_def) simp
  have tr: "buf ! (4 + len) = hi8 c" "buf ! (5 + len) = lo8 c"
    using crc by (metis hi8_be16, metis lo8_be16)
  have "take (6 + len) buf = take (4 + len) buf @ [buf ! (4 + len), buf ! (5 + len)]"
    using room by (simp add: take_Suc_conv_app_nth numeral_eq_Suc)
  then have "take (6 + length d) buf = icp_frame (buf ! 0) (buf ! 1) d"
    by (simp add: icp_frame_def body [unfolded One_nat_def] ld tr c_def)
  moreover have "take (len + 1) (drop 4 buf) = d @ [hi8 c]"
    using room tr by (simp add: d_def take_Suc_conv_app_nth add.commute)
  ultimately show ?thesis
    using hdr u by (simp add: p ld)
qed

text \<open>
  A frame in which two adjacent bytes of the addresses, of the payload or of the checksum (or a
  single byte) were changed on the way does not parse.
\<close>

lemma icp_parse_corrupted:
  assumes f: "icp_frame dst src d = xs @ [a, b] @ ys" and ne: "(a, b) \<noteq> (a', b')"
    and len: "ICP_MIN_PAYLOAD_LENGTH \<le> length d" "length d \<le> ICP_MAX_PAYLOAD_LENGTH"
    and buf: "take (6 + length d) buf = xs @ [a', b'] @ ys"
    and at: "xs = [] \<or> 4 \<le> length xs"
  shows "icp_parse buf = None"
proof -
  let ?n = "length d"
  have n: "length xs + 2 + length ys = 6 + ?n"
    using arg_cong [OF f, of length] by simp
  obtain r where r: "buf = xs @ [a', b'] @ ys @ r"
    using buf by (metis append.assoc append_take_drop_id)
  have hdr: "buf ! 2 = icp_frame dst src d ! 2" "buf ! 3 = icp_frame dst src d ! 3"
    using at len n by (auto simp: r f nth_append icp_lengths nth_Cons' Suc_le_eq)
  then have l: "unat (be16 (buf ! 2) (buf ! 3)) = ?n"
    using len by (simp add: icp_frame_def icp_frame_body_def icp_lengths unat_of_nat)
  define f' where "f' = xs @ [a', b'] @ ys"
  define m where "m = take (4 + ?n) f'"
  have lf: "length f' = 6 + ?n"
    using n by (simp add: f'_def)
  have "length (drop (4 + ?n) f') = Suc (Suc 0)"
    by (simp add: lf)
  then obtain h k where "drop (4 + ?n) f' = [h, k]"
    by (rule length2_split)
  then have hk: "f' = m @ [h, k]"
    unfolding m_def by (metis append_take_drop_id)
  have lm: "length m = 4 + ?n"
    by (simp add: m_def lf)
  have "crc_of m \<noteq> be16 h k"
    using crc.corrupted_pair_rejected [OF _ ne hk [unfolded f'_def]] crc_of_icp_frame [of dst src d] f
    by simp
  moreover have "buf = m @ h # k # r"
    using r hk by (simp add: f'_def)
  then have "take (4 + ?n) buf = m" "buf ! (4 + ?n) = h" "buf ! (5 + ?n) = k"
    using lm by (simp_all add: nth_append)
  ultimately show ?thesis
    by (simp add: icp_parse_def Let_def l)
qed
end
