(* ===== verification/Icp_Safety.thy ===== *)
theory Icp_Safety
  imports Icp_Frame
begin

text \<open>
  Memory safety of the ICP library.  \<open>icp_inv\<close> is the well-formedness of the configuration
  object; the locale \<open>icp_platform\<close> is what the library relies on of its host: no callback
  faults, leaves the configuration object ill-formed or breaks an invariant \<open>H\<close> of the host's own
  state, and the two callbacks that are called without a test are registered.  Under that contract no operation accesses memory outside its
  buffers or calls a null pointer, and each keeps \<open>icp_inv\<close>.
\<close>

section \<open>The invariant\<close>

definition icp_inv :: "'w icp \<Rightarrow> bool" where
  "icp_inv s \<longleftrightarrow>
     length (rx_buffer s) = BUFFER_LEN \<and> rx_buf_size s = of_nat BUFFER_LEN
     \<and> unat (rx_buf_pos s) < BUFFER_LEN
     \<and> length (tx_buffer s) = BUFFER_LEN
     \<and> unat (tx_buf_end s) < ICP_PACKET_HEAD_LENGTH + ICP_MAX_PAYLOAD_LENGTH + ICP_PACKET_TAIL_LENGTH"

lemma icp_inv_frame [simp]:
  "icp_inv (s\<lparr>role := r\<rparr>) = icp_inv s"
  "icp_inv (s\<lparr>waiting_for_ack := b\<rparr>) = icp_inv s"
  "icp_inv (s\<lparr>destination_received := b\<rparr>) = icp_inv s"
  "icp_inv (s\<lparr>received_in_this_frame := n\<rparr>) = icp_inv s"
  "icp_inv (s\<lparr>listen_to_all := b\<rparr>) = icp_inv s"
  "icp_inv (s\<lparr>tx_buf_start := i\<rparr>) = icp_inv s"
  "icp_inv (s\<lparr>icp_update_in_progress := b\<rparr>) = icp_inv s"
  "icp_inv (s\<lparr>ack_timeout_cnt := k\<rparr>) = icp_inv s"
  "icp_inv (s\<lparr>env := w\<rparr>) = icp_inv s"
  "icp_inv (s\<lparr>g_icp_enable_debug_output := b\<rparr>) = icp_inv s"
  "icp_inv (s\<lparr>g_icp_enable_err_output := b\<rparr>) = icp_inv s"
  "icp_inv (s\<lparr>g_icp_enable_warn_output := b\<rparr>) = icp_inv s"
  "icp_inv (s\<lparr>g_icp_enable_info_output := b\<rparr>) = icp_inv s"
  by (simp_all add: icp_inv_def)

lemma icp_inv_rx:
  "icp_inv s \<Longrightarrow> length b = BUFFER_LEN \<Longrightarrow> unat p < BUFFER_LEN \<Longrightarrow>
   icp_inv (s\<lparr>rx_buffer := b, rx_buf_pos := p\<rparr>)"
  by (simp add: icp_inv_def)

lemma icp_inv_lengths:
  assumes "icp_inv s"
  shows "length (rx_buffer s) = BUFFER_LEN" "length (tx_buffer s) = BUFFER_LEN"
  using assms by (simp_all add: icp_inv_def)

lemma BUFFER_LEN_pos: "0 < BUFFER_LEN"
  by (simp add: BUFFER_LEN_def)

lemma unat_of_BUFFER_LEN: "unat (of_nat BUFFER_LEN :: u16) = BUFFER_LEN"
  by (simp add: BUFFER_LEN_def)

lemma unat_rx_buf_size: "icp_inv s \<Longrightarrow> unat (rx_buf_size s) = BUFFER_LEN"
  by (simp add: icp_inv_def unat_of_BUFFER_LEN)

text \<open>Together with it the host may keep an invariant \<open>H\<close> of its own state.\<close>

abbreviation good :: "('w \<Rightarrow> bool) \<Rightarrow> 'w icp \<Rightarrow> bool" where
  "good H s \<equiv> icp_inv s \<and> H (env s)"

abbreviation keeps :: "('w \<Rightarrow> bool) \<Rightarrow> ('r \<times> 'w icp) outcome \<Rightarrow> bool" where
  "keeps H m \<equiv> safe (\<lambda>(_, t). good H t) m"

text \<open>A packet whose payload pointer covers the announced length.\<close>

definition packet_ok :: "icp_packet \<Rightarrow> bool" where
  "packet_ok p \<longleftrightarrow>
     (case data p of None \<Rightarrow> data_length p = 0 | Some d \<Rightarrow> unat (data_length p) \<le> length d)"

section \<open>Operations that call no callback\<close>

lemma keeps_flush_rx: "good H s \<Longrightarrow> keeps H (icp_flush_rx_buffer s)"
  by (auto simp: icp_flush_rx_buffer_def icp_inv_lengths BUFFER_LEN_pos intro!: icp_inv_rx)

lemma icp_flush_rx_buffer_eq:
  "icp_inv s \<Longrightarrow> icp_flush_rx_buffer s =
     Done (1, s\<lparr>rx_buffer := replicate BUFFER_LEN 0xFF, rx_buf_pos := 0\<rparr>)"
  by (simp add: icp_flush_rx_buffer_def icp_inv_lengths blit_def)

lemma icp_write_frame_eq_of_ok:
  assumes inv: "icp_inv s" and len: "unat (data_length p) \<le> ICP_MAX_PAYLOAD_LENGTH"
    and d: "unat (data_length p) \<le> length d"
  shows "icp_write_frame p d s = Done (ICP_SUCCESS,
      s\<lparr>tx_buf_start := 0,
        tx_buffer := icp_frame (destination p) (mac_num (local_mac_addr s))
                       (take (unat (data_length p)) d)
                     @ drop (6 + unat (data_length p)) (tx_buffer s),
        tx_buf_end := of_nat (5 + unat (data_length p))\<rparr>)"
proof -
  let ?n = "unat (data_length p)"
  have l: "length (take ?n d) = ?n"
    using d by (simp add: min_absorb2)
  have "icp_write_frame p (take ?n d @ drop ?n d) s = Done (ICP_SUCCESS,
      s\<lparr>tx_buf_start := 0,
        tx_buffer := icp_frame (destination p) (mac_num (local_mac_addr s)) (take ?n d)
                     @ drop (6 + length (take ?n d)) (tx_buffer s),
        tx_buf_end := of_nat (5 + length (take ?n d))\<rparr>)"
    by (rule icp_write_frame_eq)
      (use assms l in \<open>auto simp: icp_inv_lengths icp_lengths\<close>)
  then show ?thesis
    unfolding l by simp
qed

lemma keeps_write_frame:
  assumes "good H s" and "unat (data_length p) \<le> ICP_MAX_PAYLOAD_LENGTH"
    and "unat (data_length p) \<le> length d"
  shows "keeps H (icp_write_frame p d s)"
proof -
  have "unat (of_nat (5 + unat (data_length p)) :: u16) = 5 + unat (data_length p)"
    using assms(2) unfolding unat_of_nat by (simp add: icp_lengths)
  then show ?thesis
    using assms
    by (simp only: icp_write_frame_eq_of_ok [OF conjunct1 [OF assms(1)] assms(2,3)] safe_simps prod.case)
      (simp add: icp_inv_def icp_lengths)
qed

lemma safe_debug_loop: "unat len \<le> length d \<Longrightarrow> safe (\<lambda>_. True) (debug_loop fuel i len d)"
  by (induction fuel i len d rule: debug_loop.induct) simp_all

lemma safe_debug_dump:
  assumes "g_icp_enable_debug_output s \<Longrightarrow>
     (\<exists>p. q = Some p \<and> packet_ok p \<and> destination p < mac_num NUM_OF_NODES)"
  shows "safe (\<lambda>_. True) (icp_debug_dump q s)"
proof (cases "g_icp_enable_debug_output s")
  case True
  then obtain p where p: "q = Some p" "packet_ok p" "destination p < mac_num NUM_OF_NODES"
    using assms by blast
  let ?d = "case data p of None \<Rightarrow> [] | Some d \<Rightarrow> d"
  have "safe (\<lambda>_. True) (debug_loop 257 0 (data_length p) ?d)"
    using p(2) by (intro safe_debug_loop) (simp add: packet_ok_def split: option.splits)
  then have "safe (\<lambda>_. True)
      (obind (debug_loop 257 0 (data_length p) ?d) (\<lambda>_. debug_loop 257 0 (data_length p) ?d))"
    by (cases "debug_loop 257 0 (data_length p) ?d") simp_all
  then show ?thesis
    using p(1,3) True by (simp add: icp_debug_dump_def)
qed (simp add: icp_debug_dump_def)

lemma keeps_send_packet:
  assumes inv: "good H s" and ok: "\<And>p. q = Some p \<Longrightarrow> packet_ok p"
    and dbg: "g_icp_enable_debug_output s \<Longrightarrow>
      (\<exists>p. q = Some p \<and> destination p < mac_num NUM_OF_NODES)"
  shows "keeps H (icp_send_packet q s)"
proof -
  have "keeps H (case q of None \<Rightarrow> Done (ICP_INVALID_PARAMETERS, s)
       | Some p \<Rightarrow>
           if data p = None \<and> data_length p \<noteq> 0 then Done (ICP_INVALID_PARAMETERS, s)
           else if \<not> unat (data_length p) \<le> ICP_MAX_PAYLOAD_LENGTH
           then Done (ICP_INVALID_PARAMETERS, s)
           else if \<not> ICP_MIN_PAYLOAD_LENGTH < unat (data_length p)
           then Done (ICP_INVALID_PARAMETERS, s)
           else if \<not> destination p < mac_num NUM_OF_NODES then Done (ICP_INVALID_PARAMETERS, s)
           else icp_write_frame p (case data p of None \<Rightarrow> [] | Some d \<Rightarrow> d) s)"
  proof (cases q)
    case (Some p)
    have "unat (data_length p) \<le> length (case data p of None \<Rightarrow> [] | Some d \<Rightarrow> d)"
      using ok [OF Some] by (simp add: packet_ok_def split: option.splits)
    then show ?thesis
      using inv by (simp only: Some option.case) (auto intro!: safe_if keeps_write_frame)
  qed (use inv in simp)
  moreover have "safe (\<lambda>_. True) (icp_debug_dump q s)"
    using ok dbg by (intro safe_debug_dump) blast
  ultimately show ?thesis
    unfolding icp_send_packet_def by (cases "icp_debug_dump q s") simp_all
qed

section \<open>The contract of the host\<close>

text \<open>
  The two callbacks that run between the test of the transmit window and its use may put another
  frame there but must not close the window: \<open>icp_process_tx_buffer\<close> does not test again.  A packet
  given to the host comes from the search of the receive buffer: its addresses are nodes, and the
  payload pointer covers one byte more than the announced length.
\<close>

definition window_open :: "'w icp \<Rightarrow> bool" where
  "window_open s \<longleftrightarrow> unat (tx_buf_start s) < unat (tx_buf_end s)"

abbreviation keeps_window :: "('w \<Rightarrow> bool) \<Rightarrow> 'w icp \<Rightarrow> ('r \<times> 'w icp) outcome \<Rightarrow> bool" where
  "keeps_window H s m \<equiv> safe (\<lambda>(_, t). good H t \<and> (window_open s \<longrightarrow> window_open t)) m"

definition delivered_ok :: "icp_packet \<Rightarrow> bool" where
  "delivered_ok p \<longleftrightarrow> destination p < mac_num NUM_OF_NODES \<and> source p < mac_num NUM_OF_NODES
     \<and> (case data p of None \<Rightarrow> False | Some d \<Rightarrow> length d = unat (data_length p) + 1)"

lemma keeps_window_keeps: "keeps_window H s m \<Longrightarrow> keeps H m"
  by (erule safe_mono) auto

locale icp_platform =
  fixes cbs :: "'w icp_callbacks" and H :: "'w \<Rightarrow> bool"
  assumes bytes_out: "good H s \<Longrightarrow> unat n \<le> length bytes \<Longrightarrow> keeps H (ICP_BYTES_OUT cbs bytes n s)"
    and get_time: "good H s \<Longrightarrow> keeps H (ICP_GET_TIME cbs s)"
    and packet_received: "good H s \<Longrightarrow> delivered_ok p \<Longrightarrow> keeps H (ICP_PACKET_RECEIVED cbs p s)"
    and set_access: "good H s \<Longrightarrow> keeps_window H s (ICP_SET_ACCESS_SIG cbs s)"
    and clear_access: "good H s \<Longrightarrow> keeps H (ICP_CLEAR_ACCESS_SIG cbs s)"
    and get_access: "good H s \<Longrightarrow> keeps_window H s (ICP_GET_ACCESS_SIG cbs s)"
    and wrong_recipient: "good H s \<Longrightarrow> keeps H (ICP_NOTIFY_WRONG_RECIPIENT cbs s)"
    and packet_ack: "good H s \<Longrightarrow> keeps H (ICP_NOTIFY_PACKET_ACK cbs s)"
begin

lemmas callbacks = bytes_out get_time packet_received clear_access wrong_recipient packet_ack
  set_access [THEN keeps_window_keeps] get_access [THEN keeps_window_keeps]

lemma keeps_bind:
  assumes "keeps H m" and "\<And>r t. good H t \<Longrightarrow> safe Q (f (r, t))"
  shows "safe Q (obind m f)"
  using assms by (cases m) auto

lemma safe_bind_state:
  assumes "safe (good H) m" and "\<And>t. good H t \<Longrightarrow> safe Q (f t)"
  shows "safe Q (obind m f)"
  using assms by (cases m) auto

lemma check_destination:
  "good H s \<Longrightarrow> bytes \<noteq> [] \<Longrightarrow> safe (good H) (icp_check_destination cbs bytes s)"
  unfolding icp_check_destination_def Let_def
  by (auto intro!: keeps_bind keeps_flush_rx callbacks)

lemma bytes_in:
  assumes inv: "good H s" and b: "bytes \<noteq> []" "unat n \<le> length bytes"
  shows "keeps H (icp_bytes_in cbs bytes n s)"
  unfolding icp_bytes_in_def
proof (rule safe_bind_state [OF check_destination [OF inv b(1)]], goal_cases)
  case (1 t)
  have sum: "unat (rx_buf_pos t + n) = unat (rx_buf_pos t) + unat n"
    if "unat (rx_buf_pos t) + unat n < unat (rx_buf_size t)"
    using that 1 by (intro unat_add_lem [THEN iffD1])
      (simp add: unat_rx_buf_size BUFFER_LEN_def)
  have one: "unat (rx_buf_pos t + 1) = unat (rx_buf_pos t) + 1"
    if "unat (rx_buf_pos t) + 1 < BUFFER_LEN"
    using that by (simp add: unat_word_ariths BUFFER_LEN_def)
  show ?case
    using 1 b sum one
    by (auto simp: unat_rx_buf_size icp_inv_lengths min_def intro!: safe_if icp_inv_rx)
qed

lemma delivered_timestamp [simp]: "delivered_ok (p\<lparr>receive_timestamp := r\<rparr>) = delivered_ok p"
  by (simp add: delivered_ok_def split: option.split)

lemma deliver: "good H s \<Longrightarrow> delivered_ok p \<Longrightarrow> keeps H (icp_deliver cbs p s)"
  unfolding icp_deliver_def Let_def
  by (auto intro!: keeps_bind safe_bind_state keeps_flush_rx callbacks)

lemma icp_parse_ok:
  assumes "icp_parse buf = Some p" and "length buf = BUFFER_LEN"
  shows "delivered_ok p"
  using assms unfolding icp_parse_def Let_def
  by (auto simp: delivered_ok_def icp_lengths split: if_splits)

lemma process_rx: "good H s \<Longrightarrow> keeps H (icp_process_rx_buffer cbs s)"
  using icp_parse_ok [of "rx_buffer s"]
  by (simp add: icp_process_rx_buffer_parse icp_inv_lengths deliver split: option.split)

lemma tx_push:
  assumes inv: "good H s" and pos: "unat (tx_buf_start s) < unat (tx_buf_end s)"
  shows "keeps H (icp_tx_push cbs s)"
proof -
  have fits: "unat (tx_buf_end s) < BUFFER_LEN"
    using inv by (simp add: icp_inv_def icp_lengths)
  have "unat (tx_buf_end s - tx_buf_start s + 1) = unat (tx_buf_end s) - unat (tx_buf_start s) + 1"
    using pos fits by (simp add: unat_word_ariths unat_sub word_le_nat_alt BUFFER_LEN_def)
  then show ?thesis
    using inv pos fits unfolding icp_tx_push_def
    by (auto simp: icp_inv_lengths Let_def intro!: keeps_bind bytes_out)
qed

lemma window_bind:
  assumes "keeps_window H s m"
    and "window_open s" and "\<And>r t. good H t \<Longrightarrow> window_open t \<Longrightarrow> safe Q (f (r, t))"
  shows "safe Q (obind m f)"
  using assms by (cases m) auto

lemma process_tx:
  assumes inv: "good H s"
  shows "keeps H (icp_process_tx_buffer cbs s)"
proof (cases "unat (tx_buf_start s) < unat (tx_buf_end s)")
  case True
  have "safe (\<lambda>(_, t). good H t)
      (obind (ICP_GET_ACCESS_SIG cbs s) (\<lambda>(a, s).
             if a \<noteq> INACTIVE then Done (tx_buf_end s < tx_buf_start s, s)
             else obind (ICP_SET_ACCESS_SIG cbs s) (\<lambda>(r, s).
               if r \<noteq> ICP_SUCCESS then Done (tx_buf_end s < tx_buf_start s, s)
               else icp_tx_push cbs (s\<lparr>role := TX\<rparr>))))"
    using True
    by (auto simp: window_open_def
        intro!: window_bind [OF get_access [OF inv]] window_bind [OF set_access] tx_push)
  then show ?thesis
    using True inv tx_push [OF inv] by (simp add: icp_process_tx_buffer_def)
next
  case False
  then have "\<not> int (unat (tx_buf_start s)) \<le> int (unat (tx_buf_end s)) - 1"
    by linarith
  then show ?thesis
    using inv by (simp only: icp_process_tx_buffer_def not_False_eq_True if_True safe_simps prod.case)
qed

lemma update_end: "good H s \<Longrightarrow> keeps H (icp_update_end cbs s)"
  unfolding icp_update_end_def icp_ack_timeout_def Let_def
  by (auto intro!: keeps_bind safe_bind_state callbacks)

lemma update: "good H s \<Longrightarrow> keeps H (icp_update cbs s)"
  unfolding icp_update_def
  by (auto intro!: update_end keeps_bind [OF process_rx] keeps_bind [OF process_tx])

lemma notify_bytes_out_finished: "good H s \<Longrightarrow> keeps H (icp_notify_bytes_out_finished cbs s)"
  unfolding icp_notify_bytes_out_finished_def Let_def
  by (auto simp: icp_inv_def BUFFER_LEN_def intro!: safe_check safe_if keeps_bind callbacks)

lemma notify_acces_inactive: "good H s \<Longrightarrow> keeps H (icp_notify_acces_inactive cbs s)"
  unfolding icp_notify_acces_inactive_def Let_def
  by (auto intro!: keeps_bind keeps_flush_rx callbacks)

lemma notify_acces_active: "good H s \<Longrightarrow> keeps H (icp_notify_acces_active cbs s)"
  unfolding icp_notify_acces_active_def Let_def
  by (auto intro!: keeps_bind callbacks)

end

end
