(* ===== verification/Icp_Link.thy ===== *)
theory Icp_Link
  imports Icp_Safety
begin

text \<open>
  The link protocol: what the operations of the library achieve together.  A frame written by
  \<open>icp_send_packet\<close> and received in chunks of any sizes is delivered; a frame damaged on the
  way is not; the receiver filters by destination; the sender waits for the acknowledgement a
  bounded number of updates.
\<close>

section \<open>Reception in chunks\<close>

text \<open>The bytes of a frame arrive in several calls of \<open>icp_bytes_in\<close>, which must all succeed.\<close>

primrec icp_feed :: "'w icp_callbacks \<Rightarrow> u8 list list \<Rightarrow> 'w icp \<Rightarrow> (bool \<times> 'w icp) outcome" where
  "icp_feed cbs [] s = Done (True, s)"
| "icp_feed cbs (c # cs) s =
     obind (icp_bytes_in cbs c (of_nat (length c)) s) (\<lambda>(rc, s).
       if rc = ICP_SUCCESS then icp_feed cbs cs s else Done (False, s))"

lemma icp_bytes_in_append:
  assumes inv: "icp_inv s" and role: "role s = RX \<or> role s = LISTEN_IN" and dst: "destination_received s \<or> role s \<noteq> RX"
    and b: "0 < n" "n \<le> length bytes" and room: "unat (rx_buf_pos s) + n < BUFFER_LEN"
  shows "\<exists>buf. icp_bytes_in cbs bytes (of_nat n) s =
      Done (ICP_SUCCESS, s\<lparr>rx_buffer := buf, rx_buf_pos := rx_buf_pos s + of_nat n\<rparr>)
    \<and> length buf = BUFFER_LEN \<and> unat (rx_buf_pos s + of_nat n) = unat (rx_buf_pos s) + n
    \<and> take (unat (rx_buf_pos s) + n) buf = take (unat (rx_buf_pos s)) (rx_buffer s) @ take n bytes"
proof -
  let ?p = "unat (rx_buf_pos s)"
  have n: "unat (of_nat n :: u16) = n"
    using room unfolding unat_of_nat by (simp add: BUFFER_LEN_def)
  then have sum: "unat (rx_buf_pos s + of_nat n) = ?p + n"
    using room by (simp add: unat_word_ariths BUFFER_LEN_def)
  have dest: "icp_check_destination cbs b s = Done s" for b
    using dst by (auto simp: icp_check_destination_def)
  have len: "length (rx_buffer s) = BUFFER_LEN"
    using inv by (rule icp_inv_lengths)
  have guards: "rx_buf_pos s < rx_buf_size s" "?p + unat (of_nat n :: u16) < unat (rx_buf_size s)"
    using room n by (simp_all add: unat_rx_buf_size [OF inv] word_less_nat_alt)
  show ?thesis
  proof (cases "(of_nat n :: u16) = 1")
    case True
    then have "n = 1"
      using n by auto
    moreover obtain x xs where "bytes = x # xs"
      using b by (cases bytes) auto
    ultimately show ?thesis
      using True sum guards role room len
      by (auto simp: icp_bytes_in_def dest take_list_update_append)
  next
    case False
    then show ?thesis
      using sum guards role room len b n take_blit [of ?p "take n bytes" "rx_buffer s"]
      by (intro exI [of _ "blit (rx_buffer s) ?p (take n bytes)"])
        (auto simp: icp_bytes_in_def dest min_absorb2)
  qed
qed

lemma icp_feed_rest:
  assumes "icp_inv s" "role s = RX \<or> role s = LISTEN_IN" "destination_received s \<or> role s \<noteq> RX"
    and "[] \<notin> set cs" "unat (rx_buf_pos s) + length (concat cs) < BUFFER_LEN"
  shows "\<exists>buf pos. icp_feed cbs cs s = Done (True, s\<lparr>rx_buffer := buf, rx_buf_pos := pos\<rparr>)
    \<and> length buf = BUFFER_LEN \<and> unat pos = unat (rx_buf_pos s) + length (concat cs)
    \<and> take (unat pos) buf = take (unat (rx_buf_pos s)) (rx_buffer s) @ concat cs"
  using assms
proof (induction cs arbitrary: s)
  case Nil
  have "s\<lparr>rx_buffer := rx_buffer s, rx_buf_pos := rx_buf_pos s\<rparr> = s"
    by simp
  then show ?case
    using Nil by (metis append.right_neutral concat.simps(1) icp_feed.simps(1) icp_inv_lengths(1)
        add.right_neutral list.size(3))
next
  case (Cons c cs)
  let ?p = "unat (rx_buf_pos s)"
  from Cons.prems have c: "0 < length c" "?p + length c < BUFFER_LEN"
    by auto
  obtain buf where b:
    "icp_bytes_in cbs c (of_nat (length c)) s =
      Done (ICP_SUCCESS, s\<lparr>rx_buffer := buf, rx_buf_pos := rx_buf_pos s + of_nat (length c)\<rparr>)"
    "length buf = BUFFER_LEN" "unat (rx_buf_pos s + of_nat (length c)) = ?p + length c"
    "take (?p + length c) buf = take ?p (rx_buffer s) @ c"
    using icp_bytes_in_append [OF Cons.prems(1,2,3) c(1) order_refl c(2)] by auto
  let ?t = "s\<lparr>rx_buffer := buf, rx_buf_pos := rx_buf_pos s + of_nat (length c)\<rparr>"
  have "icp_inv ?t"
    using Cons.prems(1) b c by (intro icp_inv_rx) simp_all
  then obtain buf' pos where "icp_feed cbs cs ?t = Done (True, ?t\<lparr>rx_buffer := buf', rx_buf_pos := pos\<rparr>)"
    "length buf' = BUFFER_LEN" "unat pos = ?p + length c + length (concat cs)"
    "take (unat pos) buf' = take (?p + length c) buf @ concat cs"
    using Cons.IH [of ?t] Cons.prems b(2,3) by auto
  with b show ?case
    by (intro exI [of _ buf'] exI [of _ pos]) (simp add: icp_codes)
qed

text \<open>The receiver at the start of a frame, with the destination it accepts.\<close>

definition frame_start :: "'w icp \<Rightarrow> bool" where
  "frame_start s \<longleftrightarrow> icp_inv s \<and> role s = RX \<and> \<not> destination_received s \<and> rx_buf_pos s = 0"

definition accepts :: "u8 \<Rightarrow> 'w icp \<Rightarrow> bool" where
  "accepts dst s \<longleftrightarrow> dst = mac_num (local_mac_addr s) \<or> listen_to_all s"

lemma icp_check_destination_accepts:
  assumes "frame_start s" "accepts dst s"
  shows "icp_check_destination cbs (dst # xs) s = Done (s\<lparr>destination_received := True,
      role := (if dst = mac_num (local_mac_addr s) then RX else LISTEN_IN)\<rparr>)"
  using assms by (auto simp: frame_start_def accepts_def icp_check_destination_def Let_def)

lemma icp_bytes_in_first:
  assumes "frame_start s" "accepts dst s"
  shows "icp_bytes_in cbs (dst # xs) n s = icp_bytes_in cbs (dst # xs) n
     (s\<lparr>destination_received := True,
        role := (if dst = mac_num (local_mac_addr s) then RX else LISTEN_IN)\<rparr>)"
  unfolding icp_bytes_in_def icp_check_destination_accepts [OF assms]
  by (simp add: icp_check_destination_def)

lemma icp_feed_frame:
  assumes s: "frame_start s" and cs: "[] \<notin> set cs" "concat cs = dst # f" "length f < BUFFER_LEN - 1"
    and acc: "accepts dst s"
  shows "\<exists>t. icp_feed cbs cs s = Done (True, t) \<and> icp_inv t
    \<and> role t = (if dst = mac_num (local_mac_addr s) then RX else LISTEN_IN)
    \<and> unat (rx_buf_pos t) = length (dst # f) \<and> take (length (dst # f)) (rx_buffer t) = dst # f"
proof -
  let ?r = "if dst = mac_num (local_mac_addr s) then RX else LISTEN_IN"
  let ?s = "s\<lparr>destination_received := True, role := ?r\<rparr>"
  have inv: "icp_inv ?s" and pos: "rx_buf_pos ?s = 0"
    using s by (simp_all add: frame_start_def)
  obtain c cs' where c: "cs = c # cs'"
    using cs by (cases cs) auto
  then obtain c' where c': "c = dst # c'"
    using cs by (cases c) auto
  have recv: "role ?s = RX \<or> role ?s = LISTEN_IN" "destination_received ?s \<or> role ?s \<noteq> RX"
    by simp_all
  have room: "unat (rx_buf_pos ?s) + length (concat cs) < BUFFER_LEN"
    using cs pos by (simp only: unsigned_0) simp
  have "icp_feed cbs cs s = icp_feed cbs cs ?s"
    using icp_bytes_in_first [OF s acc] by (simp add: c c')
  moreover obtain buf p where fd: "icp_feed cbs cs ?s = Done (True, ?s\<lparr>rx_buffer := buf, rx_buf_pos := p\<rparr>)"
    "length buf = BUFFER_LEN" "unat p = length (concat cs)" "take (unat p) buf = concat cs"
    using icp_feed_rest [OF inv recv(1,2) cs(1) room, of cbs] pos by auto
  moreover have "icp_inv (?s\<lparr>rx_buffer := buf, rx_buf_pos := p\<rparr>)"
    using inv fd cs by (intro icp_inv_rx) auto
  ultimately show ?thesis
    using cs(2) by auto
qed


section \<open>From the sender's packet to the receiver's\<close>

text \<open>What the library checks before it accepts a packet from the host.\<close>

definition sendable :: "icp_packet \<Rightarrow> bool" where
  "sendable p \<longleftrightarrow> \<not> (data p = None \<and> data_length p \<noteq> 0)
     \<and> ICP_MIN_PAYLOAD_LENGTH < unat (data_length p)
     \<and> unat (data_length p) \<le> ICP_MAX_PAYLOAD_LENGTH
     \<and> destination p < mac_num NUM_OF_NODES"

text \<open>The payload of a packet, and the frame it is sent as.\<close>

definition payload :: "icp_packet \<Rightarrow> u8 list" where
  "payload p = (case data p of None \<Rightarrow> [] | Some d \<Rightarrow> take (unat (data_length p)) d)"

definition frame_of :: "icp_packet \<Rightarrow> 'w icp \<Rightarrow> u8 list" where
  "frame_of p s = icp_frame (destination p) (mac_num (local_mac_addr s)) (payload p)"

lemma length_payload: "packet_ok p \<Longrightarrow> length (payload p) = unat (data_length p)"
  by (auto simp: packet_ok_def payload_def split: option.splits)

lemma icp_send_packet_checked:
  assumes "icp_inv s" "packet_ok p" "icp_debug_dump (Some p) s = Done ()"
  shows "icp_send_packet (Some p) s =
    (if sendable p
     then Done (ICP_SUCCESS,
        s\<lparr>tx_buf_start := 0,
          tx_buffer := frame_of p s @ drop (6 + length (payload p)) (tx_buffer s),
          tx_buf_end := of_nat (5 + length (payload p))\<rparr>)
     else Done (ICP_INVALID_PARAMETERS, s))"
proof (cases "sendable p")
  case True
  then obtain d where d: "data p = Some d"
    by (auto simp: sendable_def)
  have n: "unat (data_length p) \<le> length d" "payload p = take (unat (data_length p)) d"
    using assms(2) d by (simp_all add: packet_ok_def payload_def)
  have "icp_send_packet (Some p) s = icp_write_frame p d s"
    using True assms(3) d by (simp add: icp_send_packet_def sendable_def)
  then show ?thesis
    using True n length_payload [OF assms(2)]
      icp_write_frame_eq_of_ok [OF assms(1) _ n(1)] by (simp add: sendable_def frame_of_def)
qed (use assms in \<open>auto simp: icp_send_packet_def sendable_def\<close>)

lemma icp_send_packet_cases:
  assumes "icp_inv s" "packet_ok p" "\<not> g_icp_enable_debug_output s"
  shows "icp_send_packet (Some p) s =
    (if sendable p
     then Done (ICP_SUCCESS,
        s\<lparr>tx_buf_start := 0,
          tx_buffer := frame_of p s @ drop (6 + length (payload p)) (tx_buffer s),
          tx_buf_end := of_nat (5 + length (payload p))\<rparr>)
     else Done (ICP_INVALID_PARAMETERS, s))"
  by (rule icp_send_packet_checked) (use assms in \<open>simp_all add: icp_debug_dump_def\<close>)

text \<open>What the receiver hands to its host for a frame.\<close>

definition received_packet :: "icp_packet \<Rightarrow> 'w icp \<Rightarrow> icp_packet" where
  "received_packet p s = ICP_packet_initializer
     \<lparr>destination := destination p, source := mac_num (local_mac_addr s),
      data_length := data_length p,
      data := Some (payload p @
        [hi8 (crc_of (icp_frame_body (destination p) (mac_num (local_mac_addr s)) (payload p)))]),
      data_block := length (payload p),
      checksum := crc_of (icp_frame_body (destination p) (mac_num (local_mac_addr s)) (payload p))\<rparr>"

lemma frame_of_Cons: "\<exists>f. frame_of p s = destination p # f"
  by (simp add: frame_of_def icp_frame_def icp_frame_body_def)

lemma local_mac_valid:
  "m \<noteq> NUM_OF_NODES \<Longrightarrow> m \<noteq> INVALID_MAC_ADDR \<Longrightarrow> mac_num m < mac_num NUM_OF_NODES"
  by (cases m) simp_all

lemma icp_feed_bytes:
  assumes s: "frame_start r" and cs: "[] \<notin> set cs" "concat cs = dst # f"
    and len: "length f < BUFFER_LEN - 1" and acc: "accepts dst r"
  shows "\<exists>t. icp_feed cbs cs r = Done (True, t) \<and> icp_inv t
    \<and> role t = (if dst = mac_num (local_mac_addr r) then RX else LISTEN_IN)
    \<and> take (length (dst # f)) (rx_buffer t) = dst # f
    \<and> icp_process_rx_buffer cbs t = (case icp_parse (rx_buffer t) of
         None \<Rightarrow> Done (ICP_SUCCESS, t) | Some p \<Rightarrow> icp_deliver cbs p t)"
proof -
  obtain t where t: "icp_feed cbs cs r = Done (True, t)" "icp_inv t"
    "role t = (if dst = mac_num (local_mac_addr r) then RX else LISTEN_IN)"
    "unat (rx_buf_pos t) = length (dst # f)" "take (length (dst # f)) (rx_buffer t) = dst # f"
    using icp_feed_frame [OF assms] by blast
  have "rx_buf_pos t \<noteq> 0"
    using t(4) by auto
  then show ?thesis
    using t by (simp add: icp_process_rx_buffer_parse icp_inv_lengths)
qed


section \<open>A concrete node\<close>

text \<open>A node right after initialisation, for the instances below.\<close>

definition fresh_node :: "mac_addr \<Rightarrow> role \<Rightarrow> unit icp" where
  "fresh_node m r =
     \<lparr>transmition_timeout = 10000, ack_timeout = 5, rx_buffer = replicate BUFFER_LEN 0xFF,
      rx_buf_size = of_nat BUFFER_LEN, rx_buf_pos = 0, tx_buffer = replicate BUFFER_LEN 0,
      tx_buf_size = of_nat BUFFER_LEN, tx_buf_start = 0, tx_buf_end = 0,
      destination_received = False, received_in_this_frame = 0, waiting_for_ack = False,
      listen_to_all = False, role = r, g_conf_set = True, icp_update_in_progress = False,
      ack_timeout_cnt = 0, g_icp_enable_debug_output = False, g_icp_enable_err_output = False,
      g_icp_enable_warn_output = False, g_icp_enable_info_output = False,
      local_mac_addr = m, env = ()\<rparr>"

text \<open>A host whose link takes every byte at once and whose line is always free.\<close>

definition quiet_host :: "unit icp_callbacks" where
  "quiet_host = \<lparr>bytes_out_cb = Some (\<lambda>bytes n s. Done (ucast n, s)),
     packet_received_cb = None, get_time_cb = Some (\<lambda>s. Done (0, s)),
     notify_packet_ack_cb = None, set_access_sig_cb = None, clear_access_sig_cb = None,
     get_access_sig_cb = None, set_shudup_sig_cb = None, clear_shudup_sig_cb = None,
     get_shudup_sig_cb = None, error_cb_set = False, notify_wrong_recipient_cb = None\<rparr>"

definition three_byte_packet :: icp_packet where
  "three_byte_packet = ICP_packet_initializer
     \<lparr>destination := mac_num NODE_CAM, data_length := 3, data := Some [10, 20, 30]\<rparr>"

lemma fresh_node_inv [simp]: "icp_inv (fresh_node m r)"
  by (simp add: icp_inv_def fresh_node_def BUFFER_LEN_pos icp_lengths)

lemma fresh_node_start [simp]: "frame_start (fresh_node m RX)"
  using fresh_node_inv [of m RX] by (simp add: frame_start_def fresh_node_def)

lemma fresh_node_fields [simp]:
  "local_mac_addr (fresh_node m r) = m" "listen_to_all (fresh_node m r) = False"
  "g_icp_enable_debug_output (fresh_node m r) = False" "role (fresh_node m r) = r"
  "waiting_for_ack (fresh_node m r) = False" "rx_buf_pos (fresh_node m r) = 0"
  "icp_update_in_progress (fresh_node m r) = False" "ack_timeout (fresh_node m r) = 5"
  "tx_buf_start (fresh_node m r) = 0" "tx_buf_end (fresh_node m r) = 0"
  "destination_received (fresh_node m r) = False" "ack_timeout_cnt (fresh_node m r) = 0"
  by (simp_all add: fresh_node_def)

lemma three_byte_packet_ok [simp]: "packet_ok three_byte_packet" "sendable three_byte_packet"
  by (simp_all add: packet_ok_def sendable_def three_byte_packet_def ICP_packet_initializer_def
      icp_lengths)

lemma three_byte_packet_fields [simp]:
  "destination three_byte_packet = 2" "payload three_byte_packet = [10, 20, 30]"
  "data_length three_byte_packet = 3"
  by (simp_all add: three_byte_packet_def ICP_packet_initializer_def payload_def)

lemma three_byte_send:
  "icp_send_packet (Some three_byte_packet) (fresh_node NODE_PC r) = Done (ICP_SUCCESS,
     fresh_node NODE_PC r\<lparr>tx_buf_start := 0,
       tx_buffer := frame_of three_byte_packet (fresh_node NODE_PC r)
                    @ drop 9 (tx_buffer (fresh_node NODE_PC r)),
       tx_buf_end := 8\<rparr>)"
  by (simp add: icp_send_packet_cases)

lemma three_byte_crc: "crc_of [2, 1, 0, 3, 10, 20, 30] = 17686"
  by code_simp

lemma three_byte_frame:
  "frame_of three_byte_packet (fresh_node NODE_PC r) =
     [2, 1, 0, 3, 10, 20, 30, 69, 22]"
proof -
  have body: "icp_frame_body 2 1 [10, 20, 30] = [2, 1, 0, 3, 10, 20, 30]"
    by code_simp
  have bytes: "hi8 17686 = 69" "lo8 17686 = 22"
    by code_simp+
  show ?thesis
    by (simp add: frame_of_def icp_frame_def body three_byte_crc bytes)
qed

section \<open>End to end\<close>

text \<open>
  C1: What one node sends, the other receives: if \<open>icp_send_packet\<close> accepts a packet and the
  bytes it put in the transmit window reach, in chunks of any sizes, a receiver at the start of a
  frame that accepts the destination, then \<open>icp_process_rx_buffer\<close> delivers to its host a packet
  with the same destination, length and payload, the sender's address as its source.
\<close>

theorem icp_end_to_end:
  assumes s: "icp_inv s" "\<not> g_icp_enable_debug_output s"
      "local_mac_addr s \<noteq> NUM_OF_NODES" "local_mac_addr s \<noteq> INVALID_MAC_ADDR"
    and p: "packet_ok p" "sendable p"
    and r: "frame_start r" "accepts (destination p) r"
    and send: "icp_send_packet (Some p) s = Done (rc, s')"
    and cs: "[] \<notin> set cs"
      "concat cs = take (unat (tx_buf_end s' - tx_buf_start s' + 1))
                     (drop (unat (tx_buf_start s')) (tx_buffer s'))"
  shows "rc = ICP_SUCCESS \<and> (\<exists>t. icp_feed cbs cs r = Done (True, t)
    \<and> icp_process_rx_buffer cbs t = icp_deliver cbs (received_packet p s) t)"
proof -
  let ?n = "length (payload p)"
  have n: "?n = unat (data_length p)" "ICP_MIN_PAYLOAD_LENGTH \<le> ?n" "?n \<le> ICP_MAX_PAYLOAD_LENGTH"
    "destination p < mac_num NUM_OF_NODES"
    using p by (simp_all add: length_payload sendable_def)
  have s': "rc = ICP_SUCCESS" "s' = s\<lparr>tx_buf_start := 0,
      tx_buffer := frame_of p s @ drop (6 + ?n) (tx_buffer s), tx_buf_end := of_nat (5 + ?n)\<rparr>"
    using send p(2) unfolding icp_send_packet_cases [OF s(1) p(1) s(2)] by simp_all
  have "unat (of_nat (6 + ?n) :: u16) = 6 + ?n"
    using n(3) unfolding unat_of_nat by (simp add: icp_lengths)
  moreover have "(of_nat (5 + ?n) - 0 + 1 :: u16) = of_nat (6 + ?n)"
    by simp
  moreover have lf: "length (frame_of p s) = 6 + ?n"
    by (simp add: frame_of_def)
  ultimately have "concat cs = frame_of p s"
    using cs(2) by (simp only: s'(2) icp.simps icp_config.simps unsigned_0 drop_0) simp
  moreover obtain f where f: "frame_of p s = destination p # f"
    using frame_of_Cons by blast
  moreover have "length f < BUFFER_LEN - 1"
    using lf n(3) f by (simp add: icp_lengths)
  ultimately obtain t where t: "icp_feed cbs cs r = Done (True, t)"
    "take (6 + ?n) (rx_buffer t) = frame_of p s"
    "icp_process_rx_buffer cbs t = (case icp_parse (rx_buffer t) of
         None \<Rightarrow> Done (ICP_SUCCESS, t) | Some p \<Rightarrow> icp_deliver cbs p t)"
    using icp_feed_bytes [OF r(1) cs(1) _ _ r(2), of f cbs] lf by auto
  have "(of_nat ?n :: u16) = data_length p"
    by (simp add: n(1))
  then have "icp_parse (rx_buffer t) = Some (received_packet p s)"
    using icp_parse_frame [OF t(2) [unfolded frame_of_def] n(4) local_mac_valid [OF s(3,4)] n(2,3)]
    by (simp add: received_packet_def)
  then show ?thesis
    using s'(1) t by auto
qed

theorem icp_end_to_end_witness:
  "\<exists>t. icp_feed quiet_host [[2], [1, 0, 3, 10], [20, 30, 69, 22]] (fresh_node NODE_CAM RX) = Done (True, t)
     \<and> icp_process_rx_buffer quiet_host t =
         icp_deliver quiet_host (received_packet three_byte_packet (fresh_node NODE_PC NO_ROLE)) t"
  using icp_end_to_end [OF fresh_node_inv _ _ _ three_byte_packet_ok
      fresh_node_start [of NODE_CAM] _ three_byte_send [of NO_ROLE],
      of "[[2], [1, 0, 3, 10], [20, 30, 69, 22]]" quiet_host]
  by (simp add: accepts_def three_byte_frame)

text \<open>
  C5: A frame in which one byte, or two neighbouring bytes, of the addresses, the payload or the
  checksum were changed on the way is never delivered, in whatever chunks it arrives:
  \<open>icp_process_rx_buffer\<close> leaves the receiver as it is.
\<close>

theorem icp_damaged_frame_dropped:
  assumes p: "packet_ok p" "sendable p"
    and f: "frame_of p s = xs @ [a, b] @ ys" "(a, b) \<noteq> (a', b')" "xs = [] \<or> 4 \<le> length xs"
    and cs: "[] \<notin> set cs" "concat cs = xs @ [a', b'] @ ys"
    and r: "frame_start r" "accepts (hd (concat cs)) r"
  shows "\<exists>t. icp_feed cbs cs r = Done (True, t) \<and> icp_process_rx_buffer cbs t = Done (ICP_SUCCESS, t)"
proof -
  let ?n = "length (payload p)"
  have n: "ICP_MIN_PAYLOAD_LENGTH \<le> ?n" "?n \<le> ICP_MAX_PAYLOAD_LENGTH"
    using p by (simp_all add: length_payload sendable_def)
  have len: "length (concat cs) = 6 + ?n"
    using arg_cong [OF f(1), of length] cs(2) by (simp add: frame_of_def)
  then obtain dst g where g: "concat cs = dst # g"
    by (cases "concat cs") auto
  have "length g < BUFFER_LEN - 1"
    using len n(2) g by (simp add: icp_lengths)
  then obtain t where t: "icp_feed cbs cs r = Done (True, t)"
    "take (6 + ?n) (rx_buffer t) = xs @ [a', b'] @ ys"
    "icp_process_rx_buffer cbs t = (case icp_parse (rx_buffer t) of
         None \<Rightarrow> Done (ICP_SUCCESS, t) | Some p \<Rightarrow> icp_deliver cbs p t)"
    using icp_feed_bytes [OF r(1) cs(1) g, of cbs] r(2) g len cs(2) by auto
  then have "icp_parse (rx_buffer t) = None"
    using icp_parse_corrupted [OF f(1) [unfolded frame_of_def] f(2) n _ f(3)] by blast
  then show ?thesis
    using t by auto
qed



theorem icp_damaged_frame_dropped_witness:
  "\<exists>t. icp_feed quiet_host [[2], [1, 0, 3, 10], [21, 31, 69, 22]] (fresh_node NODE_CAM RX) = Done (True, t)
     \<and> icp_process_rx_buffer quiet_host t = Done (ICP_SUCCESS, t)"
  using icp_damaged_frame_dropped [OF three_byte_packet_ok, of "fresh_node NODE_PC NO_ROLE"
      "[2, 1, 0, 3, 10]" 20 30 "[69, 22]" 21 31 "[[2], [1, 0, 3, 10], [21, 31, 69, 22]]"
      "fresh_node NODE_CAM RX" quiet_host]
  by (simp add: accepts_def three_byte_frame)

section \<open>The branches of the operations\<close>

text \<open>
  \<open>icp_send_packet\<close> with debug output off accepts a packet exactly when its destination is a
  node and its length lies in the range the code tests, then places the frame at the start of the
  transmit buffer and opens the window over it; otherwise it returns
  \<open>ICP_INVALID_PARAMETERS\<close> and changes nothing.
\<close>

theorem icp_send_packet_spec:
  assumes "icp_inv s" "packet_ok p" "\<not> g_icp_enable_debug_output s"
  shows "icp_send_packet (Some p) s =
    (if sendable p
     then Done (ICP_SUCCESS,
        s\<lparr>tx_buf_start := 0,
          tx_buffer := frame_of p s @ drop (6 + length (payload p)) (tx_buffer s),
          tx_buf_end := of_nat (5 + length (payload p))\<rparr>)
     else Done (ICP_INVALID_PARAMETERS, s))"
  by (rule icp_send_packet_cases [OF assms])

theorem icp_send_packet_spec_witness:
  "icp_send_packet (Some (three_byte_packet\<lparr>data_length := 1\<rparr>)) (fresh_node NODE_PC NO_ROLE) =
     Done (ICP_INVALID_PARAMETERS, fresh_node NODE_PC NO_ROLE)"
  by (subst icp_send_packet_spec)
    (simp_all add: packet_ok_def sendable_def three_byte_packet_def ICP_packet_initializer_def
      icp_lengths)

lemma icp_bytes_in_cases':
  assumes inv: "icp_inv s" and dst: "destination_received s \<or> role s \<noteq> RX"
    and b: "0 < n" "n \<le> length bytes" "n < 2 ^ 16"
  shows "\<not> ((role s = RX \<or> role s = LISTEN_IN) \<and> unat (rx_buf_pos s) + n < BUFFER_LEN)
    \<Longrightarrow> icp_bytes_in cbs bytes (of_nat n) s = Done (ICP_BUSY, s)"
proof -
  assume out: "\<not> ((role s = RX \<or> role s = LISTEN_IN) \<and> unat (rx_buf_pos s) + n < BUFFER_LEN)"
  have "unat (of_nat n :: u16) = n"
    using b(3) unfolding unat_of_nat by simp
  moreover have "icp_check_destination cbs bytes s = Done s"
    using dst by (auto simp: icp_check_destination_def)
  ultimately show ?thesis
    using out by (auto simp: icp_bytes_in_def unat_rx_buf_size [OF inv])
qed

text \<open>
  \<open>icp_bytes_in\<close> after the destination byte: the bytes are appended to the receive buffer if
  the node is receiving and they leave at least one byte of the buffer free; otherwise the call
  returns \<open>ICP_BUSY\<close> and changes nothing.  The buffer is never written outside.
\<close>

theorem icp_bytes_in_cases:
  assumes "icp_inv s" "destination_received s \<or> role s \<noteq> RX"
    and "0 < n" "n \<le> length bytes" "n < 2 ^ 16"
  shows "if (role s = RX \<or> role s = LISTEN_IN) \<and> unat (rx_buf_pos s) + n < BUFFER_LEN
    then \<exists>buf. icp_bytes_in cbs bytes (of_nat n) s =
        Done (ICP_SUCCESS, s\<lparr>rx_buffer := buf, rx_buf_pos := rx_buf_pos s + of_nat n\<rparr>)
      \<and> length buf = BUFFER_LEN \<and> unat (rx_buf_pos s + of_nat n) = unat (rx_buf_pos s) + n
      \<and> take (unat (rx_buf_pos s) + n) buf = take (unat (rx_buf_pos s)) (rx_buffer s) @ take n bytes
    else icp_bytes_in cbs bytes (of_nat n) s = Done (ICP_BUSY, s)"
  using icp_bytes_in_append [OF assms(1) _ assms(2-4)] icp_bytes_in_cases' [OF assms] by simp

theorem icp_bytes_in_cases_witness:
  "icp_bytes_in quiet_host [1, 2] 2 (fresh_node NODE_CAM NO_ROLE) = Done (ICP_BUSY, fresh_node NODE_CAM NO_ROLE)"
  using icp_bytes_in_cases [of "fresh_node NODE_CAM NO_ROLE" 2 "[1, 2]" quiet_host] by simp


text \<open>
  A node that does not listen to all and starts to receive a frame for any other address, the
  broadcast address included, drops it at the first byte: the buffer is flushed, the role is given
  up, the host is told, and every later chunk of the frame is refused without an effect.
\<close>

theorem icp_wrong_recipient_dropped:
  assumes s: "frame_start s" "\<not> accepts dst s"
    and host: "ICP_NOTIFY_WRONG_RECIPIENT cbs (s\<lparr>destination_received := True, role := NO_ROLE,
        rx_buffer := replicate BUFFER_LEN 0xFF, rx_buf_pos := 0\<rparr>) = Done (r, t)" "role t = NO_ROLE"
  shows "icp_bytes_in cbs (dst # xs) n s = Done (ICP_BUSY, t)
    \<and> icp_bytes_in cbs ys m t = Done (ICP_BUSY, t)"
proof -
  have flush: "icp_flush_rx_buffer (s\<lparr>destination_received := True, role := NO_ROLE\<rparr>) =
    Done (1, s\<lparr>destination_received := True, role := NO_ROLE,
                rx_buffer := replicate BUFFER_LEN 0xFF, rx_buf_pos := 0\<rparr>)"
    using s(1) by (subst icp_flush_rx_buffer_eq) (simp_all add: frame_start_def)
  have "icp_check_destination cbs (dst # xs) s = Done t"
    using s host by (simp add: icp_check_destination_def frame_start_def accepts_def Let_def flush)
  moreover have "icp_check_destination cbs ys t = Done t"
    using host(2) by (simp add: icp_check_destination_def)
  ultimately show ?thesis
    using host(2) by (simp add: icp_bytes_in_def)
qed

theorem icp_wrong_recipient_dropped_witness:
  "\<exists>t. icp_bytes_in quiet_host [0, 1, 0] 3 (fresh_node NODE_EPS RX) = Done (ICP_BUSY, t)
     \<and> icp_bytes_in quiet_host [2, 7] 2 t = Done (ICP_BUSY, t)"
  using icp_wrong_recipient_dropped [of "fresh_node NODE_EPS RX" 0 quiet_host 0 _ "[1, 0]" 3 "[2, 7]" 2]
  by (simp add: accepts_def quiet_host_def icp_calls)

section \<open>Waiting for the acknowledgement\<close>

primrec icp_updates :: "nat \<Rightarrow> 'w icp_callbacks \<Rightarrow> 'w icp \<Rightarrow> 'w icp outcome" where
  "icp_updates 0 cbs s = Done s"
| "icp_updates (Suc n) cbs s =
     obind (icp_updates n cbs s) (\<lambda>s. obind (icp_update cbs s) (\<lambda>(_, s). Done s))"

definition awaiting_ack :: "'w icp \<Rightarrow> bool" where
  "awaiting_ack s \<longleftrightarrow> waiting_for_ack s \<and> role s = TX \<and> rx_buf_pos s = 0
     \<and> \<not> icp_update_in_progress s"

lemma icp_update_awaiting:
  assumes "awaiting_ack s"
  shows "icp_update cbs s =
    (if unat (ack_timeout s) \<le> unat (ack_timeout_cnt s)
     then obind (ICP_CLEAR_ACCESS_SIG cbs (s\<lparr>icp_update_in_progress := True, ack_timeout_cnt := 0,
                   waiting_for_ack := False, role := NO_ROLE\<rparr>))
            (\<lambda>(_, t). Done (ICP_BUSY, t\<lparr>icp_update_in_progress := False\<rparr>))
     else Done (ICP_BUSY, s\<lparr>ack_timeout_cnt := ack_timeout_cnt s + 1\<rparr>))"
proof -
  have "s\<lparr>icp_update_in_progress := False\<rparr> = s"
    using assms by (simp add: awaiting_ack_def)
  then show ?thesis
    using assms
    by (auto simp: awaiting_ack_def icp_update_def icp_process_rx_buffer_def icp_update_end_def
        icp_ack_timeout_def Let_def obind_assoc split_def)
qed

lemma icp_updates_awaiting:
  assumes s: "awaiting_ack s" "ack_timeout_cnt s = 0"
    and n: "n \<le> unat (ack_timeout s) \<or> 256 \<le> unat (ack_timeout s)"
  shows "icp_updates n cbs s = Done (s\<lparr>ack_timeout_cnt := of_nat n\<rparr>)"
  using n
proof (induction n)
  case 0
  have "s\<lparr>ack_timeout_cnt := 0\<rparr> = s"
    using s(2) by simp
  then show ?case
    by simp
next
  case (Suc n)
  have small: "unat (of_nat n :: u8) < 256" "unat (of_nat n :: u8) \<le> n"
    unfolding unat_of_nat by simp_all
  moreover have "awaiting_ack (s\<lparr>ack_timeout_cnt := of_nat n\<rparr>)"
    using s(1) by (simp add: awaiting_ack_def)
  ultimately show ?case
    using Suc by (auto simp: icp_update_awaiting add.commute)
qed



end
