(* ===== verification/Icp_Api.thy ===== *)
theory Icp_Api
  imports Icp_Link
begin

text \<open>
  The interface of the library as a whole: initialisation establishes the invariant, every
  sequence of calls keeps it and accesses no memory outside the buffers, and the transmit window
  and the trace output behave as the code's integer widths make them.
\<close>

section \<open>Initialisation\<close>

definition all_registered :: "'w icp_callbacks \<Rightarrow> bool" where
  "all_registered cbs \<longleftrightarrow>
     bytes_out_cb cbs \<noteq> None \<and> packet_received_cb cbs \<noteq> None \<and> get_time_cb cbs \<noteq> None
     \<and> notify_packet_ack_cb cbs \<noteq> None \<and> set_access_sig_cb cbs \<noteq> None
     \<and> clear_access_sig_cb cbs \<noteq> None \<and> get_access_sig_cb cbs \<noteq> None
     \<and> set_shudup_sig_cb cbs \<noteq> None \<and> clear_shudup_sig_cb cbs \<noteq> None
     \<and> get_shudup_sig_cb cbs \<noteq> None"

lemma icp_init_eq:
  "icp_init null cbs rx tx s =
     (if null \<or> \<not> all_registered cbs then Done (ICP_INVALID_PARAMETERS, g_conf_set s, s)
      else case rx of
        None \<Rightarrow> Done (ICP_INVALID_PARAMETERS, True, s\<lparr>g_conf_set := True\<rparr>)
      | Some r \<Rightarrow> check (BUFFER_LEN \<le> length r)
         (let t = s\<lparr>g_conf_set := True, rx_buffer := blit r 0 (replicate BUFFER_LEN 0xFF),
                    rx_buf_pos := 0, rx_buf_size := of_nat BUFFER_LEN\<rparr> in
          case tx of None \<Rightarrow> Done (ICP_INVALID_PARAMETERS, True, t)
          | Some b \<Rightarrow> Done (ICP_SUCCESS, False,
              t\<lparr>tx_buffer := b, tx_buf_start := 0, tx_buf_end := 0,
                tx_buf_size := of_nat BUFFER_LEN, icp_update_in_progress := False\<rparr>)))"
  by (auto simp: icp_init_def icp_init_error_def all_registered_def Let_def check_def
      split: option.split)

text \<open>
  \<open>icp_init\<close>, with blocks of \<open>BUFFER_LEN\<close> bytes from the allocator, returns success exactly when
  the configuration is there, every one of the ten mandatory callbacks is registered and both
  allocations succeeded; then the configuration object satisfies the invariant and both buffers
  are empty.  Every other outcome is \<open>ICP_INVALID_PARAMETERS\<close>.
\<close>

theorem icp_init_establishes:
  assumes "\<And>b. rx = Some b \<Longrightarrow> length b = BUFFER_LEN" "\<And>b. tx = Some b \<Longrightarrow> length b = BUFFER_LEN"
  shows "\<exists>rc freed t. icp_init null cbs rx tx s = Done (rc, freed, t)
    \<and> (rc = ICP_SUCCESS \<longleftrightarrow> \<not> null \<and> all_registered cbs \<and> rx \<noteq> None \<and> tx \<noteq> None)
    \<and> (if rc = ICP_SUCCESS
       then icp_inv t \<and> rx_buf_pos t = 0 \<and> tx_buf_start t = 0 \<and> tx_buf_end t = 0
            \<and> g_conf_set t \<and> \<not> icp_update_in_progress t \<and> \<not> freed
       else rc = ICP_INVALID_PARAMETERS)"
  using assms by (cases rx; cases tx)
    (auto simp: icp_init_eq icp_inv_def icp_codes icp_lengths Let_def)

theorem icp_init_establishes_witness:
  "\<exists>rc freed t. icp_init False quiet_host (Some (replicate BUFFER_LEN 7)) None (fresh_node NODE_PC TX)
     = Done (rc, freed, t) \<and> rc = ICP_INVALID_PARAMETERS"
  using icp_init_establishes [of "Some (replicate BUFFER_LEN 7)" None False quiet_host
      "fresh_node NODE_PC TX"]
  by (auto split: if_splits)

section \<open>Sequences of calls\<close>

text \<open>The calls a host can make after initialisation, and what each runs.\<close>

datatype icp_call =
  Update | Bytes_in "u8 list" u16 | Send_packet "icp_packet option"
| Send_data mac_addr "u8 list option" u16 | Bytes_out_finished | Acces_active | Acces_inactive
| Listen_to_all bool | Flush_tx | Flush_rx | Deinit | Debug_output bool | All_output bool

definition drop_result :: "('r \<times> 's) outcome \<Rightarrow> 's outcome" where
  "drop_result m = obind m (\<lambda>(_, t). Done t)"

primrec icp_do :: "'w icp_callbacks \<Rightarrow> icp_call \<Rightarrow> 'w icp \<Rightarrow> 'w icp outcome" where
  "icp_do cbs Update s = drop_result (icp_update cbs s)"
| "icp_do cbs (Bytes_in b n) s = drop_result (icp_bytes_in cbs b n s)"
| "icp_do cbs (Send_packet q) s = drop_result (icp_send_packet q s)"
| "icp_do cbs (Send_data m d n) s = drop_result (icp_send_data m d n s)"
| "icp_do cbs Bytes_out_finished s = drop_result (icp_notify_bytes_out_finished cbs s)"
| "icp_do cbs Acces_active s = drop_result (icp_notify_acces_active cbs s)"
| "icp_do cbs Acces_inactive s = drop_result (icp_notify_acces_inactive cbs s)"
| "icp_do cbs (Listen_to_all b) s = drop_result (icp_set_listen_to_all b s)"
| "icp_do cbs Flush_tx s = drop_result (icp_flush_tx_buffer s)"
| "icp_do cbs Flush_rx s = drop_result (icp_flush_rx_buffer s)"
| "icp_do cbs Deinit s = drop_result (icp_deinit s)"
| "icp_do cbs (Debug_output b) s = Done (snd (icp_enable_debug_output b s))"
| "icp_do cbs (All_output b) s = Done (snd (icp_enable_all_output b s))"

text \<open>
  What the host must respect: pointers cover the lengths passed with them, a chunk of received
  bytes is not empty, and, while debug output is on, the packet is there and its destination is a
  node (the trace reads its name before the packet is checked).
\<close>

definition sound_packet :: "icp_packet option \<Rightarrow> 'w icp \<Rightarrow> bool" where
  "sound_packet q s \<longleftrightarrow> (case q of None \<Rightarrow> \<not> g_icp_enable_debug_output s
     | Some p \<Rightarrow> packet_ok p
         \<and> (g_icp_enable_debug_output s \<longrightarrow> destination p < mac_num NUM_OF_NODES))"

fun sound_call :: "icp_call \<Rightarrow> 'w icp \<Rightarrow> bool" where
  "sound_call (Bytes_in b n) s \<longleftrightarrow> b \<noteq> [] \<and> unat n \<le> length b"
| "sound_call (Send_packet q) s \<longleftrightarrow> sound_packet q s"
| "sound_call (Send_data m d n) s \<longleftrightarrow> sound_packet (Some (ICP_packet_initializer
      \<lparr>destination := mac_num m, data_length := n, data := d\<rparr>)) s"
| "sound_call _ s \<longleftrightarrow> True"

inductive icp_reachable :: "'w icp_callbacks \<Rightarrow> 'w icp \<Rightarrow> 'w icp \<Rightarrow> bool"
  for cbs :: "'w icp_callbacks" and s0 :: "'w icp" where
  start: "icp_reachable cbs s0 s0"
| step: "icp_reachable cbs s0 s \<Longrightarrow> sound_call c s \<Longrightarrow> icp_do cbs c s = Done t \<Longrightarrow>
    icp_reachable cbs s0 t"

inductive_cases icp_reachableE: "icp_reachable cbs s0 s"

lemma safe_drop_result: "keeps H m \<Longrightarrow> safe (good H) (drop_result m)"
  by (cases m) (auto simp: drop_result_def)

lemma keeps_send_sound: "good H s \<Longrightarrow> sound_packet q s \<Longrightarrow> keeps H (icp_send_packet q s)"
  by (intro keeps_send_packet) (auto simp: sound_packet_def split: option.splits)

context icp_platform
begin

lemma safe_do: "good H s \<Longrightarrow> sound_call c s \<Longrightarrow> safe (good H) (icp_do cbs c s)"
  by (cases c)
    (auto intro!: safe_drop_result update bytes_in keeps_send_sound notify_bytes_out_finished
      notify_acces_active notify_acces_inactive keeps_flush_rx
      simp: icp_send_data_def icp_set_listen_to_all_def icp_flush_tx_buffer_def icp_deinit_def
        icp_enable_debug_output_def icp_enable_all_output_def icp_enable_err_output_def
        icp_enable_warn_output_def icp_enable_info_output_def)

lemma reachable_inv: "icp_reachable cbs s0 s \<Longrightarrow> good H s0 \<Longrightarrow> good H s"
proof (induction rule: icp_reachable.induct)
  case (step s c t)
  then show ?case
    using safe_do [of s c] by simp
qed

end

interpretation quiet: icp_platform quiet_host "\<lambda>_. True"
proof unfold_locales
qed (simp_all add: quiet_host_def icp_calls)




section \<open>Integer widths\<close>

lemma less_Suc_mod_256: "e < (e + 1) mod 256 \<longleftrightarrow> e + 1 < (256 :: nat)"
  using mod_less_divisor [of 256 "e + 1"] by (cases "e + 1 < 256") (simp_all del: mod_less_divisor)

lemma icp_tx_push_whole:
  assumes inv: "icp_inv s" and start: "tx_buf_start s = 0"
    and out: "ICP_BYTES_OUT cbs (tx_buffer s) (tx_buf_end s + 1) s = Done (ucast (tx_buf_end s + 1), s)"
  shows "icp_tx_push cbs s = Done (unat (tx_buf_end s) + 1 < 256,
     s\<lparr>tx_buf_start := of_nat ((unat (tx_buf_end s) + 1) mod 256)\<rparr>)"
proof -
  have fits: "unat (tx_buf_end s) + 1 < 2 ^ 16"
    using inv by (simp add: icp_inv_def icp_lengths)
  then have u: "unat (tx_buf_end s + 1) = unat (tx_buf_end s) + 1"
    by (simp add: unat_word_ariths)
  have n: "ucast (ucast (tx_buf_end s + 1) :: u8) = (of_nat ((unat (tx_buf_end s) + 1) mod 256) :: u16)"
    using u unfolding word_unat_eq_iff unat_of_nat unsigned_ucast_eq unsigned_take_bit_eq
    by (simp add: take_bit_eq_mod [of _ "_ :: nat"] mod_mod_cancel)
  have "unat (of_nat ((unat (tx_buf_end s) + 1) mod 256) :: u16) = (unat (tx_buf_end s) + 1) mod 256"
    unfolding unat_of_nat by (simp add: less_le_trans [OF mod_less_divisor])
  then have "tx_buf_end s < of_nat ((unat (tx_buf_end s) + 1) mod 256) \<longleftrightarrow> unat (tx_buf_end s) + 1 < 256"
    unfolding word_less_nat_alt by (simp only: less_Suc_mod_256)
  then show ?thesis
    using inv start out n BUFFER_LEN_pos
    by (simp add: icp_tx_push_def icp_inv_lengths Let_def)
qed

text \<open>
  A node with the line that hands a whole frame to a host which sends all of it and reports
  the number of bytes, as the callback's type makes it, in 8 bits: the transmit window closes, and
  \<open>icp_process_tx_buffer\<close> says so, exactly when the frame is shorter than 256 bytes.  For a longer
  frame the window restarts at the length modulo 256, inside the frame that was already sent.
\<close>

theorem icp_process_tx_whole:
  assumes inv: "icp_inv s" and win: "tx_buf_start s = 0" "0 < tx_buf_end s" and role: "role s = TX"
    and out: "ICP_BYTES_OUT cbs (tx_buffer s) (tx_buf_end s + 1) s = Done (ucast (tx_buf_end s + 1), s)"
  shows "icp_process_tx_buffer cbs s = Done (unat (tx_buf_end s) + 1 < 256,
     s\<lparr>tx_buf_start := of_nat ((unat (tx_buf_end s) + 1) mod 256)\<rparr>)"
proof -
  have "int (unat (tx_buf_start s)) \<le> int (unat (tx_buf_end s)) - 1"
    using win by (simp add: word_less_nat_alt del: of_nat_unat int_nat_eq)
  then show ?thesis
    using role icp_tx_push_whole [OF inv win(1) out] by (simp only: icp_process_tx_buffer_def) simp
qed

theorem icp_process_tx_whole_witness:
  "icp_process_tx_buffer quiet_host (fresh_node NODE_PC TX\<lparr>tx_buf_end := 299\<rparr>) =
     Done (False, fresh_node NODE_PC TX\<lparr>tx_buf_start := 44, tx_buf_end := 299\<rparr>)"
proof -
  have "icp_inv (fresh_node NODE_PC TX\<lparr>tx_buf_end := 299\<rparr>)"
    using fresh_node_inv [of NODE_PC TX] by (simp add: icp_inv_def icp_lengths)
  then show ?thesis
    using icp_process_tx_whole [of "fresh_node NODE_PC TX\<lparr>tx_buf_end := 299\<rparr>" quiet_host]
    by (simp add: quiet_host_def icp_calls word_less_nat_alt)
qed

lemma debug_loop_below:
  assumes "unat len \<le> length d" "unat len < 256" "unat i \<le> unat len" "unat len - unat i < fuel"
  shows "debug_loop fuel i len d = Done ()"
  using assms
proof (induction fuel i len d rule: debug_loop.induct)
  case (2 fuel i len d)
  have "unat (i + 1) = unat i + 1" if "unat i < unat len"
    using that 2(3) by (simp add: unat_word_ariths)
  then show ?case
    using 2 by (auto simp: Suc_le_eq)
qed simp

lemma debug_loop_above:
  assumes "unat len \<le> length d" "256 \<le> unat len"
  shows "debug_loop fuel i len d = Stuck"
  using assms
proof (induction fuel i len d rule: debug_loop.induct)
  case (2 fuel i len d)
  have "unat i < 256"
    using unsigned_less [of i] by simp
  then show ?case
    using 2 by simp
qed simp

lemma icp_debug_dump_on:
  assumes "g_icp_enable_debug_output s" "packet_ok p" "destination p < mac_num NUM_OF_NODES"
  shows "icp_debug_dump (Some p) s = (if unat (data_length p) < 256 then Done () else Stuck)"
proof -
  have "unat (data_length p) \<le> length (case data p of None \<Rightarrow> [] | Some d \<Rightarrow> d)"
    using assms(2) by (simp add: packet_ok_def split: option.splits)
  then show ?thesis
    using assms(1,3) by (simp add: icp_debug_dump_def debug_loop_below debug_loop_above)
qed

text \<open>
  With debug output on, \<open>icp_send_packet\<close> never returns for a payload of 256 bytes or more (the
  trace loop's counter has 8 bits), and behaves as with debug output off for every shorter one.
\<close>

theorem icp_send_packet_debug:
  assumes "g_icp_enable_debug_output s" "packet_ok p" "destination p < mac_num NUM_OF_NODES" "icp_inv s"
  shows "icp_send_packet (Some p) s =
    (if 256 \<le> unat (data_length p) then Stuck
     else if sendable p
     then Done (ICP_SUCCESS,
        s\<lparr>tx_buf_start := 0,
          tx_buffer := frame_of p s @ drop (6 + length (payload p)) (tx_buffer s),
          tx_buf_end := of_nat (5 + length (payload p))\<rparr>)
     else Done (ICP_INVALID_PARAMETERS, s))"
proof (cases "256 \<le> unat (data_length p)")
  case True
  then show ?thesis
    using assms by (simp add: icp_send_packet_def icp_debug_dump_on)
next
  case False
  then show ?thesis
    using assms by (simp add: icp_debug_dump_on icp_send_packet_checked)
qed


theorem icp_send_packet_debug_witness:
  "icp_send_packet (Some (three_byte_packet\<lparr>data_length := 256, data := Some (replicate 256 0)\<rparr>))
     (fresh_node NODE_PC NO_ROLE\<lparr>g_icp_enable_debug_output := True\<rparr>) = Stuck"
  by (subst icp_send_packet_debug) (simp_all add: packet_ok_def)

section \<open>The acknowledgement\<close>

lemma icp_ack_received:
  assumes "waiting_for_ack s" "role s = TX" "ICP_GET_ACCESS_SIG cbs s = Done (INACTIVE, s)"
  shows "icp_notify_acces_inactive cbs s =
    obind (ICP_NOTIFY_PACKET_ACK cbs (s\<lparr>role := NO_ROLE, waiting_for_ack := False\<rparr>))
          (\<lambda>(_, t). Done (1, t))"
  using assms by (simp add: icp_notify_acces_inactive_def c_bool_def Let_def)

definition idle :: "'w icp \<Rightarrow> bool" where
  "idle s \<longleftrightarrow> icp_inv s \<and> role s = NO_ROLE \<and> rx_buf_pos s = 0 \<and> \<not> icp_update_in_progress s
     \<and> \<not> waiting_for_ack s \<and> \<not> g_icp_enable_debug_output s"

lemma icp_update_idle:
  assumes "idle s"
  shows "icp_update cbs s = obind (icp_process_tx_buffer cbs (s\<lparr>icp_update_in_progress := True\<rparr>))
    (\<lambda>(_, t). Done (ICP_SUCCESS, t\<lparr>icp_update_in_progress := False\<rparr>))"
  using assms by (simp add: idle_def icp_update_def icp_process_rx_buffer_def)

text \<open>A host whose line is free and whose output accepts everything at once.\<close>

definition free_line :: "'w icp_callbacks \<Rightarrow> bool" where
  "free_line cbs \<longleftrightarrow> (\<forall>s. ICP_GET_ACCESS_SIG cbs s = Done (INACTIVE, s))
     \<and> (\<forall>s. ICP_SET_ACCESS_SIG cbs s = Done (ICP_SUCCESS, s))
     \<and> (\<forall>b n s. ICP_BYTES_OUT cbs b n s = Done (ucast n, s))
     \<and> (\<forall>s. \<exists>k. ICP_NOTIFY_PACKET_ACK cbs s = Done (k, s))"

lemma icp_update_sends:
  assumes s: "idle s" "tx_buf_start s = 0" "0 < unat (tx_buf_end s)" "unat (tx_buf_end s) + 1 < 256"
    and free: "free_line cbs"
  shows "icp_update cbs s = Done (ICP_SUCCESS, s\<lparr>tx_buf_start := tx_buf_end s + 1, role := TX\<rparr>)"
proof -
  let ?r = "s\<lparr>icp_update_in_progress := True, role := TX\<rparr>"
  have w: "int (unat (tx_buf_start s)) \<le> int (unat (tx_buf_end s)) - 1"
    using s(2,3) by (simp del: of_nat_unat int_nat_eq)
  have "unat (tx_buf_end s + 1) = unat (tx_buf_end s) + 1"
    using s(4) by (simp add: unat_word_ariths)
  then have e: "(of_nat ((unat (tx_buf_end s) + 1) mod 256) :: u16) = tx_buf_end s + 1"
    using s(4) by (simp add: word_unat_eq_iff unat_of_nat add.commute)
  have "icp_tx_push cbs ?r = Done (True, ?r\<lparr>tx_buf_start := tx_buf_end s + 1\<rparr>)"
    using icp_tx_push_whole [of ?r cbs] s free e by (simp add: idle_def free_line_def)
  moreover have "s\<lparr>icp_update_in_progress := False\<rparr> = s"
    using s(1) by (simp add: idle_def)
  ultimately show ?thesis
    using s(1) free w
    by (simp add: icp_update_idle icp_process_tx_buffer_def free_line_def idle_def
        del: of_nat_unat int_nat_eq)
qed

lemma icp_update_nothing_to_send:
  assumes s: "idle s" "\<not> unat (tx_buf_start s) < unat (tx_buf_end s)"
  shows "icp_update cbs s = Done (ICP_SUCCESS, s)"
proof -
  have w: "\<not> int (unat (tx_buf_start s)) \<le> int (unat (tx_buf_end s)) - 1"
    using s(2) by linarith
  have "s\<lparr>icp_update_in_progress := False\<rparr> = s"
    using s(1) by (simp add: idle_def)
  then show ?thesis
    using s(1) w by (simp add: icp_update_idle icp_process_tx_buffer_def del: of_nat_unat int_nat_eq)
qed

text \<open>
  The cycle of one acknowledged transmission on a free line.  A packet with a frame below 256
  bytes is placed in the buffer; the next update takes the line and sends the frame; when the host
  reports the end of the output the node waits for the acknowledgement; when the access signal
  turns inactive it is idle again, with the transmit window closed: a further update sends nothing.
\<close>

theorem icp_transmission_cycle:
  assumes free: "free_line cbs" and s: "idle s"
    and p: "packet_ok p" "sendable p" "unat (data_length p) < 250"
    and dst: "destination p \<noteq> mac_num BROADCAST"
  shows "\<exists>s1 s2 s3 s4. icp_send_packet (Some p) s = Done (ICP_SUCCESS, s1)
    \<and> icp_update cbs s1 = Done (ICP_SUCCESS, s2) \<and> role s2 = TX
    \<and> icp_notify_bytes_out_finished cbs s2 = Done (0, s3) \<and> awaiting_ack s3
    \<and> icp_notify_acces_inactive cbs s3 = Done (1, s4) \<and> idle s4
    \<and> icp_update cbs s4 = Done (ICP_SUCCESS, s4)"
proof -
  let ?n = "length (payload p)"
  define s1 where "s1 = s\<lparr>tx_buf_start := 0,
    tx_buffer := frame_of p s @ drop (6 + ?n) (tx_buffer s), tx_buf_end := of_nat (5 + ?n)\<rparr>"
  let ?s2 = "s1\<lparr>tx_buf_start := tx_buf_end s1 + 1, role := TX\<rparr>"
  let ?s3 = "?s2\<lparr>waiting_for_ack := True\<rparr>"
  let ?s4 = "s1\<lparr>tx_buf_start := tx_buf_end s1 + 1\<rparr>"
  have send: "icp_send_packet (Some p) s = Done (ICP_SUCCESS, s1)"
    using s p by (simp add: icp_send_packet_cases idle_def s1_def)
  then have "icp_inv s1"
    using keeps_send_packet [of s "\<lambda>_. True" "Some p"] s p by (simp add: idle_def)
  then have idle: "idle s1"
    using s by (simp add: idle_def s1_def)
  have "?n < 250"
    using p by (simp add: length_payload)
  then have e: "unat (tx_buf_end s1) = 5 + ?n" "tx_buf_start s1 = 0"
    unfolding s1_def by (simp_all add: unat_of_nat del: of_nat_add)
  then have e1: "unat (tx_buf_end s1 + 1) = 6 + ?n"
    using \<open>?n < 250\<close> by (simp add: unat_word_ariths)
  obtain f where "tx_buffer s1 = destination p # f"
    using frame_of_Cons [of p s] by (auto simp: s1_def)
  then have fin: "icp_notify_bytes_out_finished cbs ?s2 = Done (0, ?s3)"
    using dst by (simp add: icp_notify_bytes_out_finished_def)
  have i4: "idle ?s4"
    using idle by (simp add: idle_def)
  have r4: "?s3\<lparr>role := NO_ROLE, waiting_for_ack := False\<rparr> = ?s4"
    using idle by (simp add: idle_def)
  obtain k where k: "ICP_NOTIFY_PACKET_ACK cbs ?s4 = Done (k, ?s4)"
    using free unfolding free_line_def by blast
  have aw: "awaiting_ack ?s3"
    using idle by (simp add: awaiting_ack_def idle_def)
  then have "icp_notify_acces_inactive cbs ?s3 =
      obind (ICP_NOTIFY_PACKET_ACK cbs (?s3\<lparr>role := NO_ROLE, waiting_for_ack := False\<rparr>))
            (\<lambda>(_, t). Done (1, t))"
    using free by (intro icp_ack_received) (simp_all add: awaiting_ack_def free_line_def)
  then have ack: "icp_notify_acces_inactive cbs ?s3 = Done (1, ?s4)"
    by (simp only: r4 k obind.simps prod.case)
  have up: "icp_update cbs s1 = Done (ICP_SUCCESS, ?s2)"
    using e \<open>?n < 250\<close> by (intro icp_update_sends [OF idle e(2) _ _ free]) simp_all
  have quiesced: "icp_update cbs ?s4 = Done (ICP_SUCCESS, ?s4)"
    using e e1 by (intro icp_update_nothing_to_send [OF i4]) simp
  have "role ?s2 = TX"
    by simp
  then show ?thesis
    using send up fin aw ack i4 quiesced by blast
qed

theorem icp_transmission_cycle_witness:
  "\<exists>s1 s2. icp_send_packet (Some three_byte_packet) (fresh_node NODE_PC NO_ROLE) = Done (ICP_SUCCESS, s1)
    \<and> icp_update quiet_host s1 = Done (ICP_SUCCESS, s2) \<and> role s2 = TX"
proof -
  have "idle (fresh_node NODE_PC NO_ROLE)" "free_line quiet_host"
    by (simp_all add: idle_def free_line_def quiet_host_def icp_calls icp_codes)
  then show ?thesis
    using icp_transmission_cycle [of quiet_host "fresh_node NODE_PC NO_ROLE" three_byte_packet]
    by auto
qed

end
