(* ===== verification/Utf8.thy ===== *)
theory Utf8
  imports Prelude
begin

text \<open>
  The UTF-8 check of \<^verbatim>\<open>mqtt/source/utf-8.c\<close>: the table of valid ranges, the check of one character
  and of a length-delimited string.  \<open>mem\<close> is the memory readable from the start of the string:
  reading past it is a fault.  Bytes are compared as the code does, as signed \<open>char\<close>.
\<close>

section \<open>The code\<close>

definition valid_ranges :: "(nat \<times> (u8 \<times> u8) list) list" where
  "valid_ranges =
     [(1, [(0x00, 0x7F)]),
      (2, [(0xC2, 0xDF), (0x80, 0xBF)]),
      (3, [(0xE0, 0xE0), (0xA0, 0xBF), (0x80, 0xBF)]),
      (3, [(0xE1, 0xEC), (0x80, 0xBF), (0x80, 0xBF)]),
      (3, [(0xED, 0xED), (0x80, 0x9F), (0x80, 0xBF)]),
      (3, [(0xEE, 0xEF), (0x80, 0xBF), (0x80, 0xBF)]),
      (4, [(0xF0, 0xF0), (0x90, 0xBF), (0x80, 0xBF), (0x80, 0xBF)]),
      (4, [(0xF1, 0xF3), (0x80, 0xBF), (0x80, 0xBF), (0x80, 0xBF)]),
      (4, [(0xF4, 0xF4), (0x80, 0x8F), (0x80, 0xBF), (0x80, 0xBF)])]"

definition char_length :: "u8 \<Rightarrow> nat" where
  "char_length c =
     (if c AND 128 = 0 then 1
      else if c AND 0xF0 = 0xF0 then 4
      else if c AND 0xE0 = 0xE0 then 3
      else 2)"

text \<open>The inner loop: the bytes are read one at a time, and the first one out of range ends it.\<close>

fun row_matches :: "u8 list \<Rightarrow> nat \<Rightarrow> (u8 \<times> u8) list \<Rightarrow> bool outcome" where
  "row_matches mem p [] = Done True"
| "row_matches mem p ((lo, hi) # rs) =
     check (p < length mem)
       (if sint (mem ! p) < sint lo \<or> sint hi < sint (mem ! p) then Done False
        else row_matches mem (Suc p) rs)"

fun some_row :: "u8 list \<Rightarrow> nat \<Rightarrow> nat \<Rightarrow> (nat \<times> (u8 \<times> u8) list) list \<Rightarrow> bool outcome" where
  "some_row mem p n [] = Done False"
| "some_row mem p n ((k, rs) # rows) =
     (if k = n then obind (row_matches mem p rs) (\<lambda>good.
        if good then Done True else some_row mem p n rows)
      else some_row mem p n rows)"

definition UTF8_char_validate :: "u8 list \<Rightarrow> nat \<Rightarrow> nat \<Rightarrow> nat option outcome" where
  "UTF8_char_validate mem len p =
     check (p < length mem)
       (let charlen = char_length (mem ! p) in
        if len < charlen then Done None
        else obind (some_row mem p charlen valid_ranges) (\<lambda>good.
          Done (if good then Some (p + charlen) else None)))"

lemma char_length_pos: "0 < char_length c"
  by (simp add: char_length_def)

lemma obind_cong [fundef_cong]:
  "m = m' \<Longrightarrow> (\<And>x. m' = Done x \<Longrightarrow> f x = f' x) \<Longrightarrow> obind m f = obind m' f'"
  by (cases m') simp_all

lemma UTF8_char_validate_progress:
  "UTF8_char_validate mem len p = Done (Some q) \<Longrightarrow> p < q"
  using char_length_pos [of "mem ! p"]
  by (auto simp: UTF8_char_validate_def Let_def check_def obind_eq_Done split: if_splits)

text \<open>The loop of \<open>UTF8_validate\<close>: every character is checked against the length of the whole string.\<close>

function utf8_loop :: "u8 list \<Rightarrow> nat \<Rightarrow> nat option \<Rightarrow> bool outcome" where
  "utf8_loop mem len None = Done False"
| "utf8_loop mem len (Some p) =
     (if p < len then obind (UTF8_char_validate mem len p) (utf8_loop mem len) else Done True)"
  by pat_completeness auto
termination
  by (relation "measure (\<lambda>(mem, len, q). case q of None \<Rightarrow> 0 | Some p \<Rightarrow> Suc (len - p))")
    (auto dest: UTF8_char_validate_progress split: option.splits)

declare utf8_loop.simps(2) [simp del]

definition UTF8_validate :: "nat \<Rightarrow> u8 list \<Rightarrow> bool outcome" where
  "UTF8_validate len mem =
     (if len = 0 then Done True
      else obind (UTF8_char_validate mem len 0) (utf8_loop mem len))"

text \<open>\<open>strlen\<close>, and the check of a null-terminated string.\<close>

fun strlen :: "u8 list \<Rightarrow> nat outcome" where
  "strlen [] = Fault"
| "strlen (c # cs) = (if c = 0 then Done 0 else obind (strlen cs) (\<lambda>n. Done (Suc n)))"

definition UTF8_validateString :: "u8 list \<Rightarrow> bool outcome" where
  "UTF8_validateString mem = obind (strlen mem) (\<lambda>n. UTF8_validate n mem)"

section \<open>The specification: sequences of encoded Unicode scalar values\<close>

definition scalar_value :: "nat \<Rightarrow> bool" where
  "scalar_value c \<longleftrightarrow> c < 0x110000 \<and> \<not> (0xD800 \<le> c \<and> c \<le> 0xDFFF)"

definition utf8_encode :: "nat \<Rightarrow> u8 list" where
  "utf8_encode c =
     (if c < 0x80 then [of_nat c]
      else if c < 0x800 then [of_nat (0xC0 + c div 64), of_nat (0x80 + c mod 64)]
      else if c < 0x10000
      then [of_nat (0xE0 + c div 4096), of_nat (0x80 + c div 64 mod 64), of_nat (0x80 + c mod 64)]
      else [of_nat (0xF0 + c div 262144), of_nat (0x80 + c div 4096 mod 64),
            of_nat (0x80 + c div 64 mod 64), of_nat (0x80 + c mod 64)])"

inductive utf8_text :: "u8 list \<Rightarrow> bool" where
  empty: "utf8_text []"
| char: "scalar_value c \<Longrightarrow> utf8_text bs \<Longrightarrow> utf8_text (utf8_encode c @ bs)"

section \<open>One character\<close>

text \<open>Signed comparison within the rows is comparison of the byte values.\<close>

lemma u8_exhaust: "(\<forall>n \<in> set [0..<256]. P (of_nat n :: u8)) \<Longrightarrow> P c"
proof -
  assume h: "\<forall>n \<in> set [0..<256]. P (of_nat n :: u8)"
  have "unat c < 256"
    using unsigned_less [of c] by simp
  then have "P (of_nat (unat c))"
    using h by (metis atLeastLessThan_iff set_upt zero_le)
  then show ?thesis
    by simp
qed

lemma char_length_eq:
  "char_length c = (if unat c < 0x80 then 1 else if 0xF0 \<le> unat c then 4
     else if 0xE0 \<le> unat c then 3 else 2)"
  by (rule u8_exhaust [of "\<lambda>c. char_length c = (if unat c < 0x80 then 1 else if 0xF0 \<le> unat c then 4
     else if 0xE0 \<le> unat c then 3 else 2)"]) code_simp

definition in_range :: "u8 \<Rightarrow> u8 \<times> u8 \<Rightarrow> bool" where
  "in_range c r \<longleftrightarrow> \<not> (sint c < sint (fst r) \<or> sint (snd r) < sint c)"

lemma odd_div_128: "0 \<le> x \<Longrightarrow> x < 256 \<Longrightarrow> odd (x div 128) \<longleftrightarrow> 128 \<le> (x :: int)"
  by presburger

lemma sint_u8: "sint (c :: u8) = (if unat c < 128 then int (unat c) else int (unat c) - 256)"
proof -
  have b: "0 \<le> uint c" "uint c < 256"
    using uint_bounded [of c] by simp_all
  then have "bit (uint c) 7 \<longleftrightarrow> 128 \<le> uint c"
    using odd_div_128 [OF b] by (simp add: bit_iff_odd)
  moreover have "unat c < 128 \<longleftrightarrow> uint c < 128"
    by (simp add: nat_less_iff flip: nat_uint_eq)
  ultimately show ?thesis
    using b by (simp add: sint_uint signed_take_bit_eq_take_bit_minus take_bit_eq_mod)
qed

lemma in_range_iff:
  assumes "unat lo < 128 \<longleftrightarrow> unat hi < 128"
  shows "in_range c (lo, hi) \<longleftrightarrow> unat lo \<le> unat c \<and> unat c \<le> unat hi"
proof -
  have "unat c < 256" "unat lo < 256" "unat hi < 256"
    using unsigned_less [of c] unsigned_less [of lo] unsigned_less [of hi] by simp_all
  then show ?thesis
    using assms unfolding in_range_def sint_u8 fst_conv snd_conv
    by (auto simp del: of_nat_unat int_nat_eq)
qed


lemma row_matches_Cons:
  "p < length mem \<Longrightarrow> row_matches mem p (r # rs) =
     (if in_range (mem ! p) r then row_matches mem (Suc p) rs else Done False)"
  by (cases r) (simp add: in_range_def)

text \<open>\<open>char_row n rs\<close>: the table has the row \<open>rs\<close> for characters of \<open>n\<close> bytes.\<close>

definition char_bytes :: "u8 list \<Rightarrow> bool" where
  "char_bytes bs \<longleftrightarrow> (\<exists>(k, rs) \<in> set valid_ranges. list_all2 in_range bs rs)"

lemma in_ranges:
  "in_range c (0x00, 0x7F) \<longleftrightarrow> unat c \<le> 0x7F"
  "in_range c (0xC2, 0xDF) \<longleftrightarrow> 0xC2 \<le> unat c \<and> unat c \<le> 0xDF"
  "in_range c (0x80, 0xBF) \<longleftrightarrow> 0x80 \<le> unat c \<and> unat c \<le> 0xBF"
  "in_range c (0xE0, 0xE0) \<longleftrightarrow> 0xE0 \<le> unat c \<and> unat c \<le> 0xE0"
  "in_range c (0xA0, 0xBF) \<longleftrightarrow> 0xA0 \<le> unat c \<and> unat c \<le> 0xBF"
  "in_range c (0xE1, 0xEC) \<longleftrightarrow> 0xE1 \<le> unat c \<and> unat c \<le> 0xEC"
  "in_range c (0xED, 0xED) \<longleftrightarrow> 0xED \<le> unat c \<and> unat c \<le> 0xED"
  "in_range c (0x80, 0x9F) \<longleftrightarrow> 0x80 \<le> unat c \<and> unat c \<le> 0x9F"
  "in_range c (0xEE, 0xEF) \<longleftrightarrow> 0xEE \<le> unat c \<and> unat c \<le> 0xEF"
  "in_range c (0xF0, 0xF0) \<longleftrightarrow> 0xF0 \<le> unat c \<and> unat c \<le> 0xF0"
  "in_range c (0x90, 0xBF) \<longleftrightarrow> 0x90 \<le> unat c \<and> unat c \<le> 0xBF"
  "in_range c (0xF1, 0xF3) \<longleftrightarrow> 0xF1 \<le> unat c \<and> unat c \<le> 0xF3"
  "in_range c (0xF4, 0xF4) \<longleftrightarrow> 0xF4 \<le> unat c \<and> unat c \<le> 0xF4"
  "in_range c (0x80, 0x8F) \<longleftrightarrow> 0x80 \<le> unat c \<and> unat c \<le> 0x8F"
  by (simp_all add: in_range_iff)

lemma unat_of_nat_u8: "n < 256 \<Longrightarrow> unat (of_nat n :: u8) = n"
  unfolding unat_of_nat by simp

lemma unat_lead: "unat (numeral k :: u8) + n < 256 \<Longrightarrow>
    unat (numeral k + of_nat n :: u8) = unat (numeral k :: u8) + n"
  by (simp add: unat_word_ariths unat_of_nat_u8)

text \<open>The encodings over the 6-bit digits of the code point.\<close>

lemma utf8_encode_digits:
  "c < 0x80 \<Longrightarrow> utf8_encode c = [of_nat c]"
  "2 \<le> a \<Longrightarrow> a < 32 \<Longrightarrow> b < 64 \<Longrightarrow>
     utf8_encode (a * 64 + b) = [0xC0 + of_nat a, 0x80 + of_nat b]"
  by (simp_all add: utf8_encode_def)

lemma utf8_encode_3:
  assumes "32 \<le> a * 64 + b" "a < 16" "b < 64" "d < 64"
  shows "utf8_encode ((a * 64 + b) * 64 + d) = [0xE0 + of_nat a, 0x80 + of_nat b, 0x80 + of_nat d]"
proof -
  let ?c = "(a * 64 + b) * 64 + d"
  have "\<not> ?c < 0x80" "\<not> ?c < 0x800" "?c < 0x10000"
    using assms by simp_all
  then show ?thesis
    using assms by (simp add: utf8_encode_def div_mult2_eq [of _ 64 64, simplified]
      del: distrib_right_numeral)
qed

lemma utf8_encode_4:
  assumes "16 \<le> a * 64 + b" "b < 64" "d < 64" "e < 64"
  shows "utf8_encode (((a * 64 + b) * 64 + d) * 64 + e) =
       [0xF0 + of_nat a, 0x80 + of_nat b, 0x80 + of_nat d, 0x80 + of_nat e]"
proof -
  let ?c = "((a * 64 + b) * 64 + d) * 64 + e"
  have "\<not> ?c < 0x80" "\<not> ?c < 0x800" "\<not> ?c < 0x10000"
    using assms by simp_all
  then show ?thesis
    using assms by (simp add: utf8_encode_def div_mult2_eq [of _ 64 64, simplified]
      div_mult2_eq [of _ 64 4096, simplified] del: distrib_right_numeral)
qed

lemma encode_char_bytes:
  assumes "scalar_value c"
  shows "char_bytes (utf8_encode c)"
proof -
  note table = char_bytes_def valid_ranges_def in_ranges unat_lead unat_of_nat_u8
  consider "c < 0x80" | "0x80 \<le> c" "c < 0x800" | "0x800 \<le> c" "c < 0x10000" | "0x10000 \<le> c" "c < 0x110000"
    using assms unfolding scalar_value_def by linarith
  then show ?thesis
  proof cases
    case 1
    then show ?thesis
      by (simp add: table utf8_encode_digits)
  next
    case 2
    obtain a b where c: "c = a * 64 + b" "b < 64"
      using that [of "c div 64" "c mod 64"] by simp
    then have "2 \<le> a" "a < 32"
      using 2 by simp_all
    then show ?thesis
      using c(2) by (simp add: table c(1) utf8_encode_digits)
  next
    case 3
    obtain a b d where c: "c = (a * 64 + b) * 64 + d" "b < 64" "d < 64"
      using that [of "c div 64 div 64" "c div 64 mod 64" "c mod 64"] by simp
    then have "32 \<le> a * 64 + b" "a < 16" and "a = 13 \<Longrightarrow> b < 32"
      using 3 assms by (simp_all add: scalar_value_def)
    moreover have "a = 0 \<or> (1 \<le> a \<and> a \<le> 12) \<or> a = 13 \<or> (14 \<le> a \<and> a \<le> 15)"
      using \<open>a < 16\<close> by linarith
    ultimately show ?thesis
      using c(2,3) by (simp only: c(1) utf8_encode_3) (elim disjE; simp add: table)
  next
    case 4
    obtain a b d e where c: "c = ((a * 64 + b) * 64 + d) * 64 + e" "b < 64" "d < 64" "e < 64"
      using that [of "c div 64 div 64 div 64" "c div 64 div 64 mod 64" "c div 64 mod 64" "c mod 64"] by simp
    then have "16 \<le> a * 64 + b" "a < 5" and "a = 4 \<Longrightarrow> b < 16"
      using 4 by simp_all
    moreover have "a = 0 \<or> (1 \<le> a \<and> a \<le> 3) \<or> a = 4"
      using \<open>a < 5\<close> by linarith
    ultimately show ?thesis
      using c(2-4) by (simp only: c(1) utf8_encode_4) (elim disjE; simp add: table)
  qed
qed


text \<open>Conversely, every byte sequence that the table admits encodes a scalar value.\<close>

lemma u8_lead:
  assumes "k \<le> unat c"
  shows "\<exists>n. c = of_nat k + of_nat n \<and> unat (c :: u8) = k + n"
proof -
  have "of_nat k + of_nat (unat c - k) = (of_nat (unat c) :: u8)"
    using assms by (simp flip: of_nat_add)
  then show ?thesis
    using assms by (intro exI [of _ "unat c - k"]) simp
qed

lemma char_bytes_encode:
  assumes "char_bytes bs"
  shows "\<exists>c. scalar_value c \<and> bs = utf8_encode c"
proof -
  have tail: "\<exists>n < 64. y = 0x80 + of_nat n \<and> unat y = 0x80 + n" if "0x80 \<le> unat y" "unat y \<le> 0xBF" for y :: u8
    using u8_lead [OF that(1)] that(2) by auto
  have one: "\<exists>c. scalar_value c \<and> [x] = utf8_encode c" if h: "unat x \<le> 0x7F" for x :: u8
    using h by (intro exI [of _ "unat x"]) (simp add: scalar_value_def utf8_encode_digits(1))
  have two: "\<exists>c. scalar_value c \<and> [x, y] = utf8_encode c" if h: "0xC2 \<le> unat x" "unat x \<le> 0xDF" "0x80 \<le> unat y" "unat y \<le> 0xBF" for x y :: u8
  proof -
    have "0xC0 \<le> unat x"
      using h by simp
    then obtain a where a: "x = 0xC0 + of_nat a" "unat x = 0xC0 + a"
      using u8_lead [of "0xC0" x, unfolded of_nat_numeral] by blast
    obtain b where b: "y = 0x80 + of_nat b" "b < 64"
      using tail h by blast
    show ?thesis
      using h utf8_encode_digits(2) [of a b] a b
      by (intro exI [of _ "a * 64 + b"]) (simp add: scalar_value_def)
  qed
  have three: "\<exists>c. scalar_value c \<and> [x, y, z] = utf8_encode c"
    if h: "0xE0 \<le> unat x" "unat x \<le> 0xEF" "0x80 \<le> unat y" "unat y \<le> 0xBF"
      "0x80 \<le> unat z" "unat z \<le> 0xBF" "unat x = 0xE0 \<longrightarrow> 0xA0 \<le> unat y" "unat x = 0xED \<longrightarrow> unat y \<le> 0x9F" for x y z :: u8
  proof -
    have "0xE0 \<le> unat x"
      using h by simp
    then obtain a where a: "x = 0xE0 + of_nat a" "unat x = 0xE0 + a"
      using u8_lead [of "0xE0" x, unfolded of_nat_numeral] by blast
    obtain b d where b: "y = 0x80 + of_nat b" "b < 64" "unat y = 0x80 + b" and d: "z = 0x80 + of_nat d" "d < 64"
      using tail h by blast
    have s: "32 \<le> a * 64 + b" "a < 16" "a = 13 \<Longrightarrow> b < 32"
      using h a b by (cases "a = 0"; simp)+
    have "scalar_value ((a * 64 + b) * 64 + d)"
      using s b d unfolding scalar_value_def by (cases "a < 13"; cases "a = 13"; simp)
    then show ?thesis
      using a b d utf8_encode_3 [OF s(1,2) b(2) d(2)] by metis
  qed
  have four: "\<exists>c. scalar_value c \<and> [x, y, z, w] = utf8_encode c"
    if h: "0xF0 \<le> unat x" "unat x \<le> 0xF4" "0x80 \<le> unat y" "unat y \<le> 0xBF"
      "0x80 \<le> unat z" "unat z \<le> 0xBF" "0x80 \<le> unat w" "unat w \<le> 0xBF"
      "unat x = 0xF0 \<longrightarrow> 0x90 \<le> unat y" "unat x = 0xF4 \<longrightarrow> unat y \<le> 0x8F" for x y z w :: u8
  proof -
    have "0xF0 \<le> unat x"
      using h by simp
    then obtain a where a: "x = 0xF0 + of_nat a" "unat x = 0xF0 + a"
      using u8_lead [of "0xF0" x, unfolded of_nat_numeral] by blast
    obtain b d e where b: "y = 0x80 + of_nat b" "b < 64" "unat y = 0x80 + b"
      and d: "z = 0x80 + of_nat d" "d < 64" and e: "w = 0x80 + of_nat e" "e < 64"
      using tail h by metis
    have s: "16 \<le> a * 64 + b" "a < 5" "a = 4 \<Longrightarrow> b < 16"
      using h a b by (cases "a = 0"; simp)+
    have "scalar_value (((a * 64 + b) * 64 + d) * 64 + e)"
      using s b d e unfolding scalar_value_def by (cases "a = 4"; cases "a = 0"; simp)
    then show ?thesis
      using a b d e utf8_encode_4 [OF s(1) b(2) d(2) e(2)] by metis
  qed
  have "\<exists>rs \<in> snd ` set valid_ranges. list_all2 in_range bs rs"
    using assms by (force simp: char_bytes_def)
  then show ?thesis
    by (auto simp: valid_ranges_def list_all2_Cons2 in_ranges intro: one two three four)
qed


lemma char_bytes_iff: "char_bytes bs \<longleftrightarrow> (\<exists>c. scalar_value c \<and> bs = utf8_encode c)"
  using encode_char_bytes char_bytes_encode by blast

section \<open>A whole string\<close>

text \<open>
  A string that is followed by a zero byte is never read past that byte: no row for characters of
  more than one byte contains zero, so a truncated character fails there.
\<close>

lemma row_matches_at:
  assumes "p \<le> length s" "\<forall>r \<in> set rs. \<not> in_range 0 r"
  shows "row_matches (s @ 0 # t) p rs =
    Done (length rs \<le> length s - p \<and> list_all2 in_range (take (length rs) (drop p s)) rs)"
  using assms
proof (induction rs arbitrary: p)
  case (Cons r rs)
  show ?case
  proof (cases "p = length s")
    case True
    then show ?thesis
      using Cons.prems by (simp add: row_matches_Cons)
  next
    case False
    then have p: "p < length s"
      using Cons.prems by simp
    then have "drop p s = s ! p # drop (Suc p) s"
      by (simp add: Cons_nth_drop_Suc)
    then show ?thesis
      using p Cons by (auto simp: row_matches_Cons nth_append)
  qed
qed simp


definition row_fits :: "(u8 \<times> u8) list \<Rightarrow> u8 list \<Rightarrow> bool" where
  "row_fits rs xs \<longleftrightarrow> length rs \<le> length xs \<and> list_all2 in_range (take (length rs) xs) rs"

lemma row_matches_char:
  assumes "p < length s" "rs \<noteq> []" "\<forall>r \<in> set (tl rs). \<not> in_range 0 r"
  shows "row_matches (s @ 0 # t) p rs = Done (row_fits rs (drop p s))"
proof -
  obtain r rs' where rs: "rs = r # rs'"
    using assms(2) by (cases rs) auto
  have "drop p s = s ! p # drop (Suc p) s"
    using assms(1) by (simp add: Cons_nth_drop_Suc)
  then show ?thesis
    using assms row_matches_at [of "Suc p" s rs' t]
    by (auto simp: rs row_matches_Cons nth_append row_fits_def)
qed

lemma some_row_char:
  assumes "p < length s" "\<forall>(k, rs) \<in> set rows. rs \<noteq> [] \<and> (\<forall>r \<in> set (tl rs). \<not> in_range 0 r)"
  shows "some_row (s @ 0 # t) p n rows = Done (\<exists>(k, rs) \<in> set rows. k = n \<and> row_fits rs (drop p s))"
  using assms(2)
proof (induction rows)
  case (Cons row rows)
  then show ?case
    using row_matches_char [OF assms(1), of "snd row" t] by (cases row) auto
qed simp

lemma valid_rows: "\<forall>(k, rs) \<in> set valid_ranges. rs \<noteq> [] \<and> (\<forall>r \<in> set (tl rs). \<not> in_range 0 r)"
  by (simp add: valid_ranges_def in_ranges)

text \<open>The rows of a table entry have the announced length, and so does the first byte say.\<close>

lemma valid_row_length:
  assumes "(k, rs) \<in> set valid_ranges" "list_all2 in_range (c # cs) rs"
  shows "k = char_length c" "k = Suc (length cs)"
  using assms by (auto simp: valid_ranges_def list_all2_Cons2 in_ranges char_length_eq)

lemma char_bytes_length:
  assumes "char_bytes bs"
  shows "bs \<noteq> [] \<and> length bs = char_length (hd bs)"
proof -
  obtain k rs where r: "(k, rs) \<in> set valid_ranges" "list_all2 in_range bs rs"
    using assms by (auto simp: char_bytes_def)
  moreover have "rs \<noteq> []"
    using r(1) valid_rows by auto
  ultimately show ?thesis
    using valid_row_length [OF r(1)] by (cases bs) auto
qed

lemma row_fits_char:
  assumes "xs \<noteq> []"
  shows "(\<exists>(k, rs) \<in> set valid_ranges. k = char_length (hd xs) \<and> row_fits rs xs) \<longleftrightarrow>
    char_bytes (take (char_length (hd xs)) xs) \<and> char_length (hd xs) \<le> length xs"
proof
  assume "\<exists>(k, rs) \<in> set valid_ranges. k = char_length (hd xs) \<and> row_fits rs xs"
  then obtain k rs where r: "(k, rs) \<in> set valid_ranges" "k = char_length (hd xs)" "row_fits rs xs"
    by auto
  have "k = length rs"
    using r(1) by (auto simp: valid_ranges_def)
  then show "char_bytes (take (char_length (hd xs)) xs) \<and> char_length (hd xs) \<le> length xs"
    using r unfolding char_bytes_def row_fits_def by auto
next
  assume h: "char_bytes (take (char_length (hd xs)) xs) \<and> char_length (hd xs) \<le> length xs"
  then obtain k rs where r: "(k, rs) \<in> set valid_ranges"
    "list_all2 in_range (take (char_length (hd xs)) xs) rs"
    unfolding char_bytes_def by auto
  have "k = length rs"
    using r(1) by (auto simp: valid_ranges_def)
  moreover have "length rs = char_length (hd xs)"
    using list_all2_lengthD [OF r(2)] h by simp
  ultimately show "\<exists>(k, rs) \<in> set valid_ranges. k = char_length (hd xs) \<and> row_fits rs xs"
    using r h by (auto simp: row_fits_def intro!: bexI [of _ "(k, rs)"])
qed

lemma UTF8_char_validate_at:
  assumes "p < length s"
  shows "UTF8_char_validate (s @ 0 # t) (length s) p =
    Done (if \<exists>bs. char_bytes bs \<and> (\<exists>r. drop p s = bs @ r) then Some (p + char_length (s ! p)) else None)"
proof -
  let ?n = "char_length (s ! p)" and ?xs = "drop p s"
  have xs: "?xs \<noteq> []" "hd ?xs = s ! p"
    using assms by (simp_all add: hd_drop_conv_nth)
  have iff: "(\<exists>bs. char_bytes bs \<and> (\<exists>r. ?xs = bs @ r)) \<longleftrightarrow> char_bytes (take ?n ?xs) \<and> ?n \<le> length ?xs"
  proof
    assume "\<exists>bs. char_bytes bs \<and> (\<exists>r. ?xs = bs @ r)"
    then obtain bs r where b: "char_bytes bs" "?xs = bs @ r"
      by blast
    then have "length bs = ?n"
      using char_bytes_length [OF b(1)] xs by (cases bs) auto
    then show "char_bytes (take ?n ?xs) \<and> ?n \<le> length ?xs"
      using b by auto
  qed (metis append_take_drop_id)
  have "some_row (s @ 0 # t) p ?n valid_ranges = Done (char_bytes (take ?n ?xs) \<and> ?n \<le> length ?xs)"
    using some_row_char [OF assms valid_rows, of t ?n] row_fits_char [OF xs(1)] xs(2) by simp
  then show ?thesis
    using assms iff by (auto simp: UTF8_char_validate_def nth_append Let_def)
qed

lemma utf8_text_prefix:
  assumes "char_bytes bs"
  shows "utf8_text (bs @ r) \<longleftrightarrow> utf8_text r"
proof
  assume "utf8_text (bs @ r)"
  then show "utf8_text r"
  proof (cases rule: utf8_text.cases)
    case (char c ds)
    then have c: "char_bytes (utf8_encode c)" "bs @ r = utf8_encode c @ ds"
      by (auto simp: char_bytes_iff)
    have "hd bs = hd (utf8_encode c)"
      using char_bytes_length [OF assms] char_bytes_length [OF c(1)] c(2) by (metis hd_append2)
    then have "length bs = length (utf8_encode c)"
      using char_bytes_length [OF assms] char_bytes_length [OF c(1)] by simp
    then show ?thesis
      using c char by (simp add: append_eq_append_conv)
  qed (use char_bytes_length [OF assms] in simp)
next
  assume "utf8_text r"
  then show "utf8_text (bs @ r)"
    using assms utf8_text.char by (auto simp: char_bytes_iff)
qed

lemma utf8_text_cases: "utf8_text xs \<Longrightarrow> xs = [] \<or> (\<exists>bs r. char_bytes bs \<and> xs = bs @ r)"
  by (cases rule: utf8_text.cases, assumption) (auto simp: char_bytes_iff)

lemma utf8_loop_at:
  "p \<le> length s \<Longrightarrow> utf8_loop (s @ 0 # t) (length s) (Some p) = Done (utf8_text (drop p s))"
proof (induction "length s - p" arbitrary: p rule: less_induct)
  case less
  show ?case
  proof (cases "p < length s")
    case False
    then show ?thesis
      using less.prems by (subst utf8_loop.simps(2)) (simp add: utf8_text.empty)
  next
    case True
    show ?thesis
    proof (cases "\<exists>bs r. char_bytes bs \<and> drop p s = bs @ r")
      case ex: True
      then obtain bs r where b: "char_bytes bs" "drop p s = bs @ r"
        by blast
      then have n: "length bs = char_length (s ! p)" "bs \<noteq> []"
        using char_bytes_length [OF b(1)] hd_drop_conv_nth [OF True] by auto
      let ?q = "p + length bs"
      have q: "?q \<le> length s" "drop ?q s = r" "length s - ?q < length s - p"
        using n(2) True arg_cong [OF b(2), of length] arg_cong [OF b(2), of "drop (length bs)"]
        by (simp_all add: add.commute) (cases bs; simp)+
      have "utf8_loop (s @ 0 # t) (length s) (Some p) = utf8_loop (s @ 0 # t) (length s) (Some ?q)"
        using True ex n by (subst utf8_loop.simps(2)) (simp add: UTF8_char_validate_at)
      then show ?thesis
        using less.hyps [OF q(3,1)] q(2) b utf8_text_prefix [OF b(1), of r] by simp
    next
      case nex: False
      then have nex': "(\<exists>bs. char_bytes bs \<and> (\<exists>r. drop p s = bs @ r)) = False"
        by blast
      then have "\<not> utf8_text (drop p s)"
        using utf8_text_cases [of "drop p s"] True by auto
      then show ?thesis
        using True nex' by (subst utf8_loop.simps(2)) (simp only: UTF8_char_validate_at [OF True]
          if_True if_False obind.simps utf8_loop.simps(1))
    qed
  qed
qed


lemma strlen_at: "0 \<notin> set s \<Longrightarrow> strlen (s @ 0 # t) = Done (length s)"
  by (induction s) auto

text \<open>
  C30: For a null-terminated string \<open>UTF8_validateString\<close> never reads past the terminator and
  returns true exactly when the string is a sequence of encoded Unicode scalar values: no
  overlong form, no surrogate, no value above U+10FFFF, no truncated character.
\<close>

theorem UTF8_validateString_correct:
  assumes "0 \<notin> set s"
  shows "UTF8_validateString (s @ 0 # t) = Done (utf8_text s)"
proof (cases "s = []")
  case True
  then show ?thesis
    by (simp add: UTF8_validateString_def UTF8_validate_def utf8_text.empty)
next
  case False
  have "utf8_loop (s @ 0 # t) (length s) (Some 0) = Done (utf8_text s)"
    using utf8_loop_at [of 0 s t] by simp
  then show ?thesis
    using False strlen_at [OF assms, of t]
    by (subst (asm) utf8_loop.simps(2)) (simp add: UTF8_validateString_def UTF8_validate_def)
qed

theorem UTF8_validateString_correct_witness:
  "UTF8_validateString [0xED, 0xA0, 0x80, 0] = Done (utf8_text [0xED, 0xA0, 0x80])"
  using UTF8_validateString_correct [of "[0xED, 0xA0, 0x80]" "[]"] by simp

text \<open>
  The check of a length-delimited string passes the length of the whole string for every
  character: a string whose last character is cut off is accepted when the bytes that happen to
  follow it in memory complete the character.
\<close>

theorem UTF8_validate_reads_past_end:
  "UTF8_validate 2 [0x41, 0xC2, 0x80] = Done True \<and> \<not> utf8_text [0x41, 0xC2]
   \<and> UTF8_validate 2 [0x41, 0xC2] = Fault"
proof (intro conjI)
  show "UTF8_validate 2 [0x41, 0xC2, 0x80] = Done True"
    by code_simp
  show "UTF8_validate 2 [0x41, 0xC2] = Fault"
    by code_simp
  have "utf8_loop [0x41, 0xC2, 0] 2 (Some 0) = Done False"
    by code_simp
  then show "\<not> utf8_text [0x41, 0xC2]"
    using utf8_loop_at [of 0 "[0x41, 0xC2]" "[]"] by (simp add: numeral_2_eq_2)
qed

end
