(* ===== verification/Linked_List.thy ===== *)
theory Linked_List
  imports Prelude
begin

text \<open>
  The doubly linked list of \<^verbatim>\<open>mqtt/source/LinkedList.c\<close> over an explicit store of list elements.
  Contents are values of a type parameter (in C, pointers); the store records which contents and
  elements were released, and reading an address that is not allocated is a fault.  The predicate
  \<open>list_rep\<close> relates a \<open>List\<close> structure to the addresses of its elements in order, and every
  operation is proved to refine the operation on HOL lists that it implements.
\<close>

section \<open>The data\<close>

type_synonym addr = nat

record 'c list_element =
  prev :: "addr option"
  nxt :: "addr option"
  content :: 'c

record 'c list_store =
  cells :: "addr \<rightharpoonup> 'c list_element"
  freed :: "'c list"

record List =
  first :: "addr option"
  last_el :: "addr option"
  current :: "addr option"
  count :: int
  size_of :: int

definition deref :: "'c list_store \<Rightarrow> addr option \<Rightarrow> 'c list_element outcome" where
  "deref h p = (case p of None \<Rightarrow> Fault | Some a \<Rightarrow>
     (case cells h a of None \<Rightarrow> Fault | Some e \<Rightarrow> Done e))"

definition store :: "addr option \<Rightarrow> ('c list_element \<Rightarrow> 'c list_element) \<Rightarrow> 'c list_store
    \<Rightarrow> 'c list_store outcome" where
  "store p f h = obind (deref h p) (\<lambda>e. Done (h\<lparr>cells := (cells h)(the p \<mapsto> f e)\<rparr>))"

definition free_cell :: "addr option \<Rightarrow> 'c list_store \<Rightarrow> 'c list_store outcome" where
  "free_cell p h = obind (deref h p) (\<lambda>_. Done (h\<lparr>cells := (cells h)(the p := None)\<rparr>))"

text \<open>\<open>free\<close> of a content: which contents the list released, the last one first.\<close>

definition free_content :: "'c \<Rightarrow> 'c list_store \<Rightarrow> 'c list_store" where
  "free_content c h = h\<lparr>freed := c # freed h\<rparr>"

section \<open>The operations\<close>

definition ListZero :: List where
  "ListZero = \<lparr>first = None, last_el = None, current = None, count = 0, size_of = 0\<rparr>"

definition ListInitialize :: List where
  "ListInitialize = ListZero"

text \<open>\<open>newel\<close> is an allocated element whose fields are overwritten.\<close>

definition ListAppendNoMalloc ::
    "List \<Rightarrow> 'c \<Rightarrow> addr \<Rightarrow> int \<Rightarrow> 'c list_store \<Rightarrow> (List \<times> 'c list_store) outcome" where
  "ListAppendNoMalloc l c newel sz h =
     obind (store (Some newel) (\<lambda>_. \<lparr>prev = last_el l, nxt = None, content = c\<rparr>) h) (\<lambda>h.
     obind (if first l = None then Done (l\<lparr>first := Some newel\<rparr>, h)
            else obind (store (last_el l) (\<lambda>e. e\<lparr>nxt := Some newel\<rparr>) h) (\<lambda>h. Done (l, h)))
       (\<lambda>(l, h). Done (l\<lparr>last_el := Some newel, count := count l + 1,
                         size_of := size_of l + sz\<rparr>, h)))"

text \<open>\<open>malloc\<close> of an element at the address \<open>new\<close>, with some initial content.\<close>

definition alloc :: "addr \<Rightarrow> 'c list_element \<Rightarrow> 'c list_store \<Rightarrow> 'c list_store" where
  "alloc new junk h = h\<lparr>cells := (cells h)(new \<mapsto> junk)\<rparr>"

definition ListAppend ::
    "addr \<Rightarrow> 'c list_element \<Rightarrow> List \<Rightarrow> 'c \<Rightarrow> int \<Rightarrow> 'c list_store \<Rightarrow> (List \<times> 'c list_store) outcome" where
  "ListAppend new junk l c sz h = ListAppendNoMalloc l c new sz (alloc new junk h)"

definition ListInsert ::
    "addr \<Rightarrow> 'c list_element \<Rightarrow> List \<Rightarrow> 'c \<Rightarrow> int \<Rightarrow> addr option \<Rightarrow> 'c list_store
      \<Rightarrow> (List \<times> 'c list_store) outcome" where
  "ListInsert new junk l c sz index h =
     (let h = alloc new junk h in
      if index = None then ListAppendNoMalloc l c new sz h
      else obind (deref h index) (\<lambda>i.
           obind (store (Some new) (\<lambda>_. \<lparr>prev = prev i, nxt = index, content = c\<rparr>) h) (\<lambda>h.
           obind (store index (\<lambda>e. e\<lparr>prev := Some new\<rparr>) h) (\<lambda>h.
           obind (if prev i \<noteq> None
                  then obind (store (prev i) (\<lambda>e. e\<lparr>nxt := Some new\<rparr>) h) (\<lambda>h. Done (l, h))
                  else Done (l\<lparr>first := Some new\<rparr>, h))
             (\<lambda>(l, h). Done (l\<lparr>count := count l + 1, size_of := size_of l + sz\<rparr>, h))))))"

definition ListNextElement :: "List \<Rightarrow> addr option \<Rightarrow> 'c list_store \<Rightarrow> addr option outcome" where
  "ListNextElement l pos h =
     (if pos = None then Done (first l) else obind (deref h pos) (\<lambda>e. Done (nxt e)))"

definition ListPrevElement :: "List \<Rightarrow> addr option \<Rightarrow> 'c list_store \<Rightarrow> addr option outcome" where
  "ListPrevElement l pos h =
     (if pos = None then Done (last_el l) else obind (deref h pos) (\<lambda>e. Done (prev e)))"

text \<open>
  The comparison of \<open>ListFindItem\<close>: a null callback compares the pointers.  The search loop may run
  forever on a cyclic chain: \<open>None\<close> is the loop that never ends.
\<close>

definition matches :: "('c \<Rightarrow> 'c \<Rightarrow> bool) option \<Rightarrow> 'c \<Rightarrow> 'c \<Rightarrow> bool" where
  "matches callback x c = (case callback of None \<Rightarrow> x = c | Some f \<Rightarrow> f x c)"

partial_function (option) find_loop ::
    "('c \<Rightarrow> bool) \<Rightarrow> List \<Rightarrow> 'c list_store \<Rightarrow> addr option \<Rightarrow> addr option outcome option" where
  "find_loop m l h cur =
     (case ListNextElement l cur h of
        Done None \<Rightarrow> Some (Done None)
      | Done (Some a) \<Rightarrow>
          (case deref h (Some a) of
             Done e \<Rightarrow> if m (content e) then Some (Done (Some a)) else find_loop m l h (Some a)
           | Stuck \<Rightarrow> Some Stuck | Fault \<Rightarrow> Some Fault)
      | Stuck \<Rightarrow> Some Stuck | Fault \<Rightarrow> Some Fault)"

definition run_loop :: "'a outcome option \<Rightarrow> 'a outcome" where
  "run_loop r = (case r of None \<Rightarrow> Stuck | Some m \<Rightarrow> m)"

definition ListFindItem ::
    "('c \<Rightarrow> 'c \<Rightarrow> bool) option \<Rightarrow> List \<Rightarrow> 'c \<Rightarrow> 'c list_store \<Rightarrow> (addr option \<times> List) outcome" where
  "ListFindItem callback l c h =
     obind (if current l = None then Done False
            else obind (deref h (current l)) (\<lambda>e. Done (matches callback (content e) c)))
       (\<lambda>here. if here then Done (current l, l)
         else obind (run_loop (find_loop (\<lambda>x. matches callback x c) l h None)) (\<lambda>rc.
              Done (rc, if rc \<noteq> None then l\<lparr>current := rc\<rparr> else l)))"

definition ListFind :: "List \<Rightarrow> 'c \<Rightarrow> 'c list_store \<Rightarrow> (addr option \<times> List) outcome" where
  "ListFind l c h = ListFindItem None l c h"

definition ListUnlink ::
    "List \<Rightarrow> 'c \<Rightarrow> ('c \<Rightarrow> 'c \<Rightarrow> bool) option \<Rightarrow> bool \<Rightarrow> 'c list_store
      \<Rightarrow> (bool \<times> List \<times> 'c list_store) outcome" where
  "ListUnlink l c callback freeContent h =
     (let saved = current l in
      obind (ListFindItem callback l c h) (\<lambda>(found, l).
      if found = None then Done (False, l, h)
      else obind (deref h (current l)) (\<lambda>cur.
        obind (if prev cur = None then Done (l\<lparr>first := nxt cur\<rparr>, h)
               else obind (store (prev cur) (\<lambda>e. e\<lparr>nxt := nxt cur\<rparr>) h) (\<lambda>h. Done (l, h)))
          (\<lambda>(l, h).
        obind (deref h (current l)) (\<lambda>cur.
        obind (if nxt cur = None then Done (l\<lparr>last_el := prev cur\<rparr>, h)
               else obind (store (nxt cur) (\<lambda>e. e\<lparr>prev := prev cur\<rparr>) h) (\<lambda>h. Done (l, h)))
          (\<lambda>(l, h).
        let h = (if freeContent then free_content (content cur) h else h);
            saveddeleted = (saved = current l) in
        obind (free_cell (current l) h) (\<lambda>h.
          Done (True, l\<lparr>current := (if saveddeleted then nxt cur else saved),
                        count := count l - 1\<rparr>, h))))))))"

definition ListDetach :: "List \<Rightarrow> 'c \<Rightarrow> 'c list_store \<Rightarrow> (bool \<times> List \<times> 'c list_store) outcome" where
  "ListDetach l c h = ListUnlink l c None False h"

definition ListRemove :: "List \<Rightarrow> 'c \<Rightarrow> 'c list_store \<Rightarrow> (bool \<times> List \<times> 'c list_store) outcome" where
  "ListRemove l c h = ListUnlink l c None True h"

definition ListDetachItem ::
    "List \<Rightarrow> 'c \<Rightarrow> ('c \<Rightarrow> 'c \<Rightarrow> bool) option \<Rightarrow> 'c list_store \<Rightarrow> (bool \<times> List \<times> 'c list_store) outcome" where
  "ListDetachItem l c callback h = ListUnlink l c callback False h"

definition ListRemoveItem ::
    "List \<Rightarrow> 'c \<Rightarrow> ('c \<Rightarrow> 'c \<Rightarrow> bool) option \<Rightarrow> 'c list_store \<Rightarrow> (bool \<times> List \<times> 'c list_store) outcome" where
  "ListRemoveItem l c callback h = ListUnlink l c callback True h"

definition ListDetachHead :: "List \<Rightarrow> 'c list_store \<Rightarrow> ('c option \<times> List \<times> 'c list_store) outcome" where
  "ListDetachHead l h =
     (if 0 < count l
      then obind (deref h (first l)) (\<lambda>f.
        let fst0 = first l;
            l = (if current l = fst0 then l\<lparr>current := nxt f\<rparr> else l);
            l = (if last_el l = fst0 then l\<lparr>last_el := None\<rparr> else l);
            l = l\<lparr>first := nxt f\<rparr> in
        obind (if first l \<noteq> None then store (first l) (\<lambda>e. e\<lparr>prev := None\<rparr>) h else Done h) (\<lambda>h.
        obind (free_cell fst0 h) (\<lambda>h.
          Done (Some (content f), l\<lparr>count := count l - 1\<rparr>, h))))
      else Done (None, l, h))"

definition ListRemoveHead :: "List \<Rightarrow> 'c list_store \<Rightarrow> (int \<times> List \<times> 'c list_store) outcome" where
  "ListRemoveHead l h = obind (ListDetachHead l h) (\<lambda>(c, l, h).
     Done (0, l, case c of None \<Rightarrow> h | Some x \<Rightarrow> free_content x h))"

definition ListPopTail :: "List \<Rightarrow> 'c list_store \<Rightarrow> ('c option \<times> List \<times> 'c list_store) outcome" where
  "ListPopTail l h =
     (if 0 < count l
      then obind (deref h (last_el l)) (\<lambda>f.
        let lst = last_el l;
            l = (if current l = lst then l\<lparr>current := prev f\<rparr> else l);
            l = (if first l = lst then l\<lparr>first := None\<rparr> else l);
            l = l\<lparr>last_el := prev f\<rparr> in
        obind (if last_el l \<noteq> None then store (last_el l) (\<lambda>e. e\<lparr>nxt := None\<rparr>) h else Done h) (\<lambda>h.
        obind (free_cell lst h) (\<lambda>h.
          Done (Some (content f), l\<lparr>count := count l - 1\<rparr>, h))))
      else Done (None, l, h))"

text \<open>
  The loop that \<open>ListEmpty\<close> and \<open>ListFreeNoContent\<close> share, with and without the release of the
  contents.  (The null test of \<open>ListEmpty\<close> on a content has no counterpart: contents are values.)
\<close>

partial_function (option) release_loop ::
    "bool \<Rightarrow> List \<Rightarrow> 'c list_store \<Rightarrow> (List \<times> 'c list_store) outcome option" where
  "release_loop with_content l h =
     (if first l = None then Some (Done (l, h))
      else (case deref h (first l) of
              Done f \<Rightarrow>
                (case free_cell (first l) (if with_content then free_content (content f) h else h) of
                   Done h' \<Rightarrow> release_loop with_content (l\<lparr>first := nxt f\<rparr>) h'
                 | Stuck \<Rightarrow> Some Stuck | Fault \<Rightarrow> Some Fault)
            | Stuck \<Rightarrow> Some Stuck | Fault \<Rightarrow> Some Fault))"

definition ListEmpty :: "List \<Rightarrow> 'c list_store \<Rightarrow> (List \<times> 'c list_store) outcome" where
  "ListEmpty l h = obind (run_loop (release_loop True l h)) (\<lambda>(l, h).
     Done (l\<lparr>first := None, last_el := None, current := None, count := 0, size_of := 0\<rparr>, h))"

definition ListFree :: "List \<Rightarrow> 'c list_store \<Rightarrow> 'c list_store outcome" where
  "ListFree l h = obind (ListEmpty l h) (\<lambda>(_, h). Done h)"

definition ListFreeNoContent :: "List \<Rightarrow> 'c list_store \<Rightarrow> 'c list_store outcome" where
  "ListFreeNoContent l h = obind (run_loop (release_loop False l h)) (\<lambda>(_, h). Done h)"

section \<open>The representation\<close>

definition hd_or :: "addr list \<Rightarrow> addr option \<Rightarrow> addr option" where
  "hd_or as q = (case as of [] \<Rightarrow> q | a # _ \<Rightarrow> Some a)"

definition last_or :: "addr option \<Rightarrow> addr list \<Rightarrow> addr option" where
  "last_or p as = (if as = [] then p else Some (last as))"

text \<open>\<open>dseg h p as cs q\<close>: the cells \<open>as\<close> hold \<open>cs\<close> and are linked both ways between \<open>p\<close> and \<open>q\<close>.\<close>

fun dseg :: "(addr \<rightharpoonup> 'c list_element) \<Rightarrow> addr option \<Rightarrow> addr list \<Rightarrow> 'c list \<Rightarrow> addr option \<Rightarrow> bool" where
  "dseg h p [] cs q \<longleftrightarrow> cs = []"
| "dseg h p (a # as) [] q \<longleftrightarrow> False"
| "dseg h p (a # as) (c # cs) q \<longleftrightarrow>
     h a = Some \<lparr>prev = p, nxt = hd_or as q, content = c\<rparr> \<and> dseg h (Some a) as cs q"

definition list_rep :: "List \<Rightarrow> 'c list_store \<Rightarrow> addr list \<Rightarrow> 'c list \<Rightarrow> bool" where
  "list_rep l h as cs \<longleftrightarrow> dseg (cells h) None as cs None \<and> distinct as
     \<and> first l = hd_or as None \<and> last_el l = last_or None as
     \<and> count l = int (length as) \<and> (\<forall>a. current l = Some a \<longrightarrow> a \<in> set as)"

lemma hd_or_simps [simp]: "hd_or [] q = q" "hd_or (a # as) q = Some a"
  "hd_or (as @ bs) q = hd_or as (hd_or bs q)"
  by (simp_all add: hd_or_def split: list.split)

lemma last_or_simps [simp]: "last_or p [] = p" "last_or p (a # as) = last_or (Some a) as"
  "last_or p (as @ bs) = last_or (last_or p as) bs"
  by (simp_all add: last_or_def)

lemma hd_or_None: "hd_or as None = None \<longleftrightarrow> as = []"
  by (cases as) simp_all

lemma last_or_None: "last_or None as = None \<longleftrightarrow> as = []"
  by (simp add: last_or_def)

lemma ends_Some [simp]: "\<exists>y. hd_or as (Some b) = Some y" "\<exists>y. last_or (Some b) as = Some y"
  by (cases as) (simp_all add: last_or_def)

lemma last_or_Cons: "as \<noteq> [] \<Longrightarrow> last_or p as = Some (last as)"
  by (simp add: last_or_def)

lemma dseg_length: "dseg h p as cs q \<Longrightarrow> length cs = length as"
  by (induction h p as cs q rule: dseg.induct) simp_all

lemma dseg_append:
  "length as = length cs \<Longrightarrow> dseg h p (as @ bs) (cs @ ds) q \<longleftrightarrow>
     dseg h p as cs (hd_or bs q) \<and> dseg h (last_or p as) bs ds q"
  by (induction as cs arbitrary: p rule: list_induct2) auto

lemma dseg_upd: "x \<notin> set as \<Longrightarrow> dseg (h(x := v)) p as cs q = dseg h p as cs q"
  by (induction h p as cs q rule: dseg.induct) auto

lemma dseg_dom: "dseg h p as cs q \<Longrightarrow> a \<in> set as \<Longrightarrow> h a \<noteq> None"
  by (induction h p as cs q rule: dseg.induct) auto

text \<open>Cutting a segment at one of its cells.\<close>

lemma dseg_split:
  assumes "dseg h p as cs q" "a \<in> set as"
  obtains xs ys us c vs where "as = xs @ a # ys" "cs = us @ c # vs" "length xs = length us"
    "dseg h p xs us (Some a)" "h a = Some \<lparr>prev = last_or p xs, nxt = hd_or ys q, content = c\<rparr>"
    "dseg h (Some a) ys vs q"
proof -
  obtain xs ys where as: "as = xs @ a # ys"
    using assms(2) by (auto dest: split_list)
  define us where "us = take (length xs) cs"
  obtain c vs where cv: "drop (length xs) cs = c # vs"
    using dseg_length [OF assms(1)] as by (cases "drop (length xs) cs") auto
  have "cs = us @ c # vs" "length xs = length us"
    using cv dseg_length [OF assms(1)] as by (simp_all add: us_def) (metis append_take_drop_id)
  then show thesis
    using that assms(1) as by (simp add: dseg_append)
qed


lemma dseg_set_next:
  assumes "dseg h p (xs @ [b]) us q" "distinct (xs @ [b])"
  shows "\<exists>e. h b = Some e \<and> dseg (h(b \<mapsto> e\<lparr>nxt := q'\<rparr>)) p (xs @ [b]) us q'"
proof -
  obtain vs c where us: "us = vs @ [c]" "length xs = length vs"
    using dseg_length [OF assms(1)] by (cases us rule: rev_cases) auto
  then have "dseg h p xs vs (Some b)" "h b = Some \<lparr>prev = last_or p xs, nxt = q, content = c\<rparr>"
    using assms(1) by (simp_all add: dseg_append)
  then show ?thesis
    using us assms(2) by (simp add: dseg_append dseg_upd)
qed

lemma dseg_set_prev:
  assumes "dseg h p (b # ys) us q" "b \<notin> set ys"
  shows "\<exists>e. h b = Some e \<and> dseg (h(b \<mapsto> e\<lparr>prev := p'\<rparr>)) p' (b # ys) us q"
  using assms by (cases us) (auto simp: dseg_upd)

section \<open>The operations refine operations on lists\<close>

lemma store_Done: "cells h a = Some e \<Longrightarrow> store (Some a) f h = Done (h\<lparr>cells := (cells h)(a \<mapsto> f e)\<rparr>)"
  by (simp add: store_def deref_def)

lemma deref_Done: "cells h a = Some e \<Longrightarrow> deref h (Some a) = Done e"
  by (simp add: deref_def)

lemma free_Done: "cells h a = Some e \<Longrightarrow> free_cell (Some a) h = Done (h\<lparr>cells := (cells h)(a := None)\<rparr>)"
  by (simp add: free_cell_def deref_def)

lemmas heap_Done = store_Done deref_Done free_Done

lemma list_rep_empty: "list_rep ListZero h [] []"
  by (simp add: list_rep_def ListZero_def)

lemma list_rep_cells: "list_rep l h as cs \<Longrightarrow> cells h' = cells h \<Longrightarrow> list_rep l h' as cs"
  by (simp add: list_rep_def)

lemma ListAppendNoMalloc_rep:
  assumes rep: "list_rep l h as cs" and new: "new \<notin> set as" "cells h new = Some junk"
  shows "\<exists>l' h'. ListAppendNoMalloc l c new sz h = Done (l', h') \<and> list_rep l' h' (as @ [new]) (cs @ [c])
    \<and> current l' = current l \<and> freed h' = freed h \<and> size_of l' = size_of l + sz
    \<and> (\<forall>a. a \<notin> set as \<longrightarrow> a \<noteq> new \<longrightarrow> cells h' a = cells h a)"
proof (cases as rule: rev_cases)
  case Nil
  then show ?thesis
    using rep new by (simp add: list_rep_def ListAppendNoMalloc_def heap_Done)
next
  case (snoc xs b)
  let ?cell = "\<lparr>prev = Some b, nxt = None, content = c\<rparr>"
  have d: "dseg ((cells h)(new \<mapsto> ?cell)) None (xs @ [b]) cs None" "distinct (xs @ [b])"
    using rep new snoc by (simp_all add: list_rep_def dseg_upd)
  obtain e where e: "((cells h)(new \<mapsto> ?cell)) b = Some e"
    "dseg ((cells h)(new \<mapsto> ?cell, b \<mapsto> e\<lparr>nxt := Some new\<rparr>)) None (xs @ [b]) cs (Some new)"
    using dseg_set_next [OF d] by blast
  have len: "length cs = length (xs @ [b])"
    using dseg_length [OF d(1)] by simp
  obtain f where f: "first l = Some f"
    using rep snoc by (cases xs) (simp_all add: list_rep_def)
  have fl: "last_el l = Some b" "b \<noteq> new"
    using rep new snoc by (simp_all add: list_rep_def)
  then have "ListAppendNoMalloc l c new sz h = Done (l\<lparr>last_el := Some new, count := count l + 1,
      size_of := size_of l + sz\<rparr>, h\<lparr>cells := (cells h)(new \<mapsto> ?cell, b \<mapsto> e\<lparr>nxt := Some new\<rparr>)\<rparr>)"
    using e(1) new(2) f by (simp add: ListAppendNoMalloc_def heap_Done)
  moreover have "dseg ((cells h)(new \<mapsto> ?cell, b \<mapsto> e\<lparr>nxt := Some new\<rparr>)) None
      ((xs @ [b]) @ [new]) (cs @ [c]) None"
    using e(2) fl(2) len by (subst dseg_append) simp_all
  ultimately show ?thesis
    using rep new snoc by (auto simp: list_rep_def)
qed

lemma list_rep_fresh:
  "list_rep l h as cs \<Longrightarrow> cells h new = None \<Longrightarrow> new \<notin> set as"
  by (auto simp: list_rep_def dest: dseg_dom)

lemma list_rep_alloc:
  "list_rep l h as cs \<Longrightarrow> cells h new = None \<Longrightarrow> list_rep l (alloc new junk h) as cs"
  using list_rep_fresh [of l h as cs new] by (simp add: list_rep_def alloc_def dseg_upd)

lemma ListAppend_rep:
  assumes "list_rep l h as cs" "cells h new = None"
  shows "\<exists>l' h'. ListAppend new junk l c sz h = Done (l', h') \<and> list_rep l' h' (as @ [new]) (cs @ [c])
    \<and> current l' = current l \<and> freed h' = freed h \<and> size_of l' = size_of l + sz
    \<and> (\<forall>a. a \<notin> set as \<longrightarrow> a \<noteq> new \<longrightarrow> cells h' a = cells h a)"
  using ListAppendNoMalloc_rep [OF list_rep_alloc [OF assms] list_rep_fresh [OF assms],
      where c = c and sz = sz]
  by (auto simp: ListAppend_def alloc_def)

lemma ListInsert_rep:
  assumes rep: "list_rep l h (xs @ a # ys) (us @ d # vs)" "length xs = length us"
    and new: "cells h new = None"
  shows "\<exists>l' h'. ListInsert new junk l c sz (Some a) h = Done (l', h')
    \<and> list_rep l' h' (xs @ new # a # ys) (us @ c # d # vs)
    \<and> current l' = current l \<and> freed h' = freed h \<and> size_of l' = size_of l + sz"
proof -
  have fresh: "new \<notin> set (xs @ a # ys)"
    using list_rep_fresh [OF rep(1) new] .
  have d: "dseg (cells h) None xs us (Some a)"
    "cells h a = Some \<lparr>prev = last_or None xs, nxt = hd_or ys None, content = d\<rparr>"
    "dseg (cells h) (Some a) ys vs None" "distinct (xs @ a # ys)"
    using rep by (simp_all add: list_rep_def dseg_append)
  let ?n = "\<lparr>prev = last_or None xs, nxt = Some a, content = c\<rparr>"
  let ?a = "\<lparr>prev = Some new, nxt = hd_or ys None, content = d\<rparr>"
  let ?h = "(cells h)(new \<mapsto> ?n, a \<mapsto> ?a)"
  show ?thesis
  proof (cases xs rule: rev_cases)
    case Nil
    have "ListInsert new junk l c sz (Some a) h = Done (l\<lparr>first := Some new, count := count l + 1,
        size_of := size_of l + sz\<rparr>, h\<lparr>cells := ?h\<rparr>)"
      using d fresh Nil by (simp add: ListInsert_def alloc_def heap_Done)
    then show ?thesis
      using rep d fresh Nil by (auto simp: list_rep_def dseg_upd)
  next
    case (snoc zs b)
    have up: "dseg ?h None (zs @ [b]) us (Some a)" "distinct (zs @ [b])"
      using d fresh snoc by (simp_all add: dseg_upd)
    obtain e where e: "?h b = Some e" "dseg (?h(b \<mapsto> e\<lparr>nxt := Some new\<rparr>)) None (zs @ [b]) us (Some new)"
      using dseg_set_next [OF up] by blast
    have ne: "b \<noteq> new" "b \<noteq> a" "a \<noteq> new" "b \<notin> set ys" "a \<notin> set ys" "new \<notin> set ys"
      using fresh d(4) snoc by auto
    have "ListInsert new junk l c sz (Some a) h = Done (l\<lparr>count := count l + 1,
        size_of := size_of l + sz\<rparr>, h\<lparr>cells := ?h(b \<mapsto> e\<lparr>nxt := Some new\<rparr>)\<rparr>)"
      using d fresh snoc e ne by (simp add: ListInsert_def alloc_def heap_Done)
    moreover have "dseg (?h(b \<mapsto> e\<lparr>nxt := Some new\<rparr>)) None ((zs @ [b]) @ new # a # ys) (us @ c # d # vs) None"
      using e(2) ne d snoc rep(2) by (subst dseg_append) (simp_all add: dseg_upd)
    ultimately show ?thesis
      using rep fresh snoc by (auto simp: list_rep_def)
  qed
qed


subsection \<open>Iteration and search\<close>

lemma list_rep_split:
  assumes "list_rep l h as cs" "a \<in> set as"
  obtains xs ys us c vs where "as = xs @ a # ys" "cs = us @ c # vs" "length xs = length us"
    "dseg (cells h) None xs us (Some a)"
    "cells h a = Some \<lparr>prev = last_or None xs, nxt = hd_or ys None, content = c\<rparr>"
    "dseg (cells h) (Some a) ys vs None"
  using assms unfolding list_rep_def by (metis dseg_split)

lemma ListNextElement_rep:
  assumes "list_rep l h (xs @ ys) cs"
  shows "ListNextElement l (last_or None xs) h = Done (hd_or ys None)"
proof (cases xs rule: rev_cases)
  case (snoc zs b)
  let ?p = "last_or None zs"
  obtain us c vs where "cs = us @ c # vs" "length zs = length us"
    using dseg_length [of "cells h" None "xs @ ys" cs None] assms snoc
    by (auto simp: list_rep_def) (metis append_eq_conv_conj append_take_drop_id id_take_nth_drop
      length_append length_Cons less_add_Suc1 length_take min_absorb2 less_imp_le)
  then show ?thesis
    using assms snoc by (simp add: list_rep_def dseg_append ListNextElement_def heap_Done)
qed (use assms in \<open>simp add: list_rep_def ListNextElement_def\<close>)

definition find_addr :: "('c \<Rightarrow> bool) \<Rightarrow> addr list \<Rightarrow> 'c list \<Rightarrow> addr option" where
  "find_addr m as cs = map_option fst (List.find (\<lambda>(_, x). m x) (zip as cs))"

lemma find_loop_rep:
  "list_rep l h (xs @ ys) (us @ vs) \<Longrightarrow> length xs = length us \<Longrightarrow>
   find_loop m l h (last_or None xs) = Some (Done (find_addr m ys vs))"
proof (induction ys arbitrary: xs us vs)
  case Nil
  have "ListNextElement l (last_or None xs) h = Done None"
    using ListNextElement_rep [OF Nil(1)] by simp
  then show ?case
    by (subst find_loop.simps) (simp add: find_addr_def)
next
  case (Cons a ys)
  have "ListNextElement l (last_or None xs) h = Done (Some a)"
    using ListNextElement_rep [OF Cons.prems(1)] by simp
  moreover obtain c ws where vs: "vs = c # ws"
    using Cons.prems by (cases vs) (auto simp: list_rep_def dest: dseg_length)
  moreover have "deref h (Some a) = Done \<lparr>prev = last_or None xs, nxt = hd_or ys None, content = c\<rparr>"
    using Cons.prems vs by (simp add: list_rep_def dseg_append deref_def)
  moreover have "find_loop m l h (Some a) = Some (Done (find_addr m ys ws))"
    using Cons.IH [of "xs @ [a]" "us @ [c]" ws] Cons.prems vs by simp
  ultimately show ?case
    by (subst find_loop.simps) (simp add: find_addr_def)
qed

lemma find_addr_None: "length as = length cs \<Longrightarrow> find_addr m as cs = None \<longleftrightarrow> (\<forall>x \<in> set cs. \<not> m x)"
  by (induction as cs rule: list_induct2) (auto simp: find_addr_def)

lemma find_addr_Some:
  "length as = length cs \<Longrightarrow> find_addr m as cs = Some a \<Longrightarrow>
   \<exists>xs ys us c vs. as = xs @ a # ys \<and> cs = us @ c # vs \<and> length xs = length us \<and> m c
     \<and> (\<forall>x \<in> set us. \<not> m x)"
proof (induction as cs rule: list_induct2)
  case (Cons b as d cs)
  show ?case
  proof (cases "m d")
    case True
    then show ?thesis
      using Cons.prems Cons.hyps by (intro exI [of _ "[]"] exI [of _ as] exI [of _ "[]"] exI [of _ d]
          exI [of _ cs]) (simp add: find_addr_def)
  next
    case False
    then obtain xs ys us c vs where "as = xs @ a # ys" "cs = us @ c # vs" "length xs = length us"
      "m c" "\<forall>x \<in> set us. \<not> m x"
      using Cons by (auto simp: find_addr_def)
    then show ?thesis
      using False by (intro exI [of _ "b # xs"] exI [of _ ys] exI [of _ "d # us"] exI [of _ c]
          exI [of _ vs]) simp
  qed
qed (simp add: find_addr_def)

lemma list_rep_current:
  "list_rep l h as cs \<Longrightarrow> a \<in> set as \<Longrightarrow> list_rep (l\<lparr>current := Some a\<rparr>) h as cs"
  by (simp add: list_rep_def)

text \<open>
  \<open>found l h as cs m a\<close>: \<open>a\<close> is an element of the list whose content satisfies \<open>m\<close>, the first one
  unless the search was answered by the current element.
\<close>

definition found_at :: "List \<Rightarrow> ('c \<Rightarrow> bool) \<Rightarrow> addr list \<Rightarrow> 'c list \<Rightarrow> addr
    \<Rightarrow> addr list \<Rightarrow> addr list \<Rightarrow> 'c list \<Rightarrow> 'c \<Rightarrow> 'c list \<Rightarrow> bool" where
  "found_at l m as cs a xs ys us x vs \<longleftrightarrow> as = xs @ a # ys \<and> cs = us @ x # vs \<and> length xs = length us
     \<and> m x \<and> (current l \<noteq> Some a \<longrightarrow> (\<forall>y \<in> set us. \<not> m y))"

lemma ListFindItem_rep:
  assumes rep: "list_rep l h as cs"
  shows "(ListFindItem cb l c h = Done (None, l) \<and> (\<forall>x \<in> set cs. \<not> matches cb x c))
    \<or> (\<exists>a xs ys us x vs. ListFindItem cb l c h = Done (Some a, l\<lparr>current := Some a\<rparr>)
         \<and> found_at l (\<lambda>x. matches cb x c) as cs a xs ys us x vs)"
proof -
  let ?m = "\<lambda>x. matches cb x c"
  let ?r = "find_addr ?m as cs"
  have len: "length as = length cs"
    using rep by (auto simp: list_rep_def dest: dseg_length)
  have loop: "find_loop ?m l h None = Some (Done ?r)"
    using find_loop_rep [of l h "[]" as "[]" cs ?m] rep by simp
  have search: ?thesis
    if "ListFindItem cb l c h = Done (?r, if ?r \<noteq> None then l\<lparr>current := ?r\<rparr> else l)"
  proof (cases ?r)
    case None
    then show ?thesis
      using that len by (simp add: find_addr_None)
  next
    case (Some a)
    then obtain xs ys us x vs where "as = xs @ a # ys" "cs = us @ x # vs" "length xs = length us"
      "?m x" "\<forall>x \<in> set us. \<not> ?m x"
      using find_addr_Some [OF len Some] by blast
    then show ?thesis
      using that Some unfolding found_at_def by auto
  qed
  show ?thesis
  proof (cases "current l")
    case None
    then show ?thesis
      using loop by (intro search) (simp add: ListFindItem_def run_loop_def)
  next
    case (Some b)
    then have "b \<in> set as"
      using rep by (simp add: list_rep_def)
    then obtain xs ys us x vs where b: "as = xs @ b # ys" "cs = us @ x # vs" "length xs = length us"
      "cells h b = Some \<lparr>prev = last_or None xs, nxt = hd_or ys None, content = x\<rparr>"
      using list_rep_split [OF rep] by metis
    show ?thesis
    proof (cases "?m x")
      case True
      then have "ListFindItem cb l c h = Done (Some b, l\<lparr>current := Some b\<rparr>)"
        using Some b(4) by (simp add: ListFindItem_def heap_Done)
      then show ?thesis
        using b True Some unfolding found_at_def by blast
    next
      case False
      then show ?thesis
        using loop Some b(4) by (intro search) (simp add: ListFindItem_def run_loop_def heap_Done)
    qed
  qed
qed


subsection \<open>Removal\<close>

text \<open>Taking one cell out of a segment: the neighbours are linked to each other.\<close>

lemma dseg_bypass_next:
  assumes "dseg h None xs us (Some a)" "distinct xs" "a \<notin> set xs"
  shows "\<exists>h'. (case last_or None xs of None \<Rightarrow> h' = h
      | Some b \<Rightarrow> \<exists>e. h b = Some e \<and> h' = h(b \<mapsto> e\<lparr>nxt := q\<rparr>))
    \<and> dseg h' None xs us q \<and> (\<forall>x. x \<notin> set xs \<longrightarrow> h' x = h x)"
proof (cases xs rule: rev_cases)
  case Nil
  then show ?thesis
    using assms by (cases us) auto
next
  case (snoc zs b)
  then obtain e where "h b = Some e" "dseg (h(b \<mapsto> e\<lparr>nxt := q\<rparr>)) None xs us q"
    using dseg_set_next [of h None zs b us "Some a" q] assms by auto
  then show ?thesis
    using snoc by (intro exI [of _ "h(b \<mapsto> e\<lparr>nxt := q\<rparr>)"]) auto
qed

lemma dseg_bypass_prev:
  assumes "dseg h (Some a) ys vs None" "distinct ys"
  shows "\<exists>h'. (case hd_or ys None of None \<Rightarrow> h' = h
      | Some b \<Rightarrow> \<exists>e. h b = Some e \<and> h' = h(b \<mapsto> e\<lparr>prev := p\<rparr>))
    \<and> dseg h' p ys vs None \<and> (\<forall>x. x \<notin> set ys \<longrightarrow> h' x = h x)"
proof (cases ys)
  case Nil
  then show ?thesis
    using assms by auto
next
  case (Cons b zs)
  then obtain e where "h b = Some e" "dseg (h(b \<mapsto> e\<lparr>prev := p\<rparr>)) p ys vs None"
    using dseg_set_prev [of h "Some a" b zs vs None p] assms by auto
  then show ?thesis
    using Cons by (intro exI [of _ "h(b \<mapsto> e\<lparr>prev := p\<rparr>)"]) auto
qed

lemma dseg_cong: "(\<And>a. a \<in> set as \<Longrightarrow> h a = h' a) \<Longrightarrow> dseg h p as cs q = dseg h' p as cs q"
  by (induction h p as cs q rule: dseg.induct) auto

lemma obind_store_cases:
  assumes "case p of None \<Rightarrow> h' = cells h | Some b \<Rightarrow> \<exists>e. cells h b = Some e \<and> h' = (cells h)(b \<mapsto> f e)"
  shows "obind (if p = None then Done (l1, h) else obind (store p f h) (\<lambda>h. Done (l2, h))) k =
    k (if p = None then l1 else l2, h\<lparr>cells := h'\<rparr>)"
  using assms by (cases p) (auto simp: heap_Done)

lemma list_rep_bypass:
  assumes rep: "list_rep l h (xs @ a # ys) (us @ x # vs)" "length xs = length us"
    and seg: "dseg H None xs us (hd_or ys None)" "dseg H (last_or None xs) ys vs None"
    and l': "first l' = (if last_or None xs = None then hd_or ys None else first l)"
      "last_el l' = (if hd_or ys None = None then last_or None xs else last_el l)"
      "count l' = count l - 1"
      "\<And>b. current l' = Some b \<Longrightarrow> b \<in> set (xs @ ys)"
    and h': "cells h' = H(a := None)"
  shows "list_rep l' h' (xs @ ys) (us @ vs)"
proof -
  have "dseg (cells h') None (xs @ ys) (us @ vs) None"
    using rep seg h' by (simp add: list_rep_def dseg_append dseg_upd)
  moreover have "first l' = hd_or (xs @ ys) None"
    using rep(1) l'(1) by (cases xs) (simp_all add: list_rep_def last_or_def)
  moreover have "last_el l' = last_or None (xs @ ys)"
    using rep(1) l'(2) by (cases ys) (simp_all add: list_rep_def)
  ultimately show ?thesis
    using rep l'(3,4) by (simp add: list_rep_def)
qed

lemma hd_or_in: "hd_or as None = Some b \<Longrightarrow> b \<in> set as"
  by (cases as) simp_all

lemma last_or_in: "last_or None as = Some b \<Longrightarrow> b \<in> set as"
  by (auto simp: last_or_def split: if_splits)

lemma list_rep_current_in:
  "list_rep l h (xs @ a # ys) cs \<Longrightarrow> current l = Some b \<Longrightarrow> b \<noteq> a \<Longrightarrow> b \<in> set (xs @ ys)"
  by (auto simp: list_rep_def)

lemma ListUnlink_at:
  assumes rep: "list_rep l h (xs @ a # ys) (us @ x # vs)" "length xs = length us"
    and find: "ListFindItem cb l c h = Done (Some a, l\<lparr>current := Some a\<rparr>)"
  shows "\<exists>l' h'. ListUnlink l c cb fr h = Done (True, l', h') \<and> list_rep l' h' (xs @ ys) (us @ vs)
    \<and> current l' = (if current l = Some a then hd_or ys None else current l)
    \<and> freed h' = (if fr then x # freed h else freed h) \<and> size_of l' = size_of l \<and> cells h' a = None"
proof -
  let ?p = "last_or None xs" and ?q = "hd_or ys None"
  let ?e = "\<lparr>prev = ?p, nxt = ?q, content = x\<rparr>"
  have d: "dseg (cells h) None xs us (Some a)" "cells h a = Some ?e"
    "dseg (cells h) (Some a) ys vs None" and di: "distinct xs" "distinct ys" "a \<notin> set xs" "a \<notin> set ys"
      "set xs \<inter> set ys = {}"
    using rep by (auto simp: list_rep_def dseg_append)
  obtain h1 where h1: "case ?p of None \<Rightarrow> h1 = cells h
      | Some b \<Rightarrow> \<exists>e. cells h b = Some e \<and> h1 = (cells h)(b \<mapsto> e\<lparr>nxt := ?q\<rparr>)"
    "dseg h1 None xs us ?q" "\<forall>x. x \<notin> set xs \<longrightarrow> h1 x = cells h x"
    using dseg_bypass_next [OF d(1) di(1,3), of ?q] by blast
  have "dseg h1 (Some a) ys vs None"
    using d(3) by (rule dseg_cong [THEN iffD1, rotated]) (use h1(3) di in auto)
  then have d1: "dseg h1 (Some a) ys vs None" "h1 a = Some ?e"
    using d h1(3) di by simp_all
  obtain h2 where h2: "case ?q of None \<Rightarrow> h2 = h1
      | Some b \<Rightarrow> \<exists>e. h1 b = Some e \<and> h2 = h1(b \<mapsto> e\<lparr>prev := ?p\<rparr>)"
    "dseg h2 ?p ys vs None" "\<forall>x. x \<notin> set ys \<longrightarrow> h2 x = h1 x"
    using dseg_bypass_prev [OF d1(1) di(2), of ?p] by blast
  have "dseg h2 None xs us ?q"
    using h1(2) by (rule dseg_cong [THEN iffD1, rotated]) (use h2(3) di in auto)
  then have d2: "dseg h2 None xs us ?q" "h2 a = Some ?e"
    using d1 h2(3) di by simp_all
  let ?l1 = "if ?p = None then l\<lparr>current := Some a, first := ?q\<rparr> else l\<lparr>current := Some a\<rparr>"
  let ?l2 = "if ?q = None then ?l1\<lparr>last_el := ?p\<rparr> else ?l1"
  let ?l3 = "?l2\<lparr>current := (if current l = Some a then ?q else current l), count := count l - 1\<rparr>"
  let ?h3 = "(if fr then free_content x (h\<lparr>cells := h2\<rparr>) else h\<lparr>cells := h2\<rparr>)"
  have b1: "obind (if ?p = None then Done (l1, h)
      else obind (store ?p (\<lambda>e. e\<lparr>nxt := ?q\<rparr>) h) (\<lambda>h. Done (l2, h))) k =
      k (if ?p = None then l1 else l2, h\<lparr>cells := h1\<rparr>)" for l1 l2 k
    using h1(1) by (rule obind_store_cases)
  have b2: "obind (if ?q = None then Done (l1, h\<lparr>cells := h1\<rparr>)
      else obind (store ?q (\<lambda>e. e\<lparr>prev := ?p\<rparr>) (h\<lparr>cells := h1\<rparr>)) (\<lambda>h. Done (l2, h))) k =
      k (if ?q = None then l1 else l2, h\<lparr>cells := h2\<rparr>)" for l1 l2 k
    using h2(1) by (cases ?q) (auto simp: heap_Done)
  have cur: "current ?l1 = Some a" "current ?l2 = Some a" "count ?l2 = count l"
    by simp_all
  have run: "ListUnlink l c cb fr h = Done (True, ?l3, ?h3\<lparr>cells := h2(a := None)\<rparr>)"
    unfolding ListUnlink_def Let_def find
    using d(2) d1(2) d2(2) by (simp add: heap_Done free_content_def b1 b2 cur split del: if_split cong del: if_weak_cong)
      (cases fr; simp add: heap_Done)
  have "list_rep ?l3 (?h3\<lparr>cells := h2(a := None)\<rparr>) (xs @ ys) (us @ vs)"
    by (rule list_rep_bypass [OF rep d2(1) h2(2)])
      (auto split: if_splits dest: hd_or_in list_rep_current_in [OF rep(1)])
  then show ?thesis
    using run by (auto simp: free_content_def)
qed


lemma ListUnlink_rep:
  assumes rep: "list_rep l h as cs"
  shows "(ListUnlink l c cb fr h = Done (False, l, h) \<and> (\<forall>x \<in> set cs. \<not> matches cb x c))
    \<or> (\<exists>a xs ys us x vs l' h'. found_at l (\<lambda>x. matches cb x c) as cs a xs ys us x vs
       \<and> ListUnlink l c cb fr h = Done (True, l', h') \<and> list_rep l' h' (xs @ ys) (us @ vs)
       \<and> current l' = (if current l = Some a then hd_or ys None else current l)
       \<and> freed h' = (if fr then x # freed h else freed h) \<and> size_of l' = size_of l \<and> cells h' a = None)"
  using ListFindItem_rep [OF rep, of cb c]
proof (elim disjE exE conjE)
  assume "ListFindItem cb l c h = Done (None, l)" "\<forall>x \<in> set cs. \<not> matches cb x c"
  then show ?thesis
    by (simp add: ListUnlink_def)
next
  fix a xs ys us x vs
  assume find: "ListFindItem cb l c h = Done (Some a, l\<lparr>current := Some a\<rparr>)"
    and at: "found_at l (\<lambda>x. matches cb x c) as cs a xs ys us x vs"
  then have "list_rep l h (xs @ a # ys) (us @ x # vs)" "length xs = length us"
    using rep by (simp_all add: found_at_def)
  from ListUnlink_at [OF this find, of fr] at show ?thesis
    by blast
qed

lemma ListDetachHead_rep:
  assumes rep: "list_rep l h (a # as) (c # cs)"
  shows "\<exists>l' h'. ListDetachHead l h = Done (Some c, l', h') \<and> list_rep l' h' as cs
    \<and> freed h' = freed h \<and> size_of l' = size_of l \<and> cells h' a = None
    \<and> current l' = (if current l = Some a then hd_or as None else current l)"
proof -
  let ?q = "hd_or as None"
  have d: "cells h a = Some \<lparr>prev = None, nxt = ?q, content = c\<rparr>" "dseg (cells h) (Some a) as cs None"
    and di: "distinct as" "a \<notin> set as" and f: "first l = Some a" "0 < count l"
    using rep by (simp_all add: list_rep_def)
  have tail: "last_el l = Some a \<longleftrightarrow> ?q = None"
    using rep di by (cases as rule: rev_cases) (auto simp: list_rep_def hd_or_None)
  obtain h2 where h2: "case ?q of None \<Rightarrow> h2 = cells h
      | Some b \<Rightarrow> \<exists>e. cells h b = Some e \<and> h2 = (cells h)(b \<mapsto> e\<lparr>prev := None\<rparr>)"
    "dseg h2 None as cs None" "\<forall>x. x \<notin> set as \<longrightarrow> h2 x = cells h x"
    using dseg_bypass_prev [OF d(2) di(1), of None] by blast
  have fix_prev: "(if ?q \<noteq> None then store ?q (\<lambda>e. e\<lparr>prev := None\<rparr>) h else Done h) = Done (h\<lparr>cells := h2\<rparr>)"
    using h2(1) by (cases ?q) (auto simp: heap_Done)
  let ?l = "l\<lparr>first := ?q, last_el := (if ?q = None then None else last_el l),
    current := (if current l = Some a then ?q else current l), count := count l - 1\<rparr>"
  have "h2 a = cells h a"
    using h2(3) di by simp
  then have run: "ListDetachHead l h = Done (Some c, ?l, h\<lparr>cells := h2(a := None)\<rparr>)"
    using f d(1) fix_prev tail h2(1)
    by (cases "current l = Some a"; cases ?q; simp add: ListDetachHead_def heap_Done Let_def)
  have "list_rep ?l (h\<lparr>cells := h2(a := None)\<rparr>) ([] @ as) ([] @ cs)"
    by (rule list_rep_bypass [where l = l and h = h and a = a and x = c])
      (use rep h2(2) list_rep_current_in [of l h "[]" a as] in
        \<open>auto split: if_splits dest: hd_or_in\<close>)
  then show ?thesis
    using run by simp
qed

lemma ListPopTail_rep:
  assumes rep: "list_rep l h (as @ [a]) (cs @ [c])"
  shows "\<exists>l' h'. ListPopTail l h = Done (Some c, l', h') \<and> list_rep l' h' as cs
    \<and> freed h' = freed h \<and> size_of l' = size_of l \<and> cells h' a = None
    \<and> current l' = (if current l = Some a then last_or None as else current l)"
proof -
  let ?p = "last_or None as"
  have len: "length as = length cs"
    using rep by (auto simp: list_rep_def dest: dseg_length)
  then have d: "cells h a = Some \<lparr>prev = ?p, nxt = None, content = c\<rparr>" "dseg (cells h) None as cs (Some a)"
    and di: "distinct as" "a \<notin> set as" and f: "last_el l = Some a" "0 < count l"
    using rep by (simp_all add: list_rep_def dseg_append)
  have hd: "first l = Some a \<longleftrightarrow> ?p = None"
    using rep di by (cases as) (auto simp: list_rep_def last_or_None)
  obtain h2 where h2: "case ?p of None \<Rightarrow> h2 = cells h
      | Some b \<Rightarrow> \<exists>e. cells h b = Some e \<and> h2 = (cells h)(b \<mapsto> e\<lparr>nxt := None\<rparr>)"
    "dseg h2 None as cs None" "\<forall>x. x \<notin> set as \<longrightarrow> h2 x = cells h x"
    using dseg_bypass_next [OF d(2) di, of None] by blast
  have fix_next: "(if ?p \<noteq> None then store ?p (\<lambda>e. e\<lparr>nxt := None\<rparr>) h else Done h) = Done (h\<lparr>cells := h2\<rparr>)"
    using h2(1) by (cases ?p) (auto simp: heap_Done)
  let ?l = "l\<lparr>first := (if ?p = None then None else first l), last_el := ?p,
    current := (if current l = Some a then ?p else current l), count := count l - 1\<rparr>"
  have "h2 a = cells h a"
    using h2(3) di by simp
  then have run: "ListPopTail l h = Done (Some c, ?l, h\<lparr>cells := h2(a := None)\<rparr>)"
    using f d(1) fix_next hd h2(1)
    by (cases "current l = Some a"; cases ?p; simp add: ListPopTail_def heap_Done Let_def)
  have "list_rep ?l (h\<lparr>cells := h2(a := None)\<rparr>) (as @ []) (cs @ [])"
    by (rule list_rep_bypass [where l = l and h = h and a = a and x = c])
      (use rep len h2(2) list_rep_current_in [of l h as a "[]"] in
        \<open>auto split: if_splits dest: last_or_in\<close>)
  then show ?thesis
    using run by simp
qed

subsection \<open>Releasing a whole list\<close>

lemma release_loop_rep:
  "dseg (cells h) p as cs None \<Longrightarrow> distinct as \<Longrightarrow> first l = hd_or as None \<Longrightarrow>
   \<exists>l' h'. release_loop w l h = Some (Done (l', h'))
     \<and> freed h' = (if w then rev cs @ freed h else freed h) \<and> size_of l' = size_of l
     \<and> cells h' = (\<lambda>x. if x \<in> set as then None else cells h x)"
proof (induction as arbitrary: p cs l h)
  case Nil
  then show ?case
    by (subst release_loop.simps) simp
next
  case (Cons a as)
  then obtain c ds where cs: "cs = c # ds"
    by (cases cs) simp_all
  let ?h = "(if w then free_content c h else h)\<lparr>cells := (cells h)(a := None)\<rparr>"
  have cell: "cells h a = Some \<lparr>prev = p, nxt = hd_or as None, content = c\<rparr>"
    using Cons.prems cs by simp
  have "dseg (cells ?h) (Some a) as ds None"
    using Cons.prems cs by (simp add: dseg_upd)
  then have "\<exists>l' h'. release_loop w (l\<lparr>first := hd_or as None\<rparr>) ?h = Some (Done (l', h'))
    \<and> freed h' = (if w then rev ds @ freed ?h else freed ?h)
    \<and> size_of l' = size_of (l\<lparr>first := hd_or as None\<rparr>)
    \<and> cells h' = (\<lambda>x. if x \<in> set as then None else cells ?h x)"
    by (rule Cons.IH) (use Cons.prems in simp_all)
  then obtain l' h' where ih: "release_loop w (l\<lparr>first := hd_or as None\<rparr>) ?h = Some (Done (l', h'))"
    "freed h' = (if w then rev ds @ freed ?h else freed ?h)" "size_of l' = size_of l"
    "cells h' = (\<lambda>x. if x \<in> set as then None else cells ?h x)"
    by (elim exE conjE) simp
  have "release_loop w l h = Some (Done (l', h'))"
    using Cons.prems cell ih(1)
    by (subst release_loop.simps) (simp add: heap_Done free_content_def split: if_splits)
  then show ?case
    using ih cs by (auto simp: free_content_def)
qed

lemma ListEmpty_rep:
  assumes "list_rep l h as cs"
  shows "\<exists>h'. ListEmpty l h = Done (ListZero, h') \<and> freed h' = rev cs @ freed h
    \<and> cells h' = (\<lambda>x. if x \<in> set as then None else cells h x)"
  using release_loop_rep [of h None as cs l True] assms
  by (auto simp: list_rep_def ListEmpty_def run_loop_def ListZero_def)

lemma ListFreeNoContent_rep:
  assumes "list_rep l h as cs"
  shows "\<exists>h'. ListFreeNoContent l h = Done h' \<and> freed h' = freed h
    \<and> cells h' = (\<lambda>x. if x \<in> set as then None else cells h x)"
  using release_loop_rep [of h None as cs l False] assms
  by (auto simp: list_rep_def ListFreeNoContent_def run_loop_def)


section \<open>The list as its clients see it\<close>

text \<open>
  What the protocol code relies on of a list of messages: append at the end, take from the head,
  remove a message by identity.  \<open>holds l h cs\<close> says that the list holds \<open>cs\<close> in the store \<open>h\<close>, and
  \<open>avail h a\<close> that the allocator may return \<open>a\<close>.
\<close>

locale message_list =
  fixes holds :: "'l \<Rightarrow> 'h \<Rightarrow> 'c list \<Rightarrow> bool"
    and avail :: "'h \<Rightarrow> 'a \<Rightarrow> bool"
    and app :: "'a \<Rightarrow> 'l \<Rightarrow> 'c \<Rightarrow> 'h \<Rightarrow> ('l \<times> 'h) outcome"
    and take_head :: "'l \<Rightarrow> 'h \<Rightarrow> ('c option \<times> 'l \<times> 'h) outcome"
    and remove :: "'l \<Rightarrow> 'c \<Rightarrow> 'h \<Rightarrow> (bool \<times> 'l \<times> 'h) outcome"
  assumes app: "holds l h cs \<Longrightarrow> avail h a \<Longrightarrow>
      \<exists>l' h'. app a l c h = Done (l', h') \<and> holds l' h' (cs @ [c])
        \<and> (\<forall>b. b \<noteq> a \<longrightarrow> avail h b \<longrightarrow> avail h' b)"
    and take_head_Cons: "holds l h (c # cs) \<Longrightarrow>
      \<exists>l' h'. take_head l h = Done (Some c, l', h') \<and> holds l' h' cs"
    and take_head_Nil: "holds l h [] \<Longrightarrow> take_head l h = Done (None, l, h)"
    and remove: "holds l h cs \<Longrightarrow> distinct cs \<Longrightarrow>
      \<exists>l' h'. remove l c h = Done (c \<in> set cs, l', h') \<and> holds l' h' (remove1 c cs)"
begin

text \<open>Appending a sequence of messages, then draining the list.\<close>

primrec app_all :: "('a \<times> 'c) list \<Rightarrow> 'l \<Rightarrow> 'h \<Rightarrow> ('l \<times> 'h) outcome" where
  "app_all [] l h = Done (l, h)"
| "app_all (x # xs) l h = obind (app (fst x) l (snd x) h) (\<lambda>(l, h). app_all xs l h)"

primrec drain :: "nat \<Rightarrow> 'l \<Rightarrow> 'h \<Rightarrow> ('c list \<times> 'l \<times> 'h) outcome" where
  "drain 0 l h = Done ([], l, h)"
| "drain (Suc n) l h = obind (take_head l h) (\<lambda>(c, l, h).
     case c of None \<Rightarrow> Done ([], l, h)
     | Some x \<Rightarrow> obind (drain n l h) (\<lambda>(xs, l, h). Done (x # xs, l, h)))"

lemma app_all_holds:
  "holds l h cs \<Longrightarrow> distinct (map fst xs) \<Longrightarrow> (\<And>a. a \<in> set (map fst xs) \<Longrightarrow> avail h a) \<Longrightarrow>
   \<exists>l' h'. app_all xs l h = Done (l', h') \<and> holds l' h' (cs @ map snd xs)"
proof (induction xs arbitrary: l h cs)
  case (Cons x xs)
  obtain l1 h1 where step: "app (fst x) l (snd x) h = Done (l1, h1)" "holds l1 h1 (cs @ [snd x])"
    "\<forall>b. b \<noteq> fst x \<longrightarrow> avail h b \<longrightarrow> avail h1 b"
    using app [OF Cons.prems(1), of "fst x" "snd x"] Cons.prems(3) by auto
  have "avail h1 a" if "a \<in> set (map fst xs)" for a
    using step(3) Cons.prems(2,3) that by (metis distinct.simps(2) list.set_intros(2) list.simps(9))
  then show ?case
    using Cons.IH [OF step(2)] Cons.prems(2) step(1) by auto
qed simp

lemma drain_holds:
  "holds l h cs \<Longrightarrow> \<exists>l' h'. drain n l h = Done (take n cs, l', h') \<and> holds l' h' (drop n cs)"
proof (induction n arbitrary: l h cs)
  case (Suc n)
  show ?case
  proof (cases cs)
    case Nil
    then show ?thesis
      using Suc.prems take_head_Nil by auto
  next
    case (Cons c ds)
    then obtain l1 h1 where "take_head l h = Done (Some c, l1, h1)" "holds l1 h1 ds"
      using take_head_Cons Suc.prems by blast
    then show ?thesis
      using Suc.IH [of l1 h1 ds] Cons by auto
  qed
qed simp

text \<open>First in, first out.\<close>

lemma fifo:
  assumes "holds l h []" "distinct (map fst xs)" "\<And>a. a \<in> set (map fst xs) \<Longrightarrow> avail h a"
  shows "\<exists>l' h'. obind (app_all xs l h) (\<lambda>(l, h). drain (length xs) l h) = Done (map snd xs, l', h')
    \<and> holds l' h' []"
proof -
  obtain l1 h1 where "app_all xs l h = Done (l1, h1)" "holds l1 h1 (map snd xs)"
    using app_all_holds [OF assms(1,2)] assms(3) by auto
  then show ?thesis
    using drain_holds [of l1 h1 "map snd xs" "length xs"] by auto
qed

end

definition list_holds :: "List \<Rightarrow> 'c list_store \<Rightarrow> 'c list \<Rightarrow> bool" where
  "list_holds l h cs \<longleftrightarrow> (\<exists>as. list_rep l h as cs)"

definition unallocated :: "'c list_store \<Rightarrow> addr \<Rightarrow> bool" where
  "unallocated h a \<longleftrightarrow> cells h a = None"

lemma remove1_at: "x \<notin> set us \<Longrightarrow> remove1 x (us @ x # vs) = us @ vs"
  by (simp add: remove1_append)

lemma ListUnlink_pointer:
  assumes rep: "list_rep l h as cs" and "distinct cs"
  shows "\<exists>l' h' as'. ListUnlink l c None fr h = Done (c \<in> set cs, l', h')
    \<and> list_rep l' h' as' (remove1 c cs) \<and> size_of l' = size_of l
    \<and> freed h' = (if fr \<and> c \<in> set cs then c # freed h else freed h)"
  using ListUnlink_rep [OF rep, of c None fr]
proof (elim disjE exE conjE)
  assume "ListUnlink l c None fr h = Done (False, l, h)" "\<forall>x \<in> set cs. \<not> matches None x c"
  then show ?thesis
    using rep by (cases "c \<in> set cs") (auto simp: matches_def remove1_idem)
next
  fix a xs ys us x vs l' h'
  assume at: "found_at l (\<lambda>x. matches None x c) as cs a xs ys us x vs"
    and run: "ListUnlink l c None fr h = Done (True, l', h')" "list_rep l' h' (xs @ ys) (us @ vs)"
      "freed h' = (if fr then x # freed h else freed h)" "size_of l' = size_of l"
  have "x = c" "cs = us @ c # vs"
    using at by (auto simp: found_at_def matches_def)
  moreover from this have "remove1 c cs = us @ vs" "c \<in> set cs"
    using assms(2) by (auto simp: remove1_append)
  ultimately show ?thesis
    using run by auto
qed

interpretation paho: message_list list_holds unallocated "\<lambda>a l c h. ListAppend a \<lparr>prev = None, nxt = None, content = c\<rparr> l c 0 h"
  ListDetachHead ListDetach
proof
  fix l :: List and h :: "'c list_store" and cs a and c :: 'c
  assume "list_holds l h cs" "unallocated h a"
  then obtain as where rep: "list_rep l h as cs" and new: "cells h a = None"
    by (auto simp: list_holds_def unallocated_def)
  have "b \<notin> set as" if "cells h b = None" for b
    using list_rep_fresh [OF rep that] .
  then show "\<exists>l' h'. ListAppend a \<lparr>prev = None, nxt = None, content = c\<rparr> l c 0 h = Done (l', h')
      \<and> list_holds l' h' (cs @ [c]) \<and> (\<forall>b. b \<noteq> a \<longrightarrow> unallocated h b \<longrightarrow> unallocated h' b)"
    using ListAppend_rep [OF rep new, of "\<lparr>prev = None, nxt = None, content = c\<rparr>" c 0]
    by (auto simp: list_holds_def unallocated_def)
next
  fix l :: List and h :: "'c list_store" and c cs
  assume "list_holds l h (c # cs)"
  then obtain as where rep: "list_rep l h as (c # cs)"
    by (auto simp: list_holds_def)
  then obtain b bs where "as = b # bs"
    by (cases as) (auto simp: list_rep_def)
  then show "\<exists>l' h'. ListDetachHead l h = Done (Some c, l', h') \<and> list_holds l' h' cs"
    using ListDetachHead_rep [of l h b bs c cs] rep by (auto simp: list_holds_def)
next
  fix l :: List and h :: "'c list_store"
  assume "list_holds l h []"
  then have "count l = 0"
    by (auto simp: list_holds_def list_rep_def dest: dseg_length)
  then show "ListDetachHead l h = Done (None, l, h)"
    by (simp add: ListDetachHead_def)
next
  fix l :: List and h :: "'c list_store" and cs c
  assume "list_holds l h cs" "distinct cs"
  then show "\<exists>l' h'. ListDetach l c h = Done (c \<in> set cs, l', h') \<and> list_holds l' h' (remove1 c cs)"
    unfolding list_holds_def ListDetach_def by (metis ListUnlink_pointer)
qed


section \<open>Correctness of the list\<close>

text \<open>Appending a sequence of messages at given addresses, and taking up to \<open>n\<close> from the head.\<close>

primrec list_append_all :: "(addr \<times> 'c) list \<Rightarrow> List \<Rightarrow> 'c list_store \<Rightarrow> (List \<times> 'c list_store) outcome" where
  "list_append_all [] l h = Done (l, h)"
| "list_append_all (x # xs) l h =
     obind (ListAppend (fst x) \<lparr>prev = None, nxt = None, content = snd x\<rparr> l (snd x) 0 h)
       (\<lambda>(l, h). list_append_all xs l h)"

primrec list_drain :: "nat \<Rightarrow> List \<Rightarrow> 'c list_store \<Rightarrow> ('c list \<times> List \<times> 'c list_store) outcome" where
  "list_drain 0 l h = Done ([], l, h)"
| "list_drain (Suc n) l h = obind (ListDetachHead l h) (\<lambda>(c, l, h).
     case c of None \<Rightarrow> Done ([], l, h)
     | Some x \<Rightarrow> obind (list_drain n l h) (\<lambda>(xs, l, h). Done (x # xs, l, h)))"

lemma list_append_all_eq: "list_append_all xs l h = paho.app_all xs l h"
  by (induction xs arbitrary: l h) simp_all

lemma list_drain_eq: "list_drain n l h = paho.drain n l h"
  by (induction n arbitrary: l h) (simp_all cong: option.case_cong)

text \<open>
  The list is a queue: messages appended one after the other at fresh addresses to an empty
  list come out of \<open>ListDetachHead\<close> in the same order, without a fault, and leave it empty.
\<close>

theorem list_fifo:
  assumes "distinct (map fst xs)" "\<And>a. a \<in> set (map fst xs) \<Longrightarrow> cells h a = None"
  shows "\<exists>l' h'. obind (list_append_all xs ListInitialize h) (\<lambda>(l, h). list_drain (length xs) l h) =
      Done (map snd xs, l', h') \<and> list_holds l' h' []"
  unfolding list_append_all_eq list_drain_eq
  by (rule paho.fifo)
    (use assms list_rep_empty in \<open>auto simp: list_holds_def ListInitialize_def unallocated_def\<close>)

theorem list_fifo_witness:
  "\<exists>l' h'. obind (list_append_all [(7, ''a''), (3, ''b'')] ListInitialize \<lparr>cells = Map.empty, freed = []\<rparr>)
     (\<lambda>(l, h). list_drain 2 l h) = Done ([''a'', ''b''], l', h')"
  using list_fifo [of "[(7, ''a''), (3, ''b'')]" "\<lparr>cells = Map.empty, freed = []\<rparr>"]
  by (auto simp: numeral_2_eq_2)

text \<open>
  C36: \<open>ListRemoveItem\<close> removes exactly one element: the current one if it matches, otherwise the
  first match; it is unlinked from both neighbours, its content is released once, the cell is
  freed, the current pointer never dangles, and the list stays well formed.  Without a match nothing
  changes.  The recorded heap size of the list is not reduced.
\<close>

theorem ListRemoveItem_refines:
  assumes "list_rep l h as cs"
  shows "(ListRemoveItem l c cb h = Done (False, l, h) \<and> (\<forall>x \<in> set cs. \<not> matches cb x c))
    \<or> (\<exists>a xs ys us x vs l' h'. found_at l (\<lambda>x. matches cb x c) as cs a xs ys us x vs
       \<and> ListRemoveItem l c cb h = Done (True, l', h') \<and> list_rep l' h' (xs @ ys) (us @ vs)
       \<and> current l' = (if current l = Some a then hd_or ys None else current l)
       \<and> freed h' = x # freed h \<and> size_of l' = size_of l \<and> cells h' a = None)"
  using ListUnlink_rep [OF assms, of c cb True] by (simp only: ListRemoveItem_def if_True)

theorem ListRemoveItem_refines_witness:
  "\<exists>l' h'. ListRemoveItem \<lparr>first = Some 4, last_el = Some 4, current = Some 4, count = 1, size_of = 8\<rparr> ''m'' None
      \<lparr>cells = [4 \<mapsto> \<lparr>prev = None, nxt = None, content = ''m''\<rparr>], freed = []\<rparr> = Done (True, l', h')
    \<and> list_rep l' h' [] [] \<and> freed h' = [''m''] \<and> current l' = None"
  using ListRemoveItem_refines [of "\<lparr>first = Some 4, last_el = Some 4, current = Some 4, count = 1, size_of = 8\<rparr>"
      "\<lparr>cells = [4 \<mapsto> \<lparr>prev = None, nxt = None, content = ''m''\<rparr>], freed = []\<rparr>" "[4]" "[''m'']" "''m''" None]
  by (auto simp: list_rep_def found_at_def matches_def Cons_eq_append_conv)

text \<open>
  \<open>ListEmpty\<close> ends, releases every content of the list exactly once and every cell, touches no
  other cell and leaves an empty list; \<open>ListFreeNoContent\<close> releases the cells and no content.
\<close>

theorem ListEmpty_releases:
  assumes "list_rep l h as cs"
  shows "(\<exists>h'. ListEmpty l h = Done (ListZero, h') \<and> freed h' = rev cs @ freed h
      \<and> cells h' = (\<lambda>x. if x \<in> set as then None else cells h x))
    \<and> (\<exists>h'. ListFreeNoContent l h = Done h' \<and> freed h' = freed h
      \<and> cells h' = (\<lambda>x. if x \<in> set as then None else cells h x))"
  using ListEmpty_rep [OF assms] ListFreeNoContent_rep [OF assms] by blast

theorem ListEmpty_releases_witness:
  "\<exists>h'. ListEmpty \<lparr>first = Some 4, last_el = Some 4, current = None, count = 1, size_of = 8\<rparr>
      \<lparr>cells = [4 \<mapsto> \<lparr>prev = None, nxt = None, content = ''m''\<rparr>], freed = []\<rparr> = Done (ListZero, h')
     \<and> freed h' = [''m'']"
  using ListEmpty_releases [of "\<lparr>first = Some 4, last_el = Some 4, current = None, count = 1, size_of = 8\<rparr>"
      "\<lparr>cells = [4 \<mapsto> \<lparr>prev = None, nxt = None, content = ''m''\<rparr>], freed = []\<rparr>" "[4]" "[''m'']"]
  by (auto simp: list_rep_def)

end
