(* ===== verification/Cursor_List.thy ===== *)
theory Cursor_List
  imports Linked_List
begin

text \<open>
  The abstract view of the \<open>List\<close> structure of \<^verbatim>\<open>mqtt/source/LinkedList.c\<close> that the socket and
  protocol code is modelled with: the contents in order and the position of the element \<open>current\<close>
  points to, which \<open>ListFindItem\<close> tries before it searches from the front and which
  \<open>ListUnlink\<close> moves on when it frees the current element.  \<open>cl_rep\<close> ties the abstract lists to
  the linked cells, and each operation is refined by the C operation it stands for.
\<close>

section \<open>The data and the operations\<close>

record 'c clist =
  items :: "'c list"
  cursor :: "nat option"

definition cl_new :: "'c clist" where
  "cl_new = \<lparr>items = [], cursor = None\<rparr>"

text \<open>The first position whose content satisfies \<open>P\<close>.\<close>

fun first_at :: "('c \<Rightarrow> bool) \<Rightarrow> 'c list \<Rightarrow> nat option" where
  "first_at P [] = None"
| "first_at P (x # xs) = (if P x then Some 0 else map_option Suc (first_at P xs))"

definition at_cursor :: "('c \<Rightarrow> bool) \<Rightarrow> 'c clist \<Rightarrow> bool" where
  "at_cursor P l = (case cursor l of None \<Rightarrow> False | Some i \<Rightarrow> i < length (items l) \<and> P (items l ! i))"

definition cl_index :: "('c \<Rightarrow> bool) \<Rightarrow> 'c clist \<Rightarrow> nat option" where
  "cl_index P l = (if at_cursor P l then cursor l else first_at P (items l))"

definition cl_find :: "('c \<Rightarrow> bool) \<Rightarrow> 'c clist \<Rightarrow> nat option \<times> 'c clist" where
  "cl_find P l = (case cl_index P l of None \<Rightarrow> (None, l) | Some i \<Rightarrow> (Some i, l\<lparr>cursor := Some i\<rparr>))"

definition cl_append :: "'c \<Rightarrow> 'c clist \<Rightarrow> 'c clist" where
  "cl_append x l = l\<lparr>items := items l @ [x]\<rparr>"

definition cl_insert :: "'c \<Rightarrow> nat \<Rightarrow> 'c clist \<Rightarrow> 'c clist" where
  "cl_insert x i l = \<lparr>items = take i (items l) @ x # drop i (items l),
     cursor = map_option (\<lambda>j. if i \<le> j then Suc j else j) (cursor l)\<rparr>"

definition cl_delete :: "nat \<Rightarrow> 'c clist \<Rightarrow> 'c clist" where
  "cl_delete i l = \<lparr>items = take i (items l) @ drop (Suc i) (items l),
     cursor = (case cursor l of None \<Rightarrow> None
       | Some j \<Rightarrow> if j = i then if Suc i < length (items l) then Some i else None
                   else if i < j then Some (j - 1) else Some j)\<rparr>"

definition cl_unlink :: "('c \<Rightarrow> bool) \<Rightarrow> 'c clist \<Rightarrow> bool \<times> 'c clist" where
  "cl_unlink P l = (case cl_index P l of None \<Rightarrow> (False, l) | Some i \<Rightarrow> (True, cl_delete i l))"

text \<open>A write through a pointer to the content at position \<open>i\<close>.\<close>

definition cl_update :: "nat \<Rightarrow> ('c \<Rightarrow> 'c) \<Rightarrow> 'c clist \<Rightarrow> 'c clist" where
  "cl_update i f l = l\<lparr>items := (items l)[i := f (items l ! i)]\<rparr>"

definition cl_wf :: "'c clist \<Rightarrow> bool" where
  "cl_wf l \<longleftrightarrow> (\<forall>i. cursor l = Some i \<longrightarrow> i < length (items l))"

section \<open>Facts about searching\<close>

lemma first_at_None: "first_at P xs = None \<longleftrightarrow> (\<forall>x \<in> set xs. \<not> P x)"
  by (induction xs) auto

lemma first_at_Some:
  "first_at P xs = Some i \<longleftrightarrow> i < length xs \<and> P (xs ! i) \<and> (\<forall>j < i. \<not> P (xs ! j))"
proof (induction xs arbitrary: i)
  case (Cons x xs)
  show ?case
  proof (cases i)
    case (Suc k)
    have "(\<forall>j < Suc k. \<not> P ((x # xs) ! j)) \<longleftrightarrow> \<not> P x \<and> (\<forall>j < k. \<not> P (xs ! j))"
      by (metis less_Suc_eq_0_disj nth_Cons_0 nth_Cons_Suc)
    then show ?thesis
      using Suc Cons.IH [of k] by auto
  qed simp
qed simp

lemma cl_index_None: "cl_index P l = None \<longleftrightarrow> (\<forall>x \<in> set (items l). \<not> P x)"
  by (auto simp: cl_index_def at_cursor_def first_at_None split: option.splits)

lemma cl_index_Some: "cl_index P l = Some i \<Longrightarrow> i < length (items l) \<and> P (items l ! i)"
  by (auto simp: cl_index_def at_cursor_def first_at_Some split: option.splits if_splits)

lemma cl_index_unique:
  assumes "i < length (items l)" "P (items l ! i)"
    and unique: "\<And>j. j < length (items l) \<Longrightarrow> P (items l ! j) \<Longrightarrow> j = i"
  shows "cl_index P l = Some i"
proof (cases "cl_index P l")
  case None
  then show ?thesis
    using assms(1,2) nth_mem [OF assms(1)] by (auto simp: cl_index_None)
next
  case (Some j)
  then show ?thesis
    using unique [of j] cl_index_Some [OF Some] by simp
qed

lemma cl_find_None: "fst (cl_find P l) = None \<longleftrightarrow> (\<forall>x \<in> set (items l). \<not> P x)"
  using cl_index_None [of P l] by (cases "cl_index P l") (simp_all add: cl_find_def)

lemma items_find [simp]: "items (snd (cl_find P l)) = items l"
  by (simp add: cl_find_def split: option.splits)

lemma items_append [simp]: "items (cl_append x l) = items l @ [x]"
  by (simp add: cl_append_def)

lemma items_update [simp]: "items (cl_update i f l) = (items l)[i := f (items l ! i)]"
  by (simp add: cl_update_def)

lemma items_delete: "items (cl_delete i l) = take i (items l) @ drop (Suc i) (items l)"
  by (simp add: cl_delete_def)

lemma items_insert: "items (cl_insert x i l) = take i (items l) @ x # drop i (items l)"
  by (simp add: cl_insert_def)

lemma items_new [simp]: "items cl_new = []" "cursor cl_new = None"
  by (simp_all add: cl_new_def)

lemma cl_wf_new [simp]: "cl_wf cl_new"
  by (simp add: cl_wf_def)

lemma cl_wf_find: "cl_wf l \<Longrightarrow> cl_wf (snd (cl_find P l))"
  by (auto simp: cl_wf_def cl_find_def dest: cl_index_Some split: option.splits)

lemma cl_wf_append: "cl_wf l \<Longrightarrow> cl_wf (cl_append x l)"
  by (auto simp: cl_wf_def cl_append_def)

lemma cl_wf_delete: "cl_wf l \<Longrightarrow> i < length (items l) \<Longrightarrow> cl_wf (cl_delete i l)"
  by (auto simp: cl_wf_def cl_delete_def split: option.splits if_splits)

lemma cl_wf_unlink: "cl_wf l \<Longrightarrow> cl_wf (snd (cl_unlink P l))"
  by (auto simp: cl_unlink_def split: option.splits dest: cl_index_Some intro: cl_wf_delete)

lemma set_delete_subset: "set (items (cl_delete i l)) \<subseteq> set (items l)"
  by (auto simp: items_delete dest: in_set_takeD in_set_dropD)

section \<open>The linked list refines it\<close>

definition cl_rep :: "List \<Rightarrow> 'c list_store \<Rightarrow> addr list \<Rightarrow> 'c clist \<Rightarrow> bool" where
  "cl_rep l h as cl \<longleftrightarrow> list_rep l h as (items cl) \<and> cl_wf cl
     \<and> current l = map_option (\<lambda>i. as ! i) (cursor cl)"

lemma list_rep_lengths: "list_rep l h as cs \<Longrightarrow> length as = length cs \<and> distinct as"
  by (auto simp: list_rep_def dest: dseg_length)

lemma cl_rep_new: "cl_rep ListZero h [] cl_new"
  by (simp add: cl_rep_def list_rep_empty) (simp add: ListZero_def)

lemma cl_rep_current:
  assumes "cl_rep l h as cl" "i < length as"
  shows "current l = Some (as ! i) \<longleftrightarrow> cursor cl = Some i"
  using assms list_rep_lengths [of l h as "items cl"]
  by (auto simp: cl_rep_def cl_wf_def nth_eq_iff_index_eq)

lemma found_at_index:
  assumes rep: "cl_rep l h as cl" and "found_at l P as (items cl) a xs ys us x vs"
    and nc: "at_cursor P cl \<Longrightarrow> current l = Some a"
  shows "cl_index P cl = Some (length us) \<and> a = as ! length us \<and> length us < length as"
proof -
  have s: "as = xs @ a # ys" "items cl = us @ x # vs" "length xs = length us" "P x"
    "current l \<noteq> Some a \<Longrightarrow> \<forall>y \<in> set us. \<not> P y"
    using assms(2) by (simp_all add: found_at_def)
  have a: "a = as ! length us" "length us < length as"
    using s(1,3) by (metis nth_append_length) (use s(1,3) in simp)
  have cur: "current l = Some a \<longleftrightarrow> cursor cl = Some (length us)"
    using cl_rep_current [OF rep a(2)] a(1) by simp
  have "cl_index P cl = Some (length us)"
  proof (cases "at_cursor P cl")
    case True
    then show ?thesis
      using nc cur by (simp add: cl_index_def)
  next
    case False
    then have "cursor cl \<noteq> Some (length us)"
      using s by (auto simp: at_cursor_def)
    then have "\<forall>y \<in> set us. \<not> P y"
      using cur s(5) by simp
    then show ?thesis
      using False s by (auto simp: cl_index_def first_at_Some nth_append)
  qed
  then show ?thesis
    using a by simp
qed

lemma cl_rep_cell:
  assumes "cl_rep l h as cl" "i < length as"
  shows "\<exists>e. cells h (as ! i) = Some e \<and> content e = items cl ! i"
proof -
  have rep: "list_rep l h as (items cl)"
    using assms by (simp add: cl_rep_def)
  obtain xs ys us c vs where s: "as = xs @ as ! i # ys" "items cl = us @ c # vs" "length xs = length us"
    "cells h (as ! i) = Some \<lparr>prev = last_or None xs, nxt = hd_or ys None, content = c\<rparr>"
    by (rule list_rep_split [OF rep nth_mem [OF assms(2)]]) blast
  have "length xs < length as" "as ! length xs = as ! i"
    using arg_cong [OF s(1), of length] arg_cong [OF s(1), of "\<lambda>l. l ! length xs"] by simp_all
  then have "length xs = i"
    using list_rep_lengths [OF rep] assms(2) by (simp add: nth_eq_iff_index_eq)
  then have "items cl ! i = c"
    using s(2,3) by (metis nth_append_length)
  then show ?thesis
    using s(4) by simp
qed

lemma find_at_cursor:
  assumes "cl_rep l h as cl" "at_cursor (\<lambda>x. matches cb x c) cl"
  shows "ListFindItem cb l c h = Done (current l, l) \<and> current l \<noteq> None"
proof -
  obtain i where i: "cursor cl = Some i" "i < length (items cl)" "matches cb (items cl ! i) c"
    using assms(2) by (auto simp: at_cursor_def split: option.splits)
  moreover have "i < length as" "current l = Some (as ! i)"
    using i assms(1) list_rep_lengths [of l h as "items cl"] by (simp_all add: cl_rep_def)
  ultimately show ?thesis
    using cl_rep_cell [OF assms(1)] by (force simp: ListFindItem_def deref_def)
qed

text \<open>\<open>ListFindItem\<close>: the same element is found, and \<open>current\<close> is left at it.\<close>

lemma cl_find_refines:
  assumes "cl_rep l h as cl"
  shows "\<exists>l'. ListFindItem cb l c h = Done (map_option (\<lambda>i. as ! i) (fst (cl_find (\<lambda>x. matches cb x c) cl)), l')
    \<and> cl_rep l' h as (snd (cl_find (\<lambda>x. matches cb x c) cl))"
proof -
  let ?P = "\<lambda>x. matches cb x c"
  have rep: "list_rep l h as (items cl)"
    using assms by (simp add: cl_rep_def)
  from ListFindItem_rep [OF rep, of cb c] show ?thesis
  proof (elim disjE exE conjE)
    assume "ListFindItem cb l c h = Done (None, l)" "\<forall>x \<in> set (items cl). \<not> ?P x"
    then show ?thesis
      using assms cl_index_None [of ?P cl] by (simp add: cl_find_def)
  next
    fix a xs ys us x vs
    assume run: "ListFindItem cb l c h = Done (Some a, l\<lparr>current := Some a\<rparr>)"
      and f: "found_at l ?P as (items cl) a xs ys us x vs"
    have "at_cursor ?P cl \<Longrightarrow> current l = Some a"
      using find_at_cursor [OF assms, of cb c] run by simp
    then have "cl_index ?P cl = Some (length us)" "a = as ! length us" "length us < length as"
      using found_at_index [OF assms f] by simp_all
    then show ?thesis
      using assms run list_rep_lengths [OF rep] list_rep_current [OF rep]
      by (simp add: cl_find_def cl_rep_def cl_wf_def)
  qed
qed

text \<open>\<open>ListAppend\<close> with a fresh element, \<open>ListUnlink\<close> with its handling of \<open>current\<close>.\<close>

lemma cl_append_refines:
  assumes "cl_rep l h as cl" "cells h a = None"
  shows "\<exists>l' h'. ListAppend a junk l c sz h = Done (l', h') \<and> cl_rep l' h' (as @ [a]) (cl_append c cl)
    \<and> freed h' = freed h"
proof -
  have rep: "list_rep l h as (items cl)"
    using assms by (simp add: cl_rep_def)
  show ?thesis
    using ListAppend_rep [OF rep assms(2), of junk c sz] assms(1) list_rep_lengths [OF rep]
    by (cases "cursor cl") (auto simp: cl_rep_def cl_append_def cl_wf_def nth_append)
qed

lemma hd_or_drop: "hd_or (drop i as) None = (if i < length as then Some (as ! i) else None)"
  by (simp add: hd_or_def Cons_nth_drop_Suc [symmetric] split: list.split)

lemma nth_delete:
  "j < length xs \<Longrightarrow> j \<noteq> i \<Longrightarrow> i < length xs \<Longrightarrow>
   (take i xs @ drop (Suc i) xs) ! (if i < j then j - 1 else j) = xs ! j"
  by (cases j) (auto simp: nth_append)

lemma cl_unlink_refines:
  assumes "cl_rep l h as cl"
  shows "\<exists>l' h' as'. ListUnlink l c cb fr h = Done (fst (cl_unlink (\<lambda>x. matches cb x c) cl), l', h')
    \<and> cl_rep l' h' as' (snd (cl_unlink (\<lambda>x. matches cb x c) cl)) \<and> set as' \<subseteq> set as
    \<and> freed h' = (case cl_index (\<lambda>x. matches cb x c) cl of None \<Rightarrow> freed h
         | Some i \<Rightarrow> if fr then items cl ! i # freed h else freed h)"
proof -
  let ?P = "\<lambda>x. matches cb x c"
  have rep: "list_rep l h as (items cl)" and wf: "cl_wf cl"
    using assms by (simp_all add: cl_rep_def)
  from ListFindItem_rep [OF rep, of cb c] show ?thesis
  proof (elim disjE exE conjE)
    assume "ListFindItem cb l c h = Done (None, l)" "\<forall>x \<in> set (items cl). \<not> ?P x"
    then show ?thesis
      using assms cl_index_None [of ?P cl] by (intro exI [of _ l] exI [of _ h] exI [of _ as])
        (simp add: cl_unlink_def ListUnlink_def)
  next
    fix a xs ys us x vs
    assume find: "ListFindItem cb l c h = Done (Some a, l\<lparr>current := Some a\<rparr>)"
      and f: "found_at l ?P as (items cl) a xs ys us x vs"
    have "at_cursor ?P cl \<Longrightarrow> current l = Some a"
      using find_at_cursor [OF assms, of cb c] find by simp
    then have i: "cl_index ?P cl = Some (length us)" "a = as ! length us" "length us < length as"
      using found_at_index [OF assms f] by simp_all
    have s: "as = xs @ a # ys" "items cl = us @ x # vs" "length xs = length us"
      using f by (simp_all add: found_at_def)
    have parts: "xs = take (length us) as" "ys = drop (Suc (length us)) as" "x = items cl ! length us"
      using s by simp_all
    have rep': "list_rep l h (xs @ a # ys) (us @ x # vs)"
      using rep s by simp
    obtain l' h' where u: "ListUnlink l c cb fr h = Done (True, l', h')" "list_rep l' h' (xs @ ys) (us @ vs)"
      "current l' = (if current l = Some a then hd_or ys None else current l)"
      "freed h' = (if fr then x # freed h else freed h)"
      using ListUnlink_at [OF rep' s(3) find, of fr] by blast
    have its: "items (cl_delete (length us) cl) = us @ vs"
      using s(2) by (simp add: items_delete)
    have "current l' = map_option (\<lambda>i. (xs @ ys) ! i) (cursor (cl_delete (length us) cl))"
    proof (cases "cursor cl")
      case None
      then show ?thesis
        using assms u(3) by (simp add: cl_rep_def cl_delete_def)
    next
      case (Some j)
      then have j: "j < length as" "current l = Some (as ! j)"
        using assms wf list_rep_lengths [OF rep] by (simp_all add: cl_rep_def cl_wf_def)
      show ?thesis
      proof (cases "j = length us")
        case True
        then have "current l' = hd_or ys None"
          using u(3) i(2) j(2) by simp
        then show ?thesis
          using True Some list_rep_lengths [OF rep] s(3)
          by (simp add: cl_delete_def parts(2) hd_or_drop) (simp add: s(1) nth_append)
      next
        case False
        then have "as ! j \<noteq> a"
          using i j list_rep_lengths [OF rep] by (simp add: nth_eq_iff_index_eq)
        then show ?thesis
          using False Some u(3) j nth_delete [OF j(1) False i(3)] parts(1,2)
          by (simp add: cl_delete_def split: if_splits)
      qed
    qed
    moreover have "cl_wf (cl_delete (length us) cl)"
      using wf s(2) by (intro cl_wf_delete) simp_all
    ultimately have "cl_rep l' h' (xs @ ys) (cl_delete (length us) cl)"
      using u(2) its by (simp add: cl_rep_def)
    then show ?thesis
      using u i(1) parts(3) s(1) by (auto simp: cl_unlink_def)
  qed
qed

text \<open>\<open>ListInsert\<close> before the element at position \<open>i\<close>.\<close>

lemma cl_insert_refines:
  assumes "cl_rep l h as cl" "cells h a = None" "i < length as"
  shows "\<exists>l' h'. ListInsert a junk l c sz (Some (as ! i)) h = Done (l', h')
    \<and> cl_rep l' h' (take i as @ a # drop i as) (cl_insert c i cl) \<and> freed h' = freed h"
proof -
  have rep: "list_rep l h as (items cl)" and wf: "cl_wf cl"
    using assms by (simp_all add: cl_rep_def)
  have len: "length as = length (items cl)"
    using list_rep_lengths [OF rep] by simp
  have s: "as = take i as @ as ! i # drop (Suc i) as"
    "items cl = take i (items cl) @ items cl ! i # drop (Suc i) (items cl)"
    using assms(3) len by (auto intro: id_take_nth_drop)
  have d: "drop i as = as ! i # drop (Suc i) as" "drop i (items cl) = items cl ! i # drop (Suc i) (items cl)"
    using assms(3) len by (simp_all add: Cons_nth_drop_Suc)
  have rep': "list_rep l h (take i as @ as ! i # drop (Suc i) as)
      (take i (items cl) @ items cl ! i # drop (Suc i) (items cl))"
    using rep s by simp
  obtain l' h' where r: "ListInsert a junk l c sz (Some (as ! i)) h = Done (l', h')"
    "list_rep l' h' (take i as @ a # drop i as) (take i (items cl) @ c # drop i (items cl))"
    "current l' = current l" "freed h' = freed h"
    using ListInsert_rep [OF rep' _ assms(2), of junk c sz] len unfolding d by auto
  have "(take i as @ a # drop i as) ! (if i \<le> j then Suc j else j) = as ! j" if "j < length as" for j
    using that assms(3) by (auto simp: nth_append)
  then have "current l' = map_option (\<lambda>i. (take i' as @ a # drop i' as) ! i) (cursor (cl_insert c i cl))"
    if "i' = i" for i'
    using r(3) assms(1) wf len that
    by (cases "cursor cl") (auto simp: cl_rep_def cl_insert_def cl_wf_def)
  moreover have "cl_wf (cl_insert c i cl)"
    using wf by (auto simp: cl_wf_def cl_insert_def)
  ultimately show ?thesis
    using r by (auto simp: cl_rep_def items_insert)
qed

lemma cl_wf_insert: "cl_wf l \<Longrightarrow> cl_wf (cl_insert x i l)"
  by (auto simp: cl_wf_def cl_insert_def)

end
