(* ===== verification/Mqtt_Packet.thy ===== *)
theory Mqtt_Packet
  imports Prelude "HOL-Library.Signed_Division"
begin

text \<open>
  The MQTT wire format of the client library: \<^verbatim>\<open>mqtt/source/MQTTPacket.c\<close>,
  \<^verbatim>\<open>mqtt/source/MQTTPacketOut.c\<close> and the types of \<^verbatim>\<open>mqtt/include/MQTTPacket.h\<close>.  Buffers are byte
  lists with a position, and every access outside a buffer is a fault.  A C string is the list of
  its bytes before the terminator.  The network is a parameter: how a byte is read, how bytes are
  read and written, and the persistence call, are arguments of the operations that use them.
\<close>

section \<open>Codes and headers\<close>

definition TCPSOCKET_COMPLETE :: int where "TCPSOCKET_COMPLETE = 0"
definition SOCKET_ERROR :: int where "SOCKET_ERROR = -1"
definition TCPSOCKET_INTERRUPTED :: int where "TCPSOCKET_INTERRUPTED = -22"
definition BAD_MQTT_PACKET :: int where "BAD_MQTT_PACKET = -4"

lemmas socket_codes = TCPSOCKET_COMPLETE_def SOCKET_ERROR_def TCPSOCKET_INTERRUPTED_def
  BAD_MQTT_PACKET_def

datatype msgTypes =
  RESERVED | CONNECT | CONNACK | PUBLISH | PUBACK | PUBREC | PUBREL | PUBCOMP | SUBSCRIBE | SUBACK
| UNSUBSCRIBE | UNSUBACK | PINGREQ | PINGRESP | DISCONNECT

definition msg_types :: "msgTypes list" where
  "msg_types = [RESERVED, CONNECT, CONNACK, PUBLISH, PUBACK, PUBREC, PUBREL, PUBCOMP, SUBSCRIBE,
     SUBACK, UNSUBSCRIBE, UNSUBACK, PINGREQ, PINGRESP, DISCONNECT]"

primrec msg_code :: "msgTypes \<Rightarrow> nat" where
  "msg_code RESERVED = 0"
| "msg_code CONNECT = 1"
| "msg_code CONNACK = 2"
| "msg_code PUBLISH = 3"
| "msg_code PUBACK = 4"
| "msg_code PUBREC = 5"
| "msg_code PUBREL = 6"
| "msg_code PUBCOMP = 7"
| "msg_code SUBSCRIBE = 8"
| "msg_code SUBACK = 9"
| "msg_code UNSUBSCRIBE = 10"
| "msg_code UNSUBACK = 11"
| "msg_code PINGREQ = 12"
| "msg_code PINGRESP = 13"
| "msg_code DISCONNECT = 14"

definition packet_names :: "string list" where
  "packet_names = [''RESERVED'', ''CONNECT'', ''CONNACK'', ''PUBLISH'', ''PUBACK'', ''PUBREC'',
     ''PUBREL'', ''PUBCOMP'', ''SUBSCRIBE'', ''SUBACK'', ''UNSUBSCRIBE'', ''UNSUBACK'',
     ''PINGREQ'', ''PINGRESP'', ''DISCONNECT'']"

definition MQTTPacket_name :: "int \<Rightarrow> string" where
  "MQTTPacket_name ptype =
     (if 0 \<le> ptype \<and> ptype \<le> int (msg_code DISCONNECT) then packet_names ! nat ptype else ''UNKNOWN'')"

text \<open>The union \<open>Header\<close>: the byte, and its four bit fields from the lowest bit up.\<close>

definition header_byte :: "nat \<Rightarrow> bool \<Rightarrow> nat \<Rightarrow> bool \<Rightarrow> u8" where
  "header_byte type dup qos retain =
     push_bit 4 (of_nat (take_bit 4 type)) OR push_bit 3 (of_bool dup)
       OR push_bit 1 (of_nat (take_bit 2 qos)) OR of_bool retain"

definition header_type :: "u8 \<Rightarrow> nat" where "header_type h = unat (drop_bit 4 h)"
definition header_dup :: "u8 \<Rightarrow> bool" where "header_dup h = bit h 3"
definition header_qos :: "u8 \<Rightarrow> nat" where "header_qos h = unat (take_bit 2 (drop_bit 1 h))"
definition header_retain :: "u8 \<Rightarrow> bool" where "header_retain h = bit h 0"

section \<open>The remaining length\<close>

text \<open>
  \<open>MQTTPacket_encode\<close>: the bytes it writes, for an \<open>int\<close> argument (C's division truncates).  The
  loop runs while the rest is positive.
\<close>

lemma sdiv_128: "0 \<le> len \<Longrightarrow> len sdiv 128 = len div 128" "0 \<le> len \<Longrightarrow> len smod 128 = len mod 128"
  for len :: int
  by (simp_all add: signed_divide_int_def signed_modulo_int_def sgn_if minus_div_mult_eq_mod)

lemma sdiv_128_decreases: "0 < len sdiv 128 \<Longrightarrow> nat (len sdiv 128) < nat len" for len :: int
  by (auto simp: signed_divide_int_def sgn_if split: if_splits)

function encode_loop :: "int \<Rightarrow> u8 list" where
  "encode_loop len =
     (let d = of_int (len smod 128) :: u8; len' = len sdiv 128 in
      if 0 < len' then (d OR 0x80) # encode_loop len' else [d])"
  by auto
termination
  by (relation "measure nat") (auto dest: sdiv_128_decreases)

declare encode_loop.simps [simp del]

definition MQTTPacket_encode :: "u8 list \<Rightarrow> nat \<Rightarrow> int \<Rightarrow> (nat \<times> u8 list) outcome" where
  "MQTTPacket_encode buf off len =
     (let bs = encode_loop len in
      check (off + length bs \<le> length buf) (Done (length bs, blit buf off bs)))"

definition MAX_NO_OF_REMAINING_LENGTH_BYTES :: nat where "MAX_NO_OF_REMAINING_LENGTH_BYTES = 4"

text \<open>\<open>getch\<close> reads one byte from the network: the completion code, the byte and the new state.\<close>

function decode_loop :: "('n \<Rightarrow> int \<times> u8 \<times> 'n) \<Rightarrow> nat \<Rightarrow> int \<Rightarrow> int \<Rightarrow> 'n \<Rightarrow> int \<times> int \<times> 'n" where
  "decode_loop getch len multiplier value n =
     (if MAX_NO_OF_REMAINING_LENGTH_BYTES < Suc len then (SOCKET_ERROR, value, n)
      else (let (rc, c, n') = getch n in
        if rc \<noteq> TCPSOCKET_COMPLETE then (rc, value, n')
        else (let value' = value + uint (c AND 127) * multiplier in
          if c AND 128 \<noteq> 0 then decode_loop getch (Suc len) (multiplier * 128) value' n'
          else (rc, value', n'))))"
  by auto
termination
  by (relation "measure (\<lambda>(_, len, _). Suc MAX_NO_OF_REMAINING_LENGTH_BYTES - len)") auto

declare decode_loop.simps [simp del]

definition MQTTPacket_decode :: "('n \<Rightarrow> int \<times> u8 \<times> 'n) \<Rightarrow> 'n \<Rightarrow> int \<times> int \<times> 'n" where
  "MQTTPacket_decode getch n = decode_loop getch 0 1 0 n"

section \<open>Reading from a buffer\<close>

text \<open>
  \<open>mem\<close> is the memory readable from the start of the packet data; \<open>p\<close> is the offset of \<open>*pptr\<close>.
\<close>

definition readChar :: "u8 list \<Rightarrow> nat \<Rightarrow> (u8 \<times> nat) outcome" where
  "readChar mem p = check (p < length mem) (Done (mem ! p, p + 1))"

definition readInt :: "u8 list \<Rightarrow> nat \<Rightarrow> (int \<times> nat) outcome" where
  "readInt mem p =
     check (p + 1 < length mem) (Done (256 * uint (mem ! p) + uint (mem ! (p + 1)), p + 2))"

text \<open>
  \<open>readUTFlen\<close> gives the string, the length read and the new position.  The code leaves the length
  unset when fewer than two bytes are left; \<open>len0\<close> is its value before the call.
\<close>

definition readUTFlen :: "u8 list \<Rightarrow> nat \<Rightarrow> nat \<Rightarrow> int \<Rightarrow> (u8 list option \<times> int \<times> nat) outcome" where
  "readUTFlen mem p enddata len0 =
     (if 1 < int enddata - int p
      then obind (readInt mem p) (\<lambda>(len, p).
        if p + nat len \<le> enddata
        then check (p + nat len \<le> length mem)
               (Done (Some (take (nat len) (drop p mem)), len, p + nat len))
        else Done (None, len, p))
      else Done (None, len0, p))"

definition readUTF :: "u8 list \<Rightarrow> nat \<Rightarrow> nat \<Rightarrow> (u8 list option \<times> nat) outcome" where
  "readUTF mem p enddata = obind (readUTFlen mem p enddata 0) (\<lambda>(s, _, p). Done (s, p))"

section \<open>Writing to a buffer\<close>

type_synonym wbuf = "u8 list \<times> nat"

definition writeChar :: "u8 \<Rightarrow> wbuf \<Rightarrow> wbuf outcome" where
  "writeChar c = (\<lambda>(buf, p). check (p < length buf) (Done (buf[p := c], p + 1)))"

definition writeInt :: "int \<Rightarrow> wbuf \<Rightarrow> wbuf outcome" where
  "writeInt n b = obind (writeChar (of_int (n div 256)) b) (writeChar (of_int (n mod 256)))"

definition writeUTF :: "u8 list \<Rightarrow> wbuf \<Rightarrow> wbuf outcome" where
  "writeUTF s b = obind (writeInt (int (length s)) b) (\<lambda>(buf, p).
     check (p + length s \<le> length buf) (Done (blit buf p s, p + length s)))"

section \<open>Incoming packets\<close>

record publish =
  pub_header :: u8
  pub_topic :: "u8 list"
  pub_topiclen :: int
  pub_msgId :: int
  pub_payload :: "u8 list"
  pub_payloadlen :: int

record ack =
  ack_header :: u8
  ack_msgId :: int

record connack =
  connack_header :: u8
  connack_flags :: u8
  connack_rc :: u8

record suback =
  suback_header :: u8
  suback_msgId :: int
  qoss :: "u8 list"

datatype packet = Header_only u8 | Connack connack | Publish publish | Ack ack | Suback suback

definition MQTTPacket_header_only :: "u8 \<Rightarrow> packet" where
  "MQTTPacket_header_only aHeader = Header_only aHeader"

definition MQTTPacket_connack :: "u8 \<Rightarrow> u8 list \<Rightarrow> packet outcome" where
  "MQTTPacket_connack aHeader mem =
     obind (readChar mem 0) (\<lambda>(flags, p). obind (readChar mem p) (\<lambda>(rc, _).
       Done (Connack \<lparr>connack_header = aHeader, connack_flags = flags, connack_rc = rc\<rparr>)))"

text \<open>
  \<open>pub_payload\<close> is the memory behind the payload pointer.  The message id is read without
  comparing with the end of the data, and \<open>pub_payloadlen\<close> is the difference of the two, as an \<open>int\<close>.
\<close>

definition MQTTPacket_publish :: "u8 \<Rightarrow> u8 list \<Rightarrow> nat \<Rightarrow> packet option outcome" where
  "MQTTPacket_publish aHeader mem datalen =
     obind (readUTFlen mem 0 datalen 0) (\<lambda>(t, tlen, cur).
       case t of None \<Rightarrow> Done None
       | Some tp \<Rightarrow>
           obind (if 0 < header_qos aHeader then readInt mem cur else Done (0, cur)) (\<lambda>(msgid, cur).
             Done (Some (Publish \<lparr>pub_header = aHeader, pub_topic = tp, pub_topiclen = tlen,
                pub_msgId = msgid, pub_payload = drop cur mem,
                pub_payloadlen = int datalen - int cur\<rparr>))))"

definition MQTTPacket_ack :: "u8 \<Rightarrow> u8 list \<Rightarrow> packet outcome" where
  "MQTTPacket_ack aHeader mem =
     obind (readInt mem 0) (\<lambda>(msgid, _). Done (Ack \<lparr>ack_header = aHeader, ack_msgId = msgid\<rparr>))"

function suback_loop :: "u8 list \<Rightarrow> nat \<Rightarrow> nat \<Rightarrow> u8 list outcome" where
  "suback_loop mem p datalen =
     (if p < datalen
      then check (p < length mem) (obind (suback_loop mem (p + 1) datalen) (\<lambda>qs. Done (mem ! p # qs)))
      else Done [])"
  by auto
termination
  by (relation "measure (\<lambda>(_, p, n). n - p)") auto

declare suback_loop.simps [simp del]

definition MQTTPacket_suback :: "u8 \<Rightarrow> u8 list \<Rightarrow> nat \<Rightarrow> packet outcome" where
  "MQTTPacket_suback aHeader mem datalen =
     obind (readInt mem 0) (\<lambda>(msgid, cur). obind (suback_loop mem cur datalen) (\<lambda>qs.
       Done (Suback \<lparr>suback_header = aHeader, suback_msgId = msgid, qoss = qs\<rparr>)))"

text \<open>
  The table \<open>new_packets\<close>: the parser of each packet type, \<open>None\<close> for a null entry.
\<close>

definition some_packet :: "packet outcome \<Rightarrow> packet option outcome" where
  "some_packet m = obind m (\<lambda>p. Done (Some p))"

definition new_packets :: "nat \<Rightarrow> (u8 \<Rightarrow> u8 list \<Rightarrow> nat \<Rightarrow> packet option outcome) option" where
  "new_packets ptype =
     [None, None,
      Some (\<lambda>h mem n. some_packet (MQTTPacket_connack h mem)),
      Some MQTTPacket_publish,
      Some (\<lambda>h mem n. some_packet (MQTTPacket_ack h mem)),
      Some (\<lambda>h mem n. some_packet (MQTTPacket_ack h mem)),
      Some (\<lambda>h mem n. some_packet (MQTTPacket_ack h mem)),
      Some (\<lambda>h mem n. some_packet (MQTTPacket_ack h mem)),
      None,
      Some (\<lambda>h mem n. some_packet (MQTTPacket_suback h mem n)),
      None,
      Some (\<lambda>h mem n. some_packet (MQTTPacket_ack h mem)),
      Some (\<lambda>h mem n. Done (Some (MQTTPacket_header_only h))),
      Some (\<lambda>h mem n. Done (Some (MQTTPacket_header_only h))),
      Some (\<lambda>h mem n. Done (Some (MQTTPacket_header_only h)))] ! ptype"


section \<open>The network\<close>

text \<open>
  What the packet layer calls: \<open>Socket_getch\<close>, \<open>Socket_getdata\<close> (the memory behind the pointer it
  returns, \<open>None\<close> for null, and \<open>actual_len\<close>), \<open>Socket_putdatas\<close>, \<open>MQTTPersistence_put\<close> and the
  two time stamps of the network handle.
\<close>

record 'n net_ops =
  getch :: "'n \<Rightarrow> int \<times> u8 \<times> 'n"
  getdata :: "int \<Rightarrow> 'n \<Rightarrow> (u8 list option \<times> int) \<times> 'n"
  putdatas :: "u8 list \<Rightarrow> u8 list list \<Rightarrow> 'n \<Rightarrow> int \<times> 'n"
  persist_put :: "u8 list \<Rightarrow> u8 list list \<Rightarrow> nat \<Rightarrow> int \<Rightarrow> bool \<Rightarrow> 'n \<Rightarrow> int \<times> 'n"
  stamp_received :: "'n \<Rightarrow> 'n"
  stamp_sent :: "'n \<Rightarrow> 'n"

text \<open>The block of ten bytes for the fixed header: the bytes of it that are used.\<close>

definition fixed_header :: "u8 \<Rightarrow> int \<Rightarrow> u8 list outcome" where
  "fixed_header h len =
     obind (MQTTPacket_encode (h # replicate 9 0) 1 len) (\<lambda>(n, buf). Done (take (1 + n) buf))"

definition MQTTPacket_Factory ::
    "'n net_ops \<Rightarrow> 'n \<Rightarrow> (packet option \<times> int \<times> 'n) outcome" where
  "MQTTPacket_Factory ops n =
     (let (err, h, n) = getch ops n in
      if err \<noteq> TCPSOCKET_COMPLETE then Done (None, err, n)
      else let (err, remaining_length, n) = MQTTPacket_decode (getch ops) n in
      if err \<noteq> TCPSOCKET_COMPLETE then Done (None, err, n)
      else let ((data, actual_len), n) = getdata ops remaining_length n in
      case data of
        None \<Rightarrow> Done (None, SOCKET_ERROR, n)
      | Some mem \<Rightarrow>
          if actual_len \<noteq> remaining_length then Done (None, TCPSOCKET_INTERRUPTED, n)
          else let ptype = header_type h in
          if ptype < msg_code CONNECT \<or> msg_code DISCONNECT < ptype \<or> new_packets ptype = None
          then Done (None, err, n)
          else obind (the (new_packets ptype) h mem (nat remaining_length)) (\<lambda>pack.
            case pack of
              None \<Rightarrow> Done (None, BAD_MQTT_PACKET, n)
            | Some p \<Rightarrow>
                obind (if ptype = msg_code PUBLISH \<and> header_qos h = 2
                       then obind (fixed_header h remaining_length) (\<lambda>buf0.
                            Done (persist_put ops buf0 [take (nat remaining_length) mem] ptype
                              (case p of Publish pub \<Rightarrow> pub_msgId pub | _ \<Rightarrow> 0) True n))
                       else Done (err, n))
                  (\<lambda>(err, n). Done (Some p, err, stamp_received ops n))))"

definition MQTTPacket_send ::
    "'n net_ops \<Rightarrow> u8 \<Rightarrow> u8 list \<Rightarrow> 'n \<Rightarrow> (int \<times> 'n) outcome" where
  "MQTTPacket_send ops h buffer n =
     obind (fixed_header h (int (length buffer))) (\<lambda>buf0.
     obind (if header_type h = msg_code PUBREL
            then obind (readInt buffer 0) (\<lambda>(msgId, _).
                   Done (snd (persist_put ops buf0 [buffer] (header_type h) msgId False n)))
            else Done n)
       (\<lambda>n. let (rc, n) = putdatas ops buf0 [buffer] n in
            Done (rc, if rc = TCPSOCKET_COMPLETE then stamp_sent ops n else n)))"

definition MQTTPacket_sends ::
    "'n net_ops \<Rightarrow> u8 \<Rightarrow> u8 list list \<Rightarrow> 'n \<Rightarrow> (int \<times> 'n) outcome" where
  "MQTTPacket_sends ops h buffers n =
     obind (fixed_header h (int (sum_list (map length buffers)))) (\<lambda>buf0.
     obind (if header_type h = msg_code PUBLISH \<and> header_qos h \<noteq> 0
            then check (2 < length buffers)
                   (obind (readInt (buffers ! 2) 0) (\<lambda>(msgId, _).
                      Done (snd (persist_put ops buf0 buffers (header_type h) msgId False n))))
            else Done n)
       (\<lambda>n. let (rc, n) = putdatas ops buf0 buffers n in
            Done (rc, if rc = TCPSOCKET_COMPLETE then stamp_sent ops n else n)))"

section \<open>Outgoing packets\<close>

definition two_bytes :: "int \<Rightarrow> u8 list outcome" where
  "two_bytes n = obind (writeInt n (replicate 2 0, 0)) (\<lambda>(buf, _). Done buf)"

definition MQTTPacket_send_disconnect :: "'n net_ops \<Rightarrow> 'n \<Rightarrow> (int \<times> 'n) outcome" where
  "MQTTPacket_send_disconnect ops n =
     MQTTPacket_send ops (header_byte (msg_code DISCONNECT) False 0 False) [] n"

definition MQTTPacket_send_pingreq :: "'n net_ops \<Rightarrow> 'n \<Rightarrow> (int \<times> 'n) outcome" where
  "MQTTPacket_send_pingreq ops n =
     MQTTPacket_send ops (header_byte (msg_code PINGREQ) False 0 False) [] n"

definition MQTTPacket_send_ack ::
    "msgTypes \<Rightarrow> int \<Rightarrow> bool \<Rightarrow> 'n net_ops \<Rightarrow> 'n \<Rightarrow> (int \<times> 'n) outcome" where
  "MQTTPacket_send_ack type msgid dup ops n =
     obind (two_bytes msgid) (\<lambda>buf.
       MQTTPacket_send ops
         (header_byte (msg_code type) dup (if type = PUBREL then 1 else 0) False) buf n)"

definition MQTTPacket_send_puback :: "int \<Rightarrow> 'n net_ops \<Rightarrow> 'n \<Rightarrow> (int \<times> 'n) outcome" where
  "MQTTPacket_send_puback msgid ops n = MQTTPacket_send_ack PUBACK msgid False ops n"

definition MQTTPacket_send_pubrec :: "int \<Rightarrow> 'n net_ops \<Rightarrow> 'n \<Rightarrow> (int \<times> 'n) outcome" where
  "MQTTPacket_send_pubrec msgid ops n = MQTTPacket_send_ack PUBREC msgid False ops n"

definition MQTTPacket_send_pubrel :: "int \<Rightarrow> bool \<Rightarrow> 'n net_ops \<Rightarrow> 'n \<Rightarrow> (int \<times> 'n) outcome" where
  "MQTTPacket_send_pubrel msgid dup ops n = MQTTPacket_send_ack PUBREL msgid dup ops n"

definition MQTTPacket_send_pubcomp :: "int \<Rightarrow> 'n net_ops \<Rightarrow> 'n \<Rightarrow> (int \<times> 'n) outcome" where
  "MQTTPacket_send_pubcomp msgid ops n = MQTTPacket_send_ack PUBCOMP msgid False ops n"

text \<open>\<open>ptopic\<close> and \<open>pbytes\<close> are the topic and the payload of the \<open>Publish\<close> structure.\<close>

definition MQTTPacket_send_publish ::
    "u8 list \<Rightarrow> u8 list \<Rightarrow> int \<Rightarrow> bool \<Rightarrow> nat \<Rightarrow> bool \<Rightarrow> 'n net_ops \<Rightarrow> 'n \<Rightarrow> (int \<times> 'n) outcome" where
  "MQTTPacket_send_publish ptopic pbytes msgid dup qos retained ops n =
     (let h = header_byte (msg_code PUBLISH) dup qos retained in
      if 0 < qos
      then obind (two_bytes msgid) (\<lambda>buf. obind (two_bytes (int (length ptopic))) (\<lambda>tlen.
             MQTTPacket_sends ops h [tlen, ptopic, buf, pbytes] n))
      else obind (two_bytes (int (length ptopic))) (\<lambda>tlen.
             MQTTPacket_sends ops h [tlen, ptopic, pbytes] n))"

record will_message =
  will_topic :: "u8 list"
  will_msg :: "u8 list"
  will_retained :: bool
  will_qos :: nat

text \<open>The fields of \<open>Clients\<close> that identify the client to the server.\<close>

record client_ids =
  clientID :: "u8 list"
  username :: "u8 list option"
  password :: "u8 list option"
  cleansession :: bool
  keepAliveInterval :: int
  will :: "will_message option"

definition connect_flags :: "client_ids \<Rightarrow> u8" where
  "connect_flags c =
     push_bit 1 (of_bool (cleansession c))
     OR (case will c of None \<Rightarrow> 0
         | Some w \<Rightarrow> push_bit 2 1 OR push_bit 3 (of_nat (will_qos w mod 4))
                     OR push_bit 5 (of_bool (will_retained w)))
     OR push_bit 6 (of_bool (password c \<noteq> None)) OR push_bit 7 (of_bool (username c \<noteq> None))"

definition opt_len :: "u8 list option \<Rightarrow> nat" where
  "opt_len s = (case s of None \<Rightarrow> 0 | Some x \<Rightarrow> length x + 2)"

definition opt_write :: "u8 list option \<Rightarrow> wbuf \<Rightarrow> wbuf outcome" where
  "opt_write s b = (case s of None \<Rightarrow> Done b | Some x \<Rightarrow> writeUTF x b)"

definition connect_len :: "client_ids \<Rightarrow> int \<Rightarrow> nat" where
  "connect_len c version =
     (if version = 3 then 12 else 10) + length (clientID c) + 2
     + (case will c of None \<Rightarrow> 0 | Some w \<Rightarrow> length (will_topic w) + 2 + length (will_msg w) + 2)
     + opt_len (username c) + opt_len (password c)"

definition connect_protocol :: "int \<Rightarrow> wbuf \<Rightarrow> wbuf outcome" where
  "connect_protocol version b =
     (if version = 3
      then obind (writeUTF [0x4D, 0x51, 0x49, 0x73, 0x64, 0x70] b) (writeChar 3)
      else obind (writeUTF [0x4D, 0x51, 0x54, 0x54] b) (writeChar 4))"

definition connect_body :: "client_ids \<Rightarrow> int \<Rightarrow> wbuf \<Rightarrow> wbuf outcome" where
  "connect_body c version b =
     obind (connect_protocol version b) (\<lambda>b.
     obind (writeChar (connect_flags c) b) (\<lambda>b.
     obind (writeInt (keepAliveInterval c) b) (\<lambda>b.
     obind (writeUTF (clientID c) b) (\<lambda>b.
     obind (case will c of None \<Rightarrow> Done b
            | Some w \<Rightarrow> obind (writeUTF (will_topic w) b) (writeUTF (will_msg w))) (\<lambda>b.
     obind (opt_write (username c) b) (opt_write (password c)))))))"

definition MQTTPacket_send_connect ::
    "client_ids \<Rightarrow> int \<Rightarrow> 'n net_ops \<Rightarrow> 'n \<Rightarrow> (int \<times> 'n) outcome" where
  "MQTTPacket_send_connect c version ops n =
     (if version \<noteq> 3 \<and> version \<noteq> 4 then Done (-1, n)
      else obind (connect_body c version (replicate (connect_len c version) 0, 0)) (\<lambda>(buf, _).
             MQTTPacket_send ops (header_byte (msg_code CONNECT) False 0 False) buf n))"

text \<open>The lists of topics and of qualities of service, in order; the code walks them together.\<close>

primrec write_topics :: "(u8 list \<times> u8) list \<Rightarrow> wbuf \<Rightarrow> wbuf outcome" where
  "write_topics [] b = Done b"
| "write_topics (t # ts) b =
     obind (writeUTF (fst t) b) (\<lambda>b. obind (writeChar (snd t) b) (write_topics ts))"

definition MQTTPacket_send_subscribe ::
    "(u8 list \<times> u8) list \<Rightarrow> int \<Rightarrow> bool \<Rightarrow> 'n net_ops \<Rightarrow> 'n \<Rightarrow> (int \<times> 'n) outcome" where
  "MQTTPacket_send_subscribe topics msgid dup ops n =
     (let datalen = 2 + length topics * 3 + sum_list (map (length \<circ> fst) topics) in
      obind (writeInt msgid (replicate datalen 0, 0)) (\<lambda>b.
      obind (write_topics topics b) (\<lambda>(data, _).
        MQTTPacket_send ops (header_byte (msg_code SUBSCRIBE) dup 1 False) data n)))"

primrec write_names :: "u8 list list \<Rightarrow> wbuf \<Rightarrow> wbuf outcome" where
  "write_names [] b = Done b"
| "write_names (t # ts) b = obind (writeUTF t b) (write_names ts)"

definition MQTTPacket_send_unsubscribe ::
    "u8 list list \<Rightarrow> int \<Rightarrow> bool \<Rightarrow> 'n net_ops \<Rightarrow> 'n \<Rightarrow> (int \<times> 'n) outcome" where
  "MQTTPacket_send_unsubscribe topics msgid dup ops n =
     (let datalen = 2 + length topics * 2 + sum_list (map length topics) in
      obind (writeInt msgid (replicate datalen 0, 0)) (\<lambda>b.
      obind (write_names topics b) (\<lambda>(data, _).
        MQTTPacket_send ops (header_byte (msg_code UNSUBSCRIBE) dup 1 False) data n)))"


section \<open>Headers\<close>

lemma bit_of_nat_u8: "bit (of_nat k :: u8) n \<longleftrightarrow> n < 8 \<and> bit k n"
  by (simp add: bit_of_nat_iff possible_bit_word)

lemma bit_of_bool_u8: "bit (of_bool b :: u8) n \<longleftrightarrow> b \<and> n = 0"
  by (cases b) (simp_all add: bit_1_iff)

lemma bit_twice_u8: "bit (w * 2 :: u8) n \<longleftrightarrow> n < 8 \<and> n \<noteq> 0 \<and> bit w (n - 1)"
  by (simp add: mult.commute [of w 2] bit_double_iff possible_bit_word)

lemma header_byte_fields [simp]:
  "header_type (header_byte t d q r) = take_bit 4 t"
  "header_dup (header_byte t d q r) = d"
  "header_qos (header_byte t d q r) = take_bit 2 q"
  "header_retain (header_byte t d q r) = r"
proof -
  have "drop_bit 4 (header_byte t d q r) = of_nat (take_bit 4 t)"
    by (rule bit_word_eqI) (auto simp: header_byte_def bit_simps bit_of_nat_u8 bit_of_bool_u8 bit_twice_u8)
  moreover have "take_bit 2 (drop_bit 1 (header_byte t d q r)) = of_nat (take_bit 2 q)"
    by (rule bit_word_eqI) (auto simp: header_byte_def bit_simps bit_of_nat_u8 bit_of_bool_u8 bit_twice_u8)
  moreover have "take_bit 4 t < 256" "take_bit 2 q < 256"
    using take_bit_nat_less_exp [of 4 t] take_bit_nat_less_exp [of 2 q] by simp_all
  ultimately show "header_type (header_byte t d q r) = take_bit 4 t"
    "header_qos (header_byte t d q r) = take_bit 2 q"
    unfolding header_type_def header_qos_def by (simp_all add: unat_of_nat)
  show "header_dup (header_byte t d q r) = d" "header_retain (header_byte t d q r) = r"
    by (auto simp: header_dup_def header_retain_def header_byte_def bit_simps bit_of_nat_u8 bit_of_bool_u8 bit_twice_u8)
qed

section \<open>The remaining length: encoding and decoding\<close>

lemma encode_loop_small: "0 \<le> n \<Longrightarrow> n < 128 \<Longrightarrow> encode_loop n = [of_int n]"
  by (subst encode_loop.simps) (simp add: sdiv_128)

lemma encode_loop_big:
  "128 \<le> n \<Longrightarrow> encode_loop n = (of_int (n mod 128) OR 0x80) # encode_loop (n div 128)"
  by (subst encode_loop.simps) (simp add: sdiv_128 Let_def)

lemma bit_u8_128: "bit (128 :: u8) n \<longleftrightarrow> n = 7"
proof -
  have h: "(128 :: u8) = push_bit 7 1"
    by simp
  show ?thesis
    by (subst h) (auto simp only: bit_push_bit_iff possible_bit_word bit_1_iff, auto)
qed

lemma bit_u8_127: "bit (127 :: u8) n \<longleftrightarrow> n < 7"
proof -
  have h: "(127 :: u8) = mask 7"
    by (simp add: mask_eq_exp_minus_1)
  show ?thesis
    by (subst h) (auto simp: bit_mask_iff simp del: mask_numeral)
qed

lemma bit_int_127: "bit (127 :: int) n \<longleftrightarrow> n < 7"
proof -
  have h: "(127 :: int) = mask 7"
    by (simp add: mask_eq_exp_minus_1)
  show ?thesis
    by (subst h) (auto simp only: bit_mask_iff possible_bit_int)
qed

lemma bit_int_128: "bit (128 :: int) n \<longleftrightarrow> n = 7"
proof -
  have h: "(128 :: int) = push_bit 7 1"
    by simp
  have "bit (128 :: int) n \<longleftrightarrow> 7 \<le> n \<and> bit (1 :: int) (n - 7)"
    unfolding h by (rule bit_push_bit_iff_int)
  then show ?thesis
    by (auto simp: bit_1_iff)
qed

text \<open>A digit of the encoding: seven bits of value and the continuation bit.\<close>

lemma digit_value:
  assumes "0 \<le> d" "d < 128"
  shows "uint ((of_int d OR 0x80) AND 127 :: u8) = d" "uint (of_int d AND 127 :: u8) = d"
    "(of_int d OR 0x80) AND 128 \<noteq> (0 :: u8)" "of_int d AND 128 = (0 :: u8)"
proof -
  have b: "\<not> bit d n" if "7 \<le> n" for n
    using assms that bit_take_bit_iff [of 7 d n] by (simp add: take_bit_int_eq_self)
  have "(of_int d OR 0x80) AND 127 = (of_int d :: u8)" "of_int d AND 127 = (of_int d :: u8)"
    by (rule bit_word_eqI; use b in \<open>auto simp: bit_and_iff bit_or_iff bit_u8_128 bit_u8_127
        bit_of_int_iff bit_int_127 bit_int_128 not_less [symmetric]\<close>)+
  then show "uint ((of_int d OR 0x80) AND 127 :: u8) = d" "uint (of_int d AND 127 :: u8) = d"
    using assms by (simp_all add: unsigned_of_int take_bit_eq_mod)
  have "bit ((of_int d OR 0x80) AND 128 :: u8) 7"
    by (simp add: bit_and_iff bit_or_iff bit_u8_128)
  then show "(of_int d OR 0x80) AND 128 \<noteq> (0 :: u8)"
    by auto
  show "of_int d AND 128 = (0 :: u8)"
    by (rule bit_word_eqI) (use b in \<open>auto simp: bit_and_iff bit_u8_128 bit_of_int_iff bit_int_128\<close>)
qed

definition stream_getch :: "u8 list \<Rightarrow> int \<times> u8 \<times> u8 list" where
  "stream_getch w = (case w of [] \<Rightarrow> (TCPSOCKET_INTERRUPTED, 0, []) | c # cs \<Rightarrow> (TCPSOCKET_COMPLETE, c, cs))"

lemma decode_loop_encode:
  "0 \<le> n \<Longrightarrow> len + length (encode_loop n) \<le> MAX_NO_OF_REMAINING_LENGTH_BYTES \<Longrightarrow>
   decode_loop stream_getch len m v (encode_loop n @ r) = (TCPSOCKET_COMPLETE, v + n * m, r)"
proof (induction n arbitrary: len m v rule: encode_loop.induct)
  case (1 n)
  show ?case
  proof (cases "n < 128")
    case True
    then show ?thesis
      using 1 by (subst decode_loop.simps)
        (simp add: encode_loop_small stream_getch_def digit_value Let_def)
  next
    case False
    let ?q = "n div 128"
    have e: "encode_loop n = (of_int (n mod 128) OR 0x80) # encode_loop ?q"
      using False by (intro encode_loop_big) simp
    have ih: "decode_loop stream_getch (Suc len) (m * 128) (v + n mod 128 * m) (encode_loop ?q @ r) =
        (TCPSOCKET_COMPLETE, v + n mod 128 * m + ?q * (m * 128), r)"
      using 1 False e by (intro "1.IH" [of "of_int (n smod 128)"]) (auto simp: sdiv_128)
    have "q * 128 + x = n \<Longrightarrow> v + x * m + q * (m * 128) = v + n * m" for q x
      by (auto simp: algebra_simps)
    then have "v + n mod 128 * m + ?q * (m * 128) = v + n * m"
      using div_mult_mod_eq [of n 128] by blast
    then show ?thesis
      using 1 e ih by (subst decode_loop.simps)
        (simp add: stream_getch_def digit_value Let_def)
  qed
qed

lemma length_encode_loop:
  "0 \<le> n \<Longrightarrow> n < 128 ^ Suc k \<Longrightarrow> length (encode_loop n) \<le> Suc k"
proof (induction k arbitrary: n)
  case (Suc k)
  show ?case
  proof (cases "n < 128")
    case False
    then have "n div 128 < 128 ^ Suc k"
      using Suc.prems by (simp add: div_less_iff_less_mult mult.commute)
    then show ?thesis
      using Suc.IH [of "n div 128"] Suc.prems False by (simp add: encode_loop_big)
  qed (use Suc.prems in \<open>simp add: encode_loop_small\<close>)
qed (simp add: encode_loop_small)

lemma length_encode_loop_ge:
  "128 ^ k \<le> n \<Longrightarrow> Suc k \<le> length (encode_loop n)"
proof (induction k arbitrary: n)
  case 0
  then show ?case
    by (subst encode_loop.simps) (simp add: Let_def)
next
  case (Suc k)
  have "128 \<le> n"
    using Suc.prems order_trans [of 128 "128 * 128 ^ k" n] by simp
  moreover have "128 ^ k \<le> n div 128"
    using zdiv_mono1 [OF Suc.prems, of 128] by simp
  ultimately show ?case
    using Suc.IH [of "n div 128"] by (simp add: encode_loop_big)
qed




section \<open>Writers\<close>

text \<open>\<open>writes f bs\<close>: wherever there is room for \<open>bs\<close>, \<open>f\<close> appends them to what was written.\<close>

definition writes :: "(wbuf \<Rightarrow> wbuf outcome) \<Rightarrow> u8 list \<Rightarrow> bool" where
  "writes f bs \<longleftrightarrow> (\<forall>buf p. p + length bs \<le> length buf \<longrightarrow>
     (\<exists>buf'. f (buf, p) = Done (buf', p + length bs) \<and> length buf' = length buf
        \<and> take (p + length bs) buf' = take p buf @ bs))"

lemma writes_seq:
  assumes f: "writes f as" and g: "writes g bs"
  shows "writes (\<lambda>b. obind (f b) g) (as @ bs)"
  unfolding writes_def
proof (intro allI impI)
  fix buf :: "u8 list" and p
  assume room: "p + length (as @ bs) \<le> length buf"
  then obtain buf1 where 1: "f (buf, p) = Done (buf1, p + length as)" "length buf1 = length buf"
    "take (p + length as) buf1 = take p buf @ as"
    using f unfolding writes_def by (metis (no_types) add.assoc add_leD1 length_append)
  moreover obtain buf2 where "g (buf1, p + length as) = Done (buf2, p + length as + length bs)"
    "length buf2 = length buf1"
    "take (p + length as + length bs) buf2 = take (p + length as) buf1 @ bs"
    using g room 1(2) unfolding writes_def by (metis (no_types) add.assoc length_append)
  ultimately show "\<exists>buf'. obind (f (buf, p)) g = Done (buf', p + length (as @ bs))
      \<and> length buf' = length buf \<and> take (p + length (as @ bs)) buf' = take p buf @ as @ bs"
    by (simp add: add.assoc)
qed

lemma writes_Done: "writes Done []"
  by (simp add: writes_def)

lemma writes_char: "writes (writeChar c) [c]"
  by (auto simp: writes_def writeChar_def take_list_update_append)

lemma writes_int: "writes (writeInt n) [of_int (n div 256), of_int (n mod 256)]"
  using writes_seq [OF writes_char writes_char, of "of_int (n div 256)" "of_int (n mod 256)"]
  by (simp add: writeInt_def [abs_def])

definition utf_bytes :: "u8 list \<Rightarrow> u8 list" where
  "utf_bytes s = [of_int (int (length s) div 256), of_int (int (length s) mod 256)] @ s"

lemma length_utf_bytes [simp]: "length (utf_bytes s) = length s + 2"
  by (simp add: utf_bytes_def)

lemma writes_blit:
  "writes (\<lambda>(buf, p). check (p + length s \<le> length buf) (Done (blit buf p s, p + length s))) s"
  by (auto simp: writes_def take_blit)

lemma writes_utf: "writes (writeUTF s) (utf_bytes s)"
  using writes_seq [OF writes_int writes_blit, of "int (length s)" s]
  by (simp add: writeUTF_def [abs_def] utf_bytes_def)

lemma writes_whole:
  assumes "writes f bs" "length buf = length bs"
  shows "f (buf, 0) = Done (bs, length bs)"
proof -
  obtain buf' where "f (buf, 0) = Done (buf', length bs)" "length buf' = length buf"
    "take (length bs) buf' = bs"
    using assms unfolding writes_def by (metis add_0 append_Nil order_refl take0)
  then show ?thesis
    using assms(2) by simp
qed

lemma two_bytes_eq: "two_bytes n = Done [of_int (n div 256), of_int (n mod 256)]"
  using writes_whole [OF writes_int, of "replicate 2 0" n] by (simp add: two_bytes_def)

lemma fixed_header_eq:
  assumes "0 \<le> n" "n < 2 ^ 28"
  shows "fixed_header h n = Done (h # encode_loop n)"
proof -
  have "length (encode_loop n) \<le> 4"
    using length_encode_loop [of n 3] assms by simp
  then show ?thesis
    by (simp add: fixed_header_def MQTTPacket_encode_def Let_def blit_def)
qed

section \<open>The buffers of outgoing packets\<close>

text \<open>The bytes of the variable header and payload of \<open>CONNECT\<close>, as the MQTT standard orders them.\<close>

definition connect_bytes :: "client_ids \<Rightarrow> int \<Rightarrow> u8 list" where
  "connect_bytes c version =
     (if version = 3 then utf_bytes [0x4D, 0x51, 0x49, 0x73, 0x64, 0x70] @ [3]
      else utf_bytes [0x4D, 0x51, 0x54, 0x54] @ [4])
     @ [connect_flags c, of_int (keepAliveInterval c div 256), of_int (keepAliveInterval c mod 256)]
     @ utf_bytes (clientID c)
     @ (case will c of None \<Rightarrow> [] | Some w \<Rightarrow> utf_bytes (will_topic w) @ utf_bytes (will_msg w))
     @ (case username c of None \<Rightarrow> [] | Some u \<Rightarrow> utf_bytes u)
     @ (case password c of None \<Rightarrow> [] | Some u \<Rightarrow> utf_bytes u)"

lemma writes_opt: "writes (opt_write s) (case s of None \<Rightarrow> [] | Some x \<Rightarrow> utf_bytes x)"
  using writes_Done writes_utf by (cases s) (simp_all add: opt_write_def [abs_def])

lemma writes_protocol: "writes (connect_protocol version)
    (if version = 3 then utf_bytes [0x4D, 0x51, 0x49, 0x73, 0x64, 0x70] @ [3]
     else utf_bytes [0x4D, 0x51, 0x54, 0x54] @ [4])"
  using writes_seq [OF writes_utf writes_char] by (cases "version = 3") (simp_all add: connect_protocol_def [abs_def])

lemma writes_will: "writes (\<lambda>b. case w of None \<Rightarrow> Done b
      | Some w \<Rightarrow> obind (writeUTF (will_topic w) b) (writeUTF (will_msg w)))
    (case w of None \<Rightarrow> [] | Some w \<Rightarrow> utf_bytes (will_topic w) @ utf_bytes (will_msg w))"
  using writes_Done writes_seq [OF writes_utf writes_utf] by (cases w) simp_all

lemma writes_connect: "writes (connect_body c version) (connect_bytes c version)"
proof -
  have "writes (\<lambda>b. obind (connect_protocol version b) (\<lambda>b. obind (writeChar (connect_flags c) b)
      (\<lambda>b. obind (writeInt (keepAliveInterval c) b) (\<lambda>b. obind (writeUTF (clientID c) b) (\<lambda>b.
       obind (case will c of None \<Rightarrow> Done b
              | Some w \<Rightarrow> obind (writeUTF (will_topic w) b) (writeUTF (will_msg w)))
         (\<lambda>b. obind (opt_write (username c) b) (opt_write (password c)))))))) (connect_bytes c version)"
    unfolding connect_bytes_def
    using writes_seq [OF writes_protocol writes_seq [OF writes_char writes_seq [OF writes_int
      writes_seq [OF writes_utf writes_seq [OF writes_will writes_seq [OF writes_opt writes_opt]]]]],
      of version "connect_flags c" "keepAliveInterval c" "clientID c" "will c" "username c" "password c"]
    by simp
  then show ?thesis
    by (simp add: connect_body_def [abs_def])
qed

lemma length_connect_bytes: "length (connect_bytes c version) = connect_len c version"
  by (simp add: connect_bytes_def connect_len_def opt_len_def split: option.split)

text \<open>
  \<open>MQTTPacket_send_connect\<close> allocates exactly the bytes it writes, for both protocol versions
  and every combination of will, user name and password: no write leaves the buffer, and what is
  handed to \<open>MQTTPacket_send\<close> is the packet of the standard.  Any other version is refused.
\<close>

theorem send_connect_exact:
  "MQTTPacket_send_connect c version ops n =
     (if version = 3 \<or> version = 4
      then MQTTPacket_send ops (header_byte (msg_code CONNECT) False 0 False) (connect_bytes c version) n
      else Done (-1, n))"
  using writes_whole [OF writes_connect, of "replicate (connect_len c 3) 0" c 3]
    writes_whole [OF writes_connect, of "replicate (connect_len c 4) 0" c 4]
  by (simp add: MQTTPacket_send_connect_def length_connect_bytes)

lemma writes_topics:
  "writes (write_topics ts) (concat (map (\<lambda>t. utf_bytes (fst t) @ [snd t]) ts))"
proof (induction ts)
  case Nil
  then show ?case
    using writes_Done by (simp add: fun_eq_iff [of "write_topics []" Done, THEN iffD2])
next
  case (Cons t ts)
  then show ?case
    using writes_seq [OF writes_utf writes_seq [OF writes_char Cons.IH], of "fst t" "snd t"]
    by (simp add: fun_eq_iff [THEN iffD2, of "write_topics (t # ts)"
      "\<lambda>b. obind (writeUTF (fst t) b) (\<lambda>b. obind (writeChar (snd t) b) (write_topics ts))"])
qed

lemma writes_names: "writes (write_names ts) (concat (map utf_bytes ts))"
proof (induction ts)
  case Nil
  then show ?case
    using writes_Done by (simp add: fun_eq_iff [of "write_names []" Done, THEN iffD2])
next
  case (Cons t ts)
  then show ?case
    using writes_seq [OF writes_utf Cons.IH, of t]
    by (simp add: fun_eq_iff [THEN iffD2, of "write_names (t # ts)"
      "\<lambda>b. obind (writeUTF t b) (write_names ts)"])
qed

text \<open>
  \<open>MQTTPacket_send_subscribe\<close> and \<open>MQTTPacket_send_unsubscribe\<close> compute the length of their
  buffer exactly: the message id, then each topic as a length-delimited string (and its quality of
  service) fill it without a gap and without an access outside it.
\<close>

theorem send_subscribe_exact:
  "MQTTPacket_send_subscribe topics msgid dup ops n =
     MQTTPacket_send ops (header_byte (msg_code SUBSCRIBE) dup 1 False)
       ([of_int (msgid div 256), of_int (msgid mod 256)]
        @ concat (map (\<lambda>t. utf_bytes (fst t) @ [snd t]) topics)) n
   \<and> MQTTPacket_send_unsubscribe (map fst topics) msgid dup ops n =
     MQTTPacket_send ops (header_byte (msg_code UNSUBSCRIBE) dup 1 False)
       ([of_int (msgid div 256), of_int (msgid mod 256)]
        @ concat (map (\<lambda>t. utf_bytes (fst t)) topics)) n"
proof -
  let ?id = "[of_int (msgid div 256), of_int (msgid mod 256)] :: u8 list"
  have l: "length (?id @ concat (map (\<lambda>t. utf_bytes (fst t) @ [snd t]) topics)) =
      2 + length topics * 3 + sum_list (map (length \<circ> fst) topics)"
    by (simp add: length_concat comp_def sum_list_Suc)
  have l': "length (?id @ concat (map utf_bytes (map fst topics))) =
      2 + length topics * 2 + sum_list (map (length \<circ> fst) topics)"
    by (simp add: length_concat comp_def sum_list_Suc)
  show ?thesis
    using writes_whole [OF writes_seq [OF writes_int writes_topics], OF trans [OF length_replicate l [symmetric]],
        of 0]
      writes_whole [OF writes_seq [OF writes_int writes_names], OF trans [OF length_replicate l' [symmetric]], of 0]
    by (simp add: MQTTPacket_send_subscribe_def MQTTPacket_send_unsubscribe_def Let_def comp_def
        flip: obind_assoc)
qed


section \<open>From the sender to the receiver\<close>

text \<open>A lossless connection: what is written is read back, in order.\<close>

definition pipe_ops :: "u8 list net_ops" where
  "pipe_ops =
     \<lparr>getch = stream_getch,
      getdata = (\<lambda>n w. ((Some (take (nat n) w), int (min (nat n) (length w))), drop (nat n) w)),
      putdatas = (\<lambda>buf0 bufs w. (TCPSOCKET_COMPLETE, w @ buf0 @ concat bufs)),
      persist_put = (\<lambda>buf0 bufs type msgid scr w. (0, w)),
      stamp_received = id, stamp_sent = id\<rparr>"

lemma readInt_bytes:
  assumes "0 \<le> n" "n < 2 ^ 16" "mem = xs @ [of_int (n div 256), of_int (n mod 256)] @ r" "p = length xs"
  shows "readInt mem p = Done (n, p + 2)"
proof -
  have "n div 256 < 256"
    using assms(2) by simp
  then have "uint (of_int (n div 256) :: u8) = n div 256" "uint (of_int (n mod 256) :: u8) = n mod 256"
    using assms(1) by (simp_all add: unsigned_of_int take_bit_eq_mod pos_imp_zdiv_nonneg_iff)
  then show ?thesis
    by (simp add: readInt_def assms(3,4) nth_append)
qed

lemma readUTFlen_bytes:
  assumes "length s < 2 ^ 16" "mem = utf_bytes s @ r" "length s + 2 \<le> enddata"
  shows "readUTFlen mem 0 enddata l = Done (Some s, int (length s), length s + 2)"
proof -
  have "readInt mem 0 = Done (int (length s), 2)"
    using readInt_bytes [of "int (length s)" mem "[]" "s @ r" 0] assms(1,2) by (simp add: utf_bytes_def)
  then show ?thesis
    using assms by (simp add: readUTFlen_def utf_bytes_def)
qed

lemma pipe_send:
  assumes "length buf < 2 ^ 28" "header_type h \<noteq> msg_code PUBREL \<or> 2 \<le> length buf"
  shows "MQTTPacket_send pipe_ops h buf w =
    Done (TCPSOCKET_COMPLETE, w @ h # encode_loop (int (length buf)) @ buf)"
  using assms by (auto simp: MQTTPacket_send_def fixed_header_eq pipe_ops_def readInt_def Let_def)

lemma pipe_sends:
  assumes "length (concat bufs) < 2 ^ 28"
    and "header_type h \<noteq> msg_code PUBLISH \<or> header_qos h = 0 \<or> (2 < length bufs \<and> 2 \<le> length (bufs ! 2))"
  shows "MQTTPacket_sends pipe_ops h bufs w =
    Done (TCPSOCKET_COMPLETE, w @ h # encode_loop (int (length (concat bufs))) @ concat bufs)"
  using assms by (auto simp: MQTTPacket_sends_def fixed_header_eq pipe_ops_def readInt_def Let_def length_concat)

text \<open>The receiver's framing: it parses exactly the bytes of one packet.\<close>

lemma pipe_factory:
  assumes "length buf < 2 ^ 28" "new_packets (header_type h) = Some f"
    and "msg_code CONNECT \<le> header_type h" "header_type h \<le> msg_code DISCONNECT"
    and "f h buf (length buf) = Done (Some p)"
  shows "MQTTPacket_Factory pipe_ops (h # encode_loop (int (length buf)) @ buf @ r) =
    Done (Some p, TCPSOCKET_COMPLETE, r)"
proof -
  have "length (encode_loop (int (length buf))) \<le> 4"
    using length_encode_loop [of "int (length buf)" 3] assms(1) by simp
  then have "MQTTPacket_decode stream_getch (encode_loop (int (length buf)) @ buf @ r) =
      (TCPSOCKET_COMPLETE, int (length buf), buf @ r)"
    using decode_loop_encode [of "int (length buf)" 0 1 0 "buf @ r"]
    by (simp add: MQTTPacket_decode_def MAX_NO_OF_REMAINING_LENGTH_BYTES_def)
  moreover have "fixed_header h (int (length buf)) = Done (h # encode_loop (int (length buf)))"
    using assms(1) by (intro fixed_header_eq) simp_all
  ultimately show ?thesis
    using assms(2-5) by (simp add: MQTTPacket_Factory_def pipe_ops_def stream_getch_def socket_codes Let_def)
qed

text \<open>
  C23: A publication survives the wire: what \<open>MQTTPacket_send_publish\<close> writes, \<open>MQTTPacket_Factory\<close>
  at the other end reads as a publication with the same topic, quality of service, flags, message
  id (for QoS 1 and 2) and payload, and it consumes exactly the packet.
\<close>

theorem publish_roundtrip:
  assumes "length t < 2 ^ 16" "0 \<le> msgid" "msgid < 2 ^ 16" "qos \<le> 2"
    and "length t + length d + 4 < 2 ^ 28"
  shows "obind (MQTTPacket_send_publish t d msgid dup qos retained pipe_ops [])
      (\<lambda>(rc, w). MQTTPacket_Factory pipe_ops (w @ r)) =
    Done (Some (Publish \<lparr>pub_header = header_byte (msg_code PUBLISH) dup qos retained, pub_topic = t,
        pub_topiclen = int (length t), pub_msgId = (if 0 < qos then msgid else 0), pub_payload = d,
        pub_payloadlen = int (length d)\<rparr>), TCPSOCKET_COMPLETE, r)"
proof -
  let ?h = "header_byte (msg_code PUBLISH) dup qos retained"
  let ?id = "[of_int (msgid div 256), of_int (msgid mod 256)] :: u8 list"
  let ?buf = "utf_bytes t @ (if 0 < qos then ?id else []) @ d"
  have h: "header_type ?h = 3" "header_qos ?h = qos"
    using assms(4) by (simp_all add: take_bit_eq_mod)
  have len: "length ?buf < 2 ^ 28"
    using assms(5) by simp
  have tl: "utf_bytes t = [of_int (int (length t) div 256), of_int (int (length t) mod 256)] @ t"
    by (simp add: utf_bytes_def)
  have sent: "MQTTPacket_send_publish t d msgid dup qos retained pipe_ops [] =
      Done (TCPSOCKET_COMPLETE, ?h # encode_loop (int (length ?buf)) @ ?buf)"
  proof (cases "0 < qos")
    case True
    let ?bufs = "[[of_int (int (length t) div 256), of_int (int (length t) mod 256)], t, ?id, d]"
    have "concat ?bufs = ?buf"
      using True by (simp add: tl)
    then show ?thesis
      using pipe_sends [of ?bufs ?h "[]"] True len
      by (simp add: MQTTPacket_send_publish_def two_bytes_eq Let_def)
  next
    case False
    let ?bufs = "[[of_int (int (length t) div 256), of_int (int (length t) mod 256)], t, d]"
    have "concat ?bufs = ?buf"
      using False by (simp add: tl)
    then show ?thesis
      using pipe_sends [of ?bufs ?h "[]"] False len h
      by (simp add: MQTTPacket_send_publish_def two_bytes_eq Let_def)
  qed
  have topic: "readUTFlen ?buf 0 (length ?buf) 0 = Done (Some t, int (length t), length t + 2)"
    by (rule readUTFlen_bytes [OF assms(1) refl]) simp
  have "0 < qos \<Longrightarrow> readInt ?buf (length t + 2) = Done (msgid, length t + 4)"
    using readInt_bytes [OF assms(2,3), of ?buf "utf_bytes t" d "length t + 2"] by simp
  then have "MQTTPacket_publish ?h ?buf (length ?buf) = Done (Some (Publish \<lparr>pub_header = ?h, pub_topic = t,
        pub_topiclen = int (length t), pub_msgId = (if 0 < qos then msgid else 0), pub_payload = d,
        pub_payloadlen = int (length d)\<rparr>))"
    using topic h unfolding MQTTPacket_publish_def by simp
  then have "MQTTPacket_Factory pipe_ops (?h # encode_loop (int (length ?buf)) @ ?buf @ r) =
     Done (Some (Publish \<lparr>pub_header = ?h, pub_topic = t,
        pub_topiclen = int (length t), pub_msgId = (if 0 < qos then msgid else 0), pub_payload = d,
        pub_payloadlen = int (length d)\<rparr>), TCPSOCKET_COMPLETE, r)"
    using h by (intro pipe_factory [OF len, where f = MQTTPacket_publish]) (simp_all add: new_packets_def)
  then show ?thesis
    unfolding sent by simp
qed

theorem publish_roundtrip_witness:
  "obind (MQTTPacket_send_publish [0x69, 0x63, 0x70] [1, 2, 3] 7 False 2 True pipe_ops [])
      (\<lambda>(rc, w). MQTTPacket_Factory pipe_ops (w @ [9])) =
    Done (Some (Publish \<lparr>pub_header = header_byte 3 False 2 True, pub_topic = [0x69, 0x63, 0x70],
        pub_topiclen = 3, pub_msgId = 7, pub_payload = [1, 2, 3], pub_payloadlen = 3\<rparr>),
      TCPSOCKET_COMPLETE, [9])"
  using publish_roundtrip [of "[0x69, 0x63, 0x70]" 7 2 "[1, 2, 3]" False True "[9]"] by simp

text \<open>
  Every acknowledgement survives the wire: for each of the four types the receiver gets the
  type, the message id and, for \<open>PUBREL\<close>, quality of service 1 in the header.
\<close>

theorem ack_roundtrip:
  assumes "type \<in> {PUBACK, PUBREC, PUBREL, PUBCOMP}" "0 \<le> msgid" "msgid < 2 ^ 16"
  shows "obind (MQTTPacket_send_ack type msgid dup pipe_ops [])
      (\<lambda>(rc, w). MQTTPacket_Factory pipe_ops (w @ r)) =
    Done (Some (Ack \<lparr>ack_header = header_byte (msg_code type) dup (if type = PUBREL then 1 else 0) False,
        ack_msgId = msgid\<rparr>), TCPSOCKET_COMPLETE, r)"
proof -
  let ?h = "header_byte (msg_code type) dup (if type = PUBREL then 1 else 0) False"
  let ?buf = "[of_int (msgid div 256), of_int (msgid mod 256)] :: u8 list"
  have h: "header_type ?h = msg_code type"
    using assms(1) by (auto simp: take_bit_eq_mod)
  have sent: "MQTTPacket_send_ack type msgid dup pipe_ops [] =
      Done (TCPSOCKET_COMPLETE, ?h # encode_loop (int (length ?buf)) @ ?buf)"
    using pipe_send [of ?buf ?h "[]"] by (simp add: MQTTPacket_send_ack_def two_bytes_eq)
  have "readInt ?buf 0 = Done (msgid, 2)"
    using readInt_bytes [OF assms(2,3), of ?buf "[]" "[]" 0] by simp
  then have "some_packet (MQTTPacket_ack ?h ?buf) = Done (Some (Ack \<lparr>ack_header = ?h, ack_msgId = msgid\<rparr>))"
    by (simp add: MQTTPacket_ack_def some_packet_def)
  moreover have "new_packets (header_type ?h) = Some (\<lambda>h mem n. some_packet (MQTTPacket_ack h mem))"
    using assms(1) unfolding h by (auto simp: new_packets_def)
  ultimately have "MQTTPacket_Factory pipe_ops (?h # encode_loop (int (length ?buf)) @ ?buf @ r) =
      Done (Some (Ack \<lparr>ack_header = ?h, ack_msgId = msgid\<rparr>), TCPSOCKET_COMPLETE, r)"
    using h assms(1)
    by (intro pipe_factory [where f = "\<lambda>h mem n. some_packet (MQTTPacket_ack h mem)"]) auto
  then show ?thesis
    unfolding sent by simp
qed

theorem ack_roundtrip_witness:
  "obind (MQTTPacket_send_ack PUBREL 513 False pipe_ops []) (\<lambda>(rc, w). MQTTPacket_Factory pipe_ops (w @ [])) =
    Done (Some (Ack \<lparr>ack_header = header_byte 6 False 1 False, ack_msgId = 513\<rparr>), TCPSOCKET_COMPLETE, [])"
  using ack_roundtrip [of PUBREL 513 False "[]"] by simp

text \<open>
  A publication of QoS 1 or 2 whose topic fills the packet is not rejected: the parser reads
  the message id from the two bytes behind the packet data, past the length it was given, and
  returns a payload length of -2.
\<close>

theorem publish_without_msgid_accepted:
  assumes "length t < 2 ^ 16" "0 < header_qos h"
  shows "(\<exists>p. MQTTPacket_publish h (utf_bytes t @ a # b # r) (length t + 2) = Done (Some (Publish p))
      \<and> pub_payloadlen p = -2 \<and> pub_msgId p = 256 * uint a + uint b)
    \<and> MQTTPacket_publish h (utf_bytes t) (length t + 2) = Fault"
proof -
  have "readUTFlen (utf_bytes t @ a # b # r) 0 (length t + 2) 0 = Done (Some t, int (length t), length t + 2)"
    by (rule readUTFlen_bytes [OF assms(1) refl order_refl])
  moreover have "readUTFlen (utf_bytes t) 0 (length t + 2) 0 = Done (Some t, int (length t), length t + 2)"
    by (rule readUTFlen_bytes [OF assms(1) append_Nil2 [symmetric] order_refl])
  ultimately show ?thesis
    using assms(2) by (simp add: MQTTPacket_publish_def readInt_def nth_append)
qed

theorem publish_without_msgid_accepted_witness:
  "MQTTPacket_publish (header_byte 3 False 1 False) (utf_bytes [0x61]) 3 = Fault"
  using publish_without_msgid_accepted [of "[0x61]" "header_byte 3 False 1 False" 0 0 "[]"]
  by (simp add: take_bit_eq_mod numeral_3_eq_3)

end
