(* ===== verification/Socket_Buffer.thy ===== *)
theory Socket_Buffer
  imports Cursor_List Mqtt_Packet
begin

text \<open>
  The buffers behind the sockets: \<^verbatim>\<open>mqtt/source/SocketBuffer.c\<close> and the types of
  \<^verbatim>\<open>mqtt/include/SocketBuffer.h\<close>.  A packet whose read is interrupted leaves its header bytes and
  the data read so far in a queue of its socket; a packet whose write is interrupted leaves its
  buffers in the list of pending writes.  A buffer is the list of its bytes; the memory that
  \<open>malloc\<close> and \<open>realloc\<close> return is what the parameter \<open>junk\<close> says.
\<close>

section \<open>The data\<close>

record socket_queue =
  q_socket :: int
  q_index :: nat
  headerlen :: nat
  fixed_header_bytes :: "u8 list"
  buflen :: int
  datalen :: nat
  qbuf :: "u8 list"

record pending_writes =
  pw_socket :: int
  pw_total :: int
  pw_count :: nat
  pw_bytes :: nat
  iovecs :: "u8 list list"
  pw_frees :: "bool list"

text \<open>\<open>junk\<close>: the contents of a fresh \<open>socket_queue\<close> and of the bytes of a fresh block.\<close>

record heap_junk =
  junk_queue :: socket_queue
  junk_byte :: "nat \<Rightarrow> u8"

definition malloc_bytes :: "heap_junk \<Rightarrow> nat \<Rightarrow> u8 list" where
  "malloc_bytes junk n = map (junk_byte junk) [0..<n]"

definition realloc_bytes :: "heap_junk \<Rightarrow> u8 list \<Rightarrow> nat \<Rightarrow> u8 list" where
  "realloc_bytes junk mem n = take n mem @ map (junk_byte junk) [length mem..<n]"

record socket_buffers =
  def_queue :: socket_queue
  queues :: "socket_queue clist"
  writes_list :: "pending_writes clist"

definition SOCKETBUFFER_COMPLETE :: int where "SOCKETBUFFER_COMPLETE = 0"
definition SOCKETBUFFER_INTERRUPTED :: int where "SOCKETBUFFER_INTERRUPTED = -22"

lemmas socketbuffer_codes = SOCKETBUFFER_COMPLETE_def SOCKETBUFFER_INTERRUPTED_def

definition socketcompare :: "int \<Rightarrow> socket_queue \<Rightarrow> bool" where
  "socketcompare socket q \<longleftrightarrow> q_socket q = socket"

definition pending_socketcompare :: "int \<Rightarrow> pending_writes \<Rightarrow> bool" where
  "pending_socketcompare socket pw \<longleftrightarrow> pw_socket pw = socket"

section \<open>The read side\<close>

text \<open>\<open>buflen\<close> is set to 1000 for the allocation and ends as 0; \<open>headerlen\<close> is left as it comes.\<close>

definition SocketBuffer_newDefQ :: "heap_junk \<Rightarrow> socket_buffers \<Rightarrow> socket_buffers" where
  "SocketBuffer_newDefQ junk sb =
     (let q = (junk_queue junk)\<lparr>buflen := 1000\<rparr>;
          q = q\<lparr>qbuf := malloc_bytes junk (nat (buflen q))\<rparr>;
          q = q\<lparr>datalen := 0, buflen := 0, q_index := 0, q_socket := 0\<rparr> in
      sb\<lparr>def_queue := q\<rparr>)"

definition SocketBuffer_initialize :: "heap_junk \<Rightarrow> socket_buffers \<Rightarrow> socket_buffers" where
  "SocketBuffer_initialize junk sb =
     (let sb = SocketBuffer_newDefQ junk sb; sb = sb\<lparr>queues := cl_new\<rparr> in sb\<lparr>writes_list := cl_new\<rparr>)"

definition SocketBuffer_cleanup :: "int \<Rightarrow> socket_buffers \<Rightarrow> socket_buffers" where
  "SocketBuffer_cleanup socket sb =
     (let sb = (case cl_find (socketcompare socket) (queues sb) of
            (None, qs) \<Rightarrow> sb\<lparr>queues := qs\<rparr>
          | (Some i, qs) \<Rightarrow> sb\<lparr>queues := cl_delete i qs\<rparr>) in
      if q_socket (def_queue sb) = socket
      then sb\<lparr>def_queue := (def_queue sb)\<lparr>datalen := 0, headerlen := 0, q_index := 0, q_socket := 0\<rparr>\<rparr>
      else sb)"

text \<open>Which queue a C pointer to a \<open>socket_queue\<close> refers to.\<close>

datatype queue_ref = Def_queue | Queue_at nat

primrec get_queue :: "queue_ref \<Rightarrow> socket_buffers \<Rightarrow> socket_queue" where
  "get_queue Def_queue sb = def_queue sb"
| "get_queue (Queue_at i) sb = items (queues sb) ! i"

primrec set_queue :: "queue_ref \<Rightarrow> (socket_queue \<Rightarrow> socket_queue) \<Rightarrow> socket_buffers \<Rightarrow> socket_buffers" where
  "set_queue Def_queue f sb = sb\<lparr>def_queue := f (def_queue sb)\<rparr>"
| "set_queue (Queue_at i) f sb = sb\<lparr>queues := cl_update i f (queues sb)\<rparr>"

definition SocketBuffer_getQueuedData ::
    "heap_junk \<Rightarrow> int \<Rightarrow> int \<Rightarrow> socket_buffers \<Rightarrow> (queue_ref \<times> nat \<times> socket_buffers) outcome" where
  "SocketBuffer_getQueuedData junk socket bytes sb =
     (let (ref, actual_len, sb) = (case cl_find (socketcompare socket) (queues sb) of
            (Some i, qs) \<Rightarrow> (Queue_at i, datalen (items qs ! i), sb\<lparr>queues := qs\<rparr>)
          | (None, qs) \<Rightarrow> (Def_queue, 0, sb\<lparr>queues := qs\<rparr>));
          queue = get_queue ref sb in
      if buflen queue < bytes
      then obind (if 0 < datalen queue
                  then check (datalen queue \<le> nat bytes \<and> datalen queue \<le> length (qbuf queue))
                         (Done (blit (malloc_bytes junk (nat bytes)) 0 (take (datalen queue) (qbuf queue))))
                  else Done (realloc_bytes junk (qbuf queue) (nat bytes))) (\<lambda>newmem.
           Done (ref, actual_len, set_queue ref (\<lambda>q. q\<lparr>qbuf := newmem, buflen := bytes\<rparr>) sb))
      else Done (ref, actual_len, sb))"

text \<open>The character is returned with the completion code, 0 where none is written.\<close>

definition SocketBuffer_getQueuedChar ::
    "int \<Rightarrow> socket_buffers \<Rightarrow> (int \<times> u8 \<times> socket_buffers) outcome" where
  "SocketBuffer_getQueuedChar socket sb =
     (case cl_find (socketcompare socket) (queues sb) of
        (None, qs) \<Rightarrow> Done (SOCKETBUFFER_INTERRUPTED, 0, sb\<lparr>queues := qs\<rparr>)
      | (Some i, qs) \<Rightarrow>
          (let sb = sb\<lparr>queues := qs\<rparr>; queue = items qs ! i in
           if q_index queue < headerlen queue
           then check (q_index queue < length (fixed_header_bytes queue))
                  (Done (SOCKETBUFFER_COMPLETE, fixed_header_bytes queue ! q_index queue,
                     set_queue (Queue_at i) (\<lambda>q. q\<lparr>q_index := q_index q + 1\<rparr>) sb))
           else if 4 < q_index queue then Done (SOCKET_ERROR, 0, sb)
           else Done (SOCKETBUFFER_INTERRUPTED, 0, sb)))"

definition SocketBuffer_interrupted :: "heap_junk \<Rightarrow> int \<Rightarrow> nat \<Rightarrow> socket_buffers \<Rightarrow> socket_buffers" where
  "SocketBuffer_interrupted junk socket actual_len sb =
     (let (ref, sb) = (case cl_find (socketcompare socket) (queues sb) of
            (Some i, qs) \<Rightarrow> (Queue_at i, sb\<lparr>queues := qs\<rparr>)
          | (None, qs) \<Rightarrow> (Queue_at (length (items qs)),
              SocketBuffer_newDefQ junk (sb\<lparr>queues := cl_append (def_queue sb) qs\<rparr>))) in
      set_queue ref (\<lambda>q. q\<lparr>q_index := 0, datalen := actual_len\<rparr>) sb)"

definition SocketBuffer_complete :: "int \<Rightarrow> socket_buffers \<Rightarrow> u8 list \<times> socket_buffers" where
  "SocketBuffer_complete socket sb =
     (let sb = (case cl_find (socketcompare socket) (queues sb) of
            (Some i, qs) \<Rightarrow> sb\<lparr>def_queue := items qs ! i, queues := cl_delete i qs\<rparr>
          | (None, qs) \<Rightarrow> sb\<lparr>queues := qs\<rparr>);
          sb = sb\<lparr>def_queue := (def_queue sb)\<lparr>datalen := 0, headerlen := 0, q_index := 0, q_socket := 0\<rparr>\<rparr> in
      (qbuf (def_queue sb), sb))"

definition SocketBuffer_queueChar :: "int \<Rightarrow> u8 \<Rightarrow> socket_buffers \<Rightarrow> socket_buffers outcome" where
  "SocketBuffer_queueChar socket c sb =
     (let (ref, err, sb) = (case cl_find (socketcompare socket) (queues sb) of
            (Some i, qs) \<Rightarrow> (Queue_at i, False, sb\<lparr>queues := qs\<rparr>)
          | (None, qs) \<Rightarrow>
              (let sb = sb\<lparr>queues := qs\<rparr> in
               if q_socket (def_queue sb) = 0
               then (Def_queue, False,
                     sb\<lparr>def_queue := (def_queue sb)\<lparr>q_socket := socket, datalen := 0, q_index := 0\<rparr>\<rparr>)
               else (Def_queue, q_socket (def_queue sb) \<noteq> socket, sb)));
          err = (err \<or> 4 < q_index (get_queue ref sb)) in
      if err then Done sb
      else check (q_index (get_queue ref sb) < length (fixed_header_bytes (get_queue ref sb)))
             (Done (set_queue ref (\<lambda>q. q\<lparr>fixed_header_bytes := (fixed_header_bytes q)[q_index q := c],
                q_index := q_index q + 1, headerlen := q_index q + 1\<rparr>) sb)))"

section \<open>The write side\<close>

definition SocketBuffer_pendingWrite ::
    "int \<Rightarrow> u8 list list \<Rightarrow> bool list \<Rightarrow> int \<Rightarrow> nat \<Rightarrow> socket_buffers \<Rightarrow> socket_buffers" where
  "SocketBuffer_pendingWrite socket vs frees tot bytes sb =
     sb\<lparr>writes_list := cl_append \<lparr>pw_socket = socket, pw_total = tot, pw_count = length vs,
        pw_bytes = bytes, iovecs = vs, pw_frees = frees\<rparr> (writes_list sb)\<rparr>"

definition SocketBuffer_getWrite :: "int \<Rightarrow> socket_buffers \<Rightarrow> nat option \<times> socket_buffers" where
  "SocketBuffer_getWrite socket sb =
     (let (le, ws) = cl_find (pending_socketcompare socket) (writes_list sb) in (le, sb\<lparr>writes_list := ws\<rparr>))"

definition SocketBuffer_writeComplete :: "int \<Rightarrow> socket_buffers \<Rightarrow> bool \<times> socket_buffers" where
  "SocketBuffer_writeComplete socket sb =
     (let (rc, ws) = cl_unlink (pending_socketcompare socket) (writes_list sb) in (rc, sb\<lparr>writes_list := ws\<rparr>))"

text \<open>
  \<open>topic\<close> and \<open>payload\<close> are the memory behind the new pointers: the lengths of the two buffers stay,
  and memory shorter than them is read outside its block once the write continues.
\<close>

definition SocketBuffer_updateWrite ::
    "int \<Rightarrow> u8 list \<Rightarrow> u8 list \<Rightarrow> socket_buffers \<Rightarrow> (nat option \<times> socket_buffers) outcome" where
  "SocketBuffer_updateWrite socket topic payload sb =
     (let (le, ws) = cl_find (pending_socketcompare socket) (writes_list sb); sb = sb\<lparr>writes_list := ws\<rparr> in
      case le of None \<Rightarrow> Done (None, sb)
      | Some i \<Rightarrow>
          (let pw = items ws ! i in
           if pw_count pw = 4
           then check (length (iovecs pw ! 2) \<le> length topic \<and> length (iovecs pw ! 3) \<le> length payload)
                  (Done (Some i, sb\<lparr>writes_list := cl_update i (\<lambda>pw. pw\<lparr>iovecs := (iovecs pw)
                     [2 := take (length (iovecs pw ! 2)) topic, 3 := take (length (iovecs pw ! 3)) payload]\<rparr>) ws\<rparr>))
           else Done (Some i, sb)))"

text \<open>At the end of the module: the buffers it releases, and the emptied list of pending writes.\<close>

definition SocketBuffer_freeDefQ :: "socket_buffers \<Rightarrow> u8 list" where
  "SocketBuffer_freeDefQ sb = qbuf (def_queue sb)"

definition SocketBuffer_terminate :: "socket_buffers \<Rightarrow> u8 list list \<times> pending_writes clist" where
  "SocketBuffer_terminate sb =
     (map qbuf (items (queues sb)) @ [SocketBuffer_freeDefQ sb], cl_new)"

end
