(* ===== verification/Socket_Io.thy ===== *)
theory Socket_Io
  imports Socket_Buffer
begin

text \<open>
  The socket layer of the client library, \<^verbatim>\<open>mqtt/source/Socket.c\<close> (without SSL): reading a byte or
  the rest of a packet, writing a packet in one system call, resuming writes, and choosing the next
  ready socket.  The system calls are the fields of the parameter \<open>kernel\<close>, each with the state of
  the operating system as explicit argument; \<open>fd_set\<close>s are predicates on descriptors, and the lists
  of descriptors are abstract lists with the \<open>current\<close> position the searches leave behind.
\<close>

section \<open>System calls\<close>

type_synonym fd_set = "int \<Rightarrow> bool"

definition FD_ZERO :: fd_set where "FD_ZERO = (\<lambda>_. False)"
definition FD_SET :: "int \<Rightarrow> fd_set \<Rightarrow> fd_set" where "FD_SET fd s = s(fd := True)"
definition FD_CLR :: "int \<Rightarrow> fd_set \<Rightarrow> fd_set" where "FD_CLR fd s = s(fd := False)"

definition EAGAIN :: int where "EAGAIN = 11"
definition EWOULDBLOCK :: int where "EWOULDBLOCK = 11"
definition EINPROGRESS :: int where "EINPROGRESS = 115"
definition AF_INET :: int where "AF_INET = 2"
definition AF_INET6 :: int where "AF_INET6 = 10"
definition O_NONBLOCK :: int where "O_NONBLOCK = 2048"

text \<open>What \<open>recv\<close> and \<open>writev\<close> report: data (empty when the peer shut down) or bytes taken, or \<open>errno\<close>.\<close>

datatype recv_result = Received "u8 list" | Recv_failed int
datatype writev_result = Written nat | Writev_failed int

record ('k, 'a) kernel =
  sys_recv :: "int \<Rightarrow> nat \<Rightarrow> 'k \<Rightarrow> recv_result \<times> 'k"
  sys_writev :: "int \<Rightarrow> u8 list list \<Rightarrow> 'k \<Rightarrow> writev_result \<times> 'k"
  sys_select :: "int \<Rightarrow> fd_set option \<Rightarrow> fd_set option \<Rightarrow> int \<times> int \<Rightarrow> 'k \<Rightarrow> (int \<times> fd_set \<times> fd_set) \<times> 'k"
  sys_getfl :: "int \<Rightarrow> 'k \<Rightarrow> int \<times> 'k"
  sys_setfl :: "int \<Rightarrow> int \<Rightarrow> 'k \<Rightarrow> int \<times> 'k"
  sys_shutdown :: "int \<Rightarrow> 'k \<Rightarrow> int \<times> 'k"
  sys_close :: "int \<Rightarrow> 'k \<Rightarrow> int \<times> 'k"
  sys_getaddrinfo :: "u8 list \<Rightarrow> 'k \<Rightarrow> (int \<times> (int \<times> 'a) list) \<times> 'k"
  sys_socket :: "int \<Rightarrow> 'k \<Rightarrow> (int \<times> int) \<times> 'k"
  sys_connect :: "int \<Rightarrow> int \<times> 'a \<times> int \<Rightarrow> 'k \<Rightarrow> (int \<times> int) \<times> 'k"
  sys_errno :: "'k \<Rightarrow> int"
  sys_so_error :: "int \<Rightarrow> 'k \<Rightarrow> (int \<times> int) \<times> 'k"
  sys_usleep :: "int \<Rightarrow> 'k \<Rightarrow> 'k"

record 'k sockets =
  sbuf :: socket_buffers
  rset :: fd_set
  rset_saved :: fd_set
  wset :: fd_set
  pending_wset :: fd_set
  maxfdp1 :: int
  clientsds :: "int clist"
  cur_clientsds :: "nat option"
  connect_pending :: "int clist"
  write_pending :: "int clist"
  released :: "u8 list list"
  os :: 'k

definition on_buffers :: "('r \<times> socket_buffers) \<Rightarrow> 'k sockets \<Rightarrow> 'r \<times> 'k sockets" where
  "on_buffers r st = (fst r, st\<lparr>sbuf := snd r\<rparr>)"

definition on_os :: "('r \<times> 'k) \<Rightarrow> 'k sockets \<Rightarrow> 'r \<times> 'k sockets" where
  "on_os r st = (fst r, st\<lparr>os := snd r\<rparr>)"

section \<open>The descriptors\<close>

definition intcompare :: "int \<Rightarrow> int \<Rightarrow> bool" where
  "intcompare b a \<longleftrightarrow> a = b"

text \<open>A flag word that is not zero is replaced by zero before \<open>O_NONBLOCK\<close> is added.\<close>

definition Socket_setnonblocking :: "('k, 'a) kernel \<Rightarrow> int \<Rightarrow> 'k sockets \<Rightarrow> int \<times> 'k sockets" where
  "Socket_setnonblocking K sock st =
     (let (flags, st) = on_os (sys_getfl K sock (os st)) st;
          flags = (if flags \<noteq> 0 then 0 else flags) in
      on_os (sys_setfl K sock (flags OR O_NONBLOCK) (os st)) st)"

definition Socket_outInitialize :: "heap_junk \<Rightarrow> 'k sockets \<Rightarrow> 'k sockets" where
  "Socket_outInitialize junk st =
     (let st = st\<lparr>sbuf := SocketBuffer_initialize junk (sbuf st)\<rparr>;
          st = st\<lparr>clientsds := cl_new\<rparr>;
          st = st\<lparr>connect_pending := cl_new\<rparr>;
          st = st\<lparr>write_pending := cl_new\<rparr>;
          st = st\<lparr>cur_clientsds := None\<rparr>;
          st = st\<lparr>rset := FD_ZERO\<rparr>;
          st = st\<lparr>pending_wset := FD_ZERO\<rparr>;
          st = st\<lparr>maxfdp1 := 0\<rparr> in
      st\<lparr>rset_saved := rset st\<rparr>)"

definition Socket_addSocket :: "('k, 'a) kernel \<Rightarrow> int \<Rightarrow> 'k sockets \<Rightarrow> int \<times> 'k sockets" where
  "Socket_addSocket K newSd st =
     (let (found, cs) = cl_find (intcompare newSd) (clientsds st); st = st\<lparr>clientsds := cs\<rparr> in
      if found = None
      then let st = st\<lparr>clientsds := cl_append newSd (clientsds st)\<rparr>;
               st = st\<lparr>rset_saved := FD_SET newSd (rset_saved st)\<rparr>;
               st = st\<lparr>maxfdp1 := max (maxfdp1 st) (newSd + 1)\<rparr> in
           Socket_setnonblocking K newSd st
      else (0, st))"

definition Socket_noPendingWrites :: "int \<Rightarrow> 'k sockets \<Rightarrow> bool \<times> 'k sockets" where
  "Socket_noPendingWrites socket st =
     (let (found, ws) = cl_find (intcompare socket) (write_pending st) in
      (found = None, st\<lparr>write_pending := ws\<rparr>))"

definition isReady :: "int \<Rightarrow> fd_set \<Rightarrow> fd_set \<Rightarrow> 'k sockets \<Rightarrow> bool \<times> 'k sockets" where
  "isReady socket read_set write_set st =
     (let (found, cs) = cl_find (intcompare socket) (connect_pending st); st = st\<lparr>connect_pending := cs\<rparr> in
      if found \<noteq> None \<and> write_set socket
      then (True, st\<lparr>connect_pending := snd (cl_unlink (intcompare socket) (connect_pending st))\<rparr>)
      else if read_set socket \<and> write_set socket then Socket_noPendingWrites socket st
      else (False, st))"

text \<open>The loop over \<open>cur_clientsds\<close>, which stands at position \<open>i\<close> and has \<open>socks\<close> ahead.\<close>

fun scan_ready :: "nat \<Rightarrow> int list \<Rightarrow> 'k sockets \<Rightarrow> 'k sockets" where
  "scan_ready i [] st = st\<lparr>cur_clientsds := None\<rparr>"
| "scan_ready i (sock # socks) st =
     (let (ready, st) = isReady sock (rset st) (wset st) st in
      if ready then st\<lparr>cur_clientsds := Some i\<rparr> else scan_ready (Suc i) socks st)"

definition scan_from_cursor :: "'k sockets \<Rightarrow> 'k sockets" where
  "scan_from_cursor st =
     (case cur_clientsds st of None \<Rightarrow> st | Some i \<Rightarrow> scan_ready i (drop i (items (clientsds st))) st)"

section \<open>Reading\<close>

definition Socket_getch :: "('k, 'a) kernel \<Rightarrow> heap_junk \<Rightarrow> int \<Rightarrow> 'k sockets \<Rightarrow> (int \<times> u8 \<times> 'k sockets) outcome" where
  "Socket_getch K junk socket st =
     obind (SocketBuffer_getQueuedChar socket (sbuf st)) (\<lambda>(rc, c, sb).
       let st = st\<lparr>sbuf := sb\<rparr> in
       if rc \<noteq> SOCKETBUFFER_INTERRUPTED then Done (rc, c, st)
       else let (r, st) = on_os (sys_recv K socket 1 (os st)) st in
         (case r of
            Recv_failed err \<Rightarrow>
              if err = EWOULDBLOCK \<or> err = EAGAIN
              then Done (TCPSOCKET_INTERRUPTED, c, st\<lparr>sbuf := SocketBuffer_interrupted junk socket 0 (sbuf st)\<rparr>)
              else Done (SOCKET_ERROR, c, st)
          | Received bs \<Rightarrow>
              check (length bs \<le> 1)
                (if bs = [] then Done (SOCKET_ERROR, c, st)
                 else obind (SocketBuffer_queueChar socket (hd bs) (sbuf st)) (\<lambda>sb.
                   Done (TCPSOCKET_COMPLETE, hd bs, st\<lparr>sbuf := sb\<rparr>)))))"

text \<open>
  The result is the memory behind the returned pointer (\<open>None\<close> for null) and \<open>actual_len\<close>, which the
  caller has set to 0.
\<close>

definition Socket_getdata ::
    "('k, 'a) kernel \<Rightarrow> heap_junk \<Rightarrow> int \<Rightarrow> int \<Rightarrow> 'k sockets \<Rightarrow> ((u8 list option \<times> int) \<times> 'k sockets) outcome" where
  "Socket_getdata K junk socket bytes st =
     (if bytes = 0
      then let (buf, sb) = SocketBuffer_complete socket (sbuf st) in Done ((Some buf, 0), st\<lparr>sbuf := sb\<rparr>)
      else obind (SocketBuffer_getQueuedData junk socket bytes (sbuf st)) (\<lambda>(ref, actual_len, sb).
        let st = st\<lparr>sbuf := sb\<rparr>;
            want = nat (bytes - int actual_len);
            (r, st) = on_os (sys_recv K socket want (os st)) st in
        obind (case r of
                 Recv_failed err \<Rightarrow>
                   Done (err = EAGAIN \<or> err = EWOULDBLOCK, actual_len, st)
               | Received bs \<Rightarrow>
                   if bs = [] then Done (False, actual_len, st)
                   else check (length bs \<le> want \<and> actual_len + length bs \<le> length (qbuf (get_queue ref (sbuf st))))
                     (Done (True, actual_len + length bs,
                        st\<lparr>sbuf := set_queue ref (\<lambda>q. q\<lparr>qbuf := blit (qbuf q) actual_len bs\<rparr>) (sbuf st)\<rparr>)))
          (\<lambda>(go_on, actual_len, st).
             let buf = qbuf (get_queue ref (sbuf st)) in
             if \<not> go_on then Done ((None, int actual_len), st)
             else if int actual_len = bytes
             then Done ((Some buf, int actual_len), st\<lparr>sbuf := snd (SocketBuffer_complete socket (sbuf st))\<rparr>)
             else Done ((Some buf, int actual_len),
                    st\<lparr>sbuf := SocketBuffer_interrupted junk socket actual_len (sbuf st)\<rparr>))))"

section \<open>Writing\<close>

text \<open>The return code and the number of bytes written.\<close>

definition Socket_writev :: "('k, 'a) kernel \<Rightarrow> int \<Rightarrow> u8 list list \<Rightarrow> 'k sockets \<Rightarrow> (int \<times> nat) \<times> 'k sockets" where
  "Socket_writev K socket vs st =
     (let (r, st) = on_os (sys_writev K socket vs (os st)) st in
      (case r of
         Writev_failed err \<Rightarrow> (if err = EWOULDBLOCK \<or> err = EAGAIN then TCPSOCKET_INTERRUPTED else SOCKET_ERROR, 0)
       | Written n \<Rightarrow> (int n, n), st))"

definition Socket_putdatas ::
    "('k, 'a) kernel \<Rightarrow> int \<Rightarrow> u8 list \<Rightarrow> u8 list list \<Rightarrow> bool list \<Rightarrow> 'k sockets \<Rightarrow> (int \<times> 'k sockets) outcome" where
  "Socket_putdatas K socket buf0 buffers frees st =
     (let (none, st) = Socket_noPendingWrites socket st in
      if \<not> none then Done (SOCKET_ERROR, st)
      else check (length buffers + 1 \<le> 5)
        (let tot = sum_list (map (int \<circ> length) (buf0 # buffers));
             vs = buf0 # buffers;
             frees1 = True # frees;
             ((rc, bytes), st) = Socket_writev K socket vs st in
         if rc \<noteq> SOCKET_ERROR
         then if int bytes = tot then Done (TCPSOCKET_COMPLETE, st)
              else let st = st\<lparr>sbuf := SocketBuffer_pendingWrite socket vs frees1 tot bytes (sbuf st)\<rparr>;
                       st = st\<lparr>write_pending := cl_append socket (write_pending st)\<rparr>;
                       st = st\<lparr>pending_wset := FD_SET socket (pending_wset st)\<rparr> in
                   Done (TCPSOCKET_INTERRUPTED, st)
         else Done (rc, st)))"

definition Socket_addPendingWrite :: "int \<Rightarrow> 'k sockets \<Rightarrow> 'k sockets" where
  "Socket_addPendingWrite socket st = st\<lparr>pending_wset := FD_SET socket (pending_wset st)\<rparr>"

definition Socket_clearPendingWrite :: "int \<Rightarrow> 'k sockets \<Rightarrow> 'k sockets" where
  "Socket_clearPendingWrite socket st =
     (if pending_wset st socket then st\<lparr>pending_wset := FD_CLR socket (pending_wset st)\<rparr> else st)"

text \<open>
  The buffers that are written next: nothing of them for the buffers behind the written length, the
  rest of the buffer it falls into, and then, in this system call, no further buffer.
\<close>

fun remaining_iovecs :: "nat \<Rightarrow> nat \<Rightarrow> u8 list list \<Rightarrow> u8 list list" where
  "remaining_iovecs bytes curbuflen [] = []"
| "remaining_iovecs bytes curbuflen (v # vs) =
     (if bytes \<le> curbuflen then v # remaining_iovecs bytes (curbuflen + length v) vs
      else if bytes < curbuflen + length v then [drop (bytes - curbuflen) v]
      else remaining_iovecs bytes (curbuflen + length v) vs)"

definition Socket_continueWrite :: "('k, 'a) kernel \<Rightarrow> int \<Rightarrow> 'k sockets \<Rightarrow> (int \<times> 'k sockets) outcome" where
  "Socket_continueWrite K socket st =
     (let (le, st) = on_buffers (SocketBuffer_getWrite socket (sbuf st)) st in
      case le of None \<Rightarrow> Fault
      | Some i \<Rightarrow>
          (let pw = items (writes_list (sbuf st)) ! i;
               vs = take (pw_count pw) (iovecs pw);
               iovecs1 = remaining_iovecs (pw_bytes pw) 0 vs in
           check (length iovecs1 \<le> 5)
             (let ((rc, bytes), st) = Socket_writev K socket iovecs1 st in
              if rc \<noteq> SOCKET_ERROR
              then let st = st\<lparr>sbuf := (sbuf st)\<lparr>writes_list :=
                              cl_update i (\<lambda>pw. pw\<lparr>pw_bytes := pw_bytes pw + bytes\<rparr>) (writes_list (sbuf st))\<rparr>\<rparr> in
                   if int (pw_bytes pw + bytes) = pw_total pw
                   then Done (1, st\<lparr>released := released st @ map fst (filter snd (zip vs (pw_frees pw)))\<rparr>)
                   else Done (0, st)
              else Done (rc, st))))"

text \<open>
  \<open>wc\<close> is the write-complete callback.  After a removal the loop goes on from \<open>current\<close> of the list.
\<close>

partial_function (option) continue_loop ::
    "('k, 'a) kernel \<Rightarrow> (int \<Rightarrow> 'k sockets \<Rightarrow> 'k sockets outcome) \<Rightarrow> fd_set \<Rightarrow> nat option \<Rightarrow> 'k sockets
      \<Rightarrow> 'k sockets outcome option" where
  "continue_loop K wc pwset curpending st =
     (case curpending of None \<Rightarrow> Some (Done st)
      | Some i \<Rightarrow>
          if length (items (write_pending st)) \<le> i then Some Fault
          else (let socket = items (write_pending st) ! i in
            case (if pwset socket then Socket_continueWrite K socket st else Done (0, st)) of
              Stuck \<Rightarrow> Some Stuck
            | Fault \<Rightarrow> Some Fault
            | Done (rc, st) \<Rightarrow>
                if rc \<noteq> 0
                then (let (_, st) = on_buffers (SocketBuffer_writeComplete socket (sbuf st)) st;
                          st = st\<lparr>pending_wset := FD_CLR socket (pending_wset st)\<rparr>;
                          st = st\<lparr>write_pending := cl_delete i (write_pending st)\<rparr>;
                          curpending = cursor (write_pending st) in
                      case wc socket st of
                        Stuck \<Rightarrow> Some Stuck
                      | Fault \<Rightarrow> Some Fault
                      | Done st \<Rightarrow> continue_loop K wc pwset curpending st)
                else continue_loop K wc pwset
                       (if Suc i < length (items (write_pending st)) then Some (Suc i) else None) st))"

definition Socket_continueWrites ::
    "('k, 'a) kernel \<Rightarrow> (int \<Rightarrow> 'k sockets \<Rightarrow> 'k sockets outcome) \<Rightarrow> fd_set \<Rightarrow> 'k sockets \<Rightarrow> (int \<times> 'k sockets) outcome" where
  "Socket_continueWrites K wc pwset st =
     obind (run_loop (continue_loop K wc pwset (if items (write_pending st) = [] then None else Some 0) st))
       (\<lambda>st. Done (0, st))"

section \<open>Choosing a socket\<close>

definition next_client :: "'k sockets \<Rightarrow> nat \<Rightarrow> nat option" where
  "next_client st i = (if Suc i < length (items (clientsds st)) then Some (Suc i) else None)"

text \<open>The two \<open>select\<close> calls return the code and the read and write sets they leave.\<close>

definition Socket_getReadySocket ::
    "('k, 'a) kernel \<Rightarrow> (int \<Rightarrow> 'k sockets \<Rightarrow> 'k sockets outcome) \<Rightarrow> bool \<Rightarrow> (int \<times> int) option
      \<Rightarrow> 'k sockets \<Rightarrow> (int \<times> 'k sockets) outcome" where
  "Socket_getReadySocket K wc more_work tp st =
     (if items (clientsds st) = [] then Done (0, st)
      else
        let timeout = (if more_work then (0, 0) else case tp of None \<Rightarrow> (1, 0) | Some t \<Rightarrow> t);
            st = scan_from_cursor st;
            finish = (\<lambda>st. case cur_clientsds st of
                None \<Rightarrow> Done (0, st)
              | Some i \<Rightarrow> Done (items (clientsds st) ! i, st\<lparr>cur_clientsds := next_client st i\<rparr>)) in
        if cur_clientsds st \<noteq> None then finish st
        else
          let st = st\<lparr>rset := rset_saved st\<rparr>;
              ((rc, rs, pws), st) =
                on_os (sys_select K (maxfdp1 st) (Some (rset st)) (Some (pending_wset st)) timeout (os st)) st;
              st = st\<lparr>rset := rs\<rparr> in
          if rc = SOCKET_ERROR then Done (rc, st)
          else obind (Socket_continueWrites K wc pws st) (\<lambda>(rcw, st).
            if rcw = SOCKET_ERROR then Done (0, st)
            else
              let st = st\<lparr>wset := rset_saved st\<rparr>;
                  ((rc1, _, ws), st) =
                    on_os (sys_select K (maxfdp1 st) None (Some (wset st)) (0, 0) (os st)) st;
                  st = st\<lparr>wset := ws\<rparr> in
              if rc1 = SOCKET_ERROR then Done (rc1, st)
              else if rc = 0 \<and> rc1 = 0 then Done (rc, st)
              else let st = scan_ready 0 (items (clientsds st)) st in finish st))"

section \<open>Opening and closing\<close>

definition Socket_close_only :: "('k, 'a) kernel \<Rightarrow> int \<Rightarrow> 'k sockets \<Rightarrow> int \<times> 'k sockets" where
  "Socket_close_only K socket st =
     (let (_, st) = on_os (sys_shutdown K socket (os st)) st;
          (_, st) = on_os (sys_recv K socket 0 (os st)) st in
      on_os (sys_close K socket (os st)) st)"

text \<open>
  The iterator \<open>cur_clientsds\<close> is a pointer to an element: when the element at position \<open>j\<close> goes, the
  positions behind it move down by one.
\<close>

definition Socket_close :: "('k, 'a) kernel \<Rightarrow> int \<Rightarrow> 'k sockets \<Rightarrow> 'k sockets" where
  "Socket_close K socket st =
     (let (_, st) = Socket_close_only K socket st;
          st = st\<lparr>rset_saved := FD_CLR socket (rset_saved st)\<rparr>;
          st = (if pending_wset st socket then st\<lparr>pending_wset := FD_CLR socket (pending_wset st)\<rparr> else st);
          st = (case cur_clientsds st of None \<Rightarrow> st
             | Some i \<Rightarrow> if items (clientsds st) ! i = socket then st\<lparr>cur_clientsds := next_client st i\<rparr> else st);
          st = st\<lparr>connect_pending := snd (cl_unlink (intcompare socket) (connect_pending st))\<rparr>;
          st = st\<lparr>write_pending := snd (cl_unlink (intcompare socket) (write_pending st))\<rparr>;
          st = st\<lparr>sbuf := SocketBuffer_cleanup socket (sbuf st)\<rparr>;
          at = cl_index (intcompare socket) (clientsds st);
          st = st\<lparr>clientsds := snd (cl_unlink (intcompare socket) (clientsds st)),
                  cur_clientsds := (case (at, cur_clientsds st) of
                     (Some j, Some i) \<Rightarrow> Some (if j < i then i - 1 else i) | (_, c) \<Rightarrow> c)\<rparr> in
      if maxfdp1 st \<le> socket + 1
      then st\<lparr>maxfdp1 := fold max (items (clientsds st)) 0 + 1\<rparr>
      else st)"

text \<open>
  \<open>getaddrinfo\<close> returns a code and the address list; IPv4 is preferred.  The result is the code and
  the new descriptor, -1 where there is none.
\<close>

definition pick_address :: "(int \<times> 'a) list \<Rightarrow> (int \<times> 'a) option" where
  "pick_address res = (case List.find (\<lambda>(family, _). family = AF_INET) res of
     Some a \<Rightarrow> Some a | None \<Rightarrow> (case res of [] \<Rightarrow> None | a # _ \<Rightarrow> Some a))"

definition Socket_new :: "('k, 'a) kernel \<Rightarrow> u8 list \<Rightarrow> int \<Rightarrow> 'k sockets \<Rightarrow> (int \<times> int) \<times> 'k sockets" where
  "Socket_new K addr port st =
     (let addr = (case addr of c # cs \<Rightarrow> if c = 0x5B then cs else addr | [] \<Rightarrow> []);
          ((rc, res), st) = on_os (sys_getaddrinfo K addr (os st)) st in
      if rc \<noteq> 0 then ((rc, -1), st)
      else (case pick_address res of
          None \<Rightarrow> ((-1, -1), st)
        | Some (family, a) \<Rightarrow>
            if family \<noteq> AF_INET6 \<and> family \<noteq> AF_INET then ((-1, -1), st)
            else let ((sock, err), st) = on_os (sys_socket K family (os st)) st in
              if sock = -1 then ((err, sock), st)
              else let (added, st) = Socket_addSocket K sock st in
                if added = SOCKET_ERROR then ((sys_errno K (os st), sock), st)
                else let ((rc, err), st) = on_os (sys_connect K sock (family, a, port) (os st)) st;
                         rc = (if rc = SOCKET_ERROR then err else rc) in
                  if rc = EINPROGRESS \<or> rc = EWOULDBLOCK
                  then ((rc, sock), st\<lparr>connect_pending := cl_append sock (connect_pending st)\<rparr>)
                  else ((rc, sock), st)))"

end
