(* ===== verification/Socket_Read.thy ===== *)
theory Socket_Read
  imports Socket_Io
begin

text \<open>
  Reading a packet in pieces.  \<open>packet_source\<close> states what \<open>MQTTPacket_Factory\<close> relies on of the byte
  source: header bytes that were read before are delivered again, then new ones; data read before is
  kept.  From these laws an interrupted packet is resumed without loss, and the socket layer
  satisfies them over every kernel that delivers the bytes of a stream in order.
\<close>

section \<open>The packet layer over a source of bytes\<close>

text \<open>What \<open>MQTTPacket_Factory\<close> does with the data of a packet that is complete.\<close>

definition packet_from :: "'n net_ops \<Rightarrow> u8 \<Rightarrow> u8 list \<Rightarrow> int \<Rightarrow> 'n \<Rightarrow> (packet option \<times> int \<times> 'n) outcome" where
  "packet_from ops h mem remaining_length n =
     (let ptype = header_type h in
      if ptype < msg_code CONNECT \<or> msg_code DISCONNECT < ptype \<or> new_packets ptype = None
      then Done (None, TCPSOCKET_COMPLETE, n)
      else obind (the (new_packets ptype) h mem (nat remaining_length)) (\<lambda>pack.
        case pack of
          None \<Rightarrow> Done (None, BAD_MQTT_PACKET, n)
        | Some p \<Rightarrow>
            obind (if ptype = msg_code PUBLISH \<and> header_qos h = 2
                   then obind (fixed_header h remaining_length) (\<lambda>buf0.
                        Done (persist_put ops buf0 [take (nat remaining_length) mem] ptype
                          (case p of Publish pub \<Rightarrow> pub_msgId pub | _ \<Rightarrow> 0) True n))
                   else Done (TCPSOCKET_COMPLETE, n))
              (\<lambda>(err, n). Done (Some p, err, stamp_received ops n))))"

text \<open>The receive loop calls \<open>MQTTPacket_Factory\<close> again each time the packet is not complete.\<close>

primrec read_packet :: "nat \<Rightarrow> 'n net_ops \<Rightarrow> 'n \<Rightarrow> (packet option \<times> int \<times> 'n) outcome" where
  "read_packet 0 ops n = Done (None, TCPSOCKET_INTERRUPTED, n)"
| "read_packet (Suc tries) ops n =
     obind (MQTTPacket_Factory ops n) (\<lambda>(pack, err, n).
       if pack = None \<and> err = TCPSOCKET_INTERRUPTED then read_packet tries ops n
       else Done (pack, err, n))"

definition header_of :: "u8 \<Rightarrow> u8 list \<Rightarrow> u8 list" where
  "header_of h d = h # encode_loop (int (length d))"

text \<open>
  The data \<open>d\<close> behind the header byte \<open>h\<close> is the packet \<open>p\<close>: its parser says so wherever the data
  lies in memory.  (A publication of QoS 2 is left out: it is also handed to the persistence.)
\<close>

definition parses_as :: "u8 \<Rightarrow> u8 list \<Rightarrow> packet \<Rightarrow> bool" where
  "parses_as h d p \<longleftrightarrow> msg_code CONNECT \<le> header_type h \<and> header_type h \<le> msg_code DISCONNECT
     \<and> \<not> (header_type h = msg_code PUBLISH \<and> header_qos h = 2)
     \<and> (\<exists>f. new_packets (header_type h) = Some f \<and> (\<forall>mem. length d \<le> length mem \<longrightarrow> take (length d) mem = d
           \<longrightarrow> f h mem (length d) = Done (Some p)))"

locale packet_source =
  fixes ops :: "'n net_ops"
    and holds :: "u8 list \<Rightarrow> nat \<Rightarrow> u8 list \<Rightarrow> 'n \<Rightarrow> bool"
    and ahead :: "'n \<Rightarrow> u8 list"
    and left :: "'n \<Rightarrow> nat"
  assumes getch_again: "holds hs k dat n \<Longrightarrow> k < length hs \<Longrightarrow>
      \<exists>n'. getch ops n = (TCPSOCKET_COMPLETE, hs ! k, n') \<and> holds hs (Suc k) dat n' \<and> ahead n' = ahead n
        \<and> left n' \<le> left n"
    and getch_new: "holds hs k [] n \<Longrightarrow> k = length hs \<Longrightarrow> k \<le> 4 \<Longrightarrow>
      (\<exists>c n'. getch ops n = (TCPSOCKET_INTERRUPTED, c, n') \<and> holds hs 0 [] n' \<and> ahead n' = ahead n
           \<and> (ahead n \<noteq> [] \<longrightarrow> left n' < left n))
      \<or> (\<exists>b n'. getch ops n = (TCPSOCKET_COMPLETE, b, n') \<and> holds (hs @ [b]) (Suc k) [] n'
           \<and> ahead n = b # ahead n' \<and> left n' \<le> left n)"
    and getdata_none: "holds hs k [] n \<Longrightarrow> k = length hs \<Longrightarrow> hs \<noteq> [] \<Longrightarrow>
      \<exists>mem n'. getdata ops 0 n = ((Some mem, 0), n') \<and> holds [] 0 [] n' \<and> ahead n' = ahead n"
    and getdata_some: "holds hs k dat n \<Longrightarrow> k = length hs \<Longrightarrow> hs \<noteq> [] \<Longrightarrow> length dat < m \<Longrightarrow>
      (\<exists>mem dat' n'. getdata ops (int m) n = ((Some mem, int (length dat')), n') \<and> length dat' < m
         \<and> holds hs 0 dat' n' \<and> dat' @ ahead n' = dat @ ahead n \<and> (ahead n \<noteq> [] \<longrightarrow> left n' < left n))
      \<or> (\<exists>mem n'. getdata ops (int m) n = ((Some mem, int m), n') \<and> m \<le> length mem \<and> holds [] 0 [] n'
         \<and> take m mem @ ahead n' = dat @ ahead n)"
begin

text \<open>
  \<open>reading H d r k n\<close>: the stream is the header \<open>H\<close>, the data \<open>d\<close> and then \<open>r\<close>, some of it was
  consumed already, and the next header byte to deliver is the one at \<open>k\<close>.
\<close>

definition reading :: "u8 list \<Rightarrow> u8 list \<Rightarrow> u8 list \<Rightarrow> nat \<Rightarrow> 'n \<Rightarrow> bool" where
  "reading H d r k n \<longleftrightarrow> (\<exists>hs dat. holds hs k dat n \<and> k \<le> length hs \<and> hs @ dat @ ahead n = H @ d @ r
     \<and> length hs \<le> length H \<and> (dat = [] \<or> hs = H \<and> length dat < length d))"

lemma readingI:
  "holds hs k dat n \<Longrightarrow> k \<le> length hs \<Longrightarrow> hs @ dat @ ahead n = H @ d @ r \<Longrightarrow> length hs \<le> length H \<Longrightarrow>
   dat = [] \<or> hs = H \<and> length dat < length d \<Longrightarrow> reading H d r k n"
  unfolding reading_def by blast

lemma next_byte:
  assumes "reading H d r k n" "k < length H" "length H \<le> 5"
  shows "(\<exists>n'. getch ops n = (TCPSOCKET_COMPLETE, H ! k, n') \<and> reading H d r (Suc k) n' \<and> left n' \<le> left n)
    \<or> (\<exists>c n'. getch ops n = (TCPSOCKET_INTERRUPTED, c, n') \<and> reading H d r 0 n' \<and> left n' < left n)"
proof -
  obtain hs dat where r: "holds hs k dat n" "k \<le> length hs" "hs @ dat @ ahead n = H @ d @ r"
    "length hs \<le> length H" "dat = [] \<or> hs = H \<and> length dat < length d"
    using assms(1) unfolding reading_def by blast
  have pre: "hs = take (length hs) H"
    using arg_cong [OF r(3), of "take (length hs)"] r(4) by simp
  show ?thesis
  proof (cases "k < length hs")
    case True
    have "hs ! k = H ! k"
      using pre True by (metis nth_take)
    then obtain n' where "getch ops n = (TCPSOCKET_COMPLETE, H ! k, n')" "holds hs (Suc k) dat n'"
      "ahead n' = ahead n" "left n' \<le> left n"
      using getch_again [OF r(1) True] by auto
    moreover from this have "reading H d r (Suc k) n'"
      unfolding reading_def using r True by (intro exI [of _ hs] exI [of _ dat]) simp
    ultimately show ?thesis
      by blast
  next
    case False
    then have k: "k = length hs" "dat = []"
      using r assms(2) by auto
    then have "holds hs k [] n" "k \<le> 4"
      using r(1) assms(2,3) by simp_all
    from getch_new [OF this(1) k(1) this(2)] show ?thesis
    proof (elim disjE exE conjE)
      fix c n' assume "getch ops n = (TCPSOCKET_INTERRUPTED, c, n')" "holds hs 0 [] n'" "ahead n' = ahead n"
        "ahead n \<noteq> [] \<longrightarrow> left n' < left n"
      moreover from this have "reading H d r 0 n'"
        using r k by (intro readingI [of hs 0 "[]"]) simp_all
      moreover have "ahead n \<noteq> []"
        using arg_cong [OF r(3), of length] k assms(2) by auto
      ultimately show ?thesis
        by blast
    next
      fix b n' assume g: "getch ops n = (TCPSOCKET_COMPLETE, b, n')" "holds (hs @ [b]) (Suc k) [] n'"
        "ahead n = b # ahead n'" "left n' \<le> left n"
      have e: "hs @ b # ahead n' = H @ d @ r"
        using r(3) k(2) g(3) by simp
      then have "b = H ! k"
        using arg_cong [OF e, of "\<lambda>l. l ! length hs"] k(1) assms(2)
          nth_append [of hs "b # ahead n'" "length hs"] nth_append [of H "d @ r" "length hs"] by simp
      moreover have "reading H d r (Suc k) n'"
        unfolding reading_def using g(2) e k assms(2) by (intro exI [of _ "hs @ [b]"] exI [of _ "[]"]) simp
      ultimately show ?thesis
        using g(1,4) by blast
    qed
  qed
qed

lemma decode_resumes:
  "0 \<le> m \<Longrightarrow> reading H d r k n \<Longrightarrow> length H \<le> 5 \<Longrightarrow> drop k H = encode_loop m \<Longrightarrow>
   len + length (encode_loop m) \<le> MAX_NO_OF_REMAINING_LENGTH_BYTES \<Longrightarrow>
   (\<exists>n'. decode_loop (getch ops) len mult v n = (TCPSOCKET_COMPLETE, v + m * mult, n')
      \<and> reading H d r (length H) n' \<and> left n' \<le> left n)
   \<or> (\<exists>v' n'. decode_loop (getch ops) len mult v n = (TCPSOCKET_INTERRUPTED, v', n') \<and> reading H d r 0 n'
      \<and> left n' < left n)"
proof (induction m arbitrary: k n len mult v rule: encode_loop.induct)
  case (1 m)
  have k: "k < length H" "H ! k = hd (encode_loop m)" "drop (Suc k) H = tl (encode_loop m)"
  proof -
    have "encode_loop m \<noteq> []"
      by (subst encode_loop.simps) (simp add: Let_def)
    then have "drop k H \<noteq> []"
      using 1 by simp
    then show "k < length H"
      by simp
    then have "drop k H = H ! k # drop (Suc k) H"
      by (simp add: Cons_nth_drop_Suc)
    then show "H ! k = hd (encode_loop m)" "drop (Suc k) H = tl (encode_loop m)"
      using 1 by (metis list.sel(1)) (metis \<open>drop k H = H ! k # drop (Suc k) H\<close> "1.prems"(4) list.sel(3))
  qed
  have len: "\<not> MAX_NO_OF_REMAINING_LENGTH_BYTES < Suc len"
    using "1.prems"(5) k(1) arg_cong [OF "1.prems"(4), of length] by (simp del: length_0_conv)
  from next_byte [OF "1.prems"(2) k(1) "1.prems"(3)] show ?case
  proof (elim disjE exE conjE)
    fix c n' assume "getch ops n = (TCPSOCKET_INTERRUPTED, c, n')" "reading H d r 0 n'" "left n' < left n"
    then show ?thesis
      using len by (subst decode_loop.simps) (simp add: socket_codes Let_def)
  next
    fix n' assume g: "getch ops n = (TCPSOCKET_COMPLETE, H ! k, n')" "reading H d r (Suc k) n'" "left n' \<le> left n"
    show ?thesis
    proof (cases "m < 128")
      case True
      then have "Suc k = length H"
        using k 1 arg_cong [OF "1.prems"(4), of length] by (simp add: encode_loop_small)
      then show ?thesis
        using g k(2) True 1 len by (subst decode_loop.simps)
          (simp add: encode_loop_small digit_value Let_def)
    next
      case False
      let ?q = "m div 128"
      have e: "encode_loop m = (of_int (m mod 128) OR 0x80) # encode_loop ?q"
        using False by (intro encode_loop_big) simp
      have d: "drop (Suc k) H = encode_loop ?q" "H ! k = of_int (m mod 128) OR 0x80"
        using k e by simp_all
      have ih: "(\<exists>n''. decode_loop (getch ops) (Suc len) (mult * 128) (v + m mod 128 * mult) n' =
            (TCPSOCKET_COMPLETE, v + m mod 128 * mult + ?q * (mult * 128), n'') \<and> reading H d r (length H) n''
            \<and> left n'' \<le> left n')
        \<or> (\<exists>v' n''. decode_loop (getch ops) (Suc len) (mult * 128) (v + m mod 128 * mult) n' =
            (TCPSOCKET_INTERRUPTED, v', n'') \<and> reading H d r 0 n'' \<and> left n'' < left n')"
        using 1 False e d g by (intro "1.IH" [of "of_int (m smod 128)"]) (auto simp: sdiv_128)
      have step: "decode_loop (getch ops) len mult v n =
          decode_loop (getch ops) (Suc len) (mult * 128) (v + m mod 128 * mult) n'"
        using g(1) d(2) len 1 by (subst decode_loop.simps) (simp add: digit_value Let_def)
      have "q * 128 + x = m \<Longrightarrow> v + x * mult + q * (mult * 128) = v + m * mult" for q x
        by (auto simp: algebra_simps)
      then have "v + m mod 128 * mult + ?q * (mult * 128) = v + m * mult"
        using div_mult_mod_eq [of m 128] by blast
      from ih [unfolded this] show ?thesis
        unfolding step using g(3) le_trans less_le_trans by blast
    qed
  qed
qed

lemma factory_resumes:
  assumes "reading (header_of h d) d r 0 n" "length d < 2 ^ 28"
  shows "(\<exists>n'. MQTTPacket_Factory ops n = Done (None, TCPSOCKET_INTERRUPTED, n')
      \<and> reading (header_of h d) d r 0 n' \<and> left n' < left n)
    \<or> (\<exists>mem n'. MQTTPacket_Factory ops n = packet_from ops h mem (int (length d)) n'
      \<and> length d \<le> length mem \<and> take (length d) mem = d \<and> holds [] 0 [] n' \<and> ahead n' = r)"
proof -
  let ?H = "header_of h d"
  have l: "length (encode_loop (int (length d))) \<le> 4"
    using length_encode_loop [of "int (length d)" 3] assms(2) by simp
  have H: "?H ! 0 = h" "length ?H \<le> 5" "0 < length ?H" "drop (Suc 0) ?H = encode_loop (int (length d))"
    using l by (simp_all add: header_of_def)
  from next_byte [OF assms(1) H(3,2)] show ?thesis
  proof (elim disjE exE conjE)
    fix c n' assume "getch ops n = (TCPSOCKET_INTERRUPTED, c, n')" "reading ?H d r 0 n'" "left n' < left n"
    then show ?thesis
      by (simp add: MQTTPacket_Factory_def socket_codes)
  next
    fix n1 assume g: "getch ops n = (TCPSOCKET_COMPLETE, ?H ! 0, n1)" "reading ?H d r (Suc 0) n1" "left n1 \<le> left n"
    have "(\<exists>n'. decode_loop (getch ops) 0 1 0 n1 = (TCPSOCKET_COMPLETE, int (length d), n')
        \<and> reading ?H d r (length ?H) n' \<and> left n' \<le> left n1)
      \<or> (\<exists>v' n'. decode_loop (getch ops) 0 1 0 n1 = (TCPSOCKET_INTERRUPTED, v', n') \<and> reading ?H d r 0 n'
        \<and> left n' < left n1)"
      using decode_resumes [OF _ g(2) H(2,4), of 0 1 0] l
      by (simp add: MAX_NO_OF_REMAINING_LENGTH_BYTES_def)
    then show ?thesis
    proof (elim disjE exE conjE)
      fix v' n' assume "decode_loop (getch ops) 0 1 0 n1 = (TCPSOCKET_INTERRUPTED, v', n')" "reading ?H d r 0 n'"
        "left n' < left n1"
      then show ?thesis
        using g(1,3) by (simp add: MQTTPacket_Factory_def MQTTPacket_decode_def socket_codes)
    next
      fix n2 assume dc: "decode_loop (getch ops) 0 1 0 n1 = (TCPSOCKET_COMPLETE, int (length d), n2)"
        and rd: "reading ?H d r (length ?H) n2" and n2: "left n2 \<le> left n1"
      obtain hs dat where s: "holds hs (length ?H) dat n2" "length ?H \<le> length hs"
        "hs @ dat @ ahead n2 = ?H @ d @ r" "length hs \<le> length ?H" "dat = [] \<or> length dat < length d"
        using rd unfolding reading_def by blast
      have "hs = ?H \<and> dat @ ahead n2 = d @ r"
        using s(2-4) append_eq_append_conv [of hs ?H "dat @ ahead n2" "d @ r"] by linarith
      then have hs: "hs = ?H" "dat @ ahead n2 = d @ r" "hs \<noteq> []"
        using H(3) by auto
      have run: "MQTTPacket_Factory ops n =
          (let ((data, actual_len), n3) = getdata ops (int (length d)) n2 in
           case data of None \<Rightarrow> Done (None, SOCKET_ERROR, n3)
           | Some mem \<Rightarrow> if actual_len \<noteq> int (length d) then Done (None, TCPSOCKET_INTERRUPTED, n3)
                else packet_from ops h mem (int (length d)) n3)"
        using g(1) dc H(1) unfolding MQTTPacket_Factory_def packet_from_def
        by (simp add: MQTTPacket_decode_def Let_def)
      show ?thesis
      proof (cases "d = []")
        case True
        then have "holds hs (length hs) [] n2"
          using s hs by simp
        from getdata_none [OF this refl hs(3)] obtain mem n' where
          "getdata ops 0 n2 = ((Some mem, 0), n')" "holds [] 0 [] n'" "ahead n' = ahead n2"
          by blast
        moreover have "ahead n2 = r"
          using True hs(2) s(5) by simp
        ultimately show ?thesis
          using run True by (intro disjI2 exI [of _ mem] exI [of _ n']) simp
      next
        case False
        have hl: "holds hs (length hs) dat n2" "length dat < length d"
          using s(1,5) hs False by auto
        from getdata_some [OF hl(1) refl hs(3) hl(2)] show ?thesis
        proof (elim disjE exE conjE)
          fix mem dat' n' assume "getdata ops (int (length d)) n2 = ((Some mem, int (length dat')), n')"
            "length dat' < length d" "holds hs 0 dat' n'" "dat' @ ahead n' = dat @ ahead n2"
            "ahead n2 \<noteq> [] \<longrightarrow> left n' < left n2"
          moreover from this have "reading ?H d r 0 n'"
            using hs unfolding reading_def by (intro exI [of _ hs] exI [of _ dat']) simp
          moreover have "ahead n2 \<noteq> []"
            using arg_cong [OF hs(2), of length] hl(2) by auto
          ultimately show ?thesis
            using run g(3) n2 by simp
        next
          fix mem n' assume gd: "getdata ops (int (length d)) n2 = ((Some mem, int (length d)), n')"
            "length d \<le> length mem" "holds [] 0 [] n'" "take (length d) mem @ ahead n' = dat @ ahead n2"
          have "take (length d) mem = d \<and> ahead n' = r"
            using gd(2,4) hs(2) append_eq_append_conv [of "take (length d) mem" d "ahead n'" r] by simp
          then show ?thesis
            using run gd by (intro disjI2 exI [of _ mem] exI [of _ n']) simp
        qed
      qed
    qed
  qed
qed

lemma packet_parsed:
  assumes "parses_as h d p" "length d \<le> length mem" "take (length d) mem = d"
  shows "packet_from ops h mem (int (length d)) n = Done (Some p, TCPSOCKET_COMPLETE, stamp_received ops n)"
  using assms unfolding parses_as_def packet_from_def by auto

lemma read_packet_completes:
  "reading (header_of h d) d r 0 n \<Longrightarrow> length d < 2 ^ 28 \<Longrightarrow> parses_as h d p \<Longrightarrow> left n < tries \<Longrightarrow>
   \<exists>n'. read_packet tries ops n = Done (Some p, TCPSOCKET_COMPLETE, stamp_received ops n')
     \<and> holds [] 0 [] n' \<and> ahead n' = r"
proof (induction tries arbitrary: n)
  case (Suc tries)
  from factory_resumes [OF Suc.prems(1,2)] show ?case
  proof (elim disjE exE conjE)
    fix n' assume f: "MQTTPacket_Factory ops n = Done (None, TCPSOCKET_INTERRUPTED, n')"
      and n': "reading (header_of h d) d r 0 n'" "left n' < left n"
    then have "left n' < tries"
      using Suc.prems(4) by simp
    from Suc.IH [OF n'(1) Suc.prems(2,3) this] f show ?thesis
      by simp
  next
    fix mem n' assume "MQTTPacket_Factory ops n = packet_from ops h mem (int (length d)) n'"
      "length d \<le> length mem" "take (length d) mem = d" "holds [] 0 [] n'" "ahead n' = r"
    then show ?thesis
      using packet_parsed [OF Suc.prems(3)] by auto
  qed
qed simp

end

section \<open>The queues of the socket layer\<close>

definition header_kept :: "int \<Rightarrow> u8 list \<Rightarrow> nat \<Rightarrow> socket_queue \<Rightarrow> bool" where
  "header_kept s hs k q \<longleftrightarrow> q_socket q = s \<and> headerlen q = length hs \<and> q_index q = k \<and> k \<le> length hs
     \<and> length hs \<le> 5 \<and> length (fixed_header_bytes q) = 5 \<and> take (length hs) (fixed_header_bytes q) = hs"

definition data_kept :: "u8 list \<Rightarrow> socket_queue \<Rightarrow> bool" where
  "data_kept dat q \<longleftrightarrow> datalen q = length dat \<and> take (length dat) (qbuf q) = dat
     \<and> length dat \<le> length (qbuf q) \<and> buflen q \<le> int (length (qbuf q))"

definition queue_ok :: "socket_queue \<Rightarrow> bool" where
  "queue_ok q \<longleftrightarrow> length (fixed_header_bytes q) = 5 \<and> buflen q \<le> int (length (qbuf q))"

definition junk_ok :: "heap_junk \<Rightarrow> bool" where
  "junk_ok junk \<longleftrightarrow> length (fixed_header_bytes (junk_queue junk)) = 5"

definition none_for :: "int \<Rightarrow> socket_queue clist \<Rightarrow> bool" where
  "none_for s l \<longleftrightarrow> (\<forall>q \<in> set (items l). q_socket q \<noteq> s)"

definition only_at :: "int \<Rightarrow> nat \<Rightarrow> socket_queue clist \<Rightarrow> bool" where
  "only_at s i l \<longleftrightarrow> i < length (items l) \<and> q_socket (items l ! i) = s
     \<and> (\<forall>j < length (items l). q_socket (items l ! j) = s \<longrightarrow> j = i)"

text \<open>
  \<open>kept s ref hs k dat sb\<close>: for socket \<open>s\<close> the queue \<open>ref\<close> holds the header bytes \<open>hs\<close>, of which
  \<open>k\<close> were delivered again, and the data \<open>dat\<close>.
\<close>

fun kept :: "int \<Rightarrow> queue_ref \<Rightarrow> u8 list \<Rightarrow> nat \<Rightarrow> u8 list \<Rightarrow> socket_buffers \<Rightarrow> bool" where
  "kept s (Queue_at i) hs k dat sb \<longleftrightarrow> hs \<noteq> [] \<and> queue_ok (def_queue sb) \<and> only_at s i (queues sb)
     \<and> header_kept s hs k (items (queues sb) ! i) \<and> data_kept dat (items (queues sb) ! i)"
| "kept s Def_queue hs k dat sb \<longleftrightarrow> queue_ok (def_queue sb) \<and> none_for s (queues sb) \<and> dat = []
     \<and> k = length hs \<and> datalen (def_queue sb) = 0
     \<and> (if hs = [] then q_socket (def_queue sb) = 0 else header_kept s hs k (def_queue sb))"

lemma find_none: "none_for s l \<Longrightarrow> cl_find (socketcompare s) l = (None, l)"
  using cl_index_None [of "socketcompare s" l] by (auto simp: cl_find_def none_for_def socketcompare_def)

lemma find_only: "only_at s i l \<Longrightarrow> cl_find (socketcompare s) l = (Some i, l\<lparr>cursor := Some i\<rparr>)"
  using cl_index_unique [of i l "socketcompare s"] by (simp add: cl_find_def only_at_def socketcompare_def)

lemma only_at_cursor [simp]: "only_at s i (l\<lparr>cursor := c\<rparr>) = only_at s i l"
  by (simp add: only_at_def)

lemma only_at_update:
  "only_at s i l \<Longrightarrow> (\<And>q. q_socket (f q) = q_socket q) \<Longrightarrow> only_at s i (cl_update i f l)"
  unfolding only_at_def by (auto simp: nth_list_update)

lemma only_at_append: "none_for s l \<Longrightarrow> q_socket q = s \<Longrightarrow> only_at s (length (items l)) (cl_append q l)"
  by (auto simp: only_at_def none_for_def nth_append less_Suc_eq)

lemma none_for_append: "none_for s l \<Longrightarrow> q_socket q \<noteq> s \<Longrightarrow> none_for s (cl_append q l)"
  by (auto simp: none_for_def)

lemma update_appended [simp]:
  "cl_update (length (items l)) f (cl_append q l) = cl_append (f q) l"
  by (simp add: cl_update_def cl_append_def)

lemma none_for_delete:
  assumes "only_at s i l"
  shows "none_for s (cl_delete i (l\<lparr>cursor := c\<rparr>))"
  unfolding none_for_def
proof
  fix q assume "q \<in> set (items (cl_delete i (l\<lparr>cursor := c\<rparr>)))"
  then obtain j where "j < length (items l)" "j \<noteq> i" "q = items l ! j"
    by (auto simp: items_delete in_set_conv_nth nth_append)
      (metis less_not_refl nth_drop add.commute less_add_Suc2 trans_less_add1 Suc_leI le_add_diff_inverse2
        less_diff_conv add_Suc_right not_add_less1 length_drop)+
  then show "q_socket q \<noteq> s"
    using assms by (auto simp: only_at_def)
qed

lemma header_kept_queue: "length hs < 5 \<Longrightarrow> header_kept s hs k q \<Longrightarrow> k = length hs \<Longrightarrow>
    header_kept s (hs @ [c]) (Suc k)
      (q\<lparr>fixed_header_bytes := (fixed_header_bytes q)[q_index q := c], q_index := q_index q + 1,
         headerlen := q_index q + 1\<rparr>)"
  by (auto simp: header_kept_def take_Suc_conv_app_nth)


lemma cl_cursor_items [simp]: "items (l\<lparr>cursor := c\<rparr>) = items l"
  by simp

lemma getQueuedChar_again:
  assumes "kept s ref hs k dat sb" "k < length hs"
  shows "\<exists>sb'. SocketBuffer_getQueuedChar s sb = Done (SOCKETBUFFER_COMPLETE, hs ! k, sb')
    \<and> kept s ref hs (Suc k) dat sb'"
proof (cases ref)
  case (Queue_at i)
  let ?q = "items (queues sb) ! i"
  have q: "only_at s i (queues sb)" "header_kept s hs k ?q"
    using assms(1) Queue_at by simp_all
  have i: "i < length (items (queues sb))"
    using q(1) by (simp add: only_at_def)
  have c: "fixed_header_bytes ?q ! k = hs ! k"
    using q(2) assms(2) by (auto simp: header_kept_def) (metis nth_take)
  have "SocketBuffer_getQueuedChar s sb = Done (SOCKETBUFFER_COMPLETE, hs ! k,
      sb\<lparr>queues := cl_update i (\<lambda>q. q\<lparr>q_index := q_index q + 1\<rparr>) ((queues sb)\<lparr>cursor := Some i\<rparr>)\<rparr>)"
    using q assms(2) c by (simp add: SocketBuffer_getQueuedChar_def find_only header_kept_def Let_def)
  then show ?thesis
    using assms Queue_at i q(1) by (auto simp: header_kept_def data_kept_def intro!: only_at_update)
qed (use assms in simp)

lemma getQueuedChar_end:
  assumes "kept s ref hs k dat sb" "k = length hs" "k \<le> 4"
  shows "\<exists>sb'. SocketBuffer_getQueuedChar s sb = Done (SOCKETBUFFER_INTERRUPTED, 0, sb') \<and> kept s ref hs k dat sb'"
proof (cases ref)
  case (Queue_at i)
  then have "only_at s i (queues sb)" "header_kept s hs k (items (queues sb) ! i)"
    using assms(1) by simp_all
  then show ?thesis
    using assms Queue_at by (simp add: SocketBuffer_getQueuedChar_def find_only header_kept_def Let_def)
next
  case Def_queue
  then show ?thesis
    using assms by (intro exI [of _ sb]) (simp add: SocketBuffer_getQueuedChar_def find_none)
qed

lemma queueChar_kept:
  assumes "kept s ref hs k [] sb" "k = length hs" "k \<le> 4" "s \<noteq> 0"
  shows "\<exists>sb'. SocketBuffer_queueChar s c sb = Done sb' \<and> kept s ref (hs @ [c]) (Suc k) [] sb'"
proof (cases ref)
  case (Queue_at i)
  then have q: "only_at s i (queues sb)" "header_kept s hs k (items (queues sb) ! i)"
    using assms(1) by simp_all
  have i: "i < length (items (queues sb))"
    using q(1) by (simp add: only_at_def)
  show ?thesis
    using assms Queue_at q i header_kept_queue [of hs s k "items (queues sb) ! i" c]
    by (auto simp: SocketBuffer_queueChar_def find_only Let_def header_kept_def data_kept_def
        intro!: only_at_update)
next
  case Def_queue
  then have q: "none_for s (queues sb)" "queue_ok (def_queue sb)" "datalen (def_queue sb) = 0"
    using assms(1) by simp_all
  show ?thesis
  proof (cases "hs = []")
    case True
    then show ?thesis
      using assms Def_queue q
      by (auto simp: SocketBuffer_queueChar_def find_none Let_def queue_ok_def header_kept_def take_Suc_conv_app_nth)
  next
    case False
    then show ?thesis
      using assms Def_queue q header_kept_queue [of hs s k "def_queue sb" c]
      by (auto simp: SocketBuffer_queueChar_def find_none Let_def queue_ok_def header_kept_def)
  qed
qed

text \<open>An interrupted read: what was read so far stays with the socket.\<close>

lemma interrupted_kept:
  assumes "kept s ref hs k dat sb" "junk_ok junk" "s \<noteq> 0"
    and "length dat' \<le> length (qbuf (get_queue ref sb))"
    and "take (length dat') (qbuf (get_queue ref sb)) = dat'" "hs = [] \<Longrightarrow> dat' = []"
  shows "\<exists>ref'. kept s ref' hs 0 dat' (SocketBuffer_interrupted junk s (length dat') sb)"
proof (cases ref)
  case (Queue_at i)
  then have q: "only_at s i (queues sb)" "i < length (items (queues sb))"
    using assms(1) by (simp_all add: only_at_def)
  have "kept s (Queue_at i) hs 0 dat' (SocketBuffer_interrupted junk s (length dat') sb)"
    using assms Queue_at q
    by (auto simp: SocketBuffer_interrupted_def find_only Let_def header_kept_def data_kept_def intro!: only_at_update)
  then show ?thesis
    by blast
next
  case Def_queue
  then have q: "none_for s (queues sb)" "queue_ok (def_queue sb)"
    using assms(1) by simp_all
  have new: "queue_ok (def_queue (SocketBuffer_newDefQ junk x))" "datalen (def_queue (SocketBuffer_newDefQ junk x)) = 0"
    "q_socket (def_queue (SocketBuffer_newDefQ junk x)) = 0" "queues (SocketBuffer_newDefQ junk x) = queues x" for x
    using assms(2) by (simp_all add: SocketBuffer_newDefQ_def queue_ok_def junk_ok_def malloc_bytes_def Let_def)
  let ?q = "(def_queue sb)\<lparr>q_index := 0, datalen := length dat'\<rparr>"
  let ?sb = "SocketBuffer_newDefQ junk (sb\<lparr>queues := cl_append (def_queue sb) (queues sb)\<rparr>)"
  have run: "SocketBuffer_interrupted junk s (length dat') sb = ?sb\<lparr>queues := cl_append ?q (queues sb)\<rparr>"
    using q(1) by (simp add: SocketBuffer_interrupted_def find_none Let_def new)
  show ?thesis
  proof (cases "hs = []")
    case True
    then have "kept s Def_queue hs 0 dat' (?sb\<lparr>queues := cl_append ?q (queues sb)\<rparr>)"
      using assms Def_queue q new by (auto intro: none_for_append)
    then show ?thesis
      unfolding run by blast
  next
    case False
    then have "header_kept s hs k (def_queue sb)"
      using assms(1) Def_queue by auto
    moreover from this have "only_at s (length (items (queues sb))) (cl_append ?q (queues sb))"
      using q(1) by (intro only_at_append) (simp_all add: header_kept_def)
    ultimately have "kept s (Queue_at (length (items (queues sb)))) hs 0 dat' (?sb\<lparr>queues := cl_append ?q (queues sb)\<rparr>)"
      using assms Def_queue q new by (auto simp: header_kept_def data_kept_def queue_ok_def)
    then show ?thesis
      unfolding run by blast
  qed
qed

lemma complete_kept:
  assumes "kept s ref hs k dat sb" "s \<noteq> 0" "hs \<noteq> []"
  shows "kept s Def_queue [] 0 [] (snd (SocketBuffer_complete s sb))"
proof (cases ref)
  case (Queue_at i)
  then show ?thesis
    using assms none_for_delete [of s i "queues sb" "Some i"]
    by (auto simp: SocketBuffer_complete_def find_only Let_def queue_ok_def header_kept_def data_kept_def)
next
  case Def_queue
  then show ?thesis
    using assms by (auto simp: SocketBuffer_complete_def find_none Let_def queue_ok_def)
qed

text \<open>The buffer that \<open>Socket_getdata\<close> reads into has room for the whole packet.\<close>

lemma getQueuedData_kept:
  assumes "kept s ref hs k dat sb" "0 < m" "length dat < m"
  shows "\<exists>sb'. SocketBuffer_getQueuedData junk s (int m) sb = Done (ref, length dat, sb')
    \<and> kept s ref hs k dat sb' \<and> m \<le> length (qbuf (get_queue ref sb'))
    \<and> take (length dat) (qbuf (get_queue ref sb')) = dat"
proof (cases ref)
  case (Queue_at i)
  let ?q = "items (queues sb) ! i"
  have q: "only_at s i (queues sb)" "i < length (items (queues sb))" "header_kept s hs k ?q" "data_kept dat ?q"
    using assms(1) Queue_at by (simp_all add: only_at_def)
  let ?l = "(queues sb)\<lparr>cursor := Some i\<rparr>"
  show ?thesis
  proof (cases "buflen ?q < int m")
    case True
    define mem where "mem = (if 0 < length dat then blit (malloc_bytes junk m) 0 dat else realloc_bytes junk (qbuf ?q) m)"
    have mem: "m \<le> length mem" "take (length dat) mem = dat"
      using assms(3) by (auto simp: mem_def malloc_bytes_def realloc_bytes_def blit_def)
    have "SocketBuffer_getQueuedData junk s (int m) sb = Done (ref, length dat,
        sb\<lparr>queues := cl_update i (\<lambda>q. q\<lparr>qbuf := mem, buflen := int m\<rparr>) ?l\<rparr>)"
      using q True assms(3) Queue_at
      by (auto simp: SocketBuffer_getQueuedData_def find_only Let_def data_kept_def mem_def)
    then show ?thesis
      using assms Queue_at q mem
      by (auto simp: header_kept_def data_kept_def intro!: only_at_update)
  next
    case False
    then have "SocketBuffer_getQueuedData junk s (int m) sb = Done (ref, length dat, sb\<lparr>queues := ?l\<rparr>)"
      using q Queue_at by (auto simp: SocketBuffer_getQueuedData_def find_only Let_def data_kept_def)
    then show ?thesis
      using assms Queue_at q False by (auto simp: data_kept_def)
  qed
next
  case Def_queue
  then have q: "none_for s (queues sb)" "queue_ok (def_queue sb)" "dat = []" "datalen (def_queue sb) = 0"
    using assms(1) by simp_all
  show ?thesis
  proof (cases "buflen (def_queue sb) < int m")
    case True
    let ?mem = "realloc_bytes junk (qbuf (def_queue sb)) m"
    have "SocketBuffer_getQueuedData junk s (int m) sb = Done (ref, length dat,
        sb\<lparr>def_queue := (def_queue sb)\<lparr>qbuf := ?mem, buflen := int m\<rparr>\<rparr>)"
      using q True Def_queue by (simp add: SocketBuffer_getQueuedData_def find_none Let_def)
    moreover have "length ?mem = m"
      by (simp add: realloc_bytes_def)
    ultimately show ?thesis
      using assms Def_queue q by (auto simp: queue_ok_def header_kept_def)
  next
    case False
    then have "SocketBuffer_getQueuedData junk s (int m) sb = Done (ref, length dat, sb)"
      using q Def_queue by (simp add: SocketBuffer_getQueuedData_def find_none Let_def)
    then show ?thesis
      using assms Def_queue q False by (auto simp: queue_ok_def)
  qed
qed

lemma kept_qbuf:
  assumes "kept s ref hs k dat sb" "length mem = length (qbuf (get_queue ref sb))" "take (length dat) mem = dat"
  shows "kept s ref hs k dat (set_queue ref (\<lambda>q. q\<lparr>qbuf := mem\<rparr>) sb)"
proof (cases ref)
  case (Queue_at i)
  then have "i < length (items (queues sb))"
    using assms(1) by (simp add: only_at_def)
  then show ?thesis
    using assms Queue_at by (auto simp: header_kept_def data_kept_def intro!: only_at_update)
next
  case Def_queue
  then show ?thesis
    using assms by (auto simp: queue_ok_def header_kept_def)
qed

section \<open>The socket layer is a packet source\<close>

text \<open>
  Reading through a descriptor whose stream is up: \<open>recv\<close> returns some of the bytes that are ahead,
  in order, or \<open>EAGAIN\<close>, and while bytes are ahead it says \<open>EAGAIN\<close> only a bounded number of times.
\<close>

definition stream_kernel :: "('k, 'a) kernel \<Rightarrow> int \<Rightarrow> ('k \<Rightarrow> u8 list) \<Rightarrow> ('k \<Rightarrow> nat) \<Rightarrow> bool" where
  "stream_kernel K s avail waits \<longleftrightarrow> (\<forall>n k. 0 < n \<longrightarrow> (case sys_recv K s n k of
      (Received bs, k') \<Rightarrow> bs \<noteq> [] \<and> length bs \<le> n \<and> avail k = bs @ avail k' \<and> waits k' \<le> waits k
    | (Recv_failed err, k') \<Rightarrow> err = EAGAIN \<and> avail k' = avail k \<and> (avail k \<noteq> [] \<longrightarrow> waits k' < waits k)))"

text \<open>The functions of the socket layer as the operations of the packet layer; a fault stays.\<close>

definition over_outcome :: "'r \<Rightarrow> ('s \<Rightarrow> ('r \<times> 's) outcome) \<Rightarrow> 's outcome \<Rightarrow> 'r \<times> 's outcome" where
  "over_outcome fail f n = (case obind n f of
     Done (r, s) \<Rightarrow> (r, Done s) | Stuck \<Rightarrow> (fail, Stuck) | Fault \<Rightarrow> (fail, Fault))"

definition socket_net :: "('k, 'a) kernel \<Rightarrow> heap_junk \<Rightarrow> int \<Rightarrow> 'k sockets outcome net_ops \<Rightarrow> 'k sockets outcome net_ops" where
  "socket_net K junk s env = env
     \<lparr>getch := (\<lambda>n. let ((rc, c), n) = over_outcome (SOCKET_ERROR, 0)
          (\<lambda>st. obind (Socket_getch K junk s st) (\<lambda>(rc, c, st). Done ((rc, c), st))) n in (rc, c, n)),
      getdata := (\<lambda>bytes. over_outcome (None, 0) (Socket_getdata K junk s bytes)),
      putdatas := (\<lambda>buf0 bufs. over_outcome SOCKET_ERROR
          (Socket_putdatas K s buf0 bufs (map (\<lambda>_. False) bufs)))\<rparr>"

definition socket_holds :: "('k, 'a) kernel \<Rightarrow> heap_junk \<Rightarrow> int \<Rightarrow> ('k \<Rightarrow> u8 list) \<Rightarrow> ('k \<Rightarrow> nat) \<Rightarrow> u8 list \<Rightarrow> nat \<Rightarrow> u8 list
    \<Rightarrow> 'k sockets outcome \<Rightarrow> bool" where
  "socket_holds K junk s avail waits hs k dat n \<longleftrightarrow> stream_kernel K s avail waits \<and> junk_ok junk \<and> s \<noteq> 0
     \<and> (\<exists>st ref. n = Done st \<and> kept s ref hs k dat (sbuf st))"

definition socket_ahead :: "('k \<Rightarrow> u8 list) \<Rightarrow> 'k sockets outcome \<Rightarrow> u8 list" where
  "socket_ahead avail n = (case n of Done st \<Rightarrow> avail (os st) | _ \<Rightarrow> [])"

definition socket_left :: "('k \<Rightarrow> u8 list) \<Rightarrow> ('k \<Rightarrow> nat) \<Rightarrow> 'k sockets outcome \<Rightarrow> nat" where
  "socket_left avail waits n = (case n of Done st \<Rightarrow> length (avail (os st)) + waits (os st) | _ \<Rightarrow> 0)"

lemma stream_kernel_cases [consumes 2, case_names data again]:
  assumes "stream_kernel K s avail waits" "0 < n"
  obtains (data) bs k' where "sys_recv K s n k = (Received bs, k')" "bs \<noteq> []" "length bs \<le> n" "avail k = bs @ avail k'"
      "waits k' \<le> waits k"
  | (again) k' where "sys_recv K s n k = (Recv_failed EAGAIN, k')" "avail k' = avail k"
      "avail k \<noteq> [] \<longrightarrow> waits k' < waits k"
proof (cases "sys_recv K s n k")
  case (Pair r k')
  then have *: "case (r, k') of
        (Received bs, k') \<Rightarrow> bs \<noteq> [] \<and> length bs \<le> n \<and> avail k = bs @ avail k' \<and> waits k' \<le> waits k
      | (Recv_failed err, k') \<Rightarrow> err = EAGAIN \<and> avail k' = avail k \<and> (avail k \<noteq> [] \<longrightarrow> waits k' < waits k)"
    using assms(1) [unfolded stream_kernel_def, rule_format, OF assms(2), of k] by simp
  show ?thesis
    using Pair * data again by (cases r) auto
qed

lemma getch_again_socket:
  assumes "kept s ref hs k dat (sbuf st)" "k < length hs"
  shows "\<exists>sb'. Socket_getch K junk s st = Done (TCPSOCKET_COMPLETE, hs ! k, st\<lparr>sbuf := sb'\<rparr>)
    \<and> kept s ref hs (Suc k) dat sb'"
  using getQueuedChar_again [OF assms]
  by (auto simp: Socket_getch_def socketbuffer_codes socket_codes)

lemma getch_new_socket:
  assumes "kept s ref hs k [] (sbuf st)" "k = length hs" "k \<le> 4" "s \<noteq> 0" "junk_ok junk"
    and "stream_kernel K s avail waits"
  shows "(\<exists>st' ref'. Socket_getch K junk s st = Done (TCPSOCKET_INTERRUPTED, 0, st')
      \<and> kept s ref' hs 0 [] (sbuf st') \<and> avail (os st') = avail (os st)
      \<and> (avail (os st) \<noteq> [] \<longrightarrow> waits (os st') < waits (os st)))
    \<or> (\<exists>b st'. Socket_getch K junk s st = Done (TCPSOCKET_COMPLETE, b, st')
      \<and> kept s ref (hs @ [b]) (Suc k) [] (sbuf st') \<and> avail (os st) = b # avail (os st')
      \<and> waits (os st') \<le> waits (os st))"
proof -
  obtain sb where sb: "SocketBuffer_getQueuedChar s (sbuf st) = Done (SOCKETBUFFER_INTERRUPTED, 0, sb)"
    "kept s ref hs k [] sb"
    using getQueuedChar_end [OF assms(1-3)] by blast
  have "0 < (1 :: nat)"
    by simp
  with assms(6) show ?thesis
  proof (cases rule: stream_kernel_cases [where k = "os st"])
    case (data bs k')
    then obtain b where b: "bs = [b]"
      by (cases bs) auto
    from queueChar_kept [OF sb(2) assms(2-4)] obtain sb' where
      "SocketBuffer_queueChar s b sb = Done sb'" "kept s ref (hs @ [b]) (Suc k) [] sb'"
      by blast
    then show ?thesis
      using sb(1) data b by (simp add: Socket_getch_def on_os_def)
  next
    case (again k')
    obtain ref' where "kept s ref' hs 0 [] (SocketBuffer_interrupted junk s 0 sb)"
      using interrupted_kept [OF sb(2) assms(5,4), of "[]"] by auto
    then show ?thesis
      using sb(1) again by (auto simp: Socket_getch_def on_os_def EAGAIN_def EWOULDBLOCK_def)
  qed
qed

lemma getdata_none_socket:
  assumes "kept s ref hs k dat (sbuf st)" "s \<noteq> 0" "hs \<noteq> []"
  shows "\<exists>mem st'. Socket_getdata K junk s 0 st = Done ((Some mem, 0), st')
    \<and> kept s Def_queue [] 0 [] (sbuf st') \<and> os st' = os st"
  using complete_kept [OF assms]
  by (cases "SocketBuffer_complete s (sbuf st)") (auto simp: Socket_getdata_def)

lemma getdata_some_socket:
  assumes "kept s ref hs k dat (sbuf st)" "s \<noteq> 0" "hs \<noteq> []" "length dat < m" "junk_ok junk"
    and "stream_kernel K s avail waits"
  shows "(\<exists>mem dat' st' ref'. Socket_getdata K junk s (int m) st = Done ((Some mem, int (length dat')), st')
      \<and> length dat' < m \<and> kept s ref' hs 0 dat' (sbuf st') \<and> dat' @ avail (os st') = dat @ avail (os st)
      \<and> (avail (os st) \<noteq> [] \<longrightarrow> length (avail (os st')) + waits (os st') < length (avail (os st)) + waits (os st)))
    \<or> (\<exists>mem st' ref'. Socket_getdata K junk s (int m) st = Done ((Some mem, int m), st') \<and> m \<le> length mem
      \<and> kept s ref' [] 0 [] (sbuf st') \<and> take m mem @ avail (os st') = dat @ avail (os st))"
proof -
  have m: "0 < m" "m - length dat = nat (int m - int (length dat))" "0 < m - length dat"
    using assms(4) by simp_all
  obtain sb where sb: "SocketBuffer_getQueuedData junk s (int m) (sbuf st) = Done (ref, length dat, sb)"
    "kept s ref hs k dat sb" "m \<le> length (qbuf (get_queue ref sb))"
    "take (length dat) (qbuf (get_queue ref sb)) = dat"
    using getQueuedData_kept [OF assms(1) m(1) assms(4)] by blast
  let ?buf = "qbuf (get_queue ref sb)"
  from assms(6) m(3) show ?thesis
  proof (cases rule: stream_kernel_cases [where k = "os st"])
    case (again k')
    obtain ref' where "kept s ref' hs 0 dat (SocketBuffer_interrupted junk s (length dat) sb)"
      using interrupted_kept [OF sb(2) assms(5,2) _ sb(4)] sb(3) assms(3,4) by auto
    then show ?thesis
      using sb(1) again assms(4) m(1,2) by (auto simp: Socket_getdata_def on_os_def EAGAIN_def Let_def)
  next
    case (data bs k')
    let ?dat = "dat @ bs"
    let ?sb = "set_queue ref (\<lambda>q. q\<lparr>qbuf := blit (qbuf q) (length dat) bs\<rparr>) sb"
    let ?mem = "blit ?buf (length dat) bs"
    have fit: "length dat + length bs \<le> m" "length dat + length bs \<le> length ?buf"
      using data(3) sb(3) assms(4) by simp_all
    have mem: "length ?mem = length ?buf" "take (length dat) ?mem = dat" "take (length ?dat) ?mem = ?dat"
      using fit sb(4) by (simp_all add: take_blit_before take_blit)
    have get: "qbuf (get_queue ref ?sb) = ?mem"
      using sb(2) by (cases ref) (simp_all add: only_at_def)
    have "?sb = set_queue ref (\<lambda>q. q\<lparr>qbuf := ?mem\<rparr>) sb"
      by (cases ref) (simp_all add: cl_update_def)
    then have kept': "kept s ref hs k dat ?sb"
      using kept_qbuf [OF sb(2) mem(1,2)] by simp
    have run: "Socket_getdata K junk s (int m) st =
        (if length ?dat = m
         then Done ((Some ?mem, int m), st\<lparr>sbuf := snd (SocketBuffer_complete s ?sb), os := k'\<rparr>)
         else Done ((Some ?mem, int (length ?dat)),
                st\<lparr>sbuf := SocketBuffer_interrupted junk s (length ?dat) ?sb, os := k'\<rparr>))"
      using sb(1) data m fit get by (simp add: Socket_getdata_def on_os_def Let_def)
    show ?thesis
    proof (cases "length ?dat = m")
      case True
      moreover have "kept s Def_queue [] 0 [] (snd (SocketBuffer_complete s ?sb))"
        by (rule complete_kept [OF kept' assms(2,3)])
      ultimately show ?thesis
        using run data(4) mem(3) sb(3) mem(1) by (auto simp del: kept.simps)
    next
      case False
      obtain ref' where "kept s ref' hs 0 ?dat (SocketBuffer_interrupted junk s (length ?dat) ?sb)"
        using interrupted_kept [OF kept' assms(5,2), of ?dat] get mem fit assms(3) by auto
      moreover have "waits k' < length bs + waits (os st)"
        using data(2,5) by (cases bs) simp_all
      ultimately show ?thesis
        using run False data(4,5) fit by (intro disjI1) (auto simp del: kept.simps)
    qed
  qed
qed


interpretation sock: packet_source "socket_net K junk s env" "socket_holds K junk s avail waits" "socket_ahead avail"
    "socket_left avail waits"
  for K junk s env avail waits
proof (unfold_locales, goal_cases)
  case (1 hs k dat n)
  then obtain st ref where "n = Done st" "kept s ref hs k dat (sbuf st)"
    by (auto simp: socket_holds_def)
  then show ?case
    using 1 getch_again_socket [of s ref hs k dat st K junk]
    by (auto simp: socket_net_def socket_holds_def socket_ahead_def socket_left_def over_outcome_def simp del: kept.simps)
next
  case (2 hs k n)
  then obtain st ref where "n = Done st" "kept s ref hs k [] (sbuf st)" "stream_kernel K s avail waits" "junk_ok junk" "s \<noteq> 0"
    by (auto simp: socket_holds_def)
  then show ?case
    using 2 getch_new_socket [of s ref hs k st junk K avail waits]
    by (fastforce simp: socket_net_def socket_holds_def socket_ahead_def socket_left_def over_outcome_def simp del: kept.simps)
next
  case (3 hs k n)
  then obtain st ref where "n = Done st" "kept s ref hs k [] (sbuf st)" "s \<noteq> 0"
    by (auto simp: socket_holds_def)
  then show ?case
    using 3 getdata_none_socket [of s ref hs k "[]" st K junk]
    by (fastforce simp: socket_net_def socket_holds_def socket_ahead_def socket_left_def over_outcome_def simp del: kept.simps)
next
  case (4 hs k dat n m)
  then obtain st ref where "n = Done st" "kept s ref hs k dat (sbuf st)" "stream_kernel K s avail waits" "junk_ok junk" "s \<noteq> 0"
    by (auto simp: socket_holds_def)
  then show ?case
    using 4 getdata_some_socket [of s ref hs k dat st m junk K avail waits]
    by (fastforce simp: socket_net_def socket_holds_def socket_ahead_def socket_left_def over_outcome_def simp del: kept.simps)
qed


text \<open>Nothing of a packet is held for socket \<open>s\<close>.\<close>

definition idle_socket :: "int \<Rightarrow> socket_buffers \<Rightarrow> bool" where
  "idle_socket s sb \<longleftrightarrow> (\<forall>q \<in> set (items (queues sb)). q_socket q \<noteq> s) \<and> q_socket (def_queue sb) = 0
     \<and> datalen (def_queue sb) = 0 \<and> queue_ok (def_queue sb)"

lemma idle_kept: "idle_socket s sb \<longleftrightarrow> kept s Def_queue [] 0 [] sb"
  by (auto simp: idle_socket_def none_for_def)

lemma idle_initialize: "junk_ok junk \<Longrightarrow> idle_socket s (SocketBuffer_initialize junk sb)"
  by (simp add: idle_socket_def SocketBuffer_initialize_def SocketBuffer_newDefQ_def queue_ok_def junk_ok_def
      malloc_bytes_def Let_def)

lemma kept_idle: "kept s ref [] 0 [] sb \<Longrightarrow> idle_socket s sb"
  by (cases ref) (simp_all add: idle_socket_def none_for_def)


text \<open>
  A kernel that follows a script: each entry is a piece of the stream that arrives, an empty one is
  a moment without data.
\<close>

definition script_recv :: "nat \<Rightarrow> u8 list list \<Rightarrow> recv_result \<times> u8 list list" where
  "script_recv n es = (case es of
     [] \<Rightarrow> (Recv_failed EAGAIN, [])
   | e # es \<Rightarrow> if e = [] then (Recv_failed EAGAIN, es)
       else (Received (take n e), if length e \<le> n then es else drop n e # es))"

definition script_kernel :: "(u8 list list, unit) kernel" where
  "script_kernel =
     \<lparr>sys_recv = (\<lambda>_. script_recv), sys_writev = (\<lambda>_ vs k. (Written (length (concat vs)), k)),
      sys_select = (\<lambda>_ r w _ k. ((0, \<lambda>_. False, \<lambda>_. False), k)),
      sys_getfl = (\<lambda>_ k. (0, k)), sys_setfl = (\<lambda>_ _ k. (0, k)), sys_shutdown = (\<lambda>_ k. (0, k)),
      sys_close = (\<lambda>_ k. (0, k)), sys_getaddrinfo = (\<lambda>_ k. ((0, []), k)),
      sys_socket = (\<lambda>_ k. ((-1, 0), k)), sys_connect = (\<lambda>_ _ k. ((0, 0), k)), sys_errno = (\<lambda>_. 0),
      sys_so_error = (\<lambda>_ k. ((0, 0), k)), sys_usleep = (\<lambda>_ k. k)\<rparr>"

lemma script_is_stream:
  "stream_kernel script_kernel s concat (\<lambda>es. length (filter ((=) []) es))"
  by (auto simp: stream_kernel_def script_kernel_def script_recv_def split: list.split)

definition zero_junk :: heap_junk where
  "zero_junk = \<lparr>junk_queue = \<lparr>q_socket = 0, q_index = 0, headerlen = 7, fixed_header_bytes = replicate 5 0,
     buflen = 0, datalen = 0, qbuf = []\<rparr>, junk_byte = (\<lambda>_. 0)\<rparr>"

definition no_sockets :: "'k \<Rightarrow> 'k sockets" where
  "no_sockets k = Socket_outInitialize zero_junk
     \<lparr>sbuf = \<lparr>def_queue = junk_queue zero_junk, queues = cl_new, writes_list = cl_new\<rparr>,
      rset = FD_ZERO, rset_saved = FD_ZERO, wset = FD_ZERO, pending_wset = FD_ZERO, maxfdp1 = 0,
      clientsds = cl_new, cur_clientsds = None, connect_pending = cl_new, write_pending = cl_new,
      released = [], os = k\<rparr>"

definition env_zero :: "'k sockets outcome net_ops" where
  "env_zero = \<lparr>getch = (\<lambda>n. (SOCKET_ERROR, 0, n)), getdata = (\<lambda>_ n. ((None, 0), n)),
     putdatas = (\<lambda>_ _ n. (SOCKET_ERROR, n)), persist_put = (\<lambda>_ _ _ _ _ n. (0, n)),
     stamp_received = id, stamp_sent = id\<rparr>"

lemma no_sockets_idle: "idle_socket s (sbuf (no_sockets k))" "os (no_sockets k) = k"
  by (simp_all add: no_sockets_def Socket_outInitialize_def idle_initialize junk_ok_def zero_junk_def Let_def)


end
