(* ===== verification/Mqtt_State.thy ===== *)
theory Mqtt_State
  imports Socket_Read
begin

text \<open>
  The data of the protocol layer and what every operation on it shares: the clients and their
  message lists (\<^verbatim>\<open>mqtt/include/Clients.h\<close>), the state of \<^verbatim>\<open>mqtt/include/MQTTProtocol.h\<close>, the
  persistence interface (\<^verbatim>\<open>mqtt/include/MQTTClientPersistence.h\<close>) with the calls of
  \<^verbatim>\<open>mqtt/source/MQTTPersistence.c\<close> that store and remove one record, and the network of one client
  as the packet layer sees it.  A stored publication is a heap block with an address, so that a
  message whose publication has been released is a dangling pointer; a client is its position in the
  list of clients.
\<close>

type_synonym u32 = "32 word"

section \<open>Messages and publications\<close>

record publication =
  p_topic :: "u8 list"
  p_topiclen :: int
  p_payload :: "u8 list"
  p_payloadlen :: int
  refcount :: int

record messages =
  m_qos :: int
  m_retain :: bool
  m_msgid :: int
  m_publish :: nat
  lastTouch :: int
  nextMessageType :: int

record async_message =
  am_payload :: "u8 list"
  am_payloadlen :: int
  am_qos :: int
  am_retained :: int
  am_dup :: int
  am_msgid :: int

record qEntry =
  qe_msg :: async_message
  topicName :: "u8 list"
  topicLen :: int
  qe_seqno :: u32

definition messageIDCompare :: "int \<Rightarrow> messages \<Rightarrow> bool" where
  "messageIDCompare b msg \<longleftrightarrow> m_msgid msg = b"

section \<open>The persistence interface\<close>

text \<open>
  The functions a persistence implementation supplies, on its own state; a handle is a number, 0 the
  null pointer.  \<open>popen\<close>, which may fault, returns a code and the handle, \<open>pget\<close> a code and the data, \<open>pkeys\<close> a code
  and the keys.
\<close>

record 'p persistence =
  popen :: "u8 list \<Rightarrow> u8 list \<Rightarrow> 'p \<Rightarrow> ((int \<times> int) \<times> 'p) outcome"
  pclose :: "int \<Rightarrow> 'p \<Rightarrow> int \<times> 'p"
  pput :: "int \<Rightarrow> string \<Rightarrow> u8 list list \<Rightarrow> 'p \<Rightarrow> int \<times> 'p"
  pget :: "int \<Rightarrow> string \<Rightarrow> 'p \<Rightarrow> (int \<times> u8 list) \<times> 'p"
  premove :: "int \<Rightarrow> string \<Rightarrow> 'p \<Rightarrow> int \<times> 'p"
  pkeys :: "int \<Rightarrow> 'p \<Rightarrow> (int \<times> string list) \<times> 'p"
  pclear :: "int \<Rightarrow> 'p \<Rightarrow> int \<times> 'p"
  pcontainskey :: "int \<Rightarrow> string \<Rightarrow> 'p \<Rightarrow> int \<times> 'p"

definition MQTTCLIENT_PERSISTENCE_DEFAULT :: int where "MQTTCLIENT_PERSISTENCE_DEFAULT = 0"
definition MQTTCLIENT_PERSISTENCE_NONE :: int where "MQTTCLIENT_PERSISTENCE_NONE = 1"
definition MQTTCLIENT_PERSISTENCE_USER :: int where "MQTTCLIENT_PERSISTENCE_USER = 2"
definition MQTTCLIENT_PERSISTENCE_ERROR :: int where "MQTTCLIENT_PERSISTENCE_ERROR = -2"

definition PERSISTENCE_PUBLISH_SENT :: string where "PERSISTENCE_PUBLISH_SENT = ''s-''"
definition PERSISTENCE_PUBREL :: string where "PERSISTENCE_PUBREL = ''sc-''"
definition PERSISTENCE_PUBLISH_RECEIVED :: string where "PERSISTENCE_PUBLISH_RECEIVED = ''r-''"
definition PERSISTENCE_COMMAND_KEY :: string where "PERSISTENCE_COMMAND_KEY = ''c-''"
definition PERSISTENCE_QUEUE_KEY :: string where "PERSISTENCE_QUEUE_KEY = ''q-''"
definition PERSISTENCE_MAX_KEY_LENGTH :: nat where "PERSISTENCE_MAX_KEY_LENGTH = 8"
definition MESSAGE_FILENAME_LENGTH :: nat where "MESSAGE_FILENAME_LENGTH = 8"

lemmas persistence_keys = PERSISTENCE_PUBLISH_SENT_def PERSISTENCE_PUBREL_def PERSISTENCE_PUBLISH_RECEIVED_def
  PERSISTENCE_COMMAND_KEY_def PERSISTENCE_QUEUE_KEY_def

section \<open>The clients and the state\<close>

record 'p client = client_ids +
  connected :: bool
  good :: bool
  ping_outstanding :: bool
  connect_state :: int
  net_socket :: int
  lastSent :: int
  lastReceived :: int
  msgID :: int
  retryInterval :: int
  maxInflightMessages :: int
  inboundMsgs :: "messages clist"
  outboundMsgs :: "messages clist"
  messageQueue :: "qEntry clist"
  qentry_seqno :: u32
  phandle :: int
  persistence_of :: "'p persistence option"
  MQTTVersion :: int

text \<open>
  The commands the application and the library queue, with the arguments of each.  The server URIs of a
  connect command are an array in the heap that copies of the command share; \<open>No_details\<close> is a union of
  zero bytes.
\<close>

record conn_details =
  conn_timeout :: int
  serverURIcount :: nat
  serverURIs :: nat
  currentURI :: nat
  conn_version :: int

datatype command_details =
  No_details
| Sub "(u8 list \<times> u8) list"
| Unsub "u8 list list"
| Pub "u8 list option" "u8 list" int int
| Dis bool int
| Conn conn_details

text \<open>
  What the callbacks of the application get; a callback is a change of the application's state.  A null
  pointer in the place of the data is \<open>None\<close>.
\<close>

datatype success_data =
  Pub_data int "u8 list option" "u8 list" int int
| Sub_data int "u8 list"
| Conn_data "u8 list" int bool

record failure_data =
  fail_token :: int
  fail_code :: int

record 'u command =
  cmd_type :: msgTypes
  on_success :: "(success_data option \<Rightarrow> 'u \<Rightarrow> 'u) option"
  on_failure :: "(failure_data option \<Rightarrow> 'u \<Rightarrow> 'u) option"
  cmd_token :: int
  start_time :: int
  details :: command_details

definition zero_command :: "'u command" where
  "zero_command = \<lparr>cmd_type = RESERVED, on_success = None, on_failure = None, cmd_token = 0, start_time = 0,
     details = No_details\<rparr>"

text \<open>A queued command is a heap block at \<open>cmd_addr\<close>.\<close>

record 'u queued_command = "'u command" +
  cmd_client :: nat
  cmd_seqno :: u32
  cmd_addr :: nat

record 'u async_handle =
  h_client :: nat
  msg_arrived :: "(u8 list \<Rightarrow> int \<Rightarrow> async_message \<Rightarrow> 'u \<Rightarrow> int \<times> 'u) option"
  conn_lost :: "('u \<Rightarrow> 'u) option"
  delivery_complete :: "(int \<Rightarrow> 'u \<Rightarrow> 'u) option"
  h_serverURI :: "u8 list"
  h_connect :: "'u command"
  h_disconnect :: "'u command"
  pending_write :: "nat option"
  responses :: "'u queued_command clist"
  command_seqno :: u32

text \<open>
  \<open>heap_pubs\<close> holds the live publications by address and \<open>stored\<close> is the list \<open>state.publications\<close>
  of their addresses; \<open>next_pub\<close> is an address that has not been used.  \<open>heap_uris\<close> holds the arrays of
  server URIs, \<open>next_addr\<close> an address that no array and no queued command has had.  The last two are the
  static variables of \<open>MQTTAsync_checkTimeouts\<close> and \<open>MQTTAsync_retry\<close>.
\<close>

record ('k, 'p, 'u) mqtt =
  clients :: "'p client clist"
  heap_pubs :: "nat \<Rightarrow> publication option"
  next_pub :: nat
  stored :: "nat clist"
  msgs_received :: u32
  msgs_sent :: u32
  pending_qos0 :: "(int \<times> nat) clist"
  commands :: "'u queued_command clist"
  handles :: "'u async_handle clist"
  socks :: "'k sockets"
  store :: 'p
  app :: 'u
  heap_uris :: "nat \<Rightarrow> u8 list list option"
  next_addr :: nat
  last_timeouts :: int
  last_retry :: int

text \<open>
  What lies outside: the kernel, the contents of fresh memory, \<open>time(2)\<close> and the millisecond clock.
\<close>

record ('k, 'a) env =
  kern :: "('k, 'a) kernel"
  fresh_bytes :: heap_junk
  fresh_message :: messages
  fresh_seqno :: u32
  time_of :: "'k \<Rightarrow> int"
  clock_of :: "'k \<Rightarrow> int"

definition client_at :: "nat \<Rightarrow> ('k, 'p, 'u) mqtt \<Rightarrow> 'p client" where
  "client_at i st = items (clients st) ! i"

definition upd_client :: "nat \<Rightarrow> ('p client \<Rightarrow> 'p client) \<Rightarrow> ('k, 'p, 'u) mqtt \<Rightarrow> ('k, 'p, 'u) mqtt" where
  "upd_client i f st = st\<lparr>clients := cl_update i f (clients st)\<rparr>"

definition clientIDCompare :: "u8 list \<Rightarrow> 'p client \<Rightarrow> bool" where
  "clientIDCompare b c \<longleftrightarrow> clientID c = b"

definition clientSocketCompare :: "int \<Rightarrow> 'p client \<Rightarrow> bool" where
  "clientSocketCompare b c \<longleftrightarrow> net_socket c = b"

text \<open>The handle of a client: the structure its pointer \<open>context\<close> points to.\<close>

definition handle_at :: "nat \<Rightarrow> ('k, 'p, 'u) mqtt \<Rightarrow> 'u async_handle" where
  "handle_at i st = hd (filter (\<lambda>h. h_client h = i) (items (handles st)))"

definition upd_handle :: "nat \<Rightarrow> ('u async_handle \<Rightarrow> 'u async_handle) \<Rightarrow> ('k, 'p, 'u) mqtt \<Rightarrow> ('k, 'p, 'u) mqtt" where
  "upd_handle i f st =
     st\<lparr>handles := (handles st)\<lparr>items := map (\<lambda>h. if h_client h = i then f h else h) (items (handles st))\<rparr>\<rparr>"

text \<open>\<open>ListFindItem(bstate->clients, &sock, clientSocketCompare)->content\<close>.\<close>

definition client_of :: "int \<Rightarrow> ('k, 'p, 'u) mqtt \<Rightarrow> (nat \<times> ('k, 'p, 'u) mqtt) outcome" where
  "client_of sock st =
     (case cl_find (clientSocketCompare sock) (clients st) of
        (None, _) \<Rightarrow> Fault
      | (Some i, cs) \<Rightarrow> Done (i, st\<lparr>clients := cs\<rparr>))"

section \<open>Storing and removing records\<close>

fun decimal_nat :: "nat \<Rightarrow> string" where
  "decimal_nat n = (if n < 10 then [char_of (48 + n)] else decimal_nat (n div 10) @ [char_of (48 + n mod 10)])"

declare decimal_nat.simps [simp del]

definition decimal :: "int \<Rightarrow> string" where
  "decimal n = (if n < 0 then CHR ''-'' # decimal_nat (nat (- n)) else decimal_nat (nat n))"

text \<open>\<open>sprintf(key, "%s%d", prefix, n)\<close> into a block of \<open>room\<close> bytes.\<close>

definition key_into :: "nat \<Rightarrow> string \<Rightarrow> int \<Rightarrow> string outcome" where
  "key_into room prefix n = (let key = prefix @ decimal n in check (length key < room) (Done key))"

text \<open>
  \<open>rc\<close> of the store.  The block for the key is uninitialised where no branch writes it; the calls in
  the sources always take one of the branches, anything else is a fault here.
\<close>

definition put_key :: "bool \<Rightarrow> nat \<Rightarrow> int \<Rightarrow> string outcome" where
  "put_key scr htype msgId =
     (if scr then key_into (MESSAGE_FILENAME_LENGTH + 1) PERSISTENCE_PUBLISH_RECEIVED msgId
      else if htype = msg_code PUBREL then key_into (MESSAGE_FILENAME_LENGTH + 1) PERSISTENCE_PUBREL msgId
      else if htype = msg_code PUBLISH then key_into (MESSAGE_FILENAME_LENGTH + 1) PERSISTENCE_PUBLISH_SENT msgId
      else Fault)"

definition MQTTPersistence_put ::
    "int \<Rightarrow> u8 list \<Rightarrow> u8 list list \<Rightarrow> nat \<Rightarrow> int \<Rightarrow> bool \<Rightarrow> ('k, 'p, 'u) mqtt \<Rightarrow> (int \<times> ('k, 'p, 'u) mqtt) outcome" where
  "MQTTPersistence_put socket buf0 buffers htype msgId scr st =
     obind (client_of socket st) (\<lambda>(i, st).
       let c = client_at i st in
       case persistence_of c of None \<Rightarrow> Done (0, st)
       | Some P \<Rightarrow> obind (put_key scr htype msgId) (\<lambda>key.
           let (rc, p) = pput P (phandle c) key (buf0 # buffers) (store st) in Done (rc, st\<lparr>store := p\<rparr>)))"

definition MQTTPersistence_remove ::
    "nat \<Rightarrow> string \<Rightarrow> int \<Rightarrow> int \<Rightarrow> ('k, 'p, 'u) mqtt \<Rightarrow> (int \<times> ('k, 'p, 'u) mqtt) outcome" where
  "MQTTPersistence_remove i type qos msgId st =
     (let c = client_at i st in
      case persistence_of c of None \<Rightarrow> Done (0, st)
      | Some P \<Rightarrow>
          if type = PERSISTENCE_PUBLISH_SENT \<and> qos = 2
          then obind (key_into (MESSAGE_FILENAME_LENGTH + 1) PERSISTENCE_PUBLISH_SENT msgId) (\<lambda>key.
               let (_, p) = premove P (phandle c) key (store st); st = st\<lparr>store := p\<rparr> in
               obind (key_into (MESSAGE_FILENAME_LENGTH + 1) PERSISTENCE_PUBREL msgId) (\<lambda>key.
                 let (rc, p) = premove P (phandle c) key (store st) in Done (rc, st\<lparr>store := p\<rparr>)))
          else obind (key_into (MESSAGE_FILENAME_LENGTH + 1) type msgId) (\<lambda>key.
               let (rc, p) = premove P (phandle c) key (store st) in Done (rc, st\<lparr>store := p\<rparr>)))"

definition MQTTPersistence_clear :: "nat \<Rightarrow> ('k, 'p, 'u) mqtt \<Rightarrow> int \<times> ('k, 'p, 'u) mqtt" where
  "MQTTPersistence_clear i st =
     (let c = client_at i st in
      case persistence_of c of None \<Rightarrow> (0, st)
      | Some P \<Rightarrow> let (rc, p) = pclear P (phandle c) (store st) in (rc, st\<lparr>store := p\<rparr>))"

definition MQTTPersistence_close :: "nat \<Rightarrow> ('k, 'p, 'u) mqtt \<Rightarrow> int \<times> ('k, 'p, 'u) mqtt" where
  "MQTTPersistence_close i st =
     (let c = client_at i st in
      case persistence_of c of None \<Rightarrow> (0, st)
      | Some P \<Rightarrow> let (rc, p) = pclose P (phandle c) (store st) in
          (rc, upd_client i (\<lambda>c. c\<lparr>phandle := 0, persistence_of := None\<rparr>) (st\<lparr>store := p\<rparr>)))"

text \<open>\<open>MQTTPersistence_create\<close>: \<open>default_files\<close> is the file system implementation, \<open>user\<close> the one behind \<open>pcontext\<close>, complete or null.\<close>

definition MQTTPersistence_create ::
    "int \<Rightarrow> 'p persistence \<Rightarrow> 'p persistence option \<Rightarrow> int \<times> 'p persistence option" where
  "MQTTPersistence_create type default_files user =
     (if type = MQTTCLIENT_PERSISTENCE_NONE then (0, None)
      else if type = MQTTCLIENT_PERSISTENCE_DEFAULT then (0, Some default_files)
      else if type = MQTTCLIENT_PERSISTENCE_USER
      then (if user = None then MQTTCLIENT_PERSISTENCE_ERROR else 0, user)
      else (MQTTCLIENT_PERSISTENCE_ERROR, None))"

section \<open>Queue entries\<close>

text \<open>An \<open>int\<close> as it lies in memory: four bytes, the lowest first.\<close>

definition int_bytes :: "int \<Rightarrow> u8 list" where
  "int_bytes n = map (\<lambda>k. of_int (n div 2 ^ (8 * k))) [0..<4]"

definition MQTTPersistence_persistQueueEntry ::
    "nat \<Rightarrow> qEntry \<Rightarrow> ('k, 'p, 'u) mqtt \<Rightarrow> (int \<times> qEntry \<times> ('k, 'p, 'u) mqtt) outcome" where
  "MQTTPersistence_persistQueueEntry i qe st =
     (let m = qe_msg qe;
          bufs = [int_bytes (am_payloadlen m), take (nat (am_payloadlen m)) (am_payload m), int_bytes (am_qos m),
            int_bytes (am_retained m), int_bytes (am_dup m), int_bytes (am_msgid m), topicName qe @ [0],
            int_bytes (topicLen qe)];
          st = upd_client i (\<lambda>c. c\<lparr>qentry_seqno := qentry_seqno c + 1\<rparr>) st;
          c = client_at i st in
      obind (key_into (PERSISTENCE_MAX_KEY_LENGTH + 1) PERSISTENCE_QUEUE_KEY (sint (qentry_seqno c))) (\<lambda>key.
        let qe = qe\<lparr>qe_seqno := qentry_seqno c\<rparr> in
        case persistence_of c of None \<Rightarrow> Fault
        | Some P \<Rightarrow> let (rc, p) = pput P (phandle c) key bufs (store st) in Done (rc, qe, st\<lparr>store := p\<rparr>)))"

definition MQTTPersistence_unpersistQueueEntry ::
    "nat \<Rightarrow> qEntry \<Rightarrow> ('k, 'p, 'u) mqtt \<Rightarrow> (int \<times> ('k, 'p, 'u) mqtt) outcome" where
  "MQTTPersistence_unpersistQueueEntry i qe st =
     obind (key_into (PERSISTENCE_MAX_KEY_LENGTH + 1) PERSISTENCE_QUEUE_KEY (sint (qe_seqno qe))) (\<lambda>key.
       let c = client_at i st in
       case persistence_of c of None \<Rightarrow> Fault
       | Some P \<Rightarrow> let (rc, p) = premove P (phandle c) key (store st) in Done (rc, st\<lparr>store := p\<rparr>))"

section \<open>The network of a client\<close>

text \<open>
  The operations of the packet layer for the client at position \<open>i\<close>: reading and writing on its
  socket, the record of a packet that is sent, and the times of the last packets.
\<close>

definition on_socks :: "('k sockets \<Rightarrow> ('r \<times> 'k sockets) outcome) \<Rightarrow> ('k, 'p, 'u) mqtt \<Rightarrow> ('r \<times> ('k, 'p, 'u) mqtt) outcome" where
  "on_socks f st = obind (f (socks st)) (\<lambda>(r, s). Done (r, st\<lparr>socks := s\<rparr>))"

definition now :: "('k, 'a) env \<Rightarrow> ('k, 'p, 'u) mqtt \<Rightarrow> int" where
  "now E st = time_of E (os (socks st))"

definition client_net :: "('k, 'a) env \<Rightarrow> nat \<Rightarrow> ('k, 'p, 'u) mqtt outcome net_ops" where
  "client_net E i =
     \<lparr>getch = (\<lambda>n. let ((rc, c), n) = over_outcome (SOCKET_ERROR, 0) (\<lambda>st. on_socks (\<lambda>s.
          obind (Socket_getch (kern E) (fresh_bytes E) (net_socket (client_at i st)) s) (\<lambda>(rc, c, s). Done ((rc, c), s))) st) n
        in (rc, c, n)),
      getdata = (\<lambda>bytes. over_outcome (None, 0) (\<lambda>st.
        on_socks (Socket_getdata (kern E) (fresh_bytes E) (net_socket (client_at i st)) bytes) st)),
      putdatas = (\<lambda>buf0 bufs. over_outcome SOCKET_ERROR (\<lambda>st.
        on_socks (Socket_putdatas (kern E) (net_socket (client_at i st)) buf0 bufs (map (\<lambda>_. False) bufs)) st)),
      persist_put = (\<lambda>buf0 bufs htype msgId scr. over_outcome 0 (\<lambda>st.
        MQTTPersistence_put (net_socket (client_at i st)) buf0 bufs htype msgId scr st)),
      stamp_received = (\<lambda>n. obind n (\<lambda>st. Done (upd_client i (\<lambda>c. c\<lparr>lastReceived := now E st\<rparr>) st))),
      stamp_sent = (\<lambda>n. obind n (\<lambda>st. Done (upd_client i (\<lambda>c. c\<lparr>lastSent := now E st\<rparr>) st)))\<rparr>"

text \<open>Run an operation of the packet layer.\<close>

definition with_net ::
    "(('k, 'p, 'u) mqtt outcome net_ops \<Rightarrow> ('k, 'p, 'u) mqtt outcome \<Rightarrow> ('r \<times> ('k, 'p, 'u) mqtt outcome) outcome)
      \<Rightarrow> ('k, 'a) env \<Rightarrow> nat \<Rightarrow> ('k, 'p, 'u) mqtt \<Rightarrow> ('r \<times> ('k, 'p, 'u) mqtt) outcome" where
  "with_net f E i st = obind (f (client_net E i) (Done st)) (\<lambda>(r, n). obind n (\<lambda>st. Done (r, st)))"

end
