(* ===== verification/Mqtt_Protocol.thy ===== *)
theory Mqtt_Protocol
  imports Mqtt_State
begin

text \<open>
  The protocol exchanges of the client, \<^verbatim>\<open>mqtt/source/MQTTProtocolClient.c\<close> and
  \<^verbatim>\<open>mqtt/source/MQTTProtocolOut.c\<close>, with the functions of \<^verbatim>\<open>mqtt/source/MQTTAsync.c\<close> they call back:
  delivery to the application, closing a session, and the clean-up after writes.
\<close>

section \<open>Message identifiers\<close>

definition MAX_MSG_ID :: int where "MAX_MSG_ID = 65535"

definition next_id :: "int \<Rightarrow> int" where
  "next_id msgid = (if msgid = MAX_MSG_ID then 1 else msgid + 1)"

partial_function (option) assign_loop :: "int \<Rightarrow> int \<Rightarrow> messages clist \<Rightarrow> (int \<times> messages clist) outcome option" where
  "assign_loop start msgid l =
     (case cl_find (messageIDCompare msgid) l of
        (None, l) \<Rightarrow> Some (Done (msgid, l))
      | (Some _, l) \<Rightarrow>
          if next_id msgid = start then Some (Done (0, l)) else assign_loop start (next_id msgid) l)"

definition MQTTProtocol_assignMsgId :: "'p client \<Rightarrow> (int \<times> 'p client) outcome" where
  "MQTTProtocol_assignMsgId c =
     obind (run_loop (assign_loop (msgID c) (next_id (msgID c)) (outboundMsgs c))) (\<lambda>(msgid, l).
       let c = c\<lparr>outboundMsgs := l\<rparr> in Done (msgid, if msgid \<noteq> 0 then c\<lparr>msgID := msgid\<rparr> else c))"

section \<open>Stored publications\<close>

text \<open>
  The topic is shared with the packet when it is a tracked block and copied otherwise; the bytes are
  the same.  The payload is copied: \<open>memcpy\<close> faults where the payload is shorter than its length.
\<close>

definition MQTTProtocol_storePublication :: "publish \<Rightarrow> ('k, 'p, 'u) mqtt \<Rightarrow> (nat \<times> ('k, 'p, 'u) mqtt) outcome" where
  "MQTTProtocol_storePublication p st =
     check (0 \<le> pub_payloadlen p \<and> nat (pub_payloadlen p) \<le> length (pub_payload p))
       (let a = next_pub st;
            stored_pub = \<lparr>p_topic = pub_topic p, p_topiclen = pub_topiclen p,
              p_payload = take (nat (pub_payloadlen p)) (pub_payload p), p_payloadlen = pub_payloadlen p, refcount = 1\<rparr> in
        Done (a, st\<lparr>heap_pubs := (heap_pubs st)(a \<mapsto> stored_pub), next_pub := a + 1, stored := cl_append a (stored st)\<rparr>))"

text \<open>\<open>ListRemove(&(state.publications), p)\<close>: the block is released when it is in the list.\<close>

definition remove_stored :: "nat \<Rightarrow> ('k, 'p, 'u) mqtt \<Rightarrow> ('k, 'p, 'u) mqtt" where
  "remove_stored a st =
     (let (found, l) = cl_unlink ((=) a) (stored st) in
      st\<lparr>stored := l, heap_pubs := (if found then (heap_pubs st)(a := None) else heap_pubs st)\<rparr>)"

definition MQTTProtocol_removePublication :: "nat \<Rightarrow> ('k, 'p, 'u) mqtt \<Rightarrow> ('k, 'p, 'u) mqtt outcome" where
  "MQTTProtocol_removePublication a st =
     (case heap_pubs st a of None \<Rightarrow> Fault
      | Some p \<Rightarrow>
          (let st = st\<lparr>heap_pubs := (heap_pubs st)(a \<mapsto> p\<lparr>refcount := refcount p - 1\<rparr>)\<rparr> in
           if refcount p - 1 = 0 then Done (remove_stored a st) else Done st))"

section \<open>Publishing\<close>

definition MQTTProtocol_storeQoS0 :: "nat \<Rightarrow> publish \<Rightarrow> ('k, 'p, 'u) mqtt \<Rightarrow> ('k, 'p, 'u) mqtt outcome" where
  "MQTTProtocol_storeQoS0 i p st =
     obind (MQTTProtocol_storePublication p st) (\<lambda>(a, st).
       let sock = net_socket (client_at i st);
           st = st\<lparr>pending_qos0 := cl_append (sock, a) (pending_qos0 st)\<rparr> in
       case heap_pubs st a of None \<Rightarrow> Fault
       | Some sp \<Rightarrow> obind (SocketBuffer_updateWrite sock (p_topic sp) (p_payload sp) (sbuf (socks st))) (\<lambda>(_, sb).
           Done (st\<lparr>socks := (socks st)\<lparr>sbuf := sb\<rparr>\<rparr>)))"

definition send_publish ::
    "('k, 'a) env \<Rightarrow> nat \<Rightarrow> publish \<Rightarrow> bool \<Rightarrow> int \<Rightarrow> bool \<Rightarrow> ('k, 'p, 'u) mqtt \<Rightarrow> (int \<times> ('k, 'p, 'u) mqtt) outcome" where
  "send_publish E i p dup qos retained st =
     check (0 \<le> pub_payloadlen p \<and> nat (pub_payloadlen p) \<le> length (pub_payload p))
       (with_net (MQTTPacket_send_publish (pub_topic p) (take (nat (pub_payloadlen p)) (pub_payload p)) (pub_msgId p) dup
          (nat qos) retained) E i st)"

definition MQTTProtocol_startPublishCommon ::
    "('k, 'a) env \<Rightarrow> nat \<Rightarrow> publish \<Rightarrow> int \<Rightarrow> bool \<Rightarrow> ('k, 'p, 'u) mqtt \<Rightarrow> (int \<times> ('k, 'p, 'u) mqtt) outcome" where
  "MQTTProtocol_startPublishCommon E i p qos retained st =
     obind (send_publish E i p False qos retained st) (\<lambda>(rc, st).
       if qos = 0 \<and> rc = TCPSOCKET_INTERRUPTED
       then obind (MQTTProtocol_storeQoS0 i p st) (\<lambda>st. Done (rc, st))
       else Done (rc, st))"

text \<open>
  \<open>mm\<close> is the publication of the message that \<open>*mm\<close> points to, if there is one.  The type of the next
  message stays unset unless the quality of service is 2.
\<close>

definition MQTTProtocol_createMessage ::
    "('k, 'a) env \<Rightarrow> publish \<Rightarrow> nat option \<Rightarrow> int \<Rightarrow> bool \<Rightarrow> ('k, 'p, 'u) mqtt \<Rightarrow> (messages \<times> ('k, 'p, 'u) mqtt) outcome" where
  "MQTTProtocol_createMessage E p mm qos retained st =
     obind (case mm of
        None \<Rightarrow> MQTTProtocol_storePublication p st
      | Some a \<Rightarrow> (case heap_pubs st a of None \<Rightarrow> Fault
          | Some sp \<Rightarrow> Done (a, st\<lparr>heap_pubs := (heap_pubs st)(a \<mapsto> sp\<lparr>refcount := refcount sp + 1\<rparr>)\<rparr>)))
       (\<lambda>(a, st).
         let m = (fresh_message E)\<lparr>m_publish := a, m_msgid := pub_msgId p, m_qos := qos, m_retain := retained,
                   lastTouch := now E st\<rparr> in
         Done (if qos = 2 then m\<lparr>nextMessageType := int (msg_code PUBREC)\<rparr> else m, st))"

definition MQTTProtocol_startPublish ::
    "('k, 'a) env \<Rightarrow> nat \<Rightarrow> publish \<Rightarrow> int \<Rightarrow> bool \<Rightarrow> nat option \<Rightarrow> ('k, 'p, 'u) mqtt
      \<Rightarrow> (int \<times> messages option \<times> ('k, 'p, 'u) mqtt) outcome" where
  "MQTTProtocol_startPublish E i p qos retained mm st =
     (if 0 < qos
      then obind (MQTTProtocol_createMessage E p mm qos retained st) (\<lambda>(m, st).
        let st = upd_client i (\<lambda>c. c\<lparr>outboundMsgs := cl_append m (outboundMsgs c)\<rparr>) st in
        case heap_pubs st (m_publish m) of None \<Rightarrow> Fault
        | Some sp \<Rightarrow>
            obind (MQTTProtocol_startPublishCommon E i (p\<lparr>pub_payload := p_payload sp, pub_topic := p_topic sp\<rparr>) qos retained st)
              (\<lambda>(rc, st). Done (rc, Some m, st)))
      else obind (MQTTProtocol_startPublishCommon E i p qos retained st) (\<lambda>(rc, st). Done (rc, None, st)))"

section \<open>Delivery to the application\<close>

definition MQTTAsync_deliverMessage ::
    "(u8 list \<Rightarrow> int \<Rightarrow> async_message \<Rightarrow> 'u \<Rightarrow> int \<times> 'u) \<Rightarrow> u8 list \<Rightarrow> int \<Rightarrow> async_message
      \<Rightarrow> ('k, 'p, 'u) mqtt \<Rightarrow> int \<times> ('k, 'p, 'u) mqtt" where
  "MQTTAsync_deliverMessage ma topic tlen mm st =
     (let (rc, u) = ma topic tlen mm (app st) in (rc, st\<lparr>app := u\<rparr>))"

text \<open>The message the application gets; the payload of a QoS 2 publication is handed over, others are copied.\<close>

definition publication_message :: "publish \<Rightarrow> async_message" where
  "publication_message p =
     (let qos = header_qos (pub_header p) in
      \<lparr>am_payload = (if qos = 2 then pub_payload p else take (nat (pub_payloadlen p)) (pub_payload p)),
       am_payloadlen = pub_payloadlen p, am_qos = int qos,
       am_retained = (if header_retain (pub_header p) then 1 else 0),
       am_dup = (if qos = 2 then 0 else if header_dup (pub_header p) then 1 else 0),
       am_msgid = pub_msgId p\<rparr>)"

text \<open>Delivery when no message is queued before and the client is connected: 0 means not delivered.\<close>

definition try_deliver :: "publish \<Rightarrow> async_message \<Rightarrow> nat \<Rightarrow> ('k, 'p, 'u) mqtt \<Rightarrow> int \<times> ('k, 'p, 'u) mqtt" where
  "try_deliver p mm i st =
     (if items (messageQueue (client_at i st)) = [] \<and> connected (client_at i st)
      then case cl_find (\<lambda>h. h_client h = i) (handles st) of
          (None, _) \<Rightarrow> (0, st)
        | (Some k, hs) \<Rightarrow>
            (let st = st\<lparr>handles := hs\<rparr> in
             case msg_arrived (items hs ! k) of None \<Rightarrow> (0, st)
             | Some ma \<Rightarrow> MQTTAsync_deliverMessage ma (pub_topic p) (pub_topiclen p) mm st)
      else (0, st))"

definition Protocol_processPublication ::
    "('k, 'a) env \<Rightarrow> publish \<Rightarrow> nat \<Rightarrow> ('k, 'p, 'u) mqtt \<Rightarrow> ('k, 'p, 'u) mqtt outcome" where
  "Protocol_processPublication E p i st =
     check (header_qos (pub_header p) = 2 \<or> 0 \<le> pub_payloadlen p \<and> nat (pub_payloadlen p) \<le> length (pub_payload p))
       (let mm = publication_message p; (rc, st) = try_deliver p mm i st in
        if rc = 0
        then let qe = \<lparr>qe_msg = mm, topicName = pub_topic p, topicLen = pub_topiclen p, qe_seqno = fresh_seqno E\<rparr> in
             obind (case persistence_of (client_at i st) of
                 None \<Rightarrow> Done (qe, st)
               | Some _ \<Rightarrow> obind (MQTTPersistence_persistQueueEntry i qe st) (\<lambda>(_, qe, st). Done (qe, st)))
               (\<lambda>(qe, st). Done (upd_client i (\<lambda>c. c\<lparr>messageQueue := cl_append qe (messageQueue c)\<rparr>) st))
        else Done st)"

section \<open>The handlers of incoming packets\<close>

definition MQTTProtocol_handlePublishes ::
    "('k, 'a) env \<Rightarrow> publish \<Rightarrow> int \<Rightarrow> ('k, 'p, 'u) mqtt \<Rightarrow> (int \<times> ('k, 'p, 'u) mqtt) outcome" where
  "MQTTProtocol_handlePublishes E p sock st =
     obind (client_of sock st) (\<lambda>(i, st).
       let qos = header_qos (pub_header p) in
       if qos = 0
       then obind (Protocol_processPublication E p i st) (\<lambda>st. Done (TCPSOCKET_COMPLETE, st))
       else if qos = 1
       then obind (with_net (MQTTPacket_send_puback (pub_msgId p)) E i st) (\<lambda>(rc, st).
            obind (Protocol_processPublication E p i st) (\<lambda>st. Done (rc, st)))
       else if qos = 2
       then obind (MQTTProtocol_storePublication p st) (\<lambda>(a, st).
            let m = (fresh_message E)\<lparr>m_publish := a, m_msgid := pub_msgId p, m_qos := int qos,
                      m_retain := header_retain (pub_header p), nextMessageType := int (msg_code PUBREL)\<rparr>;
                (found, l) = cl_find (messageIDCompare (m_msgid m)) (inboundMsgs (client_at i st)) in
            obind (case found of
                Some k \<Rightarrow> obind (MQTTProtocol_removePublication (m_publish (items l ! k)) st) (\<lambda>st.
                  Done (upd_client i (\<lambda>c. c\<lparr>inboundMsgs := cl_delete (Suc k) (cl_insert m k l)\<rparr>) st))
              | None \<Rightarrow> Done (upd_client i (\<lambda>c. c\<lparr>inboundMsgs := cl_append m l\<rparr>) st))
              (with_net (MQTTPacket_send_pubrec (pub_msgId p)) E i))
       else Done (TCPSOCKET_COMPLETE, st))"

definition MQTTProtocol_handlePubacks ::
    "('k, 'a) env \<Rightarrow> ack \<Rightarrow> int \<Rightarrow> ('k, 'p, 'u) mqtt \<Rightarrow> (int \<times> ('k, 'p, 'u) mqtt) outcome" where
  "MQTTProtocol_handlePubacks E pack sock st =
     obind (client_of sock st) (\<lambda>(i, st).
       let (found, l) = cl_find (messageIDCompare (ack_msgId pack)) (outboundMsgs (client_at i st));
           st = upd_client i (\<lambda>c. c\<lparr>outboundMsgs := l\<rparr>) st in
       case found of None \<Rightarrow> Done (TCPSOCKET_COMPLETE, st)
       | Some k \<Rightarrow>
           let m = items l ! k in
           if m_qos m \<noteq> 1 then Done (TCPSOCKET_COMPLETE, st)
           else obind (MQTTPersistence_remove i PERSISTENCE_PUBLISH_SENT (m_qos m) (ack_msgId pack) st) (\<lambda>(rc, st).
                obind (MQTTProtocol_removePublication (m_publish m) st) (\<lambda>st.
                  Done (rc, upd_client i (\<lambda>c. c\<lparr>outboundMsgs := cl_delete k (outboundMsgs c)\<rparr>) st))))"

definition MQTTProtocol_handlePubrecs ::
    "('k, 'a) env \<Rightarrow> ack \<Rightarrow> int \<Rightarrow> ('k, 'p, 'u) mqtt \<Rightarrow> (int \<times> ('k, 'p, 'u) mqtt) outcome" where
  "MQTTProtocol_handlePubrecs E pack sock st =
     obind (client_of sock st) (\<lambda>(i, st).
       let (found, l) = cl_find (messageIDCompare (ack_msgId pack)) ((outboundMsgs (client_at i st))\<lparr>cursor := None\<rparr>);
           st = upd_client i (\<lambda>c. c\<lparr>outboundMsgs := l\<rparr>) st in
       case found of None \<Rightarrow> Done (TCPSOCKET_COMPLETE, st)
       | Some k \<Rightarrow>
           let m = items l ! k in
           if m_qos m \<noteq> 2 then Done (TCPSOCKET_COMPLETE, st)
           else if nextMessageType m \<noteq> int (msg_code PUBREC) then Done (TCPSOCKET_COMPLETE, st)
           else obind (with_net (MQTTPacket_send_pubrel (ack_msgId pack) False) E i st) (\<lambda>(rc, st).
                Done (rc, upd_client i (\<lambda>c. c\<lparr>outboundMsgs := cl_update k
                  (\<lambda>m. m\<lparr>nextMessageType := int (msg_code PUBCOMP), lastTouch := now E st\<rparr>) (outboundMsgs c)\<rparr>) st)))"

definition MQTTProtocol_handlePubrels ::
    "('k, 'a) env \<Rightarrow> ack \<Rightarrow> int \<Rightarrow> ('k, 'p, 'u) mqtt \<Rightarrow> (int \<times> ('k, 'p, 'u) mqtt) outcome" where
  "MQTTProtocol_handlePubrels E pack sock st =
     obind (client_of sock st) (\<lambda>(i, st).
       let (found, l) = cl_find (messageIDCompare (ack_msgId pack)) (inboundMsgs (client_at i st));
           st = upd_client i (\<lambda>c. c\<lparr>inboundMsgs := l\<rparr>) st in
       case found of
         None \<Rightarrow>
           if \<not> header_dup (ack_header pack) then Done (TCPSOCKET_COMPLETE, st)
           else with_net (MQTTPacket_send_pubcomp (ack_msgId pack)) E i st
       | Some k \<Rightarrow>
           let m = items l ! k in
           if m_qos m \<noteq> 2 then Done (TCPSOCKET_COMPLETE, st)
           else if nextMessageType m \<noteq> int (msg_code PUBREL) then Done (TCPSOCKET_COMPLETE, st)
           else obind (with_net (MQTTPacket_send_pubcomp (ack_msgId pack)) E i st) (\<lambda>(rc, st).
             case heap_pubs st (m_publish m) of None \<Rightarrow> Fault
             | Some sp \<Rightarrow>
                 let p = \<lparr>pub_header = header_byte 0 False (nat (m_qos m)) (m_retain m), pub_topic = p_topic sp,
                       pub_topiclen = p_topiclen sp, pub_msgId = m_msgid m, pub_payload = p_payload sp,
                       pub_payloadlen = p_payloadlen sp\<rparr> in
                 obind (Protocol_processPublication E p i st) (\<lambda>st.
                 obind (MQTTPersistence_remove i PERSISTENCE_PUBLISH_RECEIVED (m_qos m) (ack_msgId pack) st) (\<lambda>(rc1, st).
                   let st = remove_stored (m_publish m) st;
                       st = upd_client i (\<lambda>c. c\<lparr>inboundMsgs := cl_delete k (inboundMsgs c)\<rparr>) st in
                   Done (rc + rc1, st\<lparr>msgs_received := msgs_received st + 1\<rparr>)))))"

definition MQTTProtocol_handlePubcomps ::
    "('k, 'a) env \<Rightarrow> ack \<Rightarrow> int \<Rightarrow> ('k, 'p, 'u) mqtt \<Rightarrow> (int \<times> ('k, 'p, 'u) mqtt) outcome" where
  "MQTTProtocol_handlePubcomps E pack sock st =
     obind (client_of sock st) (\<lambda>(i, st).
       let (found, l) = cl_find (messageIDCompare (ack_msgId pack)) (outboundMsgs (client_at i st));
           st = upd_client i (\<lambda>c. c\<lparr>outboundMsgs := l\<rparr>) st in
       case found of None \<Rightarrow> Done (TCPSOCKET_COMPLETE, st)
       | Some k \<Rightarrow>
           let m = items l ! k in
           if m_qos m \<noteq> 2 then Done (TCPSOCKET_COMPLETE, st)
           else if nextMessageType m \<noteq> int (msg_code PUBCOMP) then Done (TCPSOCKET_COMPLETE, st)
           else obind (MQTTPersistence_remove i PERSISTENCE_PUBLISH_SENT (m_qos m) (ack_msgId pack) st) (\<lambda>(rc, st).
                obind (MQTTProtocol_removePublication (m_publish m) st) (\<lambda>st.
                  let st = upd_client i (\<lambda>c. c\<lparr>outboundMsgs := cl_delete k (outboundMsgs c)\<rparr>) st in
                  Done (rc, st\<lparr>msgs_sent := msgs_sent st + 1\<rparr>))))"

definition MQTTProtocol_handlePingresps ::
    "int \<Rightarrow> ('k, 'p, 'u) mqtt \<Rightarrow> (int \<times> ('k, 'p, 'u) mqtt) outcome" where
  "MQTTProtocol_handlePingresps sock st =
     obind (client_of sock st) (\<lambda>(i, st).
       Done (TCPSOCKET_COMPLETE, upd_client i (\<lambda>c. c\<lparr>ping_outstanding := False\<rparr>) st))"

definition MQTTProtocol_handleSubacks :: "int \<Rightarrow> ('k, 'p, 'u) mqtt \<Rightarrow> (int \<times> ('k, 'p, 'u) mqtt) outcome" where
  "MQTTProtocol_handleSubacks sock st = obind (client_of sock st) (\<lambda>(i, st). Done (TCPSOCKET_COMPLETE, st))"

definition MQTTProtocol_handleUnsubacks :: "int \<Rightarrow> ('k, 'p, 'u) mqtt \<Rightarrow> (int \<times> ('k, 'p, 'u) mqtt) outcome" where
  "MQTTProtocol_handleUnsubacks sock st = obind (client_of sock st) (\<lambda>(i, st). Done (TCPSOCKET_COMPLETE, st))"

definition MQTTProtocol_subscribe ::
    "('k, 'a) env \<Rightarrow> nat \<Rightarrow> (u8 list \<times> u8) list \<Rightarrow> int \<Rightarrow> ('k, 'p, 'u) mqtt \<Rightarrow> (int \<times> ('k, 'p, 'u) mqtt) outcome" where
  "MQTTProtocol_subscribe E i topics msgid st = with_net (MQTTPacket_send_subscribe topics msgid False) E i st"

definition MQTTProtocol_unsubscribe ::
    "('k, 'a) env \<Rightarrow> nat \<Rightarrow> u8 list list \<Rightarrow> int \<Rightarrow> ('k, 'p, 'u) mqtt \<Rightarrow> (int \<times> ('k, 'p, 'u) mqtt) outcome" where
  "MQTTProtocol_unsubscribe E i topics msgid st = with_net (MQTTPacket_send_unsubscribe topics msgid False) E i st"

section \<open>Closing and clean-up\<close>

text \<open>
  The record of a command, for the three types that are saved: the type, the token and the arguments,
  each string with its terminator.
\<close>

definition command_bufs :: "'u queued_command \<Rightarrow> u8 list list option outcome" where
  "command_bufs q =
     (let front = [int_bytes (int (msg_code (cmd_type q))), int_bytes (cmd_token q)] in
      case details q of
        Sub topics \<Rightarrow>
          Done (if cmd_type q = SUBSCRIBE
            then Some (front @ int_bytes (int (length topics)) # concat (map (\<lambda>(t, qos). [t @ [0], int_bytes (uint qos)]) topics))
            else None)
      | Unsub topics \<Rightarrow>
          Done (if cmd_type q = UNSUBSCRIBE
            then Some (front @ int_bytes (int (length topics)) # map (\<lambda>t. t @ [0]) topics) else None)
      | Pub dest body qos retained \<Rightarrow>
          (if cmd_type q = PUBLISH
           then (case dest of None \<Rightarrow> Fault
             | Some d \<Rightarrow> Done (Some (front @ [d @ [0], int_bytes (int (length body)), body, int_bytes qos, int_bytes retained])))
           else Done None)
      | _ \<Rightarrow> Done None)"

definition MQTTAsync_persistCommand ::
    "'u queued_command \<Rightarrow> ('k, 'p, 'u) mqtt \<Rightarrow> (int \<times> 'u queued_command \<times> ('k, 'p, 'u) mqtt) outcome" where
  "MQTTAsync_persistCommand q st =
     obind (command_bufs q) (\<lambda>bufs.
       case bufs of None \<Rightarrow> Done (0, q, st)
       | Some bufs \<Rightarrow>
           let i = cmd_client q;
               st = upd_handle i (\<lambda>h. h\<lparr>command_seqno := command_seqno h + 1\<rparr>) st;
               n = command_seqno (handle_at i st) in
           obind (key_into (PERSISTENCE_MAX_KEY_LENGTH + 1) PERSISTENCE_COMMAND_KEY (sint n)) (\<lambda>key.
             case persistence_of (client_at i st) of None \<Rightarrow> Fault
             | Some P \<Rightarrow>
                 let (rc, p) = pput P (phandle (client_at i st)) key bufs (store st) in
                 Done (rc, q\<lparr>cmd_seqno := n\<rparr>, st\<lparr>store := p\<rparr>)))"

text \<open>A command at the head of the queue that repeats the new one is kept instead of it.\<close>

definition MQTTAsync_addCommand ::
    "('k, 'a) env \<Rightarrow> 'u queued_command \<Rightarrow> ('k, 'p, 'u) mqtt \<Rightarrow> (int \<times> ('k, 'p, 'u) mqtt) outcome" where
  "MQTTAsync_addCommand E command st =
     (let command = command\<lparr>start_time := clock_of E (os (socks st))\<rparr> in
      if cmd_type command = CONNECT \<or> cmd_type command = DISCONNECT \<and> (\<exists>t. details command = Dis True t)
      then (case items (commands st) of
          q # _ \<Rightarrow> if cmd_client q = cmd_client command \<and> cmd_type q = cmd_type command then Done (0, st)
                   else Done (0, st\<lparr>commands := cl_insert command 0 (commands st)\<rparr>)
        | [] \<Rightarrow> Done (0, st\<lparr>commands := cl_insert command 0 (commands st)\<rparr>))
      else
        let st = st\<lparr>commands := cl_append command (commands st)\<rparr> in
        if persistence_of (client_at (cmd_client command) st) = None then Done (0, st)
        else obind (MQTTAsync_persistCommand command st) (\<lambda>(_, command, st).
          Done (0, st\<lparr>commands := cl_update (length (items (commands st)) - 1) (\<lambda>_. command) (commands st)\<rparr>)))"

text \<open>A new queued command of the client at \<open>i\<close>.\<close>

definition new_command :: "nat \<Rightarrow> 'u command \<Rightarrow> ('k, 'p, 'u) mqtt \<Rightarrow> 'u queued_command \<times> ('k, 'p, 'u) mqtt" where
  "new_command i c st =
     (command.extend c \<lparr>cmd_client = i, cmd_seqno = 0, cmd_addr = next_addr st\<rparr>, st\<lparr>next_addr := next_addr st + 1\<rparr>)"

definition MQTTASYNC_SUCCESS :: int where "MQTTASYNC_SUCCESS = 0"
definition MQTTASYNC_DISCONNECTED :: int where "MQTTASYNC_DISCONNECTED = -3"

text \<open>The options of a disconnect request: the callbacks and the timeout.\<close>

record 'u disconnect_options =
  dis_success :: "(success_data option \<Rightarrow> 'u \<Rightarrow> 'u) option"
  dis_failure :: "(failure_data option \<Rightarrow> 'u \<Rightarrow> 'u) option"
  dis_timeout :: int

definition MQTTAsync_disconnect1 ::
    "('k, 'a) env \<Rightarrow> nat \<Rightarrow> 'u disconnect_options \<Rightarrow> bool \<Rightarrow> ('k, 'p, 'u) mqtt \<Rightarrow> (int \<times> ('k, 'p, 'u) mqtt) outcome" where
  "MQTTAsync_disconnect1 E i options internal st =
     (if \<not> connected (client_at i st) then Done (MQTTASYNC_DISCONNECTED, st)
      else let (dis, st) = new_command i (zero_command\<lparr>cmd_type := DISCONNECT, on_success := dis_success options,
             on_failure := dis_failure options, details := Dis internal (dis_timeout options)\<rparr>) st in
        MQTTAsync_addCommand E dis st)"

definition MQTTAsync_disconnect_internal ::
    "('k, 'a) env \<Rightarrow> nat \<Rightarrow> int \<Rightarrow> ('k, 'p, 'u) mqtt \<Rightarrow> (int \<times> ('k, 'p, 'u) mqtt) outcome" where
  "MQTTAsync_disconnect_internal E i timeout st =
     MQTTAsync_disconnect1 E i \<lparr>dis_success = None, dis_failure = None, dis_timeout = timeout\<rparr> True st"

definition MQTTProtocol_closeSession :: "('k, 'a) env \<Rightarrow> nat \<Rightarrow> ('k, 'p, 'u) mqtt \<Rightarrow> ('k, 'p, 'u) mqtt outcome" where
  "MQTTProtocol_closeSession E i st = obind (MQTTAsync_disconnect_internal E i 0 st) (\<lambda>(_, st). Done st)"

definition MQTTAsync_closeOnly :: "('k, 'a) env \<Rightarrow> nat \<Rightarrow> ('k, 'p, 'u) mqtt \<Rightarrow> ('k, 'p, 'u) mqtt outcome" where
  "MQTTAsync_closeOnly E i st =
     (let st = upd_client i (\<lambda>c. c\<lparr>good := False, ping_outstanding := False\<rparr>) st in
      obind (if 0 < net_socket (client_at i st)
             then obind (if connected (client_at i st)
                         then obind (with_net MQTTPacket_send_disconnect E i st) (\<lambda>(_, st). Done st)
                         else Done st) (\<lambda>st.
                  let st = st\<lparr>socks := Socket_close (kern E) (net_socket (client_at i st)) (socks st)\<rparr> in
                  Done (upd_client i (\<lambda>c. c\<lparr>net_socket := 0\<rparr>) st))
             else Done st)
        (\<lambda>st. Done (upd_client i (\<lambda>c. c\<lparr>connected := False, connect_state := 0\<rparr>) st)))"

lemma removePublication_pending:
  "MQTTProtocol_removePublication a st = Done st' \<Longrightarrow> pending_qos0 st' = pending_qos0 st"
  by (auto simp: MQTTProtocol_removePublication_def remove_stored_def Let_def split: option.splits if_splits prod.splits)

text \<open>The loop over the QoS 0 writes that are not complete, at position \<open>j\<close> of the list.\<close>

function check_writes :: "nat \<Rightarrow> ('k, 'p, 'u) mqtt \<Rightarrow> ('k, 'p, 'u) mqtt outcome" where
  "check_writes j st =
     (if length (items (pending_qos0 st)) \<le> j then Done st
      else let (none, ss) = Socket_noPendingWrites (fst (items (pending_qos0 st) ! j)) (socks st);
               st1 = st\<lparr>socks := ss\<rparr> in
        if none
        then (case MQTTProtocol_removePublication (snd (items (pending_qos0 st) ! j)) st1 of
            Done st2 \<Rightarrow> check_writes j (st2\<lparr>pending_qos0 := cl_delete j ((pending_qos0 st2)\<lparr>cursor := Some j\<rparr>)\<rparr>)
          | Stuck \<Rightarrow> Stuck | Fault \<Rightarrow> Fault)
        else check_writes (Suc j) st1)"
  by auto
termination
  by (relation "measure (\<lambda>(j, st). length (items (pending_qos0 st)) - j)")
    (auto simp: items_delete dest: removePublication_pending)

declare check_writes.simps [simp del]

definition MQTTProtocol_checkPendingWrites :: "('k, 'p, 'u) mqtt \<Rightarrow> ('k, 'p, 'u) mqtt outcome" where
  "MQTTProtocol_checkPendingWrites st = check_writes 0 st"

text \<open>A list of messages is emptied; the list itself is left ready for new ones.\<close>

primrec remove_publications :: "messages list \<Rightarrow> ('k, 'p, 'u) mqtt \<Rightarrow> ('k, 'p, 'u) mqtt outcome" where
  "remove_publications [] st = Done st"
| "remove_publications (m # ms) st =
     obind (MQTTProtocol_removePublication (m_publish m) st) (remove_publications ms)"

definition MQTTProtocol_emptyMessageList ::
    "messages clist \<Rightarrow> ('k, 'p, 'u) mqtt \<Rightarrow> (messages clist \<times> ('k, 'p, 'u) mqtt) outcome" where
  "MQTTProtocol_emptyMessageList l st = obind (remove_publications (items l) st) (\<lambda>st. Done (cl_new, st))"

text \<open>Freeing a list releases the same publications; the list is gone.\<close>

definition MQTTProtocol_freeMessageList :: "messages clist \<Rightarrow> ('k, 'p, 'u) mqtt \<Rightarrow> ('k, 'p, 'u) mqtt outcome" where
  "MQTTProtocol_freeMessageList l st = obind (MQTTProtocol_emptyMessageList l st) (\<lambda>(_, st). Done st)"

text \<open>What is left of the client afterwards are dangling pointers; here its lists are empty.\<close>

definition MQTTProtocol_freeClient :: "nat \<Rightarrow> ('k, 'p, 'u) mqtt \<Rightarrow> ('k, 'p, 'u) mqtt outcome" where
  "MQTTProtocol_freeClient i st =
     obind (MQTTProtocol_freeMessageList (outboundMsgs (client_at i st)) st) (\<lambda>st.
     obind (MQTTProtocol_freeMessageList (inboundMsgs (client_at i st)) st) (\<lambda>st.
       Done (upd_client i (\<lambda>c. c\<lparr>outboundMsgs := cl_new, inboundMsgs := cl_new, messageQueue := cl_new,
         clientID := [], will := None\<rparr>) st)))"

definition MQTTAsync_emptyMessageQueue :: "nat \<Rightarrow> ('k, 'p, 'u) mqtt \<Rightarrow> ('k, 'p, 'u) mqtt" where
  "MQTTAsync_emptyMessageQueue i st =
     upd_client i (\<lambda>c. c\<lparr>messageQueue := (if items (messageQueue c) = [] then messageQueue c else cl_new)\<rparr>) st"

section \<open>Keeping alive and retrying\<close>

text \<open>One client of the loop of \<open>MQTTProtocol_keepalive\<close>; \<open>t\<close> is the current time.\<close>

definition keepalive_client :: "('k, 'a) env \<Rightarrow> int \<Rightarrow> nat \<Rightarrow> ('k, 'p, 'u) mqtt \<Rightarrow> ('k, 'p, 'u) mqtt outcome" where
  "keepalive_client E t i st =
     (let c = client_at i st in
      if connected c \<and> 0 < keepAliveInterval c
         \<and> (keepAliveInterval c \<le> t - lastSent c \<or> keepAliveInterval c \<le> t - lastReceived c)
      then if \<not> ping_outstanding c
           then let (none, ss) = Socket_noPendingWrites (net_socket c) (socks st); st = st\<lparr>socks := ss\<rparr> in
                if none
                then obind (with_net MQTTPacket_send_pingreq E i st) (\<lambda>(rc, st).
                  if rc \<noteq> TCPSOCKET_COMPLETE then MQTTProtocol_closeSession E i st
                  else Done (upd_client i (\<lambda>c. c\<lparr>lastSent := t, ping_outstanding := True\<rparr>) st))
                else Done st
           else MQTTProtocol_closeSession E i st
      else Done st)"

primrec for_clients :: "(nat \<Rightarrow> ('k, 'p, 'u) mqtt \<Rightarrow> ('k, 'p, 'u) mqtt outcome) \<Rightarrow> nat list
    \<Rightarrow> ('k, 'p, 'u) mqtt \<Rightarrow> ('k, 'p, 'u) mqtt outcome" where
  "for_clients f [] st = Done st"
| "for_clients f (i # is) st = obind (f i st) (for_clients f is)"

definition MQTTProtocol_keepalive :: "('k, 'a) env \<Rightarrow> int \<Rightarrow> ('k, 'p, 'u) mqtt \<Rightarrow> ('k, 'p, 'u) mqtt outcome" where
  "MQTTProtocol_keepalive E t st = for_clients (keepalive_client E t) [0..<length (items (clients st))] st"

text \<open>
  One message of the loop of \<open>MQTTProtocol_retries\<close>: the code sets its client pointer to null when it
  closes the session, which the boolean result reports.  Its branch for QoS 0 is dead, because it
  lies under the test for QoS 1 or 2.
\<close>

definition retry_message ::
    "('k, 'a) env \<Rightarrow> int \<Rightarrow> nat \<Rightarrow> bool \<Rightarrow> nat \<Rightarrow> ('k, 'p, 'u) mqtt \<Rightarrow> (bool \<times> ('k, 'p, 'u) mqtt) outcome" where
  "retry_message E t i regardless j st =
     (let c = client_at i st; m = items (outboundMsgs c) ! j;
          touch = (\<lambda>st. upd_client i (\<lambda>c. c\<lparr>outboundMsgs := cl_update j (\<lambda>m. m\<lparr>lastTouch := now E st\<rparr>) (outboundMsgs c)\<rparr>) st);
          give_up = (\<lambda>st. obind (MQTTProtocol_closeSession E i (upd_client i (\<lambda>c. c\<lparr>good := False\<rparr>) st)) (\<lambda>st. Done (False, st))) in
      if regardless \<or> max (retryInterval c) 10 < t - lastTouch m
      then if m_qos m = 1 \<or> m_qos m = 2 \<and> nextMessageType m = int (msg_code PUBREC)
           then (case heap_pubs st (m_publish m) of None \<Rightarrow> Fault
             | Some sp \<Rightarrow>
                 let p = \<lparr>pub_header = 0, pub_topic = p_topic sp, pub_topiclen = p_topiclen sp, pub_msgId = m_msgid m,
                       pub_payload = p_payload sp, pub_payloadlen = p_payloadlen sp\<rparr> in
                 obind (send_publish E i p True (m_qos m) (m_retain m) st) (\<lambda>(rc, st).
                   if rc = SOCKET_ERROR then give_up st else Done (True, touch st)))
           else if m_qos m \<noteq> 0 \<and> nextMessageType m = int (msg_code PUBCOMP)
           then obind (with_net (MQTTPacket_send_pubrel (m_msgid m) False) E i st) (\<lambda>(rc, st).
                  if rc \<noteq> TCPSOCKET_COMPLETE then give_up st else Done (True, touch st))
           else Done (True, st)
      else Done (True, st))"

primrec retry_messages ::
    "('k, 'a) env \<Rightarrow> int \<Rightarrow> nat \<Rightarrow> bool \<Rightarrow> nat list \<Rightarrow> ('k, 'p, 'u) mqtt \<Rightarrow> ('k, 'p, 'u) mqtt outcome" where
  "retry_messages E t i regardless [] st = Done st"
| "retry_messages E t i regardless (j # js) st =
     (let c = client_at i st in
      if connected c \<and> good c
      then let (none, ss) = Socket_noPendingWrites (net_socket c) (socks st); st = st\<lparr>socks := ss\<rparr> in
           if none
           then obind (retry_message E t i regardless j st) (\<lambda>(go_on, st).
                  if go_on then retry_messages E t i regardless js st else Done st)
           else Done st
      else Done st)"

definition MQTTProtocol_retries ::
    "('k, 'a) env \<Rightarrow> int \<Rightarrow> nat \<Rightarrow> bool \<Rightarrow> ('k, 'p, 'u) mqtt \<Rightarrow> ('k, 'p, 'u) mqtt outcome" where
  "MQTTProtocol_retries E t i regardless st =
     (if \<not> regardless \<and> retryInterval (client_at i st) \<le> 0 then Done st
      else retry_messages E t i regardless [0..<length (items (outboundMsgs (client_at i st)))] st)"

definition retry_client :: "('k, 'a) env \<Rightarrow> int \<Rightarrow> bool \<Rightarrow> bool \<Rightarrow> nat \<Rightarrow> ('k, 'p, 'u) mqtt \<Rightarrow> ('k, 'p, 'u) mqtt outcome" where
  "retry_client E t doRetry regardless i st =
     (let c = client_at i st in
      if \<not> connected c then Done st
      else if \<not> good c then MQTTProtocol_closeSession E i st
      else let (none, ss) = Socket_noPendingWrites (net_socket c) (socks st); st = st\<lparr>socks := ss\<rparr> in
        if \<not> none then Done st
        else if doRetry then MQTTProtocol_retries E t i regardless st else Done st)"

definition MQTTProtocol_retry :: "('k, 'a) env \<Rightarrow> int \<Rightarrow> bool \<Rightarrow> bool \<Rightarrow> ('k, 'p, 'u) mqtt \<Rightarrow> ('k, 'p, 'u) mqtt outcome" where
  "MQTTProtocol_retry E t doRetry regardless st =
     for_clients (retry_client E t doRetry regardless) [0..<length (items (clients st))] st"

end
