(* ===== verification/Mqtt_Address.thy ===== *)
theory Mqtt_Address
  imports Mqtt_Protocol
begin

text \<open>
  Strings and addresses: the bounded copy of \<^verbatim>\<open>mqtt/source/MQTTProtocolClient.c\<close> with its loop over
  the destination buffer, and the address and connect functions of
  \<^verbatim>\<open>mqtt/source/MQTTProtocolOut.c\<close>.  A C string is the list of its bytes before the terminator.
\<close>

section \<open>The bounded copy\<close>

text \<open>The source with its terminator, the position in the destination and the destination.\<close>

fun strncpy_loop :: "nat \<Rightarrow> u8 list \<Rightarrow> nat \<Rightarrow> u8 list \<Rightarrow> (nat \<times> u8 list) outcome" where
  "strncpy_loop room [] pos dest = (if room \<le> 1 then Done (pos, dest) else Fault)"
| "strncpy_loop room (c # src) pos dest =
     (if room \<le> 1 then Done (pos, dest)
      else check (pos < length dest)
        (if c = 0 then Done (pos + 1, dest[pos := c]) else strncpy_loop (room - 1) src (pos + 1) (dest[pos := c])))"

definition MQTTStrncpy :: "u8 list \<Rightarrow> u8 list \<Rightarrow> nat \<Rightarrow> u8 list outcome" where
  "MQTTStrncpy dest src dest_size =
     obind (strncpy_loop dest_size (src @ [0]) 0 dest) (\<lambda>(pos, dest).
       check (pos < length dest) (Done (dest[pos := 0])))"

definition MQTTStrdup :: "heap_junk \<Rightarrow> u8 list \<Rightarrow> u8 list outcome" where
  "MQTTStrdup junk src = (let mlen = length src + 1 in MQTTStrncpy (malloc_bytes junk mlen) src mlen)"

definition c_string :: "u8 list \<Rightarrow> u8 list" where
  "c_string mem = takeWhile (\<lambda>b. b \<noteq> 0) mem"

section \<open>Addresses\<close>

text \<open>The position of the last occurrence.\<close>

definition strrchr :: "u8 list \<Rightarrow> u8 \<Rightarrow> nat option" where
  "strrchr s c = map_option (\<lambda>k. length s - 1 - k) (first_at ((=) c) (rev s))"

definition is_space :: "u8 \<Rightarrow> bool" where "is_space b \<longleftrightarrow> b = 32 \<or> 9 \<le> b \<and> b \<le> 13"
definition is_digit :: "u8 \<Rightarrow> bool" where "is_digit b \<longleftrightarrow> 48 \<le> b \<and> b \<le> 57"

definition digits_value :: "u8 list \<Rightarrow> int" where
  "digits_value ds = foldl (\<lambda>n d. 10 * n + (uint d - 48)) 0 ds"

text \<open>Defined in C only for values an \<open>int\<close> holds.\<close>

definition atoi :: "u8 list \<Rightarrow> int" where
  "atoi s = (let s = dropWhile is_space s in case s of
     [] \<Rightarrow> 0
   | c # cs \<Rightarrow> if c = 45 then - digits_value (takeWhile is_digit cs)
       else if c = 43 then digits_value (takeWhile is_digit cs)
       else digits_value (takeWhile is_digit s))"

definition DEFAULT_PORT :: int where "DEFAULT_PORT = 1883"

text \<open>The colon before the port: in a bracketed IPv6 address it comes after the bracket.\<close>

definition port_colon :: "u8 list \<Rightarrow> nat option" where
  "port_colon uri =
     (let colon_pos = strrchr uri 0x3A in
      if uri \<noteq> [] \<and> hd uri = 0x5B
      then case (colon_pos, strrchr uri 0x5D) of
          (Some c, Some b) \<Rightarrow> if c < b then None else Some c
        | (c, _) \<Rightarrow> c
      else colon_pos)"

definition strip_bracket :: "u8 list \<Rightarrow> u8 list outcome" where
  "strip_bracket buf = check (0 < length buf) (Done (if last buf = 0x5D then butlast buf else buf))"

text \<open>
  The address, the port, and what is left in the memory of the argument: without a port the result
  is the argument itself, in which a closing bracket is overwritten.
\<close>

definition MQTTProtocol_addressPort :: "heap_junk \<Rightarrow> u8 list \<Rightarrow> (u8 list \<times> int \<times> u8 list) outcome" where
  "MQTTProtocol_addressPort junk uri =
     (case port_colon uri of
        Some addr_len \<Rightarrow>
          obind (MQTTStrncpy (malloc_bytes junk (addr_len + 1)) uri (addr_len + 1)) (\<lambda>mem.
          obind (strip_bracket (c_string mem)) (\<lambda>buf. Done (buf, atoi (drop (addr_len + 1) uri), uri)))
      | None \<Rightarrow> obind (strip_bracket uri) (\<lambda>buf. Done (buf, DEFAULT_PORT, buf)))"

text \<open>The result is the code and the memory of the address argument.\<close>

definition MQTTProtocol_connect ::
    "('k, 'a) env \<Rightarrow> u8 list \<Rightarrow> nat \<Rightarrow> int \<Rightarrow> ('k, 'p, 'u) mqtt \<Rightarrow> (int \<times> u8 list \<times> ('k, 'p, 'u) mqtt) outcome" where
  "MQTTProtocol_connect E ip_address i version st =
     (let st = upd_client i (\<lambda>c. c\<lparr>good := True\<rparr>) st in
      obind (MQTTProtocol_addressPort (fresh_bytes E) ip_address) (\<lambda>(addr, port, uri).
        let ((rc, sock), ss) = Socket_new (kern E) addr port (socks st);
            st = upd_client i (\<lambda>c. c\<lparr>net_socket := sock\<rparr>) (st\<lparr>socks := ss\<rparr>) in
        if rc = EINPROGRESS \<or> rc = EWOULDBLOCK
        then Done (rc, uri, upd_client i (\<lambda>c. c\<lparr>connect_state := 1\<rparr>) st)
        else if rc = 0
        then obind (with_net (MQTTPacket_send_connect (client_ids.truncate (client_at i st)) version) E i st) (\<lambda>(rc, st).
               Done (rc, uri, upd_client i (\<lambda>c. c\<lparr>connect_state := (if rc = 0 then 3 else 0)\<rparr>) st))
        else Done (rc, uri, st)))"

section \<open>The copy stays in its buffer\<close>

lemma strncpy_loop_result:
  "0 \<notin> set src \<Longrightarrow> 0 < room \<Longrightarrow> pos + room \<le> length dest \<Longrightarrow>
   strncpy_loop room (src @ [0]) pos dest =
     (if room \<le> Suc (length src) then Done (pos + (room - 1), blit dest pos (take (room - 1) src))
      else Done (pos + Suc (length src), blit dest pos (src @ [0])))"
proof (induction src arbitrary: room pos dest)
  case Nil
  then show ?case
    by (auto simp: blit_def upd_conv_take_nth_drop)
next
  case (Cons c src)
  show ?case
  proof (cases "room \<le> 1")
    case False
    then obtain n where n: "room = Suc (Suc n)"
      by (cases room) (auto simp: gr0_conv_Suc not_le)
    have "blit (dest[pos := c]) (Suc pos) xs = blit dest pos (c # xs)" for xs
      using Cons.prems(3) n by (simp add: blit_def take_Suc_conv_app_nth)
    then show ?thesis
      using Cons.IH [of "Suc n" "Suc pos" "dest[pos := c]"] Cons.prems n by simp
  qed (use Cons.prems in simp)
qed

lemma takeWhile_block: "0 \<notin> set xs \<Longrightarrow> takeWhile (\<lambda>b. b \<noteq> 0) (xs @ (0 :: u8) # ys) = xs"
  by (induction xs) auto

lemma MQTTStrncpy_fits:
  assumes "0 \<notin> set src" "0 < dest_size" "dest_size \<le> length dest"
  shows "\<exists>buf. MQTTStrncpy dest src dest_size = Done buf \<and> length buf = length dest
    \<and> c_string buf = take (dest_size - 1) src \<and> drop dest_size buf = drop dest_size dest"
proof (cases "dest_size \<le> Suc (length src)")
  case True
  let ?n = "dest_size - 1" and ?xs = "take (dest_size - 1) src"
  have xs: "length ?xs = ?n" "?n < length dest" "0 \<notin> set ?xs" "Suc ?n = dest_size"
    using True assms by (auto dest: in_set_takeD)
  have "(blit dest 0 ?xs)[?n := 0] = ?xs @ 0 # drop dest_size dest"
    using xs by (simp add: blit_def upd_conv_take_nth_drop)
  then show ?thesis
    using strncpy_loop_result [OF assms(1,2), of 0 dest] True assms(3) xs takeWhile_block [OF xs(3)]
    by (simp add: MQTTStrncpy_def c_string_def)
next
  case False
  let ?n = "Suc (length src)"
  have n: "?n < dest_size" "?n < length dest"
    using False assms(3) by simp_all
  obtain ys where "blit dest 0 (src @ [0]) = src @ 0 # ys" "ys = drop ?n dest"
    by (simp add: blit_def)
  then have "(blit dest 0 (src @ [0]))[?n := 0] = src @ 0 # ys[0 := 0]" "length ys = length dest - ?n"
    by (simp_all add: list_update_append)
  moreover from this have "drop dest_size (src @ 0 # ys[0 := 0]) = drop dest_size dest"
    using n \<open>ys = _\<close> by (simp add: drop_Cons' drop_update_cancel)
  ultimately show ?thesis
    using strncpy_loop_result [OF assms(1,2), of 0 dest] False assms(3) n takeWhile_block [OF assms(1)]
    by (simp add: MQTTStrncpy_def c_string_def)
qed

text \<open>
  \<open>MQTTStrncpy\<close> writes only the first \<open>dest_size\<close> bytes of its destination and leaves there a
  terminated string, the longest prefix of the source that fits; nothing faults.
\<close>

theorem MQTTStrncpy_bounded:
  assumes "0 \<notin> set src" "0 < dest_size" "dest_size \<le> length dest"
  shows "\<exists>buf. MQTTStrncpy dest src dest_size = Done buf \<and> length buf = length dest
    \<and> c_string buf = take (dest_size - 1) src \<and> drop dest_size buf = drop dest_size dest"
  using assms by (rule MQTTStrncpy_fits)

theorem MQTTStrncpy_bounded_witness:
  "\<exists>buf. MQTTStrncpy [7, 7, 7, 7, 7] [97, 98, 99] 3 = Done buf \<and> length buf = 5 \<and> c_string buf = [97, 98]
    \<and> drop 3 buf = [7, 7 :: u8]"
proof -
  have "0 \<notin> set [97, 98, 99 :: u8]"
    by simp
  from MQTTStrncpy_bounded [OF this, of 3 "[7, 7, 7, 7, 7]"] show ?thesis
    by (simp add: numeral_eq_Suc)
qed

section \<open>Addresses and ports\<close>

lemma first_at_append: "first_at P (xs @ x # ys) = Some (length xs)" if "\<forall>y \<in> set xs. \<not> P y" "P x"
  using that by (induction xs) auto

lemma strrchr_last:
  assumes "c \<notin> set ys"
  shows "strrchr (xs @ c # ys) c = Some (length xs)"
proof -
  have "\<forall>y \<in> set (rev ys). \<not> c = y"
    using assms by auto
  from first_at_append [OF this, of c "rev xs"] show ?thesis
    by (simp add: strrchr_def)
qed

lemma strrchr_None: "strrchr s c = None \<longleftrightarrow> c \<notin> set s"
  by (auto simp: strrchr_def first_at_None)

lemma strrchr_Some: "strrchr s c = Some k \<Longrightarrow> k < length s \<and> s ! k = c"
  by (auto simp: strrchr_def first_at_Some rev_nth)

text \<open>The bytes of a decimal number.\<close>


lemma ascii_digit: "n < 10 \<Longrightarrow> of_char (char_of (48 + n) :: char) = (of_nat (48 + n) :: u8)"
proof -
  assume "n < 10"
  then have "of_nat (of_char (char_of (48 + n) :: char) :: nat) = (of_nat (48 + n) :: u8)"
    by (simp del: of_nat_of_char of_nat_add add: of_char_of)
  then show ?thesis
    by (simp only: of_nat_of_char)
qed

lemma decimal_digits: "\<forall>b \<in> set (ascii (decimal_nat n)). is_digit b" "ascii (decimal_nat n) \<noteq> []"
proof (induction n rule: decimal_nat.induct)
  case (1 n)
  have d: "is_digit (of_nat (48 + k))" if "k < 10" for k
    using that by (simp add: is_digit_def word_le_nat_alt unat_of_nat take_bit_nat_eq_self del: of_nat_add)
  { case 1 then show ?case
      using "1.IH"(1) d [of "n mod 10"] d [of n]
      by (subst decimal_nat.simps) (auto simp: ascii_def ascii_digit [unfolded ascii_def])
  next
    case 2 then show ?case
      by (subst decimal_nat.simps) (simp add: ascii_def) }
qed

lemma digits_value_snoc: "digits_value (ds @ [d]) = 10 * digits_value ds + (uint d - 48)"
  by (simp add: digits_value_def)

lemma ascii_value: "k < 10 \<Longrightarrow> uint (of_nat (48 + k) :: u8) - 48 = int k"
  by (simp add: uint_nat unat_of_nat take_bit_nat_eq_self del: of_nat_add)

lemma digits_value_decimal: "digits_value (ascii (decimal_nat n)) = int n"
proof (induction n rule: decimal_nat.induct)
  case (1 n)
  show ?case
  proof (cases "n < 10")
    case True
    then show ?thesis
      using digits_value_snoc [of "[]"] ascii_value [OF True]
      by (subst decimal_nat.simps) (simp add: ascii_def ascii_digit digits_value_def del: of_nat_add)
  next
    case False
    have "ascii (decimal_nat n) = ascii (decimal_nat (n div 10)) @ [of_nat (48 + n mod 10)]"
      using False ascii_digit [of "n mod 10"]
      by (subst decimal_nat.simps) (simp add: ascii_def del: of_nat_add)
    then show ?thesis
      using 1 [OF False] ascii_value [of "n mod 10"] by (simp add: digits_value_snoc zdiv_int zmod_int del: of_nat_add)
  qed
qed

lemma atoi_decimal: "atoi (ascii (decimal_nat n)) = int n"
proof -
  let ?s = "ascii (decimal_nat n)"
  obtain c cs where s: "?s = c # cs"
    using decimal_digits(2) by (cases ?s) auto
  have c: "is_digit c" "\<forall>b \<in> set ?s. is_digit b"
    using decimal_digits(1) [of n] s by auto
  have neq: "\<not> is_space c" "c \<noteq> 45" "c \<noteq> 43"
    using c(1) by (auto simp: is_digit_def is_space_def word_le_nat_alt)
  have all: "takeWhile is_digit ?s = ?s"
    using c(2) by (simp add: takeWhile_eq_all_conv)
  show ?thesis
    using neq all digits_value_decimal [of n] by (simp add: atoi_def s Let_def)
qed

text \<open>
  C38: A host and a port, written \<open>host:port\<close>, come back from \<open>MQTTProtocol_addressPort\<close> as they were:
  for a plain host and, without its closing bracket, for a bracketed IPv6 address, the argument
  untouched.
\<close>

theorem addressPort_splits:
  assumes "0 \<notin> set host" "host \<noteq> []"
    and "if hd host = 0x5B then last host = 0x5D else last host \<noteq> 0x5D" and "n < 2 ^ 31"
  shows "MQTTProtocol_addressPort junk (host @ 0x3A # ascii (decimal_nat n)) =
    Done (if hd host = 0x5B then butlast host else host, int n, host @ 0x3A # ascii (decimal_nat n))"
proof -
  let ?ds = "ascii (decimal_nat n)" and ?k = "length host"
  let ?uri = "host @ 0x3A # ?ds"
  have no: "0x3A \<notin> set ?ds" "0x5D \<notin> set ?ds" "0 \<notin> set ?ds"
    using decimal_digits(1) [of n] by (auto simp: is_digit_def)
  have bracket: "b < ?k" if "strrchr ?uri 0x5D = Some b" for b
  proof -
    have "b < length ?uri" "?uri ! b = 0x5D"
      using strrchr_Some [OF that] by simp_all
    then show ?thesis
      using no(2) nth_mem [of "b - Suc ?k" ?ds] by (cases "b < Suc ?k") (auto simp: nth_append nth_Cons' less_diff_conv2 not_less split: if_splits)
  qed
  have pos: "port_colon ?uri = Some ?k"
    using strrchr_last [OF no(1)] bracket
    by (cases "strrchr ?uri 0x5D") (auto simp: port_colon_def Let_def dest: less_asym)
  obtain buf where buf: "MQTTStrncpy (malloc_bytes junk (?k + 1)) ?uri (?k + 1) = Done buf" "c_string buf = host"
    using MQTTStrncpy_fits [of ?uri "?k + 1" "malloc_bytes junk (?k + 1)"] assms(1) no(3)
    by (auto simp: malloc_bytes_def)
  have strip: "strip_bracket host = Done (if hd host = 0x5B then butlast host else host)"
    using assms(2,3) by (auto simp: strip_bracket_def)
  show ?thesis
    unfolding MQTTProtocol_addressPort_def pos using buf strip atoi_decimal [of n] by simp
qed

theorem addressPort_splits_witness:
  "MQTTProtocol_addressPort zero_junk ([0x5B, 0x3A, 0x3A, 49, 0x5D] @ 0x3A # ascii (decimal_nat 1883)) =
     Done ([0x5B, 0x3A, 0x3A, 49], 1883, [0x5B, 0x3A, 0x3A, 49, 0x5D] @ 0x3A # ascii (decimal_nat 1883))"
  using addressPort_splits [of "[0x5B, 0x3A, 0x3A, 49, 0x5D]" 1883 zero_junk] by simp

text \<open>
  Without a port the bracketed IPv6 address loses its closing bracket in the memory of the caller,
  and in an address that is only a port the byte before the copy is read.
\<close>

theorem addressPort_clobbers:
  "MQTTProtocol_addressPort junk [0x5B, 0x3A, 0x3A, 49, 0x5D] =
     Done ([0x5B, 0x3A, 0x3A, 49], DEFAULT_PORT, [0x5B, 0x3A, 0x3A, 49])
   \<and> MQTTProtocol_addressPort junk (0x3A # ascii (decimal_nat n)) = Fault"
proof -
  let ?ds = "ascii (decimal_nat n)"
  have no: "0x3A \<notin> set ?ds" "0 \<notin> set ?ds"
    using decimal_digits(1) [of n] by (auto simp: is_digit_def)
  then obtain buf where "MQTTStrncpy (malloc_bytes junk 1) (0x3A # ?ds) 1 = Done buf" "c_string buf = []"
    using MQTTStrncpy_fits [of "0x3A # ?ds" 1 "malloc_bytes junk 1"] by (auto simp: malloc_bytes_def)
  moreover have "port_colon (0x3A # ?ds) = Some 0"
    using strrchr_last [OF no(1), of "[]"] by (simp add: port_colon_def)
  moreover have "port_colon [0x5B, 0x3A, 0x3A, 49, 0x5D] = None"
    by (simp add: port_colon_def strrchr_def)
  ultimately show ?thesis
    by (simp add: MQTTProtocol_addressPort_def strip_bracket_def)
qed

end
