(* ===== verification/Mqtt_Net.thy ===== *)
theory Mqtt_Net
  imports Mqtt_Address
begin

text \<open>
  What sending a packet can change.  The locale \<open>packet_sink\<close> is the interface between the packet
  layer and whatever carries its packets: three operations that keep a property make every send
  function return with the property kept.  The network of a client is such a sink, so sending
  changes the sockets, the persistent store and the time of the last packet, and nothing else.
\<close>

section \<open>Senders over a sink\<close>

locale packet_sink =
  fixes ops :: "'n net_ops" and Q :: "'n \<Rightarrow> bool"
  assumes put_keeps: "Q n \<Longrightarrow> length bs \<le> 4 \<Longrightarrow> Q (snd (putdatas ops b0 bs n))"
    and persist_keeps: "Q n \<Longrightarrow> htype = msg_code PUBREL \<or> htype = msg_code PUBLISH \<Longrightarrow> 0 \<le> msgid \<Longrightarrow>
      msgid < 2 ^ 16 \<Longrightarrow> Q (snd (persist_put ops b0 bs htype msgid False n))"
    and stamp_keeps: "Q n \<Longrightarrow> Q (stamp_sent ops n)"
begin

definition sent :: "(int \<times> 'n) outcome \<Rightarrow> bool" where
  "sent r \<longleftrightarrow> (\<exists>rc n. r = Done (rc, n) \<and> Q n)"

lemma sent_put: "Q n \<Longrightarrow> length bs \<le> 4 \<Longrightarrow>
   sent (let (rc, n) = putdatas ops b0 bs n in Done (rc, if rc = TCPSOCKET_COMPLETE then stamp_sent ops n else n))"
  using put_keeps [of n bs b0] stamp_keeps by (auto simp: sent_def split: prod.split)

lemma readInt_range: "2 \<le> length mem \<Longrightarrow> \<exists>k. readInt mem 0 = Done (k, 2) \<and> 0 \<le> k \<and> k < 2 ^ 16"
proof -
  assume "2 \<le> length mem"
  moreover have "uint (mem ! 0) < 256" "uint (mem ! 1) < 256"
    using uint_lt2p [of "mem ! 0"] uint_lt2p [of "mem ! 1"] by simp_all
  ultimately show ?thesis
    by (auto simp: readInt_def numeral_2_eq_2)
qed

lemma send_keeps:
  assumes "Q n" "length buf < 2 ^ 28" "header_type h \<noteq> msg_code PUBREL \<or> 2 \<le> length buf"
  shows "sent (MQTTPacket_send ops h buf n)"
proof (cases "header_type h = msg_code PUBREL")
  case True
  then obtain k where k: "readInt buf 0 = Done (k, 2)" "0 \<le> k" "k < 2 ^ 16"
    using readInt_range [of buf] assms(3) by blast
  have "Q (snd (persist_put ops (h # encode_loop (int (length buf))) [buf] (msg_code PUBREL) k False n))"
    using persist_keeps [OF assms(1)] k by blast
  from sent_put [OF this, of "[buf]" "h # encode_loop (int (length buf))"] show ?thesis
    using True k(1) assms(2) fixed_header_eq [of "int (length buf)" h] by (simp add: MQTTPacket_send_def)
next
  case False
  then show ?thesis
    using sent_put [OF assms(1), of "[buf]" "h # encode_loop (int (length buf))"] assms(2)
      fixed_header_eq [of "int (length buf)" h] by (simp add: MQTTPacket_send_def)
qed

lemma sends_keeps:
  assumes "Q n" "sum_list (map length bufs) < 2 ^ 28" "length bufs \<le> 4"
    and "header_type h = msg_code PUBLISH \<and> header_qos h \<noteq> 0 \<Longrightarrow> 2 < length bufs \<and> 2 \<le> length (bufs ! 2)"
  shows "sent (MQTTPacket_sends ops h bufs n)"
proof -
  let ?len = "int (sum_list (map length bufs))"
  have hdr: "fixed_header h ?len = Done (h # encode_loop ?len)"
    using fixed_header_eq [of ?len h] assms(2) by simp
  show ?thesis
  proof (cases "header_type h = msg_code PUBLISH \<and> header_qos h \<noteq> 0")
    case True
    then obtain k where k: "readInt (bufs ! 2) 0 = Done (k, 2)" "0 \<le> k" "k < 2 ^ 16"
      using readInt_range [of "bufs ! 2"] assms(4) by blast
    have "Q (snd (persist_put ops (h # encode_loop ?len) bufs (msg_code PUBLISH) k False n))"
      using persist_keeps [OF assms(1)] k by blast
    from sent_put [OF this assms(3), of "h # encode_loop ?len"] show ?thesis
      using True k(1) hdr assms(4) by (simp add: MQTTPacket_sends_def)
  next
    case False
    then have "MQTTPacket_sends ops h bufs n = (let (rc, n) = putdatas ops (h # encode_loop ?len) bufs n in
        Done (rc, if rc = TCPSOCKET_COMPLETE then stamp_sent ops n else n))"
      using hdr by (auto simp: MQTTPacket_sends_def)
    then show ?thesis
      using sent_put [OF assms(1,3), of "h # encode_loop ?len"] by simp
  qed
qed

lemma ack_keeps: "Q n \<Longrightarrow> sent (MQTTPacket_send_ack type msgid dup ops n)"
  by (simp add: MQTTPacket_send_ack_def two_bytes_eq send_keeps)

lemma puback_keeps: "Q n \<Longrightarrow> sent (MQTTPacket_send_puback msgid ops n)"
  by (simp add: MQTTPacket_send_puback_def ack_keeps)

lemma pubrec_keeps: "Q n \<Longrightarrow> sent (MQTTPacket_send_pubrec msgid ops n)"
  by (simp add: MQTTPacket_send_pubrec_def ack_keeps)

lemma pubrel_keeps: "Q n \<Longrightarrow> sent (MQTTPacket_send_pubrel msgid dup ops n)"
  by (simp add: MQTTPacket_send_pubrel_def ack_keeps)

lemma pubcomp_keeps: "Q n \<Longrightarrow> sent (MQTTPacket_send_pubcomp msgid ops n)"
  by (simp add: MQTTPacket_send_pubcomp_def ack_keeps)

lemma pingreq_keeps: "Q n \<Longrightarrow> sent (MQTTPacket_send_pingreq ops n)"
  by (simp add: MQTTPacket_send_pingreq_def send_keeps)

lemma disconnect_keeps: "Q n \<Longrightarrow> sent (MQTTPacket_send_disconnect ops n)"
  by (simp add: MQTTPacket_send_disconnect_def send_keeps)

lemma publish_keeps:
  assumes "Q n" "length topic + length payload + 4 < 2 ^ 28"
  shows "sent (MQTTPacket_send_publish topic payload msgid dup qos retained ops n)"
proof (cases "0 < qos")
  case True
  then show ?thesis
    using assms sends_keeps [OF assms(1), of "[[of_int (int (length topic) div 256), of_int (int (length topic) mod 256)],
        topic, [of_int (msgid div 256), of_int (msgid mod 256)], payload]"]
    by (simp add: MQTTPacket_send_publish_def two_bytes_eq)
next
  case False
  then show ?thesis
    using assms sends_keeps [OF assms(1), of "[[of_int (int (length topic) div 256), of_int (int (length topic) mod 256)],
        topic, payload]" "header_byte (msg_code PUBLISH) dup 0 retained"]
    by (simp add: MQTTPacket_send_publish_def two_bytes_eq)
qed

end

section \<open>The network of a client is a sink\<close>

text \<open>\<open>wired i st st'\<close>: from \<open>st\<close> to \<open>st'\<close> the client at \<open>i\<close> may have sent something.\<close>

definition wired :: "nat \<Rightarrow> ('k, 'p, 'u) mqtt \<Rightarrow> ('k, 'p, 'u) mqtt \<Rightarrow> bool" where
  "wired i st st' \<longleftrightarrow> i < length (items (clients st))
     \<and> (\<exists>t. items (clients st') = (items (clients st))[i := (client_at i st)\<lparr>lastSent := t\<rparr>])
     \<and> heap_pubs st' = heap_pubs st \<and> next_pub st' = next_pub st \<and> stored st' = stored st
     \<and> msgs_received st' = msgs_received st \<and> msgs_sent st' = msgs_sent st \<and> pending_qos0 st' = pending_qos0 st
     \<and> commands st' = commands st \<and> handles st' = handles st \<and> app st' = app st"

lemma wired_refl: "i < length (items (clients st)) \<Longrightarrow> wired i st st"
proof -
  assume "i < length (items (clients st))"
  moreover have "(items (clients st))[i := (client_at i st)\<lparr>lastSent := lastSent (client_at i st)\<rparr>] = items (clients st)"
    by (simp add: client_at_def)
  ultimately show ?thesis
    unfolding wired_def by metis
qed

lemma wired_at: "wired i st st' \<Longrightarrow> \<exists>t. client_at i st' = (client_at i st)\<lparr>lastSent := t\<rparr>"
  by (auto simp: wired_def client_at_def)

lemma wired_clients:
  assumes "wired i st st'"
  shows "length (items (clients st')) = length (items (clients st))" "j \<noteq> i \<Longrightarrow> client_at j st' = client_at j st"
  using assms by (auto simp: wired_def client_at_def)

lemma wired_fields:
  assumes "wired i st st'"
  shows "heap_pubs st' = heap_pubs st" "next_pub st' = next_pub st" "stored st' = stored st"
    "msgs_received st' = msgs_received st" "msgs_sent st' = msgs_sent st" "pending_qos0 st' = pending_qos0 st"
    "commands st' = commands st" "handles st' = handles st" "app st' = app st"
  using assms by (simp_all add: wired_def)

text \<open>The three kinds of steps: the cursor of the client list, the sockets and the store, and the time.\<close>

lemma wired_cursor: "wired i st st' \<Longrightarrow> wired i st (st'\<lparr>clients := (clients st')\<lparr>cursor := c\<rparr>\<rparr>)"
  by (simp add: wired_def)

lemma wired_socks: "wired i st st' \<Longrightarrow> wired i st (st'\<lparr>socks := ss\<rparr>)"
  by (simp add: wired_def)

lemma wired_store: "wired i st st' \<Longrightarrow> wired i st (st'\<lparr>store := p\<rparr>)"
  by (simp add: wired_def)

lemma wired_stamp: "wired i st st' \<Longrightarrow> wired i st (upd_client i (\<lambda>c. c\<lparr>lastSent := t\<rparr>) st')"
  by (auto simp: wired_def upd_client_def client_at_def)

lemma client_of_cases:
  "client_of s st = Fault \<and> (\<forall>c \<in> set (items (clients st)). net_socket c \<noteq> s)
   \<or> (\<exists>i. i < length (items (clients st)) \<and> net_socket (client_at i st) = s
        \<and> client_of s st = Done (i, st\<lparr>clients := (clients st)\<lparr>cursor := Some i\<rparr>\<rparr>))"
proof (cases "cl_index (clientSocketCompare s) (clients st)")
  case None
  then have "\<forall>c \<in> set (items (clients st)). net_socket c \<noteq> s"
    using cl_index_None [of "clientSocketCompare s" "clients st"] by (simp add: clientSocketCompare_def)
  then show ?thesis
    using None by (simp add: client_of_def cl_find_def)
next
  case (Some i)
  then show ?thesis
    using cl_index_Some [OF Some] by (simp add: client_of_def cl_find_def clientSocketCompare_def client_at_def)
qed

lemma length_decimal_nat: "n < 10 ^ k \<Longrightarrow> 0 < k \<Longrightarrow> length (decimal_nat n) \<le> k"
proof (induction n arbitrary: k rule: decimal_nat.induct)
  case (1 n)
  show ?case
  proof (cases "n < 10")
    case True
    then show ?thesis
      using "1.prems"(2) by (subst decimal_nat.simps) simp
  next
    case False
    with "1.prems" obtain j where j: "k = Suc j" "0 < j"
      by (metis One_nat_def gr0_implies_Suc neq0_conv not_less power_one_right)
    then have "n div 10 < 10 ^ j"
      using "1.prems"(1) by (simp add: less_mult_imp_div_less mult.commute)
    then show ?thesis
      using "1.IH" [OF False, of j] j False by (subst decimal_nat.simps) simp
  qed
qed

lemma put_key_fits:
  assumes "htype = msg_code PUBREL \<or> htype = msg_code PUBLISH" "0 \<le> msgid" "msgid < 2 ^ 16"
  shows "\<exists>key. put_key False htype msgid = Done key"
proof -
  have "length (decimal_nat (nat msgid)) \<le> 5"
    using length_decimal_nat [of "nat msgid" 5] assms(3) by simp
  then show ?thesis
    using assms(1,2) by (auto simp: put_key_def key_into_def decimal_def persistence_keys MESSAGE_FILENAME_LENGTH_def)
qed

definition net_keeps :: "nat \<Rightarrow> ('k, 'p, 'u) mqtt \<Rightarrow> ('k, 'p, 'u) mqtt outcome \<Rightarrow> bool" where
  "net_keeps i st0 n \<longleftrightarrow> (\<exists>st. n = Done st \<and> wired i st0 st)"

lemma putdatas_returns: "length bs \<le> 4 \<Longrightarrow> \<exists>rc ss'. Socket_putdatas K s b0 bs frees ss = Done (rc, ss')"
  by (auto simp: Socket_putdatas_def Let_def split: prod.split)

lemma put_returns:
  assumes "wired i st0 st" "htype = msg_code PUBREL \<or> htype = msg_code PUBLISH" "0 \<le> msgid" "msgid < 2 ^ 16"
  shows "\<exists>rc st'. MQTTPersistence_put (net_socket (client_at i st)) b0 bs htype msgid False st = Done (rc, st') \<and> wired i st0 st'"
proof -
  obtain key where key: "put_key False htype msgid = Done key"
    using put_key_fits [OF assms(2-4)] by blast
  have "client_at i st \<in> set (items (clients st))"
    using wired_clients(1) [OF assms(1)] assms(1) by (simp add: wired_def [of i st0 st] client_at_def set_update_memI)
  then obtain j where j: "client_of (net_socket (client_at i st)) st = Done (j, st\<lparr>clients := (clients st)\<lparr>cursor := Some j\<rparr>\<rparr>)"
    using client_of_cases [of "net_socket (client_at i st)" st] by blast
  let ?st = "st\<lparr>clients := (clients st)\<lparr>cursor := Some j\<rparr>\<rparr>"
  have "wired i st0 ?st"
    using wired_cursor [OF assms(1)] .
  then show ?thesis
    using j key wired_store [OF \<open>wired i st0 ?st\<close>]
    by (cases "persistence_of (client_at j ?st)") (auto simp: MQTTPersistence_put_def Let_def split: prod.split)
qed

interpretation client_sink: packet_sink "client_net E i" "net_keeps i st0" for E i st0
proof
  fix n bs b0
  assume "net_keeps i st0 n" "length (bs :: u8 list list) \<le> 4"
  then obtain st rc ss where "n = Done st" "wired i st0 st"
    "Socket_putdatas (kern E) (net_socket (client_at i st)) b0 bs (map (\<lambda>_. False) bs) (socks st) = Done (rc, ss)"
    using putdatas_returns unfolding net_keeps_def by metis
  then show "net_keeps i st0 (snd (putdatas (client_net E i) b0 bs n))"
    by (simp add: client_net_def over_outcome_def on_socks_def net_keeps_def wired_socks)
next
  fix n htype and msgid :: int and b0 bs
  assume "net_keeps i st0 n" "htype = msg_code PUBREL \<or> htype = msg_code PUBLISH" "0 \<le> msgid" "msgid < 2 ^ 16"
  then obtain st rc st' where "n = Done st" "wired i st0 st'"
    "MQTTPersistence_put (net_socket (client_at i st)) b0 bs htype msgid False st = Done (rc, st')"
    using put_returns unfolding net_keeps_def by metis
  then show "net_keeps i st0 (snd (persist_put (client_net E i) b0 bs htype msgid False n))"
    by (simp add: client_net_def over_outcome_def net_keeps_def)
next
  fix n
  assume "net_keeps i st0 n"
  then show "net_keeps i st0 (stamp_sent (client_net E i) n)"
    by (auto simp: client_net_def net_keeps_def wired_stamp)
qed

text \<open>Running a send function on a client: it returns, and only the wiring of the client changes.\<close>

lemma with_net_sent:
  assumes "client_sink.sent i st (f (client_net E i) (Done st))"
  shows "\<exists>rc st'. with_net f E i st = Done (rc, st') \<and> wired i st st'"
proof -
  obtain rc n where "f (client_net E i) (Done st) = Done (rc, n)" "net_keeps i st n"
    using assms unfolding client_sink.sent_def by blast
  then show ?thesis
    by (auto simp: with_net_def net_keeps_def)
qed

lemma net_start: "i < length (items (clients st)) \<Longrightarrow> net_keeps i st (Done st)"
  by (simp add: net_keeps_def wired_refl)

lemma sends_wired:
  assumes "i < length (items (clients st))"
  shows "\<exists>rc st'. with_net (MQTTPacket_send_puback m) E i st = Done (rc, st') \<and> wired i st st'"
    "\<exists>rc st'. with_net (MQTTPacket_send_pubrec m) E i st = Done (rc, st') \<and> wired i st st'"
    "\<exists>rc st'. with_net (MQTTPacket_send_pubrel m d) E i st = Done (rc, st') \<and> wired i st st'"
    "\<exists>rc st'. with_net (MQTTPacket_send_pubcomp m) E i st = Done (rc, st') \<and> wired i st st'"
    "\<exists>rc st'. with_net (MQTTPacket_send_pingreq) E i st = Done (rc, st') \<and> wired i st st'"
    "\<exists>rc st'. with_net (MQTTPacket_send_disconnect) E i st = Done (rc, st') \<and> wired i st st'"
  using net_start [OF assms]
  by (auto intro!: with_net_sent client_sink.puback_keeps client_sink.pubrec_keeps client_sink.pubrel_keeps
      client_sink.pubcomp_keeps client_sink.pingreq_keeps client_sink.disconnect_keeps)

lemma publish_wired:
  assumes "i < length (items (clients st))" "pub_payloadlen p = int (length (pub_payload p))"
    and "length (pub_topic p) + length (pub_payload p) + 4 < 2 ^ 28"
  shows "\<exists>rc st'. send_publish E i p dup qos retained st = Done (rc, st') \<and> wired i st st'"
proof -
  have "\<exists>rc st'. with_net (MQTTPacket_send_publish (pub_topic p) (pub_payload p) (pub_msgId p) dup (nat qos) retained) E i st =
      Done (rc, st') \<and> wired i st st'"
    by (rule with_net_sent, rule client_sink.publish_keeps [OF net_start [OF assms(1)] assms(3)])
  then show ?thesis
    using assms(2) by (simp add: send_publish_def)
qed

end
