(* ===== verification/Socket_Write.thy ===== *)
theory Socket_Write
  imports Socket_Io
begin

text \<open>
  Writing a packet in pieces: what the kernel has accepted of a packet is always a prefix of it, the
  buffers of each further system call continue where it stopped, and the loop over the pending
  writes ends.  The kernel is a parameter; \<open>out\<close> reads off its state the bytes it has accepted.
\<close>

section \<open>The buffers of a resumed write\<close>

lemma remaining_ahead:
  "b \<le> cur \<Longrightarrow> remaining_iovecs b cur vs = vs"
  by (induction vs arbitrary: cur) simp_all

lemma remaining_prefix:
  "\<exists>t. drop (b - cur) (concat vs) = concat (remaining_iovecs b cur vs) @ t"
proof (induction vs arbitrary: cur)
  case (Cons v vs)
  show ?case
  proof (cases "b \<le> cur")
    case True
    then show ?thesis
      by (simp add: remaining_ahead)
  next
    case False
    then show ?thesis
      using Cons.IH [of "cur + length v"] by (auto simp: diff_diff_left)
  qed
qed simp

lemma remaining_nonempty:
  "cur \<le> b \<Longrightarrow> b < cur + length (concat vs) \<Longrightarrow> concat (remaining_iovecs b cur vs) \<noteq> []"
proof (induction vs arbitrary: cur)
  case (Cons v vs)
  show ?case
  proof (cases "b \<le> cur \<or> b < cur + length v")
    case True
    show ?thesis
    proof (cases "v = []")
      case True
      then show ?thesis
        using Cons.IH [of cur] Cons.prems by auto
    qed (use True in auto)
  next
    case False
    then show ?thesis
      using Cons.IH [of "cur + length v"] Cons.prems by (simp add: add.assoc)
  qed
qed simp

lemma remaining_length: "length (remaining_iovecs b cur vs) \<le> length vs"
  by (induction vs arbitrary: cur) (simp_all add: le_SucI)

section \<open>The pending writes\<close>

definition pw_ok :: "pending_writes \<Rightarrow> bool" where
  "pw_ok pw \<longleftrightarrow> pw_count pw = length (iovecs pw) \<and> length (iovecs pw) \<le> 5
     \<and> pw_total pw = int (length (concat (iovecs pw)))"

text \<open>Every socket that waits to write has exactly one record of what is left.\<close>

definition writes_inv :: "'k sockets \<Rightarrow> bool" where
  "writes_inv st \<longleftrightarrow> distinct (items (write_pending st)) \<and> distinct (map pw_socket (items (writes_list (sbuf st))))
     \<and> set (map pw_socket (items (writes_list (sbuf st)))) = set (items (write_pending st))
     \<and> (\<forall>pw \<in> set (items (writes_list (sbuf st))). pw_ok pw) \<and> cl_wf (write_pending st)"

text \<open>The record of socket \<open>s\<close> is the one at position \<open>i\<close>.\<close>

definition record_at :: "int \<Rightarrow> nat \<Rightarrow> 'k sockets \<Rightarrow> bool" where
  "record_at s i st \<longleftrightarrow> i < length (items (writes_list (sbuf st)))
     \<and> (\<forall>j < length (items (writes_list (sbuf st))). pw_socket (items (writes_list (sbuf st)) ! j) = s \<longleftrightarrow> j = i)
     \<and> pw_ok (items (writes_list (sbuf st)) ! i)"

lemma inv_record:
  assumes "writes_inv st" "s \<in> set (items (write_pending st))"
  obtains i where "record_at s i st"
proof -
  let ?ws = "items (writes_list (sbuf st))"
  have "s \<in> set (map pw_socket ?ws)"
    using assms unfolding writes_inv_def by blast
  then obtain i where i: "i < length ?ws" "pw_socket (?ws ! i) = s"
    by (auto simp: in_set_conv_nth)
  have "pw_socket (?ws ! j) = s \<longleftrightarrow> j = i" if "j < length ?ws" for j
    using assms(1) that i nth_eq_iff_index_eq [of "map pw_socket ?ws" j i] by (auto simp: writes_inv_def)
  then show thesis
    using that [of i] i assms(1) by (simp add: record_at_def writes_inv_def)
qed

lemma record_find:
  "record_at s i st \<Longrightarrow> cl_find (pending_socketcompare s) (writes_list (sbuf st)) =
     (Some i, (writes_list (sbuf st))\<lparr>cursor := Some i\<rparr>)"
  using cl_index_unique [of i "writes_list (sbuf st)" "pending_socketcompare s"]
  by (simp add: record_at_def cl_find_def pending_socketcompare_def)

text \<open>One call of \<open>Socket_continueWrite\<close>: what it hands to the kernel and what it makes of the answer.\<close>

lemma continueWrite_step:
  assumes "record_at s i st"
  defines "pw \<equiv> items (writes_list (sbuf st)) ! i"
  shows "\<exists>rc st'. Socket_continueWrite K s st = Done (rc, st') \<and> write_pending st' = write_pending st
    \<and> os st' = snd (sys_writev K s (remaining_iovecs (pw_bytes pw) 0 (iovecs pw)) (os st))
    \<and> (case fst (sys_writev K s (remaining_iovecs (pw_bytes pw) 0 (iovecs pw)) (os st)) of
         Writev_failed err \<Rightarrow> if err = EWOULDBLOCK \<or> err = EAGAIN
             then rc = (if int (pw_bytes pw) = pw_total pw then 1 else 0)
               \<and> items (writes_list (sbuf st')) = items (writes_list (sbuf st))
             else rc = SOCKET_ERROR \<and> items (writes_list (sbuf st')) = items (writes_list (sbuf st))
       | Written n \<Rightarrow> rc = (if int (pw_bytes pw + n) = pw_total pw then 1 else 0)
           \<and> items (writes_list (sbuf st')) = (items (writes_list (sbuf st)))[i := pw\<lparr>pw_bytes := pw_bytes pw + n\<rparr>])"
proof -
  let ?ws = "writes_list (sbuf st)" and ?vs = "remaining_iovecs (pw_bytes pw) 0 (iovecs pw)"
  have r: "i < length (items ?ws)" "cl_find (pending_socketcompare s) ?ws = (Some i, ?ws\<lparr>cursor := Some i\<rparr>)" "pw_ok pw"
    using assms record_find [OF assms(1)] by (simp_all add: record_at_def)
  have len: "length ?vs \<le> 5"
    using remaining_length [of "pw_bytes pw" 0 "iovecs pw"] r(3) by (simp add: pw_ok_def)
  have vs: "take (pw_count pw) (iovecs pw) = iovecs pw"
    using r(3) by (simp add: pw_ok_def)
  have same: "(items ?ws)[i := pw\<lparr>pw_bytes := pw_bytes pw\<rparr>] = items ?ws"
    using list_update_id [of "items ?ws" i] by (simp add: pw_def)
  show ?thesis
    using r len same
    by (cases "sys_writev K s ?vs (os st)"; cases "fst (sys_writev K s ?vs (os st))")
      (auto simp: Socket_continueWrite_def SocketBuffer_getWrite_def on_buffers_def on_os_def Socket_writev_def
        pw_def [symmetric] vs Let_def socket_codes)
qed

section \<open>A kernel that takes the bytes in order\<close>

text \<open>
  \<open>writev\<close> accepts some prefix of the buffers it is given, or says \<open>EAGAIN\<close>; it refuses to take
  anything only a bounded number of times.
\<close>

definition write_kernel :: "('k, 'a) kernel \<Rightarrow> int \<Rightarrow> ('k \<Rightarrow> u8 list) \<Rightarrow> ('k \<Rightarrow> nat) \<Rightarrow> bool" where
  "write_kernel K s out waits \<longleftrightarrow> (\<forall>vs k. concat vs \<noteq> [] \<longrightarrow> (case sys_writev K s vs k of
      (Written n, k') \<Rightarrow> n \<le> length (concat vs) \<and> out k' = out k @ take n (concat vs)
        \<and> (if n = 0 then waits k' < waits k else waits k' \<le> waits k)
    | (Writev_failed err, k') \<Rightarrow> err = EAGAIN \<and> out k' = out k \<and> waits k' < waits k))"

lemma write_kernel_cases [consumes 2, case_names data again]:
  assumes "write_kernel K s out waits" "concat vs \<noteq> []"
  obtains (data) n k' where "sys_writev K s vs k = (Written n, k')" "n \<le> length (concat vs)"
      "out k' = out k @ take n (concat vs)" "if n = 0 then waits k' < waits k else waits k' \<le> waits k"
  | (again) k' where "sys_writev K s vs k = (Writev_failed EAGAIN, k')" "out k' = out k" "waits k' < waits k"
proof (cases "sys_writev K s vs k")
  case (Pair r k')
  then show ?thesis
    using assms(1) [unfolded write_kernel_def, rule_format, OF assms(2), of k] data again by (cases r) auto
qed

text \<open>\<open>sending\<close>: of the packet \<open>p\<close> of socket \<open>s\<close> a proper prefix was accepted, after \<open>base\<close>.\<close>

definition sending :: "int \<Rightarrow> ('k \<Rightarrow> u8 list) \<Rightarrow> u8 list \<Rightarrow> u8 list \<Rightarrow> nat \<Rightarrow> 'k sockets \<Rightarrow> bool" where
  "sending s out base p b st \<longleftrightarrow> (\<exists>i. record_at s i st
     \<and> concat (iovecs (items (writes_list (sbuf st)) ! i)) = p
     \<and> pw_bytes (items (writes_list (sbuf st)) ! i) = b \<and> b < length p
     \<and> out (os st) = base @ take b p)"

lemma take_remaining:
  assumes "n \<le> length (concat (remaining_iovecs b 0 vs))"
  shows "take b (concat vs) @ take n (concat (remaining_iovecs b 0 vs)) = take (b + n) (concat vs)"
proof -
  obtain t where "drop b (concat vs) = concat (remaining_iovecs b 0 vs) @ t"
    using remaining_prefix [of b 0 vs] by auto
  then show ?thesis
    using assms by (simp add: take_add)
qed

lemma continueWrite_sends:
  fixes K :: "('k, 'a) kernel"
  assumes "sending s out base p b st" "write_kernel K s out waits"
  shows "\<exists>rc st'. Socket_continueWrite K s st = Done (rc, st') \<and> write_pending st' = write_pending st
    \<and> (if rc = 0 then \<exists>b'. sending s out base p b' st' \<and> length p - b' + waits (os st') < length p - b + waits (os st)
       else rc = 1 \<and> out (os st') = base @ p)"
proof -
  obtain i where i: "record_at s i st" "concat (iovecs (items (writes_list (sbuf st)) ! i)) = p"
    "pw_bytes (items (writes_list (sbuf st)) ! i) = b" "b < length p" "out (os st) = base @ take b p"
    using assms(1) unfolding sending_def by blast
  let ?ws = "items (writes_list (sbuf st))"
  define pw where "pw = ?ws ! i"
  let ?vs = "remaining_iovecs b 0 (iovecs pw)"
  have pw: "pw_ok pw" "concat (iovecs pw) = p" "pw_bytes pw = b" "pw_total pw = int (length p)"
    using i(1-3) by (simp_all add: record_at_def pw_def pw_ok_def)
  have ne: "concat ?vs \<noteq> []"
    using remaining_nonempty [of 0 b "iovecs pw"] pw(2) i(4) by simp
  have keep: "record_at s i st'" if "items (writes_list (sbuf st')) = ?ws[i := pw\<lparr>pw_bytes := c\<rparr>]" for st' :: "'k sockets" and c
    using i(1) pw(1) that by (auto simp: record_at_def nth_list_update pw_def [symmetric] pw_ok_def)
  obtain rc st' where run: "Socket_continueWrite K s st = Done (rc, st')" "write_pending st' = write_pending st"
    "os st' = snd (sys_writev K s ?vs (os st))"
    and res: "case fst (sys_writev K s ?vs (os st)) of
         Writev_failed err \<Rightarrow> if err = EWOULDBLOCK \<or> err = EAGAIN
             then rc = (if int (pw_bytes pw) = pw_total pw then 1 else 0) \<and> items (writes_list (sbuf st')) = ?ws
             else rc = SOCKET_ERROR \<and> items (writes_list (sbuf st')) = ?ws
       | Written n \<Rightarrow> rc = (if int (pw_bytes pw + n) = pw_total pw then 1 else 0)
           \<and> items (writes_list (sbuf st')) = ?ws[i := pw\<lparr>pw_bytes := pw_bytes pw + n\<rparr>]"
    using continueWrite_step [OF i(1), of K] unfolding pw_def [symmetric] pw(3) by blast
  from assms(2) ne show ?thesis
  proof (cases rule: write_kernel_cases [where k = "os st"])
    case (again k')
    then have "rc = 0" "items (writes_list (sbuf st')) = ?ws" "os st' = k'"
      using res run(3) pw i(4) by (simp_all add: EAGAIN_def EWOULDBLOCK_def)
    then show ?thesis
      using run again i unfolding sending_def record_at_def by (intro exI [of _ rc] exI [of _ st']) auto
  next
    case (data n k')
    then have upd: "rc = (if b + n = length p then 1 else 0)" "os st' = k'"
      "items (writes_list (sbuf st')) = ?ws[i := pw\<lparr>pw_bytes := b + n\<rparr>]"
      using res run(3) pw by simp_all
    have out: "out (os st') = base @ take (b + n) p"
      using data(2,3) upd(2) i(5) take_remaining [of n b "iovecs pw"] pw(2) by simp
    have "length (take (b + n) p) = b + n"
      using take_remaining [OF data(2)] pw(2) data(2) i(4) by (metis length_append length_take min.absorb4 min.absorb2 pw(2) less_or_eq_imp_le)
    then have le: "b + n \<le> length p"
      by simp
    show ?thesis
    proof (cases "b + n = length p")
      case True
      then show ?thesis
        using run upd out by (intro exI [of _ 1] exI [of _ st']) simp
    next
      case False
      have "items (writes_list (sbuf st')) ! i = pw\<lparr>pw_bytes := b + n\<rparr>"
        using upd(3) i(1) by (simp add: record_at_def)
      then have "sending s out base p (b + n) st'"
        unfolding sending_def by (rule_tac exI [of _ i]) (use keep [OF upd(3)] out le pw(2) False in simp)
      moreover have "length p - (b + n) + waits (os st') < length p - b + waits (os st)"
        using data(4) upd(2) False le i(4) by (cases "n = 0") simp_all
      ultimately show ?thesis
        using run upd False by (intro exI [of _ 0] exI [of _ st']) auto
    qed
  qed
qed


text \<open>The select loop calls \<open>Socket_continueWrite\<close> again while the packet is not complete.\<close>

primrec write_on :: "nat \<Rightarrow> ('k, 'a) kernel \<Rightarrow> int \<Rightarrow> 'k sockets \<Rightarrow> (int \<times> 'k sockets) outcome" where
  "write_on 0 K s st = Done (0, st)"
| "write_on (Suc tries) K s st =
     obind (Socket_continueWrite K s st) (\<lambda>(rc, st). if rc = 0 then write_on tries K s st else Done (rc, st))"

lemma write_on_sends:
  "sending s out base p b st \<Longrightarrow> write_kernel K s out waits \<Longrightarrow> length p - b + waits (os st) < tries \<Longrightarrow>
   \<exists>st'. write_on tries K s st = Done (1, st') \<and> out (os st') = base @ p"
proof (induction tries arbitrary: b st)
  case (Suc tries)
  obtain rc st' where run: "Socket_continueWrite K s st = Done (rc, st')"
    "if rc = 0 then \<exists>b'. sending s out base p b' st' \<and> length p - b' + waits (os st') < length p - b + waits (os st)
       else rc = 1 \<and> out (os st') = base @ p"
    using continueWrite_sends [OF Suc.prems(1,2)] by blast
  show ?case
  proof (cases "rc = 0")
    case True
    then obtain b' where "sending s out base p b' st'" "length p - b' + waits (os st') < tries"
      using run(2) Suc.prems(3) by auto
    then show ?thesis
      using Suc.IH [OF _ Suc.prems(2)] run(1) True by auto
  qed (use run in simp)
qed simp

lemma total_length: "sum_list (map (int \<circ> length) vs) = int (length (concat vs))"
  by (induction vs) simp_all

definition with_pending :: "int \<Rightarrow> u8 list list \<Rightarrow> bool list \<Rightarrow> nat \<Rightarrow> 'k \<Rightarrow> 'k sockets \<Rightarrow> 'k sockets" where
  "with_pending s vs frees n k st = st\<lparr>os := k,
     sbuf := SocketBuffer_pendingWrite s vs frees (int (length (concat vs))) n (sbuf st),
     write_pending := cl_append s (write_pending st), pending_wset := FD_SET s (pending_wset st)\<rparr>"

lemma with_pending_inv:
  assumes "writes_inv st" "s \<notin> set (items (write_pending st))" "length vs \<le> 5"
  shows "writes_inv (with_pending s vs frees n k st)"
    "record_at s (length (items (writes_list (sbuf st)))) (with_pending s vs frees n k st)"
proof -
  let ?ws = "items (writes_list (sbuf st))"
  have none: "\<forall>pw \<in> set ?ws. pw_socket pw \<noteq> s"
    using assms(1,2) by (auto simp: writes_inv_def)
  then have "pw_socket (?ws ! j) \<noteq> s" if "j < length ?ws" for j
    using that by simp
  then show "record_at s (length ?ws) (with_pending s vs frees n k st)"
    using assms(3) by (auto simp: record_at_def with_pending_def SocketBuffer_pendingWrite_def nth_append
        pw_ok_def less_Suc_eq)
  show "writes_inv (with_pending s vs frees n k st)"
    using assms none
    by (auto simp: writes_inv_def with_pending_def SocketBuffer_pendingWrite_def pw_ok_def intro: cl_wf_append)
qed

lemma putdatas_sends:
  fixes K :: "('k, 'a) kernel"
  assumes inv: "writes_inv st" and s: "s \<notin> set (items (write_pending st))" and K: "write_kernel K s out waits"
    and "buf0 \<noteq> []" "length bufs \<le> 4"
  defines "p \<equiv> buf0 @ concat bufs"
  shows "\<exists>rc st'. Socket_putdatas K s buf0 bufs frees st = Done (rc, st') \<and> writes_inv st'
    \<and> (if rc = TCPSOCKET_INTERRUPTED
       then items (write_pending st') = items (write_pending st) @ [s]
         \<and> (\<exists>b. sending s out (out (os st)) p b st' \<and> length p - b + waits (os st') \<le> length p + waits (os st))
       else rc = TCPSOCKET_COMPLETE \<and> out (os st') = out (os st) @ p
         \<and> items (write_pending st') = items (write_pending st))"
proof -
  let ?vs = "buf0 # bufs" and ?ws = "items (writes_list (sbuf st))"
  have none: "Socket_noPendingWrites s st = (True, st)"
    using s cl_index_None [of "intcompare s" "write_pending st"]
    by (auto simp: Socket_noPendingWrites_def cl_find_def intcompare_def)
  have p: "concat ?vs = p" "p \<noteq> []" "length ?vs \<le> 5"
    using assms(4,5) by (simp_all add: p_def)
  have tot: "sum_list (map (int \<circ> length) ?vs) = int (length p)"
    using total_length [of ?vs] unfolding p(1) .
  have partly: ?thesis
    if run: "Socket_putdatas K s buf0 bufs frees st = Done (TCPSOCKET_INTERRUPTED, with_pending s ?vs (True # frees) n k st)"
      and n: "n < length p" "out k = out (os st) @ take n p" "waits k \<le> waits (os st)" for n k
  proof -
    let ?st = "with_pending s ?vs (True # frees) n k st"
    let ?pw = "items (writes_list (sbuf ?st)) ! length ?ws"
    have "iovecs ?pw = ?vs" "pw_bytes ?pw = n" and os: "os ?st = k"
      by (simp_all add: with_pending_def SocketBuffer_pendingWrite_def)
    then have "sending s out (out (os st)) p n ?st"
      unfolding sending_def using with_pending_inv(2) [OF inv s p(3), of "True # frees" n k] n p(1)
      by (intro exI [of _ "length ?ws"]) simp
    moreover have "items (write_pending ?st) = items (write_pending st) @ [s]"
      by (simp add: with_pending_def)
    ultimately show ?thesis
      using run n(3) os with_pending_inv(1) [OF inv s p(3)] by auto
  qed
  have "concat ?vs \<noteq> []"
    using p by simp
  with K show ?thesis
  proof (cases rule: write_kernel_cases [where k = "os st"])
    case (again k')
    have "Socket_putdatas K s buf0 bufs frees st = Done (TCPSOCKET_INTERRUPTED, with_pending s ?vs (True # frees) 0 k' st)"
      using again none tot p assms(5)
      by (simp add: Socket_putdatas_def Socket_writev_def on_os_def Let_def socket_codes with_pending_def EAGAIN_def
          EWOULDBLOCK_def)
    then show ?thesis
      using again p(2) by (intro partly [of 0 k']) simp_all
  next
    case (data n k')
    show ?thesis
    proof (cases "n = length p")
      case True
      then have "Socket_putdatas K s buf0 bufs frees st = Done (TCPSOCKET_COMPLETE, st\<lparr>os := k'\<rparr>)"
        using data none tot p assms(5)
        by (simp add: Socket_putdatas_def Socket_writev_def on_os_def Let_def socket_codes)
      then show ?thesis
        using data(3) True p(1) inv by (auto simp: writes_inv_def socket_codes)
    next
      case False
      then have "Socket_putdatas K s buf0 bufs frees st =
          Done (TCPSOCKET_INTERRUPTED, with_pending s ?vs (True # frees) n k' st)"
        using data none tot p assms(5)
        by (simp add: Socket_putdatas_def Socket_writev_def on_os_def Let_def socket_codes with_pending_def)
      then show ?thesis
        using data False p(1) by (intro partly [of n k']) (auto split: if_splits)
    qed
  qed
qed

definition write_packet ::
    "nat \<Rightarrow> ('k, 'a) kernel \<Rightarrow> int \<Rightarrow> u8 list \<Rightarrow> u8 list list \<Rightarrow> bool list \<Rightarrow> 'k sockets \<Rightarrow> (int \<times> 'k sockets) outcome" where
  "write_packet tries K s buf0 bufs frees st =
     obind (Socket_putdatas K s buf0 bufs frees st) (\<lambda>(rc, st).
       if rc = TCPSOCKET_INTERRUPTED then write_on tries K s st
       else Done (if rc = TCPSOCKET_COMPLETE then 1 else rc, st))"

text \<open>
  C16: A packet is written whole: however the kernel cuts it, as long as it refuses only finitely
  often, \<open>Socket_putdatas\<close> and then \<open>Socket_continueWrite\<close> until it reports completion hand over
  exactly the bytes of the packet, in order and once each, and commit no memory fault.
\<close>

theorem packet_written_in_pieces:
  assumes "writes_inv st" "s \<notin> set (items (write_pending st))" "write_kernel K s out waits"
    and "buf0 \<noteq> []" "length bufs \<le> 4"
    and "length (buf0 @ concat bufs) + waits (os st) < tries"
  shows "\<exists>st'. write_packet tries K s buf0 bufs frees st = Done (1, st')
    \<and> out (os st') = out (os st) @ buf0 @ concat bufs"
proof -
  let ?p = "buf0 @ concat bufs"
  obtain rc st1 where put: "Socket_putdatas K s buf0 bufs frees st = Done (rc, st1)"
    "if rc = TCPSOCKET_INTERRUPTED
     then items (write_pending st1) = items (write_pending st) @ [s]
       \<and> (\<exists>b. sending s out (out (os st)) ?p b st1 \<and> length ?p - b + waits (os st1) \<le> length ?p + waits (os st))
     else rc = TCPSOCKET_COMPLETE \<and> out (os st1) = out (os st) @ ?p
       \<and> items (write_pending st1) = items (write_pending st)"
    using putdatas_sends [OF assms(1-5), of frees] by blast
  show ?thesis
  proof (cases "rc = TCPSOCKET_INTERRUPTED")
    case True
    then obtain b where "sending s out (out (os st)) ?p b st1" "length ?p - b + waits (os st1) < tries"
      using put(2) assms(6) le_less_trans by (metis (no_types, lifting))
    from write_on_sends [OF this(1) assms(3) this(2)] show ?thesis
      using put(1) True by (simp add: write_packet_def)
  qed (use put in \<open>simp add: write_packet_def socket_codes\<close>)
qed

section \<open>The loop over the pending writes\<close>

lemma delete_set:
  assumes "distinct xs" "i < length xs"
  shows "distinct (take i xs @ drop (Suc i) xs)" "set (take i xs @ drop (Suc i) xs) = set xs - {xs ! i}"
proof -
  obtain us x vs where "xs = us @ x # vs" "length us = i"
    using id_take_nth_drop [OF assms(2)] assms(2) by (metis length_take min.absorb4)
  then show "distinct (take i xs @ drop (Suc i) xs)" "set (take i xs @ drop (Suc i) xs) = set xs - {xs ! i}"
    using assms(1) by (auto simp: nth_append)
qed

lemma continueWrite_inv:
  assumes "writes_inv st" "s \<in> set (items (write_pending st))"
  shows "\<exists>rc st'. Socket_continueWrite K s st = Done (rc, st') \<and> write_pending st' = write_pending st \<and> writes_inv st'"
proof -
  obtain i where i: "record_at s i st"
    using inv_record [OF assms] .
  let ?ws = "items (writes_list (sbuf st))"
  have lt: "i < length ?ws"
    using i by (simp add: record_at_def)
  obtain rc st' where run: "Socket_continueWrite K s st = Done (rc, st')" "write_pending st' = write_pending st"
    and upd: "\<exists>c. items (writes_list (sbuf st')) = ?ws[i := (?ws ! i)\<lparr>pw_bytes := c\<rparr>]"
  proof -
    have same: "?ws[i := (?ws ! i)\<lparr>pw_bytes := pw_bytes (?ws ! i)\<rparr>] = ?ws"
      using list_update_id [of ?ws i] by simp
    obtain rc st' where st': "Socket_continueWrite K s st = Done (rc, st')" "write_pending st' = write_pending st"
      and r: "case fst (sys_writev K s (remaining_iovecs (pw_bytes (?ws ! i)) 0 (iovecs (?ws ! i))) (os st)) of
         Writev_failed err \<Rightarrow> if err = EWOULDBLOCK \<or> err = EAGAIN
             then rc = (if int (pw_bytes (?ws ! i)) = pw_total (?ws ! i) then 1 else 0)
               \<and> items (writes_list (sbuf st')) = ?ws
             else rc = SOCKET_ERROR \<and> items (writes_list (sbuf st')) = ?ws
       | Written n \<Rightarrow> rc = (if int (pw_bytes (?ws ! i) + n) = pw_total (?ws ! i) then 1 else 0)
           \<and> items (writes_list (sbuf st')) = ?ws[i := (?ws ! i)\<lparr>pw_bytes := pw_bytes (?ws ! i) + n\<rparr>]"
      using continueWrite_step [OF i, of K] by blast
    have "\<exists>c. items (writes_list (sbuf st')) = ?ws[i := (?ws ! i)\<lparr>pw_bytes := c\<rparr>]"
    proof (cases "fst (sys_writev K s (remaining_iovecs (pw_bytes (?ws ! i)) 0 (iovecs (?ws ! i))) (os st))")
      case (Written n)
      then show ?thesis
        using r by auto
    next
      case (Writev_failed err)
      then have "items (writes_list (sbuf st')) = ?ws"
        using r by (simp split: if_splits)
      then show ?thesis
        using same by metis
    qed
    with st' show thesis
      by (rule that)
  qed
  then obtain c where c: "items (writes_list (sbuf st')) = ?ws[i := (?ws ! i)\<lparr>pw_bytes := c\<rparr>]"
    by blast
  then have "map pw_socket (items (writes_list (sbuf st'))) = map pw_socket ?ws"
    using list_update_id [of "map pw_socket ?ws" i] lt by (simp add: map_update)
  moreover have "\<forall>pw \<in> set (items (writes_list (sbuf st'))). pw_ok pw"
  proof
    fix pw
    assume "pw \<in> set (items (writes_list (sbuf st')))"
    then consider "pw = (?ws ! i)\<lparr>pw_bytes := c\<rparr>" | "pw \<in> set ?ws"
      using c set_update_subset_insert [of ?ws i "(?ws ! i)\<lparr>pw_bytes := c\<rparr>"] by auto
    then show "pw_ok pw"
      using i assms(1) by cases (auto simp: writes_inv_def record_at_def pw_ok_def)
  qed
  ultimately have "writes_inv st'"
    using run(2) assms(1) unfolding writes_inv_def by presburger
  then show ?thesis
    using run by blast
qed

text \<open>What the loop does with a socket that is done.\<close>

definition done_with :: "int \<Rightarrow> nat \<Rightarrow> 'k sockets \<Rightarrow> 'k sockets" where
  "done_with s i st = st\<lparr>sbuf := snd (SocketBuffer_writeComplete s (sbuf st)),
     pending_wset := FD_CLR s (pending_wset st), write_pending := cl_delete i (write_pending st)\<rparr>"

lemma done_with_inv:
  assumes "writes_inv st" "i < length (items (write_pending st))" "items (write_pending st) ! i = s"
  shows "writes_inv (done_with s i st)"
    "set (items (write_pending (done_with s i st))) = set (items (write_pending st)) - {s}"
    "Suc (length (items (write_pending (done_with s i st)))) = length (items (write_pending st))"
proof -
  let ?wp = "items (write_pending st)" and ?ws = "items (writes_list (sbuf st))"
  have inv: "distinct ?wp" "distinct (map pw_socket ?ws)" "set (map pw_socket ?ws) = set ?wp"
    "\<forall>pw \<in> set ?ws. pw_ok pw" "cl_wf (write_pending st)"
    using assms(1) unfolding writes_inv_def by blast+
  obtain j where j: "record_at s j st"
    using inv_record [OF assms(1), of s] assms(2,3) by (metis nth_mem)
  then have "j < length ?ws" "pw_socket (?ws ! j) = s"
    by (simp_all add: record_at_def)
  moreover have "items (writes_list (sbuf (done_with s i st))) = take j ?ws @ drop (Suc j) ?ws"
    using record_find [OF j] cl_index_Some [of "pending_socketcompare s" "writes_list (sbuf st)"]
    by (auto simp: done_with_def SocketBuffer_writeComplete_def cl_unlink_def cl_find_def items_delete split: option.splits)
  moreover have "items (write_pending (done_with s i st)) = take i ?wp @ drop (Suc i) ?wp"
    by (simp add: done_with_def items_delete)
  moreover have "cl_wf (write_pending (done_with s i st))"
    using inv(5) assms(2) by (simp add: done_with_def cl_wf_delete)
  moreover have "map pw_socket (take j ?ws @ drop (Suc j) ?ws) = take j (map pw_socket ?ws) @ drop (Suc j) (map pw_socket ?ws)"
    by (simp add: take_map drop_map)
  ultimately show "writes_inv (done_with s i st)"
    "set (items (write_pending (done_with s i st))) = set (items (write_pending st)) - {s}"
    "Suc (length (items (write_pending (done_with s i st)))) = length (items (write_pending st))"
    using delete_set [OF inv(1) assms(2)] delete_set [OF inv(2), of j] inv(3,4) assms(2,3)
    unfolding writes_inv_def by (auto dest: in_set_takeD in_set_dropD)
qed

text \<open>The write-complete callback may do anything except add or remove a pending write.\<close>

definition wc_keeps :: "(int \<Rightarrow> 'k sockets \<Rightarrow> 'k sockets outcome) \<Rightarrow> bool" where
  "wc_keeps wc \<longleftrightarrow> (\<forall>s st. \<exists>st'. wc s st = Done st' \<and> items (write_pending st') = items (write_pending st)
     \<and> items (writes_list (sbuf st')) = items (writes_list (sbuf st))
     \<and> (cl_wf (write_pending st) \<longrightarrow> cl_wf (write_pending st')))"

lemma continue_loop_returns:
  "writes_inv st \<Longrightarrow> wc_keeps wc \<Longrightarrow> (\<And>i. cur = Some i \<Longrightarrow> i < length (items (write_pending st))) \<Longrightarrow>
   \<exists>st'. continue_loop K wc pwset cur st = Some (Done st') \<and> writes_inv st'
     \<and> set (items (write_pending st')) \<subseteq> set (items (write_pending st))
     \<and> (\<forall>s \<in> set (items (write_pending st)). \<not> pwset s \<longrightarrow> s \<in> set (items (write_pending st')))"
proof (induction "let n = length (items (write_pending st)) in n * (n + 1) + (case cur of None \<Rightarrow> 0 | Some i \<Rightarrow> n - i)"
    arbitrary: cur st rule: less_induct)
  case less
  show ?case
  proof (cases cur)
    case None
    then show ?thesis
      using less.prems by (subst continue_loop.simps) simp
  next
    case (Some i)
    let ?wp = "items (write_pending st)"
    let ?s = "?wp ! i"
    have i: "i < length ?wp"
      using less.prems(3) Some by blast
    obtain rc st1 where c: "(if pwset ?s then Socket_continueWrite K ?s st else Done (0, st)) = Done (rc, st1)"
      "write_pending st1 = write_pending st" "writes_inv st1" "rc \<noteq> 0 \<Longrightarrow> pwset ?s"
    proof (cases "pwset ?s")
      case True
      then show thesis
        using that continueWrite_inv [OF less.prems(1), of ?s K] i by auto
    qed (use that less.prems(1) in auto)
    show ?thesis
    proof (cases "rc = 0")
      case True
      let ?next = "if Suc i < length ?wp then Some (Suc i) else None"
      have "continue_loop K wc pwset cur st = continue_loop K wc pwset ?next st1"
        using Some i c True by (subst continue_loop.simps) (simp add: Let_def)
      moreover have "\<exists>st'. continue_loop K wc pwset ?next st1 = Some (Done st') \<and> writes_inv st'
         \<and> set (items (write_pending st')) \<subseteq> set (items (write_pending st1))
         \<and> (\<forall>s \<in> set (items (write_pending st1)). \<not> pwset s \<longrightarrow> s \<in> set (items (write_pending st')))"
        using Some i c(2,3) less.prems(2) by (intro less.hyps) (auto simp: Let_def split: if_splits)
      ultimately show ?thesis
        using c(2) by simp
    next
      case False
      let ?st2 = "done_with ?s i st1"
      have st2: "writes_inv ?st2" "set (items (write_pending ?st2)) = set ?wp - {?s}"
        "Suc (length (items (write_pending ?st2))) = length ?wp"
        using done_with_inv [OF c(3)] i c(2) by simp_all
      obtain st3 where st3: "wc ?s ?st2 = Done st3" "items (write_pending st3) = items (write_pending ?st2)"
        "items (writes_list (sbuf st3)) = items (writes_list (sbuf ?st2))" "cl_wf (write_pending st3)"
        using less.prems(2) st2(1) unfolding wc_keeps_def writes_inv_def by metis
      have inv3: "writes_inv st3"
        using st2(1) st3 by (simp add: writes_inv_def)
      have cur: "\<And>k. cursor (write_pending ?st2) = Some k \<Longrightarrow> k < length (items (write_pending st3))"
        using st2(1) st3(2) by (simp add: writes_inv_def cl_wf_def)
      have "continue_loop K wc pwset cur st = continue_loop K wc pwset (cursor (write_pending ?st2)) st3"
        using Some i c False st3(1) by (subst continue_loop.simps) (simp add: Let_def on_buffers_def done_with_def)
      moreover have "\<exists>st'. continue_loop K wc pwset (cursor (write_pending ?st2)) st3 = Some (Done st') \<and> writes_inv st'
         \<and> set (items (write_pending st')) \<subseteq> set (items (write_pending st3))
         \<and> (\<forall>s \<in> set (items (write_pending st3)). \<not> pwset s \<longrightarrow> s \<in> set (items (write_pending st')))"
      proof (rule less.hyps [OF _ inv3 less.prems(2) cur])
        let ?n = "length (items (write_pending st3))"
        have "(case cursor (write_pending ?st2) of None \<Rightarrow> 0 | Some k \<Rightarrow> ?n - k) \<le> ?n"
          by (simp split: option.split)
        moreover have "length ?wp = Suc ?n"
          using st2(3) st3(2) by simp
        ultimately show "(let n = ?n in n * (n + 1) + (case cursor (write_pending ?st2) of None \<Rightarrow> 0 | Some k \<Rightarrow> n - k))
            < (let n = length ?wp in n * (n + 1) + (case cur of None \<Rightarrow> 0 | Some i \<Rightarrow> n - i))"
          by (simp add: Let_def)
      qed
      ultimately show ?thesis
        using st3(2) st2(2) c(4) False by auto
    qed
  qed
qed


section \<open>A scripted kernel for writing\<close>

text \<open>Each entry of the script is the number of bytes the kernel takes next; the second part is what it took.\<close>

definition taking_kernel :: "(nat list \<times> u8 list, unit) kernel" where
  "taking_kernel =
     \<lparr>sys_recv = (\<lambda>_ _ k. (Recv_failed EAGAIN, k)),
      sys_writev = (\<lambda>_ vs (ns, got). case ns of
          [] \<Rightarrow> (Written (length (concat vs)), [], got @ concat vs)
        | n # ns \<Rightarrow> if n = 0 then (Writev_failed EAGAIN, ns, got)
            else (Written (min n (length (concat vs))), ns, got @ take n (concat vs))),
      sys_select = (\<lambda>_ r w _ k. ((0, \<lambda>_. False, \<lambda>_. False), k)),
      sys_getfl = (\<lambda>_ k. (0, k)), sys_setfl = (\<lambda>_ _ k. (0, k)), sys_shutdown = (\<lambda>_ k. (0, k)),
      sys_close = (\<lambda>_ k. (0, k)), sys_getaddrinfo = (\<lambda>_ k. ((0, []), k)),
      sys_socket = (\<lambda>_ k. ((-1, 0), k)), sys_connect = (\<lambda>_ _ k. ((0, 0), k)), sys_errno = (\<lambda>_. 0),
      sys_so_error = (\<lambda>_ k. ((0, 0), k)), sys_usleep = (\<lambda>_ k. k)\<rparr>"

lemma taking_is_write_kernel:
  "write_kernel taking_kernel s snd (\<lambda>(ns, _). length (filter ((=) 0) ns))"
  by (auto simp: write_kernel_def taking_kernel_def min_def split: list.split)

definition nothing_pending :: "'k \<Rightarrow> 'k sockets" where
  "nothing_pending k =
     \<lparr>sbuf = \<lparr>def_queue = \<lparr>q_socket = 0, q_index = 0, headerlen = 0, fixed_header_bytes = replicate 5 0,
        buflen = 0, datalen = 0, qbuf = []\<rparr>, queues = cl_new, writes_list = cl_new\<rparr>,
      rset = FD_ZERO, rset_saved = FD_ZERO, wset = FD_ZERO, pending_wset = FD_ZERO, maxfdp1 = 0,
      clientsds = cl_new, cur_clientsds = None, connect_pending = cl_new, write_pending = cl_new,
      released = [], os = k\<rparr>"

lemma nothing_pending_inv:
  "writes_inv (nothing_pending k)" "items (write_pending (nothing_pending k)) = []" "os (nothing_pending k) = k"
  by (simp_all add: writes_inv_def nothing_pending_def cl_wf_def)

theorem packet_written_in_pieces_witness:
  "\<exists>st'. write_packet 12 taking_kernel 5 [0x30, 5] [[0, 1, 0x61], [1, 2]] [True, False]
      (nothing_pending ([3, 0, 2], [])) = Done (1, st')
    \<and> snd (os st') = [] @ [0x30, 5] @ concat [[0, 1, 0x61], [1, 2 :: u8]]"
  using packet_written_in_pieces [OF nothing_pending_inv(1) _ taking_is_write_kernel, of 5 "([3, 0, 2], [])" "[0x30, 5]"
      "[[0, 1, 0x61], [1, 2]]" 12 "[True, False]"]
  by (simp add: nothing_pending_inv)


section \<open>A write that fails\<close>

text \<open>
  A socket whose resumed write fails for good is treated as done: the error code of
  \<open>Socket_continueWrite\<close> is not zero, so \<open>Socket_continueWrites\<close> drops the record of what is left and
  reports success to its caller, though nothing more of the packet was taken.
\<close>

theorem write_error_drops_rest:
  assumes "writes_inv st" "items (write_pending st) = [s]" "pwset s"
    and "\<And>vs. \<exists>err k'. sys_writev K s vs (os st) = (Writev_failed err, k') \<and> err \<noteq> EAGAIN \<and> out k' = out (os st)"
  shows "\<exists>st'. Socket_continueWrites K (\<lambda>_ st. Done st) pwset st = Done (0, st')
    \<and> items (write_pending st') = [] \<and> items (writes_list (sbuf st')) = [] \<and> out (os st') = out (os st)"
proof -
  obtain i where i: "record_at s i st"
    using inv_record [OF assms(1), of s] assms(2) by auto
  let ?pw = "items (writes_list (sbuf st)) ! i"
  obtain err k' where k: "sys_writev K s (remaining_iovecs (pw_bytes ?pw) 0 (iovecs ?pw)) (os st) = (Writev_failed err, k')"
    "err \<noteq> EAGAIN" "out k' = out (os st)"
    using assms(4) by blast
  obtain st1 where st1: "Socket_continueWrite K s st = Done (SOCKET_ERROR, st1)" "write_pending st1 = write_pending st"
    "os st1 = k'" "items (writes_list (sbuf st1)) = items (writes_list (sbuf st))"
    using continueWrite_step [OF i, of K] k by (auto simp: EAGAIN_def EWOULDBLOCK_def)
  have inv1: "writes_inv st1"
    using assms(1) st1 by (simp add: writes_inv_def)
  let ?st2 = "done_with s 0 st1"
  have st2: "writes_inv ?st2" "items (write_pending ?st2) = []" "os ?st2 = k'"
    using done_with_inv [OF inv1, of 0 s] assms(2) st1(2,3) by (simp_all add: done_with_def)
  then have "items (writes_list (sbuf ?st2)) = []" "cursor (write_pending ?st2) = None"
    by (auto simp: writes_inv_def cl_wf_def)
  then have "continue_loop K (\<lambda>_ st. Done st) pwset (Some 0) st = Some (Done ?st2)"
    using st1(1,2) assms(2,3)
    by (subst continue_loop.simps) (simp add: Let_def on_buffers_def done_with_def socket_codes continue_loop.simps)
  then show ?thesis
    using st2 \<open>items (writes_list (sbuf ?st2)) = []\<close> assms(2) k(3)
    by (simp add: Socket_continueWrites_def run_loop_def)
qed

definition failing_kernel :: "(nat list \<times> u8 list, unit) kernel" where
  "failing_kernel = taking_kernel\<lparr>sys_writev := (\<lambda>_ _ k. (Writev_failed 104, k))\<rparr>"

theorem write_error_drops_rest_witness:
  "\<exists>st'. Socket_continueWrites failing_kernel (\<lambda>_ st. Done st) (\<lambda>s. s = 5)
      (with_pending 5 [[1, 2], [3]] [True] 1 ([], [1]) (nothing_pending ([], []))) = Done (0, st')
    \<and> items (write_pending st') = [] \<and> items (writes_list (sbuf st')) = [] \<and> snd (os st') = [1]"
  using write_error_drops_rest [OF with_pending_inv(1) [OF nothing_pending_inv(1)], of 5 "([], [])" "[[1, 2], [3]]" "[True]" 1
      "([], [1])" 5 "\<lambda>s. s = 5" failing_kernel snd]
  by (simp add: nothing_pending_inv with_pending_def failing_kernel_def EAGAIN_def)

end
