(* ===== verification/Mqtt_Session.thy ===== *)
theory Mqtt_Session
  imports Mqtt_Net Socket_Write "HOL-Library.Multiset"
begin

text \<open>
  The invariant of a session: every publication is stored exactly as long as a message refers to it,
  its reference count is the number of those messages, and the messages are in the states the
  exchanges of quality of service 1 and 2 go through.  Every event of the session keeps it and
  commits no memory fault, so that no publication is used after it was released, released twice or
  lost.  The clients have no persistence, which is how \<^verbatim>\<open>mqtt/source/mqtt.c\<close> creates them.
\<close>

section \<open>References\<close>

definition list_refs :: "messages clist \<Rightarrow> nat multiset" where
  "list_refs l = image_mset m_publish (mset (items l))"

definition in_refs :: "('k, 'p, 'u) mqtt \<Rightarrow> nat multiset" where
  "in_refs st = sum_list (map (\<lambda>c. list_refs (inboundMsgs c)) (items (clients st)))"

definition out_refs :: "('k, 'p, 'u) mqtt \<Rightarrow> nat multiset" where
  "out_refs st = sum_list (map (\<lambda>c. list_refs (outboundMsgs c)) (items (clients st)))"

definition refs :: "('k, 'p, 'u) mqtt \<Rightarrow> nat multiset" where
  "refs st = in_refs st + out_refs st + image_mset snd (mset (items (pending_qos0 st)))"

definition pub_fits :: "publication \<Rightarrow> bool" where
  "pub_fits p \<longleftrightarrow> p_payloadlen p = int (length (p_payload p)) \<and> length (p_topic p) + length (p_payload p) + 4 < 2 ^ 28"

definition publish_fits :: "publish \<Rightarrow> bool" where
  "publish_fits p \<longleftrightarrow> pub_payloadlen p = int (length (pub_payload p))
     \<and> length (pub_topic p) + length (pub_payload p) + 4 < 2 ^ 28"

text \<open>\<open>owned R st\<close>: the heap of publications, when the references to it are the multiset \<open>R\<close>.\<close>

definition owned :: "nat multiset \<Rightarrow> ('k, 'p, 'u) mqtt \<Rightarrow> bool" where
  "owned R st \<longleftrightarrow>
     (\<forall>a. a \<in># R \<longleftrightarrow> heap_pubs st a \<noteq> None)
     \<and> (\<forall>a p. heap_pubs st a = Some p \<longrightarrow> refcount p = int (count R a) \<and> pub_fits p)
     \<and> distinct (items (stored st)) \<and> (\<forall>a. a \<in> set (items (stored st)) \<longleftrightarrow> heap_pubs st a \<noteq> None)
     \<and> (\<forall>a. next_pub st \<le> a \<longrightarrow> heap_pubs st a = None)"

lemma owned_heap:
  assumes "owned R st" "a \<in># R"
  obtains p where "heap_pubs st a = Some p" "refcount p = int (count R a)" "pub_fits p" "a \<in> set (items (stored st))"
  using assms unfolding owned_def by blast

lemma owned_cong:
  "heap_pubs st' = heap_pubs st \<Longrightarrow> stored st' = stored st \<Longrightarrow> next_pub st' = next_pub st \<Longrightarrow> owned R st' \<longleftrightarrow> owned R st"
  by (simp add: owned_def)

lemma owned_update [simp]:
  "owned R (st\<lparr>clients := v1\<rparr>) = owned R st" "owned R (st\<lparr>pending_qos0 := v2\<rparr>) = owned R st"
  "owned R (st\<lparr>socks := v3\<rparr>) = owned R st" "owned R (st\<lparr>app := v4\<rparr>) = owned R st"
  "owned R (st\<lparr>handles := v5\<rparr>) = owned R st" "owned R (st\<lparr>commands := v6\<rparr>) = owned R st"
  "owned R (st\<lparr>msgs_sent := v7\<rparr>) = owned R st" "owned R (st\<lparr>msgs_received := v7\<rparr>) = owned R st"
  "owned R (st\<lparr>store := v8\<rparr>) = owned R st" "owned R (upd_client i f st) = owned R st"
  by (simp_all add: owned_def upd_client_def)

text \<open>Everything but the heap of publications.\<close>

definition heap_only :: "('k, 'p, 'u) mqtt \<Rightarrow> ('k, 'p, 'u) mqtt \<Rightarrow> bool" where
  "heap_only st st' \<longleftrightarrow> st' = st\<lparr>heap_pubs := heap_pubs st', stored := stored st', next_pub := next_pub st'\<rparr>"

lemma heap_only_fields:
  assumes "heap_only st st'"
  shows "clients st' = clients st" "pending_qos0 st' = pending_qos0 st" "socks st' = socks st" "app st' = app st"
    "handles st' = handles st" "commands st' = commands st" "msgs_sent st' = msgs_sent st"
    "msgs_received st' = msgs_received st" "store st' = store st" "client_at i st' = client_at i st"
proof -
  have st': "st' = st\<lparr>heap_pubs := heap_pubs st', stored := stored st', next_pub := next_pub st'\<rparr>"
    using assms by (simp only: heap_only_def)
  show "clients st' = clients st" "pending_qos0 st' = pending_qos0 st" "socks st' = socks st" "app st' = app st"
    "handles st' = handles st" "commands st' = commands st" "msgs_sent st' = msgs_sent st"
    "msgs_received st' = msgs_received st" "store st' = store st" "client_at i st' = client_at i st"
    by (subst st', simp add: client_at_def)+
qed

lemma heap_only_trans: "heap_only st1 st2 \<Longrightarrow> heap_only st2 st3 \<Longrightarrow> heap_only st1 st3"
proof -
  assume 12: "heap_only st1 st2" and 23: "heap_only st2 st3"
  have "st3 = st2\<lparr>heap_pubs := heap_pubs st3, stored := stored st3, next_pub := next_pub st3\<rparr>"
    using 23 by (simp only: heap_only_def)
  also have "\<dots> = st1\<lparr>heap_pubs := heap_pubs st3, stored := stored st3, next_pub := next_pub st3\<rparr>"
    by (subst 12 [unfolded heap_only_def]) simp
  finally show "heap_only st1 st3"
    by (simp only: heap_only_def)
qed

lemma store_owned:
  assumes "owned R st" "publish_fits p"
  shows "\<exists>a st'. MQTTProtocol_storePublication p st = Done (a, st') \<and> owned (add_mset a R) st' \<and> a \<notin># R
    \<and> heap_only st st' \<and> heap_pubs st' a = Some \<lparr>p_topic = pub_topic p, p_topiclen = pub_topiclen p,
         p_payload = pub_payload p, p_payloadlen = pub_payloadlen p, refcount = 1\<rparr>
    \<and> (\<forall>b. b \<noteq> a \<longrightarrow> heap_pubs st' b = heap_pubs st b)"
proof -
  let ?a = "next_pub st"
  have none: "heap_pubs st ?a = None"
    using assms(1) by (simp add: owned_def)
  then have notin: "?a \<notin># R" "?a \<notin> set (items (stored st))"
    using assms(1) by (auto simp: owned_def)
  let ?p = "\<lparr>p_topic = pub_topic p, p_topiclen = pub_topiclen p, p_payload = pub_payload p,
      p_payloadlen = pub_payloadlen p, refcount = 1\<rparr>"
  let ?st = "st\<lparr>heap_pubs := (heap_pubs st)(?a \<mapsto> ?p), next_pub := ?a + 1, stored := cl_append ?a (stored st)\<rparr>"
  have "MQTTProtocol_storePublication p st = Done (?a, ?st)"
    using assms(2) by (simp add: MQTTProtocol_storePublication_def publish_fits_def Let_def)
  moreover have "owned (add_mset ?a R) ?st"
    using assms notin count_eq_zero_iff [THEN iffD2, OF notin(1)] by (auto simp: owned_def publish_fits_def pub_fits_def)
  ultimately show ?thesis
    using notin(1) by (auto simp: heap_only_def)
qed

lemma unlink_member:
  assumes "distinct (items l)" "a \<in> set (items l)"
  shows "fst (cl_unlink ((=) a) l)" "distinct (items (snd (cl_unlink ((=) a) l)))"
    "set (items (snd (cl_unlink ((=) a) l))) = set (items l) - {a}"
proof -
  obtain i where i: "cl_index ((=) a) l = Some i" "i < length (items l)" "items l ! i = a"
    using assms(2) cl_index_None [of "(=) a" l] cl_index_Some [of "(=) a" l] by (cases "cl_index ((=) a) l") auto
  then show "fst (cl_unlink ((=) a) l)" "distinct (items (snd (cl_unlink ((=) a) l)))"
    "set (items (snd (cl_unlink ((=) a) l))) = set (items l) - {a}"
    using delete_set [OF assms(1) i(2)] by (simp_all add: cl_unlink_def items_delete)
qed

text \<open>The last reference goes, and the block with it.\<close>

lemma release_owned:
  assumes "owned (add_mset a R) st" "a \<notin># R"
  shows "owned R (remove_stored a st)" "heap_only st (remove_stored a st)"
    "\<forall>b. b \<noteq> a \<longrightarrow> heap_pubs (remove_stored a st) b = heap_pubs st b"
proof -
  have a: "a \<in> set (items (stored st))" "distinct (items (stored st))"
    using owned_heap [OF assms(1), of a] assms(1) by (auto simp: owned_def)
  note u = unlink_member [OF a(2,1)]
  have eq: "remove_stored a st = st\<lparr>stored := snd (cl_unlink ((=) a) (stored st)), heap_pubs := (heap_pubs st)(a := None)\<rparr>"
    using u(1) by (cases "cl_unlink ((=) a) (stored st)") (simp add: remove_stored_def)
  show "heap_only st (remove_stored a st)" "\<forall>b. b \<noteq> a \<longrightarrow> heap_pubs (remove_stored a st) b = heap_pubs st b"
    by (simp_all add: eq heap_only_def)
  show "owned R (remove_stored a st)"
    using assms u(2,3) unfolding eq by (auto simp: owned_def)
qed

lemma remove_owned:
  assumes "owned (add_mset a R) st"
  shows "\<exists>st'. MQTTProtocol_removePublication a st = Done st' \<and> owned R st' \<and> heap_only st st'"
proof -
  obtain p where p: "heap_pubs st a = Some p" "refcount p = int (count (add_mset a R) a)" "pub_fits p"
    using owned_heap [OF assms, of a] by auto
  let ?st = "st\<lparr>heap_pubs := (heap_pubs st)(a \<mapsto> p\<lparr>refcount := refcount p - 1\<rparr>)\<rparr>"
  show ?thesis
  proof (cases "a \<in># R")
    case True
    then have "owned R ?st"
      using assms p unfolding owned_def by (auto simp: pub_fits_def)
    moreover have "refcount p - 1 \<noteq> 0"
      using True p(2) by (simp add: not_in_iff)
    ultimately show ?thesis
      using p(1) by (simp add: MQTTProtocol_removePublication_def heap_only_def)
  next
    case False
    have "distinct (items (stored st))" "a \<in> set (items (stored st))"
      using assms p(1) by (simp_all add: owned_def)
    then have "remove_stored a ?st = remove_stored a st"
      using unlink_member(1) [of "stored st" a] by (cases "cl_unlink ((=) a) (stored st)") (simp add: remove_stored_def)
    moreover have "refcount p - 1 = 0"
      using False p(2) by (simp add: not_in_iff)
    ultimately show ?thesis
      using p(1) release_owned [OF assms False] by (simp add: MQTTProtocol_removePublication_def)
  qed
qed

section \<open>References of the clients\<close>

lemma sum_list_update_add:
  "i < length xs \<Longrightarrow> sum_list (map f (xs[i := x])) + f (xs ! i) = sum_list (map f xs) + f x"
  for f :: "'a \<Rightarrow> 'b :: comm_monoid_add"
proof (induction xs arbitrary: i)
  case (Cons y ys)
  then show ?case
    by (cases i) (auto simp: ac_simps)
qed simp

lemma in_upd:
  "i < length (items (clients st)) \<Longrightarrow> in_refs (upd_client i f st) + list_refs (inboundMsgs (client_at i st)) =
     in_refs st + list_refs (inboundMsgs (f (client_at i st)))"
  using sum_list_update_add [of i "items (clients st)" "\<lambda>c. list_refs (inboundMsgs c)" "f (client_at i st)"]
  by (simp add: in_refs_def upd_client_def client_at_def)

lemma out_upd:
  "i < length (items (clients st)) \<Longrightarrow> out_refs (upd_client i f st) + list_refs (outboundMsgs (client_at i st)) =
     out_refs st + list_refs (outboundMsgs (f (client_at i st)))"
  using sum_list_update_add [of i "items (clients st)" "\<lambda>c. list_refs (outboundMsgs c)" "f (client_at i st)"]
  by (simp add: out_refs_def upd_client_def client_at_def)

lemma sum_list_member: "i < length xs \<Longrightarrow> f (xs ! i) \<subseteq># sum_list (map f xs)" for f :: "'a \<Rightarrow> 'b multiset"
proof (induction xs arbitrary: i)
  case (Cons y ys)
  then show ?case
    by (cases i) (auto intro: subset_mset.order_trans [OF Cons.IH])
qed simp

lemma in_member: "i < length (items (clients st)) \<Longrightarrow> list_refs (inboundMsgs (client_at i st)) \<subseteq># in_refs st"
  unfolding in_refs_def client_at_def by (rule sum_list_member [where f = "\<lambda>c. list_refs (inboundMsgs c)"])

lemma out_member: "i < length (items (clients st)) \<Longrightarrow> list_refs (outboundMsgs (client_at i st)) \<subseteq># out_refs st"
  unfolding out_refs_def client_at_def by (rule sum_list_member [where f = "\<lambda>c. list_refs (outboundMsgs c)"])

lemma mset_delete: "i < length xs \<Longrightarrow> add_mset (xs ! i) (mset (take i xs @ drop (Suc i) xs)) = mset xs"
proof -
  assume "i < length xs"
  then have "mset xs = mset (take i xs @ xs ! i # drop (Suc i) xs)"
    by (simp add: id_take_nth_drop [symmetric])
  then show ?thesis
    by simp
qed

lemma list_refs_append: "list_refs (cl_append m l) = add_mset (m_publish m) (list_refs l)"
  by (simp add: list_refs_def)

lemma list_refs_delete:
  assumes "k < length (items l)"
  shows "add_mset (m_publish (items l ! k)) (list_refs (cl_delete k l)) = list_refs l"
proof -
  have "image_mset m_publish (add_mset (items l ! k) (mset (items (cl_delete k l)))) = image_mset m_publish (mset (items l))"
    using mset_delete [OF assms] by (simp only: items_delete)
  then show ?thesis
    by (simp add: list_refs_def)
qed

section \<open>The invariant\<close>

definition in_ok :: "messages \<Rightarrow> bool" where
  "in_ok m \<longleftrightarrow> m_qos m = 2 \<and> nextMessageType m = int (msg_code PUBREL)"

definition out_ok :: "messages \<Rightarrow> bool" where
  "out_ok m \<longleftrightarrow> m_qos m = 1 \<or>
     m_qos m = 2 \<and> (nextMessageType m = int (msg_code PUBREC) \<or> nextMessageType m = int (msg_code PUBCOMP))"

definition client_ok :: "'p client \<Rightarrow> bool" where
  "client_ok c \<longleftrightarrow> (\<forall>m \<in> set (items (inboundMsgs c)). in_ok m) \<and> distinct (map m_msgid (items (inboundMsgs c)))
     \<and> (\<forall>m \<in> set (items (outboundMsgs c)). out_ok m) \<and> persistence_of c = None"

definition session_inv :: "('k, 'p, 'u) mqtt \<Rightarrow> bool" where
  "session_inv st \<longleftrightarrow> owned (refs st) st \<and> (\<forall>a. a \<in># in_refs st \<longrightarrow> count (refs st) a = 1)
     \<and> (\<forall>c \<in> set (items (clients st)). client_ok c)"

text \<open>The invariant sees a client through its message lists only.\<close>

definition view :: "'p client \<Rightarrow> messages list \<times> messages list \<times> 'p persistence option" where
  "view c = (items (inboundMsgs c), items (outboundMsgs c), persistence_of c)"

definition session_same :: "('k, 'p, 'u) mqtt \<Rightarrow> ('k, 'p, 'u) mqtt \<Rightarrow> bool" where
  "session_same st st' \<longleftrightarrow> map view (items (clients st')) = map view (items (clients st))
     \<and> heap_pubs st' = heap_pubs st \<and> stored st' = stored st \<and> next_pub st' = next_pub st
     \<and> items (pending_qos0 st') = items (pending_qos0 st)"

lemma map_view:
  assumes "map view xs = map view ys" "\<And>c d. view c = view d \<Longrightarrow> f c = f d"
  shows "map f xs = map f ys"
proof -
  have "length xs = length ys"
    using assms(1) by (metis length_map)
  moreover have "f (xs ! j) = f (ys ! j)" if "j < length xs" for j
    using assms that calculation by (metis nth_map)
  ultimately show ?thesis
    by (simp add: list_eq_iff_nth_eq)
qed

lemma same_refs:
  assumes "session_same st st'"
  shows "in_refs st' = in_refs st" "out_refs st' = out_refs st" "refs st' = refs st"
proof -
  have v: "map view (items (clients st')) = map view (items (clients st))"
    using assms by (simp add: session_same_def)
  show i: "in_refs st' = in_refs st"
    using map_view [OF v, of "\<lambda>c. list_refs (inboundMsgs c)"] by (simp add: in_refs_def view_def list_refs_def)
  show o: "out_refs st' = out_refs st"
    using map_view [OF v, of "\<lambda>c. list_refs (outboundMsgs c)"] by (simp add: out_refs_def view_def list_refs_def)
  show "refs st' = refs st"
    using assms i o by (simp add: refs_def session_same_def)
qed

lemma same_inv:
  assumes "session_inv st" "session_same st st'"
  shows "session_inv st'"
proof -
  have v: "map view (items (clients st')) = map view (items (clients st))"
    using assms(2) by (simp add: session_same_def)
  have "map client_ok (items (clients st')) = map client_ok (items (clients st))"
    by (rule map_view [OF v]) (simp add: client_ok_def view_def)
  then have "set (map client_ok (items (clients st'))) = set (map client_ok (items (clients st)))"
    by simp
  then have "(\<forall>c \<in> set (items (clients st')). client_ok c) \<longleftrightarrow> (\<forall>c \<in> set (items (clients st)). client_ok c)"
    by (metis (no_types, lifting) image_eqI image_iff list.set_map)
  then show ?thesis
    using assms same_refs [OF assms(2)] by (simp add: session_inv_def session_same_def owned_def)
qed

lemma same_refl: "session_same st st"
  by (simp add: session_same_def)

lemma same_trans: "session_same st1 st2 \<Longrightarrow> session_same st2 st3 \<Longrightarrow> session_same st1 st3"
  by (simp add: session_same_def)

lemma same_length: "session_same st st' \<Longrightarrow> length (items (clients st')) = length (items (clients st))"
  unfolding session_same_def by (metis length_map)

lemma same_client:
  assumes "session_same st st'" "i < length (items (clients st))"
  shows "items (inboundMsgs (client_at i st')) = items (inboundMsgs (client_at i st))"
    "items (outboundMsgs (client_at i st')) = items (outboundMsgs (client_at i st))"
    "persistence_of (client_at i st') = persistence_of (client_at i st)"
proof -
  have "view (client_at i st') = view (client_at i st)"
    using assms same_length [OF assms(1)] unfolding session_same_def client_at_def by (metis nth_map)
  then show "items (inboundMsgs (client_at i st')) = items (inboundMsgs (client_at i st))"
    "items (outboundMsgs (client_at i st')) = items (outboundMsgs (client_at i st))"
    "persistence_of (client_at i st') = persistence_of (client_at i st)"
    by (simp_all add: view_def)
qed

lemma same_upd: "view (f (client_at i st)) = view (client_at i st) \<Longrightarrow> session_same st (upd_client i f st)"
  using list_update_id [of "map view (items (clients st))" i]
  by (cases "i < length (items (clients st))") (simp_all add: session_same_def upd_client_def client_at_def map_update list_update_beyond)

lemma same_update:
  "session_same st (st\<lparr>socks := v1\<rparr>)" "session_same st (st\<lparr>app := v2\<rparr>)" "session_same st (st\<lparr>handles := v3\<rparr>)"
  "session_same st (st\<lparr>commands := v4\<rparr>)" "session_same st (st\<lparr>msgs_sent := v5\<rparr>)"
  "session_same st (st\<lparr>msgs_received := v5\<rparr>)" "session_same st (st\<lparr>store := v6\<rparr>)"
  "session_same st (st\<lparr>clients := (clients st)\<lparr>cursor := v7\<rparr>\<rparr>)"
  by (simp_all add: session_same_def)

lemma same_wired: "wired i st st' \<Longrightarrow> session_same st st'"
  using list_update_id [of "map view (items (clients st))" i]
  by (auto simp: wired_def session_same_def map_update view_def client_at_def)

section \<open>The steps of the exchanges\<close>

lemma inv_client: "session_inv st \<Longrightarrow> i < length (items (clients st)) \<Longrightarrow> client_ok (client_at i st)"
  by (simp add: session_inv_def client_at_def)

lemma client_of_same:
  assumes "\<exists>c \<in> set (items (clients st)). net_socket c = s"
  obtains i st1 where "client_of s st = Done (i, st1)" "i < length (items (clients st1))" "session_same st st1"
    "st1 = st\<lparr>clients := (clients st)\<lparr>cursor := Some i\<rparr>\<rparr>" "net_socket (client_at i st1) = s"
proof -
  obtain i where i: "i < length (items (clients st))" "net_socket (client_at i st) = s"
    "client_of s st = Done (i, st\<lparr>clients := (clients st)\<lparr>cursor := Some i\<rparr>\<rparr>)"
    using client_of_cases [of s st] assms by auto
  show thesis
    by (rule that [OF i(3) _ same_update(8) refl]) (use i in \<open>simp_all add: client_at_def\<close>)
qed

text \<open>Delivery changes the application, the queue of the client and the search position in the handles.\<close>

lemma try_deliver_same:
  "session_same st (snd (try_deliver p mm i st))" "clients (snd (try_deliver p mm i st)) = clients st"
  by (auto simp: try_deliver_def MQTTAsync_deliverMessage_def session_same_def Let_def split: prod.split option.split)

lemma processPublication_returns:
  assumes "header_qos (pub_header p) = 2 \<or> publish_fits p" "persistence_of (client_at i st) = None"
  shows "\<exists>st'. Protocol_processPublication E p i st = Done st' \<and> session_same st st'"
proof -
  obtain rc st1 where d: "try_deliver p (publication_message p) i st = (rc, st1)"
    by (cases "try_deliver p (publication_message p) i st")
  then have st1: "session_same st st1" "persistence_of (client_at i st1) = None"
    using try_deliver_same [where st = st and p = p and mm = "publication_message p" and i = i] assms(2)
    by (simp_all add: client_at_def)
  have ok: "header_qos (pub_header p) = 2 \<or> 0 \<le> pub_payloadlen p \<and> nat (pub_payloadlen p) \<le> length (pub_payload p)"
    using assms(1) by (auto simp: publish_fits_def)
  show ?thesis
  proof (cases "rc = 0")
    case True
    then show ?thesis
      using ok d st1 same_trans [OF st1(1) same_upd] by (simp add: Protocol_processPublication_def view_def)
  qed (use ok d st1 in \<open>simp add: Protocol_processPublication_def\<close>)
qed

text \<open>A change of the lists of one client together with the heap.\<close>

lemma in_le_refs: "b \<in># in_refs st \<Longrightarrow> b \<in># refs st"
  by (simp add: refs_def)

lemma inv_single: "session_inv st \<Longrightarrow> b \<in># in_refs st \<Longrightarrow> count (in_refs st) b = 1 \<and> b \<notin># out_refs st"
proof -
  assume inv: "session_inv st" and b: "b \<in># in_refs st"
  have "count (in_refs st) b + count (out_refs st) b + count (image_mset snd (mset (items (pending_qos0 st)))) b = 1"
    using inv b by (simp add: session_inv_def refs_def)
  moreover have "0 < count (in_refs st) b"
    using b by simp
  ultimately have "count (in_refs st) b = 1 \<and> count (out_refs st) b = 0"
    by linarith
  then show ?thesis
    by (simp add: not_in_iff)
qed

lemma inv_change:
  assumes inv: "session_inv st" and i: "i < length (items (clients st))" and heap: "heap_only st st1" "owned R st1"
    and ok: "client_ok (f (client_at i st))" and R: "refs (upd_client i f st) = R"
    and single: "\<And>b. b \<in># in_refs (upd_client i f st) \<Longrightarrow> count R b = 1"
  shows "session_inv (upd_client i f st1)"
proof -
  have cl: "clients (upd_client i f st1) = clients (upd_client i f st)"
    "pending_qos0 (upd_client i f st1) = pending_qos0 (upd_client i f st)"
    using heap_only_fields [OF heap(1)] by (simp_all add: upd_client_def)
  then have r: "refs (upd_client i f st1) = R" "in_refs (upd_client i f st1) = in_refs (upd_client i f st)"
    using R by (simp_all add: refs_def in_refs_def out_refs_def)
  have "client_ok c" if "c \<in> set (items (clients (upd_client i f st1)))" for c
  proof -
    have "c \<in> set (items (clients (upd_client i f st)))"
      using that by (simp only: cl(1))
    then have "c \<in> set ((items (clients st))[i := f (client_at i st)])"
      by (simp add: upd_client_def client_at_def)
    then consider "c = f (client_at i st)" | "c \<in> set (items (clients st))"
      using set_update_subset_insert [of "items (clients st)" i "f (client_at i st)"] by auto
    then show ?thesis
      using inv ok by cases (simp_all add: session_inv_def)
  qed
  then show ?thesis
    using r heap(2) single by (simp add: session_inv_def)
qed

lemma refs_in:
  assumes "i < length (items (clients st))" "list_refs (outboundMsgs (f (client_at i st))) = list_refs (outboundMsgs (client_at i st))"
  shows "in_refs (upd_client i f st) + list_refs (inboundMsgs (client_at i st)) = in_refs st + list_refs (inboundMsgs (f (client_at i st)))"
    "refs (upd_client i f st) + list_refs (inboundMsgs (client_at i st)) = refs st + list_refs (inboundMsgs (f (client_at i st)))"
  using in_upd [OF assms(1), of f] out_upd [OF assms(1), of f] assms(2)
  by (simp_all add: refs_def upd_client_def ac_simps)

lemma refs_out:
  assumes "i < length (items (clients st))" "list_refs (inboundMsgs (f (client_at i st))) = list_refs (inboundMsgs (client_at i st))"
  shows "in_refs (upd_client i f st) = in_refs st"
    "refs (upd_client i f st) + list_refs (outboundMsgs (client_at i st)) = refs st + list_refs (outboundMsgs (f (client_at i st)))"
  using in_upd [OF assms(1), of f] out_upd [OF assms(1), of f] assms(2)
  by (simp_all add: refs_def upd_client_def ac_simps)

text \<open>Removing the message at position \<open>k\<close> of the outbound list, and its reference.\<close>

lemma drop_outbound:
  assumes inv: "session_inv st" and i: "i < length (items (clients st))"
    and k: "k < length (items (outboundMsgs (client_at i st)))"
  shows "\<exists>st1. MQTTProtocol_removePublication (m_publish (items (outboundMsgs (client_at i st)) ! k)) st = Done st1
    \<and> heap_only st st1 \<and> session_inv (upd_client i (\<lambda>c. c\<lparr>outboundMsgs := cl_delete k (outboundMsgs c)\<rparr>) st1)"
proof -
  let ?f = "\<lambda>c :: 'b client. c\<lparr>outboundMsgs := cl_delete k (outboundMsgs c)\<rparr>"
  let ?R = "refs (upd_client i ?f st)" and ?a = "m_publish (items (outboundMsgs (client_at i st)) ! k)"
  have split: "list_refs (outboundMsgs (client_at i st)) = add_mset ?a (list_refs (cl_delete k (outboundMsgs (client_at i st))))"
    using list_refs_delete [OF k] by simp
  then have R: "refs st = add_mset ?a ?R" and ins: "in_refs (upd_client i ?f st) = in_refs st"
    using refs_out [OF i, of ?f] by simp_all
  have a: "?a \<in># out_refs st"
    using out_member [OF i] split by (metis mset_subset_eqD union_single_eq_member)
  obtain st1 where st1: "MQTTProtocol_removePublication ?a st = Done st1" "owned ?R st1" "heap_only st st1"
    using remove_owned [of ?a ?R st] inv R by (auto simp: session_inv_def)
  have "session_inv (upd_client i ?f st1)"
  proof (rule inv_change [OF inv i st1(3,2)])
    show "client_ok (?f (client_at i st))"
      using inv_client [OF inv i] by (auto simp: client_ok_def items_delete dest: in_set_takeD in_set_dropD)
    show "count ?R b = 1" if "b \<in># in_refs (upd_client i ?f st)" for b
    proof -
      have b: "b \<in># in_refs st"
        using that by (simp only: ins)
      then have "b \<noteq> ?a" "count (refs st) b = 1"
        using inv_single [OF inv b] a inv by (auto simp: session_inv_def)
      then show ?thesis
        using R by simp
    qed
  qed simp
  then show ?thesis
    using st1 by blast
qed

text \<open>A change of a message that keeps its publication.\<close>

lemma touch_outbound:
  assumes inv: "session_inv st" and i: "i < length (items (clients st))"
    and k: "k < length (items (outboundMsgs (client_at i st)))"
    and g: "\<And>m. m_publish (g m) = m_publish m" "out_ok (g (items (outboundMsgs (client_at i st)) ! k))"
  shows "session_inv (upd_client i (\<lambda>c. c\<lparr>outboundMsgs := cl_update k g (outboundMsgs c)\<rparr>) st)"
proof -
  let ?f = "\<lambda>c :: 'b client. c\<lparr>outboundMsgs := cl_update k g (outboundMsgs c)\<rparr>"
  have "map m_publish (items (outboundMsgs (?f (client_at i st)))) = map m_publish (items (outboundMsgs (client_at i st)))"
    using g(1) k by (simp add: map_update list_update_same_conv)
  then have "list_refs (outboundMsgs (?f (client_at i st))) = list_refs (outboundMsgs (client_at i st))"
    unfolding list_refs_def by (metis mset_map)
  then have R: "refs (upd_client i ?f st) = refs st" "in_refs (upd_client i ?f st) = in_refs st"
    using refs_out [OF i, of ?f] by simp_all
  show ?thesis
  proof (rule inv_change [OF inv i _ _ _ R(1)])
    show "client_ok (?f (client_at i st))"
      using inv_client [OF inv i] g(2) set_update_subset_insert [of "items (outboundMsgs (client_at i st))" k]
      by (auto simp: client_ok_def)
    show "count (refs st) b = 1" if "b \<in># in_refs (upd_client i ?f st)" for b
      using that inv by (simp add: R session_inv_def)
  qed (use inv in \<open>simp_all add: heap_only_def session_inv_def\<close>)
qed

text \<open>A new message, outbound or inbound, with a publication of its own.\<close>

lemma add_outbound:
  assumes inv: "session_inv st" and i: "i < length (items (clients st))"
    and st1: "owned (add_mset a (refs st)) st1" "heap_only st st1" "a \<notin># refs st" and m: "out_ok m" "m_publish m = a"
  shows "session_inv (upd_client i (\<lambda>c. c\<lparr>outboundMsgs := cl_append m (outboundMsgs c)\<rparr>) st1)"
proof (rule inv_change [OF inv i st1(2,1)])
  let ?f = "\<lambda>c :: 'b client. c\<lparr>outboundMsgs := cl_append m (outboundMsgs c)\<rparr>"
  show "client_ok (?f (client_at i st))"
    using inv_client [OF inv i] m(1) by (auto simp: client_ok_def)
  show "refs (upd_client i ?f st) = add_mset a (refs st)"
    using refs_out(2) [OF i, of ?f] m(2) by (simp add: list_refs_append)
  show "count (add_mset a (refs st)) b = 1" if "b \<in># in_refs (upd_client i ?f st)" for b
    using that refs_out(1) [OF i, of ?f] inv in_le_refs [of b st] st1(3) by (auto simp: session_inv_def)
qed

lemma add_inbound:
  assumes inv: "session_inv st" and i: "i < length (items (clients st))"
    and st1: "owned (add_mset a (refs st)) st1" "heap_only st st1" "a \<notin># refs st" and m: "in_ok m" "m_publish m = a"
    and new: "m_msgid m \<notin> m_msgid ` set (items l)" "items l = items (inboundMsgs (client_at i st))"
  shows "session_inv (upd_client i (\<lambda>c. c\<lparr>inboundMsgs := cl_append m l\<rparr>) st1)"
proof (rule inv_change [OF inv i st1(2,1)])
  let ?f = "\<lambda>c :: 'b client. c\<lparr>inboundMsgs := cl_append m l\<rparr>"
  have l: "list_refs (inboundMsgs (?f (client_at i st))) = add_mset a (list_refs (inboundMsgs (client_at i st)))"
    using m(2) new(2) by (simp add: list_refs_def)
  show "client_ok (?f (client_at i st))"
    using inv_client [OF inv i] m(1) new by (auto simp: client_ok_def)
  show "refs (upd_client i ?f st) = add_mset a (refs st)"
    using refs_in(2) [OF i, of ?f] l by simp
  show "count (add_mset a (refs st)) b = 1" if "b \<in># in_refs (upd_client i ?f st)" for b
  proof -
    have "in_refs (upd_client i ?f st) = add_mset a (in_refs st)"
      using refs_in(1) [OF i, of ?f] l by simp
    then show ?thesis
      using that inv in_le_refs [of b st] st1(3) by (auto simp: session_inv_def not_in_iff)
  qed
qed

text \<open>An inbound message that goes, and one that takes the place of another with the same id.\<close>

lemma drop_inbound:
  assumes inv: "session_inv st" and i: "i < length (items (clients st))"
    and k: "k < length (items l)" "items l = items (inboundMsgs (client_at i st))"
  defines "a \<equiv> m_publish (items l ! k)"
  shows "session_inv (upd_client i (\<lambda>c. c\<lparr>inboundMsgs := cl_delete k l\<rparr>) (remove_stored a st))"
    "heap_only st (remove_stored a st)"
proof -
  let ?f = "\<lambda>c :: 'b client. c\<lparr>inboundMsgs := cl_delete k l\<rparr>"
  have split: "list_refs (inboundMsgs (client_at i st)) = add_mset a (list_refs (cl_delete k l))"
    using list_refs_delete [OF k(1)] k(2) by (simp add: a_def list_refs_def)
  then have R: "refs st = add_mset a (refs (upd_client i ?f st))" "in_refs st = add_mset a (in_refs (upd_client i ?f st))"
    using refs_in [OF i, of ?f] by simp_all
  then have a: "count (refs st) a = 1" "a \<notin># refs (upd_client i ?f st)"
    using inv by (auto simp: session_inv_def not_in_iff)
  have own: "owned (add_mset a (refs (upd_client i ?f st))) st"
    using inv R(1) by (simp add: session_inv_def)
  show h: "heap_only st (remove_stored a st)"
    using release_owned [OF own a(2)] by simp
  show "session_inv (upd_client i ?f (remove_stored a st))"
  proof (rule inv_change [OF inv i h release_owned(1) [OF own a(2)]])
    show "client_ok (?f (client_at i st))"
      using inv_client [OF inv i] k delete_set(1) [of "map m_msgid (items l)" k]
      by (auto simp: client_ok_def items_delete take_map drop_map dest: in_set_takeD in_set_dropD)
    show "count (refs (upd_client i ?f st)) b = 1" if "b \<in># in_refs (upd_client i ?f st)" for b
    proof -
      have "count (refs st) b = 1"
        using that inv R(2) by (simp add: session_inv_def)
      moreover have "b \<noteq> a"
        using that a(2) in_le_refs [of b "upd_client i ?f st"] by auto
      ultimately show ?thesis
        using R(1) by simp
    qed
  qed simp
qed

lemma replace_items:
  "k < length (items l) \<Longrightarrow> items (cl_delete (Suc k) (cl_insert m k l)) = (items l)[k := m]"
  by (simp add: items_delete items_insert upd_conv_take_nth_drop min_def)

lemma replace_inbound:
  assumes inv: "session_inv st" and i: "i < length (items (clients st))"
    and st1: "owned (add_mset a (refs st)) st1" "heap_only st st1" "a \<notin># refs st" and m: "in_ok m" "m_publish m = a"
    and k: "k < length (items l)" "items l = items (inboundMsgs (client_at i st))" "m_msgid (items l ! k) = m_msgid m"
  shows "\<exists>st2. MQTTProtocol_removePublication (m_publish (items l ! k)) st1 = Done st2 \<and> heap_only st1 st2
    \<and> session_inv (upd_client i (\<lambda>c. c\<lparr>inboundMsgs := cl_delete (Suc k) (cl_insert m k l)\<rparr>) st2)"
proof -
  let ?f = "\<lambda>c :: 'b client. c\<lparr>inboundMsgs := cl_delete (Suc k) (cl_insert m k l)\<rparr>"
  let ?old = "m_publish (items l ! k)" and ?R = "refs (upd_client i ?f st)"
  have eq: "add_mset (items l ! k) (mset ((items l)[k := m])) = add_mset m (mset (items l))"
    using k(1) by (simp add: mset_update)
  have "image_mset m_publish (add_mset (items l ! k) (mset ((items l)[k := m]))) = image_mset m_publish (add_mset m (mset (items l)))"
    by (simp only: eq)
  then have l: "add_mset ?old (list_refs (inboundMsgs (?f (client_at i st)))) = add_mset a (list_refs (inboundMsgs (client_at i st)))"
    using m(2) k(1,2) by (simp add: list_refs_def replace_items)
  have swap: "add_mset ?old X' = add_mset a X" if "X' + L = X + L'" "add_mset ?old L' = add_mset a L" for X X' L L'
  proof -
    have "add_mset ?old X' + L = X + add_mset ?old L'"
      using that(1) by simp
    also have "\<dots> = add_mset a X + L"
      by (simp add: that(2))
    finally show ?thesis
      by simp
  qed
  have R: "add_mset ?old ?R = add_mset a (refs st)" "add_mset ?old (in_refs (upd_client i ?f st)) = add_mset a (in_refs st)"
    using swap [OF _ l] refs_in [OF i, of ?f] by simp_all
  have old: "?old \<in># in_refs st"
  proof -
    have "?old \<in># list_refs (inboundMsgs (client_at i st))"
      using k by (auto simp: list_refs_def)
    then show ?thesis
      using in_member [OF i] by (rule mset_subset_eqD [rotated])
  qed
  then have ne: "?old \<noteq> a" and one: "count (in_refs st) ?old = 1" "count (refs st) ?old = 1"
    using st1(3) in_le_refs [OF old] inv_single [OF inv old] inv by (auto simp: session_inv_def)
  obtain st2 where st2: "MQTTProtocol_removePublication ?old st1 = Done st2" "owned ?R st2" "heap_only st1 st2"
    using remove_owned [of ?old ?R st1] st1(1) R(1) by auto
  have h: "heap_only st st2"
    using st1(2) st2(3) heap_only_trans by blast
  have "session_inv (upd_client i ?f st2)"
  proof (rule inv_change [OF inv i h st2(2)])
    show "client_ok (?f (client_at i st))"
    proof -
      have "map m_msgid ((items l)[k := m]) = map m_msgid (items l)"
        using k(1,3) list_update_id [of "map m_msgid (items l)" k] by (simp add: map_update)
      then show ?thesis
        using inv_client [OF inv i] m(1) k set_update_subset_insert [of "items l" k m]
        by (auto simp: client_ok_def replace_items)
    qed
    show "count ?R b = 1" if "b \<in># in_refs (upd_client i ?f st)" for b
    proof (cases "b = a")
      case True
      have "count (add_mset ?old ?R) a = count (add_mset a (refs st)) a"
        by (simp only: R(1))
      then show ?thesis
        using True ne st1(3) by (simp add: not_in_iff)
    next
      case False
      have c: "count (add_mset ?old (in_refs (upd_client i ?f st))) b = count (add_mset a (in_refs st)) b"
        "count (add_mset ?old ?R) b = count (add_mset a (refs st)) b"
        by (simp_all only: R)
      have "b \<noteq> ?old"
        using c(1) False one that by (auto simp flip: count_greater_zero_iff)
      then have "b \<in># in_refs st" "count ?R b = count (refs st) b"
        using c False that by (auto simp flip: count_greater_zero_iff)
      then show ?thesis
        using inv by (simp add: session_inv_def)
    qed
  qed simp
  then show ?thesis
    using st2 by blast
qed

end
