(* ===== verification/Mqtt_Events.thy ===== *)
theory Mqtt_Events
  imports Mqtt_Session
begin

text \<open>
  The events of a session, each the call of one function of the protocol layer, and the theorem that
  every sequence of them returns and keeps the session invariant.
\<close>

section \<open>Handlers of acknowledgements\<close>

lemma find_message:
  "(\<exists>k l'. cl_find (messageIDCompare msgid) l = (Some k, l') \<and> k < length (items l) \<and> items l' = items l
      \<and> m_msgid (items l ! k) = msgid)
   \<or> cl_find (messageIDCompare msgid) l = (None, l) \<and> msgid \<notin> m_msgid ` set (items l)"
proof (cases "cl_index (messageIDCompare msgid) l")
  case None
  then show ?thesis
    using cl_index_None [of "messageIDCompare msgid" l] by (auto simp: cl_find_def messageIDCompare_def)
next
  case (Some k)
  then show ?thesis
    using cl_index_Some [OF Some] by (simp add: cl_find_def messageIDCompare_def)
qed

lemma find_message_cases [case_names none some]:
  assumes "cl_find (messageIDCompare msgid) l = (None, l) \<Longrightarrow> msgid \<notin> m_msgid ` set (items l) \<Longrightarrow> thesis"
    and "\<And>k l'. cl_find (messageIDCompare msgid) l = (Some k, l') \<Longrightarrow> k < length (items l) \<Longrightarrow> items l' = items l \<Longrightarrow>
      m_msgid (items l ! k) = msgid \<Longrightarrow> thesis"
  shows thesis
  using assms find_message [of msgid l] by blast

text \<open>\<open>returns_inv r\<close>: the call returned, with the invariant.\<close>

definition returns_inv :: "(int \<times> ('k, 'p, 'u) mqtt) outcome \<Rightarrow> bool" where
  "returns_inv r \<longleftrightarrow> (\<exists>rc st. r = Done (rc, st) \<and> session_inv st)"

lemma returns_inv_Done [simp]: "returns_inv (Done (rc, st)) \<longleftrightarrow> session_inv st"
  by (simp add: returns_inv_def)

lemma remove_none:
  "persistence_of (client_at i st) = None \<Longrightarrow> MQTTPersistence_remove i type qos msgId st = Done (0, st)"
  by (simp add: MQTTPersistence_remove_def)

text \<open>A new search position in a list of messages.\<close>

lemma found_outbound:
  assumes "session_inv st" "items l = items (outboundMsgs (client_at i st))" "i < length (items (clients st))"
  shows "session_inv (upd_client i (\<lambda>c. c\<lparr>outboundMsgs := l\<rparr>) st)"
    "client_at i (upd_client i (\<lambda>c. c\<lparr>outboundMsgs := l\<rparr>) st) = (client_at i st)\<lparr>outboundMsgs := l\<rparr>"
  using assms same_inv [OF assms(1) same_upd [of "\<lambda>c. c\<lparr>outboundMsgs := l\<rparr>" i st]]
  by (simp_all add: view_def client_at_def upd_client_def)

lemma found_inbound:
  assumes "session_inv st" "items l = items (inboundMsgs (client_at i st))" "i < length (items (clients st))"
  shows "session_inv (upd_client i (\<lambda>c. c\<lparr>inboundMsgs := l\<rparr>) st)"
    "client_at i (upd_client i (\<lambda>c. c\<lparr>inboundMsgs := l\<rparr>) st) = (client_at i st)\<lparr>inboundMsgs := l\<rparr>"
  using assms same_inv [OF assms(1) same_upd [of "\<lambda>c. c\<lparr>inboundMsgs := l\<rparr>" i st]]
  by (simp_all add: view_def client_at_def upd_client_def)

lemma length_upd [simp]: "length (items (clients (upd_client i f st))) = length (items (clients st))"
  by (simp add: upd_client_def)

lemma client_of_inv:
  assumes "session_inv st" "\<exists>c \<in> set (items (clients st)). net_socket c = s"
  obtains i st1 where "client_of s st = Done (i, st1)" "session_inv st1" "i < length (items (clients st1))"
    "st1 = st\<lparr>clients := (clients st)\<lparr>cursor := Some i\<rparr>\<rparr>"
  using client_of_same [OF assms(2)] same_inv [OF assms(1)] by metis

text \<open>The end of \<open>PUBACK\<close> and \<open>PUBCOMP\<close>: the record and the message go.\<close>

lemma acknowledged:
  assumes "session_inv st" "i < length (items (clients st))" "k < length (items (outboundMsgs (client_at i st)))"
  shows "\<exists>st1. MQTTProtocol_removePublication (m_publish (items (outboundMsgs (client_at i st)) ! k)) st = Done st1
    \<and> session_inv (upd_client i (\<lambda>c. c\<lparr>outboundMsgs := cl_delete k (outboundMsgs c)\<rparr>) st1)"
  using drop_outbound [OF assms] by blast

lemma handlePubacks_inv:
  assumes "session_inv st" "\<exists>c \<in> set (items (clients st)). net_socket c = s"
  shows "returns_inv (MQTTProtocol_handlePubacks E pack s st)"
proof -
  obtain i st1 where st1: "client_of s st = Done (i, st1)" "session_inv st1" "i < length (items (clients st1))"
    using client_of_inv [OF assms] by metis
  show ?thesis
  proof (cases rule: find_message_cases [of "ack_msgId pack" "outboundMsgs (client_at i st1)"])
    case none
    then show ?thesis
      using st1 found_outbound(1) [OF st1(2) refl st1(3)] by (simp add: MQTTProtocol_handlePubacks_def Let_def)
  next
    case (some k l)
    let ?st = "upd_client i (\<lambda>c. c\<lparr>outboundMsgs := l\<rparr>) st1"
    note st = found_outbound [OF st1(2) some(3) st1(3)]
    have "persistence_of (client_at i ?st) = None"
      using inv_client [OF st(1), of i] st1(3) by (simp add: client_ok_def)
    then show ?thesis
      using st1 some st acknowledged [OF st(1), of i k]
      by (auto simp: MQTTProtocol_handlePubacks_def Let_def remove_none)
  qed
qed

lemma session_inv_counters [simp]:
  "session_inv (st\<lparr>msgs_sent := n\<rparr>) = session_inv st" "session_inv (st\<lparr>msgs_received := n\<rparr>) = session_inv st"
  by (simp_all add: session_inv_def refs_def in_refs_def out_refs_def)

lemma handlePubcomps_inv:
  assumes "session_inv st" "\<exists>c \<in> set (items (clients st)). net_socket c = s"
  shows "returns_inv (MQTTProtocol_handlePubcomps E pack s st)"
proof -
  obtain i st1 where st1: "client_of s st = Done (i, st1)" "session_inv st1" "i < length (items (clients st1))"
    using client_of_inv [OF assms] by metis
  show ?thesis
  proof (cases rule: find_message_cases [of "ack_msgId pack" "outboundMsgs (client_at i st1)"])
    case none
    then show ?thesis
      using st1 found_outbound(1) [OF st1(2) refl st1(3)] by (simp add: MQTTProtocol_handlePubcomps_def Let_def)
  next
    case (some k l)
    let ?st = "upd_client i (\<lambda>c. c\<lparr>outboundMsgs := l\<rparr>) st1"
    note st = found_outbound [OF st1(2) some(3) st1(3)]
    have "persistence_of (client_at i ?st) = None"
      using inv_client [OF st(1), of i] st1(3) by (simp add: client_ok_def)
    then show ?thesis
      using st1 some st acknowledged [OF st(1), of i k]
      by (auto simp: MQTTProtocol_handlePubcomps_def Let_def remove_none)
  qed
qed

lemma handlePubrecs_inv:
  assumes "session_inv st" "\<exists>c \<in> set (items (clients st)). net_socket c = s"
  shows "returns_inv (MQTTProtocol_handlePubrecs E pack s st)"
proof -
  obtain i st1 where st1: "client_of s st = Done (i, st1)" "session_inv st1" "i < length (items (clients st1))"
    using client_of_inv [OF assms] by metis
  let ?l = "(outboundMsgs (client_at i st1))\<lparr>cursor := None\<rparr>"
  show ?thesis
  proof (cases rule: find_message_cases [of "ack_msgId pack" ?l])
    case none
    then show ?thesis
      using st1 found_outbound(1) [OF st1(2), of ?l] by (simp add: MQTTProtocol_handlePubrecs_def Let_def)
  next
    case (some k l)
    let ?st = "upd_client i (\<lambda>c. c\<lparr>outboundMsgs := l\<rparr>) st1"
    have "items l = items (outboundMsgs (client_at i st1))"
      using some(3) by simp
    note st = found_outbound [OF st1(2) this st1(3)]
    obtain rc st2 where sent: "with_net (MQTTPacket_send_pubrel (ack_msgId pack) False) E i ?st = Done (rc, st2)" "wired i ?st st2"
      using sends_wired(3) [of i ?st "ack_msgId pack" False E] st1(3) by auto
    have st2: "session_inv st2" "i < length (items (clients st2))"
      "items (outboundMsgs (client_at i st2)) = items l"
      using same_inv [OF st(1) same_wired [OF sent(2)]] wired_clients(1) [OF sent(2)] st1(3)
        same_client(2) [OF same_wired [OF sent(2)], of i] st(2) by simp_all
    show ?thesis
    proof (cases "m_qos (items l ! k) = 2")
      case True
      let ?g = "\<lambda>m. m\<lparr>nextMessageType := int (msg_code PUBCOMP), lastTouch := now E st2\<rparr>"
      have "session_inv (upd_client i (\<lambda>c. c\<lparr>outboundMsgs := cl_update k ?g (outboundMsgs c)\<rparr>) st2)"
        by (rule touch_outbound [OF st2(1,2)]) (use some True st2(3) in \<open>simp_all add: out_ok_def\<close>)
      then show ?thesis
        using st1 some st(1) sent(1) True by (simp add: MQTTProtocol_handlePubrecs_def Let_def)
    qed (use st1 some st(1) in \<open>simp add: MQTTProtocol_handlePubrecs_def Let_def\<close>)
  qed
qed

section \<open>Incoming publications\<close>

lemma process_inv:
  assumes "session_inv st" "i < length (items (clients st))" "header_qos (pub_header p) = 2 \<or> publish_fits p"
  shows "\<exists>st'. Protocol_processPublication E p i st = Done st' \<and> session_inv st' \<and> session_same st st'"
proof -
  have "persistence_of (client_at i st) = None"
    using inv_client [OF assms(1,2)] by (simp add: client_ok_def)
  from processPublication_returns [OF assms(3) this, of E] show ?thesis
    using same_inv [OF assms(1)] by blast
qed

lemma sent_inv:
  assumes "session_inv st" "wired i st st'"
  shows "session_inv st'" "i < length (items (clients st'))"
  using same_inv [OF assms(1) same_wired [OF assms(2)]] wired_clients(1) [OF assms(2)] assms(2)
  by (simp_all add: wired_def)

text \<open>The message that \<open>handlePublishes\<close> stores for a QoS 2 publication.\<close>

definition received :: "('k, 'a) env \<Rightarrow> publish \<Rightarrow> nat \<Rightarrow> messages" where
  "received E p a = (fresh_message E)\<lparr>m_publish := a, m_msgid := pub_msgId p, m_qos := int (header_qos (pub_header p)),
     m_retain := header_retain (pub_header p), nextMessageType := int (msg_code PUBREL)\<rparr>"

lemma handlePublishes_inv:
  assumes "session_inv st" "\<exists>c \<in> set (items (clients st)). net_socket c = s" "publish_fits p"
  shows "returns_inv (MQTTProtocol_handlePublishes E p s st)"
proof -
  obtain i st1 where st1: "client_of s st = Done (i, st1)" "session_inv st1" "i < length (items (clients st1))"
    using client_of_inv [OF assms(1,2)] by metis
  consider "header_qos (pub_header p) = 0" | "header_qos (pub_header p) = 1" | "header_qos (pub_header p) = 2"
    | "2 < header_qos (pub_header p)"
    by linarith
  then show ?thesis
  proof cases
    case 1
    then show ?thesis
      using st1 process_inv [OF st1(2,3), of p E] assms(3) by (auto simp: MQTTProtocol_handlePublishes_def)
  next
    case 2
    obtain rc st2 where sent: "with_net (MQTTPacket_send_puback (pub_msgId p)) E i st1 = Done (rc, st2)" "wired i st1 st2"
      using sends_wired(1) [OF st1(3)] by blast
    then show ?thesis
      using 2 st1 process_inv [OF sent_inv [OF st1(2) sent(2)], of p E] assms(3)
      by (auto simp: MQTTProtocol_handlePublishes_def)
  next
    case 3
    let ?m = "received E p" and ?ins = "inboundMsgs (client_at i st1)"
    obtain a st2 where st2: "MQTTProtocol_storePublication p st1 = Done (a, st2)" "owned (add_mset a (refs st1)) st2"
      "heap_only st1 st2" "a \<notin># refs st1"
      using store_owned [of "refs st1" st1 p] st1(2) assms(3) by (auto simp: session_inv_def)
    note cl = heap_only_fields(10) [OF st2(3)]
    have m: "in_ok (?m a)" "m_publish (?m a) = a" "m_msgid (?m a) = pub_msgId p"
      using 3 by (simp_all add: received_def in_ok_def)
    have send: "returns_inv (with_net (MQTTPacket_send_pubrec (pub_msgId p)) E i st3)"
      if "session_inv st3" "i < length (items (clients st3))" for st3
      using sends_wired(2) [OF that(2), of "pub_msgId p" E] sent_inv [OF that(1)] by (auto simp: returns_inv_def)
    have len: "i < length (items (clients st2))"
      using st1(3) heap_only_fields(1) [OF st2(3)] by simp
    show ?thesis
    proof (cases rule: find_message_cases [of "pub_msgId p" ?ins])
      case none
      have "session_inv (upd_client i (\<lambda>c. c\<lparr>inboundMsgs := cl_append (?m a) ?ins\<rparr>) st2)"
        by (rule add_inbound [OF st1(2,3) st2(2-4) m(1,2)]) (use none m(3) in simp_all)
      from send [OF this] show ?thesis
        using 3 st1 st2 none len cl
        by (simp add: MQTTProtocol_handlePublishes_def Let_def received_def)
    next
      case (some k l)
      obtain st3 where st3: "MQTTProtocol_removePublication (m_publish (items l ! k)) st2 = Done st3" "heap_only st2 st3"
        "session_inv (upd_client i (\<lambda>c. c\<lparr>inboundMsgs := cl_delete (Suc k) (cl_insert (?m a) k l)\<rparr>) st3)"
        using replace_inbound [OF st1(2,3) st2(2-4) m(1,2), of k l] some m(3) by auto
      have "i < length (items (clients st3))"
        using len heap_only_fields(1) [OF st3(2)] by simp
      then show ?thesis
        using send [OF st3(3)] 3 st1 st2 some st3(1) cl
        by (simp add: MQTTProtocol_handlePublishes_def Let_def received_def)
    qed
  next
    case 4
    then show ?thesis
      using st1 by (simp add: MQTTProtocol_handlePublishes_def)
  qed
qed

lemma handlePubrels_inv:
  assumes "session_inv st" "\<exists>c \<in> set (items (clients st)). net_socket c = s"
  shows "returns_inv (MQTTProtocol_handlePubrels E pack s st)"
proof -
  obtain i st1 where st1: "client_of s st = Done (i, st1)" "session_inv st1" "i < length (items (clients st1))"
    using client_of_inv [OF assms(1,2)] by metis
  show ?thesis
  proof (cases rule: find_message_cases [of "ack_msgId pack" "inboundMsgs (client_at i st1)"])
    case none
    let ?st = "upd_client i (\<lambda>c. c\<lparr>inboundMsgs := inboundMsgs (client_at i st1)\<rparr>) st1"
    have st: "session_inv ?st" "i < length (items (clients ?st))"
      using found_inbound(1) [OF st1(2) refl st1(3)] st1(3) by simp_all
    obtain rc st2 where "with_net (MQTTPacket_send_pubcomp (ack_msgId pack)) E i ?st = Done (rc, st2)" "wired i ?st st2"
      using sends_wired(4) [OF st(2)] by blast
    then show ?thesis
      using st1 none st(1) sent_inv [OF st(1)] by (simp add: MQTTProtocol_handlePubrels_def Let_def)
  next
    case (some k l)
    let ?st = "upd_client i (\<lambda>c. c\<lparr>inboundMsgs := l\<rparr>) st1" and ?m = "items l ! k"
    note st = found_inbound [OF st1(2) some(3) st1(3)]
    have len: "i < length (items (clients ?st))"
      using st1(3) by simp
    have m: "in_ok ?m"
      using inv_client [OF st(1) len] some(2,3) by (simp add: client_ok_def st(2))
    obtain rc st2 where sent: "with_net (MQTTPacket_send_pubcomp (ack_msgId pack)) E i ?st = Done (rc, st2)" "wired i ?st st2"
      using sends_wired(4) [OF len] by blast
    note st2 = sent_inv [OF st(1) sent(2)]
    have ins2: "items (inboundMsgs (client_at i st2)) = items l"
      using same_client(1) [OF same_wired [OF sent(2)] len] by (simp add: st(2))
    have "m_publish ?m \<in># list_refs (inboundMsgs (client_at i st2))"
      using ins2 some(2,3) by (simp add: list_refs_def)
    then have "m_publish ?m \<in># refs st2"
      by (rule in_le_refs [OF mset_subset_eqD [OF in_member [OF st2(2)]]])
    then obtain sp where sp: "heap_pubs st2 (m_publish ?m) = Some sp"
      using st2(1) by (auto simp: session_inv_def elim: owned_heap)
    let ?p = "\<lparr>pub_header = header_byte 0 False (nat (m_qos ?m)) (m_retain ?m), pub_topic = p_topic sp,
        pub_topiclen = p_topiclen sp, pub_msgId = m_msgid ?m, pub_payload = p_payload sp, pub_payloadlen = p_payloadlen sp\<rparr>"
    have "header_qos (pub_header ?p) = 2"
      using m by (simp add: in_ok_def)
    then obtain st3 where st3: "Protocol_processPublication E ?p i st2 = Done st3" "session_inv st3" "session_same st2 st3"
      using process_inv [OF st2, of ?p E] by blast
    have len3: "i < length (items (clients st3))"
      using st2(2) same_length [OF st3(3)] by simp
    have none: "persistence_of (client_at i st3) = None"
      using inv_client [OF st3(2) len3] by (simp add: client_ok_def)
    have ins3: "items (inboundMsgs (client_at i st3)) = items l"
      using same_client(1) [OF st3(3) st2(2)] ins2 by simp
    have k: "k < length (items (inboundMsgs (client_at i st3)))"
      using some(2,3) ins3 by simp
    have end_inv: "session_inv (upd_client i (\<lambda>c. c\<lparr>inboundMsgs := cl_delete k (inboundMsgs (client_at i st3))\<rparr>)
        (remove_stored (m_publish ?m) st3))"
      using drop_inbound(1) [OF st3(2) len3 k refl] ins3 by simp
    have "upd_client i (\<lambda>c. c\<lparr>inboundMsgs := cl_delete k (inboundMsgs c)\<rparr>) (remove_stored (m_publish ?m) st3) =
        upd_client i (\<lambda>c. c\<lparr>inboundMsgs := cl_delete k (inboundMsgs (client_at i st3))\<rparr>) (remove_stored (m_publish ?m) st3)"
      using heap_only_fields(1) [OF drop_inbound(2) [OF st3(2) len3 k refl]] ins3
      by (simp add: upd_client_def cl_update_def client_at_def)
    then show ?thesis
      using st1 some sent(1) sp st3(1) none end_inv m by (auto simp: MQTTProtocol_handlePubrels_def Let_def remove_none in_ok_def)
  qed
qed

section \<open>The other events\<close>

lemma handlePingresps_inv:
  assumes "session_inv st" "\<exists>c \<in> set (items (clients st)). net_socket c = s"
  shows "returns_inv (MQTTProtocol_handlePingresps s st)"
proof -
  obtain i st1 where "client_of s st = Done (i, st1)" "session_inv st1"
    using client_of_inv [OF assms] by metis
  then show ?thesis
    using same_inv [OF _ same_upd [of "\<lambda>c. c\<lparr>ping_outstanding := False\<rparr>" i st1]]
    by (simp add: MQTTProtocol_handlePingresps_def view_def)
qed

lemma startPublish_inv:
  assumes "session_inv st" "i < length (items (clients st))" "publish_fits p" "qos = 1 \<or> qos = 2"
  shows "\<exists>rc m st'. MQTTProtocol_startPublish E i p qos retained None st = Done (rc, Some m, st') \<and> session_inv st'"
proof -
  obtain a st1 where st1: "MQTTProtocol_storePublication p st = Done (a, st1)" "owned (add_mset a (refs st)) st1"
    "a \<notin># refs st" "heap_only st st1"
    and sp: "heap_pubs st1 a = Some \<lparr>p_topic = pub_topic p, p_topiclen = pub_topiclen p, p_payload = pub_payload p,
         p_payloadlen = pub_payloadlen p, refcount = 1\<rparr>"
    using store_owned [of "refs st" st p] assms(1,3) by (auto simp: session_inv_def)
  let ?m = "(fresh_message E)\<lparr>m_publish := a, m_msgid := pub_msgId p, m_qos := qos, m_retain := retained, lastTouch := now E st1\<rparr>"
  define m where "m = (if qos = 2 then ?m\<lparr>nextMessageType := int (msg_code PUBREC)\<rparr> else ?m)"
  have m: "out_ok m" "m_publish m = a"
    using assms(4) by (auto simp: m_def out_ok_def)
  have create: "MQTTProtocol_createMessage E p None qos retained st = Done (m, st1)"
    using st1(1) by (simp add: MQTTProtocol_createMessage_def m_def Let_def)
  let ?st2 = "upd_client i (\<lambda>c. c\<lparr>outboundMsgs := cl_append m (outboundMsgs c)\<rparr>) st1"
  have st2: "session_inv ?st2" "i < length (items (clients ?st2))"
    using add_outbound [OF assms(1,2) st1(2,4,3) m] heap_only_fields(1) [OF st1(4)] assms(2) by simp_all
  let ?p = "p\<lparr>pub_payload := pub_payload p, pub_topic := pub_topic p\<rparr>"
  obtain rc st3 where st3: "send_publish E i ?p False qos retained ?st2 = Done (rc, st3)" "wired i ?st2 st3"
    using publish_wired [OF st2(2), of ?p E False qos retained] assms(3) by (auto simp: publish_fits_def)
  have heap2: "heap_pubs ?st2 a = heap_pubs st1 a"
    by (simp add: upd_client_def)
  have "MQTTProtocol_startPublish E i p qos retained None st = Done (rc, Some m, st3)"
    using create st3(1) assms(4) sp m(2) heap2
    by (auto simp: MQTTProtocol_startPublish_def MQTTProtocol_startPublishCommon_def)
  then show ?thesis
    using sent_inv(1) [OF st2(1) st3(2)] by blast
qed

text \<open>Closing a session queues an internal disconnect, which is never saved: it always returns.\<close>

definition close_queued :: "('k, 'a) env \<Rightarrow> nat \<Rightarrow> ('k, 'p, 'u) mqtt \<Rightarrow> ('k, 'p, 'u) mqtt" where
  "close_queued E i st = (case MQTTProtocol_closeSession E i st of Done st' \<Rightarrow> st' | _ \<Rightarrow> st)"

lemma closeSession_cases:
  "\<exists>st'. MQTTProtocol_closeSession E i st = Done st' \<and> session_same st st'"
  by (cases "items (commands st)")
    (auto simp: MQTTProtocol_closeSession_def MQTTAsync_disconnect_internal_def MQTTAsync_disconnect1_def new_command_def
      zero_command_def command.defs MQTTAsync_addCommand_def session_same_def Let_def)

lemma closeSession_Done [simp]: "MQTTProtocol_closeSession E i st = Done (close_queued E i st)"
  using closeSession_cases [of E i st] by (auto simp: close_queued_def)

lemma closeSession_same: "session_same st (close_queued E i st)"
  using closeSession_cases [of E i st] by auto

lemma noPendingWrites_socks: "\<exists>none ss'. Socket_noPendingWrites s ss = (none, ss')"
  by (cases "Socket_noPendingWrites s ss") blast

text \<open>A loop over the clients: what every turn keeps, the loop keeps.\<close>

lemma for_clients_same:
  assumes "session_inv st" "\<forall>i \<in> set is. i < length (items (clients st))"
    and step: "\<And>i st. session_inv st \<Longrightarrow> i < length (items (clients st)) \<Longrightarrow> \<exists>st'. f i st = Done st' \<and> session_same st st'"
  shows "\<exists>st'. for_clients f is st = Done st' \<and> session_inv st' \<and> session_same st st'"
  using assms(1,2)
proof (induction "is" arbitrary: st)
  case Nil
  then show ?case
    by (simp add: same_refl)
next
  case (Cons i "is")
  obtain st1 where st1: "f i st = Done st1" "session_same st st1"
    using step [OF Cons.prems(1), of i] Cons.prems(2) by auto
  then obtain st2 where "for_clients f is st1 = Done st2" "session_inv st2" "session_same st1 st2"
    using Cons.IH [OF same_inv [OF Cons.prems(1) st1(2)]] Cons.prems(2) same_length [OF st1(2)] by auto
  then show ?case
    using st1 same_trans by auto
qed

lemma keepalive_client_same:
  assumes "i < length (items (clients st))"
  shows "\<exists>st'. keepalive_client E t i st = Done st' \<and> session_same st st'"
proof -
  obtain none ss where ss: "Socket_noPendingWrites (net_socket (client_at i st)) (socks st) = (none, ss)"
    using noPendingWrites_socks by blast
  let ?st = "st\<lparr>socks := ss\<rparr>"
  have s1: "session_same st ?st"
    by (rule same_update)
  obtain rc st2 where st2: "with_net MQTTPacket_send_pingreq E i ?st = Done (rc, st2)" "wired i ?st st2"
    using sends_wired(5) [of i ?st E] assms by auto
  note s2 = same_trans [OF s1 same_wired [OF st2(2)]]
  show ?thesis
    using ss st2(1) s1 same_trans [OF s2 closeSession_same] same_refl closeSession_same
      same_trans [OF s2 same_upd [of "\<lambda>c. c\<lparr>lastSent := t, ping_outstanding := True\<rparr>"]]
    by (auto simp: keepalive_client_def Let_def view_def)
qed

lemma stored_publication:
  assumes "session_inv st" "i < length (items (clients st))" "m \<in> set (items (outboundMsgs (client_at i st)))"
  obtains sp where "heap_pubs st (m_publish m) = Some sp" "pub_fits sp"
proof -
  have "m_publish m \<in># list_refs (outboundMsgs (client_at i st))"
    using assms(3) by (simp add: list_refs_def)
  then have "m_publish m \<in># out_refs st"
    by (rule mset_subset_eqD [OF out_member [OF assms(2)]])
  then have "m_publish m \<in># refs st"
    by (simp add: refs_def)
  then show thesis
    using assms(1) that by (auto simp: session_inv_def elim: owned_heap)
qed

lemma retry_message_inv:
  assumes inv: "session_inv st" "i < length (items (clients st))" "j < length (items (outboundMsgs (client_at i st)))"
  shows "\<exists>go_on st'. retry_message E t i regardless j st = Done (go_on, st') \<and> session_inv st'
    \<and> length (items (clients st')) = length (items (clients st))
    \<and> length (items (outboundMsgs (client_at i st'))) = length (items (outboundMsgs (client_at i st)))"
proof -
  let ?m = "items (outboundMsgs (client_at i st)) ! j"
  let ?out = "\<lambda>st. items (outboundMsgs (client_at i st))"
  let ?touch = "\<lambda>st. upd_client i (\<lambda>c. c\<lparr>outboundMsgs := cl_update j (\<lambda>m. m\<lparr>lastTouch := now E st\<rparr>) (outboundMsgs c)\<rparr>) st"
  let ?give_up = "\<lambda>st. close_queued E i (upd_client i (\<lambda>c. c\<lparr>good := False\<rparr>) st)"
  have after: "session_inv (?touch st2)" "session_inv (?give_up st2)"
    "length (items (clients (?touch st2))) = length (items (clients st))" "length (items (clients (?give_up st2))) = length (items (clients st))"
    "length (?out (?touch st2)) = length (?out st)" "length (?out (?give_up st2)) = length (?out st)"
    if "wired i st st2" for st2
  proof -
    have same: "session_same st st2"
      using same_wired [OF that] .
    have st2: "session_inv st2" "i < length (items (clients st2))" "?out st2 = ?out st"
      using same_inv [OF inv(1) same] same_length [OF same] same_client(2) [OF same inv(2)] inv(2) by simp_all
    have "out_ok (?out st2 ! j)"
      using inv_client [OF inv(1,2)] inv(3) st2(3) by (simp add: client_ok_def)
    then show "session_inv (?touch st2)"
      using inv(3) st2(3) by (intro touch_outbound [OF st2(1,2)]) (simp_all add: out_ok_def)
    have give_up: "session_same st2 (?give_up st2)"
      by (rule same_trans [OF same_upd closeSession_same]) (simp add: view_def)
    show "session_inv (?give_up st2)"
      by (rule same_inv [OF st2(1) give_up])
    show "length (items (clients (?touch st2))) = length (items (clients st))" "length (items (clients (?give_up st2))) = length (items (clients st))"
      using same_length [OF same] same_length [OF give_up] by simp_all
    show "length (?out (?touch st2)) = length (?out st)"
      using st2(2,3) by (simp add: upd_client_def client_at_def)
    show "length (?out (?give_up st2)) = length (?out st)"
      using same_client(2) [OF give_up st2(2)] st2(3) by simp
  qed
  obtain sp where sp: "heap_pubs st (m_publish ?m) = Some sp" "pub_fits sp"
    using stored_publication [OF inv(1,2), of ?m] inv(3) by auto
  let ?p = "\<lparr>pub_header = 0, pub_topic = p_topic sp, pub_topiclen = p_topiclen sp, pub_msgId = m_msgid ?m,
      pub_payload = p_payload sp, pub_payloadlen = p_payloadlen sp\<rparr>"
  obtain rc1 st1 where pub: "send_publish E i ?p True (m_qos ?m) (m_retain ?m) st = Done (rc1, st1)" "wired i st st1"
    using publish_wired [OF inv(2), of ?p E True "m_qos ?m" "m_retain ?m"] sp(2) by (auto simp: pub_fits_def)
  obtain rc2 st2 where rel: "with_net (MQTTPacket_send_pubrel (m_msgid ?m) False) E i st = Done (rc2, st2)" "wired i st st2"
    using sends_wired(3) [OF inv(2)] by blast
  show ?thesis
    using inv(1) sp(1) pub(1) rel(1) after [OF pub(2)] after [OF rel(2)]
    unfolding retry_message_def Let_def by (auto split del: if_split) (auto split: if_splits)
qed

lemma retry_messages_inv:
  assumes "session_inv st" "i < length (items (clients st))" "\<forall>j \<in> set js. j < length (items (outboundMsgs (client_at i st)))"
  shows "\<exists>st'. retry_messages E t i regardless js st = Done st' \<and> session_inv st'
    \<and> length (items (clients st')) = length (items (clients st))"
  using assms
proof (induction js arbitrary: st)
  case (Cons j js)
  obtain none ss where ss: "Socket_noPendingWrites (net_socket (client_at i st)) (socks st) = (none, ss)"
    using noPendingWrites_socks by blast
  let ?st = "st\<lparr>socks := ss\<rparr>"
  have st: "session_inv ?st" "client_at i ?st = client_at i st"
    using same_inv [OF Cons.prems(1) same_update(1)] by (simp_all add: client_at_def)
  obtain go_on st2 where st2: "retry_message E t i regardless j ?st = Done (go_on, st2)" "session_inv st2"
    "length (items (clients st2)) = length (items (clients st))"
    "length (items (outboundMsgs (client_at i st2))) = length (items (outboundMsgs (client_at i st)))"
    using retry_message_inv [OF st(1), of i j E t regardless] Cons.prems st(2) by auto
  obtain st3 where "retry_messages E t i regardless js st2 = Done st3" "session_inv st3"
    "length (items (clients st3)) = length (items (clients st2))"
    using Cons.IH [OF st2(2)] Cons.prems st2(3,4) by auto
  then show ?case
    using ss st(1) st2 Cons.prems(1) by (auto simp: Let_def)
qed simp

lemma retry_client_inv:
  assumes "session_inv st" "i < length (items (clients st))"
  shows "\<exists>st'. retry_client E t doRetry regardless i st = Done st' \<and> session_inv st'
    \<and> length (items (clients st')) = length (items (clients st))"
proof -
  obtain none ss where ss: "Socket_noPendingWrites (net_socket (client_at i st)) (socks st) = (none, ss)"
    using noPendingWrites_socks by blast
  let ?st = "st\<lparr>socks := ss\<rparr>"
  have st: "session_inv ?st" "client_at i ?st = client_at i st"
    using same_inv [OF assms(1) same_update(1)] by (simp_all add: client_at_def)
  obtain st2 where "MQTTProtocol_retries E t i regardless ?st = Done st2" "session_inv st2"
    "length (items (clients st2)) = length (items (clients st))"
  proof (cases "\<not> regardless \<and> retryInterval (client_at i st) \<le> 0")
    case True
    then show thesis
      using that [of ?st] st by (simp add: MQTTProtocol_retries_def)
  next
    case False
    obtain st2 where "retry_messages E t i regardless [0..<length (items (outboundMsgs (client_at i ?st)))] ?st = Done st2"
      "session_inv st2" "length (items (clients st2)) = length (items (clients ?st))"
      using retry_messages_inv [OF st(1), of i "[0..<length (items (outboundMsgs (client_at i ?st)))]" E t regardless] assms(2)
      by auto
    then show thesis
      using that [of st2] False st(2) by (simp add: MQTTProtocol_retries_def)
  qed
  then show ?thesis
    using ss st(1) assms(1) same_inv [OF assms(1) closeSession_same] same_length [OF closeSession_same [of st E i]]
    by (auto simp: retry_client_def Let_def)
qed

lemma for_clients_inv:
  assumes "session_inv st" "\<forall>i \<in> set is. i < length (items (clients st))"
    and step: "\<And>i st. session_inv st \<Longrightarrow> i < length (items (clients st)) \<Longrightarrow> \<exists>st'. f i st = Done st' \<and> session_inv st'
      \<and> length (items (clients st')) = length (items (clients st))"
  shows "\<exists>st'. for_clients f is st = Done st' \<and> session_inv st'"
  using assms(1,2)
proof (induction "is" arbitrary: st)
  case (Cons i "is")
  obtain st1 where "f i st = Done st1" "session_inv st1" "length (items (clients st1)) = length (items (clients st))"
    using step [OF Cons.prems(1), of i] Cons.prems(2) by auto
  then show ?case
    using Cons.IH [of st1] Cons.prems(2) by auto
qed simp

lemma retry_inv:
  "session_inv st \<Longrightarrow> \<exists>st'. MQTTProtocol_retry E t doRetry regardless st = Done st' \<and> session_inv st'"
  unfolding MQTTProtocol_retry_def by (rule for_clients_inv) (simp_all add: retry_client_inv)

lemma keepalive_inv: "session_inv st \<Longrightarrow> \<exists>st'. MQTTProtocol_keepalive E t st = Done st' \<and> session_inv st'"
  unfolding MQTTProtocol_keepalive_def
  using for_clients_same [of st _ "keepalive_client E t"] keepalive_client_same by (metis atLeastLessThan_iff set_upt)

text \<open>A write that has completed gives its publication back.\<close>

lemma drop_pending:
  assumes inv: "session_inv st" and j: "j < length (items (pending_qos0 st))"
  shows "\<exists>st1. MQTTProtocol_removePublication (snd (items (pending_qos0 st) ! j)) st = Done st1
    \<and> session_inv (st1\<lparr>pending_qos0 := cl_delete j ((pending_qos0 st1)\<lparr>cursor := c\<rparr>)\<rparr>)"
proof -
  let ?a = "snd (items (pending_qos0 st) ! j)"
  let ?P = "image_mset snd (mset (take j (items (pending_qos0 st)) @ drop (Suc j) (items (pending_qos0 st))))"
  let ?R = "in_refs st + out_refs st + ?P"
  have "image_mset snd (mset (items (pending_qos0 st))) =
      image_mset snd (add_mset (items (pending_qos0 st) ! j) (mset (take j (items (pending_qos0 st)) @ drop (Suc j) (items (pending_qos0 st)))))"
    by (simp only: mset_delete [OF j])
  then have R: "refs st = add_mset ?a ?R" and P: "?a \<in># image_mset snd (mset (items (pending_qos0 st)))"
    by (simp_all add: refs_def)
  obtain st1 where st1: "MQTTProtocol_removePublication ?a st = Done st1" "owned ?R st1" "heap_only st st1"
    using remove_owned [of ?a ?R st] inv R by (auto simp: session_inv_def)
  let ?st2 = "st1\<lparr>pending_qos0 := cl_delete j ((pending_qos0 st1)\<lparr>cursor := c\<rparr>)\<rparr>"
  note f = heap_only_fields [OF st1(3)]
  have refs2: "refs ?st2 = ?R" "in_refs ?st2 = in_refs st"
    using f(1,2) by (simp_all add: refs_def in_refs_def out_refs_def items_delete)
  have "count ?R b = 1" if "b \<in># in_refs st" for b
  proof -
    have "count (in_refs st) b + count (out_refs st) b + count (image_mset snd (mset (items (pending_qos0 st)))) b = 1"
      using inv that by (simp add: session_inv_def refs_def)
    moreover have "0 < count (in_refs st) b"
      using that by simp
    ultimately have "count (image_mset snd (mset (items (pending_qos0 st)))) b = 0"
      by linarith
    then have "b \<noteq> ?a"
      using P by (auto simp: not_in_iff [symmetric])
    then show ?thesis
      using inv that R by (auto simp: session_inv_def)
  qed
  then have "session_inv ?st2"
    using inv st1(2) f(1) refs2 by (simp add: session_inv_def)
  then show ?thesis
    using st1(1) by blast
qed

lemma check_writes_inv: "session_inv st \<Longrightarrow> \<exists>st'. check_writes j st = Done st' \<and> session_inv st'"
proof (induction j st rule: check_writes.induct)
  case (1 j st)
  obtain none ss where ss: "Socket_noPendingWrites (fst (items (pending_qos0 st) ! j)) (socks st) = (none, ss)"
    using noPendingWrites_socks by blast
  let ?st = "st\<lparr>socks := ss\<rparr>"
  have st: "session_inv ?st"
    using same_inv [OF "1.prems" same_update(1)] .
  show ?case
  proof (cases "j < length (items (pending_qos0 st))")
    case True
    obtain st1 where st1: "MQTTProtocol_removePublication (snd (items (pending_qos0 st) ! j)) ?st = Done st1"
      "session_inv (st1\<lparr>pending_qos0 := cl_delete j ((pending_qos0 st1)\<lparr>cursor := Some j\<rparr>)\<rparr>)"
      using drop_pending [OF st, of j "Some j"] True by auto
    show ?thesis
    proof (cases none)
      case yes: True
      then show ?thesis
        using "1.IH"(1) [OF _ refl ss [symmetric] refl] True ss st1 by (subst check_writes.simps) simp
    next
      case False
      then show ?thesis
        using "1.IH"(2) [OF _ refl ss [symmetric] refl] True ss st by (subst check_writes.simps) simp
    qed
  qed (use "1.prems" in \<open>subst check_writes.simps, simp\<close>)
qed

section \<open>A session\<close>

text \<open>Every event is a call from the main loop of the client or from the application.\<close>

datatype event =
  Publish_in publish int
| Puback_in ack int
| Pubrec_in ack int
| Pubrel_in ack int
| Pubcomp_in ack int
| Pingresp_in int
| Start_publish nat publish int bool
| Keepalive int
| Retry int bool bool
| Check_writes

primrec session_step :: "('k, 'a) env \<Rightarrow> event \<Rightarrow> ('k, 'p, 'u) mqtt \<Rightarrow> ('k, 'p, 'u) mqtt outcome" where
  "session_step E (Publish_in p s) st = obind (MQTTProtocol_handlePublishes E p s st) (\<lambda>(_, st). Done st)"
| "session_step E (Puback_in a s) st = obind (MQTTProtocol_handlePubacks E a s st) (\<lambda>(_, st). Done st)"
| "session_step E (Pubrec_in a s) st = obind (MQTTProtocol_handlePubrecs E a s st) (\<lambda>(_, st). Done st)"
| "session_step E (Pubrel_in a s) st = obind (MQTTProtocol_handlePubrels E a s st) (\<lambda>(_, st). Done st)"
| "session_step E (Pubcomp_in a s) st = obind (MQTTProtocol_handlePubcomps E a s st) (\<lambda>(_, st). Done st)"
| "session_step E (Pingresp_in s) st = obind (MQTTProtocol_handlePingresps s st) (\<lambda>(_, st). Done st)"
| "session_step E (Start_publish i p qos retained) st =
     obind (MQTTProtocol_startPublish E i p qos retained None st) (\<lambda>(_, _, st). Done st)"
| "session_step E (Keepalive t) st = MQTTProtocol_keepalive E t st"
| "session_step E (Retry t doRetry regardless) st = MQTTProtocol_retry E t doRetry regardless st"
| "session_step E Check_writes st = MQTTProtocol_checkPendingWrites st"

text \<open>
  A packet comes from the socket of a client, a publication has its length right and fits a packet,
  and the publications started here have quality of service 1 or 2.
\<close>

definition has_socket :: "int \<Rightarrow> ('k, 'p, 'u) mqtt \<Rightarrow> bool" where
  "has_socket s st \<longleftrightarrow> (\<exists>c \<in> set (items (clients st)). net_socket c = s)"

primrec event_ok :: "event \<Rightarrow> ('k, 'p, 'u) mqtt \<Rightarrow> bool" where
  "event_ok (Publish_in p s) st \<longleftrightarrow> has_socket s st \<and> publish_fits p"
| "event_ok (Puback_in a s) st \<longleftrightarrow> has_socket s st"
| "event_ok (Pubrec_in a s) st \<longleftrightarrow> has_socket s st"
| "event_ok (Pubrel_in a s) st \<longleftrightarrow> has_socket s st"
| "event_ok (Pubcomp_in a s) st \<longleftrightarrow> has_socket s st"
| "event_ok (Pingresp_in s) st \<longleftrightarrow> has_socket s st"
| "event_ok (Start_publish i p qos retained) st \<longleftrightarrow> i < length (items (clients st)) \<and> publish_fits p \<and> (qos = 1 \<or> qos = 2)"
| "event_ok (Keepalive t) st \<longleftrightarrow> True"
| "event_ok (Retry t doRetry regardless) st \<longleftrightarrow> True"
| "event_ok Check_writes st \<longleftrightarrow> True"

lemma session_step_inv:
  assumes "session_inv st" "event_ok ev st"
  shows "\<exists>st'. session_step E ev st = Done st' \<and> session_inv st'"
proof (cases ev)
  case (Publish_in p s)
  then show ?thesis
    using handlePublishes_inv [OF assms(1), of s p E] assms(2) by (auto simp: has_socket_def returns_inv_def)
next
  case (Puback_in a s)
  then show ?thesis
    using handlePubacks_inv [OF assms(1), of s E a] assms(2) by (auto simp: has_socket_def returns_inv_def)
next
  case (Pubrec_in a s)
  then show ?thesis
    using handlePubrecs_inv [OF assms(1), of s E a] assms(2) by (auto simp: has_socket_def returns_inv_def)
next
  case (Pubrel_in a s)
  then show ?thesis
    using handlePubrels_inv [OF assms(1), of s E a] assms(2) by (auto simp: has_socket_def returns_inv_def)
next
  case (Pubcomp_in a s)
  then show ?thesis
    using handlePubcomps_inv [OF assms(1), of s E a] assms(2) by (auto simp: has_socket_def returns_inv_def)
next
  case (Pingresp_in s)
  then show ?thesis
    using handlePingresps_inv [OF assms(1), of s] assms(2) by (auto simp: has_socket_def returns_inv_def)
next
  case (Start_publish i p qos retained)
  then show ?thesis
    using startPublish_inv [OF assms(1), of i p qos E retained] assms(2) by auto
qed (use assms(1) keepalive_inv retry_inv check_writes_inv in \<open>auto simp: MQTTProtocol_checkPendingWrites_def\<close>)

inductive session_reach :: "('k, 'a) env \<Rightarrow> ('k, 'p, 'u) mqtt \<Rightarrow> ('k, 'p, 'u) mqtt \<Rightarrow> bool" for E st0 where
  start: "session_reach E st0 st0"
| step: "session_reach E st0 st \<Longrightarrow> event_ok ev st \<Longrightarrow> session_step E ev st = Done st' \<Longrightarrow> session_reach E st0 st'"

lemma session_reach_inv: "session_reach E st0 st \<Longrightarrow> session_inv st0 \<Longrightarrow> session_inv st"
proof (induction rule: session_reach.induct)
  case (step st ev st')
  then show ?case
    using session_step_inv [of st ev E] by auto
qed


section \<open>A session to start from\<close>

text \<open>One connected client on socket \<open>s\<close>, with nothing in flight.\<close>

definition idle_client :: "int \<Rightarrow> unit client" where
  "idle_client s = \<lparr>clientID = [99], username = None, password = None, cleansession = True, keepAliveInterval = 20,
     will = None, connected = True, good = True, ping_outstanding = False, connect_state = 0, net_socket = s,
     lastSent = 0, lastReceived = 0, msgID = 0, retryInterval = 0, maxInflightMessages = 10, inboundMsgs = cl_new,
     outboundMsgs = cl_new, messageQueue = cl_new, qentry_seqno = 0, phandle = 0, persistence_of = None,
     MQTTVersion = 4\<rparr>"

definition one_session :: "int \<Rightarrow> 'u async_handle list \<Rightarrow> 'k \<Rightarrow> 'u \<Rightarrow> ('k, unit, 'u) mqtt" where
  "one_session s hs k u = \<lparr>clients = \<lparr>items = [idle_client s], cursor = None\<rparr>, heap_pubs = Map.empty, next_pub = 0,
     stored = cl_new, msgs_received = 0, msgs_sent = 0, pending_qos0 = cl_new, commands = cl_new,
     handles = \<lparr>items = hs, cursor = None\<rparr>, socks = nothing_pending k, store = (), app = u,
     heap_uris = Map.empty, next_addr = 1, last_timeouts = 0, last_retry = 0\<rparr>"

lemma one_session_inv: "session_inv (one_session s hs k u)"
  by (simp add: session_inv_def owned_def one_session_def refs_def in_refs_def out_refs_def list_refs_def client_ok_def
      idle_client_def)

definition taking_env :: "(nat list \<times> u8 list, unit) env" where
  "taking_env = \<lparr>kern = taking_kernel, fresh_bytes = zero_junk,
     fresh_message = \<lparr>m_qos = 0, m_retain = False, m_msgid = 0, m_publish = 0, lastTouch = 0, nextMessageType = 0\<rparr>,
     fresh_seqno = 0, time_of = (\<lambda>_. 100), clock_of = (\<lambda>_. 0)\<rparr>"


end
