(* ===== verification/Mqtt_Qos.thy ===== *)
theory Mqtt_Qos
  imports Mqtt_Events
begin

text \<open>
  What the exchanges of quality of service 2 promise.  Receiving: the handlers implement a receiver
  that keeps, per message id, the publication that came last and gives it to the application once,
  when its release comes.  The abstract receiver and the handlers are tied by the contents of the
  inbound list; the application of the model records what it is given.
\<close>

section \<open>What a step leaves alone\<close>

text \<open>\<open>still st st'\<close>: the connections, the queues of undelivered messages and the application are as before.\<close>

definition core :: "'p client \<Rightarrow> int \<times> bool \<times> qEntry list" where
  "core c = (net_socket c, connected c, items (messageQueue c))"

definition still :: "('k, 'p, 'u) mqtt \<Rightarrow> ('k, 'p, 'u) mqtt \<Rightarrow> bool" where
  "still st st' \<longleftrightarrow> map core (items (clients st')) = map core (items (clients st)) \<and> app st' = app st
     \<and> items (handles st') = items (handles st)"

lemma still_refl: "still st st"
  by (simp add: still_def)

lemma still_trans: "still st1 st2 \<Longrightarrow> still st2 st3 \<Longrightarrow> still st1 st3"
  by (simp add: still_def)

lemma still_length: "still st st' \<Longrightarrow> length (items (clients st')) = length (items (clients st))"
  unfolding still_def by (metis length_map)

lemma still_core: "still st st' \<Longrightarrow> j < length (items (clients st)) \<Longrightarrow> core (client_at j st') = core (client_at j st)"
  using still_length [of st st'] unfolding still_def client_at_def by (metis nth_map)

lemma still_upd: "core (f (client_at i st)) = core (client_at i st) \<Longrightarrow> still st (upd_client i f st)"
  using list_update_id [of "map core (items (clients st))" i]
  by (cases "i < length (items (clients st))") (simp_all add: still_def upd_client_def client_at_def map_update list_update_beyond)

lemma still_heap: "heap_only st st' \<Longrightarrow> still st st'"
  using heap_only_fields [of st st'] by (simp add: still_def)

lemma still_wired: "wired i st st' \<Longrightarrow> still st st'"
  using list_update_id [of "map core (items (clients st))" i]
  by (auto simp: wired_def still_def map_update core_def client_at_def)

lemma still_cursor: "still st (st\<lparr>clients := (clients st)\<lparr>cursor := c\<rparr>\<rparr>)"
  by (simp add: still_def)

lemma remove_elsewhere:
  "MQTTProtocol_removePublication a st = Done st' \<Longrightarrow> b \<noteq> a \<Longrightarrow> heap_pubs st' b = heap_pubs st b"
  by (auto simp: MQTTProtocol_removePublication_def remove_stored_def Let_def split: option.splits if_splits prod.splits)

lemma set_update_distinct_key:
  assumes "distinct (map f xs)" "k < length xs"
  shows "set (xs[k := y]) = insert y {x \<in> set xs. f x \<noteq> f (xs ! k)}"
proof -
  have "f (xs ! j) = f (xs ! k) \<longleftrightarrow> j = k" if "j < length xs" for j
    using nth_eq_iff_index_eq [OF assms(1), of j k] that assms(2) by simp
  then show ?thesis
    using assms(2) by (auto simp: in_set_conv_nth nth_list_update) metis+
qed

section \<open>The contents of the inbound list\<close>

type_synonym content = "u8 list \<times> int \<times> u8 list \<times> bool"

definition publish_content :: "publish \<Rightarrow> content" where
  "publish_content p = (pub_topic p, pub_topiclen p, pub_payload p, header_retain (pub_header p))"

definition msg_content :: "('k, 'p, 'u) mqtt \<Rightarrow> messages \<Rightarrow> content option" where
  "msg_content st m = map_option (\<lambda>sp. (p_topic sp, p_topiclen sp, p_payload sp, m_retain m)) (heap_pubs st (m_publish m))"

definition in_store :: "nat \<Rightarrow> ('k, 'p, 'u) mqtt \<Rightarrow> int \<Rightarrow> content option" where
  "in_store i st msgid =
     (case List.find (\<lambda>m. m_msgid m = msgid) (items (inboundMsgs (client_at i st))) of
        None \<Rightarrow> None | Some m \<Rightarrow> msg_content st m)"

lemma find_unique:
  assumes "distinct (map f xs)" "m \<in> set xs" "f m = b"
  shows "List.find (\<lambda>m. f m = b) xs = Some m"
  using assms by (induction xs) (auto simp: image_iff)

lemma inbound_distinct:
  assumes "session_inv st" "i < length (items (clients st))"
  shows "distinct (map m_msgid (items (inboundMsgs (client_at i st))))"
    "distinct (map m_publish (items (inboundMsgs (client_at i st))))"
proof -
  show "distinct (map m_msgid (items (inboundMsgs (client_at i st))))"
    using inv_client [OF assms] by (simp add: client_ok_def)
  let ?xs = "map m_publish (items (inboundMsgs (client_at i st)))"
  have sub: "mset ?xs \<subseteq># in_refs st"
    using in_member [OF assms(2)] by (simp add: list_refs_def)
  have "count (mset ?xs) a = 1" if "a \<in> set ?xs" for a
  proof -
    have a: "a \<in># mset ?xs"
      using that by simp
    then have "count (in_refs st) a = 1"
      using inv_single [OF assms(1) mset_subset_eqD [OF sub]] by simp
    moreover have "count (mset ?xs) a \<le> count (in_refs st) a" "0 < count (mset ?xs) a"
      using sub a by (simp_all add: mset_subset_eq_count)
    ultimately show ?thesis
      by linarith
  qed
  moreover have "count (mset ?xs) a = 0" if "a \<notin> set ?xs" for a
    by (rule count_mset_0_iff [THEN iffD2, OF that])
  ultimately show "distinct ?xs"
    by (simp add: distinct_count_atmost_1)
qed

lemma in_store_Some:
  assumes "session_inv st" "i < length (items (clients st))" "m \<in> set (items (inboundMsgs (client_at i st)))"
  shows "in_store i st (m_msgid m) = msg_content st m" "heap_pubs st (m_publish m) \<noteq> None"
proof -
  show "in_store i st (m_msgid m) = msg_content st m"
    using find_unique [OF inbound_distinct(1) [OF assms(1,2)] assms(3) refl] by (simp add: in_store_def)
  have "m_publish m \<in># list_refs (inboundMsgs (client_at i st))"
    using assms(3) by (simp add: list_refs_def)
  then have "m_publish m \<in># refs st"
    by (rule in_le_refs [OF mset_subset_eqD [OF in_member [OF assms(2)]]])
  then show "heap_pubs st (m_publish m) \<noteq> None"
    using assms(1) by (auto simp: session_inv_def owned_def)
qed

lemma in_store_None:
  "msgid \<notin> m_msgid ` set (items (inboundMsgs (client_at i st))) \<Longrightarrow> in_store i st msgid = None"
  using find_None_iff [of "\<lambda>m. m_msgid m = msgid" "items (inboundMsgs (client_at i st))"]
  by (auto simp: in_store_def)

lemma wired_in_store:
  assumes "wired i st st'"
  shows "in_store i st' = in_store i st"
proof -
  have "i < length (items (clients st))"
    using assms by (simp add: wired_def)
  then show ?thesis
    using same_client(1) [OF same_wired [OF assms]] wired_fields(1) [OF assms]
    by (simp add: in_store_def msg_content_def fun_eq_iff split: option.split)
qed

text \<open>The contents are determined by the set of messages and their publications.\<close>

lemma in_store_eqI:
  assumes "session_inv st" "i < length (items (clients st))"
    and "\<And>m. m \<in> set (items (inboundMsgs (client_at i st))) \<Longrightarrow> g (m_msgid m) = msg_content st m"
    and "\<And>msgid. msgid \<notin> m_msgid ` set (items (inboundMsgs (client_at i st))) \<Longrightarrow> g msgid = None"
  shows "in_store i st = g"
proof
  fix msgid
  show "in_store i st msgid = g msgid"
    using in_store_Some(1) [OF assms(1,2)] in_store_None [of msgid i st] assms(3,4)
    by (cases "msgid \<in> m_msgid ` set (items (inboundMsgs (client_at i st)))") auto
qed

section \<open>The handlers, exactly\<close>

lemma contents_after:
  assumes st1: "session_inv st1" "i < length (items (clients st1))"
    and st3: "session_inv st3" "i < length (items (clients st3))"
    and ins: "set (items (inboundMsgs (client_at i st3))) =
      insert m {m' \<in> set (items (inboundMsgs (client_at i st1))). m_msgid m' \<noteq> m_msgid m}"
    and m: "msg_content st3 m = Some c"
    and heap: "\<And>m'. m' \<in> set (items (inboundMsgs (client_at i st1))) \<Longrightarrow> m_msgid m' \<noteq> m_msgid m \<Longrightarrow>
      heap_pubs st3 (m_publish m') = heap_pubs st1 (m_publish m')"
  shows "in_store i st3 = (in_store i st1)(m_msgid m \<mapsto> c)"
proof (rule in_store_eqI [OF st3])
  fix m'
  assume "m' \<in> set (items (inboundMsgs (client_at i st3)))"
  then consider "m' = m" | "m' \<in> set (items (inboundMsgs (client_at i st1)))" "m_msgid m' \<noteq> m_msgid m"
    using ins by auto
  then show "((in_store i st1)(m_msgid m \<mapsto> c)) (m_msgid m') = msg_content st3 m'"
  proof cases
    case 1
    then show ?thesis
      using m by simp
  next
    case 2
    then show ?thesis
      using heap [OF 2] in_store_Some(1) [OF st1 2(1)] by (simp add: msg_content_def)
  qed
next
  fix msgid
  assume "msgid \<notin> m_msgid ` set (items (inboundMsgs (client_at i st3)))"
  then have "msgid \<noteq> m_msgid m" "msgid \<notin> m_msgid ` set (items (inboundMsgs (client_at i st1)))"
    using ins by auto
  then show "((in_store i st1)(m_msgid m \<mapsto> c)) msgid = None"
    using in_store_None by simp
qed

text \<open>Storing the message of a QoS 2 publication, new or in the place of one with the same id.\<close>

definition keep_message :: "('k, 'a) env \<Rightarrow> publish \<Rightarrow> nat \<Rightarrow> nat \<Rightarrow> ('k, 'p, 'u) mqtt \<Rightarrow> ('k, 'p, 'u) mqtt outcome" where
  "keep_message E p i a st =
     (let (found, l) = cl_find (messageIDCompare (pub_msgId p)) (inboundMsgs (client_at i st)) in
      case found of
        Some k \<Rightarrow> obind (MQTTProtocol_removePublication (m_publish (items l ! k)) st) (\<lambda>st.
          Done (upd_client i (\<lambda>c. c\<lparr>inboundMsgs := cl_delete (Suc k) (cl_insert (received E p a) k l)\<rparr>) st))
      | None \<Rightarrow> Done (upd_client i (\<lambda>c. c\<lparr>inboundMsgs := cl_append (received E p a) l\<rparr>) st))"

lemma handlePublishes_qos2:
  "header_qos (pub_header p) = 2 \<Longrightarrow> client_of s st = Done (i, st1) \<Longrightarrow>
   MQTTProtocol_storePublication p st1 = Done (a, st2) \<Longrightarrow>
   MQTTProtocol_handlePublishes E p s st =
     obind (keep_message E p i a st2) (with_net (MQTTPacket_send_pubrec (pub_msgId p)) E i)"
  by (cases "cl_find (messageIDCompare (pub_msgId p)) (inboundMsgs (client_at i st2))")
    (simp add: MQTTProtocol_handlePublishes_def keep_message_def received_def Let_def split: option.split)

lemma keep_message_result:
  assumes inv: "session_inv st1" and i: "i < length (items (clients st1))" and q: "header_qos (pub_header p) = 2"
    and st2: "owned (add_mset a (refs st1)) st2" "heap_only st1 st2" "a \<notin># refs st1"
      "\<forall>b. b \<noteq> a \<longrightarrow> heap_pubs st2 b = heap_pubs st1 b"
    and sp: "msg_content st2 (received E p a) = Some c"
  shows "\<exists>st3. keep_message E p i a st2 = Done st3 \<and> session_inv st3 \<and> still st1 st3
    \<and> in_store i st3 = (in_store i st1)(pub_msgId p \<mapsto> c)"
proof -
  let ?ins = "inboundMsgs (client_at i st1)" and ?m = "received E p a"
  have m: "in_ok ?m" "m_publish ?m = a" "m_msgid ?m = pub_msgId p"
    using q by (simp_all add: received_def in_ok_def)
  have at2: "client_at i st2 = client_at i st1"
    using heap_only_fields(10) [OF st2(2)] .
  have old: "m_publish m' \<noteq> a" if "m' \<in> set (items ?ins)" for m'
  proof -
    have "m_publish m' \<in># list_refs ?ins"
      using that by (simp add: list_refs_def)
    then have "m_publish m' \<in># refs st1"
      by (rule in_le_refs [OF mset_subset_eqD [OF in_member [OF i]]])
    then show ?thesis
      using st2(3) by auto
  qed
  note after = contents_after [OF inv i, of _ ?m c, unfolded m(3)]
  show ?thesis
  proof (cases rule: find_message_cases [of "pub_msgId p" ?ins])
    case none
    let ?st3 = "upd_client i (\<lambda>c. c\<lparr>inboundMsgs := cl_append ?m ?ins\<rparr>) st2"
    have inv3: "session_inv ?st3"
      by (rule add_inbound [OF inv i st2(1-3) m(1,2)]) (use none m(3) in simp_all)
    have len: "i < length (items (clients ?st3))"
      using i heap_only_fields(1) [OF st2(2)] by simp
    have ins3: "items (inboundMsgs (client_at i ?st3)) = items ?ins @ [?m]"
      using len by (simp add: client_at_def upd_client_def)
    have "still st1 ?st3"
      by (rule still_trans [OF still_heap [OF st2(2)] still_upd]) (simp add: core_def)
    moreover have "in_store i ?st3 = (in_store i st1)(pub_msgId p \<mapsto> c)"
      by (rule after [OF inv3 len]) (use none(2) ins3 sp old st2(4) in \<open>force simp: msg_content_def upd_client_def\<close>)+
    ultimately show ?thesis
      using none(1) inv3 at2 by (simp add: keep_message_def)
  next
    case (some k l)
    let ?old = "m_publish (items l ! k)"
    let ?f = "\<lambda>c :: 'b client. c\<lparr>inboundMsgs := cl_delete (Suc k) (cl_insert ?m k l)\<rparr>"
    obtain st3 where st3: "MQTTProtocol_removePublication ?old st2 = Done st3" "heap_only st2 st3" "session_inv (upd_client i ?f st3)"
      using replace_inbound [OF inv i st2(1-3) m(1,2), of k l] some m(3) by auto
    have len: "i < length (items (clients (upd_client i ?f st3)))"
      using i heap_only_fields(1) [OF st2(2)] heap_only_fields(1) [OF st3(2)] by simp
    have k: "k < length (items l)" "items l ! k \<in> set (items ?ins)"
      using some(2,3) by simp_all
    note d = inbound_distinct [OF inv i]
    have ins3: "items (inboundMsgs (client_at i (upd_client i ?f st3))) = (items ?ins)[k := ?m]"
      using len replace_items [OF k(1), of ?m] some(3) by (simp add: client_at_def upd_client_def)
    have else3: "heap_pubs st3 (m_publish m') = heap_pubs st1 (m_publish m')"
      if "m' \<in> set (items ?ins)" "m_msgid m' \<noteq> pub_msgId p" for m'
    proof -
      have "m_publish m' \<noteq> ?old"
        using that some(2-4) d(2) by (metis distinct_map inj_onD nth_mem)
      then show ?thesis
        using remove_elsewhere [OF st3(1), of "m_publish m'"] st2(4) old [OF that(1)] by simp
    qed
    have "still st1 (upd_client i ?f st3)"
      by (rule still_trans [OF still_heap [OF heap_only_trans [OF st2(2) st3(2)]] still_upd]) (simp add: core_def)
    moreover have "in_store i (upd_client i ?f st3) = (in_store i st1)(pub_msgId p \<mapsto> c)"
    proof (rule after [OF st3(3) len])
      show "set (items (inboundMsgs (client_at i (upd_client i ?f st3)))) =
          insert ?m {m' \<in> set (items ?ins). m_msgid m' \<noteq> pub_msgId p}"
        using ins3 set_update_distinct_key [OF d(1) some(2), of ?m] some(4) by simp
      show "msg_content (upd_client i ?f st3) ?m = Some c"
        using sp remove_elsewhere [OF st3(1), of a] old [OF k(2)] m(2) by (simp add: msg_content_def upd_client_def)
    qed (use else3 in \<open>simp add: upd_client_def\<close>)
    ultimately show ?thesis
      using some(1) st3(1,3) at2 by (simp add: keep_message_def)
  qed
qed

text \<open>The socket \<open>s\<close> belongs to the client at \<open>i\<close> alone.\<close>

definition owner :: "int \<Rightarrow> nat \<Rightarrow> ('k, 'p, 'u) mqtt \<Rightarrow> bool" where
  "owner s i st \<longleftrightarrow> i < length (items (clients st))
     \<and> (\<forall>j < length (items (clients st)). net_socket (client_at j st) = s \<longleftrightarrow> j = i)"

lemma client_of_owner:
  assumes "session_inv st" "owner s i st"
  obtains st1 where "client_of s st = Done (i, st1)" "session_inv st1" "i < length (items (clients st1))"
    "still st st1" "client_at i st1 = client_at i st" "in_store i st1 = in_store i st" "socks st1 = socks st"
proof -
  have "\<exists>c \<in> set (items (clients st)). net_socket c = s"
    using assms(2) by (auto simp: owner_def client_at_def)
  then obtain j st1 where st1: "client_of s st = Done (j, st1)" "j < length (items (clients st1))" "session_same st st1"
    "st1 = st\<lparr>clients := (clients st)\<lparr>cursor := Some j\<rparr>\<rparr>" "net_socket (client_at j st1) = s"
    using client_of_same by metis
  have "j = i"
    using assms(2) st1(2,4,5) by (simp add: owner_def client_at_def)
  then show thesis
    using st1 by (intro that [of st1] same_inv [OF assms(1) st1(3)])
      (simp_all add: still_def client_at_def in_store_def msg_content_def fun_eq_iff split: option.split)
qed

lemma publish2_result:
  assumes "session_inv st" "owner s i st" "publish_fits p" "header_qos (pub_header p) = 2"
  shows "\<exists>rc st'. MQTTProtocol_handlePublishes E p s st = Done (rc, st') \<and> session_inv st' \<and> still st st'
    \<and> in_store i st' = (in_store i st)(pub_msgId p \<mapsto> publish_content p)"
proof -
  obtain st1 where st1: "client_of s st = Done (i, st1)" "session_inv st1" "i < length (items (clients st1))"
    "still st st1" "in_store i st1 = in_store i st"
    using client_of_owner [OF assms(1,2)] by metis
  obtain a st2 where st2: "MQTTProtocol_storePublication p st1 = Done (a, st2)" "owned (add_mset a (refs st1)) st2"
    "heap_only st1 st2" "a \<notin># refs st1" "\<forall>b. b \<noteq> a \<longrightarrow> heap_pubs st2 b = heap_pubs st1 b"
    and "heap_pubs st2 a = Some \<lparr>p_topic = pub_topic p, p_topiclen = pub_topiclen p, p_payload = pub_payload p,
         p_payloadlen = pub_payloadlen p, refcount = 1\<rparr>"
    using store_owned [of "refs st1" st1 p] st1(2) assms(3) by (auto simp: session_inv_def)
  then have "msg_content st2 (received E p a) = Some (publish_content p)"
    by (simp add: msg_content_def publish_content_def received_def)
  then obtain st3 where st3: "keep_message E p i a st2 = Done st3" "session_inv st3" "still st1 st3"
    "in_store i st3 = (in_store i st1)(pub_msgId p \<mapsto> publish_content p)"
    using keep_message_result [OF st1(2,3) assms(4) st2(2-5)] by blast
  have len3: "i < length (items (clients st3))"
    using still_length [OF st3(3)] st1(3) by simp
  obtain rc st4 where sent: "with_net (MQTTPacket_send_pubrec (pub_msgId p)) E i st3 = Done (rc, st4)" "wired i st3 st4"
    using sends_wired(2) [OF len3] by blast
  show ?thesis
    using handlePublishes_qos2 [OF assms(4) st1(1) st2(1), of E] st3 sent(1) sent_inv(1) [OF st3(2) sent(2)] st1
      still_trans [OF still_trans [OF st1(4) st3(3)] still_wired [OF sent(2)]] wired_in_store [OF sent(2)]
    by (intro exI [of _ rc] exI [of _ st4]) simp
qed

section \<open>An application that records what it is given\<close>

type_synonym delivery = "u8 list \<times> int \<times> async_message"

definition record_arrived :: "u8 list \<Rightarrow> int \<Rightarrow> async_message \<Rightarrow> delivery list \<Rightarrow> int \<times> delivery list" where
  "record_arrived topic tlen mm log = (1, log @ [(topic, tlen, mm)])"

definition listening :: "nat \<Rightarrow> ('k, 'p, delivery list) mqtt \<Rightarrow> bool" where
  "listening i st \<longleftrightarrow> connected (client_at i st) \<and> items (messageQueue (client_at i st)) = []
     \<and> (\<exists>h \<in> set (items (handles st)). h_client h = i)
     \<and> (\<forall>h \<in> set (items (handles st)). h_client h = i \<longrightarrow> msg_arrived h = Some record_arrived)"

lemma listening_core:
  "core (client_at i st') = core (client_at i st) \<Longrightarrow> items (handles st') = items (handles st) \<Longrightarrow>
   listening i st' \<longleftrightarrow> listening i st"
  by (simp add: listening_def core_def)

lemma process_listening:
  assumes "listening i st" "header_qos (pub_header p) = 2"
  shows "\<exists>hs. Protocol_processPublication E p i st = Done (st\<lparr>handles := hs,
      app := app st @ [(pub_topic p, pub_topiclen p, publication_message p)]\<rparr>) \<and> items hs = items (handles st)"
proof -
  obtain k where k: "cl_index (\<lambda>h. h_client h = i) (handles st) = Some k"
    using assms(1) cl_index_None [of "\<lambda>h. h_client h = i" "handles st"]
    by (cases "cl_index (\<lambda>h. h_client h = i) (handles st)") (auto simp: listening_def)
  let ?hs = "(handles st)\<lparr>cursor := Some k\<rparr>"
  have h: "msg_arrived (items (handles st) ! k) = Some record_arrived"
    using assms(1) cl_index_Some [OF k] by (simp add: listening_def)
  have "try_deliver p (publication_message p) i st =
      (1, st\<lparr>handles := ?hs, app := app st @ [(pub_topic p, pub_topiclen p, publication_message p)]\<rparr>)"
    using assms(1) k h
    by (simp add: try_deliver_def listening_def cl_find_def MQTTAsync_deliverMessage_def record_arrived_def Let_def)
  then show ?thesis
    using assms(2) by (intro exI [of _ ?hs]) (simp add: Protocol_processPublication_def)
qed

text \<open>What the application gets of a stored publication.\<close>

definition delivery_of :: "int \<Rightarrow> content \<Rightarrow> delivery" where
  "delivery_of msgid c = (case c of (topic, tlen, payload, retain) \<Rightarrow>
     (topic, tlen, \<lparr>am_payload = payload, am_payloadlen = int (length payload), am_qos = 2,
        am_retained = (if retain then 1 else 0), am_dup = 0, am_msgid = msgid\<rparr>))"

text \<open>As \<open>still\<close>, but the application may change.\<close>

definition linked :: "('k, 'p, 'u) mqtt \<Rightarrow> ('k, 'p, 'u) mqtt \<Rightarrow> bool" where
  "linked st st' \<longleftrightarrow> still st (st'\<lparr>app := app st\<rparr>)"

lemma still_linked: "still st st' \<Longrightarrow> linked st st'"
  by (simp add: linked_def still_def)

lemma linked_trans: "linked st1 st2 \<Longrightarrow> linked st2 st3 \<Longrightarrow> linked st1 st3"
  by (simp add: linked_def still_def)

lemma linked_core: "linked st st' \<Longrightarrow> j < length (items (clients st)) \<Longrightarrow> core (client_at j st') = core (client_at j st)"
  using still_core [of st "st'\<lparr>app := app st\<rparr>" j] by (simp add: linked_def client_at_def)

lemma found_in_store:
  assumes "session_inv st" "i < length (items (clients st))" "items l = items (inboundMsgs (client_at i st))"
  shows "in_store i (upd_client i (\<lambda>c. c\<lparr>inboundMsgs := l\<rparr>) st) = in_store i st"
  using assms(3) found_inbound(2) [OF assms(1,3,2)]
  by (simp add: in_store_def msg_content_def upd_client_def fun_eq_iff split: option.split)

lemma pubrel_unknown:
  assumes "session_inv st" "owner s i st" "in_store i st (ack_msgId pack) = None"
  shows "\<exists>rc st'. MQTTProtocol_handlePubrels E pack s st = Done (rc, st') \<and> session_inv st' \<and> still st st'
    \<and> in_store i st' = in_store i st \<and> (\<not> header_dup (ack_header pack) \<longrightarrow> socks st' = socks st)"
proof -
  obtain st1 where st1: "client_of s st = Done (i, st1)" "session_inv st1" "i < length (items (clients st1))"
    "still st st1" "in_store i st1 = in_store i st" "socks st1 = socks st"
    using client_of_owner [OF assms(1,2)] by metis
  let ?ins = "inboundMsgs (client_at i st1)"
  have find: "cl_find (messageIDCompare (ack_msgId pack)) ?ins = (None, ?ins)"
  proof (cases rule: find_message_cases [of "ack_msgId pack" ?ins])
    case (some k l)
    then have "items ?ins ! k \<in> set (items ?ins)"
      by simp
    from in_store_Some [OF st1(2,3) this] show ?thesis
      using assms(3) st1(5) some(4) by (simp add: msg_content_def)
  qed
  let ?st = "upd_client i (\<lambda>c. c\<lparr>inboundMsgs := ?ins\<rparr>) st1"
  have st: "session_inv ?st" "i < length (items (clients ?st))" "still st1 ?st" "in_store i ?st = in_store i st1" "socks ?st = socks st1"
    using found_inbound(1) [OF st1(2) refl st1(3)] st1(3) found_in_store [OF st1(2,3) refl] still_upd [of "\<lambda>c. c\<lparr>inboundMsgs := ?ins\<rparr>" i st1]
    by (simp_all add: core_def upd_client_def)
  obtain rc st2 where sent: "with_net (MQTTPacket_send_pubcomp (ack_msgId pack)) E i ?st = Done (rc, st2)" "wired i ?st st2"
    using sends_wired(4) [OF st(2)] by blast
  show ?thesis
    using st1 find st sent(1) sent_inv(1) [OF st(1) sent(2)] still_trans [OF st1(4) st(3)] wired_in_store [OF sent(2)]
      still_trans [OF still_trans [OF st1(4) st(3)] still_wired [OF sent(2)]]
    by (cases "header_dup (ack_header pack)") (simp_all add: MQTTProtocol_handlePubrels_def Let_def)
qed

text \<open>Deleting the message at position \<open>k\<close> of the inbound list, with its publication.\<close>

lemma drop_in_store:
  assumes inv: "session_inv st" and i: "i < length (items (clients st))"
    and k: "k < length (items l)" "items l = items (inboundMsgs (client_at i st))"
  defines "st' \<equiv> upd_client i (\<lambda>c. c\<lparr>inboundMsgs := cl_delete k l\<rparr>) (remove_stored (m_publish (items l ! k)) st)"
  shows "in_store i st' = (in_store i st)(m_msgid (items l ! k) := None)" "still st st'" "session_inv st'"
proof -
  let ?a = "m_publish (items l ! k)"
  note drop = drop_inbound [OF inv i k]
  show inv': "session_inv st'"
    using drop(1) by (simp add: st'_def)
  show "still st st'"
    unfolding st'_def by (rule still_trans [OF still_heap [OF drop(2)] still_upd]) (simp add: core_def)
  have len: "i < length (items (clients st'))"
    using i heap_only_fields(1) [OF drop(2)] by (simp add: st'_def)
  have ins: "items (inboundMsgs (client_at i st')) = take k (items l) @ drop (Suc k) (items l)"
    using len by (simp add: st'_def client_at_def upd_client_def items_delete)
  note d = inbound_distinct [OF inv i, folded k(2)]
  have dl: "distinct (items l)"
    using d(1) by (simp add: distinct_map)
  have mem: "m \<in> set (items (inboundMsgs (client_at i st'))) \<longleftrightarrow> m \<in> set (items l) \<and> m_msgid m \<noteq> m_msgid (items l ! k)" for m
    using delete_set(2) [OF dl k(1)] ins d(1) k(1) by (auto simp: distinct_map inj_on_def)
  show "in_store i st' = (in_store i st)(m_msgid (items l ! k) := None)"
  proof (rule in_store_eqI [OF inv' len])
    fix m
    assume "m \<in> set (items (inboundMsgs (client_at i st')))"
    then have m: "m \<in> set (items l)" "m_msgid m \<noteq> m_msgid (items l ! k)"
      using mem by simp_all
    then have "m_publish m \<noteq> ?a"
      using d(2) k(1) by (metis distinct_map inj_onD nth_mem)
    then have "heap_pubs st' (m_publish m) = heap_pubs st (m_publish m)"
      by (simp add: st'_def upd_client_def remove_stored_def split: prod.split)
    then show "((in_store i st)(m_msgid (items l ! k) := None)) (m_msgid m) = msg_content st' m"
      using m in_store_Some(1) [OF inv i, folded k(2), OF m(1)] by (simp add: msg_content_def)
  next
    fix msgid
    assume "msgid \<notin> m_msgid ` set (items (inboundMsgs (client_at i st')))"
    then have "msgid = m_msgid (items l ! k) \<or> msgid \<notin> m_msgid ` set (items (inboundMsgs (client_at i st)))"
      using mem k(2) by auto
    then show "((in_store i st)(m_msgid (items l ! k) := None)) msgid = None"
      using in_store_None by auto
  qed
qed

lemma release_delivers:
  assumes "session_inv st" "i < length (items (clients st))" "listening i st" "m \<in> set (items (inboundMsgs (client_at i st)))"
    and "in_store i st (m_msgid m) = Some c"
  shows "\<exists>sp st'. heap_pubs st (m_publish m) = Some sp
    \<and> Protocol_processPublication E \<lparr>pub_header = header_byte 0 False (nat (m_qos m)) (m_retain m), pub_topic = p_topic sp,
        pub_topiclen = p_topiclen sp, pub_msgId = m_msgid m, pub_payload = p_payload sp, pub_payloadlen = p_payloadlen sp\<rparr> i st = Done st'
    \<and> session_inv st' \<and> linked st st' \<and> app st' = app st @ [delivery_of (m_msgid m) c] \<and> clients st' = clients st
    \<and> in_store i st' = in_store i st"
proof -
  have "msg_content st m = Some c"
    using in_store_Some(1) [OF assms(1,2,4)] assms(5) by simp
  then obtain sp where sp: "heap_pubs st (m_publish m) = Some sp" "c = (p_topic sp, p_topiclen sp, p_payload sp, m_retain m)"
    by (auto simp: msg_content_def)
  have fits: "p_payloadlen sp = int (length (p_payload sp))"
    using assms(1) sp(1) by (auto simp: session_inv_def owned_def pub_fits_def)
  let ?p = "\<lparr>pub_header = header_byte 0 False (nat (m_qos m)) (m_retain m), pub_topic = p_topic sp,
      pub_topiclen = p_topiclen sp, pub_msgId = m_msgid m, pub_payload = p_payload sp, pub_payloadlen = p_payloadlen sp\<rparr>"
  have q: "m_qos m = 2"
    using inv_client [OF assms(1,2)] assms(4) by (simp add: client_ok_def in_ok_def)
  then have h: "header_qos (pub_header ?p) = 2"
    by simp
  obtain hs where hs: "Protocol_processPublication E ?p i st = Done (st\<lparr>handles := hs,
      app := app st @ [(pub_topic ?p, pub_topiclen ?p, publication_message ?p)]\<rparr>)" "items hs = items (handles st)"
    using process_listening [OF assms(3) h, of E] by blast
  let ?st = "st\<lparr>handles := hs, app := app st @ [(pub_topic ?p, pub_topiclen ?p, publication_message ?p)]\<rparr>"
  have "publication_message ?p = snd (snd (delivery_of (m_msgid m) c))"
    using q fits sp(2) by (simp add: publication_message_def delivery_of_def)
  then have "(pub_topic ?p, pub_topiclen ?p, publication_message ?p) = delivery_of (m_msgid m) c"
    using sp(2) by (simp add: delivery_of_def)
  moreover have "session_inv ?st"
    by (rule same_inv [OF assms(1)]) (simp add: session_same_def)
  moreover have "linked st ?st"
    using hs(2) by (simp add: linked_def still_def)
  moreover have "in_store i ?st = in_store i st"
    by (simp add: in_store_def msg_content_def client_at_def fun_eq_iff split: option.split)
  ultimately show ?thesis
    using sp(1) hs(1) by (intro exI [of _ sp] exI [of _ ?st]) simp
qed

lemma pubrel_known:
  assumes "session_inv st" "owner s i st" "listening i st" "in_store i st (ack_msgId pack) = Some c"
  shows "\<exists>rc st'. MQTTProtocol_handlePubrels E pack s st = Done (rc, st') \<and> session_inv st' \<and> linked st st'
    \<and> in_store i st' = (in_store i st)(ack_msgId pack := None) \<and> app st' = app st @ [delivery_of (ack_msgId pack) c]"
proof -
  obtain st1 where st1: "client_of s st = Done (i, st1)" "session_inv st1" "i < length (items (clients st1))"
    "still st st1" "in_store i st1 = in_store i st" "client_at i st1 = client_at i st"
    using client_of_owner [OF assms(1,2)] by metis
  show ?thesis
  proof (cases rule: find_message_cases [of "ack_msgId pack" "inboundMsgs (client_at i st1)"])
    case none
    then show ?thesis
      using in_store_None [OF none(2)] assms(4) st1(5) by simp
  next
    case (some k l)
    let ?st = "upd_client i (\<lambda>c. c\<lparr>inboundMsgs := l\<rparr>) st1" and ?m = "items l ! k"
    note st = found_inbound [OF st1(2) some(3) st1(3)]
    have len: "i < length (items (clients ?st))" and still2: "still st1 ?st"
      using st1(3) still_upd [of "\<lambda>c. c\<lparr>inboundMsgs := l\<rparr>" i st1] by (simp_all add: core_def)
    obtain rc st2 where sent: "with_net (MQTTPacket_send_pubcomp (ack_msgId pack)) E i ?st = Done (rc, st2)" "wired i ?st st2"
      using sends_wired(4) [OF len] by blast
    note st2 = sent_inv [OF st(1) sent(2)]
    have still3: "still st st2"
      using still_trans [OF still_trans [OF st1(4) still2] still_wired [OF sent(2)]] .
    have ins2: "items (inboundMsgs (client_at i st2)) = items l" and store2: "in_store i st2 = in_store i st"
      using same_client(1) [OF same_wired [OF sent(2)] len] st(2) wired_in_store [OF sent(2)]
        found_in_store [OF st1(2,3) some(3)] st1(5) by simp_all
    have m: "?m \<in> set (items (inboundMsgs (client_at i st2)))" "m_msgid ?m = ack_msgId pack"
      using some(2-4) ins2 by simp_all
    have mk: "in_ok ?m"
      using inv_client [OF st2] m(1) by (simp add: client_ok_def)
    have "listening i st2"
      using assms(3) listening_core [of i st2 st] still_core [OF still3, of i] still3 assms(2)
      by (simp add: owner_def still_def)
    moreover have "in_store i st2 (m_msgid ?m) = Some c"
      using store2 m(2) assms(4) by simp
    ultimately obtain sp st3 where st3: "heap_pubs st2 (m_publish ?m) = Some sp"
      "Protocol_processPublication E \<lparr>pub_header = header_byte 0 False (nat (m_qos ?m)) (m_retain ?m), pub_topic = p_topic sp,
        pub_topiclen = p_topiclen sp, pub_msgId = m_msgid ?m, pub_payload = p_payload sp, pub_payloadlen = p_payloadlen sp\<rparr> i st2 = Done st3"
      "session_inv st3" "linked st2 st3" "app st3 = app st2 @ [delivery_of (m_msgid ?m) c]" "clients st3 = clients st2"
      "in_store i st3 = in_store i st2"
      using release_delivers [OF st2 _ m(1), of c E] by blast
    have at3: "client_at i st3 = client_at i st2" and len3: "i < length (items (clients st3))"
      using st3(6) st2(2) by (simp_all add: client_at_def)
    have none: "persistence_of (client_at i st3) = None"
      using inv_client [OF st3(3) len3] by (simp add: client_ok_def)
    let ?l = "inboundMsgs (client_at i st3)"
    have k: "k < length (items ?l)" "items ?l ! k = ?m"
      using some(2,3) ins2 at3 by simp_all
    let ?st4 = "upd_client i (\<lambda>c. c\<lparr>inboundMsgs := cl_delete k ?l\<rparr>) (remove_stored (m_publish ?m) st3)"
    note drop = drop_in_store [OF st3(3) len3 k(1) refl, unfolded k(2)]
    have "upd_client i (\<lambda>c. c\<lparr>inboundMsgs := cl_delete k (inboundMsgs c)\<rparr>) (remove_stored (m_publish ?m) st3) = ?st4"
      using heap_only_fields(1) [OF drop_inbound(2) [OF st3(3) len3 k(1) refl]] k(2)
      by (simp add: upd_client_def cl_update_def client_at_def)
    then have "MQTTProtocol_handlePubrels E pack s st = Done (rc, ?st4\<lparr>msgs_received := msgs_received ?st4 + 1\<rparr>)"
      using st1(1) some sent(1) st3(1,2) none mk m(2)
      by (simp add: MQTTProtocol_handlePubrels_def Let_def remove_none in_ok_def)
    moreover have "linked st (?st4\<lparr>msgs_received := msgs_received ?st4 + 1\<rparr>)"
      using linked_trans [OF linked_trans [OF still_linked [OF still3] st3(4)] still_linked [OF drop(2)]]
      by (simp add: linked_def still_def)
    moreover have "in_store i (?st4\<lparr>msgs_received := msgs_received ?st4 + 1\<rparr>) = in_store i ?st4"
      by (simp add: in_store_def msg_content_def client_at_def fun_eq_iff split: option.split)
    moreover have "app ?st4 = app st3" "app st2 = app st"
      using drop(2) still3 by (simp_all add: still_def)
    ultimately show ?thesis
      using drop(1,3) st3(5,7) store2 m(2)
      by (intro exI [of _ rc] exI [of _ "?st4\<lparr>msgs_received := msgs_received ?st4 + 1\<rparr>"]) simp
  qed
qed

section \<open>The abstract receiver\<close>

text \<open>
  Per message id the publication that came last; a release delivers it and forgets it.  The packets
  are the publications of quality of service 2 and their releases.
\<close>

datatype qos2_packet = Pub2 publish | Rel2 ack

fun receiver_step :: "qos2_packet \<Rightarrow> (int \<Rightarrow> content option) \<times> delivery list \<Rightarrow> (int \<Rightarrow> content option) \<times> delivery list" where
  "receiver_step (Pub2 p) (box, log) = (box(pub_msgId p \<mapsto> publish_content p), log)"
| "receiver_step (Rel2 a) (box, log) =
     (case box (ack_msgId a) of None \<Rightarrow> (box, log)
      | Some c \<Rightarrow> (box(ack_msgId a := None), log @ [delivery_of (ack_msgId a) c]))"

fun packet_ok :: "qos2_packet \<Rightarrow> bool" where
  "packet_ok (Pub2 p) \<longleftrightarrow> publish_fits p \<and> header_qos (pub_header p) = 2"
| "packet_ok (Rel2 a) \<longleftrightarrow> True"

text \<open>The handlers, one packet after the other.\<close>

fun receive_all :: "('k, 'a) env \<Rightarrow> int \<Rightarrow> qos2_packet list \<Rightarrow> ('k, 'p, 'u) mqtt \<Rightarrow> ('k, 'p, 'u) mqtt outcome" where
  "receive_all E s [] st = Done st"
| "receive_all E s (Pub2 p # ps) st = obind (MQTTProtocol_handlePublishes E p s st) (\<lambda>(_, st). receive_all E s ps st)"
| "receive_all E s (Rel2 a # ps) st = obind (MQTTProtocol_handlePubrels E a s st) (\<lambda>(_, st). receive_all E s ps st)"

lemma linked_owner: "linked st st' \<Longrightarrow> owner s i st \<Longrightarrow> owner s i st'"
proof -
  assume l: "linked st st'" and o: "owner s i st"
  have len: "length (items (clients st')) = length (items (clients st))"
    using still_length [of st "st'\<lparr>app := app st\<rparr>"] l by (simp add: linked_def)
  moreover have "net_socket (client_at j st') = net_socket (client_at j st)" if "j < length (items (clients st))" for j
    using linked_core [OF l that] by (simp add: core_def)
  ultimately show ?thesis
    using o by (simp add: owner_def)
qed

lemma linked_listening: "linked st st' \<Longrightarrow> owner s i st \<Longrightarrow> listening i st \<Longrightarrow> listening i st'"
  using listening_core [of i st' st] linked_core [of st st' i] by (simp add: owner_def linked_def still_def)

lemma receive_step:
  assumes "session_inv st" "owner s i st" "listening i st" "packet_ok pk"
  shows "\<exists>st'. receive_all E s [pk] st = Done st' \<and> session_inv st' \<and> linked st st'
    \<and> (in_store i st', app st') = receiver_step pk (in_store i st, app st)"
proof (cases pk)
  case (Pub2 p)
  then obtain rc st' where "MQTTProtocol_handlePublishes E p s st = Done (rc, st')" "session_inv st'" "still st st'"
    "in_store i st' = (in_store i st)(pub_msgId p \<mapsto> publish_content p)"
    using publish2_result [OF assms(1,2), of p E] assms(4) by auto
  then show ?thesis
    using Pub2 still_linked by (auto simp: still_def)
next
  case (Rel2 a)
  show ?thesis
  proof (cases "in_store i st (ack_msgId a)")
    case None
    then obtain rc st' where "MQTTProtocol_handlePubrels E a s st = Done (rc, st')" "session_inv st'" "still st st'"
      "in_store i st' = in_store i st"
      using pubrel_unknown [OF assms(1,2), of a E] by blast
    then show ?thesis
      using Rel2 None still_linked by (auto simp: still_def)
  next
    case (Some c)
    then show ?thesis
      using Rel2 pubrel_known [OF assms(1-3) Some, of E] by auto
  qed
qed

lemma receive_all_Cons:
  "receive_all E s [pk] st = Done st' \<Longrightarrow> receive_all E s (pk # ps) st = receive_all E s ps st'"
  by (cases pk) (auto simp: obind_eq_Done)

lemma receive_refines:
  "session_inv st \<Longrightarrow> owner s i st \<Longrightarrow> listening i st \<Longrightarrow> list_all packet_ok ps \<Longrightarrow>
   \<exists>st'. receive_all E s ps st = Done st' \<and> session_inv st' \<and> (in_store i st', app st') = fold receiver_step ps (in_store i st, app st)"
proof (induction ps arbitrary: st)
  case (Cons pk ps)
  obtain st1 where st1: "receive_all E s [pk] st = Done st1" "session_inv st1" "linked st st1"
    "(in_store i st1, app st1) = receiver_step pk (in_store i st, app st)"
    using receive_step [OF Cons.prems(1-3), of pk E] Cons.prems(4) by auto
  obtain st2 where "receive_all E s ps st1 = Done st2" "session_inv st2"
    "(in_store i st2, app st2) = fold receiver_step ps (in_store i st1, app st1)"
    using Cons.IH [OF st1(2) linked_owner [OF st1(3) Cons.prems(2)] linked_listening [OF st1(3) Cons.prems(2,3)]] Cons.prems(4)
    by auto
  then show ?case
    using receive_all_Cons [OF st1(1)] st1(4) by simp
qed simp


section \<open>Exactly once\<close>

fun packet_id :: "qos2_packet \<Rightarrow> int" where
  "packet_id (Pub2 p) = pub_msgId p"
| "packet_id (Rel2 a) = ack_msgId a"

definition delivery_id :: "delivery \<Rightarrow> int" where
  "delivery_id d = am_msgid (snd (snd d))"

lemma delivery_id_of [simp]: "delivery_id (delivery_of msgid c) = msgid"
  by (cases c) (simp add: delivery_id_def delivery_of_def)

text \<open>The packets of other ids do not matter for the deliveries of one.\<close>

lemma receiver_local:
  "fold receiver_step ps (box, log) = (box', log') \<Longrightarrow>
   fold receiver_step (filter (\<lambda>pk. packet_id pk = msgid) ps) (box1, log1) = (box1', log1') \<Longrightarrow>
   box msgid = box1 msgid \<Longrightarrow> filter (\<lambda>d. delivery_id d = msgid) log = filter (\<lambda>d. delivery_id d = msgid) log1 \<Longrightarrow>
   box' msgid = box1' msgid
   \<and> filter (\<lambda>d. delivery_id d = msgid) log' = filter (\<lambda>d. delivery_id d = msgid) log1'"
proof (induction ps arbitrary: box log box1 log1)
  case (Cons pk ps)
  obtain k2 l2 where s2: "receiver_step pk (box, log) = (k2, l2)"
    by (cases "receiver_step pk (box, log)")
  obtain k3 l3 where s3: "receiver_step pk (box1, log1) = (k3, l3)"
    by (cases "receiver_step pk (box1, log1)")
  show ?case
  proof (cases "packet_id pk = msgid")
    case True
    then have "k2 msgid = k3 msgid" "filter (\<lambda>d. delivery_id d = msgid) l2 = filter (\<lambda>d. delivery_id d = msgid) l3"
      using s2 s3 Cons.prems(3,4) by (cases pk; auto split: option.splits)+
    then show ?thesis
      using Cons.IH [of k2 l2 k3 l3] Cons.prems(1,2) s2 s3 True by simp
  next
    case False
    then have "k2 msgid = box1 msgid" "filter (\<lambda>d. delivery_id d = msgid) l2 = filter (\<lambda>d. delivery_id d = msgid) log1"
      using s2 Cons.prems(3,4) by (cases pk; auto split: option.splits)+
    then show ?thesis
      using Cons.IH [of k2 l2 box1 log1] Cons.prems(1,2) s2 False by simp
  qed
qed simp

lemma fold_publications:
  "fold receiver_step (replicate (Suc n) (Pub2 p)) (box, log) = (box(pub_msgId p \<mapsto> publish_content p), log)"
proof -
  have "fold receiver_step (replicate n (Pub2 p)) (k, l) = (k, l)" if "k (pub_msgId p) = Some (publish_content p)" for k l
    using that by (induction n) (simp_all add: fun_upd_idem)
  then show ?thesis
    by simp
qed

lemma fold_releases:
  "box (ack_msgId a) = Some c \<Longrightarrow> fold receiver_step (replicate (Suc n) (Rel2 a)) (box, log) =
     (box(ack_msgId a := None), log @ [delivery_of (ack_msgId a) c])"
proof -
  have "fold receiver_step (replicate n (Rel2 a)) (k, l) = (k, l)" if "k (ack_msgId a) = None" for k l
    using that by (induction n) simp_all
  then show "box (ack_msgId a) = Some c \<Longrightarrow> ?thesis"
    by simp
qed


text \<open>
  A release of an id that is not stored gets no answer unless its DUP bit is set: nothing is written
  to the socket and the application is given nothing.  The server whose \<open>PUBCOMP\<close> was lost repeats the
  release; with DUP clear, as this library itself repeats it, that exchange never ends.
\<close>

theorem pubrel_unknown_unanswered:
  assumes "session_inv st" "owner s i st" "in_store i st (ack_msgId pack) = None" "\<not> header_dup (ack_header pack)"
  shows "\<exists>rc st'. MQTTProtocol_handlePubrels E pack s st = Done (rc, st') \<and> socks st' = socks st \<and> app st' = app st
    \<and> in_store i st' = in_store i st"
  using pubrel_unknown [OF assms(1-3), of E] assms(4) by (auto simp: still_def)

section \<open>A run of the receiver\<close>

text \<open>One client on socket 5 whose application records what arrives.\<close>

definition recording :: "(nat list \<times> u8 list, unit, delivery list) mqtt" where
  "recording = one_session 5 [\<lparr>h_client = 0, msg_arrived = Some record_arrived, conn_lost = None, delivery_complete = None,
     h_serverURI = [], h_connect = zero_command, h_disconnect = zero_command, pending_write = None, responses = cl_new,
     command_seqno = 0\<rparr>] ([], []) []"

definition some_publish :: publish where
  "some_publish = \<lparr>pub_header = header_byte 3 False 2 False, pub_topic = [97], pub_topiclen = 1, pub_msgId = 7, pub_payload = [1, 2], pub_payloadlen = 2\<rparr>"

definition some_release :: ack where
  "some_release = \<lparr>ack_header = header_byte 6 False 1 False, ack_msgId = 7\<rparr>"

lemma recording_ok: "session_inv recording" "owner 5 0 recording" "listening 0 recording"
    "list_all packet_ok [Pub2 some_publish, Pub2 some_publish, Rel2 some_release, Rel2 some_release]"
  using one_session_inv by (simp_all add: recording_def owner_def listening_def client_at_def one_session_def idle_client_def
      some_publish_def publish_fits_def)

lemma some_packets [simp]: "pub_msgId some_publish = 7" "ack_msgId some_release = 7"
    "publish_content some_publish = ([97], 1, [1, 2], False)" "app recording = []"
  by (simp_all add: some_publish_def some_release_def publish_content_def recording_def one_session_def)



theorem pubrel_unknown_unanswered_witness:
  "\<exists>rc st'. MQTTProtocol_handlePubrels taking_env some_release 5 recording = Done (rc, st') \<and> socks st' = nothing_pending ([], [])"
  using pubrel_unknown_unanswered [OF recording_ok(1,2), of some_release taking_env]
  by (auto simp: some_release_def in_store_def recording_def one_session_def client_at_def idle_client_def)

end
