(* ===== verification/Mqtt_Ids.thy ===== *)
theory Mqtt_Ids
  imports Mqtt_Qos
begin

text \<open>
  The message ids that \<^verbatim>\<open>MQTTProtocol_assignMsgId\<close> of \<^verbatim>\<open>mqtt/source/MQTTProtocolClient.c\<close> gives out.
  The ids 1 to 65535 form a cycle; \<open>gap t x\<close> is the number of steps from \<open>x\<close> forward to \<open>t\<close>.
\<close>

section \<open>The cycle of ids\<close>

definition id_ok :: "int \<Rightarrow> bool" where
  "id_ok x \<longleftrightarrow> 1 \<le> x \<and> x \<le> MAX_MSG_ID"

definition gap :: "int \<Rightarrow> int \<Rightarrow> nat" where
  "gap t x = nat (if x \<le> t then t - x else MAX_MSG_ID + t - x)"

definition id_used :: "messages clist \<Rightarrow> int \<Rightarrow> bool" where
  "id_used l x \<longleftrightarrow> x \<in> m_msgid ` set (items l)"

lemma id_used_items: "items l' = items l \<Longrightarrow> id_used l' = id_used l"
  by (simp add: id_used_def fun_eq_iff)

lemma next_id_ok: "0 \<le> x \<Longrightarrow> x \<le> MAX_MSG_ID \<Longrightarrow> id_ok (next_id x)"
  by (auto simp: id_ok_def next_id_def MAX_MSG_ID_def)

lemma next_id_neq: "next_id x \<noteq> x"
  by (simp add: next_id_def MAX_MSG_ID_def)

lemma gap_next: "id_ok t \<Longrightarrow> id_ok x \<Longrightarrow> x \<noteq> t \<Longrightarrow> Suc (gap t (next_id x)) = gap t x"
  by (auto simp: id_ok_def gap_def next_id_def MAX_MSG_ID_def)

lemma gap_full: "id_ok t \<Longrightarrow> id_ok x \<Longrightarrow> gap t x \<le> gap t (next_id t)"
  by (auto simp: id_ok_def gap_def next_id_def MAX_MSG_ID_def)

lemma gap_inj: "id_ok t \<Longrightarrow> id_ok x \<Longrightarrow> id_ok y \<Longrightarrow> gap t x = gap t y \<Longrightarrow> x = y"
  by (auto simp: id_ok_def gap_def MAX_MSG_ID_def split: if_splits)

section \<open>The search\<close>

text \<open>
  A search for a free id, as the library makes it in two places: \<open>search start x s\<close> tries \<open>x\<close> and the
  ids after it until it is back at \<open>start\<close>.  Looking for \<open>x\<close> moves the search positions of the lists, the
  step \<open>found\<close>; what they hold, \<open>held\<close>, stays.
\<close>

locale id_search =
  fixes search :: "int \<Rightarrow> int \<Rightarrow> 's \<Rightarrow> (int \<times> 's) outcome option"
    and held :: "'s \<Rightarrow> 'v" and used :: "'v \<Rightarrow> int \<Rightarrow> bool" and found :: "int \<Rightarrow> 's \<Rightarrow> 's"
  assumes step: "search start x s =
      (if used (held s) x
       then if next_id x = start then Some (Done (0, found x s)) else search start (next_id x) (found x s)
       else Some (Done (x, found x s)))"
    and held_found: "held (found x s) = held s"
begin

text \<open>From an id that was given out before, the search tries every other one.\<close>

lemma search_tries:
  "id_ok start \<Longrightarrow> id_ok x \<Longrightarrow> x \<noteq> start \<Longrightarrow>
   \<exists>r s'. search start x s = Some (Done (r, s')) \<and> held s' = held s
     \<and> (r = 0 \<and> (\<forall>y. id_ok y \<and> y \<noteq> start \<and> gap start y \<le> gap start x \<longrightarrow> used (held s) y)
        \<or> id_ok r \<and> r \<noteq> start \<and> \<not> used (held s) r)"
proof (induction "gap start x" arbitrary: x s)
  case 0
  then show ?case
    by (simp add: gap_def id_ok_def split: if_splits)
next
  case (Suc n)
  have gap: "gap start x = Suc (gap start (next_id x))"
    using gap_next [OF Suc.prems] by simp
  have below: "y = x \<or> gap start y \<le> gap start (next_id x)" if "id_ok y" "gap start y \<le> gap start x" for y
    using that gap_inj [OF Suc.prems(1) that(1) Suc.prems(2)] gap by linarith
  consider "\<not> used (held s) x" | "used (held s) x" "next_id x = start" | "used (held s) x" "next_id x \<noteq> start"
    by blast
  then show ?case
  proof cases
    case 1
    then show ?thesis
      using Suc.prems by (subst step) (simp add: held_found)
  next
    case 2
    have "used (held s) y" if "id_ok y" "y \<noteq> start" "gap start y \<le> gap start x" for y
    proof -
      have "gap start start = 0"
        by (simp add: gap_def)
      then show ?thesis
        using below [OF that(1,3)] 2 gap_inj [OF Suc.prems(1) that(1) Suc.prems(1)] that(2) by auto
    qed
    then show ?thesis
      using 2 by (subst step) (simp add: held_found)
  next
    case 3
    have ok: "id_ok (next_id x)"
      using Suc.prems(2) by (intro next_id_ok) (simp_all add: id_ok_def)
    have n: "n = gap start (next_id x)"
      using Suc.hyps(2) gap by simp
    obtain r s' where rs: "search start (next_id x) (found x s) = Some (Done (r, s'))" "held s' = held s"
      "r = 0 \<and> (\<forall>y. id_ok y \<and> y \<noteq> start \<and> gap start y \<le> gap start (next_id x) \<longrightarrow> used (held s) y)
        \<or> id_ok r \<and> r \<noteq> start \<and> \<not> used (held s) r"
      using Suc.hyps(1) [OF n Suc.prems(1) ok 3(2), of "found x s"] held_found [of x s] by auto
    then show ?thesis
      using 3 below by (subst step) auto
  qed
qed

text \<open>From 0, the value of a new client, it goes round until it finds a free id.\<close>

lemma search_finds:
  "id_ok t \<Longrightarrow> \<not> used (held s) t \<Longrightarrow> id_ok x \<Longrightarrow>
   \<exists>r s'. search 0 x s = Some (Done (r, s')) \<and> held s' = held s \<and> id_ok r \<and> \<not> used (held s) r"
proof (induction "gap t x" arbitrary: x s)
  case 0
  then have "x = t"
    by (simp add: gap_def id_ok_def split: if_splits)
  then show ?case
    using 0 by (subst step) (simp add: held_found)
next
  case (Suc n)
  have ok: "id_ok (next_id x)" "next_id x \<noteq> 0"
    using next_id_ok [of x] Suc.prems(3) by (auto simp: id_ok_def)
  show ?case
  proof (cases "used (held s) x")
    case True
    then have "x \<noteq> t"
      using Suc.prems(2) by blast
    then have "n = gap t (next_id x)"
      using gap_next [OF Suc.prems(1,3)] Suc.hyps(2) by simp
    then obtain r s' where "search 0 (next_id x) (found x s) = Some (Done (r, s'))" "held s' = held s" "id_ok r"
      "\<not> used (held s) r"
      using Suc.hyps(1) [OF _ Suc.prems(1) _ ok(1), of "found x s"] Suc.prems(2) held_found [of x s] by auto
    then show ?thesis
      using True ok(2) by (subst step) auto
  next
    case False
    then show ?thesis
      using Suc.prems(3) by (subst step) (simp add: held_found)
  qed
qed

lemma search_unused:
  assumes "0 \<le> m" "m \<le> MAX_MSG_ID" "m \<noteq> 0 \<or> (\<exists>x. id_ok x \<and> \<not> used (held s) x)"
  obtains r s' where "search m (next_id m) s = Some (Done (r, s'))" "held s' = held s"
    "if \<exists>x. id_ok x \<and> x \<noteq> m \<and> \<not> used (held s) x then id_ok r \<and> r \<noteq> m \<and> \<not> used (held s) r else r = 0"
proof -
  have x: "id_ok (next_id m)" "next_id m \<noteq> m"
    using next_id_ok [OF assms(1,2)] next_id_neq by simp_all
  show ?thesis
  proof (cases "m = 0")
    case True
    then obtain r s' where "search 0 (next_id m) s = Some (Done (r, s'))" "held s' = held s" "id_ok r" "\<not> used (held s) r"
      using assms(3) search_finds [of _ s "next_id m"] x(1) by blast
    then show ?thesis
      using True by (intro that [of r s']) (auto simp: id_ok_def)
  next
    case False
    then have s: "id_ok m"
      using assms(1,2) by (simp add: id_ok_def)
    obtain r s' where "search m (next_id m) s = Some (Done (r, s'))" "held s' = held s"
      "r = 0 \<and> (\<forall>y. id_ok y \<and> y \<noteq> m \<and> gap m y \<le> gap m (next_id m) \<longrightarrow> used (held s) y)
        \<or> id_ok r \<and> r \<noteq> m \<and> \<not> used (held s) r"
      using search_tries [OF s x, of s] by blast
    then show ?thesis
      using gap_full [OF s] by (intro that [of r s']) auto
  qed
qed

end

section \<open>The ids of messages\<close>

lemma find_id:
  obtains l' where "cl_find (messageIDCompare x) l = (None, l')" "items l' = items l" "\<not> id_used l x"
  | k l' where "cl_find (messageIDCompare x) l = (Some k, l')" "items l' = items l" "id_used l x"
  using find_message_cases [of x l] by (metis id_used_def image_eqI nth_mem)

interpretation message_ids: id_search assign_loop items "\<lambda>ms x. x \<in> m_msgid ` set ms"
    "\<lambda>x l. snd (cl_find (messageIDCompare x) l)"
proof
  fix start x :: int and l :: "messages clist"
  let ?l = "snd (cl_find (messageIDCompare x) l)"
  show "assign_loop start x l = (if x \<in> m_msgid ` set (items l)
      then if next_id x = start then Some (Done (0, ?l)) else assign_loop start (next_id x) ?l else Some (Done (x, ?l)))"
    by (cases rule: find_id [of x l]; subst assign_loop.simps; simp add: id_used_def)
qed simp

lemma assign_loop_free:
  assumes "assign_loop start x l = Some r" "start = 0" "id_ok x"
  shows "\<exists>y. id_ok y \<and> \<not> id_used l y"
proof -
  let ?P = "\<lambda>start x l r. start = 0 \<longrightarrow> id_ok x \<longrightarrow> (\<exists>y. id_ok y \<and> \<not> id_used l y)"
  have "?P start x l r"
  proof (rule assign_loop.raw_induct [where P = ?P, OF _ assms(1)])
    fix loop start x l r
    assume IH: "\<And>s y m r. loop s y m = Some r \<Longrightarrow> ?P s y m r"
      and body: "(case cl_find (messageIDCompare x) l of
         (None, l) \<Rightarrow> Some (Done (x, l))
       | (Some _, l) \<Rightarrow> if next_id x = start then Some (Done (0, l)) else loop start (next_id x) l) = Some r"
    show "?P start x l r"
    proof (intro impI)
      assume s: "start = 0" and x: "id_ok x"
      then have ok: "id_ok (next_id x)" "next_id x \<noteq> 0"
        using next_id_ok [of x] by (auto simp: id_ok_def)
      show "\<exists>y. id_ok y \<and> \<not> id_used l y"
      proof (cases rule: find_id [of x l])
        case (2 k l')
        then show ?thesis
          using IH [of start "next_id x" l' r] body s ok id_used_items [OF 2(2)] by simp
      qed (use x in blast)
    qed
  qed
  then show ?thesis
    using assms(2,3) by blast
qed

section \<open>What is given out\<close>

text \<open>
  C29: \<open>MQTTProtocol_assignMsgId\<close> returns, and gives out an id from 1 to 65535 that no message in flight
  has and remembers it, whenever one is free besides the last id given out; when none is, it returns 0
  and changes nothing, provided an id was given out before.
\<close>

theorem assignMsgId_unused:
  assumes "0 \<le> msgID c" "msgID c \<le> MAX_MSG_ID"
    and "msgID c \<noteq> 0 \<or> (\<exists>x. id_ok x \<and> \<not> id_used (outboundMsgs c) x)"
  shows "\<exists>r l'. items l' = items (outboundMsgs c)
    \<and> MQTTProtocol_assignMsgId c =
        Done (r, if r = 0 then c\<lparr>outboundMsgs := l'\<rparr> else c\<lparr>outboundMsgs := l', msgID := r\<rparr>)
    \<and> (if \<exists>x. id_ok x \<and> x \<noteq> msgID c \<and> \<not> id_used (outboundMsgs c) x
       then id_ok r \<and> r \<noteq> msgID c \<and> \<not> id_used (outboundMsgs c) r else r = 0)"
proof -
  obtain r l' where "assign_loop (msgID c) (next_id (msgID c)) (outboundMsgs c) = Some (Done (r, l'))"
    "items l' = items (outboundMsgs c)"
    "if \<exists>x. id_ok x \<and> x \<noteq> msgID c \<and> \<not> id_used (outboundMsgs c) x
     then id_ok r \<and> r \<noteq> msgID c \<and> \<not> id_used (outboundMsgs c) r else r = 0"
    using message_ids.search_unused [OF assms(1,2), of "outboundMsgs c"] assms(3) unfolding id_used_def by blast
  then show ?thesis
    by (intro exI [of _ r] exI [of _ l']) (auto simp: MQTTProtocol_assignMsgId_def run_loop_def Let_def)
qed

theorem assignMsgId_unused_witness:
  "\<exists>r l'. items l' = items (outboundMsgs (idle_client 5)) \<and> MQTTProtocol_assignMsgId (idle_client 5) =
     Done (r, if r = 0 then (idle_client 5)\<lparr>outboundMsgs := l'\<rparr> else (idle_client 5)\<lparr>outboundMsgs := l', msgID := r\<rparr>)
     \<and> id_ok r"
proof -
  have new: "msgID (idle_client 5) = 0" "\<not> id_used (outboundMsgs (idle_client 5)) 1" "id_ok 1"
    by (simp_all add: idle_client_def id_used_def id_ok_def MAX_MSG_ID_def)
  then have free: "\<exists>x. id_ok x \<and> x \<noteq> msgID (idle_client 5) \<and> \<not> id_used (outboundMsgs (idle_client 5)) x"
    by (intro exI [of _ 1]) simp
  have "0 \<le> msgID (idle_client 5)" "msgID (idle_client 5) \<le> MAX_MSG_ID"
    "msgID (idle_client 5) \<noteq> 0 \<or> (\<exists>x. id_ok x \<and> \<not> id_used (outboundMsgs (idle_client 5)) x)"
    using free by (auto simp: new(1) MAX_MSG_ID_def)
  from assignMsgId_unused [OF this, unfolded if_P [OF free]] show ?thesis
    by blast
qed

text \<open>
  A client that has not been given an id yet and whose messages in flight, restored from the store,
  use all of them never gets an answer: the loop waits for the id to come back to 0, which is skipped.
\<close>

theorem assignMsgId_never_ends:
  assumes "msgID c = 0" "\<forall>x. id_ok x \<longrightarrow> id_used (outboundMsgs c) x"
  shows "MQTTProtocol_assignMsgId c = Stuck"
proof -
  have "id_ok (next_id 0)"
    by (rule next_id_ok) (simp_all add: MAX_MSG_ID_def)
  then have "assign_loop 0 (next_id 0) (outboundMsgs c) = None"
    using assign_loop_free [of 0 "next_id 0" "outboundMsgs c"] assms(2) by (cases "assign_loop 0 (next_id 0) (outboundMsgs c)") auto
  then show ?thesis
    using assms(1) by (simp add: MQTTProtocol_assignMsgId_def run_loop_def)
qed

theorem assignMsgId_never_ends_witness:
  "MQTTProtocol_assignMsgId ((idle_client 5)\<lparr>outboundMsgs := \<lparr>items = map (\<lambda>x. \<lparr>m_qos = 1, m_retain = False,
     m_msgid = x, m_publish = 0, lastTouch = 0, nextMessageType = 0\<rparr>) [1..MAX_MSG_ID], cursor = None\<rparr>\<rparr>) = Stuck"
  by (rule assignMsgId_never_ends) (simp_all add: idle_client_def id_used_def id_ok_def image_image)

end
