(* ===== verification/Mqtt_Sender.thy ===== *)
theory Mqtt_Sender
  imports Mqtt_Qos
begin

text \<open>
  What the exchanges promise for messages this client sends.  The handlers of acknowledgements
  implement a sender that keeps, per message id, the publication and what it waits for; from it
  follows that a publication of quality of service 2 is kept until both of its acknowledgements came.
\<close>

section \<open>The contents of the outbound list\<close>

datatype phase = Await_ack | Await_rec | Await_comp

definition phase_of :: "messages \<Rightarrow> phase" where
  "phase_of m = (if m_qos m = 1 then Await_ack
     else if nextMessageType m = int (msg_code PUBREC) then Await_rec else Await_comp)"

definition sent_view :: "('k, 'p, 'u) mqtt \<Rightarrow> messages \<Rightarrow> phase \<times> content option" where
  "sent_view st m = (phase_of m, msg_content st m)"

definition out_list :: "nat \<Rightarrow> ('k, 'p, 'u) mqtt \<Rightarrow> messages list" where
  "out_list i st = items (outboundMsgs (client_at i st))"

definition out_store :: "nat \<Rightarrow> ('k, 'p, 'u) mqtt \<Rightarrow> int \<Rightarrow> (phase \<times> content option) option" where
  "out_store i st msgid = map_option (sent_view st) (List.find (\<lambda>m. m_msgid m = msgid) (out_list i st))"

definition out_ids_distinct :: "nat \<Rightarrow> ('k, 'p, 'u) mqtt \<Rightarrow> bool" where
  "out_ids_distinct i st \<longleftrightarrow> distinct (map m_msgid (out_list i st))"

lemma out_store_Some:
  "out_ids_distinct i st \<Longrightarrow> m \<in> set (out_list i st) \<Longrightarrow> out_store i st (m_msgid m) = Some (sent_view st m)"
  using find_unique [of m_msgid "out_list i st" m] by (simp add: out_store_def out_ids_distinct_def)

lemma out_store_None: "msgid \<notin> m_msgid ` set (out_list i st) \<Longrightarrow> out_store i st msgid = None"
  using find_None_iff [of "\<lambda>m. m_msgid m = msgid" "out_list i st"] by (auto simp: out_store_def)

lemma out_store_eqI:
  assumes "out_ids_distinct i st"
    and "\<And>m. m \<in> set (out_list i st) \<Longrightarrow> g (m_msgid m) = Some (sent_view st m)"
    and "\<And>msgid. msgid \<notin> m_msgid ` set (out_list i st) \<Longrightarrow> g msgid = None"
  shows "out_store i st = g"
proof
  fix msgid
  show "out_store i st msgid = g msgid"
    using out_store_Some [OF assms(1)] out_store_None [of msgid i st] assms(2,3)
    by (cases "msgid \<in> m_msgid ` set (out_list i st)") auto
qed

text \<open>The contents depend on the messages and the publications alone.\<close>

lemma out_store_cong:
  "out_list i st' = out_list i st \<Longrightarrow> heap_pubs st' = heap_pubs st \<Longrightarrow> out_store i st' = out_store i st"
  "out_list i st' = out_list i st \<Longrightarrow> out_ids_distinct i st' = out_ids_distinct i st"
  by (simp_all add: out_store_def sent_view_def msg_content_def out_ids_distinct_def fun_eq_iff cong: option.map_cong)

lemma wired_out:
  assumes "wired i st st'"
  shows "out_list i st' = out_list i st" "heap_pubs st' = heap_pubs st"
proof -
  have "i < length (items (clients st))"
    using assms by (simp add: wired_def)
  then show "out_list i st' = out_list i st"
    using same_client(2) [OF same_wired [OF assms]] by (simp add: out_list_def)
  show "heap_pubs st' = heap_pubs st"
    using wired_fields(1) [OF assms] .
qed

text \<open>Giving up one reference leaves the publications of the others as they are.\<close>

lemma remove_content:
  assumes "MQTTProtocol_removePublication a st = Done st'" "heap_pubs st' (m_publish m) \<noteq> None"
  shows "msg_content st' m = msg_content st m"
  using assms by (auto simp: MQTTProtocol_removePublication_def remove_stored_def msg_content_def Let_def
      split: option.splits if_splits prod.splits)

section \<open>The abstract sender\<close>

datatype sent_ack = Puback ack | Pubrec ack | Pubcomp ack

type_synonym sender = "int \<Rightarrow> (phase \<times> content option) option"

fun sender_step :: "sent_ack \<Rightarrow> sender \<Rightarrow> sender" where
  "sender_step (Puback a) S = (case S (ack_msgId a) of Some (Await_ack, c) \<Rightarrow> S(ack_msgId a := None) | _ \<Rightarrow> S)"
| "sender_step (Pubrec a) S = (case S (ack_msgId a) of Some (Await_rec, c) \<Rightarrow> S(ack_msgId a \<mapsto> (Await_comp, c)) | _ \<Rightarrow> S)"
| "sender_step (Pubcomp a) S = (case S (ack_msgId a) of Some (Await_comp, c) \<Rightarrow> S(ack_msgId a := None) | _ \<Rightarrow> S)"

fun handle_ack :: "('k, 'a) env \<Rightarrow> int \<Rightarrow> sent_ack \<Rightarrow> ('k, 'p, 'u) mqtt \<Rightarrow> (int \<times> ('k, 'p, 'u) mqtt) outcome" where
  "handle_ack E s (Puback a) st = MQTTProtocol_handlePubacks E a s st"
| "handle_ack E s (Pubrec a) st = MQTTProtocol_handlePubrecs E a s st"
| "handle_ack E s (Pubcomp a) st = MQTTProtocol_handlePubcomps E a s st"

fun handle_acks :: "('k, 'a) env \<Rightarrow> int \<Rightarrow> sent_ack list \<Rightarrow> ('k, 'p, 'u) mqtt \<Rightarrow> ('k, 'p, 'u) mqtt outcome" where
  "handle_acks E s [] st = Done st"
| "handle_acks E s (a # as) st = obind (handle_ack E s a st) (\<lambda>(_, st). handle_acks E s as st)"

section \<open>The handlers, exactly\<close>

text \<open>\<open>sends_as r st i S\<close>: the call returned in a state whose outbound list holds \<open>S\<close>.\<close>

definition sends_as :: "(int \<times> ('k, 'p, 'u) mqtt) outcome \<Rightarrow> ('k, 'p, 'u) mqtt \<Rightarrow> nat \<Rightarrow> sender \<Rightarrow> bool" where
  "sends_as r st i S \<longleftrightarrow> (\<exists>rc st'. r = Done (rc, st') \<and> session_inv st' \<and> still st st' \<and> out_ids_distinct i st'
     \<and> out_store i st' = S)"

lemma sends_asI:
  "r = Done (rc, st') \<Longrightarrow> session_inv st' \<Longrightarrow> still st st' \<Longrightarrow> out_ids_distinct i st' \<Longrightarrow> out_store i st' = S \<Longrightarrow>
   sends_as r st i S"
  by (auto simp: sends_as_def)

text \<open>The client of the socket, with the search for its message done.\<close>

lemma acked_client:
  assumes "session_inv st" "owner s i st" "out_ids_distinct i st"
  obtains st1 where "client_of s st = Done (i, st1)" "session_inv st1" "i < length (items (clients st1))"
    "\<And>l. items l = out_list i st \<Longrightarrow> session_inv (upd_client i (\<lambda>c. c\<lparr>outboundMsgs := l\<rparr>) st1)
       \<and> still st (upd_client i (\<lambda>c. c\<lparr>outboundMsgs := l\<rparr>) st1)
       \<and> out_list i (upd_client i (\<lambda>c. c\<lparr>outboundMsgs := l\<rparr>) st1) = out_list i st
       \<and> out_store i (upd_client i (\<lambda>c. c\<lparr>outboundMsgs := l\<rparr>) st1) = out_store i st"
    "items (outboundMsgs (client_at i st1)) = out_list i st"
proof -
  obtain st1 where st1: "client_of s st = Done (i, st1)" "session_inv st1" "i < length (items (clients st1))"
    "still st st1" "client_at i st1 = client_at i st"
    using client_of_owner [OF assms(1,2)] by metis
  have "heap_pubs st1 = heap_pubs st"
    using client_of_inv [OF assms(1), of s] st1(1) assms(2) by (fastforce simp: owner_def client_at_def)
  then show thesis
    using st1 found_outbound [OF st1(2) _ st1(3)] still_trans [OF st1(4) still_upd]
    by (intro that [of st1]) (auto simp: out_list_def core_def upd_client_def intro!: out_store_cong)
qed

text \<open>The message at position \<open>k\<close> goes, with its reference to the publication.\<close>

lemma drop_sent:
  assumes inv: "session_inv st" and i: "i < length (items (clients st))" and d: "out_ids_distinct i st"
    and k: "k < length (out_list i st)"
  shows "\<exists>st1. MQTTProtocol_removePublication (m_publish (out_list i st ! k)) st = Done st1
    \<and> (let st' = upd_client i (\<lambda>c. c\<lparr>outboundMsgs := cl_delete k (outboundMsgs c)\<rparr>) st1 in
        session_inv st' \<and> still st st' \<and> out_ids_distinct i st'
        \<and> out_store i st' = (out_store i st)(m_msgid (out_list i st ! k) := None))"
proof -
  obtain st1 where st1: "MQTTProtocol_removePublication (m_publish (out_list i st ! k)) st = Done st1" "heap_only st st1"
    "session_inv (upd_client i (\<lambda>c. c\<lparr>outboundMsgs := cl_delete k (outboundMsgs c)\<rparr>) st1)"
    using drop_outbound [OF inv i, of k] k by (auto simp: out_list_def)
  let ?st = "upd_client i (\<lambda>c. c\<lparr>outboundMsgs := cl_delete k (outboundMsgs c)\<rparr>) st1"
  have len: "i < length (items (clients ?st))"
    using i heap_only_fields(1) [OF st1(2)] by simp
  have l: "out_list i ?st = take k (out_list i st) @ drop (Suc k) (out_list i st)"
    using len heap_only_fields(1) [OF st1(2)] by (simp add: out_list_def client_at_def upd_client_def items_delete)
  have dl: "distinct (out_list i st)"
    using d by (simp add: out_ids_distinct_def distinct_map)
  have mem: "m \<in> set (out_list i ?st) \<longleftrightarrow> m \<in> set (out_list i st) \<and> m_msgid m \<noteq> m_msgid (out_list i st ! k)" for m
    using delete_set(2) [OF dl k] l d k by (auto simp: out_ids_distinct_def distinct_map inj_on_def)
  have d': "out_ids_distinct i ?st"
    using delete_set(1) [of "map m_msgid (out_list i st)" k] d k
    by (simp add: out_ids_distinct_def l take_map [symmetric] drop_map [symmetric])
  have "still st ?st"
    by (rule still_trans [OF still_heap [OF st1(2)] still_upd]) (simp add: core_def)
  moreover have "out_store i ?st = (out_store i st)(m_msgid (out_list i st ! k) := None)"
  proof (rule out_store_eqI [OF d'])
    fix m
    assume m: "m \<in> set (out_list i ?st)"
    then have "m_publish m \<in># list_refs (outboundMsgs (client_at i ?st))"
      by (simp add: list_refs_def out_list_def)
    then have "m_publish m \<in># refs ?st"
      using mset_subset_eqD [OF out_member [OF len]] by (simp add: refs_def)
    then have "heap_pubs ?st (m_publish m) \<noteq> None"
      using st1(3) by (auto simp: session_inv_def owned_def)
    then have "msg_content ?st m = msg_content st m"
      using remove_content [OF st1(1), of m] by (simp add: msg_content_def upd_client_def)
    then show "((out_store i st)(m_msgid (out_list i st ! k) := None)) (m_msgid m) = Some (sent_view ?st m)"
      using mem m out_store_Some [OF d, of m] by (simp add: sent_view_def)
  next
    fix msgid
    assume "msgid \<notin> m_msgid ` set (out_list i ?st)"
    then have "msgid = m_msgid (out_list i st ! k) \<or> msgid \<notin> m_msgid ` set (out_list i st)"
      using mem by auto
    then show "((out_store i st)(m_msgid (out_list i st ! k) := None)) msgid = None"
      using out_store_None by auto
  qed
  ultimately show ?thesis
    using st1(1,3) d' by (intro exI [of _ st1]) (simp add: Let_def)
qed


text \<open>The search of a handler, which may give up the search position first (\<open>r\<close>).\<close>

definition acked :: "nat \<Rightarrow> ('k, 'p, 'u) mqtt \<Rightarrow> ('k, 'p, 'u) mqtt \<Rightarrow> bool" where
  "acked i st st' \<longleftrightarrow> session_inv st' \<and> i < length (items (clients st')) \<and> still st st' \<and> out_ids_distinct i st'
     \<and> out_store i st' = out_store i st \<and> persistence_of (client_at i st') = None"

definition search_list :: "bool \<Rightarrow> messages clist \<Rightarrow> messages clist" where
  "search_list r l = (if r then l\<lparr>cursor := None\<rparr> else l)"

lemma items_search [simp]: "items (search_list r l) = items l"
  by (simp add: search_list_def)

lemma acked_cases [consumes 3, case_names none some]:
  assumes "session_inv st" "owner s i st" "out_ids_distinct i st"
  obtains st1 l where "client_of s st = Done (i, st1)"
      "cl_find (messageIDCompare msgid) (search_list r (outboundMsgs (client_at i st1))) = (None, l)"
      "acked i st (upd_client i (\<lambda>c. c\<lparr>outboundMsgs := l\<rparr>) st1)" "out_store i st msgid = None"
  | st1 k l where "client_of s st = Done (i, st1)"
      "cl_find (messageIDCompare msgid) (search_list r (outboundMsgs (client_at i st1))) = (Some k, l)"
      "acked i st (upd_client i (\<lambda>c. c\<lparr>outboundMsgs := l\<rparr>) st1)"
      "out_list i (upd_client i (\<lambda>c. c\<lparr>outboundMsgs := l\<rparr>) st1) = items l" "k < length (items l)"
      "m_msgid (items l ! k) = msgid" "out_ok (items l ! k)" "out_store i st msgid = Some (sent_view st (items l ! k))"
proof -
  obtain st1 where st1: "client_of s st = Done (i, st1)" "session_inv st1" "i < length (items (clients st1))"
    and found: "\<And>l. items l = out_list i st \<Longrightarrow> session_inv (upd_client i (\<lambda>c. c\<lparr>outboundMsgs := l\<rparr>) st1)
       \<and> still st (upd_client i (\<lambda>c. c\<lparr>outboundMsgs := l\<rparr>) st1)
       \<and> out_list i (upd_client i (\<lambda>c. c\<lparr>outboundMsgs := l\<rparr>) st1) = out_list i st
       \<and> out_store i (upd_client i (\<lambda>c. c\<lparr>outboundMsgs := l\<rparr>) st1) = out_store i st"
    and l1: "items (outboundMsgs (client_at i st1)) = out_list i st"
    using acked_client [OF assms] by metis
  let ?l0 = "search_list r (outboundMsgs (client_at i st1))"
  have l0: "items ?l0 = out_list i st"
    using l1 by simp
  have st2: "acked i st (upd_client i (\<lambda>c. c\<lparr>outboundMsgs := l\<rparr>) st1)" if "items l = out_list i st" for l
    using found [OF that] st1(3) assms(3) out_store_cong(2) [of i "upd_client i (\<lambda>c. c\<lparr>outboundMsgs := l\<rparr>) st1" st]
      inv_client [of "upd_client i (\<lambda>c. c\<lparr>outboundMsgs := l\<rparr>) st1" i]
    by (simp add: acked_def client_ok_def)
  show thesis
  proof (cases rule: find_message_cases [of msgid ?l0])
    case none
    then show ?thesis
      using st1(1) st2 [OF l0] l0 out_store_None [of msgid i st] by (intro that(1) [of st1 ?l0]) auto
  next
    case (some k l)
    have l: "items l = out_list i st"
      using some(3) l0 by simp
    have m: "items l ! k \<in> set (out_list i st)"
      using some(2) l0 by (simp add: some(3))
    have "client_ok (client_at i st)"
      using inv_client [OF assms(1)] assms(2) by (simp add: owner_def)
    then show ?thesis
      using st1(1) some st2 [OF l] found [OF l] l out_store_Some [OF assms(3) m] m
      by (intro that(2) [of st1 k l]) (auto simp: client_ok_def out_list_def)
  qed
qed

text \<open>The end of an exchange.\<close>

lemma completed_sends:
  assumes "acked i st st2" "k < length (out_list i st2)"
  shows "\<exists>st3. MQTTProtocol_removePublication (m_publish (out_list i st2 ! k)) st2 = Done st3
    \<and> (\<forall>rc. sends_as (Done (rc, upd_client i (\<lambda>c. c\<lparr>outboundMsgs := cl_delete k (outboundMsgs c)\<rparr>) st3)) st i
        ((out_store i st)(m_msgid (out_list i st2 ! k) := None)))"
  using drop_sent [of st2 i k] assms by (auto simp: acked_def Let_def sends_as_def dest: still_trans)

lemma acked_sends: "acked i st st2 \<Longrightarrow> sends_as (Done (rc, st2)) st i (out_store i st)"
  by (simp add: acked_def sends_as_def)

lemma acked_persistence: "acked i st st2 \<Longrightarrow> MQTTPersistence_remove i type qos msgId st2 = Done (0, st2)"
  by (simp add: acked_def remove_none)

lemma sends_as_counter: "sends_as (Done (rc, st2\<lparr>msgs_sent := n\<rparr>)) st i S = sends_as (Done (rc, st2)) st i S"
  by (simp add: sends_as_def still_def out_ids_distinct_def out_list_def client_at_def out_store_def sent_view_def
      msg_content_def fun_eq_iff cong: option.map_cong)

lemma handlePubacks_sends:
  assumes "session_inv st" "owner s i st" "out_ids_distinct i st"
  shows "sends_as (MQTTProtocol_handlePubacks E a s st) st i (sender_step (Puback a) (out_store i st))"
  using assms
proof (cases rule: acked_cases [where r = False and msgid = "ack_msgId a"])
  case (none st1 l)
  then show ?thesis
    by (simp add: MQTTProtocol_handlePubacks_def search_list_def acked_sends)
next
  case (some st1 k l)
  then show ?thesis
    using completed_sends [OF some(3), of k]
    by (cases "m_qos (items l ! k) = 1")
      (auto simp: MQTTProtocol_handlePubacks_def search_list_def Let_def acked_sends acked_persistence sent_view_def phase_of_def)
qed

lemma handlePubcomps_sends:
  assumes "session_inv st" "owner s i st" "out_ids_distinct i st"
  shows "sends_as (MQTTProtocol_handlePubcomps E a s st) st i (sender_step (Pubcomp a) (out_store i st))"
  using assms
proof (cases rule: acked_cases [where r = False and msgid = "ack_msgId a"])
  case (none st1 l)
  then show ?thesis
    by (simp add: MQTTProtocol_handlePubcomps_def search_list_def acked_sends)
next
  case (some st1 k l)
  then show ?thesis
    using completed_sends [OF some(3), of k]
    by (auto simp: MQTTProtocol_handlePubcomps_def search_list_def Let_def acked_sends acked_persistence sent_view_def phase_of_def
        sends_as_counter out_ok_def)
qed

text \<open>\<open>PUBREC\<close>: the release is sent, and the message waits for the completion.\<close>

lemma touch_sent:
  assumes "acked i st st2" "k < length (out_list i st2)" "m_qos (out_list i st2 ! k) = 2"
    and g: "g = (\<lambda>m. m\<lparr>nextMessageType := int (msg_code PUBCOMP), lastTouch := t\<rparr>)"
  shows "sends_as (Done (rc, upd_client i (\<lambda>c. c\<lparr>outboundMsgs := cl_update k g (outboundMsgs c)\<rparr>) st2)) st i
    ((out_store i st)(m_msgid (out_list i st2 ! k) \<mapsto> (Await_comp, msg_content st2 (out_list i st2 ! k))))"
proof -
  let ?st = "upd_client i (\<lambda>c. c\<lparr>outboundMsgs := cl_update k g (outboundMsgs c)\<rparr>) st2" and ?m = "out_list i st2 ! k"
  have st2: "session_inv st2" "i < length (items (clients st2))" "still st st2" "out_ids_distinct i st2" "out_store i st2 = out_store i st"
    using assms(1) by (simp_all add: acked_def)
  have l: "out_list i ?st = (out_list i st2)[k := g ?m]"
    using st2(2) by (simp add: out_list_def client_at_def upd_client_def)
  have ids: "map m_msgid (out_list i ?st) = map m_msgid (out_list i st2)"
    using list_update_id [of "map m_msgid (out_list i st2)" k] assms(2) unfolding l map_update by (simp add: g)
  have set: "set (out_list i ?st) = insert (g ?m) {m \<in> set (out_list i st2). m_msgid m \<noteq> m_msgid ?m}"
    unfolding l using st2(4) by (intro set_update_distinct_key assms(2)) (simp add: out_ids_distinct_def)
  have d: "out_ids_distinct i ?st"
    using st2(4) by (simp add: out_ids_distinct_def ids)
  have "session_inv ?st"
    by (rule touch_outbound [OF st2(1,2)]) (use assms(2,3) in \<open>simp_all add: out_ok_def g out_list_def\<close>)
  moreover have "still st ?st"
    by (rule still_trans [OF st2(3) still_upd]) (simp add: core_def)
  moreover have "out_store i ?st = (out_store i st2)(m_msgid ?m \<mapsto> (Await_comp, msg_content st2 ?m))"
  proof (rule out_store_eqI [OF d])
    fix m
    assume "m \<in> set (out_list i ?st)"
    then consider "m = g ?m" | "m \<in> set (out_list i st2)" "m_msgid m \<noteq> m_msgid ?m"
      using set by auto
    then show "((out_store i st2)(m_msgid ?m \<mapsto> (Await_comp, msg_content st2 ?m))) (m_msgid m) = Some (sent_view ?st m)"
    proof cases
      case 1
      then show ?thesis
        using assms(3) by (simp add: g sent_view_def phase_of_def msg_content_def upd_client_def)
    next
      case 2
      then show ?thesis
        using out_store_Some [OF st2(4) 2(1)] by (simp add: sent_view_def msg_content_def upd_client_def)
    qed
  next
    fix msgid
    assume "msgid \<notin> m_msgid ` set (out_list i ?st)"
    then have "msgid \<notin> m_msgid ` set (out_list i st2)"
      using ids by (metis list.set_map)
    moreover have "m_msgid ?m \<in> m_msgid ` set (out_list i st2)"
      using assms(2) by simp
    ultimately show "((out_store i st2)(m_msgid ?m \<mapsto> (Await_comp, msg_content st2 ?m))) msgid = None"
      using out_store_None [of msgid i st2] by auto
  qed
  ultimately show ?thesis
    using d st2(5) by (intro sends_asI [OF refl]) simp_all
qed

lemma acked_wired:
  assumes "acked i st st2" "wired i st2 st3"
  shows "acked i st st3" "out_list i st3 = out_list i st2" "msg_content st3 = msg_content st2"
proof -
  have len: "i < length (items (clients st2))"
    using assms(1) by (simp add: acked_def)
  note w = wired_out [OF assms(2)]
  have "persistence_of (client_at i st3) = None"
    using same_client(3) [OF same_wired [OF assms(2)] len] assms(1) by (simp add: acked_def)
  then show "acked i st st3"
    using sent_inv [OF _ assms(2)] still_trans [OF _ still_wired [OF assms(2)], of st] out_store_cong [OF w(1)] w(2) assms(1)
    by (simp add: acked_def)
  show "out_list i st3 = out_list i st2" "msg_content st3 = msg_content st2"
    using w by (simp_all add: msg_content_def fun_eq_iff)
qed

lemma handlePubrecs_sends:
  assumes "session_inv st" "owner s i st" "out_ids_distinct i st"
  shows "sends_as (MQTTProtocol_handlePubrecs E a s st) st i (sender_step (Pubrec a) (out_store i st))"
  using assms
proof (cases rule: acked_cases [where r = True and msgid = "ack_msgId a"])
  case (none st1 l)
  then show ?thesis
    by (simp add: MQTTProtocol_handlePubrecs_def search_list_def acked_sends)
next
  case (some st1 k l)
  let ?st = "upd_client i (\<lambda>c. c\<lparr>outboundMsgs := l\<rparr>) st1" and ?m = "items l ! k"
  obtain rc st2 where sent: "with_net (MQTTPacket_send_pubrel (ack_msgId a) False) E i ?st = Done (rc, st2)" "wired i ?st st2"
    using sends_wired(3) [of i ?st "ack_msgId a" False E] some(3) by (auto simp: acked_def)
  note st2 = acked_wired [OF some(3) sent(2)]
  have m: "?m \<in> set (out_list i ?st)"
    using some(4,5) by simp
  have "sent_view st ?m = sent_view ?st ?m"
    using out_store_Some [of i ?st ?m] some(3,6,8) m by (simp add: acked_def)
  then have view: "out_store i st (ack_msgId a) = Some (phase_of ?m, msg_content st2 ?m)"
    using some(8) st2(3) by (simp add: sent_view_def)
  show ?thesis
    using some(1-7) touch_sent [OF st2(1), of k] st2(2) sent(1) view
    by (auto simp: MQTTProtocol_handlePubrecs_def search_list_def Let_def acked_sends phase_of_def out_ok_def)
qed

section \<open>Sequences of acknowledgements\<close>

lemma handle_ack_sends:
  "session_inv st \<Longrightarrow> owner s i st \<Longrightarrow> out_ids_distinct i st \<Longrightarrow>
   sends_as (handle_ack E s a st) st i (sender_step a (out_store i st))"
  using handlePubacks_sends handlePubrecs_sends handlePubcomps_sends by (cases a) (simp_all del: sender_step.simps)

lemma handle_acks_sends:
  "session_inv st \<Longrightarrow> owner s i st \<Longrightarrow> out_ids_distinct i st \<Longrightarrow>
   \<exists>st'. handle_acks E s as st = Done st' \<and> session_inv st' \<and> still st st' \<and> out_store i st' = fold sender_step as (out_store i st)"
proof (induction as arbitrary: st)
  case Nil
  then show ?case
    by (simp add: still_refl)
next
  case (Cons a as)
  obtain rc st1 where st1: "handle_ack E s a st = Done (rc, st1)" "session_inv st1" "still st st1" "out_ids_distinct i st1"
    "out_store i st1 = sender_step a (out_store i st)"
    using handle_ack_sends [OF Cons.prems, of E a] by (auto simp: sends_as_def)
  obtain st2 where "handle_acks E s as st1 = Done st2" "session_inv st2" "still st1 st2"
    "out_store i st2 = fold sender_step as (out_store i st1)"
    using Cons.IH [OF st1(2) linked_owner [OF still_linked [OF st1(3)] Cons.prems(2)] st1(4)] by blast
  then show ?case
    using st1 still_trans [OF st1(3)] by simp
qed

text \<open>
  C8: The handlers of \<open>PUBACK\<close>, \<open>PUBREC\<close> and \<open>PUBCOMP\<close> implement the abstract sender: for every
  sequence of acknowledgements, in whatever order and however often repeated, they return, and the
  outbound list then holds the messages, in the phase and with the publication, that the sender holds.
\<close>

theorem qos_sender_refines:
  assumes "session_inv st" "owner s i st" "out_ids_distinct i st"
  shows "\<exists>st'. handle_acks E s as st = Done st' \<and> out_store i st' = fold sender_step as (out_store i st)"
  using handle_acks_sends [OF assms] by blast

text \<open>What it takes to complete a message of quality of service 2.\<close>

definition rec_of :: "int \<Rightarrow> sent_ack \<Rightarrow> bool" where
  "rec_of msgid a = (case a of Pubrec p \<Rightarrow> ack_msgId p = msgid | _ \<Rightarrow> False)"

definition comp_of :: "int \<Rightarrow> sent_ack \<Rightarrow> bool" where
  "comp_of msgid a = (case a of Pubcomp p \<Rightarrow> ack_msgId p = msgid | _ \<Rightarrow> False)"

lemma sender_awaits_comp:
  "S msgid = Some (Await_comp, c) \<Longrightarrow> \<not> list_ex (comp_of msgid) as \<Longrightarrow> fold sender_step as S msgid = Some (Await_comp, c)"
proof (induction as arbitrary: S)
  case (Cons a as)
  have "sender_step a S msgid = Some (Await_comp, c)"
    using Cons.prems by (cases a) (auto simp: comp_of_def split: option.split phase.split)
  then show ?case
    using Cons by simp
qed simp

lemma sender_awaits_rec:
  "S msgid = Some (Await_rec, c) \<Longrightarrow> \<not> list_ex (comp_of msgid) (dropWhile (\<lambda>a. \<not> rec_of msgid a) as) \<Longrightarrow>
   fold sender_step as S msgid = Some (if list_ex (rec_of msgid) as then Await_comp else Await_rec, c)"
proof (induction as arbitrary: S)
  case (Cons a as)
  show ?case
  proof (cases "rec_of msgid a")
    case True
    then have "sender_step a S msgid = Some (Await_comp, c)"
      using Cons.prems(1) by (cases a) (auto simp: rec_of_def)
    then show ?thesis
      using sender_awaits_comp [of "sender_step a S" msgid c as] Cons.prems(2) True by simp
  next
    case False
    then have "sender_step a S msgid = Some (Await_rec, c)"
      using Cons.prems(1) by (cases a) (auto simp: rec_of_def split: option.split phase.split)
    then show ?thesis
      using Cons False by simp
  qed
qed simp

text \<open>
  C9: A publication of quality of service 2 is kept, with its contents, until it is acknowledged twice
  in the right order: unless a \<open>PUBCOMP\<close> for it follows a \<open>PUBREC\<close> for it, no sequence of acknowledgements
  removes it, and it is waiting for \<open>PUBCOMP\<close> exactly when a \<open>PUBREC\<close> came.
\<close>

theorem qos2_kept_until_complete:
  assumes "session_inv st" "owner s i st" "out_ids_distinct i st" "out_store i st msgid = Some (Await_rec, c)"
    and "\<not> list_ex (comp_of msgid) (dropWhile (\<lambda>a. \<not> rec_of msgid a) as)"
  shows "\<exists>st'. handle_acks E s as st = Done st'
    \<and> out_store i st' msgid = Some (if list_ex (rec_of msgid) as then Await_comp else Await_rec, c)"
  using handle_acks_sends [OF assms(1-3), of E as] sender_awaits_rec [of "out_store i st" msgid c as] assms(4,5) by auto

section \<open>A message in flight\<close>

text \<open>One client on socket 5 that has sent a publication with id 9 at quality of service 2.\<close>

definition in_flight :: "(nat list \<times> u8 list, unit, unit) mqtt" where
  "in_flight = (one_session 5 [] ([], []) ())\<lparr>
     clients := \<lparr>items = [(idle_client 5)\<lparr>outboundMsgs := \<lparr>items = [\<lparr>m_qos = 2, m_retain = False, m_msgid = 9,
       m_publish = 0, lastTouch = 0, nextMessageType = int (msg_code PUBREC)\<rparr>], cursor = None\<rparr>\<rparr>], cursor = None\<rparr>,
     heap_pubs := [0 \<mapsto> \<lparr>p_topic = [97], p_topiclen = 1, p_payload = [1], p_payloadlen = 1, refcount = 1\<rparr>],
     next_pub := 1, stored := \<lparr>items = [0], cursor = None\<rparr>\<rparr>"

lemma in_flight_ok:
  "session_inv in_flight" "owner 5 0 in_flight" "out_ids_distinct 0 in_flight"
  "out_store 0 in_flight 9 = Some (Await_rec, Some ([97], 1, [1], False))"
  by (auto simp: session_inv_def owned_def in_flight_def one_session_def refs_def in_refs_def out_refs_def list_refs_def
      client_ok_def idle_client_def out_ok_def pub_fits_def owner_def client_at_def out_ids_distinct_def out_list_def
      out_store_def sent_view_def phase_of_def msg_content_def)

definition ack_9 :: ack where
  "ack_9 = \<lparr>ack_header = 0x50, ack_msgId = 9\<rparr>"

theorem qos_sender_refines_witness:
  "\<exists>st'. handle_acks taking_env 5 [Pubcomp ack_9, Pubrec ack_9, Pubrec ack_9, Pubcomp ack_9] in_flight = Done st'
    \<and> out_store 0 st' 9 = None"
  using qos_sender_refines [OF in_flight_ok(1-3), of taking_env "[Pubcomp ack_9, Pubrec ack_9, Pubrec ack_9, Pubcomp ack_9]"]
  by (auto simp: in_flight_ok(4) ack_9_def)

theorem qos2_kept_until_complete_witness:
  "\<exists>st'. handle_acks taking_env 5 [Pubcomp ack_9, Pubrec ack_9, Puback ack_9] in_flight = Done st'
    \<and> out_store 0 st' 9 = Some (Await_comp, Some ([97], 1, [1], False))"
  using qos2_kept_until_complete [OF in_flight_ok, of "[Pubcomp ack_9, Pubrec ack_9, Puback ack_9]" taking_env]
  by (simp add: comp_of_def rec_of_def ack_9_def)

end
