(* ===== verification/Node_Glue.thy ===== *)
theory Node_Glue
  imports Icp_Api
begin

text \<open>
  What ties a node to the broker, \<^verbatim>\<open>mqtt/source/mqtt.c\<close> with \<^verbatim>\<open>mqtt/include/mqtt.h\<close> and
  \<^verbatim>\<open>mqtt/include/topics.h\<close>: the signal lines and flags shared by the threads, the handlers that the MQTT
  client calls, the command interpreter, and the messages a node and the bus act on.  The state is
  that of the ICP library with the globals of the file behind \<open>env\<close>.  A C string is the list of its
  bytes before the terminator; the payload of a message has no terminator and ends with its last
  byte, so that a comparison which needs one byte more is a fault.
\<close>

section \<open>Topics\<close>

datatype topic_id =
  TOPIC_TEST | TOPIC_PRIM_ACCESS | TOPIC_PRIM_ACCESS_OUT | TOPIC_PRIM_SHUDUP | TOPIC_PRIM_SHUDUP_OUT
| TOPIC_PRIM_GPINTL | TOPIC_PRIM_GPINTL_OUT | TOPIC_PRIM_RS485 | TOPIC_SEC_ACCESS | TOPIC_SEC_ACCESS_OUT
| TOPIC_SEC_SHUDUP | TOPIC_SEC_SHUDUP_OUT | TOPIC_SEC_GPINTL | TOPIC_SEC_GPINTL_OUT | TOPIC_SEC_RS485
| TOPIC_SIMULATOR_BASE | TOPIC_SIMULATOR_DBG_BASE | NUM_OF_TOPICS

primrec topic_num :: "topic_id \<Rightarrow> u8" where
  "topic_num TOPIC_TEST = 0"
| "topic_num TOPIC_PRIM_ACCESS = 1"
| "topic_num TOPIC_PRIM_ACCESS_OUT = 2"
| "topic_num TOPIC_PRIM_SHUDUP = 3"
| "topic_num TOPIC_PRIM_SHUDUP_OUT = 4"
| "topic_num TOPIC_PRIM_GPINTL = 5"
| "topic_num TOPIC_PRIM_GPINTL_OUT = 6"
| "topic_num TOPIC_PRIM_RS485 = 7"
| "topic_num TOPIC_SEC_ACCESS = 8"
| "topic_num TOPIC_SEC_ACCESS_OUT = 9"
| "topic_num TOPIC_SEC_SHUDUP = 10"
| "topic_num TOPIC_SEC_SHUDUP_OUT = 11"
| "topic_num TOPIC_SEC_GPINTL = 12"
| "topic_num TOPIC_SEC_GPINTL_OUT = 13"
| "topic_num TOPIC_SEC_RS485 = 14"
| "topic_num TOPIC_SIMULATOR_BASE = 15"
| "topic_num TOPIC_SIMULATOR_DBG_BASE = 16"
| "topic_num NUM_OF_TOPICS = 17"

definition topic_table :: "(topic_id \<times> string) list" where
  "topic_table =
    [(TOPIC_TEST, ''ec2/test''),
     (TOPIC_PRIM_ACCESS, ''ec2/icp/bus/primary/access''),
     (TOPIC_PRIM_ACCESS_OUT, ''ec2/icp/bus_out/primary/access''),
     (TOPIC_PRIM_SHUDUP, ''ec2/icp/bus/primary/shudup''),
     (TOPIC_PRIM_SHUDUP_OUT, ''ec2/icp/bus_out/primary/shudup''),
     (TOPIC_PRIM_GPINTL, ''ec2/icp/bus/primary/gpintl''),
     (TOPIC_PRIM_GPINTL_OUT, ''ec2/icp/bus_out/primary/gpintl''),
     (TOPIC_PRIM_RS485, ''ec2/icp/bus/primary/rs485''),
     (TOPIC_SEC_ACCESS, ''ec2/icp/bus/secondary/access''),
     (TOPIC_SEC_ACCESS_OUT, ''ec2/icp/bus_out/secondary/access''),
     (TOPIC_SEC_SHUDUP, ''ec2/icp/bus/secondary/shudup''),
     (TOPIC_SEC_SHUDUP_OUT, ''ec2/icp/bus_out/secondary/shudup''),
     (TOPIC_SEC_GPINTL, ''ec2/icp/bus/secondary/gpintl''),
     (TOPIC_SEC_GPINTL_OUT, ''ec2/icp/bus_out/secondary/gpintl''),
     (TOPIC_SEC_RS485, ''ec2/icp/bus/secondary/rs485''),
     (TOPIC_SIMULATOR_BASE, ''ec2/sim/cmd/''),
     (TOPIC_SIMULATOR_DBG_BASE, ''ec2/sim/dbg/'')]"

definition topic_names :: "topic_id \<Rightarrow> u8 list" where
  "topic_names t = (case map_of topic_table t of None \<Rightarrow> [] | Some name \<Rightarrow> ascii name)"

text \<open>The loop that looks a topic up; \<open>NUM_OF_TOPICS\<close> when it is none of the table.\<close>

fun topic_in :: "u8 list \<Rightarrow> (topic_id \<times> string) list \<Rightarrow> topic_id" where
  "topic_in name [] = NUM_OF_TOPICS"
| "topic_in name ((t, str) # rows) = (if name = ascii str then t else topic_in name rows)"

definition topic_of :: "u8 list \<Rightarrow> topic_id" where
  "topic_of name = topic_in (takeWhile (\<lambda>b. b \<noteq> 0) name) topic_table"

section \<open>Comparing texts\<close>

text \<open>
  \<open>strncmp(mem, lit, n) == 0\<close>: \<open>mem\<close> are the bytes that can be read, \<open>lit\<close> is a string with its
  terminator.  Reading goes on until a difference, a terminator or \<open>n\<close> bytes.
\<close>

fun strncmp_eq :: "u8 list \<Rightarrow> u8 list \<Rightarrow> nat \<Rightarrow> bool outcome" where
  "strncmp_eq mem lit 0 = Done True"
| "strncmp_eq (c # mem) (l # lit) (Suc n) =
     (if c \<noteq> l then Done False else if c = 0 then Done True else strncmp_eq mem lit n)"
| "strncmp_eq mem lit (Suc n) = Fault"

definition text_is :: "u8 list \<Rightarrow> string \<Rightarrow> bool outcome" where
  "text_is mem word = strncmp_eq mem (ascii word @ [0]) (length word)"

text \<open>A chain of \<open>if (strncmp(payload, word, length) == 0)\<close>, the last entry being the \<open>else\<close>.\<close>

fun dispatch :: "u8 list \<Rightarrow> (string \<times> 'a outcome) list \<Rightarrow> 'a outcome \<Rightarrow> 'a outcome" where
  "dispatch mem [] other = other"
| "dispatch mem ((word, act) # rows) other =
     obind (text_is mem word) (\<lambda>b. if b then act else dispatch mem rows other)"

section \<open>The globals\<close>

text \<open>
  \<open>payload_in\<close> is the array of \<open>ICP_MAX_PACKET_LENGTH\<close> bytes, by index; \<open>payload_text\<close> is the text the
  bus keeps in \<open>payload\<close>.  \<open>net\<close> is the state of the MQTT client, the broker and the clock behind it, \<open>published\<close>
  the messages handed to the client and \<open>printed\<close> the packets printed on the terminal, the last one first.
\<close>

definition ICP_MIN_PACKET_LENGTH :: nat where
  "ICP_MIN_PACKET_LENGTH = ICP_PACKET_HEAD_LENGTH + ICP_PACKET_TAIL_LENGTH + 1"
definition ICP_MAX_PACKET_LENGTH :: nat where
  "ICP_MAX_PACKET_LENGTH = ICP_MAX_PAYLOAD_LENGTH + ICP_MIN_PACKET_LENGTH"

record 'n glue =
  g_access :: u8
  g_shudup :: u8
  g_gpintl :: u8
  payload_text :: "u8 list"
  payload_len :: u16
  payload_in :: "nat \<Rightarrow> u8"
  payload_in_len :: u16
  subscribed :: u8
  connected :: bool
  finished :: bool
  sent :: bool
  line_is_mine :: u8
  update_now :: bool
  reset_flag :: bool
  bytes_in :: bool
  listen_for_ack :: bool
  g_mqtt_enable_debug_output :: bool
  g_mqtt_enable_err_output :: bool
  g_mqtt_enable_warn_output :: bool
  g_mqtt_enable_info_output :: bool
  g_sys_enable_debug_output :: bool
  g_sys_enable_err_output :: bool
  g_sys_enable_warn_output :: bool
  g_sys_enable_info_output :: bool
  net :: 'n
  published :: "(u8 list \<times> u8 list) list"
  printed :: "icp_packet list"

definition glue_do :: "('n glue \<Rightarrow> 'n glue) \<Rightarrow> 'n glue icp \<Rightarrow> 'n glue icp" where
  "glue_do f s = s\<lparr>env := f (env s)\<rparr>"

text \<open>
  The calls the client's threads make, and what a node uses of the client: each call on the state
  of the client, with its return code.  \<open>turn_events\<close> are the calls made while the main thread waits
  once; \<open>read_clock\<close> is the time in milliseconds, computed from the counter of the processor, and
  \<open>sync_clock\<close> restarts it.
\<close>

datatype event =
  Delivery_confirmed | Subscribe_ok | Subscribe_failed | Connect_ok | Connect_failed | Disconnect_ok
| Connection_lost | Message_arrived "u8 list" "u8 list"

record 'n world =
  async_connect :: "'n \<Rightarrow> int \<times> 'n"
  async_subscribe :: "u8 list \<Rightarrow> int \<Rightarrow> 'n \<Rightarrow> int \<times> 'n"
  async_send :: "u8 list \<Rightarrow> u8 list \<Rightarrow> int \<Rightarrow> 'n \<Rightarrow> int \<times> 'n"
  turn_events :: "'n \<Rightarrow> event list \<times> 'n"
  read_clock :: "'n \<Rightarrow> u16 \<times> 'n"
  sync_clock :: "'n \<Rightarrow> 'n"

definition ASYNC_SUCCESS :: int where "ASYNC_SUCCESS = 0"
definition QOS :: int where "QOS = 1"

section \<open>Trace switches and the command interpreter\<close>

definition mqtt_enable_debug_output :: "bool \<Rightarrow> 'n glue icp \<Rightarrow> u8 \<times> 'n glue icp" where
  "mqtt_enable_debug_output enabled s = (0, glue_do (\<lambda>g. g\<lparr>g_mqtt_enable_debug_output := enabled\<rparr>) s)"

definition mqtt_enable_err_output :: "bool \<Rightarrow> 'n glue icp \<Rightarrow> u8 \<times> 'n glue icp" where
  "mqtt_enable_err_output enabled s = (0, glue_do (\<lambda>g. g\<lparr>g_mqtt_enable_err_output := enabled\<rparr>) s)"

definition mqtt_enable_warn_output :: "bool \<Rightarrow> 'n glue icp \<Rightarrow> u8 \<times> 'n glue icp" where
  "mqtt_enable_warn_output enabled s = (0, glue_do (\<lambda>g. g\<lparr>g_mqtt_enable_warn_output := enabled\<rparr>) s)"

definition mqtt_enable_info_output :: "bool \<Rightarrow> 'n glue icp \<Rightarrow> u8 \<times> 'n glue icp" where
  "mqtt_enable_info_output enabled s = (0, glue_do (\<lambda>g. g\<lparr>g_mqtt_enable_info_output := enabled\<rparr>) s)"

definition mqtt_enable_all_output :: "bool \<Rightarrow> 'n glue icp \<Rightarrow> u8 \<times> 'n glue icp" where
  "mqtt_enable_all_output enabled s =
     (let (_, s) = mqtt_enable_debug_output enabled s;
          (_, s) = mqtt_enable_err_output enabled s;
          (_, s) = mqtt_enable_warn_output enabled s;
          (_, s) = mqtt_enable_info_output enabled s
      in (0, s))"

definition sys_enable_debug_output :: "bool \<Rightarrow> 'n glue icp \<Rightarrow> u8 \<times> 'n glue icp" where
  "sys_enable_debug_output enabled s = (0, glue_do (\<lambda>g. g\<lparr>g_sys_enable_debug_output := enabled\<rparr>) s)"

definition sys_enable_err_output :: "bool \<Rightarrow> 'n glue icp \<Rightarrow> u8 \<times> 'n glue icp" where
  "sys_enable_err_output enabled s = (0, glue_do (\<lambda>g. g\<lparr>g_sys_enable_err_output := enabled\<rparr>) s)"

definition sys_enable_warn_output :: "bool \<Rightarrow> 'n glue icp \<Rightarrow> u8 \<times> 'n glue icp" where
  "sys_enable_warn_output enabled s = (0, glue_do (\<lambda>g. g\<lparr>g_sys_enable_warn_output := enabled\<rparr>) s)"

definition sys_enable_info_output :: "bool \<Rightarrow> 'n glue icp \<Rightarrow> u8 \<times> 'n glue icp" where
  "sys_enable_info_output enabled s = (0, glue_do (\<lambda>g. g\<lparr>g_sys_enable_info_output := enabled\<rparr>) s)"

definition sys_enable_all_output :: "bool \<Rightarrow> 'n glue icp \<Rightarrow> u8 \<times> 'n glue icp" where
  "sys_enable_all_output enabled s =
     (let (_, s) = sys_enable_debug_output enabled s;
          (_, s) = sys_enable_err_output enabled s;
          (_, s) = sys_enable_warn_output enabled s;
          (_, s) = sys_enable_info_output enabled s
      in (0, s))"

definition all_enable_debug_output :: "bool \<Rightarrow> 'n glue icp \<Rightarrow> u8 \<times> 'n glue icp" where
  "all_enable_debug_output enabled s =
     (let (_, s) = sys_enable_debug_output enabled s;
          (_, s) = icp_enable_debug_output enabled s;
          (_, s) = mqtt_enable_debug_output enabled s
      in (0, s))"

definition all_enable_err_output :: "bool \<Rightarrow> 'n glue icp \<Rightarrow> u8 \<times> 'n glue icp" where
  "all_enable_err_output enabled s =
     (let (_, s) = sys_enable_err_output enabled s;
          (_, s) = icp_enable_err_output enabled s;
          (_, s) = mqtt_enable_err_output enabled s
      in (0, s))"

definition all_enable_warn_output :: "bool \<Rightarrow> 'n glue icp \<Rightarrow> u8 \<times> 'n glue icp" where
  "all_enable_warn_output enabled s =
     (let (_, s) = sys_enable_warn_output enabled s;
          (_, s) = icp_enable_warn_output enabled s;
          (_, s) = mqtt_enable_warn_output enabled s
      in (0, s))"

definition all_enable_all_output :: "bool \<Rightarrow> 'n glue icp \<Rightarrow> u8 \<times> 'n glue icp" where
  "all_enable_all_output enabled s =
     (let (_, s) = sys_enable_all_output enabled s;
          (_, s) = icp_enable_all_output enabled s;
          (_, s) = mqtt_enable_all_output enabled s
      in (0, s))"

definition all_enable_info_output :: "bool \<Rightarrow> 'n glue icp \<Rightarrow> u8 \<times> 'n glue icp" where
  "all_enable_info_output enabled s =
     (let (_, s) = sys_enable_info_output enabled s;
          (_, s) = icp_enable_info_output enabled s;
          (_, s) = mqtt_enable_info_output enabled s
      in (0, s))"

definition lookup_table :: "(string \<times> (bool \<Rightarrow> 'n glue icp \<Rightarrow> u8 \<times> 'n glue icp) \<times> bool) list" where
  "lookup_table =
   [(''set icp debug true'', icp_enable_debug_output, True),
    (''set icp debug false'', icp_enable_debug_output, False),
    (''set icp err true'', icp_enable_err_output, True),
    (''set icp err false'', icp_enable_err_output, False),
    (''set icp warn true'', icp_enable_warn_output, True),
    (''set icp warn false'', icp_enable_warn_output, False),
    (''set icp info true'', icp_enable_info_output, True),
    (''set icp info false'', icp_enable_info_output, False),
    (''set icp all true'', icp_enable_all_output, True),
    (''set icp all false'', icp_enable_all_output, False),
    (''set mqtt debug true'', mqtt_enable_debug_output, True),
    (''set mqtt debug false'', mqtt_enable_debug_output, False),
    (''set mqtt err true'', mqtt_enable_err_output, True),
    (''set mqtt err false'', mqtt_enable_err_output, False),
    (''set mqtt warn true'', mqtt_enable_warn_output, True),
    (''set mqtt warn false'', mqtt_enable_warn_output, False),
    (''set mqtt info true'', mqtt_enable_info_output, True),
    (''set mqtt info false'', mqtt_enable_info_output, False),
    (''set mqtt all true'', mqtt_enable_all_output, True),
    (''set mqtt all false'', mqtt_enable_all_output, False),
    (''set sys debug true'', sys_enable_debug_output, True),
    (''set sys debug false'', sys_enable_debug_output, False),
    (''set sys err true'', sys_enable_err_output, True),
    (''set sys err false'', sys_enable_err_output, False),
    (''set sys warn true'', sys_enable_warn_output, True),
    (''set sys warn false'', sys_enable_warn_output, False),
    (''set sys info true'', sys_enable_info_output, True),
    (''set sys info false'', sys_enable_info_output, False),
    (''set sys all true'', sys_enable_all_output, True),
    (''set sys all false'', sys_enable_all_output, False),
    (''set all debug true'', all_enable_debug_output, True),
    (''set all debug false'', all_enable_debug_output, False),
    (''set all err true'', all_enable_err_output, True),
    (''set all err false'', all_enable_err_output, False),
    (''set all warn true'', all_enable_warn_output, True),
    (''set all warn false'', all_enable_warn_output, False),
    (''set all info true'', all_enable_info_output, True),
    (''set all info false'', all_enable_info_output, False),
    (''set all all true'', all_enable_all_output, True),
    (''set all all false'', all_enable_all_output, False)]"

text \<open>
  The length of the payload, not of the command, is what is compared: a payload that is the
  beginning of a command selects it.
\<close>

fun interpret_rows :: "u8 list \<Rightarrow> (string \<times> (bool \<Rightarrow> 's \<Rightarrow> u8 \<times> 's) \<times> bool) list \<Rightarrow> 's \<Rightarrow> 's outcome" where
  "interpret_rows str [] s = Done s"
| "interpret_rows str ((cmd, fn, user_data) # rows) s =
     obind (strncmp_eq str (ascii cmd @ [0]) (length str)) (\<lambda>b.
       if b then Done (snd (fn user_data s)) else interpret_rows str rows s)"

text \<open>The trace at the start prints the payload as a string, which needs a terminator.\<close>

definition Interpreter :: "u8 list \<Rightarrow> 'n glue icp \<Rightarrow> 'n glue icp outcome" where
  "Interpreter str s =
     check (g_sys_enable_debug_output (env s) \<longrightarrow> 0 \<in> set str) (interpret_rows str lookup_table s)"

section \<open>The handlers of the client\<close>

text \<open>\<open>exit\<close> ends the process: the call does not return.\<close>

definition onSend :: "'n glue icp \<Rightarrow> 'n glue icp" where
  "onSend s = glue_do (\<lambda>g. g\<lparr>sent := True\<rparr>) s"

definition sendmsg :: "'n world \<Rightarrow> u8 list \<Rightarrow> u8 list \<Rightarrow> 'n glue icp \<Rightarrow> (int \<times> 'n glue icp) outcome" where
  "sendmsg W topicName message s =
     (let (rc, n) = async_send W topicName message QOS (net (env s));
          s = glue_do (\<lambda>g. g\<lparr>sent := False, net := n, published := (topicName, message) # published g\<rparr>) s in
      if rc \<noteq> ASYNC_SUCCESS then Stuck else Done (1, s))"

definition onSubscribe :: "'n glue icp \<Rightarrow> 'n glue icp" where
  "onSubscribe s = glue_do (\<lambda>g. g\<lparr>subscribed := subscribed g + 1\<rparr>) s"

definition onSubscribeFailure :: "'n glue icp \<Rightarrow> 'n glue icp" where
  "onSubscribeFailure s = glue_do (\<lambda>g. g\<lparr>finished := True\<rparr>) s"

definition subscribe :: "'n world \<Rightarrow> u8 list \<Rightarrow> 'n glue icp \<Rightarrow> 'n glue icp outcome" where
  "subscribe W topic s =
     (let (rc, n) = async_subscribe W topic QOS (net (env s)); s = glue_do (\<lambda>g. g\<lparr>net := n\<rparr>) s in
      if rc \<noteq> ASYNC_SUCCESS then Stuck else Done s)"

definition onConnect :: "'n glue icp \<Rightarrow> 'n glue icp" where
  "onConnect s = glue_do (\<lambda>g. g\<lparr>connected := True\<rparr>) s"

definition onConnectFailure :: "'n glue icp \<Rightarrow> 'n glue icp" where
  "onConnectFailure s = glue_do (\<lambda>g. g\<lparr>finished := True\<rparr>) s"

definition onDisconnect :: "'n glue icp \<Rightarrow> 'n glue icp" where
  "onDisconnect s = glue_do (\<lambda>g. g\<lparr>connected := False\<rparr>) s"

definition connlost :: "'n world \<Rightarrow> 'n glue icp \<Rightarrow> 'n glue icp" where
  "connlost W s =
     (let (rc, n) = async_connect W (net (env s)) in
      glue_do (\<lambda>g. g\<lparr>net := n, finished := (if rc \<noteq> ASYNC_SUCCESS then True else finished g), connected := True\<rparr>) s)"

section \<open>A message arrives at a node\<close>

definition active_by :: "mac_addr \<Rightarrow> u8 list" where
  "active_by m = ascii (''ACTIVE by '' @ mac_addrs m)"

definition access_message :: "'n glue icp_callbacks \<Rightarrow> u8 list \<Rightarrow> 'n glue icp \<Rightarrow> 'n glue icp outcome" where
  "access_message cbs message s =
     obind (text_is message ''ACTIVE'') (\<lambda>active.
       if active \<and> line_is_mine (env s) = 0
       then let str = active_by (local_mac_addr s); s = glue_do (\<lambda>g. g\<lparr>g_access := ACTIVE\<rparr>) s in
            obind (strncmp_eq message (str @ [0]) (length str)) (\<lambda>mine.
              if mine then Done (glue_do (\<lambda>g. g\<lparr>line_is_mine := 1\<rparr>) s)
              else obind (icp_notify_acces_active cbs s) (\<lambda>(_, s). Done s))
       else obind (text_is message ''INACTIVE'') (\<lambda>inactive.
              if inactive
              then obind (icp_notify_acces_inactive cbs (glue_do (\<lambda>g. g\<lparr>g_access := INACTIVE\<rparr>) s)) (\<lambda>(_, s).
                     Done (glue_do (\<lambda>g. g\<lparr>line_is_mine := 0\<rparr>) s))
              else Done s))"

definition shudup_message :: "u8 list \<Rightarrow> 'n glue icp \<Rightarrow> 'n glue icp outcome" where
  "shudup_message message s = dispatch message
     [(''ACTIVE'', Done (glue_do (\<lambda>g. g\<lparr>g_shudup := ACTIVE\<rparr>) s)),
      (''INACTIVE'', Done (glue_do (\<lambda>g. g\<lparr>g_shudup := INACTIVE\<rparr>) s))] (Done s)"

text \<open>The copy into \<open>payload_in\<close> does not test the length.\<close>

definition rs485_message :: "u8 list \<Rightarrow> 'n glue icp \<Rightarrow> 'n glue icp outcome" where
  "rs485_message message s =
     check (length message \<le> ICP_MAX_PACKET_LENGTH)
       (Done (glue_do (\<lambda>g. g\<lparr>payload_in_len := of_nat (length message),
          payload_in := (\<lambda>i. if i < length message then message ! i else payload_in g i), bytes_in := True\<rparr>) s))"

text \<open>What is sent when the text is no command: the first letters choose the destination.\<close>

definition ping :: "mac_addr \<Rightarrow> 'n glue icp \<Rightarrow> 'n glue icp outcome" where
  "ping destination_mac s =
     (let str = ascii (''PING to '' @ mac_addrs destination_mac @ '' from '' @ mac_addrs (local_mac_addr s)) in
      obind (icp_send_data destination_mac (Some str) (of_nat (length str)) s) (\<lambda>(_, s). Done s))"

definition command_message :: "'n world \<Rightarrow> u8 list \<Rightarrow> 'n glue icp \<Rightarrow> 'n glue icp outcome" where
  "command_message W message s = dispatch message
     [(''time'', Done s),
      (''update'', Done (glue_do (\<lambda>g. g\<lparr>update_now := True\<rparr>) s)),
      (''sync'', Done (glue_do (\<lambda>g. g\<lparr>net := sync_clock W (net g)\<rparr>) s)),
      (''reset'', Done (glue_do (\<lambda>g. g\<lparr>reset_flag := True, g_access := INACTIVE, g_shudup := INACTIVE,
         line_is_mine := 0, bytes_in := False\<rparr>) s)),
      (''stopupdate'', Done (glue_do (\<lambda>g. g\<lparr>update_now := False\<rparr>) s)),
      (''set'', Interpreter message s),
      (''clean'', Done s),
      (''pc'', ping NODE_PC s),
      (''eps'', ping NODE_EPS s),
      (''cam'', ping NODE_CAM s),
      (''cdhs'', ping NODE_CDHS s)] (ping BROADCAST s)"

definition msgarrvd ::
    "'n world \<Rightarrow> 'n glue icp_callbacks \<Rightarrow> u8 list \<Rightarrow> u8 list \<Rightarrow> 'n glue icp \<Rightarrow> (int \<times> 'n glue icp) outcome" where
  "msgarrvd W cbs topicName message s =
     obind (case topic_of topicName of
         TOPIC_TEST \<Rightarrow> Done s
       | TOPIC_PRIM_ACCESS \<Rightarrow> access_message cbs message s
       | TOPIC_PRIM_GPINTL \<Rightarrow> Done s
       | TOPIC_PRIM_SHUDUP \<Rightarrow> shudup_message message s
       | TOPIC_PRIM_RS485 \<Rightarrow> rs485_message message s
       | TOPIC_SEC_RS485 \<Rightarrow> rs485_message message s
       | _ \<Rightarrow> command_message W message s) (\<lambda>s. Done (1, s))"

section \<open>A message arrives at the bus\<close>

text \<open>
  The same function in a build for the bus.  \<open>strcpy\<close> reads the payload up to a terminator and
  writes it, with the terminator, into 64 bytes.
\<close>

definition strcpy_text :: "nat \<Rightarrow> u8 list \<Rightarrow> u8 list outcome" where
  "strcpy_text room mem =
     (let str = takeWhile (\<lambda>b. b \<noteq> 0) mem in check (length str < length mem \<and> length str < room) (Done str))"

definition bus_line ::
    "('n glue \<Rightarrow> u8) \<Rightarrow> (u8 \<Rightarrow> 'n glue \<Rightarrow> 'n glue) \<Rightarrow> topic_id \<Rightarrow> u8 list \<Rightarrow> 'n glue icp \<Rightarrow> 'n glue icp outcome" where
  "bus_line line set_line topic message s =
     (let forward = (\<lambda>s. obind (strcpy_text 64 message) (\<lambda>str.
            Done (glue_do (\<lambda>g. g\<lparr>payload_text := str, payload_len := of_nat (length message),
              line_is_mine := topic_num topic, update_now := True\<rparr>) s))) in
      obind (text_is message ''ACTIVE'') (\<lambda>active.
        if active \<and> line (env s) \<noteq> ACTIVE then forward (glue_do (set_line ACTIVE) s)
        else obind (text_is message ''INACTIVE'') (\<lambda>inactive.
               if inactive then forward (glue_do (set_line INACTIVE) s) else Done s)))"

definition bus_msgarrvd :: "'n world \<Rightarrow> u8 list \<Rightarrow> u8 list \<Rightarrow> 'n glue icp \<Rightarrow> (int \<times> 'n glue icp) outcome" where
  "bus_msgarrvd W topicName message s =
     obind (case topic_of topicName of
         TOPIC_TEST \<Rightarrow> Done s
       | TOPIC_PRIM_ACCESS_OUT \<Rightarrow> bus_line g_access (\<lambda>v g. g\<lparr>g_access := v\<rparr>) TOPIC_PRIM_ACCESS message s
       | TOPIC_PRIM_GPINTL_OUT \<Rightarrow> bus_line g_gpintl (\<lambda>v g. g\<lparr>g_gpintl := v\<rparr>) TOPIC_PRIM_GPINTL message s
       | TOPIC_PRIM_SHUDUP_OUT \<Rightarrow> bus_line g_shudup (\<lambda>v g. g\<lparr>g_shudup := v\<rparr>) TOPIC_PRIM_SHUDUP message s
       | _ \<Rightarrow> dispatch message
           [(''reset'', Done (glue_do (\<lambda>g. g\<lparr>g_access := INACTIVE, g_shudup := INACTIVE, g_gpintl := INACTIVE\<rparr>) s)),
            (''set'', Interpreter message s),
            (''time'', Done s),
            (''sync'', Done (glue_do (\<lambda>g. g\<lparr>net := sync_clock W (net g)\<rparr>) s)),
            (''clean'', Done s)] (Done s)) (\<lambda>s. Done (1, s))"

end
