(* ===== verification/Node_Main.thy ===== *)
theory Node_Main
  imports Node_Glue
begin

text \<open>
  A node of the simulator, \<^verbatim>\<open>subsystem_simulator/source/main.c\<close>: the callbacks it registers with the
  ICP library, which publish on the broker and wait for its answers, and the main loop.  The threads of
  the MQTT client run while the main thread waits: in each turn of a waiting loop the calls of
  \<open>turn_events\<close> are made one after the other.  A loop that waits for an answer that never comes does
  not return (\<open>Stuck\<close>).
\<close>

section \<open>The other threads\<close>

text \<open>
  The callbacks that the handlers of messages can reach: \<open>icp_notify_acces_active\<close> and
  \<open>icp_notify_acces_inactive\<close> ask for the line and report the acknowledgement.
\<close>

definition icp_get_access_sig_cb :: "'n glue icp \<Rightarrow> (u8 \<times> 'n glue icp) outcome" where
  "icp_get_access_sig_cb s = Done (g_access (env s), s)"

definition icp_notify_packet_ack_cb :: "'n glue icp \<Rightarrow> (u8 \<times> 'n glue icp) outcome" where
  "icp_notify_packet_ack_cb s = Done (ICP_SUCCESS, s)"

definition no_callbacks :: "'w icp_callbacks" where
  "no_callbacks = \<lparr>bytes_out_cb = None, packet_received_cb = None, get_time_cb = None, notify_packet_ack_cb = None,
     set_access_sig_cb = None, clear_access_sig_cb = None, get_access_sig_cb = None, set_shudup_sig_cb = None,
     clear_shudup_sig_cb = None, get_shudup_sig_cb = None, error_cb_set = False, notify_wrong_recipient_cb = None\<rparr>"

definition line_callbacks :: "'n glue icp_callbacks" where
  "line_callbacks = no_callbacks\<lparr>get_access_sig_cb := Some icp_get_access_sig_cb,
     notify_packet_ack_cb := Some icp_notify_packet_ack_cb\<rparr>"

definition handle_event :: "'n world \<Rightarrow> event \<Rightarrow> 'n glue icp \<Rightarrow> 'n glue icp outcome" where
  "handle_event W ev s = (case ev of
       Delivery_confirmed \<Rightarrow> Done (onSend s)
     | Subscribe_ok \<Rightarrow> Done (onSubscribe s)
     | Subscribe_failed \<Rightarrow> Done (onSubscribeFailure s)
     | Connect_ok \<Rightarrow> Done (onConnect s)
     | Connect_failed \<Rightarrow> Done (onConnectFailure s)
     | Disconnect_ok \<Rightarrow> Done (onDisconnect s)
     | Connection_lost \<Rightarrow> Done (connlost W s)
     | Message_arrived topic message \<Rightarrow> obind (msgarrvd W line_callbacks topic message s) (\<lambda>(_, s). Done s))"

primrec handle_events :: "'n world \<Rightarrow> event list \<Rightarrow> 'n glue icp \<Rightarrow> 'n glue icp outcome" where
  "handle_events W [] s = Done s"
| "handle_events W (ev # evs) s = obind (handle_event W ev s) (handle_events W evs)"

definition turn :: "'n world \<Rightarrow> 'n glue icp \<Rightarrow> 'n glue icp outcome" where
  "turn W s = (let (evs, n) = turn_events W (net (env s)) in handle_events W evs (glue_do (\<lambda>g. g\<lparr>net := n\<rparr>) s))"

text \<open>\<open>while (!p);\<close>\<close>

partial_function (option) wait_loop ::
    "'n world \<Rightarrow> ('n glue icp \<Rightarrow> bool) \<Rightarrow> 'n glue icp \<Rightarrow> 'n glue icp outcome option" where
  "wait_loop W p s =
     (if p s then Some (Done s)
      else case turn W s of Done s \<Rightarrow> wait_loop W p s | Stuck \<Rightarrow> Some Stuck | Fault \<Rightarrow> Some Fault)"

definition wait_until :: "'n world \<Rightarrow> ('n glue icp \<Rightarrow> bool) \<Rightarrow> 'n glue icp \<Rightarrow> 'n glue icp outcome" where
  "wait_until W p s = (case wait_loop W p s of None \<Rightarrow> Stuck | Some r \<Rightarrow> r)"

section \<open>The callbacks\<close>

text \<open>
  \<open>print_packet\<close> reads the names of both nodes and one byte more than the announced length; the packet
  is added to \<open>printed\<close>.
\<close>

definition print_packet :: "icp_packet \<Rightarrow> 'n glue icp \<Rightarrow> (u8 \<times> 'n glue icp) outcome" where
  "print_packet p s =
     check (destination p < mac_num NUM_OF_NODES \<and> source p < mac_num NUM_OF_NODES
            \<and> (case data p of None \<Rightarrow> False | Some d \<Rightarrow> unat (data_length p) + 1 \<le> length d))
       (Done (0, glue_do (\<lambda>g. g\<lparr>printed := p # printed g\<rparr>) s))"

definition icp_packet_received_cb :: "icp_packet \<Rightarrow> 'n glue icp \<Rightarrow> (u8 \<times> 'n glue icp) outcome" where
  "icp_packet_received_cb new_packet s = obind (print_packet new_packet s) (\<lambda>(_, s). Done (0, s))"

text \<open>At most ten turns for the line.\<close>

fun wait_line :: "nat \<Rightarrow> 'n world \<Rightarrow> 'n glue icp \<Rightarrow> 'n glue icp outcome" where
  "wait_line 0 W s = Done s"
| "wait_line (Suc k) W s =
     (if g_access (env s) \<noteq> INACTIVE then Done s else obind (turn W s) (wait_line k W))"

definition icp_set_access_sig_cb :: "'n world \<Rightarrow> 'n glue icp \<Rightarrow> (u8 \<times> 'n glue icp) outcome" where
  "icp_set_access_sig_cb W s =
     obind (sendmsg W (topic_names TOPIC_PRIM_ACCESS_OUT) (active_by (local_mac_addr s)) s) (\<lambda>(_, s).
     obind (wait_line 10 W s) (\<lambda>s.
       Done (if line_is_mine (env s) \<noteq> 0 then ICP_SUCCESS else ICP_BUSY, s)))"

definition inactive_by :: "mac_addr \<Rightarrow> u8 list" where
  "inactive_by m = ascii (''INACTIVE  by '' @ mac_addrs m)"

definition icp_clear_access_sig_cb :: "'n world \<Rightarrow> 'n glue icp \<Rightarrow> (u8 \<times> 'n glue icp) outcome" where
  "icp_clear_access_sig_cb W s =
     obind (sendmsg W (topic_names TOPIC_PRIM_ACCESS_OUT) (inactive_by (local_mac_addr s)) s) (\<lambda>(_, s).
     obind (wait_until W (\<lambda>s. g_access (env s) \<noteq> ACTIVE) s) (\<lambda>s. Done (ICP_SUCCESS, s)))"

text \<open>\<open>icp_notify_bytes_out_finished\<close> can give the line back and calls nothing else.\<close>

definition finish_callbacks :: "'n world \<Rightarrow> 'n glue icp_callbacks" where
  "finish_callbacks W = line_callbacks\<lparr>clear_access_sig_cb := Some (icp_clear_access_sig_cb W)\<rparr>"

text \<open>An empty array is reported and sent all the same: \<open>ICP_CHECK_WARN\<close> does not leave the function.\<close>

definition icp_bytes_out_cb :: "'n world \<Rightarrow> u8 list \<Rightarrow> u16 \<Rightarrow> 'n glue icp \<Rightarrow> (u8 \<times> 'n glue icp) outcome" where
  "icp_bytes_out_cb W output_byte_array array_len s =
     (let s = glue_do (\<lambda>g. g\<lparr>sent := False\<rparr>) s in
      check (unat array_len \<le> length output_byte_array)
        (obind (sendmsg W (topic_names TOPIC_PRIM_RS485) (take (unat array_len) output_byte_array) s) (\<lambda>(_, s).
         obind (wait_until W (\<lambda>s. sent (env s)) s) (\<lambda>s.
         obind (icp_notify_bytes_out_finished (finish_callbacks W) s) (\<lambda>(_, s).
           Done (ucast array_len, s))))))"

text \<open>The time callback that is registered last; the constant \<open>icp_get_time_cb\<close> before it is replaced.\<close>

definition gettime :: "'n world \<Rightarrow> 'n glue icp \<Rightarrow> (u16 \<times> 'n glue icp) outcome" where
  "gettime W s = (let (t, n) = read_clock W (net (env s)) in Done (t, glue_do (\<lambda>g. g\<lparr>net := n\<rparr>) s))"

definition icp_listen_for_ack_cb :: "bool \<Rightarrow> 'n glue icp \<Rightarrow> u8 \<times> 'n glue icp" where
  "icp_listen_for_ack_cb enable s = (ICP_SUCCESS, glue_do (\<lambda>g. g\<lparr>listen_for_ack := enable\<rparr>) s)"

definition icp_set_shudup_sig_cb :: "'n glue icp \<Rightarrow> (u8 \<times> 'n glue icp) outcome" where
  "icp_set_shudup_sig_cb s = Done (ICP_SUCCESS, s)"

definition icp_clear_shudup_sig_cb :: "'n glue icp \<Rightarrow> (u8 \<times> 'n glue icp) outcome" where
  "icp_clear_shudup_sig_cb s = Done (ICP_SUCCESS, s)"

definition icp_get_shudup_sig_cb :: "'n glue icp \<Rightarrow> (u8 \<times> 'n glue icp) outcome" where
  "icp_get_shudup_sig_cb s = Done (INACTIVE, s)"

definition node_callbacks :: "'n world \<Rightarrow> 'n glue icp_callbacks" where
  "node_callbacks W = (finish_callbacks W)\<lparr>
     bytes_out_cb := Some (icp_bytes_out_cb W), packet_received_cb := Some icp_packet_received_cb,
     error_cb_set := True, get_time_cb := Some (gettime W), set_access_sig_cb := Some (icp_set_access_sig_cb W),
     set_shudup_sig_cb := Some icp_set_shudup_sig_cb, clear_shudup_sig_cb := Some icp_clear_shudup_sig_cb,
     get_shudup_sig_cb := Some icp_get_shudup_sig_cb\<rparr>"

section \<open>The main loop\<close>

definition node_topics :: "mac_addr \<Rightarrow> u8 list list" where
  "node_topics m = map topic_names
     [TOPIC_TEST, TOPIC_PRIM_ACCESS, TOPIC_PRIM_GPINTL, TOPIC_PRIM_SHUDUP, TOPIC_PRIM_RS485, TOPIC_SEC_ACCESS,
      TOPIC_SEC_GPINTL, TOPIC_SEC_SHUDUP, TOPIC_SEC_RS485, TOPIC_SIMULATOR_BASE]
     @ [topic_names TOPIC_SIMULATOR_BASE @ ascii (mac_addrs m)]"

primrec subscribe_all :: "'n world \<Rightarrow> u8 list list \<Rightarrow> 'n glue icp \<Rightarrow> 'n glue icp outcome" where
  "subscribe_all W [] s = Done s"
| "subscribe_all W (t # ts) s = obind (subscribe W t s) (subscribe_all W ts)"

text \<open>
  Up to the label \<open>reset\<close>: connecting, waiting, subscribing, waiting.  The result says whether the
  program goes on or leaves through the label \<open>exit\<close>.
\<close>

definition node_start :: "'n world \<Rightarrow> 'n glue icp \<Rightarrow> (bool \<times> 'n glue icp) outcome" where
  "node_start W s =
     (let (rc, n) = async_connect W (net (env s)); s = glue_do (\<lambda>g. g\<lparr>net := n\<rparr>) s in
      if rc \<noteq> ASYNC_SUCCESS then Stuck
      else obind (wait_until W (\<lambda>s. connected (env s)) s) (\<lambda>s.
           obind (subscribe_all W (node_topics (local_mac_addr s)) s) (\<lambda>s.
           obind (wait_until W (\<lambda>s. subscribed (env s) = 11) s) (\<lambda>s.
             if finished (env s) then Done (False, s)
             else let (_, s) = mqtt_enable_debug_output False s;
                      (_, s) = icp_enable_debug_output True s;
                      (_, s) = sys_enable_debug_output True s
                  in Done (True, s)))))"

text \<open>
  From the label \<open>reset\<close> to the main loop; \<open>rx\<close> and \<open>tx\<close> are the blocks that the allocator returns to
  \<open>icp_init\<close>.
\<close>

definition node_reset :: "'n world \<Rightarrow> u8 list option \<Rightarrow> u8 list option \<Rightarrow> 'n glue icp \<Rightarrow> (bool \<times> 'n glue icp) outcome" where
  "node_reset W rx tx s =
     obind (icp_init_conf_struct False True s) (\<lambda>(_, _, s).
     obind (icp_init False (node_callbacks W) rx tx s) (\<lambda>(rc, _, s). Done (rc = ICP_SUCCESS, s)))"

text \<open>
  One turn of the main loop, the second at its end included.  The result says whether the loop goes
  on; a reset runs the code from the label with the next two blocks.
\<close>

definition node_bytes_in :: "'n world \<Rightarrow> 'n glue icp \<Rightarrow> 'n glue icp outcome" where
  "node_bytes_in W s =
     (if bytes_in (env s)
      then let s = glue_do (\<lambda>g. g\<lparr>bytes_in := False\<rparr>) s; g = env s in
           obind (icp_bytes_in (node_callbacks W) (map (payload_in g) [0..<ICP_MAX_PACKET_LENGTH]) (payload_in_len g) s)
             (\<lambda>(_, s). Done s)
      else Done s)"

definition node_update :: "'n world \<Rightarrow> 'n glue icp \<Rightarrow> 'n glue icp outcome" where
  "node_update W s =
     (if update_now (env s)
      then obind (icp_update (node_callbacks W) s) (\<lambda>(_, s). Done (glue_do (\<lambda>g. g\<lparr>update_now := False\<rparr>) s))
      else Done s)"

definition node_turn :: "'n world \<Rightarrow> u8 list option \<Rightarrow> u8 list option \<Rightarrow> 'n glue icp \<Rightarrow> (bool \<times> 'n glue icp) outcome" where
  "node_turn W rx tx s =
     obind (node_bytes_in W s) (\<lambda>s.
     obind (node_update W s) (\<lambda>s.
       if reset_flag (env s) then node_reset W rx tx (glue_do (\<lambda>g. g\<lparr>reset_flag := False\<rparr>) s)
       else obind (turn W s) (\<lambda>s. Done (True, s))))"

text \<open>The main loop for as many turns as there are pairs of blocks.\<close>

fun node_loop :: "'n world \<Rightarrow> (u8 list option \<times> u8 list option) list \<Rightarrow> 'n glue icp \<Rightarrow> (bool \<times> 'n glue icp) outcome" where
  "node_loop W [] s = Done (True, s)"
| "node_loop W ((rx, tx) # mems) s =
     obind (node_turn W rx tx s) (\<lambda>(goes_on, s). if goes_on then node_loop W mems s else Done (False, s))"

definition node_main ::
    "'n world \<Rightarrow> u8 list option \<Rightarrow> u8 list option \<Rightarrow> (u8 list option \<times> u8 list option) list \<Rightarrow> 'n glue icp
      \<Rightarrow> (bool \<times> 'n glue icp) outcome" where
  "node_main W rx tx mems s =
     obind (node_start W s) (\<lambda>(goes_on, s).
       if \<not> goes_on then Done (False, s)
       else obind (node_reset W rx tx s) (\<lambda>(goes_on, s).
         if \<not> goes_on then Done (False, s) else node_loop W mems s))"

end
