(* ===== verification/Node_Safety.thy ===== *)
theory Node_Safety
  imports Node_Main
begin

text \<open>
  Memory safety of a node.  A message is \<open>sound\<close> when the comparisons made on it stop before its end,
  the text of a \<open>set\<close> command, which is traced as a string, has a terminator, and a frame fits into the receive array; on a broker that delivers only such messages the callbacks
  of the node satisfy the contract of the ICP library, and the main loop runs without a fault.
\<close>

section \<open>Comparisons\<close>

text \<open>The text ends before the comparison with \<open>word\<close> is decided.\<close>

definition cut_off :: "u8 list \<Rightarrow> u8 list \<Rightarrow> bool" where
  "cut_off mem word \<longleftrightarrow> length mem < length word \<and> mem = take (length mem) word"

definition begins_with :: "u8 list \<Rightarrow> u8 list \<Rightarrow> bool" where
  "begins_with mem word \<longleftrightarrow> take (length word) mem = word"

lemma cut_off_simps [simp]:
  "cut_off [] (l # word)" "\<not> cut_off mem []" "cut_off (c # mem) (l # word) \<longleftrightarrow> c = l \<and> cut_off mem word"
  by (auto simp: cut_off_def)

lemma begins_with_simps [simp]:
  "begins_with mem []" "\<not> begins_with [] (l # word)"
  "begins_with (c # mem) (l # word) \<longleftrightarrow> c = l \<and> begins_with mem word"
  by (auto simp: begins_with_def)

lemma strncmp_word:
  "0 \<notin> set word \<Longrightarrow> strncmp_eq mem (word @ [0]) (length word) =
     (if cut_off mem word then Fault else Done (begins_with mem word))"
proof (induction word arbitrary: mem)
  case (Cons l word)
  then show ?case
    by (cases mem) auto
qed simp

lemma strncmp_whole:
  "\<exists>b. strncmp_eq mem (word @ [0]) (length mem) = Done b \<and> (0 \<notin> set mem \<longrightarrow> b = begins_with word mem)"
proof (induction mem arbitrary: word)
  case (Cons c mem)
  then show ?case
    by (cases word) (auto simp: ex_bool_eq)
qed (simp add: ex_bool_eq)

definition plain :: "string \<Rightarrow> bool" where
  "plain s \<longleftrightarrow> (\<forall>c \<in> set s. of_char c \<noteq> (0 :: u8))"

lemma plain_ascii: "plain s \<Longrightarrow> 0 \<notin> set (ascii s)"
  by (auto simp: plain_def ascii_def)

lemma plain_append [simp]: "plain (s @ t) \<longleftrightarrow> plain s \<and> plain t"
  by (auto simp: plain_def)

lemma plain_mac [simp]: "plain (mac_addrs m)"
  by (cases m) (simp_all add: plain_def)

lemma text_is_word:
  "plain word \<Longrightarrow> text_is mem word =
     (if cut_off mem (ascii word) then Fault else Done (begins_with mem (ascii word)))"
  using strncmp_word [OF plain_ascii, of word mem] by (simp add: text_is_def)

section \<open>Sound messages\<close>

definition command_words :: "string list" where
  "command_words = [''time'', ''update'', ''sync'', ''reset'', ''stopupdate'', ''set'', ''clean'', ''pc'', ''eps'', ''cam'', ''cdhs'']"

definition sound_message :: "u8 list \<Rightarrow> u8 list \<Rightarrow> bool" where
  "sound_message topicName message \<longleftrightarrow>
     (case topic_of topicName of
        TOPIC_TEST \<Rightarrow> True
      | TOPIC_PRIM_ACCESS \<Rightarrow> (\<forall>m. \<not> cut_off message (active_by m)) \<and> \<not> cut_off message (ascii ''INACTIVE'')
      | TOPIC_PRIM_GPINTL \<Rightarrow> True
      | TOPIC_PRIM_SHUDUP \<Rightarrow> \<not> cut_off message (ascii ''ACTIVE'') \<and> \<not> cut_off message (ascii ''INACTIVE'')
      | TOPIC_PRIM_RS485 \<Rightarrow> length message \<le> ICP_MAX_PACKET_LENGTH
      | TOPIC_SEC_RS485 \<Rightarrow> length message \<le> ICP_MAX_PACKET_LENGTH
      | _ \<Rightarrow> (\<forall>w \<in> set command_words. \<not> cut_off message (ascii w))
          \<and> (begins_with message (ascii ''set'') \<longrightarrow> 0 \<in> set message))"

definition sound_event :: "event \<Rightarrow> bool" where
  "sound_event ev = (case ev of Message_arrived topic message \<Rightarrow> sound_message topic message | _ \<Rightarrow> True)"

definition sound_world :: "'n world \<Rightarrow> bool" where
  "sound_world W \<longleftrightarrow> (\<forall>n. list_all sound_event (fst (turn_events W n)))"

section \<open>What the other threads keep\<close>

text \<open>
  The receive array holds what its length says.  \<open>on_line s t\<close>: the state is well formed, and a
  transmit window that was open is open.
\<close>

definition fits :: "'n glue \<Rightarrow> bool" where
  "fits g \<longleftrightarrow> unat (payload_in_len g) \<le> ICP_MAX_PACKET_LENGTH"

definition node_ok :: "'n glue icp \<Rightarrow> bool" where
  "node_ok s \<longleftrightarrow> good fits s"

definition on_line :: "'n glue icp \<Rightarrow> 'n glue icp \<Rightarrow> bool" where
  "on_line s t \<longleftrightarrow> node_ok t \<and> (window_open s \<longrightarrow> window_open t)"

lemma env_glue [simp]: "env (glue_do f s) = f (env s)" "local_mac_addr (glue_do f s) = local_mac_addr s"
  "icp_inv (glue_do f s) = icp_inv s" "window_open (glue_do f s) = window_open s"
  by (simp_all add: glue_do_def icp_inv_def window_open_def)

lemma node_ok_glue [simp]: "payload_in_len (f (env s)) = payload_in_len (env s) \<Longrightarrow> node_ok (glue_do f s) = node_ok s"
  by (simp add: node_ok_def fits_def)

lemma on_line_glue [simp]:
  "payload_in_len (f (env t)) = payload_in_len (env t) \<Longrightarrow> on_line s (glue_do f t) = on_line s t"
  "on_line (glue_do f s) = on_line s"
  by (simp_all add: on_line_def fun_eq_iff)

lemma on_line_refl: "node_ok s \<Longrightarrow> on_line s s"
  by (simp add: on_line_def)

lemma on_line_trans: "on_line s t \<Longrightarrow> on_line t u \<Longrightarrow> on_line s u"
  by (simp add: on_line_def)

lemma on_line_inv: "on_line s t \<Longrightarrow> node_ok t"
  by (simp add: on_line_def)

lemma on_line_window:
  "icp_inv t \<Longrightarrow> fits (env t) \<Longrightarrow> tx_buf_start t = tx_buf_start s \<Longrightarrow> tx_buf_end t = tx_buf_end s \<Longrightarrow> on_line s t"
  by (simp add: on_line_def node_ok_def window_open_def)

lemma safe_bind_line:
  "safe (on_line s) m \<Longrightarrow> (\<And>t. on_line s t \<Longrightarrow> safe Q (f t)) \<Longrightarrow> safe Q (obind m f)"
  by (cases m) auto

lemma notify_active_line:
  "node_ok s \<Longrightarrow> safe (\<lambda>(_, t). on_line s t) (icp_notify_acces_active line_callbacks s)"
  by (auto simp: icp_notify_acces_active_def icp_calls line_callbacks_def icp_get_access_sig_cb_def node_ok_def Let_def
      intro!: on_line_window)

lemma notify_inactive_line:
  "node_ok s \<Longrightarrow> safe (\<lambda>(_, t). on_line s t) (icp_notify_acces_inactive line_callbacks s)"
  by (auto simp: icp_notify_acces_inactive_def icp_calls line_callbacks_def icp_get_access_sig_cb_def
      icp_notify_packet_ack_cb_def icp_flush_rx_buffer_def icp_inv_lengths BUFFER_LEN_pos Let_def no_callbacks_def node_ok_def
      intro!: on_line_window icp_inv_rx)

lemma on_line_switches [simp]:
  "on_line s (t\<lparr>g_icp_enable_debug_output := b\<rparr>) = on_line s t"
  "on_line s (t\<lparr>g_icp_enable_err_output := b\<rparr>) = on_line s t"
  "on_line s (t\<lparr>g_icp_enable_warn_output := b\<rparr>) = on_line s t"
  "on_line s (t\<lparr>g_icp_enable_info_output := b\<rparr>) = on_line s t"
  by (simp_all add: on_line_def node_ok_def window_open_def icp_inv_def)

lemma interpret_rows_line:
  "list_all (\<lambda>(cmd, fn, b). on_line s (snd (fn b s))) rows \<Longrightarrow> node_ok s \<Longrightarrow> safe (on_line s) (interpret_rows str rows s)"
proof (induction rows)
  case (Cons row rows)
  obtain cmd fn b where row: "row = (cmd, fn, b)"
    by (cases row)
  obtain eq where "strncmp_eq str (ascii cmd @ [0]) (length str) = Done eq"
    using strncmp_whole [of str "ascii cmd"] by blast
  then show ?case
    using Cons row by simp
qed (simp add: on_line_refl)

lemmas switch_defs = icp_enable_debug_output_def icp_enable_err_output_def icp_enable_warn_output_def
  icp_enable_info_output_def icp_enable_all_output_def mqtt_enable_debug_output_def mqtt_enable_err_output_def
  mqtt_enable_warn_output_def mqtt_enable_info_output_def mqtt_enable_all_output_def sys_enable_debug_output_def
  sys_enable_err_output_def sys_enable_warn_output_def sys_enable_info_output_def sys_enable_all_output_def
  all_enable_debug_output_def all_enable_err_output_def all_enable_warn_output_def all_enable_info_output_def
  all_enable_all_output_def

lemma Interpreter_line: "node_ok s \<Longrightarrow> 0 \<in> set str \<Longrightarrow> safe (on_line s) (Interpreter str s)"
  unfolding Interpreter_def by (intro safe_check interpret_rows_line) (simp_all add: lookup_table_def switch_defs on_line_refl)

lemma send_data_line:
  assumes "node_ok s" "mac_num d < mac_num NUM_OF_NODES" "ICP_MIN_PAYLOAD_LENGTH < length str"
    "length str \<le> ICP_MAX_PAYLOAD_LENGTH"
  shows "safe (\<lambda>(_, t). on_line s t) (icp_send_data d (Some str) (of_nat (length str)) s)"
proof -
  have u: "unat (of_nat (length str) :: u16) = length str"
    using assms(4) unfolding unat_of_nat by (simp add: icp_lengths)
  let ?p = "ICP_packet_initializer\<lparr>destination := mac_num d, data_length := of_nat (length str), data := Some str\<rparr>"
  have p: "packet_ok ?p" "unat (data_length ?p) \<le> ICP_MAX_PAYLOAD_LENGTH" "unat (data_length ?p) \<le> length str"
    using u assms(4) by (simp_all add: packet_ok_def)
  have "safe (\<lambda>_. True) (icp_debug_dump (Some ?p) s)"
    using p(1) assms(2) by (intro safe_debug_dump) auto
  moreover have "unat (of_nat (5 + length str) :: u16) = 5 + length str"
    using assms(4) unfolding unat_of_nat by (simp add: icp_lengths)
  then have "safe (\<lambda>(_, t). on_line s t) (icp_write_frame ?p str s)"
    using keeps_write_frame [of s fits, OF assms(1) [unfolded node_ok_def] p(2,3)] u
    unfolding icp_write_frame_eq_of_ok [OF conjunct1 [OF assms(1) [unfolded node_ok_def]] p(2,3)]
    by (simp add: on_line_def node_ok_def window_open_def)
  ultimately show ?thesis
    using p(2) u assms(2-4) by (cases "icp_debug_dump (Some ?p) s") (simp_all add: icp_send_data_def icp_send_packet_def)
qed

lemma ping_line:
  assumes "node_ok s" "mac_num d < mac_num NUM_OF_NODES"
  shows "safe (on_line s) (ping d s)"
proof -
  let ?str = "ascii (''PING to '' @ mac_addrs d @ '' from '' @ mac_addrs (local_mac_addr s))"
  have "ICP_MIN_PAYLOAD_LENGTH < length ?str" "length ?str \<le> ICP_MAX_PAYLOAD_LENGTH"
    by (cases d; cases "local_mac_addr s"; simp add: icp_lengths)+
  from send_data_line [OF assms this] show ?thesis
    unfolding ping_def Let_def by (cases "icp_send_data d (Some ?str) (of_nat (length ?str)) s") auto
qed

lemma dispatch_line:
  "list_all (\<lambda>(w, act). plain w \<and> \<not> cut_off mem (ascii w) \<and> (begins_with mem (ascii w) \<longrightarrow> safe Q act)) rows \<Longrightarrow> safe Q other \<Longrightarrow>
   safe Q (dispatch mem rows other)"
proof (induction rows)
  case (Cons row rows)
  then show ?case
    by (cases row) (simp add: text_is_word)
qed simp

lemma safe_bind_code: "safe (\<lambda>(_, t). Q t) m \<Longrightarrow> (\<And>r t. Q t \<Longrightarrow> safe R (f (r, t))) \<Longrightarrow> safe R (obind m f)"
  by (cases m) auto

lemma drop_code_line: "safe (\<lambda>(_, t). Q t) m \<Longrightarrow> (\<And>t. Q t \<Longrightarrow> safe R (f t)) \<Longrightarrow> safe R (obind m (\<lambda>(_, t). f t))"
  by (cases m) auto

lemma plain_words:
  "plain ''ACTIVE''" "plain ''INACTIVE''" "list_all plain command_words" "plain ''ACTIVE by ''"
  by (simp_all add: plain_def command_words_def)

lemma cut_off_append: "cut_off mem word \<Longrightarrow> cut_off mem (word @ rest)"
  by (simp add: cut_off_def)

lemma cut_off_active: "cut_off mem (ascii ''ACTIVE'') \<Longrightarrow> cut_off mem (active_by m)"
  using cut_off_append [of mem "ascii ''ACTIVE''" "ascii ('' by '' @ mac_addrs m)"] by (simp add: active_by_def ascii_def)

lemma access_message_line:
  assumes "node_ok s" "\<forall>m. \<not> cut_off message (active_by m)" "\<not> cut_off message (ascii ''INACTIVE'')"
  shows "safe (on_line s) (access_message line_callbacks message s)"
proof -
  have "\<not> cut_off message (ascii ''ACTIVE'')"
    using assms(2) cut_off_active by blast
  moreover have "0 \<notin> set (active_by m)" for m
    using plain_ascii [OF plain_append [THEN iffD2, OF conjI [OF plain_words(4) plain_mac]]] unfolding active_by_def .
  ultimately show ?thesis
    using assms(2,3) plain_words strncmp_word [of "active_by (local_mac_addr s)" message]
      notify_active_line [of "glue_do (\<lambda>g. g\<lparr>g_access := ACTIVE\<rparr>) s"]
      notify_inactive_line [of "glue_do (\<lambda>g. g\<lparr>g_access := INACTIVE\<rparr>) s"] assms(1)
    by (auto simp: access_message_def text_is_word Let_def on_line_refl intro!: drop_code_line [where Q = "on_line s"])
qed

lemma command_message_line:
  assumes "node_ok s" "\<forall>w \<in> set command_words. \<not> cut_off message (ascii w)"
    "begins_with message (ascii ''set'') \<longrightarrow> 0 \<in> set message"
  shows "safe (on_line s) (command_message W message s)"
  unfolding command_message_def
  using assms plain_words(3) Interpreter_line [OF assms(1)] ping_line [OF assms(1)]
  by (intro dispatch_line) (simp_all add: command_words_def on_line_refl del: ascii_append)

lemma msgarrvd_line:
  assumes "node_ok s" "sound_message topicName message"
  shows "safe (\<lambda>(_, t). on_line s t) (msgarrvd W line_callbacks topicName message s)"
proof -
  have "safe (on_line s) (shudup_message message s)"
    if "\<not> cut_off message (ascii ''ACTIVE'')" "\<not> cut_off message (ascii ''INACTIVE'')"
    unfolding shudup_message_def by (rule dispatch_line) (use that plain_words assms(1) in \<open>simp_all add: on_line_refl\<close>)
  moreover have "safe (on_line s) (rs485_message message s)" if "length message \<le> ICP_MAX_PACKET_LENGTH"
    using that assms(1) by (simp add: rs485_message_def on_line_def node_ok_def fits_def unat_of_nat)
  ultimately have "safe (on_line s) (case topic_of topicName of
         TOPIC_TEST \<Rightarrow> Done s
       | TOPIC_PRIM_ACCESS \<Rightarrow> access_message line_callbacks message s
       | TOPIC_PRIM_GPINTL \<Rightarrow> Done s
       | TOPIC_PRIM_SHUDUP \<Rightarrow> shudup_message message s
       | TOPIC_PRIM_RS485 \<Rightarrow> rs485_message message s
       | TOPIC_SEC_RS485 \<Rightarrow> rs485_message message s
       | _ \<Rightarrow> command_message W message s)"
    using assms access_message_line [OF assms(1)] command_message_line [OF assms(1)]
    by (cases "topic_of topicName") (simp_all add: sound_message_def on_line_refl)
  then show ?thesis
    unfolding msgarrvd_def by (rule safe_bind_line) simp
qed

lemma handle_event_line:
  "node_ok s \<Longrightarrow> sound_event ev \<Longrightarrow> safe (on_line s) (handle_event W ev s)"
  by (cases ev) (auto simp: handle_event_def sound_event_def onSend_def onSubscribe_def onSubscribeFailure_def
      onConnect_def onConnectFailure_def onDisconnect_def connlost_def split_def on_line_refl Let_def
      intro!: drop_code_line [OF msgarrvd_line, unfolded split_def])

lemma handle_events_line:
  "node_ok s \<Longrightarrow> list_all sound_event evs \<Longrightarrow> safe (on_line s) (handle_events W evs s)"
proof (induction evs arbitrary: s)
  case (Cons ev evs)
  have "safe (on_line s) (handle_events W evs t)" if "on_line s t" for t
    using safe_mono [OF Cons.IH [OF on_line_inv [OF that]] on_line_trans [OF that]] Cons.prems(2) by simp
  then show ?case
    using handle_event_line [OF Cons.prems(1), of ev W] Cons.prems(2) by (auto intro!: safe_bind_line [where s = s])
qed (simp add: on_line_refl)

lemma turn_line: "sound_world W \<Longrightarrow> node_ok s \<Longrightarrow> safe (on_line s) (turn W s)"
  using handle_events_line [of "glue_do (\<lambda>g. g\<lparr>net := snd (turn_events W (net (env s)))\<rparr>) s" "fst (turn_events W (net (env s)))" W]
  by (simp add: turn_def split_def sound_world_def Let_def)

section \<open>Waiting\<close>

lemma wait_loop_line:
  assumes "wait_loop W p s = Some r" "sound_world W" "node_ok s"
  shows "safe (\<lambda>t. on_line s t \<and> p t) r"
proof -
  let ?P = "\<lambda>W p s r. sound_world W \<longrightarrow> node_ok s \<longrightarrow> safe (\<lambda>t. on_line s t \<and> p t) r"
  have "?P W p s r"
  proof (rule wait_loop.raw_induct [where P = ?P, OF _ assms(1)])
    fix loop and W :: "'a world" and p s r
    assume IH: "\<And>W p s r. loop W p s = Some r \<Longrightarrow> ?P W p s r"
      and body: "(if p s then Some (Done s)
        else case turn W s of Done s \<Rightarrow> loop W p s | Stuck \<Rightarrow> Some Stuck | Fault \<Rightarrow> Some Fault) = Some r"
    show "?P W p s r"
    proof (intro impI)
      assume W: "sound_world W" and s: "node_ok s"
      show "safe (\<lambda>t. on_line s t \<and> p t) r"
      proof (cases "p s")
        case True
        then show ?thesis
          using body s by (auto simp: on_line_refl)
      next
        case False
        show ?thesis
        proof (cases "turn W s")
          case (Done t)
          then have t: "on_line s t" "loop W p t = Some r"
            using turn_line [OF W s] body False by simp_all
          then have "safe (\<lambda>u. on_line t u \<and> p u) r"
            using IH [OF t(2)] W on_line_inv by blast
          then show ?thesis
            by (rule safe_mono) (use on_line_trans [OF t(1)] in blast)
        next
          case Stuck
          then show ?thesis
            using body False by auto
        next
          case Fault
          then show ?thesis
            using turn_line [OF W s] by simp
        qed
      qed
    qed
  qed
  then show ?thesis
    using assms(2,3) by blast
qed

lemma wait_until_line:
  "sound_world W \<Longrightarrow> node_ok s \<Longrightarrow> safe (\<lambda>t. on_line s t \<and> p t) (wait_until W p s)"
  using wait_loop_line [of W p s] by (cases "wait_loop W p s") (auto simp: wait_until_def)

lemma wait_line_line: "sound_world W \<Longrightarrow> node_ok s \<Longrightarrow> safe (on_line s) (wait_line k W s)"
proof (induction k W s rule: wait_line.induct)
  case (2 k W s)
  have "safe (on_line s) (wait_line k W t)" if "on_line s t" "g_access (env s) = INACTIVE" for t
    using safe_mono [OF 2(1) on_line_trans [OF that(1)]] 2(2) that on_line_inv [OF that(1)]
    by simp
  then show ?case
    using turn_line [OF 2(2,3)] 2(3) by (auto intro!: safe_bind_line [where s = s] simp: on_line_refl)
qed (simp add: on_line_refl)

section \<open>The callbacks\<close>

lemma sendmsg_line: "node_ok s \<Longrightarrow> safe (\<lambda>(_, t). on_line s t) (sendmsg W topicName message s)"
  by (simp add: sendmsg_def split_def on_line_refl Let_def)

lemma set_access_line:
  "sound_world W \<Longrightarrow> node_ok s \<Longrightarrow> safe (\<lambda>(_, t). on_line s t) (icp_set_access_sig_cb W s)"
  unfolding icp_set_access_sig_cb_def
  by (rule drop_code_line [OF sendmsg_line], assumption, rule safe_bind_line [where s = s])
    (auto intro: safe_mono [OF wait_line_line] on_line_trans dest: on_line_inv)

lemma clear_access_line:
  "sound_world W \<Longrightarrow> node_ok s \<Longrightarrow> safe (\<lambda>(_, t). on_line s t) (icp_clear_access_sig_cb W s)"
  unfolding icp_clear_access_sig_cb_def
  by (rule drop_code_line [OF sendmsg_line], assumption, rule safe_bind_line [where s = s])
    (auto intro: safe_mono [OF wait_until_line] on_line_trans dest: on_line_inv)


lemma bytes_out_finished_line:
  assumes "sound_world W" "node_ok s"
  shows "safe (\<lambda>(_, t). node_ok t) (icp_notify_bytes_out_finished (finish_callbacks W) s)"
proof -
  have "safe (\<lambda>(_, t). node_ok t) (obind (ICP_CLEAR_ACCESS_SIG (finish_callbacks W) s) (\<lambda>(r, s).
      if r \<noteq> ICP_SUCCESS then Done (0, s) else Done (0, s\<lparr>role := NO_ROLE\<rparr>)))"
    using clear_access_line [OF assms]
    by (auto simp: finish_callbacks_def icp_calls on_line_def node_ok_def intro!: safe_bind_code [where Q = "on_line s"])
  then show ?thesis
    using assms(2) by (auto simp: icp_notify_bytes_out_finished_def Let_def node_ok_def icp_inv_lengths BUFFER_LEN_def
        intro!: safe_check dest: icp_inv_lengths)
qed

lemma bytes_out_line:
  assumes "sound_world W" "node_ok s" "unat n \<le> length bytes"
  shows "safe (\<lambda>(_, t). node_ok t) (icp_bytes_out_cb W bytes n s)"
proof -
  let ?s = "glue_do (\<lambda>g. g\<lparr>sent := False\<rparr>) s"
  have "safe (\<lambda>(_, t). node_ok t) (obind (wait_until W (\<lambda>s. sent (env s)) t) (\<lambda>s.
         obind (icp_notify_bytes_out_finished (finish_callbacks W) s) (\<lambda>(_, s). Done (ucast n :: u8, s))))"
    if "on_line ?s t" for t
  proof (rule safe_bind_line [where s = t])
    show "safe (on_line t) (wait_until W (\<lambda>s. sent (env s)) t)"
      by (rule safe_mono [OF wait_until_line [OF assms(1) on_line_inv [OF that]]]) simp
    show "safe (\<lambda>(_, t). node_ok t)
        (obind (icp_notify_bytes_out_finished (finish_callbacks W) u) (\<lambda>(_, s). Done (ucast n :: u8, s)))"
      if "on_line t u" for u
      by (rule drop_code_line [OF bytes_out_finished_line [OF assms(1) on_line_inv [OF that]]]) simp
  qed
  moreover have "node_ok ?s"
    using assms(2) by simp
  note sendmsg_line [OF this, of W "topic_names TOPIC_PRIM_RS485" "take (unat n) bytes"]
  ultimately show ?thesis
    using assms(3) by (simp add: icp_bytes_out_cb_def Let_def drop_code_line [where Q = "on_line s"])
qed

text \<open>The callbacks of a node satisfy the contract of the library.\<close>

lemma node_platform: "sound_world W \<Longrightarrow> icp_platform (node_callbacks W) fits"
proof (unfold_locales, goal_cases)
  case (1 s n bytes)
  then show ?case
    using bytes_out_line [of W s n bytes] by (simp add: node_callbacks_def icp_calls node_ok_def)
next
  case (2 s)
  then show ?case
    by (simp add: node_callbacks_def icp_calls gettime_def split_def Let_def fits_def)
next
  case (3 s p)
  then show ?case
    by (auto simp: node_callbacks_def icp_calls icp_packet_received_cb_def print_packet_def delivered_ok_def fits_def
        intro!: safe_check split: option.splits)
next
  case (4 s)
  then show ?case
    using set_access_line [of W s] by (simp add: node_callbacks_def icp_calls node_ok_def on_line_def)
next
  case (5 s)
  then show ?case
    using clear_access_line [of W s]
    by (auto simp: node_callbacks_def finish_callbacks_def icp_calls node_ok_def on_line_def elim: safe_mono)
next
  case (6 s)
  then show ?case
    by (simp add: node_callbacks_def finish_callbacks_def line_callbacks_def icp_calls icp_get_access_sig_cb_def)
next
  case (7 s)
  then show ?case
    by (simp add: node_callbacks_def finish_callbacks_def line_callbacks_def icp_calls no_callbacks_def)
next
  case (8 s)
  then show ?case
    by (simp add: node_callbacks_def finish_callbacks_def line_callbacks_def icp_calls icp_notify_packet_ack_cb_def)
qed

section \<open>The main loop\<close>

lemma safe_bind_ok: "safe Q m \<Longrightarrow> (\<And>t. Q t \<Longrightarrow> safe R (f t)) \<Longrightarrow> safe R (obind m f)"
  by (cases m) auto

lemma node_bytes_in_ok:
  assumes "sound_world W" "node_ok s"
  shows "safe node_ok (node_bytes_in W s)"
proof (cases "bytes_in (env s)")
  case True
  let ?s = "glue_do (\<lambda>g. g\<lparr>bytes_in := False\<rparr>) s"
  let ?bytes = "map (payload_in (env ?s)) [0..<ICP_MAX_PACKET_LENGTH]"
  have s: "good fits ?s" "?bytes \<noteq> []" "unat (payload_in_len (env ?s)) \<le> length ?bytes"
    using assms(2) by (simp_all add: node_ok_def fits_def ICP_MAX_PACKET_LENGTH_def ICP_MIN_PACKET_LENGTH_def)
  from icp_platform.bytes_in [OF node_platform [OF assms(1)] this] True show ?thesis
    by (auto simp: node_bytes_in_def Let_def node_ok_def intro!: safe_bind_code [where Q = "good fits"])
qed (use assms(2) in \<open>simp add: node_bytes_in_def\<close>)

lemma node_update_ok:
  assumes "sound_world W" "node_ok s"
  shows "safe node_ok (node_update W s)"
  using icp_platform.update [OF node_platform [OF assms(1)], of s] assms(2)
  by (auto simp: node_update_def node_ok_def fits_def intro!: safe_bind_code [where Q = "good fits"])

text \<open>A block of the allocator has the size that was asked for.\<close>

definition block_ok :: "u8 list option \<Rightarrow> bool" where
  "block_ok mem \<longleftrightarrow> (case mem of None \<Rightarrow> True | Some b \<Rightarrow> length b = BUFFER_LEN)"

lemma node_reset_ok:
  assumes "fits (env s)" "block_ok rx" "block_ok tx"
  shows "\<exists>goes_on t. node_reset W rx tx s = Done (goes_on, t) \<and> (goes_on \<longrightarrow> node_ok t)"
proof -
  obtain cbs s1 where s1: "icp_init_conf_struct False True s = Done (ICP_SUCCESS, cbs, s1)" "env s1 = env s"
    by (simp add: icp_init_conf_struct_def)
  have env: "env t = env s1" if "icp_init False (node_callbacks W) rx tx s1 = Done (rc, freed, t)" for rc freed t
    using that by (auto simp: icp_init_eq check_def Let_def split: option.splits if_splits)
  have "\<And>b. rx = Some b \<Longrightarrow> length b = BUFFER_LEN" "\<And>b. tx = Some b \<Longrightarrow> length b = BUFFER_LEN"
    using assms(2,3) by (simp_all add: block_ok_def)
  from icp_init_establishes [OF this, where null = False and cbs = "node_callbacks W" and s = s1]
  obtain rc freed t where "icp_init False (node_callbacks W) rx tx s1 = Done (rc, freed, t)" "rc = ICP_SUCCESS \<longrightarrow> icp_inv t"
    by metis
  then show ?thesis
    using s1 env assms(1) by (auto simp: node_reset_def node_ok_def)
qed

lemma node_turn_ok:
  assumes "sound_world W" "node_ok s" "block_ok rx" "block_ok tx"
  shows "safe (\<lambda>(goes_on, t). goes_on \<longrightarrow> node_ok t) (node_turn W rx tx s)"
proof -
  have "safe (\<lambda>(goes_on, t). goes_on \<longrightarrow> node_ok t)
      (if reset_flag (env t) then node_reset W rx tx (glue_do (\<lambda>g. g\<lparr>reset_flag := False\<rparr>) t)
       else obind (turn W t) (\<lambda>s. Done (True, s)))" if "node_ok t" for t
    using node_reset_ok [of "glue_do (\<lambda>g. g\<lparr>reset_flag := False\<rparr>) t" rx tx W] that assms(3,4) turn_line [OF assms(1) that]
    by (auto simp: node_ok_def fits_def intro!: safe_bind_line [where s = t] dest: on_line_inv [unfolded node_ok_def])
  then show ?thesis
    unfolding node_turn_def
    by (intro safe_bind_ok [OF node_bytes_in_ok [OF assms(1,2)]] safe_bind_ok [OF node_update_ok [OF assms(1)]])
qed


section \<open>A broker to run against\<close>

text \<open>
  Its state is what the other threads do in each turn to come; it holds back the messages that a
  node cannot read, and accepts every call.
\<close>

definition script_world :: "event list list world" where
  "script_world = \<lparr>async_connect = Pair 0, async_subscribe = (\<lambda>_ _. Pair 0), async_send = (\<lambda>_ _ _. Pair 0),
     turn_events = (\<lambda>n. case n of [] \<Rightarrow> ([], []) | evs # n \<Rightarrow> (filter sound_event evs, n)),
     read_clock = Pair 0, sync_clock = (\<lambda>n. n)\<rparr>"

lemma script_world_sound: "sound_world script_world"
  by (auto simp: sound_world_def script_world_def list_all_iff split: list.split)

interpretation node: icp_platform "node_callbacks script_world" fits
  by (rule node_platform [OF script_world_sound])

definition idle_glue :: "'n \<Rightarrow> 'n glue" where
  "idle_glue n = \<lparr>g_access = INACTIVE, g_shudup = INACTIVE, g_gpintl = INACTIVE, payload_text = [], payload_len = 0,
     payload_in = (\<lambda>_. 0), payload_in_len = 0, subscribed = 11, connected = True, finished = False, sent = False,
     line_is_mine = 0, update_now = False, reset_flag = False, bytes_in = False, listen_for_ack = False,
     g_mqtt_enable_debug_output = False, g_mqtt_enable_err_output = True, g_mqtt_enable_warn_output = True,
     g_mqtt_enable_info_output = True, g_sys_enable_debug_output = True, g_sys_enable_err_output = True,
     g_sys_enable_warn_output = True, g_sys_enable_info_output = True, net = n, published = [], printed = []\<rparr>"

definition node_at :: "mac_addr \<Rightarrow> 'n \<Rightarrow> 'n glue icp" where
  "node_at m n =
     \<lparr>transmition_timeout = 10000, ack_timeout = 5, rx_buffer = replicate BUFFER_LEN 0xFF,
      rx_buf_size = of_nat BUFFER_LEN, rx_buf_pos = 0, tx_buffer = replicate BUFFER_LEN 0,
      tx_buf_size = of_nat BUFFER_LEN, tx_buf_start = 0, tx_buf_end = 0,
      destination_received = False, received_in_this_frame = 0, waiting_for_ack = False,
      listen_to_all = False, role = NO_ROLE, g_conf_set = True, icp_update_in_progress = False,
      ack_timeout_cnt = 0, g_icp_enable_debug_output = True, g_icp_enable_err_output = True,
      g_icp_enable_warn_output = True, g_icp_enable_info_output = True,
      local_mac_addr = m, env = idle_glue n\<rparr>"

lemma node_at_ok: "icp_inv (node_at m n)" "payload_in_len (env (node_at m n)) = 0"
  by (simp_all add: node_at_def idle_glue_def icp_inv_def BUFFER_LEN_pos icp_lengths)


end
