(* ===== verification/Node_Line.thy ===== *)
theory Node_Line
  imports Node_Safety
begin

text \<open>
  Who holds the line.  The bus forwards the access messages of the nodes to all of them; when it lets
  no request through while the line is taken, exactly the node named by the last message holds the
  line.  Nothing in a node enforces this: two requests in a row give the line to both.
\<close>

section \<open>The messages of the line\<close>

datatype line_msg = Take mac_addr | Release mac_addr

primrec line_text :: "line_msg \<Rightarrow> u8 list" where
  "line_text (Take m) = active_by m"
| "line_text (Release m) = inactive_by m"

definition line_events :: "line_msg list \<Rightarrow> event list" where
  "line_events ms = map (\<lambda>m. Message_arrived (topic_names TOPIC_PRIM_ACCESS) (line_text m)) ms"

text \<open>What the bus lets through: no request while the line is taken.\<close>

fun alternates :: "bool \<Rightarrow> line_msg list \<Rightarrow> bool" where
  "alternates free [] \<longleftrightarrow> True"
| "alternates free (Take m # ms) \<longleftrightarrow> free \<and> alternates False ms"
| "alternates free (Release m # ms) \<longleftrightarrow> alternates True ms"

fun holder :: "mac_addr option \<Rightarrow> line_msg list \<Rightarrow> mac_addr option" where
  "holder h [] = h"
| "holder h (Take m # ms) = holder (Some m) ms"
| "holder h (Release m # ms) = holder None ms"

definition is_node :: "mac_addr \<Rightarrow> bool" where
  "is_node m \<longleftrightarrow> mac_num m < mac_num NUM_OF_NODES"

text \<open>A node that knows who holds the line.\<close>

definition line_known :: "mac_addr option \<Rightarrow> 'n glue icp \<Rightarrow> bool" where
  "line_known h s \<longleftrightarrow> g_access (env s) = (if h = None then INACTIVE else ACTIVE)
     \<and> line_is_mine (env s) = (if h = Some (local_mac_addr s) then 1 else 0)"

section \<open>One message\<close>

lemma topic_access [simp]: "topic_of (topic_names TOPIC_PRIM_ACCESS) = TOPIC_PRIM_ACCESS"
  by (simp add: topic_of_def topic_names_def topic_table_def ascii_def)

lemma active_texts:
  "begins_with (active_by m) (ascii ''ACTIVE'')" "\<not> cut_off (active_by m) (ascii ''ACTIVE'')"
  "\<not> begins_with (inactive_by m) (ascii ''ACTIVE'')" "\<not> cut_off (inactive_by m) (ascii ''ACTIVE'')"
  "begins_with (inactive_by m) (ascii ''INACTIVE'')" "\<not> cut_off (inactive_by m) (ascii ''INACTIVE'')"
  "\<not> begins_with (active_by m) (ascii ''INACTIVE'')" "\<not> cut_off (active_by m) (ascii ''INACTIVE'')"
  by (simp_all add: active_by_def inactive_by_def ascii_def)

lemma active_names:
  "is_node m \<Longrightarrow> is_node m' \<Longrightarrow> begins_with (active_by m) (active_by m') \<longleftrightarrow> m = m'"
  "is_node m \<Longrightarrow> is_node m' \<Longrightarrow> \<not> cut_off (active_by m) (active_by m')"
  by (cases m; cases m'; simp add: is_node_def active_by_def ascii_def)+

lemma active_by_zero: "0 \<notin> set (active_by m)"
  using plain_ascii [OF plain_append [THEN iffD2, OF conjI [OF plain_words(4) plain_mac]]] unfolding active_by_def .

lemma take_message:
  assumes "node_ok s" "is_node m" "is_node (local_mac_addr s)" "line_known None s"
  shows "\<exists>t. access_message line_callbacks (active_by m) s = Done t \<and> node_ok t \<and> line_known (Some m) t
    \<and> local_mac_addr t = local_mac_addr s"
proof -
  have "strncmp_eq (active_by m) (active_by (local_mac_addr s) @ [0]) (length (active_by (local_mac_addr s))) =
      Done (m = local_mac_addr s)"
    using strncmp_word [OF active_by_zero] active_names [OF assms(2,3)] by simp
  then show ?thesis
    using assms(1,4) plain_words active_texts
    by (auto simp: access_message_def text_is_word line_known_def icp_notify_acces_active_def icp_calls line_callbacks_def
        icp_get_access_sig_cb_def icp_codes Let_def c_bool_def node_ok_def fits_def)
qed

lemma notify_inactive_done:
  assumes "icp_inv s" "g_access (env s) = INACTIVE"
  shows "\<exists>t. icp_notify_acces_inactive line_callbacks s = Done (1, t) \<and> icp_inv t \<and> env t = env s
    \<and> local_mac_addr t = local_mac_addr s"
  using assms icp_flush_rx_buffer_eq [of "s\<lparr>role := NO_ROLE\<rparr>"] BUFFER_LEN_pos
    icp_inv_rx [of "s\<lparr>role := NO_ROLE\<rparr>" "replicate BUFFER_LEN 0xFF" 0]
  by (auto simp: icp_notify_acces_inactive_def icp_calls line_callbacks_def icp_get_access_sig_cb_def
      icp_notify_packet_ack_cb_def c_bool_def Let_def)

lemma release_message:
  assumes "node_ok s"
  shows "\<exists>t. access_message line_callbacks (inactive_by m) s = Done t \<and> node_ok t \<and> line_known None t
    \<and> local_mac_addr t = local_mac_addr s"
proof -
  obtain t where "icp_notify_acces_inactive line_callbacks (glue_do (\<lambda>g. g\<lparr>g_access := INACTIVE\<rparr>) s) = Done (1, t)"
    "icp_inv t" "env t = (env s)\<lparr>g_access := INACTIVE\<rparr>" "local_mac_addr t = local_mac_addr s"
    using notify_inactive_done [of "glue_do (\<lambda>g. g\<lparr>g_access := INACTIVE\<rparr>) s"] assms by (auto simp: node_ok_def)
  then show ?thesis
    using plain_words active_texts assms
    by (auto simp: access_message_def text_is_word line_known_def node_ok_def fits_def)
qed

section \<open>Sequences of messages\<close>

lemma line_events_known:
  "node_ok s \<Longrightarrow> is_node (local_mac_addr s) \<Longrightarrow> line_known h s \<Longrightarrow> alternates (h = None) ms \<Longrightarrow>
   (\<forall>m. Take m \<in> set ms \<longrightarrow> is_node m) \<Longrightarrow>
   \<exists>t. handle_events W (line_events ms) s = Done t \<and> line_known (holder h ms) t \<and> local_mac_addr t = local_mac_addr s"
proof (induction ms arbitrary: s h)
  case (Cons m ms)
  obtain t h' where t: "access_message line_callbacks (line_text m) s = Done t" "node_ok t" "line_known h' t"
    "local_mac_addr t = local_mac_addr s" "holder h (m # ms) = holder h' ms" "alternates (h' = None) ms"
  proof (cases m)
    case (Take a)
    then show ?thesis
      using take_message [OF Cons.prems(1) _ Cons.prems(2), of a] Cons.prems(3-5) by (cases h) (auto intro: that)
  next
    case (Release a)
    then show ?thesis
      using release_message [OF Cons.prems(1), of a] Cons.prems(4) by (auto intro: that)
  qed
  have "\<exists>u. handle_events W (line_events ms) t = Done u \<and> line_known (holder h' ms) u \<and> local_mac_addr u = local_mac_addr t"
    using Cons.IH [OF t(2) _ t(3,6)] Cons.prems(2,5) t(4) by simp
  then show ?case
    using t(1,4,5) by (simp add: line_events_def handle_event_def msgarrvd_def)
qed (simp add: line_events_def)

text \<open>
  C32: When the bus lets no request through while the line is taken, at most one node holds the line: for
  every such sequence of messages every node takes them without a fault, all agree on whether the
  line is active, and only the node that the last request names believes the line to be its own.
\<close>

theorem line_exclusive:
  assumes "\<forall>s \<in> set nodes. icp_inv s \<and> unat (payload_in_len (env s)) \<le> ICP_MAX_PACKET_LENGTH
      \<and> is_node (local_mac_addr s) \<and> line_known None s"
    and "alternates True ms" "\<forall>m. Take m \<in> set ms \<longrightarrow> is_node m"
  shows "\<exists>ts. list_all2 (\<lambda>s t. handle_events W (line_events ms) s = Done t) nodes ts
    \<and> (\<forall>t \<in> set ts. (g_access (env t) = ACTIVE \<longleftrightarrow> holder None ms \<noteq> None)
         \<and> (line_is_mine (env t) \<noteq> 0 \<longleftrightarrow> holder None ms = Some (local_mac_addr t)))"
  using assms(1)
proof (induction nodes)
  case (Cons s nodes)
  obtain t where "handle_events W (line_events ms) s = Done t" "line_known (holder None ms) t"
    using line_events_known [of s None ms W] Cons.prems assms(2,3) by (auto simp: node_ok_def fits_def)
  moreover from Cons obtain ts where "list_all2 (\<lambda>s t. handle_events W (line_events ms) s = Done t) nodes ts"
    "\<forall>t \<in> set ts. (g_access (env t) = ACTIVE \<longleftrightarrow> holder None ms \<noteq> None)
       \<and> (line_is_mine (env t) \<noteq> 0 \<longleftrightarrow> holder None ms = Some (local_mac_addr t))"
    by auto
  ultimately show ?case
    by (intro exI [of _ "t # ts"]) (auto simp: line_known_def icp_codes)
qed simp

lemma node_at_line:
  "local_mac_addr (node_at m n) = m" "line_known None (node_at m n)" "payload_in_len (env (node_at m n)) = 0"
  by (simp_all add: node_at_def idle_glue_def line_known_def)

theorem line_exclusive_witness:
  "\<exists>ts. list_all2 (\<lambda>s t. handle_events script_world (line_events [Take NODE_PC, Release NODE_PC, Take NODE_CAM]) s = Done t)
      [node_at NODE_PC [], node_at NODE_CAM []] ts
    \<and> (\<forall>t \<in> set ts. line_is_mine (env t) \<noteq> 0 \<longleftrightarrow> NODE_CAM = local_mac_addr t)"
proof -
  have "\<forall>s \<in> set [node_at NODE_PC [], node_at NODE_CAM []]. icp_inv s \<and> unat (payload_in_len (env s)) \<le> ICP_MAX_PACKET_LENGTH
      \<and> is_node (local_mac_addr s) \<and> line_known None s"
    by (simp add: node_at_ok node_at_line is_node_def)
  from line_exclusive [OF this, of "[Take NODE_PC, Release NODE_PC, Take NODE_CAM]" script_world] show ?thesis
    by (auto simp: is_node_def)
qed

text \<open>
  A node does not look at who has the line: after a request of one node and a request of another
  without a release between them, both take the line to be their own.
\<close>

theorem line_shared:
  assumes "icp_inv s1" "unat (payload_in_len (env s1)) \<le> ICP_MAX_PACKET_LENGTH" "line_known None s1"
    and "icp_inv s2" "unat (payload_in_len (env s2)) \<le> ICP_MAX_PACKET_LENGTH" "line_known None s2"
    and "is_node (local_mac_addr s1)" "is_node (local_mac_addr s2)" "local_mac_addr s1 \<noteq> local_mac_addr s2"
  shows "\<exists>t1 t2. handle_events W (line_events [Take (local_mac_addr s1), Take (local_mac_addr s2)]) s1 = Done t1
    \<and> handle_events W (line_events [Take (local_mac_addr s1), Take (local_mac_addr s2)]) s2 = Done t2
    \<and> line_is_mine (env t1) \<noteq> 0 \<and> line_is_mine (env t2) \<noteq> 0"
proof -
  let ?a = "local_mac_addr s1" and ?b = "local_mac_addr s2"
  obtain u1 where u1: "access_message line_callbacks (active_by ?a) s1 = Done u1" "line_is_mine (env u1) = 1"
    using take_message [of s1 ?a] assms(1,3,7) assms(2) by (auto simp: node_ok_def fits_def line_known_def)
  have again: "access_message line_callbacks (active_by ?b) u1 = Done u1"
    using u1(2) plain_words active_texts by (simp add: access_message_def text_is_word)
  obtain u2 where u2: "access_message line_callbacks (active_by ?a) s2 = Done u2" "node_ok u2" "line_known (Some ?a) u2"
    "local_mac_addr u2 = ?b"
    using take_message [of s2 ?a] assms(4-8) by (auto simp: node_ok_def fits_def)
  have mine: "strncmp_eq (active_by ?b) (active_by (local_mac_addr u2) @ [0]) (length (active_by (local_mac_addr u2))) = Done True"
    using strncmp_word [OF active_by_zero] active_names [OF assms(8,8)] u2(4) by simp
  have "access_message line_callbacks (active_by ?b) u2 =
      Done (glue_do (\<lambda>g. g\<lparr>line_is_mine := 1\<rparr>) (glue_do (\<lambda>g. g\<lparr>g_access := ACTIVE\<rparr>) u2))"
    using u2(3,4) assms(9) plain_words active_texts mine
    by (simp add: access_message_def text_is_word line_known_def)
  then show ?thesis
    using u1 u2(1) again by (simp add: line_events_def handle_event_def msgarrvd_def)
qed

theorem line_shared_witness:
  "\<exists>t1 t2. handle_events script_world (line_events [Take NODE_PC, Take NODE_CAM]) (node_at NODE_PC []) = Done t1
    \<and> handle_events script_world (line_events [Take NODE_PC, Take NODE_CAM]) (node_at NODE_CAM []) = Done t2
    \<and> line_is_mine (env t1) \<noteq> 0 \<and> line_is_mine (env t2) \<noteq> 0"
  using line_shared [of "node_at NODE_PC []" "node_at NODE_CAM []" script_world]
  by (simp add: node_at_ok node_at_line is_node_def)

section \<open>The bus\<close>

lemma topic_access_out [simp]: "topic_of (topic_names TOPIC_PRIM_ACCESS_OUT) = TOPIC_PRIM_ACCESS_OUT"
  by (simp add: topic_of_def topic_names_def topic_table_def ascii_def)

text \<open>
  The bus cannot forward what a node sends: the message carries the text without a terminator, and
  \<open>strcpy\<close> reads past its end, for a request on a free line as for a release; a request on a line that is
  taken is ignored.
\<close>

theorem bus_reads_past_message:
  "bus_msgarrvd W (topic_names TOPIC_PRIM_ACCESS_OUT) (line_text m) s =
     (case m of Take a \<Rightarrow> if g_access (env s) = ACTIVE then Done (1, s) else Fault | Release a \<Rightarrow> Fault)"
proof -
  have "0 \<notin> set (line_text m)"
    using active_by_zero plain_ascii [of "''INACTIVE  by '' @ mac_addrs a" for a] plain_mac
    by (cases m) (auto simp: inactive_by_def plain_def ascii_def)
  then have "takeWhile (\<lambda>b. b \<noteq> 0) (line_text m) = line_text m"
    by (auto simp: takeWhile_eq_all_conv)
  then have "strcpy_text 64 (line_text m) = Fault"
    by (simp only: strcpy_text_def Let_def less_irrefl simp_thms check_False)
  then show ?thesis
    using plain_words active_texts
    by (cases m) (simp_all add: bus_msgarrvd_def bus_line_def text_is_word Let_def)
qed

end
