(* ===== verification/Record_Store.thy ===== *)
theory Record_Store
  imports Mqtt_State
begin

text \<open>
  The contract of a persistence implementation, as \<^verbatim>\<open>mqtt/include/MQTTClientPersistence.h\<close> states it:
  a map from keys to records that the operations read and change.  The restoring of messages is
  proved against this interface; \<open>File_Records\<close> shows that the file system implementation meets it.
\<close>

text \<open>The calls that change the store, and what they do to the map.\<close>

datatype store_call = Put string "u8 list list" | Remove string

primrec call_key :: "store_call \<Rightarrow> string" where
  "call_key (Put k bufs) = k"
| "call_key (Remove k) = k"

primrec store_do :: "'p persistence \<Rightarrow> int \<Rightarrow> store_call \<Rightarrow> 'p \<Rightarrow> int \<times> 'p" where
  "store_do P h (Put k bufs) p = pput P h k bufs p"
| "store_do P h (Remove k) p = premove P h k p"

primrec store_run :: "'p persistence \<Rightarrow> int \<Rightarrow> store_call list \<Rightarrow> 'p \<Rightarrow> int list \<times> 'p" where
  "store_run P h [] p = ([], p)"
| "store_run P h (c # cs) p =
     (let (rc, p) = store_do P h c p; (rcs, p) = store_run P h cs p in (rc # rcs, p))"

primrec map_do :: "store_call \<Rightarrow> (string \<Rightarrow> u8 list option) \<Rightarrow> string \<Rightarrow> u8 list option" where
  "map_do (Put k bufs) m = m(k \<mapsto> concat bufs)"
| "map_do (Remove k) m = m(k := None)"

locale record_store =
  fixes P :: "'p persistence" and h :: int
    and ok :: "'p \<Rightarrow> bool" and records :: "'p \<Rightarrow> string \<Rightarrow> u8 list option"
    and key_ok :: "string \<Rightarrow> bool"
  assumes put: "ok p \<Longrightarrow> key_ok k \<Longrightarrow>
      \<exists>q. pput P h k bufs p = (0, q) \<and> ok q \<and> records q = (records p)(k \<mapsto> concat bufs)"
    and get: "ok p \<Longrightarrow> records p k = Some b \<Longrightarrow> pget P h k p = ((0, b), p)"
    and remove: "ok p \<Longrightarrow> key_ok k \<Longrightarrow>
      \<exists>q. premove P h k p = (0, q) \<and> ok q \<and> records q = (records p)(k := None)"
    and contains: "ok p \<Longrightarrow> key_ok k \<Longrightarrow>
      \<exists>rc. pcontainskey P h k p = (rc, p) \<and> (rc = 0 \<longleftrightarrow> records p k \<noteq> None)"
    and keys: "ok p \<Longrightarrow> \<exists>ks. pkeys P h p = ((0, ks), p) \<and> distinct ks \<and> set ks = dom (records p)"


begin

lemma run:
  "ok p \<Longrightarrow> \<forall>c \<in> set cs. key_ok (call_key c) \<Longrightarrow>
   \<exists>q. store_run P h cs p = (replicate (length cs) 0, q) \<and> ok q \<and> records q = fold map_do cs (records p)"
proof (induction cs arbitrary: p)
  case (Cons c cs)
  obtain q where "store_do P h c p = (0, q)" "ok q" "records q = map_do c (records p)"
    using put [OF Cons.prems(1)] remove [OF Cons.prems(1)] Cons.prems(2) by (cases c) fastforce+
  with Cons.IH [of q] Cons.prems(2) show ?case
    by auto
qed simp

end

end
