(* ===== verification/Mqtt_Restore.thy ===== *)
theory Mqtt_Restore
  imports Mqtt_Net Record_Store
begin

text \<open>
  Restoring the messages of a client after a restart, the rest of \<^verbatim>\<open>mqtt/source/MQTTPersistence.c\<close>: the
  records of messages in flight go back to the two message lists, the outgoing ones in the order of
  their ids from the place where the ids wrapped, and the records of undelivered messages to the
  queue of the application.
\<close>

section \<open>Messages in flight\<close>

text \<open>
  The remaining length in the record.  The loop reads on while the top bit is set: past the end of the
  record, if it comes to that; the products and sums are of type \<open>int\<close> and must not overflow.
\<close>

fun restore_length :: "u8 list \<Rightarrow> int \<Rightarrow> int \<Rightarrow> nat \<Rightarrow> (int \<times> nat \<times> u8 list) outcome" where
  "restore_length [] remaining_length multiplier fixed_header_length = Fault"
| "restore_length (c # buffer) remaining_length multiplier fixed_header_length =
     (let remaining_length = remaining_length + uint (c AND 127) * multiplier in
      check (remaining_length < 2 ^ 31 \<and> multiplier * 128 < 2 ^ 31)
        (if c AND 128 \<noteq> 0
         then restore_length buffer remaining_length (multiplier * 128) (fixed_header_length + 1)
         else Done (remaining_length, fixed_header_length + 1, buffer)))"

definition MQTTPersistence_restorePacket :: "u8 list \<Rightarrow> packet option outcome" where
  "MQTTPersistence_restorePacket buffer =
     (case buffer of
        [] \<Rightarrow> Fault
      | header # rest \<Rightarrow>
          obind (restore_length rest 0 1 1) (\<lambda>(remaining_length, fixed_header_length, mem).
            if int fixed_header_length + remaining_length = int (length buffer)
            then let ptype = header_type header in
              if msg_code CONNECT \<le> ptype \<and> ptype \<le> msg_code DISCONNECT
              then (case new_packets ptype of None \<Rightarrow> Done None | Some f \<Rightarrow> f header mem (nat remaining_length))
              else Done None
            else Done None))"

text \<open>The loop finds the first message with a greater id.\<close>

definition MQTTPersistence_insertInOrder :: "messages \<Rightarrow> messages clist \<Rightarrow> messages clist" where
  "MQTTPersistence_insertInOrder m l =
     (case first_at (\<lambda>x. m_msgid m < m_msgid x) (items l) of
        None \<Rightarrow> cl_append m l
      | Some i \<Rightarrow> cl_insert m i l)"

text \<open>The position of the largest gap between neighbours that is larger than \<open>gap\<close>.\<close>

fun gap_loop :: "int \<Rightarrow> nat option \<Rightarrow> nat \<Rightarrow> int list \<Rightarrow> nat option" where
  "gap_loop gap wrapel k (a # b # ids) =
     (if gap < b - a then gap_loop (b - a) (Some k) (k + 1) (b # ids) else gap_loop gap wrapel (k + 1) (b # ids))"
| "gap_loop gap wrapel k ids = wrapel"

definition rotate_to :: "nat \<Rightarrow> 'c clist \<Rightarrow> 'c clist" where
  "rotate_to w l = \<lparr>items = drop w (items l) @ take w (items l),
     cursor = map_option (\<lambda>j. if w \<le> j then j - w else j + length (items l) - w) (cursor l)\<rparr>"

definition wrap_list :: "messages clist \<Rightarrow> messages clist" where
  "wrap_list l =
     (case items l of [] \<Rightarrow> l
      | m1 # _ \<Rightarrow>
          (let firstMsgID = m_msgid m1; lastMsgID = m_msgid (last (items l));
               gap = MAX_MSG_ID - lastMsgID + firstMsgID in
           case gap_loop gap None 1 (map m_msgid (items l)) of None \<Rightarrow> l | Some w \<Rightarrow> rotate_to w l))"

definition MQTTPersistence_wrapMsgID :: "nat \<Rightarrow> ('k, 'p, 'u) mqtt \<Rightarrow> ('k, 'p, 'u) mqtt" where
  "MQTTPersistence_wrapMsgID i st = upd_client i (\<lambda>c. c\<lparr>outboundMsgs := wrap_list (outboundMsgs c)\<rparr>) st"

text \<open>\<open>strstr(s, pat) != NULL\<close>.\<close>

fun strstr :: "string \<Rightarrow> string \<Rightarrow> bool" where
  "strstr pat [] \<longleftrightarrow> pat = []"
| "strstr pat (c # s) \<longleftrightarrow> take (length pat) (c # s) = pat \<or> strstr pat s"

definition starts :: "string \<Rightarrow> string \<Rightarrow> bool" where
  "starts pat s \<longleftrightarrow> take (length pat) s = pat"

text \<open>
  What a record becomes.  The key decides how the packet is read: a packet of another type behind the
  pointer is a fault.
\<close>

definition restore_pack ::
    "('k, 'a) env \<Rightarrow> nat \<Rightarrow> 'p persistence \<Rightarrow> string \<Rightarrow> packet \<Rightarrow> ('k, 'p, 'u) mqtt \<Rightarrow> (int \<times> ('k, 'p, 'u) mqtt) outcome" where
  "restore_pack E i P key pack st =
     (let h = phandle (client_at i st) in
      if strstr PERSISTENCE_PUBLISH_RECEIVED key
      then (case pack of
          Publish publish \<Rightarrow>
            obind (MQTTProtocol_createMessage E publish None (int (header_qos (pub_header publish)))
                (header_retain (pub_header publish)) st) (\<lambda>(msg, st).
              let msg = msg\<lparr>nextMessageType := int (msg_code PUBREL)\<rparr> in
              Done (0, upd_client i (\<lambda>c. c\<lparr>inboundMsgs := cl_append msg (inboundMsgs c)\<rparr>) st))
        | _ \<Rightarrow> Fault)
      else if strstr PERSISTENCE_PUBLISH_SENT key
      then (case pack of
          Publish publish \<Rightarrow>
            obind (key_into (MESSAGE_FILENAME_LENGTH + 1) PERSISTENCE_PUBREL (pub_msgId publish)) (\<lambda>pubrel_key.
            obind (MQTTProtocol_createMessage E publish None (int (header_qos (pub_header publish)))
                (header_retain (pub_header publish)) st) (\<lambda>(msg, st).
              let (found, p) = pcontainskey P h pubrel_key (store st);
                  msg = (if found = 0 then msg\<lparr>nextMessageType := int (msg_code PUBCOMP)\<rparr> else msg);
                  msg = msg\<lparr>lastTouch := 0\<rparr> in
              Done (0, upd_client i (\<lambda>c. c\<lparr>outboundMsgs := MQTTPersistence_insertInOrder msg (outboundMsgs c)\<rparr>)
                (st\<lparr>store := p\<rparr>))))
        | _ \<Rightarrow> Fault)
      else if strstr PERSISTENCE_PUBREL key
      then (case pack of
          Ack pubrel \<Rightarrow>
            obind (key_into (MESSAGE_FILENAME_LENGTH + 1) PERSISTENCE_PUBLISH_SENT (ack_msgId pubrel)) (\<lambda>sent_key.
              let (found, p) = pcontainskey P h sent_key (store st); st = st\<lparr>store := p\<rparr> in
              if found \<noteq> 0
              then let (rc, p) = premove P h key (store st) in Done (rc, st\<lparr>store := p\<rparr>)
              else Done (0, st))
        | _ \<Rightarrow> Fault)
      else Done (0, st))"

definition restore_key ::
    "('k, 'a) env \<Rightarrow> nat \<Rightarrow> 'p persistence \<Rightarrow> string \<Rightarrow> ('k, 'p, 'u) mqtt \<Rightarrow> (int \<times> ('k, 'p, 'u) mqtt) outcome" where
  "restore_key E i P key st =
     (let h = phandle (client_at i st) in
      if starts PERSISTENCE_COMMAND_KEY key then Done (0, st)
      else if starts PERSISTENCE_QUEUE_KEY key then Done (0, st)
      else let ((rc, buffer), p) = pget P h key (store st); st = st\<lparr>store := p\<rparr> in
        if rc \<noteq> 0 then Done (rc, st)
        else obind (MQTTPersistence_restorePacket buffer) (\<lambda>pack.
          case pack of
            Some pack \<Rightarrow> restore_pack E i P key pack st
          | None \<Rightarrow> let (rc, p) = premove P h key (store st) in Done (rc, st\<lparr>store := p\<rparr>)))"

fun restore_keys ::
    "('k, 'a) env \<Rightarrow> nat \<Rightarrow> 'p persistence \<Rightarrow> string list \<Rightarrow> ('k, 'p, 'u) mqtt \<Rightarrow> (int \<times> ('k, 'p, 'u) mqtt) outcome" where
  "restore_keys E i P [] st = Done (0, st)"
| "restore_keys E i P (key # msgkeys) st =
     obind (restore_key E i P key st) (\<lambda>(rc, st). if rc = 0 then restore_keys E i P msgkeys st else Done (rc, st))"

definition MQTTPersistence_restore ::
    "('k, 'a) env \<Rightarrow> nat \<Rightarrow> ('k, 'p, 'u) mqtt \<Rightarrow> (int \<times> ('k, 'p, 'u) mqtt) outcome" where
  "MQTTPersistence_restore E i st =
     obind (case persistence_of (client_at i st) of
         None \<Rightarrow> Done (0, st)
       | Some P \<Rightarrow>
           (let ((rc, msgkeys), p) = pkeys P (phandle (client_at i st)) (store st); st = st\<lparr>store := p\<rparr> in
            if rc \<noteq> 0 then Done (rc, st) else restore_keys E i P msgkeys st))
       (\<lambda>(rc, st). Done (rc, MQTTPersistence_wrapMsgID i st))"

definition MQTTPersistence_initialize ::
    "('k, 'a) env \<Rightarrow> nat \<Rightarrow> u8 list \<Rightarrow> ('k, 'p, 'u) mqtt \<Rightarrow> (int \<times> ('k, 'p, 'u) mqtt) outcome" where
  "MQTTPersistence_initialize E i serverURI st =
     (case persistence_of (client_at i st) of
        None \<Rightarrow> Done (0, st)
      | Some P \<Rightarrow>
          obind (popen P (clientID (client_at i st)) serverURI (store st)) (\<lambda>((rc, h), p).
            let st = upd_client i (\<lambda>c. c\<lparr>phandle := h\<rparr>) (st\<lparr>store := p\<rparr>) in
            if rc = 0 then MQTTPersistence_restore E i st else Done (rc, st)))"

section \<open>Undelivered messages\<close>

text \<open>An \<open>int\<close> of four bytes, the lowest first, at offset \<open>p\<close> of the record.\<close>

definition int_at :: "u8 list \<Rightarrow> nat \<Rightarrow> int outcome" where
  "int_at mem p =
     check (p + 4 \<le> length mem)
       (Done (signed_take_bit 31 (horner_sum uint 256 (take 4 (drop p mem)))))"

definition MQTTPersistence_restoreQueueEntry :: "u8 list \<Rightarrow> qEntry outcome" where
  "MQTTPersistence_restoreQueueEntry mem =
     obind (int_at mem 0) (\<lambda>payloadlen.
     check (0 \<le> payloadlen \<and> 4 + nat payloadlen \<le> length mem)
       (let ptr = 4 + nat payloadlen in
        obind (int_at mem ptr) (\<lambda>qos.
        obind (int_at mem (ptr + 4)) (\<lambda>retained.
        obind (int_at mem (ptr + 8)) (\<lambda>dup.
        obind (int_at mem (ptr + 12)) (\<lambda>msgid.
          let topic = takeWhile (\<lambda>b. b \<noteq> 0) (drop (ptr + 16) mem); ptr = ptr + 16 + length topic in
          check (ptr < length mem)
            (obind (int_at mem (ptr + 1)) (\<lambda>topiclen.
              Done \<lparr>qe_msg = \<lparr>am_payload = take (nat payloadlen) (drop 4 mem), am_payloadlen = payloadlen, am_qos = qos,
                  am_retained = retained, am_dup = dup, am_msgid = msgid\<rparr>,
                topicName = topic, topicLen = topiclen, qe_seqno = 0\<rparr>))))))))"

definition MQTTPersistence_insertInSeqOrder :: "qEntry \<Rightarrow> qEntry clist \<Rightarrow> qEntry clist" where
  "MQTTPersistence_insertInSeqOrder qe l =
     (case first_at (\<lambda>x. qe_seqno qe < qe_seqno x) (items l) of
        None \<Rightarrow> cl_append qe l
      | Some i \<Rightarrow> cl_insert qe i l)"

text \<open>\<open>atoi\<close>; a value that is no \<open>int\<close> is undefined.\<close>

definition seqno_of_key :: "string \<Rightarrow> int outcome" where
  "seqno_of_key s = (let n = atoi (ascii s) in check (- (2 ^ 31) \<le> n \<and> n < 2 ^ 31) (Done n))"

definition restore_queue_key ::
    "nat \<Rightarrow> 'p persistence \<Rightarrow> string \<Rightarrow> ('k, 'p, 'u) mqtt \<Rightarrow> (int \<times> ('k, 'p, 'u) mqtt) outcome" where
  "restore_queue_key i P key st =
     (if \<not> starts PERSISTENCE_QUEUE_KEY key then Done (0, st)
      else let ((rc, buffer), p) = pget P (phandle (client_at i st)) key (store st); st = st\<lparr>store := p\<rparr> in
        if rc \<noteq> 0 then Done (rc, st)
        else obind (MQTTPersistence_restoreQueueEntry buffer) (\<lambda>qe.
          obind (seqno_of_key (drop 2 key)) (\<lambda>n.
            let qe = qe\<lparr>qe_seqno := of_int n\<rparr> in
            Done (0, upd_client i (\<lambda>c. c\<lparr>messageQueue := MQTTPersistence_insertInSeqOrder qe (messageQueue c),
              qentry_seqno := (if qe_seqno qe < qentry_seqno c then qentry_seqno c else qe_seqno qe)\<rparr>) st))))"

fun restore_queue_keys ::
    "nat \<Rightarrow> 'p persistence \<Rightarrow> string list \<Rightarrow> ('k, 'p, 'u) mqtt \<Rightarrow> (int \<times> ('k, 'p, 'u) mqtt) outcome" where
  "restore_queue_keys i P [] st = Done (0, st)"
| "restore_queue_keys i P (key # msgkeys) st =
     obind (restore_queue_key i P key st) (\<lambda>(rc, st).
       if rc = 0 then restore_queue_keys i P msgkeys st else Done (rc, st))"

definition MQTTPersistence_restoreMessageQueue :: "nat \<Rightarrow> ('k, 'p, 'u) mqtt \<Rightarrow> (int \<times> ('k, 'p, 'u) mqtt) outcome" where
  "MQTTPersistence_restoreMessageQueue i st =
     (case persistence_of (client_at i st) of
        None \<Rightarrow> Done (0, st)
      | Some P \<Rightarrow>
          (let ((rc, msgkeys), p) = pkeys P (phandle (client_at i st)) (store st); st = st\<lparr>store := p\<rparr> in
           if rc \<noteq> 0 then Done (rc, st) else restore_queue_keys i P msgkeys st))"

end
