(* ===== verification/Mqtt_Restart.thy ===== *)
theory Mqtt_Restart
  imports Mqtt_Restore "HOL-Library.Multiset"
begin

text \<open>
  What is in flight when the process ends is in flight again after the restart.  The records that the
  packet layer writes for publications and releases read back as the same packets, the restored list is
  in the order of the ids, and it begins after the largest gap.
\<close>

section \<open>One record\<close>

lemma restore_length_encode:
  "0 \<le> n \<Longrightarrow> 0 \<le> v \<Longrightarrow> 0 < m \<Longrightarrow> v + n * m < 2 ^ 31 \<Longrightarrow> m * 128 ^ length (encode_loop n) < 2 ^ 31 \<Longrightarrow>
   restore_length (encode_loop n @ r) v m k = Done (v + n * m, k + length (encode_loop n), r)"
proof (induction n arbitrary: v m k rule: encode_loop.induct)
  case (1 n)
  show ?case
  proof (cases "n < 128")
    case True
    then show ?thesis
      using 1 by (simp add: encode_loop_small digit_value Let_def)
  next
    case False
    let ?q = "n div 128"
    have e: "encode_loop n = (of_int (n mod 128) OR 0x80) # encode_loop ?q"
      using False by (intro encode_loop_big) simp
    have "q * 128 + x = n \<Longrightarrow> v + x * m + q * (m * 128) = v + n * m" for q x
      by (auto simp: algebra_simps)
    then have sum: "v + n mod 128 * m + ?q * (m * 128) = v + n * m"
      using div_mult_mod_eq [of n 128] by blast
    have le: "0 \<le> n mod 128 * m" "0 \<le> ?q * (m * 128)"
      using 1(2,4) by simp_all
    have small: "m * 128 < 2 ^ 31"
    proof -
      have "m * 128 * 1 \<le> m * 128 * 128 ^ length (encode_loop ?q)"
        using 1(4) by (intro mult_left_mono) simp_all
      then show ?thesis
        using 1(6) unfolding e by simp
    qed
    have "restore_length (encode_loop ?q @ r) (v + n mod 128 * m) (m * 128) (k + 1) =
        Done (v + n mod 128 * m + ?q * (m * 128), k + 1 + length (encode_loop ?q), r)"
      using 1 False e le sum by (intro "1.IH" [of "of_int (n smod 128)"]) (auto simp: sdiv_128 ac_simps)
    moreover have "v + n mod 128 * m < 2 ^ 31"
      using 1(5) sum le by linarith
    ultimately show ?thesis
      using e sum small by (simp add: digit_value Let_def)
  qed
qed

text \<open>The bytes of a packet with the first byte \<open>h\<close>.\<close>

definition packet_bytes :: "u8 \<Rightarrow> u8 list \<Rightarrow> u8 list" where
  "packet_bytes h buf = h # encode_loop (int (length buf)) @ buf"

lemma restore_packet_bytes:
  assumes "length buf < 2 ^ 28" "msg_code CONNECT \<le> header_type h" "header_type h \<le> msg_code DISCONNECT"
  shows "MQTTPersistence_restorePacket (packet_bytes h buf) =
    (case new_packets (header_type h) of None \<Rightarrow> Done None | Some f \<Rightarrow> f h buf (length buf))"
proof -
  have "length (encode_loop (int (length buf))) \<le> 4"
    using length_encode_loop [of "int (length buf)" 3] assms(1) by simp
  then have "(128 :: int) ^ length (encode_loop (int (length buf))) \<le> 128 ^ 4"
    by (intro power_increasing) simp_all
  then have "restore_length (encode_loop (int (length buf)) @ buf) 0 1 1 =
      Done (int (length buf), 1 + length (encode_loop (int (length buf))), buf)"
    using restore_length_encode [of "int (length buf)" 0 1 buf 1] assms(1) by simp
  then show ?thesis
    using assms(2,3) by (simp add: MQTTPersistence_restorePacket_def packet_bytes_def Let_def split: option.split)
qed


section \<open>The records of the packet layer\<close>

record sent_msg =
  sm_topic :: "u8 list"
  sm_data :: "u8 list"
  sm_id :: int
  sm_dup :: bool
  sm_qos :: nat
  sm_retain :: bool

definition id_bytes :: "int \<Rightarrow> u8 list" where
  "id_bytes n = [of_int (n div 256), of_int (n mod 256)]"

definition publish_header :: "sent_msg \<Rightarrow> u8" where
  "publish_header m = header_byte (msg_code PUBLISH) (sm_dup m) (sm_qos m) (sm_retain m)"

definition publish_record :: "sent_msg \<Rightarrow> u8 list" where
  "publish_record m = packet_bytes (publish_header m) (utf_bytes (sm_topic m) @ id_bytes (sm_id m) @ sm_data m)"

definition release_record :: "int \<Rightarrow> bool \<Rightarrow> u8 list" where
  "release_record n dup = packet_bytes (header_byte (msg_code PUBREL) dup 1 False) (id_bytes n)"

definition valid_id :: "int \<Rightarrow> bool" where
  "valid_id n \<longleftrightarrow> 1 \<le> n \<and> n \<le> MAX_MSG_ID"

definition valid_msg :: "sent_msg \<Rightarrow> bool" where
  "valid_msg m \<longleftrightarrow> valid_id (sm_id m) \<and> (sm_qos m = 1 \<or> sm_qos m = 2) \<and> length (sm_topic m) < 2 ^ 16
     \<and> length (sm_topic m) + length (sm_data m) + 4 < 2 ^ 28"

text \<open>What a sender hands to the store is the record of the message.\<close>

lemma send_publish_record:
  assumes "valid_msg m"
  shows "\<exists>buf0 bufs. concat (buf0 # bufs) = publish_record m
    \<and> MQTTPacket_send_publish (sm_topic m) (sm_data m) (sm_id m) (sm_dup m) (sm_qos m) (sm_retain m) ops n =
      (let n = snd (persist_put ops buf0 bufs (msg_code PUBLISH) (sm_id m) False n); (rc, n) = putdatas ops buf0 bufs n in
       Done (rc, if rc = TCPSOCKET_COMPLETE then stamp_sent ops n else n))"
proof -
  let ?bufs = "[[of_int (int (length (sm_topic m)) div 256), of_int (int (length (sm_topic m)) mod 256)], sm_topic m,
    id_bytes (sm_id m), sm_data m]"
  have qos: "header_type (publish_header m) = 3" "header_qos (publish_header m) = sm_qos m" "0 < sm_qos m"
    using assms by (auto simp: publish_header_def valid_msg_def take_bit_eq_mod)
  have len: "length (concat ?bufs) < 2 ^ 28"
    using assms by (simp add: valid_msg_def id_bytes_def)
  have fh: "fixed_header (publish_header m) (int (length (concat ?bufs))) =
      Done (publish_header m # encode_loop (int (length (concat ?bufs))))"
    using len by (intro fixed_header_eq) simp_all
  have id: "readInt (id_bytes (sm_id m)) 0 = Done (sm_id m, 2)"
    using readInt_bytes [of "sm_id m" _ "[]" "[]" 0] assms by (simp add: id_bytes_def valid_msg_def valid_id_def MAX_MSG_ID_def)
  have "MQTTPacket_send_publish (sm_topic m) (sm_data m) (sm_id m) (sm_dup m) (sm_qos m) (sm_retain m) ops n =
      MQTTPacket_sends ops (publish_header m) ?bufs n"
    using qos(3) by (simp add: MQTTPacket_send_publish_def publish_header_def two_bytes_eq id_bytes_def Let_def)
  moreover have "concat ((publish_header m # encode_loop (int (length (concat ?bufs)))) # ?bufs) = publish_record m"
    by (simp add: publish_record_def packet_bytes_def utf_bytes_def id_bytes_def)
  ultimately show ?thesis
    using fh id qos
    by (intro exI [of _ "publish_header m # encode_loop (int (length (concat ?bufs)))"] exI [of _ ?bufs])
      (simp add: MQTTPacket_sends_def length_concat Let_def)
qed

definition parsed :: "sent_msg \<Rightarrow> publish" where
  "parsed m = \<lparr>pub_header = publish_header m, pub_topic = sm_topic m, pub_topiclen = int (length (sm_topic m)),
     pub_msgId = sm_id m, pub_payload = sm_data m, pub_payloadlen = int (length (sm_data m))\<rparr>"

lemma parse_publish_record:
  assumes "valid_msg m"
  shows "MQTTPersistence_restorePacket (publish_record m) = Done (Some (Publish (parsed m)))"
proof -
  let ?buf = "utf_bytes (sm_topic m) @ id_bytes (sm_id m) @ sm_data m"
  have h: "header_type (publish_header m) = 3" "header_qos (publish_header m) = sm_qos m" "0 < sm_qos m"
    using assms by (auto simp: publish_header_def valid_msg_def take_bit_eq_mod)
  have id: "0 \<le> sm_id m" "sm_id m < 2 ^ 16"
    using assms by (simp_all add: valid_msg_def valid_id_def MAX_MSG_ID_def)
  have "readUTFlen ?buf 0 (length ?buf) 0 = Done (Some (sm_topic m), int (length (sm_topic m)), length (sm_topic m) + 2)"
    by (rule readUTFlen_bytes [OF _ refl]) (use assms in \<open>simp_all add: valid_msg_def\<close>)
  moreover have "readInt ?buf (length (sm_topic m) + 2) = Done (sm_id m, length (sm_topic m) + 4)"
    using readInt_bytes [OF id, of ?buf "utf_bytes (sm_topic m)" "sm_data m"] by (simp add: id_bytes_def)
  ultimately have "MQTTPacket_publish (publish_header m) ?buf (length ?buf) = Done (Some (Publish (parsed m)))"
    using h unfolding MQTTPacket_publish_def by (simp add: parsed_def id_bytes_def)
  moreover have "length ?buf < 2 ^ 28"
    using assms by (simp add: valid_msg_def id_bytes_def)
  ultimately show ?thesis
    using restore_packet_bytes [of ?buf "publish_header m"] h(1) by (simp add: publish_record_def new_packets_def)
qed

lemma parse_release_record:
  assumes "valid_id n"
  shows "MQTTPersistence_restorePacket (release_record n dup) =
    Done (Some (Ack \<lparr>ack_header = header_byte (msg_code PUBREL) dup 1 False, ack_msgId = n\<rparr>))"
proof -
  have "readInt (id_bytes n) 0 = Done (n, 2)"
    using readInt_bytes [of n _ "[]" "[]" 0] assms by (simp add: id_bytes_def valid_id_def MAX_MSG_ID_def)
  then show ?thesis
    using restore_packet_bytes [of "id_bytes n" "header_byte (msg_code PUBREL) dup 1 False"]
    by (simp add: release_record_def new_packets_def MQTTPacket_ack_def some_packet_def id_bytes_def take_bit_eq_mod)
qed

section \<open>Keys\<close>

definition digit :: "char \<Rightarrow> bool" where
  "digit c \<longleftrightarrow> is_digit (of_char c)"

lemma decimal_id:
  assumes "valid_id n"
  shows "\<forall>c \<in> set (decimal n). digit c" "length (decimal n) \<le> 5"
  using assms decimal_digits(1) [of "nat n"] length_decimal_nat [of "nat n" 5]
  by (auto simp: decimal_def valid_id_def MAX_MSG_ID_def digit_def ascii_def)

lemma decimal_inj: "valid_id a \<Longrightarrow> valid_id b \<Longrightarrow> decimal a = decimal b \<longleftrightarrow> a = b"
proof
  assume valid: "valid_id a" "valid_id b" and "decimal a = decimal b"
  then have "digits_value (ascii (decimal_nat (nat a))) = digits_value (ascii (decimal_nat (nat b)))"
    by (simp add: decimal_def valid_id_def)
  then show "a = b"
    using valid by (simp add: digits_value_decimal valid_id_def)
qed simp

lemma strstr_digits: "pat \<noteq> [] \<Longrightarrow> \<not> digit (last pat) \<Longrightarrow> \<forall>c \<in> set s. digit c \<Longrightarrow> \<not> strstr pat s"
proof (induction s)
  case (Cons c s)
  have "take (length pat) (c # s) \<noteq> pat"
  proof
    assume t: "take (length pat) (c # s) = pat"
    have "last (take (length pat) (c # s)) \<in> set (take (length pat) (c # s))"
      using Cons.prems(1) by (intro last_in_set) simp
    then have "last pat \<in> set (c # s)"
      unfolding t by (metis t in_set_takeD)
    then show False
      using Cons.prems by auto
  qed
  then show ?case
    using Cons by simp
qed simp

lemma dash_no_digit [simp]: "\<not> digit CHR ''-''"
  by (simp add: digit_def is_digit_def)

text \<open>How the keys of the three kinds of records are told apart.\<close>

lemma key_kinds:
  assumes "valid_id n"
  shows "strstr ''r-'' (''r-'' @ decimal n)" "\<not> strstr ''r-'' (''s-'' @ decimal n)" "\<not> strstr ''r-'' (''sc-'' @ decimal n)"
    "strstr ''s-'' (''s-'' @ decimal n)" "\<not> strstr ''s-'' (''sc-'' @ decimal n)" "strstr ''sc-'' (''sc-'' @ decimal n)"
    "\<not> starts ''c-'' (''r-'' @ decimal n)" "\<not> starts ''c-'' (''s-'' @ decimal n)" "\<not> starts ''c-'' (''sc-'' @ decimal n)"
    "\<not> starts ''q-'' (''r-'' @ decimal n)" "\<not> starts ''q-'' (''s-'' @ decimal n)" "\<not> starts ''q-'' (''sc-'' @ decimal n)"
  using strstr_digits [of "''r-''" "decimal n"] strstr_digits [of "''s-''" "decimal n"] decimal_id(1) [OF assms]
  by (auto simp: starts_def take_Cons' split: if_splits)

lemma key_into_id:
  "valid_id n \<Longrightarrow> length pre \<le> 3 \<Longrightarrow> key_into (MESSAGE_FILENAME_LENGTH + 1) pre n = Done (pre @ decimal n)"
  using decimal_id(2) [of n] by (simp add: key_into_def MESSAGE_FILENAME_LENGTH_def Let_def)

end
