(* ===== verification/Mqtt_Resume.thy ===== *)
theory Mqtt_Resume
  imports Mqtt_Restart
begin

text \<open>
  The whole of \<open>MQTTPersistence_restore\<close> over the interface of a record store: every message whose
  record is in the store is in flight again, in the state its records say.
\<close>

section \<open>What the store holds\<close>

abbreviation sent_key :: "int \<Rightarrow> string" where "sent_key n \<equiv> PERSISTENCE_PUBLISH_SENT @ decimal n"
abbreviation release_key :: "int \<Rightarrow> string" where "release_key n \<equiv> PERSISTENCE_PUBREL @ decimal n"
abbreviation received_key :: "int \<Rightarrow> string" where "received_key n \<equiv> PERSISTENCE_PUBLISH_RECEIVED @ decimal n"

definition session_record :: "string \<Rightarrow> u8 list \<Rightarrow> bool" where
  "session_record k b \<longleftrightarrow>
     (\<exists>m. valid_msg m \<and> k = sent_key (sm_id m) \<and> b = publish_record m)
   \<or> (\<exists>m. valid_msg m \<and> k = received_key (sm_id m) \<and> b = publish_record m)
   \<or> (\<exists>n dup. valid_id n \<and> k = release_key n \<and> b = release_record n dup)
   \<or> starts PERSISTENCE_COMMAND_KEY k \<or> starts PERSISTENCE_QUEUE_KEY k"

definition session_records :: "(string \<Rightarrow> u8 list option) \<Rightarrow> bool" where
  "session_records r \<longleftrightarrow> (\<forall>k b. r k = Some b \<longrightarrow> session_record k b)"

text \<open>A release whose publication is gone.\<close>

definition orphan :: "(string \<Rightarrow> u8 list option) \<Rightarrow> string \<Rightarrow> bool" where
  "orphan r k \<longleftrightarrow> (\<exists>n. valid_id n \<and> k = release_key n \<and> r (sent_key n) = None)"

definition without_orphans :: "(string \<Rightarrow> u8 list option) \<Rightarrow> string \<Rightarrow> u8 list option" where
  "without_orphans r k = (if orphan r k then None else r k)"

definition stored_form :: "sent_msg \<Rightarrow> publication" where
  "stored_form s = \<lparr>p_topic = sm_topic s, p_topiclen = int (length (sm_topic s)),
     p_payload = sm_data s, p_payloadlen = int (length (sm_data s)), refcount = 1\<rparr>"

text \<open>The message \<open>m\<close> is the publication \<open>s\<close>, with a publication of its own in the heap.\<close>

definition restored :: "('k, 'p, 'u) mqtt \<Rightarrow> sent_msg \<Rightarrow> messages \<Rightarrow> bool" where
  "restored st s m \<longleftrightarrow> valid_msg s \<and> m_msgid m = sm_id s \<and> m_qos m = int (sm_qos s) \<and> m_retain m = sm_retain s
     \<and> heap_pubs st (m_publish m) = Some (stored_form s)"

definition in_flight :: "(string \<Rightarrow> u8 list option) \<Rightarrow> ('k, 'p, 'u) mqtt \<Rightarrow> messages \<Rightarrow> bool" where
  "in_flight r st m \<longleftrightarrow> (\<exists>s. restored st s m \<and> r (sent_key (sm_id s)) = Some (publish_record s)) \<and> lastTouch m = 0
     \<and> (if r (release_key (m_msgid m)) \<noteq> None then nextMessageType m = int (msg_code PUBCOMP)
        else m_qos m = 2 \<longrightarrow> nextMessageType m = int (msg_code PUBREC))"

definition awaits_release :: "(string \<Rightarrow> u8 list option) \<Rightarrow> ('k, 'p, 'u) mqtt \<Rightarrow> messages \<Rightarrow> bool" where
  "awaits_release r st m \<longleftrightarrow> (\<exists>s. restored st s m \<and> r (received_key (sm_id s)) = Some (publish_record s))
     \<and> nextMessageType m = int (msg_code PUBREL)"

lemma header_flags:
  "valid_msg m \<Longrightarrow> header_qos (publish_header m) = sm_qos m"
  "header_retain (publish_header m) = sm_retain m"
  by (auto simp: publish_header_def valid_msg_def take_bit_eq_mod)

lemma create_restored:
  assumes "valid_msg s"
  shows "\<exists>m. MQTTProtocol_createMessage E (parsed s) None (int (sm_qos s)) (sm_retain s) st =
      Done (m, st\<lparr>heap_pubs := (heap_pubs st)(next_pub st \<mapsto> stored_form s),
        next_pub := next_pub st + 1, stored := cl_append (next_pub st) (stored st)\<rparr>)
    \<and> m_publish m = next_pub st \<and> m_msgid m = sm_id s \<and> m_qos m = int (sm_qos s) \<and> m_retain m = sm_retain s
    \<and> (sm_qos s = 2 \<longrightarrow> nextMessageType m = int (msg_code PUBREC))"
  by (simp add: MQTTProtocol_createMessage_def MQTTProtocol_storePublication_def parsed_def stored_form_def Let_def)

lemma client_at_upd: "i < length (items (clients st)) \<Longrightarrow> client_at i (upd_client i f st) = f (client_at i st)"
  by (simp add: client_at_def upd_client_def)

lemma upd_client_others [simp]:
  "store (upd_client i f st) = store st" "heap_pubs (upd_client i f st) = heap_pubs st"
  "next_pub (upd_client i f st) = next_pub st" "length (items (clients (upd_client i f st))) = length (items (clients st))"
  by (simp_all add: upd_client_def)

section \<open>One record\<close>

text \<open>What the records that have been read have become; \<open>r\<close> are the records at the start.\<close>

definition resumed_lists ::
    "(string \<Rightarrow> u8 list option) \<Rightarrow> string set \<Rightarrow> ('k, 'p, 'u) mqtt \<Rightarrow> messages list \<Rightarrow> messages list \<Rightarrow> bool" where
  "resumed_lists r K st outs ins \<longleftrightarrow>
     sorted (map m_msgid outs) \<and> distinct (map m_msgid outs) \<and> distinct (map m_msgid ins)
   \<and> distinct (map m_publish (outs @ ins))
   \<and> m_msgid ` set outs = {n. valid_id n \<and> sent_key n \<in> K} \<and> m_msgid ` set ins = {n. valid_id n \<and> received_key n \<in> K}
   \<and> (\<forall>m \<in> set outs. in_flight r st m) \<and> (\<forall>m \<in> set ins. awaits_release r st m)"

definition resumed ::
    "nat \<Rightarrow> 'p persistence \<Rightarrow> int \<Rightarrow> ('p \<Rightarrow> bool) \<Rightarrow> ('p \<Rightarrow> string \<Rightarrow> u8 list option) \<Rightarrow> (string \<Rightarrow> u8 list option)
      \<Rightarrow> string set \<Rightarrow> ('k, 'p, 'u) mqtt \<Rightarrow> bool" where
  "resumed i P h ok records r K st \<longleftrightarrow>
     i < length (items (clients st)) \<and> persistence_of (client_at i st) = Some P \<and> phandle (client_at i st) = h
   \<and> (\<forall>a \<ge> next_pub st. heap_pubs st a = None)
   \<and> ok (store st) \<and> (\<forall>k. records (store st) k = (if k \<in> K \<and> orphan r k then None else r k))
   \<and> resumed_lists r K st (items (outboundMsgs (client_at i st))) (items (inboundMsgs (client_at i st)))"

lemma first_at_insort:
  "f x \<notin> f ` set xs \<Longrightarrow>
   (case first_at (\<lambda>y. f x < f y) xs of None \<Rightarrow> xs @ [x] | Some i \<Rightarrow> take i xs @ x # drop i xs) = insort_key f x xs"
  by (induction xs) (auto split: option.splits)

lemma insertInOrder_insort:
  "m_msgid m \<notin> m_msgid ` set (items l) \<Longrightarrow> items (MQTTPersistence_insertInOrder m l) = insort_key m_msgid m (items l)"
  using first_at_insort [of m_msgid m "items l"]
  by (cases "first_at (\<lambda>x. m_msgid m < m_msgid x) (items l)")
    (simp_all add: MQTTPersistence_insertInOrder_def cl_insert_def cl_append_def)

lemma distinct_insort_publish: "distinct (map g (insort_key f x xs @ ys)) \<longleftrightarrow> g x \<notin> g ` set (xs @ ys) \<and> distinct (map g (xs @ ys))"
proof -
  have "mset (map g (insort_key f x xs @ ys)) = mset (g x # map g (xs @ ys))"
    by simp
  from mset_eq_imp_distinct_iff [OF this] show ?thesis
    by auto
qed

lemma keys_differ:
  "valid_id a \<Longrightarrow> valid_id b \<Longrightarrow> sent_key a = sent_key b \<longleftrightarrow> a = b"
  "valid_id a \<Longrightarrow> valid_id b \<Longrightarrow> received_key a = received_key b \<longleftrightarrow> a = b"
  "sent_key a \<noteq> release_key b" "sent_key a \<noteq> received_key b" "received_key a \<noteq> release_key b"
  by (simp_all add: persistence_keys decimal_inj)

lemma foreign_key:
  assumes "starts PERSISTENCE_COMMAND_KEY k \<or> starts PERSISTENCE_QUEUE_KEY k"
  shows "sent_key n \<noteq> k" "received_key n \<noteq> k" "release_key n \<noteq> k"
  using assms by (auto simp: starts_def persistence_keys)

lemma orphan_release: "orphan r k \<Longrightarrow> \<exists>n. k = release_key n"
  by (auto simp: orphan_def)

lemma restored_heap:
  assumes "restored st s m" "m_publish m \<noteq> next_pub st" "heap_pubs st' = (heap_pubs st)(next_pub st \<mapsto> x)"
  shows "restored st' s m"
  using assms by (simp add: restored_def)

lemma owned_below: "\<forall>a \<ge> next_pub st. heap_pubs st a = None \<Longrightarrow> restored st s m \<Longrightarrow> m_publish m < next_pub st"
  by (metis linorder_not_less option.distinct(1) restored_def)


lemma lists_heap:
  assumes "resumed_lists r K st outs ins" "\<forall>a \<ge> next_pub st. heap_pubs st a = None"
    and "heap_pubs st' = (heap_pubs st)(next_pub st \<mapsto> x)"
  shows "resumed_lists r K st' outs ins"
proof -
  have "restored st s m \<Longrightarrow> restored st' s m" for s m
    using restored_heap [OF _ _ assms(3), of s m] owned_below [OF assms(2), of s m] by fastforce
  then have "in_flight r st m \<Longrightarrow> in_flight r st' m" "awaits_release r st m \<Longrightarrow> awaits_release r st' m" for m
    by (auto simp: in_flight_def awaits_release_def)
  then show ?thesis
    using assms(1) by (simp add: resumed_lists_def)
qed

lemma lists_owned:
  assumes "resumed_lists r K st outs ins" "\<forall>a \<ge> next_pub st. heap_pubs st a = None" "m \<in> set (outs @ ins)"
  shows "m_publish m < next_pub st"
  using assms owned_below [OF assms(2)] by (auto simp: resumed_lists_def in_flight_def awaits_release_def)

lemma lists_same:
  assumes "resumed_lists r K st outs ins" "\<forall>n. sent_key n \<noteq> k" "\<forall>n. received_key n \<noteq> k"
  shows "resumed_lists r (insert k K) st outs ins"
  using assms unfolding resumed_lists_def by simp

lemma lists_received:
  assumes "resumed_lists r K st outs ins" "awaits_release r st m" "valid_id (m_msgid m)" "received_key (m_msgid m) \<notin> K"
    and "\<forall>m' \<in> set (outs @ ins). m_publish m' < m_publish m"
  shows "resumed_lists r (insert (received_key (m_msgid m)) K) st outs (ins @ [m])"
proof -
  have "{n. valid_id n \<and> received_key n \<in> insert (received_key (m_msgid m)) K} =
      insert (m_msgid m) {n. valid_id n \<and> received_key n \<in> K}"
    using assms(3) keys_differ(2) by auto
  moreover have "m_msgid m \<notin> m_msgid ` set ins"
    using assms(1,4) by (auto simp: resumed_lists_def)
  ultimately show ?thesis
    using assms unfolding resumed_lists_def by (auto simp: keys_differ)
qed

lemma lists_sent:
  assumes "resumed_lists r K st outs ins" "in_flight r st m" "valid_id (m_msgid m)" "sent_key (m_msgid m) \<notin> K"
    and "\<forall>m' \<in> set (outs @ ins). m_publish m' < m_publish m"
  shows "resumed_lists r (insert (sent_key (m_msgid m)) K) st (insort_key m_msgid m outs) ins"
    "m_msgid m \<notin> m_msgid ` set outs"
proof -
  have "{n. valid_id n \<and> sent_key n \<in> insert (sent_key (m_msgid m)) K} =
      insert (m_msgid m) {n. valid_id n \<and> sent_key n \<in> K}"
    using assms(3) keys_differ(1) by auto
  moreover show new: "m_msgid m \<notin> m_msgid ` set outs"
    using assms(1,4) by (auto simp: resumed_lists_def)
  moreover have "received_key n \<noteq> sent_key (m_msgid m)" for n
    using keys_differ(4) by metis
  ultimately show "resumed_lists r (insert (sent_key (m_msgid m)) K) st (insort_key m_msgid m outs) ins"
    using assms unfolding resumed_lists_def distinct_insort_publish
    by (auto simp: sorted_insort_key distinct_insort_key set_insort_key)
qed

context record_store
begin

lemma resume_received:
  assumes "resumed i P h ok records r K st" "received_key (sm_id s) \<notin> K"
    and "valid_msg s" "r (received_key (sm_id s)) = Some (publish_record s)"
  shows "\<exists>st'. restore_key E i P (received_key (sm_id s)) st = Done (0, st')
    \<and> resumed i P h ok records r (insert (received_key (sm_id s)) K) st'"
proof -
  let ?k = "received_key (sm_id s)"
  let ?c = "client_at i st"
  have id: "valid_id (sm_id s)"
    using assms(3) by (simp add: valid_msg_def)
  have no_orphan: "\<not> orphan r ?k"
    using keys_differ(5) orphan_release by metis
  note inv = assms(1) [unfolded resumed_def]
  have get: "pget P h ?k (store st) = ((0, publish_record s), store st)"
    using inv no_orphan assms(4) by (intro get) simp_all
  obtain m st1 where create: "MQTTProtocol_createMessage E (parsed s) None (int (sm_qos s)) (sm_retain s) st = Done (m, st1)"
    and m: "m_publish m = next_pub st" "m_msgid m = sm_id s" "m_qos m = int (sm_qos s)" "m_retain m = sm_retain s"
    and st1: "st1 = st\<lparr>heap_pubs := (heap_pubs st)(next_pub st \<mapsto> stored_form s),
        next_pub := next_pub st + 1, stored := cl_append (next_pub st) (stored st)\<rparr>"
    using create_restored [OF assms(3), of E st] by blast
  let ?m = "m\<lparr>nextMessageType := int (msg_code PUBREL)\<rparr>"
  let ?st = "upd_client i (\<lambda>c. c\<lparr>inboundMsgs := cl_append ?m (inboundMsgs c)\<rparr>) st1"
  have run: "restore_key E i P ?k st = Done (0, ?st)"
    using inv get create key_kinds(1,7,10) [OF id] header_flags(1) [OF assms(3)] header_flags(2) parse_publish_record [OF assms(3)]
    by (simp add: restore_key_def restore_pack_def persistence_keys Let_def) (simp add: parsed_def)
  have at: "client_at i ?st = ?c\<lparr>inboundMsgs := cl_append ?m (inboundMsgs ?c)\<rparr>"
    using inv by (subst client_at_upd) (simp_all add: st1 client_at_def)
  have lists: "resumed_lists r K ?st (items (outboundMsgs ?c)) (items (inboundMsgs ?c))"
    by (rule lists_heap [of r K st _ _ _ "stored_form s"]) (use inv in blast, use inv in blast, simp add: st1)
  have owned: "\<forall>m' \<in> set (items (outboundMsgs ?c) @ items (inboundMsgs ?c)). m_publish m' < next_pub st"
    using inv lists_owned by blast
  have waits: "awaits_release r ?st ?m"
    using m assms(3,4) by (auto simp: awaits_release_def restored_def st1)
  have "resumed_lists r (insert (received_key (m_msgid ?m)) K) ?st (items (outboundMsgs ?c)) (items (inboundMsgs ?c) @ [?m])"
    by (rule lists_received [OF lists waits]) (use id m assms(2) owned in simp_all)
  moreover have "m_msgid ?m = sm_id s"
    by (simp add: m)
  ultimately have "resumed_lists r (insert ?k K) ?st (items (outboundMsgs ?c)) (items (inboundMsgs ?c) @ [?m])"
    by simp
  then have "resumed i P h ok records r (insert ?k K) ?st"
    using inv no_orphan unfolding resumed_def at by (simp add: st1)
  with run show ?thesis
    by blast
qed

lemma resume_sent:
  assumes "resumed i P h ok records r K st" "sent_key (sm_id s) \<notin> K" "key_ok (release_key (sm_id s))"
    and "valid_msg s" "r (sent_key (sm_id s)) = Some (publish_record s)"
  shows "\<exists>st'. restore_key E i P (sent_key (sm_id s)) st = Done (0, st')
    \<and> resumed i P h ok records r (insert (sent_key (sm_id s)) K) st'"
proof -
  let ?k = "sent_key (sm_id s)"
  let ?c = "client_at i st"
  have id: "valid_id (sm_id s)"
    using assms(4) by (simp add: valid_msg_def)
  have no_orphan: "\<not> orphan r ?k" "\<not> orphan r (release_key (sm_id s))"
    using keys_differ(3) orphan_release assms(5) id by (metis, auto simp: orphan_def persistence_keys decimal_inj)
  note inv = assms(1) [unfolded resumed_def]
  have get: "pget P h ?k (store st) = ((0, publish_record s), store st)"
    using inv no_orphan assms(5) by (intro get) simp_all
  obtain found where found: "pcontainskey P h (release_key (sm_id s)) (store st) = (found, store st)"
    "found = 0 \<longleftrightarrow> r (release_key (sm_id s)) \<noteq> None"
    using contains [of "store st", OF _ assms(3)] inv no_orphan(2) by auto
  obtain m st1 where create: "MQTTProtocol_createMessage E (parsed s) None (int (sm_qos s)) (sm_retain s) st = Done (m, st1)"
    and m: "m_publish m = next_pub st" "m_msgid m = sm_id s" "m_qos m = int (sm_qos s)" "m_retain m = sm_retain s"
      "sm_qos s = 2 \<longrightarrow> nextMessageType m = int (msg_code PUBREC)"
    and st1: "st1 = st\<lparr>heap_pubs := (heap_pubs st)(next_pub st \<mapsto> stored_form s),
        next_pub := next_pub st + 1, stored := cl_append (next_pub st) (stored st)\<rparr>"
    using create_restored [OF assms(4), of E st] by blast
  define m' where "m' = (if found = 0 then m\<lparr>nextMessageType := int (msg_code PUBCOMP)\<rparr> else m)\<lparr>lastTouch := 0\<rparr>"
  have m': "m_publish m' = next_pub st" "m_msgid m' = sm_id s" "m_qos m' = int (sm_qos s)" "m_retain m' = sm_retain s"
    using m by (simp_all add: m'_def)
  let ?st = "upd_client i (\<lambda>c. c\<lparr>outboundMsgs := MQTTPersistence_insertInOrder m' (outboundMsgs c)\<rparr>) st1"
  have key: "key_into (MESSAGE_FILENAME_LENGTH + 1) ''sc-'' (sm_id s) = Done (release_key (sm_id s))"
    using key_into_id [OF id, of "''sc-''"] by (simp add: persistence_keys)
  have run: "restore_key E i P ?k st = Done (0, ?st)"
    using inv get found(1) create key key_kinds [OF id] header_flags(1) [OF assms(4)] header_flags(2) parse_publish_record [OF assms(4)]
    by (simp add: restore_key_def restore_pack_def persistence_keys Let_def) (simp add: parsed_def st1 m'_def)
  have at: "client_at i ?st = ?c\<lparr>outboundMsgs := MQTTPersistence_insertInOrder m' (outboundMsgs ?c)\<rparr>"
    using inv by (subst client_at_upd) (simp_all add: st1 client_at_def)
  have lists: "resumed_lists r K ?st (items (outboundMsgs ?c)) (items (inboundMsgs ?c))"
    by (rule lists_heap [of r K st _ _ _ "stored_form s"]) (use inv in blast, use inv in blast, simp add: st1)
  have owned: "\<forall>m \<in> set (items (outboundMsgs ?c) @ items (inboundMsgs ?c)). m_publish m < next_pub st"
    using inv lists_owned by blast
  have flight: "in_flight r ?st m'"
    using m m' assms(4,5) found(2) by (auto simp: in_flight_def restored_def st1 m'_def)
  note sent = lists_sent [OF lists flight, unfolded m', OF id assms(2) owned]
  then have "resumed_lists r (insert ?k K) ?st (items (MQTTPersistence_insertInOrder m' (outboundMsgs ?c))) (items (inboundMsgs ?c))"
    using insertInOrder_insort [of m' "outboundMsgs ?c", unfolded m'(2)] by simp
  then have "resumed i P h ok records r (insert ?k K) ?st"
    using inv no_orphan unfolding resumed_def at by (simp add: st1)
  with run show ?thesis
    by blast
qed

lemma resume_other:
  assumes "resumed i P h ok records r K st" "starts PERSISTENCE_COMMAND_KEY k \<or> starts PERSISTENCE_QUEUE_KEY k"
  shows "restore_key E i P k st = Done (0, st)" "resumed i P h ok records r (insert k K) st"
proof -
  have "\<not> orphan r k"
    using foreign_key [OF assms(2)] orphan_release by metis
  moreover have "resumed_lists r (insert k K) st (items (outboundMsgs (client_at i st))) (items (inboundMsgs (client_at i st)))"
    using assms(1) foreign_key [OF assms(2)] by (intro lists_same) (simp_all add: resumed_def)
  ultimately show "resumed i P h ok records r (insert k K) st"
    using assms(1) by (simp add: resumed_def)
  show "restore_key E i P k st = Done (0, st)"
    using assms(2) by (auto simp: restore_key_def Let_def)
qed

lemma resume_release:
  assumes "resumed i P h ok records r K st" "release_key n \<notin> K" "key_ok (release_key n)" "key_ok (sent_key n)"
    and "valid_id n" "r (release_key n) = Some (release_record n dup)"
  shows "\<exists>st'. restore_key E i P (release_key n) st = Done (0, st')
    \<and> resumed i P h ok records r (insert (release_key n) K) st'"
proof -
  let ?k = "release_key n"
  note inv = assms(1) [unfolded resumed_def]
  have get: "pget P h ?k (store st) = ((0, release_record n dup), store st)"
    using inv assms(2,6) by (intro get) simp_all
  have "\<not> orphan r (sent_key n)"
    using keys_differ(3) orphan_release by metis
  then obtain found where found: "pcontainskey P h (sent_key n) (store st) = (found, store st)"
    "found = 0 \<longleftrightarrow> r (sent_key n) \<noteq> None"
    using contains [of "store st", OF _ assms(4)] inv by auto
  have orphan: "orphan r ?k \<longleftrightarrow> r (sent_key n) = None"
    using assms(5) by (auto simp: orphan_def persistence_keys decimal_inj)
  have lists: "resumed_lists r (insert ?k K) st (items (outboundMsgs (client_at i st))) (items (inboundMsgs (client_at i st)))"
    using inv keys_differ(3,5) by (intro lists_same) simp_all
  have key: "key_into (MESSAGE_FILENAME_LENGTH + 1) ''s-'' n = Done (sent_key n)"
    using key_into_id [OF assms(5), of "''s-''"] by (simp add: persistence_keys)
  have step: "restore_key E i P ?k st = (if found \<noteq> 0 then let (rc, p) = premove P h ?k (store st) in Done (rc, st\<lparr>store := p\<rparr>)
      else Done (0, st))"
    using inv get found(1) key key_kinds [OF assms(5)] parse_release_record [OF assms(5)]
    by (simp add: restore_key_def restore_pack_def persistence_keys Let_def)
  show ?thesis
  proof (cases "found = 0")
    case True
    then have "resumed i P h ok records r (insert ?k K) st"
      using inv lists found(2) orphan by (auto simp: resumed_def)
    then show ?thesis
      using step True by simp
  next
    case False
    obtain q where q: "premove P h ?k (store st) = (0, q)" "ok q" "records q = (records (store st))(?k := None)"
      using remove [of "store st", OF _ assms(3)] inv by blast
    let ?st = "st\<lparr>store := q\<rparr>"
    have at: "client_at i ?st = client_at i st"
      by (simp add: client_at_def)
    have "resumed_lists r (insert ?k K) ?st (items (outboundMsgs (client_at i st))) (items (inboundMsgs (client_at i st)))"
      using lists by (simp add: resumed_lists_def in_flight_def awaits_release_def restored_def)
    then have "resumed i P h ok records r (insert ?k K) ?st"
      using inv q False found(2) orphan by (auto simp: resumed_def at)
    then show ?thesis
      using step False q(1) by auto
  qed
qed

lemma resume_key:
  assumes "resumed i P h ok records r K st" "k \<notin> K" "r k = Some b" "session_record k b"
    and "\<And>n. valid_id n \<Longrightarrow> key_ok (sent_key n) \<and> key_ok (release_key n)"
  shows "\<exists>st'. restore_key E i P k st = Done (0, st') \<and> resumed i P h ok records r (insert k K) st'"
  using assms(4) unfolding session_record_def
proof (elim disjE exE conjE)
  fix m assume "valid_msg m" "k = sent_key (sm_id m)" "b = publish_record m"
  moreover from this have "key_ok (release_key (sm_id m))"
    using assms(5) by (simp add: valid_msg_def)
  ultimately show ?thesis
    using resume_sent [of i r K st m] assms(1-3) by simp
next
  fix m assume "valid_msg m" "k = received_key (sm_id m)" "b = publish_record m"
  then show ?thesis
    using resume_received [of i r K st m] assms(1-3) by simp
next
  fix n dup assume "valid_id n" "k = release_key n" "b = release_record n dup"
  then show ?thesis
    using resume_release [of i r K st n dup] assms by simp
qed (use resume_other [OF assms(1)] in blast)+

lemma resume_keys:
  assumes "resumed i P h ok records r K st" "distinct ks" "set ks \<inter> K = {}" "set ks \<subseteq> dom r" "session_records r"
    and "\<And>n. valid_id n \<Longrightarrow> key_ok (sent_key n) \<and> key_ok (release_key n)"
  shows "\<exists>st'. restore_keys E i P ks st = Done (0, st') \<and> resumed i P h ok records r (set ks \<union> K) st'"
  using assms(1-4)
proof (induction ks arbitrary: K st)
  case (Cons k ks)
  then obtain b where "r k = Some b"
    by auto
  then obtain st1 where st1: "restore_key E i P k st = Done (0, st1)" "resumed i P h ok records r (insert k K) st1"
    using resume_key [where E = E, OF Cons.prems(1), of k b] Cons.prems(3) assms(5,6) by (fastforce simp: session_records_def)
  then show ?case
    using Cons.IH [OF st1(2)] Cons.prems(2-4) by auto
qed simp

end

section \<open>The order of the ids\<close>

text \<open>How many ids after \<open>a\<close> the id \<open>b\<close> comes, 1 following \<open>MAX_MSG_ID\<close>.\<close>

definition cyclic_gap :: "int \<Rightarrow> int \<Rightarrow> int" where
  "cyclic_gap a b = (b - a) mod MAX_MSG_ID"

lemma gap_loop_kept: "\<forall>j. Suc j < length ids \<longrightarrow> ids ! Suc j - ids ! j \<le> g \<Longrightarrow> gap_loop g w k ids = w"
proof (induction g w k ids rule: gap_loop.induct)
  case (1 g w k a b ids)
  from 1(3) have "b - a \<le> g" "\<forall>j. Suc j < length (b # ids) \<longrightarrow> (b # ids) ! Suc j - (b # ids) ! j \<le> g"
    by force+
  then show ?case
    using 1(2) by simp
qed auto

lemma gap_loop_found:
  assumes "Suc n < length ids" "g < ids ! Suc n - ids ! n"
    and "\<forall>j. Suc j < length ids \<longrightarrow> j \<noteq> n \<longrightarrow> ids ! Suc j - ids ! j < ids ! Suc n - ids ! n"
  shows "gap_loop g w k ids = Some (k + n)"
  using assms
proof (induction g w k ids arbitrary: n rule: gap_loop.induct)
  case (1 g w k a b ids)
  show ?case
  proof (cases n)
    case 0
    have "(b # ids) ! Suc j - (b # ids) ! j \<le> b - a" if "Suc j < length (b # ids)" for j
      using 1(5) that unfolding 0 by (metis One_nat_def Suc_less_eq length_Cons less_imp_le nat.distinct(1) nth_Cons_0 nth_Cons_Suc)
    then show ?thesis
      using 1(4) gap_loop_kept [of "b # ids" "b - a"] unfolding 0 by simp
  next
    case (Suc n')
    have other: "\<forall>j. Suc j < length (b # ids) \<longrightarrow> j \<noteq> n' \<longrightarrow> (b # ids) ! Suc j - (b # ids) ! j < (b # ids) ! Suc n' - (b # ids) ! n'"
      using 1(5) unfolding Suc by (metis Suc_less_eq length_Cons nat.inject nth_Cons_Suc)
    have "b - a < (b # ids) ! Suc n' - (b # ids) ! n'"
      using 1(3,5) unfolding Suc by (metis One_nat_def Suc_less_eq length_Cons nat.distinct(1) nth_Cons_0 nth_Cons_Suc zero_less_Suc)
    then show ?thesis
      using 1(1) [of n'] 1(2) [of n'] 1(3,4) other unfolding Suc by simp
  qed
qed auto


lemma set_turned: "set (drop w xs) \<union> set (take w xs) = set xs"
proof -
  have "set (take w xs @ drop w xs) = set xs"
    by (simp only: append_take_drop_id)
  then show ?thesis
    unfolding set_append by blast
qed

lemma ids_wrapped:
  assumes "sorted (lo @ hi)" "distinct (hi @ lo)" "\<forall>n \<in> set (hi @ lo). valid_id n" "hi \<noteq> []"
    and "2 * cyclic_gap (hd (hi @ lo)) (last (hi @ lo)) < MAX_MSG_ID"
  shows "gap_loop (MAX_MSG_ID - last (lo @ hi) + hd (lo @ hi)) None 1 (lo @ hi) = (if lo = [] then None else Some (length lo))"
proof (cases "lo = []")
  case True
  have "hi ! Suc j - hi ! j \<le> MAX_MSG_ID - last hi + hd hi" if j: "Suc j < length hi" for j
  proof -
    have "hi ! 0 \<le> hi ! j" "hi ! Suc j \<le> hi ! (length hi - 1)" "hi ! 0 \<le> hi ! (length hi - 1)"
      using assms(1) j True by (intro sorted_nth_mono; simp)+
    moreover have "1 \<le> hi ! 0" "hi ! (length hi - 1) \<le> MAX_MSG_ID"
      using assms(3,4) True by (auto simp: valid_id_def)
    ultimately show ?thesis
      using assms(5) True assms(4) by (simp add: cyclic_gap_def MAX_MSG_ID_def hd_conv_nth last_conv_nth)
  qed
  then show ?thesis
    using True gap_loop_kept by simp
next
  case False
  let ?ids = "lo @ hi" and ?n = "length lo - 1" and ?l = "length (lo @ hi) - 1"
  have span: "MAX_MSG_ID < 2 * (hi ! 0 - last lo)"
  proof -
    have "last lo \<in> set lo" "hi ! 0 \<in> set hi"
      using assms(4) False by simp_all
    then have "last lo < hi ! 0" "1 \<le> last lo" "hi ! 0 \<le> MAX_MSG_ID"
      using assms(1-3) by (auto simp: valid_id_def sorted_append less_le)
    then have "cyclic_gap (hi ! 0) (last lo) = MAX_MSG_ID - (hi ! 0 - last lo)"
      unfolding cyclic_gap_def using mod_add_self2 [of "last lo - hi ! 0" MAX_MSG_ID]
      by (simp add: MAX_MSG_ID_def mod_pos_pos_trivial algebra_simps)
    then show ?thesis
      using assms(4,5) False by (simp add: hd_conv_nth nth_append)
  qed
  have at: "?ids ! Suc ?n = hi ! 0" "?ids ! ?n = last lo" "Suc ?n < length ?ids"
    using False assms(4) by (simp_all add: nth_append last_conv_nth)
  have mono: "?ids ! a \<le> ?ids ! b" if "a \<le> b" "b < length ?ids" for a b
    using assms(1) that by (rule sorted_nth_mono)
  have range: "1 \<le> ?ids ! a" "?ids ! a \<le> MAX_MSG_ID" if "a < length ?ids" for a
    using assms(3) nth_mem [OF that] by (auto simp: valid_id_def)
  have ends: "last ?ids = ?ids ! ?l" "hd ?ids = ?ids ! 0"
    using assms(4) by (simp_all add: last_conv_nth hd_conv_nth)
  have "?ids ! Suc j - ?ids ! j < hi ! 0 - last lo" if j: "Suc j < length ?ids" "j \<noteq> ?n" for j
  proof (cases "j < ?n")
    case True
    then have "?ids ! Suc j \<le> last lo" "1 \<le> ?ids ! j" "hi ! 0 \<le> MAX_MSG_ID"
      using mono [of "Suc j" ?n] at range [of j] range [of "Suc ?n"] j by simp_all
    moreover have "x \<le> l \<Longrightarrow> 1 \<le> y \<Longrightarrow> f \<le> M \<Longrightarrow> M < 2 * (f - l) \<Longrightarrow> x - y < f - l" for x l y f M :: int
      by arith
    ultimately show ?thesis
      using span by blast
  next
    case False
    then have "hi ! 0 \<le> ?ids ! j" "?ids ! Suc j \<le> MAX_MSG_ID" "1 \<le> last lo"
      using mono [of "Suc ?n" j] at range [of "Suc j"] range [of ?n] j by simp_all
    moreover have "f \<le> y \<Longrightarrow> x \<le> M \<Longrightarrow> 1 \<le> l \<Longrightarrow> M < 2 * (f - l) \<Longrightarrow> x - y < f - l" for x l y f M :: int
      by arith
    ultimately show ?thesis
      using span by blast
  qed
  moreover have "MAX_MSG_ID - last ?ids + hd ?ids < hi ! 0 - last lo"
  proof -
    have "?ids ! 0 \<le> last lo" "hi ! 0 \<le> ?ids ! ?l"
      using mono [of 0 ?n] mono [of "Suc ?n" ?l] at by simp_all
    then show ?thesis
      using span unfolding ends by arith
  qed
  ultimately show ?thesis
    using gap_loop_found [of ?n ?ids _ None 1] at False by simp
qed


text \<open>Turning the list puts the ids back into the order they were given out in.\<close>

lemma wrap_list_ids:
  assumes "map m_msgid (items l) = lo @ hi" "sorted (lo @ hi)" "distinct (hi @ lo)" "\<forall>n \<in> set (hi @ lo). valid_id n"
    and "hi \<noteq> []" "2 * cyclic_gap (hd (hi @ lo)) (last (hi @ lo)) < MAX_MSG_ID"
  shows "map m_msgid (items (wrap_list l)) = hi @ lo"
    "set (items (wrap_list l)) = set (items l)"
proof -
  obtain m ms where l: "items l = m # ms"
    using assms(1,5) by (cases "items l") auto
  have "m_msgid (last (items l)) = last (lo @ hi)" "m_msgid m = hd (lo @ hi)"
    using assms(1) [symmetric] l by (simp_all add: last_map)
  then have eq: "wrap_list l = (if lo = [] then l else rotate_to (length lo) l)"
    using ids_wrapped [OF assms(2-6)] assms(1) l by (simp add: wrap_list_def Let_def)
  show "map m_msgid (items (wrap_list l)) = hi @ lo"
    using assms(1) by (simp add: eq rotate_to_def drop_map [symmetric] take_map [symmetric])
  show "set (items (wrap_list l)) = set (items l)"
    using set_turned [of "length lo" "items l"] by (simp add: eq rotate_to_def)
qed

text \<open>
  C25: What was in flight when the process ended is in flight again after the restart, over any store
  that keeps its contract.  When the store holds the records of a session, the restore returns 0;
  the outgoing messages are those with a publication record, each with its own publication, its
  quality of service and the next packet that its records call for, in the order in which their ids
  \<open>hi @ lo\<close> were given out, also when they wrapped, as long as they lie within half of the range; the
  incoming messages are those that await a release; and the store has lost nothing but the releases
  without a publication.
\<close>

theorem restart_resumes:
  fixes st :: "('k, 'p, 'u) mqtt"
  assumes "record_store P h ok records key_ok" "\<And>n. valid_id n \<Longrightarrow> key_ok (sent_key n) \<and> key_ok (release_key n)"
    and client: "i < length (items (clients st))" "persistence_of (client_at i st) = Some P" "phandle (client_at i st) = h"
      "items (outboundMsgs (client_at i st)) = []" "items (inboundMsgs (client_at i st)) = []"
    and fresh: "\<forall>a \<ge> next_pub st. heap_pubs st a = None"
    and "ok (store st)" "session_records (records (store st))"
    and ids: "{n. valid_id n \<and> records (store st) (sent_key n) \<noteq> None} = set (hi @ lo)" "sorted (lo @ hi)" "distinct (hi @ lo)"
      "hi = [] \<longrightarrow> lo = []" "hi \<noteq> [] \<longrightarrow> 2 * cyclic_gap (hd (hi @ lo)) (last (hi @ lo)) < MAX_MSG_ID"
  shows "\<exists>st'. MQTTPersistence_restore E i st = Done (0, st')
    \<and> map m_msgid (items (outboundMsgs (client_at i st'))) = hi @ lo
    \<and> (\<forall>m \<in> set (items (outboundMsgs (client_at i st'))). in_flight (records (store st)) st' m)
    \<and> m_msgid ` set (items (inboundMsgs (client_at i st'))) = {n. valid_id n \<and> records (store st) (received_key n) \<noteq> None}
    \<and> (\<forall>m \<in> set (items (inboundMsgs (client_at i st'))). awaits_release (records (store st)) st' m)
    \<and> ok (store st') \<and> records (store st') = without_orphans (records (store st))"
proof -
  let ?r = "records (store st)"
  obtain ks where ks: "pkeys P h (store st) = ((0, ks), store st)" "distinct ks" "set ks = dom ?r"
    using record_store.keys [OF assms(1,9)] by blast
  have "resumed i P h ok records ?r {} st"
    using assms by (simp add: resumed_def resumed_lists_def)
  then obtain st1 where run: "restore_keys E i P ks st = Done (0, st1)" and inv: "resumed i P h ok records ?r (dom ?r) st1"
    using record_store.resume_keys [OF assms(1) _ ks(2) _ _ assms(10), where i = i and K = "{}" and E = E and st = st] assms(2) ks(3)
    by auto
  note inv = inv [unfolded resumed_def resumed_lists_def]
  let ?l = "outboundMsgs (client_at i st1)"
  let ?st = "MQTTPersistence_wrapMsgID i st1"
  have at: "client_at i ?st = (client_at i st1)\<lparr>outboundMsgs := wrap_list ?l\<rparr>"
    using inv by (simp add: MQTTPersistence_wrapMsgID_def client_at_upd)
  have "set (map m_msgid (items ?l)) = set (lo @ hi)"
    using inv ids(1) by auto
  then have sorted: "map m_msgid (items ?l) = lo @ hi"
    using inv ids(2,3) by (intro sorted_distinct_set_unique) auto
  have wrapped: "map m_msgid (items (wrap_list ?l)) = hi @ lo \<and> set (items (wrap_list ?l)) = set (items ?l)"
  proof (cases "hi = []")
    case True
    then show ?thesis
      using ids(4) sorted by (simp add: wrap_list_def)
  next
    case False
    moreover have "\<forall>n \<in> set (hi @ lo). valid_id n"
      using ids(1) by blast
    ultimately show ?thesis
      using wrap_list_ids [OF sorted ids(2,3)] ids(5) by simp
  qed
  have same: "in_flight ?r ?st m = in_flight ?r st1 m" "awaits_release ?r ?st m = awaits_release ?r st1 m" "store ?st = store st1" for m
    by (simp_all add: in_flight_def awaits_release_def restored_def MQTTPersistence_wrapMsgID_def)
  have "MQTTPersistence_restore E i st = Done (0, ?st)"
    using client ks(1) run by (simp add: MQTTPersistence_restore_def)
  moreover have "records (store st1) = without_orphans ?r"
    using inv by (auto simp: without_orphans_def fun_eq_iff dom_def)
  moreover have "m_msgid ` set (items (inboundMsgs (client_at i st1))) = {n. valid_id n \<and> ?r (received_key n) \<noteq> None}"
    using inv by (auto simp: dom_def)
  ultimately show ?thesis
    using inv wrapped by (intro exI [of _ ?st]) (simp add: at same)
qed

end
