(* ===== verification/File_Store.thy ===== *)
theory File_Store
  imports Mqtt_State
begin

text \<open>
  The persistence implementation of \<^verbatim>\<open>mqtt/source/MQTTPersistenceDefault.c\<close> in its build for Unix: a
  directory per client, a file per record.  The system calls and stdio functions it uses are written
  out over a disk, a list of paths with their contents; paths are resolved as the kernel does it,
  without symbolic links.  The order in which \<open>readdir\<close> lists a directory is a parameter.
\<close>

section \<open>The disk\<close>

type_synonym path = "string list"

datatype node = File "u8 list" | Dir

text \<open>
  A directory is \<open>locked\<close> when the process may not add or remove entries.  \<open>write_limit\<close> is the number
  of bytes an output stream takes before \<open>fwrite\<close> reports an error, if there is one; \<open>fclose\<close>, whose
  result the code ignores, is taken to succeed.
\<close>

record disk =
  nodes :: "(path \<times> node) list"
  locked :: "path \<Rightarrow> bool"
  cwd :: path
  write_limit :: "nat option"

datatype errno = ENOENT | EEXIST | ENOTDIR | EISDIR | ENOTEMPTY | EACCES | EBUSY

text \<open>The tokens that repeated calls of \<open>strtok_r\<close> return.\<close>

fun tokens_from :: "(char \<Rightarrow> bool) \<Rightarrow> string \<Rightarrow> string \<Rightarrow> string list" where
  "tokens_from sep w [] = (if w = [] then [] else [w])"
| "tokens_from sep w (c # s) =
     (if sep c then (if w = [] then [] else [w]) @ tokens_from sep [] s else tokens_from sep (w @ [c]) s)"

definition strtok_all :: "(char \<Rightarrow> bool) \<Rightarrow> string \<Rightarrow> string list" where
  "strtok_all sep s = tokens_from sep [] s"

definition walk :: "path \<Rightarrow> string \<Rightarrow> path" where
  "walk p name = (if name = ''.'' then p else if name = ''..'' then butlast p else p @ [name])"

definition resolve :: "path \<Rightarrow> string \<Rightarrow> path" where
  "resolve base s =
     foldl walk (if s \<noteq> [] \<and> hd s = CHR ''/'' then [] else base) (strtok_all (\<lambda>c. c = CHR ''/'') s)"

definition node_at_path :: "('a) disk_scheme \<Rightarrow> path \<Rightarrow> node option" where
  "node_at_path d p = (if p = [] then Some Dir else map_of (nodes d) p)"

definition set_node :: "path \<Rightarrow> node \<Rightarrow> 'a disk_scheme \<Rightarrow> 'a disk_scheme" where
  "set_node p n d = d\<lparr>nodes := (p, n) # filter (\<lambda>(q, _). q \<noteq> p) (nodes d)\<rparr>"

definition del_node :: "path \<Rightarrow> 'a disk_scheme \<Rightarrow> 'a disk_scheme" where
  "del_node p d = d\<lparr>nodes := filter (\<lambda>(q, _). q \<noteq> p) (nodes d)\<rparr>"

text \<open>The error of a path that names nothing.\<close>

definition missing :: "'a disk_scheme \<Rightarrow> path \<Rightarrow> errno" where
  "missing d p = (case node_at_path d (butlast p) of Some (File _) \<Rightarrow> ENOTDIR | _ \<Rightarrow> ENOENT)"

definition names_in :: "'a disk_scheme \<Rightarrow> path \<Rightarrow> string list" where
  "names_in d dir = map last (filter (\<lambda>p. p \<noteq> [] \<and> butlast p = dir) (map fst (nodes d)))"

section \<open>The calls\<close>

definition mkdir :: "string \<Rightarrow> 'a disk_scheme \<Rightarrow> errno option \<times> 'a disk_scheme" where
  "mkdir s d =
     (let p = resolve (cwd d) s in
      if node_at_path d p \<noteq> None then (Some EEXIST, d)
      else if node_at_path d (butlast p) \<noteq> Some Dir then (Some (missing d p), d)
      else if locked d (butlast p) then (Some EACCES, d)
      else (None, set_node p Dir d))"

definition rmdir :: "string \<Rightarrow> 'a disk_scheme \<Rightarrow> errno option \<times> 'a disk_scheme" where
  "rmdir s d =
     (let p = resolve (cwd d) s in
      if p = [] then (Some EBUSY, d)
      else case node_at_path d p of
        None \<Rightarrow> (Some (missing d p), d)
      | Some (File _) \<Rightarrow> (Some ENOTDIR, d)
      | Some Dir \<Rightarrow> if names_in d p \<noteq> [] then (Some ENOTEMPTY, d)
          else if locked d (butlast p) then (Some EACCES, d)
          else (None, del_node p d))"

definition unlink :: "string \<Rightarrow> 'a disk_scheme \<Rightarrow> errno option \<times> 'a disk_scheme" where
  "unlink s d =
     (let p = resolve (cwd d) s in
      case node_at_path d p of
        None \<Rightarrow> (Some (missing d p), d)
      | Some Dir \<Rightarrow> (Some EISDIR, d)
      | Some (File _) \<Rightarrow> if locked d (butlast p) then (Some EACCES, d) else (None, del_node p d))"

text \<open>\<open>fopen(s, "wb")\<close>: whether there is a stream; the file is empty then.\<close>

definition fopen_w :: "string \<Rightarrow> 'a disk_scheme \<Rightarrow> bool \<times> 'a disk_scheme" where
  "fopen_w s d =
     (let p = resolve (cwd d) s in
      case node_at_path d p of
        Some Dir \<Rightarrow> (False, d)
      | Some (File _) \<Rightarrow> (True, set_node p (File []) d)
      | None \<Rightarrow> if node_at_path d (butlast p) = Some Dir \<and> \<not> locked d (butlast p)
          then (True, set_node p (File []) d) else (False, d))"

text \<open>\<open>fwrite\<close> to the stream of the file \<open>s\<close>, which holds \<open>bytes\<close>: the number of bytes it took.\<close>

definition fwrite :: "string \<Rightarrow> u8 list \<Rightarrow> 'a disk_scheme \<Rightarrow> nat \<times> 'a disk_scheme" where
  "fwrite s bytes d =
     (let p = resolve (cwd d) s in
      case node_at_path d p of
        Some (File old) \<Rightarrow>
          (let n = (case write_limit d of None \<Rightarrow> length bytes | Some m \<Rightarrow> min (length bytes) (m - length old))
           in (n, set_node p (File (old @ take n bytes)) d))
      | _ \<Rightarrow> (0, d))"

text \<open>The directory entries \<open>readdir\<close> returns, the two dots included; \<open>None\<close> when \<open>opendir\<close> fails.\<close>

definition list_dir :: "(string list \<Rightarrow> string list) \<Rightarrow> string \<Rightarrow> 'a disk_scheme \<Rightarrow> string list option" where
  "list_dir order s d =
     (let p = resolve (cwd d) s in
      if node_at_path d p = Some Dir then Some (order ([''.'', ''..''] @ names_in d p)) else None)"

text \<open>\<open>S_ISREG\<close> of what \<open>lstat\<close> finds, \<open>None\<close> when it fails.\<close>

definition lstat_isreg :: "string \<Rightarrow> 'a disk_scheme \<Rightarrow> bool option" where
  "lstat_isreg s d =
     (case node_at_path d (resolve (cwd d) s) of None \<Rightarrow> None | Some (File _) \<Rightarrow> Some True | Some Dir \<Rightarrow> Some False)"

section \<open>The implementation\<close>

definition MESSAGE_FILENAME_EXTENSION :: string where "MESSAGE_FILENAME_EXTENSION = ''.msg''"

text \<open>A handle is a pointer to the name of the directory of the client: a number, 0 for null.\<close>

record filestore = disk +
  opened :: "(int \<times> string) list"
  next_handle :: int

definition text_of :: "u8 list \<Rightarrow> string" where
  "text_of bs = map (\<lambda>b. char_of (unat b)) bs"

definition file_of :: "string \<Rightarrow> string \<Rightarrow> string" where
  "file_of clientDir key = clientDir @ ''/'' @ key @ MESSAGE_FILENAME_EXTENSION"

definition pstmkdir :: "string \<Rightarrow> 'a disk_scheme \<Rightarrow> int \<times> 'a disk_scheme" where
  "pstmkdir pPathname d =
     (let (e, d) = mkdir pPathname d in
      case e of None \<Rightarrow> (0, d) | Some e \<Rightarrow> (if e \<noteq> EEXIST then MQTTCLIENT_PERSISTENCE_ERROR else 0, d))"

text \<open>The loop over the levels of the directory.\<close>

fun make_dirs :: "string \<Rightarrow> string list \<Rightarrow> 'a disk_scheme \<Rightarrow> int \<times> 'a disk_scheme" where
  "make_dirs pCrtDirName [] d = (0, d)"
| "make_dirs pCrtDirName (pToken # toks) d =
     (let pCrtDirName = pCrtDirName @ ''/'' @ pToken; (rc, d) = pstmkdir pCrtDirName d in
      if rc = 0 then make_dirs pCrtDirName toks d else (rc, d))"

text \<open>
  \<open>strstr\<close> finds the colon of the address, which is assumed to be there; the first token is assumed
  to exist.
\<close>

definition pstopen ::
    "string \<Rightarrow> u8 list \<Rightarrow> u8 list \<Rightarrow> filestore \<Rightarrow> ((int \<times> int) \<times> filestore) outcome" where
  "pstopen dataDir cid serverURI d =
     (let uri = text_of serverURI in
      case first_at (\<lambda>c. c = CHR '':'') uri of
        None \<Rightarrow> Fault
      | Some i \<Rightarrow>
          let perserverURI = uri[i := CHR ''-''];
              clientDir = dataDir @ ''/'' @ text_of cid @ ''-'' @ perserverURI in
          case strtok_all (\<lambda>c. c = CHR 0x5C \<or> c = CHR ''/'') clientDir of
            [] \<Rightarrow> Fault
          | pToken # toks \<Rightarrow>
              let (rc, d) = pstmkdir pToken d;
                  (rc, d) = (if rc = 0 then make_dirs pToken toks d else (rc, d));
                  h = next_handle d in
              Done ((rc, h), d\<lparr>opened := (h, clientDir) # opened d, next_handle := h + 1\<rparr>))"

fun write_bufs :: "string \<Rightarrow> u8 list list \<Rightarrow> nat \<Rightarrow> nat \<Rightarrow> 'a disk_scheme \<Rightarrow> nat \<times> nat \<times> 'a disk_scheme" where
  "write_bufs file [] bytesWritten bytesTotal d = (bytesWritten, bytesTotal, d)"
| "write_bufs file (b # bs) bytesWritten bytesTotal d =
     (let (n, d) = fwrite file b d in write_bufs file bs (bytesWritten + n) (bytesTotal + length b) d)"

definition pstremove :: "string option \<Rightarrow> string \<Rightarrow> 'a disk_scheme \<Rightarrow> int \<times> 'a disk_scheme" where
  "pstremove handle key d =
     (case handle of None \<Rightarrow> (MQTTCLIENT_PERSISTENCE_ERROR, d)
      | Some clientDir \<Rightarrow>
          (let (e, d) = unlink (file_of clientDir key) d in
           case e of None \<Rightarrow> (0, d) | Some e \<Rightarrow> (if e \<noteq> ENOENT then MQTTCLIENT_PERSISTENCE_ERROR else 0, d)))"

definition pstput :: "string option \<Rightarrow> string \<Rightarrow> u8 list list \<Rightarrow> 'a disk_scheme \<Rightarrow> int \<times> 'a disk_scheme" where
  "pstput handle key buffers d =
     (case handle of None \<Rightarrow> (MQTTCLIENT_PERSISTENCE_ERROR, d)
      | Some clientDir \<Rightarrow>
          (let file = file_of clientDir key;
               (fp, d) = fopen_w file d;
               (rc, bytesWritten, bytesTotal, d) =
                 (if fp then (let (w, t, d) = write_bufs file buffers 0 0 d in (0, w, t, d))
                  else (MQTTCLIENT_PERSISTENCE_ERROR, 0, 0, d)) in
           if bytesWritten \<noteq> bytesTotal then (MQTTCLIENT_PERSISTENCE_ERROR, snd (pstremove handle key d)) else (rc, d)))"

text \<open>The data is unset when the file cannot be opened; a directory can be opened but not read.\<close>

definition pstget :: "string option \<Rightarrow> string \<Rightarrow> 'a disk_scheme \<Rightarrow> (int \<times> u8 list) \<times> 'a disk_scheme" where
  "pstget handle key d =
     (case handle of None \<Rightarrow> ((MQTTCLIENT_PERSISTENCE_ERROR, []), d)
      | Some clientDir \<Rightarrow>
          (case node_at_path d (resolve (cwd d) (file_of clientDir key)) of
             Some (File buf) \<Rightarrow> ((0, buf), d)
           | _ \<Rightarrow> ((MQTTCLIENT_PERSISTENCE_ERROR, []), d)))"

definition pstclose :: "string option \<Rightarrow> 'a disk_scheme \<Rightarrow> int \<times> 'a disk_scheme" where
  "pstclose handle d =
     (case handle of None \<Rightarrow> (MQTTCLIENT_PERSISTENCE_ERROR, d)
      | Some clientDir \<Rightarrow>
          (let (e, d) = rmdir clientDir d in
           case e of None \<Rightarrow> (0, d)
           | Some e \<Rightarrow> (if e \<noteq> ENOENT \<and> e \<noteq> ENOTEMPTY then MQTTCLIENT_PERSISTENCE_ERROR else 0, d)))"

text \<open>\<open>strstr(name, ".msg")\<close> and the cut there.\<close>

fun cut_at :: "string \<Rightarrow> string \<Rightarrow> string" where
  "cut_at ext [] = []"
| "cut_at ext (c # s) = (if take (length ext) (c # s) = ext then [] else c # cut_at ext s)"

text \<open>The loops; \<open>stat_info\<close> keeps the answer for an earlier entry where \<open>lstat\<close> fails.\<close>

fun contains_loop :: "string \<Rightarrow> string \<Rightarrow> string list \<Rightarrow> bool \<Rightarrow> 'a disk_scheme \<Rightarrow> int" where
  "contains_loop dirname key [] stat_info d = MQTTCLIENT_PERSISTENCE_ERROR"
| "contains_loop dirname key (d_name # es) stat_info d =
     (let stat_info = (case lstat_isreg (dirname @ ''/'' @ d_name) d of None \<Rightarrow> stat_info | Some r \<Rightarrow> r) in
      if stat_info \<and> cut_at MESSAGE_FILENAME_EXTENSION d_name = key then 0
      else contains_loop dirname key es stat_info d)"

definition containskeyUnix :: "(string list \<Rightarrow> string list) \<Rightarrow> bool \<Rightarrow> string \<Rightarrow> string \<Rightarrow> 'a disk_scheme \<Rightarrow> int" where
  "containskeyUnix order junk dirname key d =
     (case list_dir order dirname d of
        None \<Rightarrow> MQTTCLIENT_PERSISTENCE_ERROR
      | Some es \<Rightarrow> contains_loop dirname key es junk d)"

definition pstcontainskey ::
    "(string list \<Rightarrow> string list) \<Rightarrow> bool \<Rightarrow> string option \<Rightarrow> string \<Rightarrow> 'a disk_scheme \<Rightarrow> int \<times> 'a disk_scheme" where
  "pstcontainskey order junk handle key d =
     (case handle of None \<Rightarrow> (MQTTCLIENT_PERSISTENCE_ERROR, d)
      | Some clientDir \<Rightarrow> (containskeyUnix order junk clientDir key d, d))"

text \<open>The names are used as they are, not below the directory.\<close>

fun clear_loop :: "string list \<Rightarrow> bool \<Rightarrow> 'a disk_scheme \<Rightarrow> int \<times> 'a disk_scheme" where
  "clear_loop [] stat_info d = (0, d)"
| "clear_loop (d_name # es) stat_info d =
     (let stat_info = (case lstat_isreg d_name d of None \<Rightarrow> stat_info | Some r \<Rightarrow> r) in
      if stat_info
      then (let (e, d) = unlink d_name d in
            if e \<noteq> None then (MQTTCLIENT_PERSISTENCE_ERROR, d) else clear_loop es stat_info d)
      else clear_loop es stat_info d)"

definition clearUnix :: "(string list \<Rightarrow> string list) \<Rightarrow> bool \<Rightarrow> string \<Rightarrow> 'a disk_scheme \<Rightarrow> int \<times> 'a disk_scheme" where
  "clearUnix order junk dirname d =
     (case list_dir order dirname d of
        None \<Rightarrow> (MQTTCLIENT_PERSISTENCE_ERROR, d)
      | Some es \<Rightarrow> clear_loop es junk d)"

definition pstclear ::
    "(string list \<Rightarrow> string list) \<Rightarrow> bool \<Rightarrow> string option \<Rightarrow> 'a disk_scheme \<Rightarrow> int \<times> 'a disk_scheme" where
  "pstclear order junk handle d =
     (case handle of None \<Rightarrow> (MQTTCLIENT_PERSISTENCE_ERROR, d)
      | Some clientDir \<Rightarrow> clearUnix order junk clientDir d)"

text \<open>The first pass counts the files, the second copies the names that many entries were allocated for.\<close>

definition keysUnix :: "(string list \<Rightarrow> string list) \<Rightarrow> string \<Rightarrow> 'a disk_scheme \<Rightarrow> int \<times> string list" where
  "keysUnix order dirname d =
     (case list_dir order dirname d of
        None \<Rightarrow> (MQTTCLIENT_PERSISTENCE_ERROR, [])
      | Some es \<Rightarrow>
          (0, map (cut_at MESSAGE_FILENAME_EXTENSION)
                (filter (\<lambda>d_name. lstat_isreg (dirname @ ''/'' @ d_name) d = Some True) es)))"

definition pstkeys :: "(string list \<Rightarrow> string list) \<Rightarrow> string option \<Rightarrow> 'a disk_scheme \<Rightarrow> (int \<times> string list) \<times> 'a disk_scheme" where
  "pstkeys order handle d =
     (case handle of None \<Rightarrow> ((MQTTCLIENT_PERSISTENCE_ERROR, []), d)
      | Some clientDir \<Rightarrow> (keysUnix order clientDir d, d))"

text \<open>
  The table of functions that \<open>MQTTPersistence_create\<close> fills in; closing releases the name of the
  directory.  A handle that is not open counts as null.
\<close>

definition dir_of :: "int \<Rightarrow> filestore \<Rightarrow> string option" where
  "dir_of h d = (if h = 0 then None else map_of (opened d) h)"

definition file_persistence :: "(string list \<Rightarrow> string list) \<Rightarrow> bool \<Rightarrow> string \<Rightarrow> filestore persistence" where
  "file_persistence order junk dataDir =
     \<lparr>popen = pstopen dataDir,
      pclose = (\<lambda>h d. let (rc, d) = pstclose (dir_of h d) d in (rc, d\<lparr>opened := filter (\<lambda>(k, _). k \<noteq> h) (opened d)\<rparr>)),
      pput = (\<lambda>h key bufs d. pstput (dir_of h d) key bufs d),
      pget = (\<lambda>h key d. pstget (dir_of h d) key d),
      premove = (\<lambda>h key d. pstremove (dir_of h d) key d),
      pkeys = (\<lambda>h d. pstkeys order (dir_of h d) d),
      pclear = (\<lambda>h d. pstclear order junk (dir_of h d) d),
      pcontainskey = (\<lambda>h key d. pstcontainskey order junk (dir_of h d) key d)\<rparr>"

end
