(* ===== verification/File_Records.thy ===== *)
theory File_Records
  imports File_Store Record_Store "HOL-Library.Multiset"
begin

text \<open>
  The file system implementation meets the contract of a record store: on a directory that only it
  changes, each record is the file of its key.  Two of its functions do not do what the interface
  promises: \<open>pstclear\<close> looks for the files in the working directory, and \<open>pstopen\<close> creates the
  directories of an absolute path below the working directory.
\<close>

section \<open>Paths\<close>

lemma tokens_from_word: "\<forall>c \<in> set s. \<not> sep c \<Longrightarrow> tokens_from sep w s = (if w @ s = [] then [] else [w @ s])"
  by (induction s arbitrary: w) auto

lemma tokens_from_append: "sep c \<Longrightarrow> tokens_from sep w (s @ c # t) = tokens_from sep w s @ tokens_from sep [] t"
  by (induction s arbitrary: w) auto

lemma resolve_below:
  assumes "s \<noteq> []" "n \<noteq> []" "CHR ''/'' \<notin> set n"
  shows "resolve base (s @ ''/'' @ n) = walk (resolve base s) n"
proof -
  have "strtok_all (\<lambda>c. c = CHR ''/'') (s @ ''/'' @ n) = strtok_all (\<lambda>c. c = CHR ''/'') s @ [n]"
    using assms(2,3) tokens_from_word [of n "\<lambda>c. c = CHR ''/''" "[]"] by (auto simp: strtok_all_def tokens_from_append)
  then show ?thesis
    using assms(1) by (simp add: resolve_def)
qed

section \<open>The nodes of a disk\<close>

lemma map_of_filter_other: "map_of (filter (\<lambda>(q, _). q \<noteq> p) ns) q = (if q = p then None else map_of ns q)"
  by (induction ns) auto

lemma node_at_set [simp]:
  "p \<noteq> [] \<Longrightarrow> node_at_path (set_node p n d) q = (if q = p then Some n else node_at_path d q)"
  by (auto simp: node_at_path_def set_node_def map_of_filter_other)

lemma node_at_del [simp]:
  "p \<noteq> [] \<Longrightarrow> node_at_path (del_node p d) q = (if q = p then None else node_at_path d q)"
  by (auto simp: node_at_path_def del_node_def map_of_filter_other)

lemma node_at_root [simp]: "node_at_path d [] = Some Dir"
  by (simp add: node_at_path_def)

lemma text_of_ascii [simp]: "text_of (ascii s) = s"
proof -
  have "unat (of_char c :: u8) = of_char c" for c
    using unat_of_nat [where ?'a = 8, of "of_char c"] nat_of_char_less_256 [of c] by (simp add: of_nat_of_char)
  then show ?thesis
    by (simp add: text_of_def ascii_def comp_def)
qed

lemma disk_fields [simp]:
  "cwd (set_node p n d) = cwd d" "locked (set_node p n d) = locked d" "write_limit (set_node p n d) = write_limit d"
  "cwd (del_node p d) = cwd d" "locked (del_node p d) = locked d" "write_limit (del_node p d) = write_limit d"
  "filestore.more (set_node p n fs) = filestore.more fs" "opened (set_node p n fs) = opened fs"
  "opened (del_node p fs) = opened fs"
  by (simp_all add: set_node_def del_node_def)

lemma set_node_twice [simp]: "set_node p n (set_node p m d) = set_node p n d"
  by (simp add: set_node_def)

text \<open>Every path is listed once and has a proper name.\<close>

definition wf_disk :: "'a disk_scheme \<Rightarrow> bool" where
  "wf_disk d \<longleftrightarrow> distinct (map fst (nodes d)) \<and> (\<forall>p \<in> set (map fst (nodes d)). p \<noteq> [] \<and> last p \<noteq> ''.'' \<and> last p \<noteq> ''..'')"

lemma distinct_filter_fst: "distinct (map fst ns) \<Longrightarrow> distinct (map fst (filter P ns))"
  by (induction ns) auto

lemma wf_set: "wf_disk d \<Longrightarrow> p \<noteq> [] \<Longrightarrow> last p \<noteq> ''.'' \<Longrightarrow> last p \<noteq> ''..'' \<Longrightarrow> wf_disk (set_node p n d)"
  by (auto simp: wf_disk_def set_node_def distinct_filter_fst)

lemma wf_del: "wf_disk d \<Longrightarrow> wf_disk (del_node p d)"
  by (auto simp: wf_disk_def del_node_def distinct_filter_fst)

lemma in_names_in: "wf_disk d \<Longrightarrow> n \<in> set (names_in d dir) \<longleftrightarrow> node_at_path d (dir @ [n]) \<noteq> None"
proof -
  assume wf: "wf_disk d"
  have "n \<in> set (names_in d dir) \<longleftrightarrow> dir @ [n] \<in> fst ` set (nodes d)"
  proof
    assume "n \<in> set (names_in d dir)"
    then obtain p where "p \<in> fst ` set (nodes d)" "p \<noteq> []" "butlast p = dir" "n = last p"
      by (auto simp: names_in_def)
    then show "dir @ [n] \<in> fst ` set (nodes d)"
      using append_butlast_last_id [of p] by simp
  next
    assume "dir @ [n] \<in> fst ` set (nodes d)"
    then have "dir @ [n] \<in> set (filter (\<lambda>p. p \<noteq> [] \<and> butlast p = dir) (map fst (nodes d)))"
      by simp
    from imageI [OF this, of last] show "n \<in> set (names_in d dir)"
      by (simp add: names_in_def)
  qed
  then show ?thesis
    by (simp add: node_at_path_def map_of_eq_None_iff)
qed

lemma distinct_names_in: "wf_disk d \<Longrightarrow> distinct (names_in d dir)"
proof -
  assume wf: "wf_disk d"
  have "inj_on last (set (filter (\<lambda>p. p \<noteq> [] \<and> butlast p = dir) (map fst (nodes d))))"
  proof (rule inj_onI)
    fix p q
    assume "p \<in> set (filter (\<lambda>p. p \<noteq> [] \<and> butlast p = dir) (map fst (nodes d)))"
      "q \<in> set (filter (\<lambda>p. p \<noteq> [] \<and> butlast p = dir) (map fst (nodes d)))" "last p = last q"
    then show "p = q"
      using append_butlast_last_id [of p] append_butlast_last_id [of q] by simp
  qed
  then show ?thesis
    using wf by (simp add: names_in_def distinct_map wf_disk_def)
qed

lemma names_in_proper: "wf_disk d \<Longrightarrow> n \<in> set (names_in d dir) \<Longrightarrow> n \<noteq> ''.'' \<and> n \<noteq> ''..''"
  by (auto simp: wf_disk_def names_in_def)

section \<open>The directory of a client\<close>

definition file_key :: "string \<Rightarrow> bool" where
  "file_key k \<longleftrightarrow> k \<noteq> [] \<and> CHR ''/'' \<notin> set k \<and> CHR ''.'' \<notin> set k"

definition file_name :: "string \<Rightarrow> string" where
  "file_name k = k @ MESSAGE_FILENAME_EXTENSION"

definition client_dir :: "string \<Rightarrow> 'a disk_scheme \<Rightarrow> path" where
  "client_dir D d = resolve (cwd d) D"

text \<open>An open store with a directory that holds no files but records.\<close>

definition store_ok :: "int \<Rightarrow> string \<Rightarrow> filestore \<Rightarrow> bool" where
  "store_ok h D d \<longleftrightarrow> h \<noteq> 0 \<and> dir_of h d = Some D \<and> D \<noteq> [] \<and> wf_disk d \<and> write_limit d = None
     \<and> (let dir = client_dir D d in
        node_at_path d dir = Some Dir \<and> node_at_path d (butlast dir) = Some Dir \<and> \<not> locked d dir
        \<and> (\<forall>n x. node_at_path d (dir @ [n]) = Some x \<longrightarrow> (\<exists>k b. file_key k \<and> n = file_name k \<and> x = File b)))"

definition file_records :: "string \<Rightarrow> filestore \<Rightarrow> string \<Rightarrow> u8 list option" where
  "file_records D d k =
     (if file_key k then case node_at_path d (client_dir D d @ [file_name k]) of Some (File b) \<Rightarrow> Some b | _ \<Rightarrow> None
      else None)"

lemma cut_at_name: "CHR ''.'' \<notin> set k \<Longrightarrow> cut_at MESSAGE_FILENAME_EXTENSION (file_name k) = k"
  by (induction k) (auto simp: file_name_def MESSAGE_FILENAME_EXTENSION_def)

lemma file_name_inj: "file_key k \<Longrightarrow> file_key k' \<Longrightarrow> file_name k = file_name k' \<longleftrightarrow> k = k'"
  by (simp add: file_name_def)

lemma file_name_proper: "file_key k \<Longrightarrow> file_name k \<noteq> [] \<and> CHR ''/'' \<notin> set (file_name k) \<and> file_name k \<noteq> ''.'' \<and> file_name k \<noteq> ''..''"
  by (auto simp: file_key_def file_name_def MESSAGE_FILENAME_EXTENSION_def)

lemma record_path:
  assumes "D \<noteq> []" "file_key k"
  shows "resolve (cwd d) (file_of D k) = client_dir D d @ [file_name k]"
  using resolve_below [OF assms(1), of "file_name k"] file_name_proper [OF assms(2)]
  by (simp add: file_of_def file_name_def client_dir_def walk_def)

lemma store_okD:
  assumes "store_ok h D d"
  shows "dir_of h d = Some D" "D \<noteq> []" "wf_disk d" "write_limit d = None" "node_at_path d (client_dir D d) = Some Dir"
    "node_at_path d (butlast (client_dir D d)) = Some Dir" "\<not> locked d (client_dir D d)"
    "node_at_path d (client_dir D d @ [n]) = Some x \<Longrightarrow> \<exists>k b. file_key k \<and> n = file_name k \<and> x = File b"
  using assms by (auto simp: store_ok_def Let_def)

lemma butlast_not_longer: "butlast xs \<noteq> xs @ [n]"
proof
  assume "butlast xs = xs @ [n]"
  from arg_cong [OF this, of length] show False
    by simp
qed

lemma client_dir_fields [simp]:
  "client_dir D (set_node p n d) = client_dir D d" "client_dir D (del_node p d) = client_dir D d"
  by (simp_all add: client_dir_def)

lemma store_ok_set:
  assumes "store_ok h D d" "file_key k"
  shows "store_ok h D (set_node (client_dir D d @ [file_name k]) (File b) d)"
proof -
  show ?thesis
    using butlast_not_longer [of "client_dir D d"] assms file_name_proper [OF assms(2)]
    by (auto simp: store_ok_def Let_def dir_of_def intro!: wf_set)
qed

lemma store_ok_del:
  assumes "store_ok h D d"
  shows "store_ok h D (del_node (client_dir D d @ [n]) d)"
proof -
  show ?thesis
    using butlast_not_longer [of "client_dir D d"] assms by (auto simp: store_ok_def Let_def dir_of_def intro!: wf_del)
qed

section \<open>One operation at a time\<close>

lemma write_bufs_eq:
  assumes "write_limit d = None" "resolve (cwd d) file = p" "p \<noteq> []"
  shows "write_bufs file bs w t (set_node p (File old) d) =
    (w + length (concat bs), t + length (concat bs), set_node p (File (old @ concat bs)) d)"
  using assms by (induction bs arbitrary: w t old) (simp_all add: fwrite_def)

lemma file_put:
  assumes "store_ok h D d" "file_key k"
  shows "pstput (dir_of h d) k bufs d = (0, set_node (client_dir D d @ [file_name k]) (File (concat bufs)) d)"
proof -
  let ?p = "client_dir D d @ [file_name k]"
  note s = store_okD [OF assms(1)]
  have "fopen_w (file_of D k) d = (True, set_node ?p (File []) d)"
    using s(5,7) record_path [OF s(2) assms(2), of d] s(8) [of "file_name k"]
    by (auto simp: fopen_w_def Let_def split: option.splits node.splits)
  then show ?thesis
    using write_bufs_eq [OF s(4) record_path [OF s(2) assms(2)], of bufs 0 0 "[]"] s(1) by (simp add: pstput_def Let_def)
qed


lemma file_get:
  assumes "store_ok h D d" "file_records D d k = Some b"
  shows "pstget (dir_of h d) k d = ((0, b), d)"
proof -
  note s = store_okD [OF assms(1)]
  have "file_key k" "node_at_path d (client_dir D d @ [file_name k]) = Some (File b)"
    using assms(2) by (auto simp: file_records_def split: if_splits option.splits node.splits)
  then show ?thesis
    using s(1) record_path [OF s(2), of k d] by (simp add: pstget_def)
qed

lemma file_remove:
  assumes "store_ok h D d" "file_key k"
  shows "pstremove (dir_of h d) k d =
    (0, if file_records D d k = None then d else del_node (client_dir D d @ [file_name k]) d)"
proof -
  note s = store_okD [OF assms(1)]
  show ?thesis
    using s(1,5,7) record_path [OF s(2) assms(2), of d] s(8) [of "file_name k"] assms(2)
    by (auto simp: pstremove_def unlink_def Let_def file_records_def missing_def split: option.splits node.splits)
qed

lemma records_set:
  "file_key k \<Longrightarrow> file_records D (set_node (client_dir D d @ [file_name k]) (File b) d) = (file_records D d)(k \<mapsto> b)"
  by (auto simp: file_records_def fun_eq_iff file_name_inj)

lemma records_del:
  "file_key k \<Longrightarrow> file_records D (del_node (client_dir D d @ [file_name k]) d) = (file_records D d)(k := None)"
  by (auto simp: file_records_def fun_eq_iff file_name_inj)

section \<open>Listing\<close>

definition shuffles :: "(string list \<Rightarrow> string list) \<Rightarrow> bool" where
  "shuffles order \<longleftrightarrow> (\<forall>xs. mset (order xs) = mset xs)"

lemma list_dir_ok:
  assumes "store_ok h D d" "shuffles order"
  obtains es where "list_dir order D d = Some es" "distinct es"
    "set es = {''.'', ''..''} \<union> {n. node_at_path d (client_dir D d @ [n]) \<noteq> None}"
proof -
  note s = store_okD [OF assms(1)]
  let ?xs = "[''.'', ''..''] @ names_in d (client_dir D d)"
  have m: "mset (order ?xs) = mset ?xs"
    using assms(2) unfolding shuffles_def by blast
  have "distinct ?xs"
    using distinct_names_in [OF s(3)] names_in_proper [OF s(3)] by auto
  then have "distinct (order ?xs)"
    using mset_eq_imp_distinct_iff [OF m] by blast
  moreover have "set (order ?xs) = {''.'', ''..''} \<union> {n. node_at_path d (client_dir D d @ [n]) \<noteq> None}"
    unfolding mset_eq_setD [OF m] using in_names_in [OF s(3)] by auto
  moreover have "list_dir order D d = Some (order ?xs)"
    using s(5) by (simp add: list_dir_def client_dir_def Let_def)
  ultimately show ?thesis
    using that by blast
qed

lemma entry_lstat:
  assumes "store_ok h D d" "n = ''.'' \<or> n = ''..'' \<or> node_at_path d (client_dir D d @ [n]) \<noteq> None"
  shows "lstat_isreg (D @ ''/'' @ n) d = Some (n \<noteq> ''.'' \<and> n \<noteq> ''..'')"
proof -
  note s = store_okD [OF assms(1)]
  consider "n = ''.''" | "n = ''..''" | k b where "file_key k" "n = file_name k"
    "node_at_path d (client_dir D d @ [n]) = Some (File b)" "n \<noteq> ''.''" "n \<noteq> ''..''"
    using assms(2) s(8) [of n] by (cases "n = ''.'' \<or> n = ''..''") auto
  then show ?thesis
  proof cases
    case 3
    then show ?thesis
      using resolve_below [OF s(2), of n "cwd d"] file_name_proper [of k]
      by (simp add: lstat_isreg_def client_dir_def walk_def)
  qed (use s(5,6) resolve_below [OF s(2), of _ "cwd d"] in \<open>simp_all add: lstat_isreg_def client_dir_def walk_def\<close>)
qed

lemma records_iff:
  assumes "store_ok h D d"
  shows "file_records D d k \<noteq> None \<longleftrightarrow> file_key k \<and> node_at_path d (client_dir D d @ [file_name k]) \<noteq> None"
  using store_okD(8) [OF assms, of "file_name k"] by (auto simp: file_records_def split: option.splits node.splits)

lemma entries_iff:
  assumes "store_ok h D d"
  shows "node_at_path d (client_dir D d @ [n]) \<noteq> None \<longleftrightarrow> n \<in> file_name ` dom (file_records D d)"
proof
  assume n: "node_at_path d (client_dir D d @ [n]) \<noteq> None"
  then obtain k where "file_key k" "n = file_name k"
    using store_okD(8) [OF assms, of n] by blast
  then show "n \<in> file_name ` dom (file_records D d)"
    using records_iff [OF assms, of k] n by blast
next
  assume "n \<in> file_name ` dom (file_records D d)"
  then show "node_at_path d (client_dir D d @ [n]) \<noteq> None"
    using records_iff [OF assms] by blast
qed

lemma record_names:
  assumes "k \<in> dom (file_records D d)"
  shows "file_key k" "file_name k \<noteq> ''.''" "file_name k \<noteq> ''..''" "cut_at MESSAGE_FILENAME_EXTENSION (file_name k) = k"
proof -
  show k: "file_key k"
    using assms by (auto simp: file_records_def split: if_splits)
  show "file_name k \<noteq> ''.''" "file_name k \<noteq> ''..''" "cut_at MESSAGE_FILENAME_EXTENSION (file_name k) = k"
    using file_name_proper [OF k] cut_at_name [of k] k by (simp_all add: file_key_def)
qed

lemma dots_are_no_records:
  "''.'' \<notin> file_name ` dom (file_records D d)" "''..'' \<notin> file_name ` dom (file_records D d)"
  using record_names(2,3) [where d = d and D = D] by (metis imageE)+

lemma without_dots:
  "x \<notin> A \<Longrightarrow> y \<notin> A \<Longrightarrow> {e \<in> {x, y} \<union> A. e \<noteq> x \<and> e \<noteq> y} = A"
  "x \<notin> A \<Longrightarrow> y \<notin> A \<Longrightarrow> (\<exists>e \<in> {x, y} \<union> A. e \<noteq> x \<and> e \<noteq> y \<and> P e) \<longleftrightarrow> (\<exists>e \<in> A. P e)"
  by auto

lemma file_keys:
  assumes "store_ok h D d" "shuffles order"
  shows "\<exists>ks. pstkeys order (dir_of h d) d = ((0, ks), d) \<and> distinct ks \<and> set ks = dom (file_records D d)"
proof -
  note s = store_okD [OF assms(1)]
  obtain es where es: "list_dir order D d = Some es" "distinct es"
    "set es = {''.'', ''..''} \<union> {n. node_at_path d (client_dir D d @ [n]) \<noteq> None}"
    by (rule list_dir_ok [OF assms])
  have all: "e \<in> set es \<Longrightarrow> lstat_isreg (D @ ''/'' @ e) d = Some (e \<noteq> ''.'' \<and> e \<noteq> ''..'')" for e
    using entry_lstat [OF assms(1), of e] es(3) by blast
  let ?fs = "filter (\<lambda>n. lstat_isreg (D @ ''/'' @ n) d = Some True) es"
  have set_es: "set es = {''.'', ''..''} \<union> file_name ` dom (file_records D d)"
    unfolding es(3) using entries_iff [OF assms(1)] by blast
  have "set ?fs = {e \<in> set es. e \<noteq> ''.'' \<and> e \<noteq> ''..''}"
    using all by auto
  also have "\<dots> = file_name ` dom (file_records D d)"
    unfolding set_es by (rule without_dots(1)) (fact dots_are_no_records)+
  finally have fs: "set ?fs = file_name ` dom (file_records D d)" .
  note cut = record_names(4) [where d = d and D = D]
  have "inj_on (cut_at MESSAGE_FILENAME_EXTENSION) (set ?fs)"
    unfolding fs by (rule inj_onI) (metis cut imageE)
  then have "distinct (map (cut_at MESSAGE_FILENAME_EXTENSION) ?fs)"
    using es(2) by (simp add: distinct_map)
  moreover have "set (map (cut_at MESSAGE_FILENAME_EXTENSION) ?fs) = dom (file_records D d)"
    unfolding set_map fs image_image using cut by (simp cong: image_cong)
  ultimately show ?thesis
    using es(1) s(1) by (simp add: pstkeys_def keysUnix_def)
qed

lemma contains_loop_eq:
  "\<forall>e \<in> set es. lstat_isreg (D @ ''/'' @ e) d \<noteq> None \<Longrightarrow>
   contains_loop D key es junk d =
     (if \<exists>e \<in> set es. lstat_isreg (D @ ''/'' @ e) d = Some True \<and> cut_at MESSAGE_FILENAME_EXTENSION e = key
      then 0 else MQTTCLIENT_PERSISTENCE_ERROR)"
  by (induction es arbitrary: junk) (auto split: option.splits)

lemma file_contains:
  assumes "store_ok h D d" "shuffles order" "file_key k"
  shows "\<exists>rc. pstcontainskey order junk (dir_of h d) k d = (rc, d) \<and> (rc = 0 \<longleftrightarrow> file_records D d k \<noteq> None)"
proof -
  note s = store_okD [OF assms(1)]
  obtain es where es: "list_dir order D d = Some es" "distinct es"
    "set es = {''.'', ''..''} \<union> {n. node_at_path d (client_dir D d @ [n]) \<noteq> None}"
    by (rule list_dir_ok [OF assms(1,2)])
  have all: "e \<in> set es \<Longrightarrow> lstat_isreg (D @ ''/'' @ e) d = Some (e \<noteq> ''.'' \<and> e \<noteq> ''..'')" for e
    using entry_lstat [OF assms(1), of e] es(3) by blast
  have set_es: "set es = {''.'', ''..''} \<union> file_name ` dom (file_records D d)"
    unfolding es(3) using entries_iff [OF assms(1)] by blast
  have "(\<exists>e \<in> set es. lstat_isreg (D @ ''/'' @ e) d = Some True \<and> cut_at MESSAGE_FILENAME_EXTENSION e = k)
      \<longleftrightarrow> (\<exists>e \<in> set es. e \<noteq> ''.'' \<and> e \<noteq> ''..'' \<and> cut_at MESSAGE_FILENAME_EXTENSION e = k)"
    using all by auto
  also have "\<dots> \<longleftrightarrow> k \<in> dom (file_records D d)"
    unfolding set_es without_dots(2) [OF dots_are_no_records] using record_names(4) [where d = d and D = D] by force
  finally show ?thesis
    using contains_loop_eq [of es D d k junk] all es(1) s(1)
    by (simp add: pstcontainskey_def containskeyUnix_def MQTTCLIENT_PERSISTENCE_ERROR_def domIff)
qed

section \<open>The contract\<close>

lemma file_record_store:
  assumes "shuffles order"
  shows "record_store (file_persistence order junk dataDir) h (store_ok h D) (file_records D) file_key"
proof (unfold_locales, goal_cases)
  case (1 p k bufs)
  then show ?case
    using file_put [of h D p k bufs] store_ok_set [of h D p k "concat bufs"] records_set [of k D p]
    by (simp add: file_persistence_def)
next
  case (2 p k b)
  then show ?case
    using file_get [of h D p k b] by (simp add: file_persistence_def)
next
  case (3 p k)
  then show ?case
    using file_remove [of h D p k] store_ok_del [of h D p "file_name k"] records_del [of k D p]
    by (auto simp: file_persistence_def fun_upd_idem)
next
  case (4 p k)
  then show ?case
    using file_contains [OF _ assms, of h D p k junk] by (simp add: file_persistence_def)
next
  case (5 p)
  then show ?case
    using file_keys [OF _ assms, of h D p] by (simp add: file_persistence_def)
qed

interpretation files: record_store "file_persistence rev False ''.''" h "store_ok h D" "file_records D" file_key for h D
  by (rule file_record_store) (simp add: shuffles_def)

end
