(* ===== verification/File_Open.thy ===== *)
theory File_Open
  imports File_Records "HOL-Library.Sublist"
begin

text \<open>
  What the file system implementation does as a whole: opening a store, any sequence of changes, and
  the two operations that miss the directory they are meant for.
\<close>

section \<open>Opening\<close>

definition proper :: "string \<Rightarrow> bool" where
  "proper n \<longleftrightarrow> n \<noteq> [] \<and> CHR ''/'' \<notin> set n \<and> n \<noteq> ''.'' \<and> n \<noteq> ''..''"

lemma foldl_walk: "\<forall>n \<in> set ns. proper n \<Longrightarrow> foldl walk p ns = p @ ns"
  by (induction ns arbitrary: p) (auto simp: proper_def walk_def)

lemma resolve_word:
  assumes "n \<noteq> []" "CHR ''/'' \<notin> set n"
  shows "resolve base n = walk base n"
proof -
  have "\<forall>c \<in> set n. c \<noteq> CHR ''/''"
    using assms(2) by blast
  from tokens_from_word [OF this, of "[]"] have "strtok_all (\<lambda>c. c = CHR ''/'') n = [n]"
    using assms(1) by (simp add: strtok_all_def)
  moreover have "hd n \<noteq> CHR ''/''"
    using assms hd_in_set [of n] by metis
  ultimately show ?thesis
    by (simp add: resolve_def)
qed

lemma resolve_name: "proper n \<Longrightarrow> resolve base n = base @ [n]"
  by (simp add: proper_def resolve_word walk_def)

lemma resolve_proper: "s \<noteq> [] \<Longrightarrow> proper n \<Longrightarrow> resolve base (s @ ''/'' @ n) = resolve base s @ [n]"
  using resolve_below [of s n base] by (simp add: proper_def walk_def)

lemma pstmkdir_ok:
  assumes "resolve (cwd d) s = q" "q \<noteq> []" "node_at_path d q \<in> {None, Some Dir}"
    "node_at_path d (butlast q) = Some Dir" "\<not> locked d (butlast q)"
  shows "pstmkdir s d = (0, if node_at_path d q = None then set_node q Dir d else d)"
  using assms by (auto simp: pstmkdir_def mkdir_def Let_def)

text \<open>The paths from \<open>p\<close> to \<open>p @ ns\<close>, and the disk after they have been made directories.\<close>

definition level :: "path \<Rightarrow> path \<Rightarrow> path \<Rightarrow> bool" where
  "level p ns q \<longleftrightarrow> prefix p q \<and> prefix q (p @ ns)"

lemma level_Nil [simp]: "level p [] q \<longleftrightarrow> q = p"
  by (auto simp: level_def prefix_order.antisym)

lemma level_Cons [simp]: "level p (n # ns) q \<longleftrightarrow> q = p \<or> level (p @ [n]) ns q"
  by (auto simp: level_def prefix_def Cons_eq_append_conv append_eq_Cons_conv)

lemma level_start [simp]: "level p ns p"
  by (simp add: level_def)

definition made :: "path \<Rightarrow> path \<Rightarrow> 'a disk_scheme \<Rightarrow> 'a disk_scheme \<Rightarrow> bool" where
  "made p ns d d' \<longleftrightarrow> (\<forall>q. node_at_path d' q = (if level p ns q then Some Dir else node_at_path d q))
     \<and> cwd d' = cwd d \<and> locked d' = locked d \<and> write_limit d' = write_limit d \<and> (wf_disk d \<longrightarrow> wf_disk d')"

lemma make_dirs_ok:
  assumes "cur \<noteq> []" "resolve (cwd d) cur = p" "node_at_path d p = Some Dir" "\<forall>n \<in> set ns. proper n"
    and "\<forall>q. level p ns q \<longrightarrow> node_at_path d q \<in> {None, Some Dir}" "\<forall>q. \<not> locked d q"
  shows "\<exists>d'. make_dirs cur ns d = (0, d') \<and> made p ns d d'"
  using assms
proof (induction ns arbitrary: cur p d)
  case Nil
  then show ?case
    by (auto simp: made_def)
next
  case (Cons n ns)
  let ?cur = "cur @ ''/'' @ n" and ?p = "p @ [n]"
  let ?d = "if node_at_path d ?p = None then set_node ?p Dir d else d"
  have n: "proper n"
    using Cons.prems(4) by simp
  have r: "resolve (cwd d) ?cur = ?p"
    using resolve_proper [OF Cons.prems(1) n, of "cwd d"] Cons.prems(2) by simp
  have ex: "node_at_path d ?p \<in> {None, Some Dir}"
    using Cons.prems(5) by simp
  have node: "node_at_path ?d q = (if q = ?p then Some Dir else node_at_path d q)" for q
    using ex by auto
  have mk: "pstmkdir ?cur d = (0, ?d)"
    by (rule pstmkdir_ok [OF r]) (use ex Cons.prems(3,6) in auto)
  have "\<exists>d'. make_dirs ?cur ns ?d = (0, d') \<and> made ?p ns ?d d'"
  proof (rule Cons.IH)
    show "\<forall>q. level ?p ns q \<longrightarrow> node_at_path ?d q \<in> {None, Some Dir}"
      using Cons.prems(5) unfolding node by simp
    show "node_at_path ?d ?p = Some Dir"
      unfolding node by simp
  qed (use r Cons.prems(4,6) in auto)
  then obtain d' where d': "make_dirs ?cur ns ?d = (0, d')" "made ?p ns ?d d'"
    by blast
  have "wf_disk d \<Longrightarrow> wf_disk ?d"
    using n by (auto simp: proper_def intro: wf_set)
  then have "made p (n # ns) d d'"
    using d'(2) Cons.prems(3) unfolding made_def node by auto
  then show ?case
    using mk d'(1) by (auto simp: Let_def)
qed

text \<open>The name of the directory that \<open>pstopen\<close> puts together.\<close>

definition client_path :: "string \<Rightarrow> u8 list \<Rightarrow> u8 list \<Rightarrow> string" where
  "client_path dataDir cid uri =
     (case first_at (\<lambda>c. c = CHR '':'') (text_of uri) of
        None \<Rightarrow> []
      | Some i \<Rightarrow> dataDir @ ''/'' @ text_of cid @ ''-'' @ (text_of uri)[i := CHR ''-''])"

lemma tokens_from_cong:
  "(\<And>c. c \<in> set s \<Longrightarrow> sep c = sep' c) \<Longrightarrow> tokens_from sep w s = tokens_from sep' w s"
  by (induction s arbitrary: w) auto

lemma pstopen_eq:
  assumes "client_path dataDir cid uri = D" "D \<noteq> []" "CHR 0x5C \<notin> set D" "strtok_all (\<lambda>c. c = CHR ''/'') D = t # ns"
  shows "pstopen dataDir cid uri d =
    (let (rc, d) = pstmkdir t d; (rc, d) = (if rc = 0 then make_dirs t ns d else (rc, d)); h = next_handle d
     in Done ((rc, h), d\<lparr>opened := (h, D) # opened d, next_handle := h + 1\<rparr>))"
proof -
  obtain i where i: "first_at (\<lambda>c. c = CHR '':'') (text_of uri) = Some i"
    using assms(1,2) by (auto simp: client_path_def split: option.splits)
  have "strtok_all (\<lambda>c. c = CHR 0x5C \<or> c = CHR ''/'') D = t # ns"
    unfolding assms(4) [symmetric] strtok_all_def by (rule tokens_from_cong) (use assms(3) in auto)
  then show ?thesis
    using i assms(1) by (simp add: pstopen_def client_path_def Let_def)
qed

lemma made_fields:
  "made p ns d d' \<Longrightarrow> cwd d' = cwd d \<and> locked d' = locked d \<and> write_limit d' = write_limit d"
  by (simp add: made_def)

lemma pstmkdir_handles: "next_handle (snd (pstmkdir s d)) = next_handle d" "opened (snd (pstmkdir s d)) = opened d"
  by (auto simp: pstmkdir_def mkdir_def Let_def set_node_def split: option.splits)

lemma make_dirs_handles: "next_handle (snd (make_dirs cur ns d)) = next_handle d" "opened (snd (make_dirs cur ns d)) = opened d"
proof (induction cur ns d rule: make_dirs.induct)
  case (2 cur n ns d)
  case 1
  then show ?case
    using pstmkdir_handles(1) [of "cur @ ''/'' @ n" d] "2.IH"(1) by (auto simp: Let_def split: prod.splits)
next
  case (2 cur n ns d)
  case 2
  then show ?case
    using pstmkdir_handles(2) [of "cur @ ''/'' @ n" d] "2.IH"(2) by (auto simp: Let_def split: prod.splits)
qed simp_all



definition empty_disk :: "path \<Rightarrow> filestore" where
  "empty_disk dir = \<lparr>nodes = (if dir = [] then [] else [(dir, Dir)]), locked = (\<lambda>_. False), cwd = dir, write_limit = None,
     opened = [], next_handle = 1\<rparr>"


section \<open>Any sequence of changes\<close>



text \<open>A store that has been opened in an empty directory.\<close>

definition opened_store :: "string \<Rightarrow> filestore" where
  "opened_store n = \<lparr>nodes = [([n], Dir)], locked = (\<lambda>_. False), cwd = [], write_limit = None, opened = [(1, n)], next_handle = 2\<rparr>"

lemma opened_store_ok: "proper n \<Longrightarrow> store_ok 1 n (opened_store n)"
proof -
  assume n: "proper n"
  then have dir: "client_dir n (opened_store n) = [n]"
    using resolve_name [of n "[]"] by (simp add: client_dir_def opened_store_def)
  have "node_at_path (opened_store n) q = (if q = [] \<or> q = [n] then Some Dir else None)" for q
    by (simp add: node_at_path_def opened_store_def)
  then show ?thesis
    using n dir by (simp add: store_ok_def wf_disk_def proper_def) (simp add: opened_store_def dir_of_def)
qed


section \<open>Two operations that miss the directory\<close>

text \<open>
  Clearing the store does not clear it: \<open>clearUnix\<close> passes the bare names of the entries to \<open>lstat\<close>
  and \<open>remove\<close>.  Unless the working directory holds files of the same names, which would be removed
  instead, \<open>pstclear\<close> reports success and every record is still there.
\<close>

theorem pstclear_keeps_records:
  assumes "store_ok h D d" "shuffles order"
    and "\<forall>n. node_at_path d (client_dir D d @ [n]) \<noteq> None \<longrightarrow> lstat_isreg n d \<noteq> Some True"
    and "node_at_path d (cwd d) = Some Dir" "node_at_path d (butlast (cwd d)) = Some Dir"
  shows "pclear (file_persistence order False dataDir) h d = (0, d)"
proof -
  note s = store_okD [OF assms(1)]
  obtain es where es: "list_dir order D d = Some es" "distinct es"
    "set es = {''.'', ''..''} \<union> {n. node_at_path d (client_dir D d @ [n]) \<noteq> None}"
    by (rule list_dir_ok [OF assms(1,2)])
  have "lstat_isreg ''.'' d = Some False" "lstat_isreg ''..'' d = Some False"
    using assms(4,5) by (simp_all add: lstat_isreg_def resolve_def strtok_all_def walk_def)
  then have "\<forall>e \<in> set es. lstat_isreg e d \<noteq> Some True"
    using assms(3) es(3) by auto
  then have "clear_loop es False d = (0, d)"
    by (induction es) (auto split: option.splits)
  then show ?thesis
    using s(1) es(1) by (simp add: file_persistence_def pstclear_def clearUnix_def)
qed

lemma pstmkdir_below:
  assumes "resolve (cwd d) s = cwd d @ n # ns" "hd (cwd d) \<noteq> t" "cwd d \<noteq> []" "\<forall>q. node_at_path d (t # q) = None"
  shows "\<forall>q. node_at_path (snd (pstmkdir s d)) (t # q) = None" "cwd (snd (pstmkdir s d)) = cwd d"
proof -
  have "t # q \<noteq> cwd d @ n # ns" for q
    using assms(2,3) by (cases "cwd d") auto
  then show "\<forall>q. node_at_path (snd (pstmkdir s d)) (t # q) = None" "cwd (snd (pstmkdir s d)) = cwd d"
    using assms(1,4) by (auto simp: pstmkdir_def mkdir_def Let_def split: option.splits)
qed

lemma make_dirs_below:
  assumes "cur \<noteq> []" "resolve (cwd d) cur = cwd d @ ms" "\<forall>n \<in> set ns. proper n"
    "hd (cwd d) \<noteq> t" "cwd d \<noteq> []" "\<forall>q. node_at_path d (t # q) = None"
  shows "\<forall>q. node_at_path (snd (make_dirs cur ns d)) (t # q) = None"
  using assms
proof (induction ns arbitrary: cur ms d)
  case (Cons n ns)
  let ?cur = "cur @ ''/'' @ n" and ?d = "snd (pstmkdir (cur @ ''/'' @ n) d)"
  have r: "resolve (cwd d) ?cur = cwd d @ ms @ [n]"
    using resolve_proper [OF Cons.prems(1), of n "cwd d"] Cons.prems(2,3) by simp
  then obtain m ms' where m: "ms @ [n] = m # ms'"
    by (cases "ms @ [n]") auto
  note below = pstmkdir_below [OF r [unfolded m] Cons.prems(4,5,6)]
  have "\<forall>q. node_at_path (snd (make_dirs ?cur ns ?d)) (t # q) = None"
    by (rule Cons.IH [of _ _ "ms @ [n]"]) (use below r Cons.prems in auto)
  then show ?case
    using below by (auto simp: Let_def split: prod.splits)
qed simp

text \<open>
  A store below an absolute directory cannot be used: \<open>pstopen\<close> creates the levels below the working
  directory, as the tokens of the path do not keep its first slash, while the name it keeps is
  absolute.  Where no such directory exists below the root, storing a record fails whatever \<open>pstopen\<close>
  returned.
\<close>

theorem absolute_store_fails:
  assumes D: "client_path dataDir cid uri = D" "D \<noteq> []" "hd D = CHR ''/''" "CHR 0x5C \<notin> set D"
    and toks: "strtok_all (\<lambda>c. c = CHR ''/'') D = t # ns" "\<forall>n \<in> set (t # ns). proper n"
    and d: "cwd d \<noteq> []" "node_at_path d (cwd d) = Some Dir" "\<forall>q. node_at_path d (t # q) = None" "next_handle d \<noteq> 0"
    and key: "file_key k"
  shows "\<exists>rc h d'. pstopen dataDir cid uri d = Done ((rc, h), d')
    \<and> pput (file_persistence order junk dataDir) h k bufs d' = (MQTTCLIENT_PERSISTENCE_ERROR, d')"
proof -
  have hd: "hd (cwd d) \<noteq> t"
    using d(1-3) by (cases "cwd d") auto
  have rt: "resolve (cwd d) t = cwd d @ [t]" "t \<noteq> []"
    using toks(2) by (auto simp: resolve_name) (simp add: proper_def)
  obtain rc1 d1 where d1: "pstmkdir t d = (rc1, d1)"
    by (cases "pstmkdir t d")
  have d1': "\<forall>q. node_at_path d1 (t # q) = None" "cwd d1 = cwd d"
    using pstmkdir_below [OF rt(1) hd d(1,3)] d1 by auto
  obtain rc2 d2 where d2: "(if rc1 = 0 then make_dirs t ns d1 else (rc1, d1)) = (rc2, d2)"
    by (cases "if rc1 = 0 then make_dirs t ns d1 else (rc1, d1)")
  have none: "\<forall>q. node_at_path d2 (t # q) = None"
    using make_dirs_below [of t d1 "[t]" ns t] rt toks(2) hd d(1) d1' d2 by (auto split: if_splits)
  have h: "next_handle d2 = next_handle d"
    using d1 d2 pstmkdir_handles(1) [of t d] make_dirs_handles(1) [of t ns d1] by (auto split: if_splits)
  let ?d' = "d2\<lparr>opened := (next_handle d, D) # opened d2, next_handle := next_handle d + 1\<rparr>"
  have open_eq: "pstopen dataDir cid uri d = Done ((rc2, next_handle d), ?d')"
    unfolding pstopen_eq [OF D(1,2,4) toks(1)] using d1 d2 h by (simp add: Let_def)
  have dir: "client_dir D ?d' = t # ns"
    using D(2,3) toks foldl_walk [of "t # ns" "[]"] by (simp add: client_dir_def resolve_def)
  have "node_at_path ?d' (t # q) = None" for q
    using none by (simp add: node_at_path_def)
  then have "fopen_w (file_of D k) ?d' = (False, ?d')"
    using record_path [OF D(2) key, of ?d'] dir by (simp add: fopen_w_def Let_def butlast_append)
  then have "pput (file_persistence order junk dataDir) (next_handle d) k bufs ?d' = (MQTTCLIENT_PERSISTENCE_ERROR, ?d')"
    using d(4) by (simp add: file_persistence_def dir_of_def pstput_def Let_def)
  with open_eq show ?thesis
    by blast
qed


theorem pstclear_keeps_records_witness:
  "pclear (file_persistence rev False ''.'') 1 (opened_store ''CAM'') = (0, opened_store ''CAM'')"
proof (rule pstclear_keeps_records)
  show "store_ok 1 ''CAM'' (opened_store ''CAM'')" "shuffles rev"
    by (simp_all add: opened_store_ok proper_def shuffles_def)
  have "client_dir ''CAM'' (opened_store ''CAM'') = [''CAM'']"
    by (simp add: client_dir_def resolve_def strtok_all_def walk_def opened_store_def)
  then show "\<forall>n. node_at_path (opened_store ''CAM'') (client_dir ''CAM'' (opened_store ''CAM'') @ [n]) \<noteq> None \<longrightarrow>
      lstat_isreg n (opened_store ''CAM'') \<noteq> Some True"
    by (simp add: node_at_path_def opened_store_def)
  show "node_at_path (opened_store ''CAM'') (cwd (opened_store ''CAM'')) = Some Dir"
    "node_at_path (opened_store ''CAM'') (butlast (cwd (opened_store ''CAM''))) = Some Dir"
    by (simp_all add: opened_store_def)
qed

theorem absolute_store_fails_witness:
  "\<exists>rc h d'. pstopen ''/var'' (ascii ''CAM'') (ascii ''host:1883'') (empty_disk [''home'']) = Done ((rc, h), d')
    \<and> pput (file_persistence rev False ''/var'') h ''s-7'' [[1]] d' = (MQTTCLIENT_PERSISTENCE_ERROR, d')"
proof (rule absolute_store_fails)
  show "client_path ''/var'' (ascii ''CAM'') (ascii ''host:1883'') = ''/var/CAM-host-1883''"
    by (simp add: client_path_def)
  show "strtok_all (\<lambda>c. c = CHR ''/'') ''/var/CAM-host-1883'' = ''var'' # [''CAM-host-1883'']"
    by (simp add: strtok_all_def)
  show "node_at_path (empty_disk [''home'']) (cwd (empty_disk [''home''])) = Some Dir"
    "\<forall>q. node_at_path (empty_disk [''home'']) (''var'' # q) = None"
    by (simp_all add: node_at_path_def empty_disk_def)
qed (simp_all add: proper_def file_key_def empty_disk_def)

end
