(* ===== verification/Restart_Files.thy ===== *)
theory Restart_Files
  imports Mqtt_Resume File_Open Mqtt_Events
begin

text \<open>A process that starts over the records of the one before.\<close>

definition restarted :: "'p persistence \<Rightarrow> int \<Rightarrow> 'p \<Rightarrow> (unit, 'p, unit) mqtt" where
  "restarted P h p = \<lparr>clients = \<lparr>items = [\<lparr>clientID = [99], username = None, password = None, cleansession = False,
       keepAliveInterval = 20, will = None, connected = False, good = False, ping_outstanding = False, connect_state = 0,
       net_socket = 0, lastSent = 0, lastReceived = 0, msgID = 0, retryInterval = 0, maxInflightMessages = 10,
       inboundMsgs = cl_new, outboundMsgs = cl_new, messageQueue = cl_new, qentry_seqno = 0, phandle = h,
       persistence_of = Some P, MQTTVersion = 4\<rparr>], cursor = None\<rparr>, heap_pubs = Map.empty, next_pub = 0,
     stored = cl_new, msgs_received = 0, msgs_sent = 0, pending_qos0 = cl_new, commands = cl_new,
     handles = cl_new, socks = nothing_pending (), store = p, app = (),
     heap_uris = Map.empty, next_addr = 1, last_timeouts = 0, last_retry = 0\<rparr>"

definition message_of :: "int \<Rightarrow> sent_msg" where
  "message_of n = \<lparr>sm_topic = [116], sm_data = [1, 2], sm_id = n, sm_dup = False, sm_qos = 2, sm_retain = False\<rparr>"

definition two_records :: "store_call list" where
  "two_records = [Put (sent_key 1) [publish_record (message_of 1)], Put (sent_key 65535) [publish_record (message_of 65535)]]"

lemma decimal_file_key:
  assumes "valid_id n"
  shows "file_key (sent_key n)" "file_key (release_key n)"
proof -
  have "CHR ''/'' \<notin> set (decimal n)" "CHR ''.'' \<notin> set (decimal n)"
    using decimal_id(1) [OF assms] by (auto simp: digit_def is_digit_def)
  then show "file_key (sent_key n)" "file_key (release_key n)"
    by (simp_all add: file_key_def persistence_keys)
qed

lemma no_records: "file_records ''CAM'' (opened_store ''CAM'') = Map.empty"
proof -
  have "client_dir ''CAM'' (opened_store ''CAM'') = [''CAM'']"
    by (simp add: client_dir_def resolve_def strtok_all_def walk_def opened_store_def)
  then show ?thesis
    by (simp add: file_records_def node_at_path_def opened_store_def fun_eq_iff)
qed

theorem restart_resumes_witness:
  "\<exists>d. store_run (file_persistence rev False ''.'') 1 two_records (opened_store ''CAM'') = ([0, 0], d)
    \<and> (\<forall>E :: (unit, unit) env. \<exists>st'. MQTTPersistence_restore E 0 (restarted (file_persistence rev False ''.'') 1 d) = Done (0, st')
       \<and> map m_msgid (items (outboundMsgs (client_at 0 st'))) = [65535, 1])"
proof -
  have valid: "valid_id 1" "valid_id 65535" "valid_msg (message_of 1)" "valid_msg (message_of 65535)"
    by (simp_all add: valid_id_def valid_msg_def message_of_def MAX_MSG_ID_def)
  obtain d where d: "store_run (file_persistence rev False ''.'') 1 two_records (opened_store ''CAM'') = ([0, 0], d)"
    "store_ok 1 ''CAM'' d"
    "file_records ''CAM'' d = [sent_key 1 \<mapsto> publish_record (message_of 1), sent_key 65535 \<mapsto> publish_record (message_of 65535)]"
    using files.run [of 1 "''CAM''" "opened_store ''CAM''" two_records] opened_store_ok [of "''CAM''"] valid no_records
    by (auto simp: two_records_def decimal_file_key proper_def)
  have ids: "{n. valid_id n \<and> file_records ''CAM'' d (sent_key n) \<noteq> None} = set ([65535] @ [1])"
    using valid by (auto simp: d(3) decimal_inj split: if_splits)
  have recs: "session_records (file_records ''CAM'' d)"
    using valid by (auto simp: d(3) session_records_def session_record_def message_of_def split: if_splits)
  have "\<exists>st'. MQTTPersistence_restore E 0 (restarted (file_persistence rev False ''.'') 1 d) = Done (0, st')
       \<and> map m_msgid (items (outboundMsgs (client_at 0 st'))) = [65535] @ [1]" for E :: "(unit, unit) env"
    using restart_resumes [OF files.record_store_axioms [of 1 "''CAM''"], where i = 0 and hi = "[65535]" and lo = "[1]" and E = E
        and st = "restarted (file_persistence rev False ''.'') 1 d"] d(2) ids recs
    by (auto simp: restarted_def client_at_def decimal_file_key cyclic_gap_def MAX_MSG_ID_def)
  with d(1) show ?thesis
    by auto
qed

end
