(* ===== verification/Mqtt_Requeue.thy ===== *)
theory Mqtt_Requeue
  imports Restart_Files
begin

text \<open>
  The queue of messages that the application has not taken yet: an entry reads back as it was stored,
  and after a restart the queue is in the order in which the messages arrived.
\<close>

section \<open>One entry\<close>

definition int32 :: "int \<Rightarrow> bool" where
  "int32 n \<longleftrightarrow> - (2 ^ 31) \<le> n \<and> n < 2 ^ 31"

lemma int_bytes_value: "horner_sum uint 256 (int_bytes n) = n mod 2 ^ 32"
proof -
  have "n mod (256 * (256 * (256 * 256))) =
      n mod 256 + 256 * (n div 256 mod 256 + 256 * (n div 256 div 256 mod 256 + 256 * (n div 256 div 256 div 256 mod 256)))"
    using zmod_zmult2_eq [of "256 * (256 * 256)" n 256] zmod_zmult2_eq [of "256 * 256" "n div 256" 256]
      zmod_zmult2_eq [of 256 "n div 256 div 256" 256]
    by (simp only: add.commute mult_nonneg_nonneg zero_le_numeral simp_thms)
  moreover have "int_bytes n = [of_int n, of_int (n div 256), of_int (n div 256 div 256), of_int (n div 256 div 256 div 256)]"
    by (simp add: int_bytes_def upt_rec numeral_eq_Suc zdiv_zmult2_eq [symmetric])
  ultimately show ?thesis
    by (simp add: uint_word_of_int_eq take_bit_eq_mod del: div_mult_self1 div_mult_self2)
qed

lemma int_at_bytes:
  assumes "int32 n" "mem = a @ int_bytes n @ b" "p = length a"
  shows "int_at mem p = Done n"
proof -
  have "signed_take_bit 31 (take_bit 32 n) = signed_take_bit 31 n"
    by (simp add: signed_take_bit_take_bit)
  then have "signed_take_bit 31 (n mod 2 ^ 32) = n"
    using assms(1) signed_take_bit_int_eq_self [of 31 n] by (simp add: int32_def take_bit_eq_mod)
  moreover have "length (int_bytes n) = 4"
    by (simp add: int_bytes_def)
  ultimately show ?thesis
    using int_bytes_value [of n] by (simp add: int_at_def assms(2,3))
qed

definition entry_bytes :: "qEntry \<Rightarrow> u8 list" where
  "entry_bytes qe = (let m = qe_msg qe in int_bytes (am_payloadlen m) @ am_payload m @ int_bytes (am_qos m) @
     int_bytes (am_retained m) @ int_bytes (am_dup m) @ int_bytes (am_msgid m) @ topicName qe @ [0] @ int_bytes (topicLen qe))"

definition valid_entry :: "qEntry \<Rightarrow> bool" where
  "valid_entry qe \<longleftrightarrow> (let m = qe_msg qe in
     am_payloadlen m = int (length (am_payload m)) \<and> int32 (am_payloadlen m) \<and> int32 (am_qos m) \<and> int32 (am_retained m)
   \<and> int32 (am_dup m) \<and> int32 (am_msgid m) \<and> 0 \<notin> set (topicName qe) \<and> int32 (topicLen qe))"

lemma length_int_bytes [simp]: "length (int_bytes n) = 4"
  by (simp add: int_bytes_def)

lemma queue_entry_read:
  assumes "valid_entry qe"
  shows "MQTTPersistence_restoreQueueEntry (entry_bytes qe) = Done (qe\<lparr>qe_seqno := 0\<rparr>)"
proof -
  let ?m = "qe_msg qe"
  let ?mem = "entry_bytes qe"
  let ?p = "am_payload ?m"
  note valid = assms [unfolded valid_entry_def Let_def]
  let ?l = "length ?p"
  have plen: "int32 (int ?l)"
    using valid by metis
  have read: "int_at ?mem 0 = Done (am_payloadlen ?m)" "int_at ?mem (4 + ?l) = Done (am_qos ?m)"
    "int_at ?mem (4 + ?l + 4) = Done (am_retained ?m)" "int_at ?mem (4 + ?l + 8) = Done (am_dup ?m)"
    "int_at ?mem (4 + ?l + 12) = Done (am_msgid ?m)"
    "int_at ?mem (4 + ?l + 16 + length (topicName qe) + 1) = Done (topicLen qe)"
    subgoal by (rule int_at_bytes [where a = "[]"]) (use valid plen in \<open>simp_all add: entry_bytes_def Let_def\<close>)
    subgoal by (rule int_at_bytes [where a = "int_bytes (am_payloadlen ?m) @ ?p"]) (use valid plen in \<open>simp_all add: entry_bytes_def Let_def\<close>)
    subgoal by (rule int_at_bytes [where a = "int_bytes (am_payloadlen ?m) @ ?p @ int_bytes (am_qos ?m)"])
        (use valid plen in \<open>simp_all add: entry_bytes_def Let_def\<close>)
    subgoal by (rule int_at_bytes [where a = "int_bytes (am_payloadlen ?m) @ ?p @ int_bytes (am_qos ?m) @ int_bytes (am_retained ?m)"])
        (use valid plen in \<open>simp_all add: entry_bytes_def Let_def\<close>)
    subgoal by (rule int_at_bytes [where a = "int_bytes (am_payloadlen ?m) @ ?p @ int_bytes (am_qos ?m) @ int_bytes (am_retained ?m) @
          int_bytes (am_dup ?m)"]) (use valid plen in \<open>simp_all add: entry_bytes_def Let_def\<close>)
    subgoal by (rule int_at_bytes [where a = "int_bytes (am_payloadlen ?m) @ ?p @ int_bytes (am_qos ?m) @ int_bytes (am_retained ?m) @
          int_bytes (am_dup ?m) @ int_bytes (am_msgid ?m) @ topicName qe @ [0]" and b = "[]"])
        (use valid plen in \<open>simp_all add: entry_bytes_def Let_def\<close>)
    done
  have "\<forall>b \<in> set (topicName qe). b \<noteq> 0"
    using valid by metis
  then have "takeWhile (\<lambda>b. b \<noteq> 0) (drop (4 + ?l + 16) ?mem) = topicName qe"
    by (simp add: entry_bytes_def Let_def takeWhile_append2)
  moreover have "take ?l (drop 4 ?mem) = ?p" "length ?mem = ?l + length (topicName qe) + 25"
    by (simp_all add: entry_bytes_def Let_def)
  ultimately show ?thesis
    using read valid by (simp add: MQTTPersistence_restoreQueueEntry_def Let_def)
qed

section \<open>The whole queue\<close>

abbreviation queue_key :: "u32 \<Rightarrow> string" where "queue_key n \<equiv> PERSISTENCE_QUEUE_KEY @ decimal (sint n)"

text \<open>An entry that is in the store under its number.\<close>

definition waiting :: "(string \<Rightarrow> u8 list option) \<Rightarrow> qEntry \<Rightarrow> bool" where
  "waiting r qe \<longleftrightarrow> valid_entry qe \<and> 0 < sint (qe_seqno qe) \<and> r (queue_key (qe_seqno qe)) = Some (entry_bytes qe)"

lemma queue_key_eq:
  assumes "0 < sint a" "0 < sint b"
  shows "queue_key a = queue_key b \<longleftrightarrow> a = b"
proof -
  have "digits_value (ascii (decimal (sint a))) = sint a" "digits_value (ascii (decimal (sint b))) = sint b"
    using assms by (simp_all add: decimal_def digits_value_decimal)
  then have "decimal (sint a) = decimal (sint b) \<Longrightarrow> sint a = sint b"
    by metis
  moreover have "sint a = sint b \<Longrightarrow> a = b"
    by (rule word_uint_eqI) (simp add: uint_sint)
  ultimately show ?thesis
    by auto
qed

lemma seqno_of_queue_key: "0 < sint n \<Longrightarrow> seqno_of_key (drop 2 (queue_key n)) = Done (sint n)"
  using sint_range_size [of n] atoi_decimal [of "nat (sint n)"]
  by (simp add: seqno_of_key_def PERSISTENCE_QUEUE_KEY_def decimal_def word_size)

lemma insertInSeqOrder_insort:
  "qe_seqno q \<notin> qe_seqno ` set (items l) \<Longrightarrow> items (MQTTPersistence_insertInSeqOrder q l) = insort_key qe_seqno q (items l)"
  using first_at_insort [of qe_seqno q "items l"]
  by (cases "first_at (\<lambda>x. qe_seqno q < qe_seqno x) (items l)")
    (simp_all add: MQTTPersistence_insertInSeqOrder_def cl_insert_def cl_append_def)

lemma waiting_unique: "waiting r a \<Longrightarrow> waiting r b \<Longrightarrow> qe_seqno a = qe_seqno b \<Longrightarrow> a = b"
proof -
  assume "waiting r a" "waiting r b" "qe_seqno a = qe_seqno b"
  then have "entry_bytes a = entry_bytes b" "valid_entry a" "valid_entry b"
    by (simp_all add: waiting_def)
  then have "a\<lparr>qe_seqno := 0\<rparr> = b\<lparr>qe_seqno := 0\<rparr>"
    using queue_entry_read [of a] queue_entry_read [of b] by simp
  with \<open>qe_seqno a = qe_seqno b\<close> show "a = b"
    by (cases a; cases b) simp
qed

definition queue_inv :: "nat \<Rightarrow> (string \<Rightarrow> u8 list option) \<Rightarrow> string set \<Rightarrow> ('k, 'p, 'u) mqtt \<Rightarrow> ('k, 'p, 'u) mqtt \<Rightarrow> bool" where
  "queue_inv i r K st0 st \<longleftrightarrow>
     (let c = client_at i st; q = items (messageQueue c) in
      i < length (items (clients st)) \<and> persistence_of c = persistence_of (client_at i st0) \<and> phandle c = phandle (client_at i st0)
    \<and> store st = store st0 \<and> sorted (map qe_seqno q) \<and> distinct (map qe_seqno q)
    \<and> set q = {qe. waiting r qe \<and> queue_key (qe_seqno qe) \<in> K}
    \<and> qentry_seqno c = fold max (map qe_seqno q) (qentry_seqno (client_at i st0)))"

lemma fold_max: "fold max xs (max b a) = max b (fold max xs (a :: 'b :: linorder))"
proof (induction xs arbitrary: a)
  case (Cons x xs)
  then show ?case
    using max.left_commute [of x b a] by simp
qed simp

lemma fold_max_insort: "fold max (map f (insort_key f x xs)) (a :: 'b :: linorder) = max (f x) (fold max (map f xs) a)"
proof (induction xs arbitrary: a)
  case (Cons y xs)
  then show ?case
    using fold_max [of "map f xs" "f x" "max (f y) a"] by (simp add: max.left_commute)
qed simp

context record_store
begin

lemma requeue_key:
  assumes "queue_inv i r K st0 st" "k \<notin> K" "r k = Some b" "records (store st0) = r" "ok (store st0)"
    and "persistence_of (client_at i st0) = Some P" "phandle (client_at i st0) = h"
    and "starts PERSISTENCE_QUEUE_KEY k \<Longrightarrow> \<exists>qe. waiting r qe \<and> k = queue_key (qe_seqno qe)"
  shows "\<exists>st'. restore_queue_key i P k st = Done (0, st') \<and> queue_inv i r (insert k K) st0 st'"
proof (cases "starts PERSISTENCE_QUEUE_KEY k")
  case False
  then have "queue_key n \<noteq> k" for n
    by (auto simp: starts_def PERSISTENCE_QUEUE_KEY_def)
  then show ?thesis
    using False assms(1) by (auto simp: restore_queue_key_def queue_inv_def Let_def)
next
  case True
  then obtain qe where qe: "waiting r qe" "k = queue_key (qe_seqno qe)"
    using assms(8) by blast
  note inv = assms(1) [unfolded queue_inv_def Let_def]
  let ?c = "client_at i st"
  let ?q = "messageQueue ?c"
  have phandle: "phandle ?c = h"
    using inv assms(7) by simp
  have get: "pget P h k (store st) = ((0, entry_bytes qe), store st)"
    using inv qe assms(4,5) by (intro get) (simp_all add: waiting_def)
  have entry: "MQTTPersistence_restoreQueueEntry (entry_bytes qe) = Done (qe\<lparr>qe_seqno := 0\<rparr>)"
    "seqno_of_key (drop 2 k) = Done (sint (qe_seqno qe))"
    using queue_entry_read [of qe] seqno_of_queue_key [of "qe_seqno qe"] qe by (simp_all add: waiting_def)
  let ?st = "upd_client i (\<lambda>c. c\<lparr>messageQueue := MQTTPersistence_insertInSeqOrder qe (messageQueue c),
      qentry_seqno := (if qe_seqno qe < qentry_seqno c then qentry_seqno c else qe_seqno qe)\<rparr>) st"
  have run: "restore_queue_key i P k st = Done (0, ?st)"
    using True get entry phandle by (simp add: restore_queue_key_def Let_def cong: if_cong)
  have at: "client_at i ?st = ?c\<lparr>messageQueue := MQTTPersistence_insertInSeqOrder qe ?q,
      qentry_seqno := (if qe_seqno qe < qentry_seqno ?c then qentry_seqno ?c else qe_seqno qe)\<rparr>"
    using inv by (subst client_at_upd) simp_all
  have new: "qe_seqno qe \<notin> qe_seqno ` set (items ?q)"
  proof
    assume "qe_seqno qe \<in> qe_seqno ` set (items ?q)"
    then obtain q where "q \<in> set (items ?q)" "qe_seqno q = qe_seqno qe"
      by (metis imageE)
    then have "queue_key (qe_seqno qe) \<in> K"
      using inv by (metis (mono_tags) mem_Collect_eq)
    with assms(2) qe(2) show False
      by blast
  qed
  have keys: "{q. waiting r q \<and> queue_key (qe_seqno q) \<in> insert k K} = insert qe {q. waiting r q \<and> queue_key (qe_seqno q) \<in> K}"
  proof -
    have "q = qe" if "waiting r q" "queue_key (qe_seqno q) = k" for q
      using that(2) qe(2) queue_key_eq [of "qe_seqno q" "qe_seqno qe"] waiting_unique [OF that(1) qe(1)] that(1) qe(1)
      unfolding waiting_def by metis
    then show ?thesis
      using qe by blast
  qed
  have "queue_inv i r (insert k K) st0 ?st"
  proof -
    let ?q' = "items (MQTTPersistence_insertInSeqOrder qe ?q)"
    have lists: "sorted (map qe_seqno ?q')" "distinct (map qe_seqno ?q')" "set ?q' = insert qe (set (items ?q))"
      "fold max (map qe_seqno ?q') z = max (qe_seqno qe) (fold max (map qe_seqno (items ?q)) z)" for z
      using inv new unfolding insertInSeqOrder_insort [OF new]
      by (simp_all add: sorted_insort_key distinct_insort_key set_insort_key fold_max_insort)
    have all: "set ?q' = {q. waiting r q \<and> queue_key (qe_seqno q) \<in> insert k K}"
      unfolding lists(3) keys using inv by blast
    have "qentry_seqno (client_at i ?st) = fold max (map qe_seqno ?q') (qentry_seqno (client_at i st0))"
      unfolding lists(4) at using inv by (auto simp: max_def)
    moreover have "messageQueue (client_at i ?st) = MQTTPersistence_insertInSeqOrder qe ?q" "phandle (client_at i ?st) = phandle ?c"
      "persistence_of (client_at i ?st) = persistence_of ?c"
      unfolding at by simp_all
    ultimately show ?thesis
      using lists(1,2) all inv unfolding queue_inv_def Let_def by (simp only: upd_client_others simp_thms)
  qed
  with run show ?thesis
    by blast
qed

lemma requeue_keys:
  assumes "queue_inv i r K st0 st" "distinct ks" "set ks \<inter> K = {}" "set ks \<subseteq> dom r" "records (store st0) = r" "ok (store st0)"
    and "persistence_of (client_at i st0) = Some P" "phandle (client_at i st0) = h"
    and "\<And>k. k \<in> dom r \<Longrightarrow> starts PERSISTENCE_QUEUE_KEY k \<Longrightarrow> \<exists>qe. waiting r qe \<and> k = queue_key (qe_seqno qe)"
  shows "\<exists>st'. restore_queue_keys i P ks st = Done (0, st') \<and> queue_inv i r (set ks \<union> K) st0 st'"
  using assms(1-4)
proof (induction ks arbitrary: K st)
  case (Cons k ks)
  then obtain b where b: "r k = Some b"
    by auto
  then obtain st1 where st1: "restore_queue_key i P k st = Done (0, st1)" "queue_inv i r (insert k K) st0 st1"
    using requeue_key [OF Cons.prems(1) _ b assms(5-8)] Cons.prems(3) assms(9) by (metis disjoint_iff domI list.set_intros(1))
  then show ?case
    using Cons.IH [OF st1(2)] Cons.prems(2-4) by auto
qed simp

end


definition waiting_entry :: qEntry where
  "waiting_entry = \<lparr>qe_msg = \<lparr>am_payload = [0, 255], am_payloadlen = 2, am_qos = 1, am_retained = 0, am_dup = 0, am_msgid = 7\<rparr>,
     topicName = [116], topicLen = 1, qe_seqno = 12\<rparr>"


section \<open>The key that does not fit\<close>

text \<open>
  The key of a queue entry is printed into \<open>PERSISTENCE_MAX_KEY_LENGTH + 1\<close> bytes.  The entry
  number 1000000 of a client, the prefix and seven digits with the terminator, writes past their end,
  whatever the message and the state of the store are.
\<close>

theorem queue_key_overflows:
  assumes "i < length (items (clients st))" "qentry_seqno (client_at i st) = 999999"
  shows "MQTTPersistence_persistQueueEntry i qe st = Fault"
proof -
  have "sint (1000000 :: u32) = 1000000"
    by simp
  then have "decimal (sint (1000000 :: u32)) = ''1000000''"
    by (simp add: decimal_def decimal_nat.simps char_of_def bit_Suc_0_iff)
  then have "key_into (PERSISTENCE_MAX_KEY_LENGTH + 1) PERSISTENCE_QUEUE_KEY (sint (1000000 :: u32)) = Fault"
    by (simp add: key_into_def PERSISTENCE_MAX_KEY_LENGTH_def PERSISTENCE_QUEUE_KEY_def)
  moreover have "qentry_seqno (client_at i (upd_client i (\<lambda>c. c\<lparr>qentry_seqno := qentry_seqno c + 1\<rparr>) st)) = 1000000"
    using assms by (simp add: client_at_upd)
  ultimately show ?thesis
    by (simp add: MQTTPersistence_persistQueueEntry_def Let_def)
qed


theorem queue_key_overflows_witness:
  "MQTTPersistence_persistQueueEntry 0 waiting_entry
     (upd_client 0 (\<lambda>c. c\<lparr>qentry_seqno := 999999\<rparr>) (restarted (file_persistence rev False ''.'') 1 (opened_store ''CAM''))) = Fault"
  by (rule queue_key_overflows) (simp_all add: restarted_def client_at_def upd_client_def)

end
