(* ===== verification/Async_Queue.thy ===== *)
theory Async_Queue
  imports Mqtt_Restore Utf8
begin

text \<open>
  The asynchronous client, first part: the queue of commands of \<^verbatim>\<open>mqtt/source/MQTTAsync.c\<close>, its records in
  the persistent store, the end of a session, and the functions the application calls.  The callbacks of
  the application change its own state only; that they may call the library again is not modelled.
\<close>

definition MQTTASYNC_FAILURE :: int where "MQTTASYNC_FAILURE = -1"
definition MQTTASYNC_PERSISTENCE_ERROR :: int where "MQTTASYNC_PERSISTENCE_ERROR = -2"
definition MQTTASYNC_BAD_UTF8_STRING :: int where "MQTTASYNC_BAD_UTF8_STRING = -5"
definition MQTTASYNC_NULL_PARAMETER :: int where "MQTTASYNC_NULL_PARAMETER = -6"
definition MQTTASYNC_BAD_STRUCTURE :: int where "MQTTASYNC_BAD_STRUCTURE = -8"
definition MQTTASYNC_BAD_QOS :: int where "MQTTASYNC_BAD_QOS = -9"
definition MQTTASYNC_NO_MORE_MSGIDS :: int where "MQTTASYNC_NO_MORE_MSGIDS = -10"
definition MQTTASYNC_TRUE :: int where "MQTTASYNC_TRUE = 1"
definition MQTTVERSION_DEFAULT :: int where "MQTTVERSION_DEFAULT = 0"
definition MQTTVERSION_3_1 :: int where "MQTTVERSION_3_1 = 3"
definition MQTTVERSION_3_1_1 :: int where "MQTTVERSION_3_1_1 = 4"

lemmas async_codes = MQTTASYNC_FAILURE_def MQTTASYNC_PERSISTENCE_ERROR_def MQTTASYNC_BAD_UTF8_STRING_def
  MQTTASYNC_NULL_PARAMETER_def MQTTASYNC_BAD_STRUCTURE_def MQTTASYNC_BAD_QOS_def MQTTASYNC_NO_MORE_MSGIDS_def
  MQTTASYNC_TRUE_def MQTTASYNC_SUCCESS_def MQTTASYNC_DISCONNECTED_def

lemmas mqtt_versions = MQTTVERSION_DEFAULT_def MQTTVERSION_3_1_def MQTTVERSION_3_1_1_def

text \<open>The members of the union that a command of the type has; zero bytes read as zeros.\<close>

definition conn_of :: "('u, 'z) command_scheme \<Rightarrow> conn_details outcome" where
  "conn_of c = (case details c of
     Conn d \<Rightarrow> Done d
   | No_details \<Rightarrow> Done \<lparr>conn_timeout = 0, serverURIcount = 0, serverURIs = 0, currentURI = 0, conn_version = 0\<rparr>
   | _ \<Rightarrow> Fault)"

definition dis_of :: "('u, 'z) command_scheme \<Rightarrow> (bool \<times> int) outcome" where
  "dis_of c = (case details c of Dis internal timeout \<Rightarrow> Done (internal, timeout) | No_details \<Rightarrow> Done (False, 0) | _ \<Rightarrow> Fault)"

definition call_success :: "('u, 'z) command_scheme \<Rightarrow> success_data option \<Rightarrow> ('k, 'p, 'u) mqtt \<Rightarrow> ('k, 'p, 'u) mqtt" where
  "call_success c d st = (case on_success c of None \<Rightarrow> st | Some f \<Rightarrow> st\<lparr>app := f d (app st)\<rparr>)"

definition call_failure :: "('u, 'z) command_scheme \<Rightarrow> failure_data option \<Rightarrow> ('k, 'p, 'u) mqtt \<Rightarrow> ('k, 'p, 'u) mqtt" where
  "call_failure c d st = (case on_failure c of None \<Rightarrow> st | Some f \<Rightarrow> st\<lparr>app := f d (app st)\<rparr>)"

definition MQTTAsync_elapsed :: "('k, 'a) env \<Rightarrow> int \<Rightarrow> ('k, 'p, 'u) mqtt \<Rightarrow> int" where
  "MQTTAsync_elapsed E start st = clock_of E (os (socks st)) - start"

definition MQTTAsync_checkConn :: "conn_details \<Rightarrow> nat \<Rightarrow> ('k, 'p, 'u) mqtt \<Rightarrow> bool" where
  "MQTTAsync_checkConn d i st \<longleftrightarrow>
     currentURI d < serverURIcount d \<or> conn_version d = 4 \<and> MQTTVersion (client_at i st) = MQTTVERSION_DEFAULT"

section \<open>Saved commands\<close>

definition MQTTAsync_unpersistCommand :: "'u queued_command \<Rightarrow> ('k, 'p, 'u) mqtt \<Rightarrow> (int \<times> ('k, 'p, 'u) mqtt) outcome" where
  "MQTTAsync_unpersistCommand q st =
     obind (key_into (PERSISTENCE_MAX_KEY_LENGTH + 1) PERSISTENCE_COMMAND_KEY (sint (cmd_seqno q))) (\<lambda>key.
       let c = client_at (cmd_client q) st in
       case persistence_of c of None \<Rightarrow> Fault
       | Some P \<Rightarrow> let (rc, p) = premove P (phandle c) key (store st) in Done (rc, st\<lparr>store := p\<rparr>))"

text \<open>A string at offset \<open>p\<close>, and the offset behind its terminator.\<close>

definition string_at :: "u8 list \<Rightarrow> nat \<Rightarrow> (u8 list \<times> nat) outcome" where
  "string_at mem p =
     (let s = takeWhile (\<lambda>b. b \<noteq> 0) (drop p mem) in check (p + length s < length mem) (Done (s, p + length s + 1)))"

text \<open>
  The arrays of topics and qualities of service are never allocated: the first turn of either loop
  stores through a null pointer.
\<close>

definition MQTTAsync_restoreCommand :: "u8 list \<Rightarrow> 'u command option outcome" where
  "MQTTAsync_restoreCommand mem =
     obind (int_at mem 0) (\<lambda>type.
     obind (int_at mem 4) (\<lambda>token.
       let command = zero_command\<lparr>cmd_token := token\<rparr> in
       if type = int (msg_code SUBSCRIBE)
       then obind (int_at mem 8) (\<lambda>n. check (n \<le> 0) (Done (Some (command\<lparr>cmd_type := SUBSCRIBE, details := Sub []\<rparr>))))
       else if type = int (msg_code UNSUBSCRIBE)
       then obind (int_at mem 8) (\<lambda>n. check (n \<le> 0) (Done (Some (command\<lparr>cmd_type := UNSUBSCRIBE, details := Unsub []\<rparr>))))
       else if type = int (msg_code PUBLISH)
       then obind (string_at mem 8) (\<lambda>(dest, ptr).
            obind (int_at mem ptr) (\<lambda>payloadlen.
            check (0 \<le> payloadlen \<and> ptr + 4 + nat payloadlen \<le> length mem)
              (let body = take (nat payloadlen) (drop (ptr + 4) mem); ptr = ptr + 4 + nat payloadlen in
               obind (int_at mem ptr) (\<lambda>qos.
               obind (int_at mem (ptr + 4)) (\<lambda>retained.
                 Done (Some (command\<lparr>cmd_type := PUBLISH, details := Pub (Some dest) body qos retained\<rparr>)))))))
       else Done None))"

text \<open>
  The restored commands go into the queue with \<open>MQTTPersistence_insertInOrder\<close>, which takes its elements
  for messages: it compares whatever a command has at the offset of \<open>msgid\<close>, the parameter \<open>overlay\<close>.
\<close>

definition insert_as_message :: "('u queued_command \<Rightarrow> int) \<Rightarrow> 'u queued_command \<Rightarrow> 'u queued_command clist \<Rightarrow> 'u queued_command clist" where
  "insert_as_message overlay q l =
     (case first_at (\<lambda>x. overlay q < overlay x) (items l) of
        None \<Rightarrow> cl_append q l
      | Some k \<Rightarrow> cl_insert q k l)"

definition restore_command_key ::
    "('u queued_command \<Rightarrow> int) \<Rightarrow> nat \<Rightarrow> 'p persistence \<Rightarrow> string \<Rightarrow> ('k, 'p, 'u) mqtt \<Rightarrow> (int \<times> ('k, 'p, 'u) mqtt) outcome" where
  "restore_command_key overlay i P key st =
     (if \<not> starts PERSISTENCE_COMMAND_KEY key then Done (0, st)
      else let ((rc, buffer), p) = pget P (phandle (client_at i st)) key (store st); st = st\<lparr>store := p\<rparr> in
        if rc \<noteq> 0 then Done (rc, st)
        else obind (MQTTAsync_restoreCommand buffer) (\<lambda>command.
          case command of None \<Rightarrow> Done (0, st)
          | Some c \<Rightarrow>
              obind (seqno_of_key (drop 2 key)) (\<lambda>n.
                let (q, st) = new_command i c st; q = q\<lparr>cmd_seqno := of_int n\<rparr>;
                    st = st\<lparr>commands := insert_as_message overlay q (commands st)\<rparr> in
                Done (0, upd_handle i (\<lambda>h. h\<lparr>command_seqno :=
                  (if cmd_seqno q < command_seqno h then command_seqno h else cmd_seqno q)\<rparr>) st))))"

fun restore_command_keys ::
    "('u queued_command \<Rightarrow> int) \<Rightarrow> nat \<Rightarrow> 'p persistence \<Rightarrow> string list \<Rightarrow> ('k, 'p, 'u) mqtt \<Rightarrow> (int \<times> ('k, 'p, 'u) mqtt) outcome" where
  "restore_command_keys overlay i P [] st = Done (0, st)"
| "restore_command_keys overlay i P (key # msgkeys) st =
     obind (restore_command_key overlay i P key st) (\<lambda>(rc, st).
       if rc = 0 then restore_command_keys overlay i P msgkeys st else Done (rc, st))"

definition MQTTAsync_restoreCommands ::
    "('u queued_command \<Rightarrow> int) \<Rightarrow> nat \<Rightarrow> ('k, 'p, 'u) mqtt \<Rightarrow> (int \<times> ('k, 'p, 'u) mqtt) outcome" where
  "MQTTAsync_restoreCommands overlay i st =
     (case persistence_of (client_at i st) of
        None \<Rightarrow> Done (0, st)
      | Some P \<Rightarrow>
          (let ((rc, msgkeys), p) = pkeys P (phandle (client_at i st)) (store st); st = st\<lparr>store := p\<rparr> in
           if rc \<noteq> 0 then Done (rc, st) else restore_command_keys overlay i P msgkeys st))"

section \<open>Releasing\<close>

text \<open>The array is released, but the commands that point to it keep the pointer.\<close>

definition MQTTAsync_freeConnect :: "('u, 'z) command_scheme \<Rightarrow> ('k, 'p, 'u) mqtt \<Rightarrow> ('k, 'p, 'u) mqtt outcome" where
  "MQTTAsync_freeConnect c st =
     (if cmd_type c = CONNECT
      then obind (conn_of c) (\<lambda>d.
        if serverURIs d = 0 then check (serverURIcount d = 0) (Done st)
        else check (heap_uris st (serverURIs d) \<noteq> None) (Done (st\<lparr>heap_uris := (heap_uris st)(serverURIs d := None)\<rparr>)))
      else Done st)"

definition unlink_commands :: "'u queued_command list \<Rightarrow> 'u queued_command clist \<Rightarrow> 'u queued_command clist" where
  "unlink_commands qs l = fold (\<lambda>q l. snd (cl_unlink (\<lambda>x. cmd_addr x = cmd_addr q) l)) qs l"

definition MQTTAsync_removeResponsesAndCommands :: "nat \<Rightarrow> ('k, 'p, 'u) mqtt \<Rightarrow> ('k, 'p, 'u) mqtt" where
  "MQTTAsync_removeResponsesAndCommands i st =
     (let st = upd_handle i (\<lambda>h. h\<lparr>responses := cl_new\<rparr>) st in
      st\<lparr>commands := unlink_commands (filter (\<lambda>q. cmd_client q = i) (items (commands st))) (commands st)\<rparr>)"

definition MQTTAsync_cleanSession :: "nat \<Rightarrow> ('k, 'p, 'u) mqtt \<Rightarrow> (int \<times> ('k, 'p, 'u) mqtt) outcome" where
  "MQTTAsync_cleanSession i st =
     (let (rc, st) = MQTTPersistence_clear i st in
      obind (MQTTProtocol_emptyMessageList (inboundMsgs (client_at i st)) st) (\<lambda>(l, st).
      let st = upd_client i (\<lambda>c. c\<lparr>inboundMsgs := l\<rparr>) st in
      obind (MQTTProtocol_emptyMessageList (outboundMsgs (client_at i st)) st) (\<lambda>(l, st).
      let st = upd_client i (\<lambda>c. c\<lparr>outboundMsgs := l\<rparr>) st;
          st = MQTTAsync_emptyMessageQueue i st;
          st = upd_client i (\<lambda>c. c\<lparr>msgID := 0\<rparr>) st;
          (found, hs) = cl_find (\<lambda>h. h_client h = i) (handles st); st = st\<lparr>handles := hs\<rparr> in
      Done (rc, if found \<noteq> None then MQTTAsync_removeResponsesAndCommands i st else st))))"

definition MQTTAsync_closeSession :: "('k, 'a) env \<Rightarrow> nat \<Rightarrow> ('k, 'p, 'u) mqtt \<Rightarrow> ('k, 'p, 'u) mqtt outcome" where
  "MQTTAsync_closeSession E i st =
     obind (MQTTAsync_closeOnly E i st) (\<lambda>st.
       if cleansession (client_at i st) then obind (MQTTAsync_cleanSession i st) (\<lambda>(_, st). Done st) else Done st)"

definition MQTTAsync_checkDisconnect ::
    "('k, 'a) env \<Rightarrow> nat \<Rightarrow> ('u, 'z) command_scheme \<Rightarrow> ('k, 'p, 'u) mqtt \<Rightarrow> ('k, 'p, 'u) mqtt outcome" where
  "MQTTAsync_checkDisconnect E i command st =
     obind (dis_of command) (\<lambda>(internal, timeout).
       if items (outboundMsgs (client_at i st)) = [] \<or> timeout \<le> MQTTAsync_elapsed E (start_time command) st
       then let was_connected = connected (client_at i st) in
            obind (MQTTAsync_closeSession E i st) (\<lambda>st.
              if internal
              then (case conn_lost (handle_at i st) of
                  Some f \<Rightarrow> Done (if was_connected then st\<lparr>app := f (app st)\<rparr> else st)
                | None \<Rightarrow> Done st)
              else Done (call_success command None st))
       else Done st)"

text \<open>
  What the code does in four places when a connection attempt has failed: the connect command goes back
  to the head of the queue where something is left to try, otherwise the attempt is over.
\<close>

definition connect_failed ::
    "('k, 'a) env \<Rightarrow> nat \<Rightarrow> failure_data option \<Rightarrow> ('k, 'p, 'u) mqtt \<Rightarrow> ('k, 'p, 'u) mqtt outcome" where
  "connect_failed E i data st =
     obind (conn_of (h_connect (handle_at i st))) (\<lambda>d.
       if MQTTAsync_checkConn d i st
       then obind (MQTTAsync_closeOnly E i st) (\<lambda>st.
            let (conn, st) = new_command i (h_connect (handle_at i st)) st in
            obind (MQTTAsync_addCommand E conn st) (\<lambda>(_, st). Done st))
       else obind (MQTTAsync_closeSession E i st) (\<lambda>st.
            obind (MQTTAsync_freeConnect (h_connect (handle_at i st)) st) (\<lambda>st.
              Done (call_failure (h_connect (handle_at i st)) data st))))"

end
