(* ===== verification/Async_Api.thy ===== *)
theory Async_Api
  imports Async_Queue
begin

text \<open>
  The functions of \<^verbatim>\<open>mqtt/source/MQTTAsync.c\<close> that the application calls.  A handle is the position of
  its client.  Starting the two threads is left out: what they do is in \<open>Async_Send\<close> and \<open>Async_Receive\<close>.
\<close>

section \<open>Tokens\<close>

definition cmdMessageIDCompare :: "int \<Rightarrow> 'u queued_command \<Rightarrow> bool" where
  "cmdMessageIDCompare b q \<longleftrightarrow> cmd_token q = b"

partial_function (option) assign_token_loop ::
    "int \<Rightarrow> int \<Rightarrow> 'u queued_command clist \<Rightarrow> 'u queued_command clist
      \<Rightarrow> (int \<times> 'u queued_command clist \<times> 'u queued_command clist) outcome option" where
  "assign_token_loop start msgid cs rs =
     (let (found, cs) = cl_find (cmdMessageIDCompare msgid) cs;
          (found, rs) = (if found \<noteq> None then (found, rs) else cl_find (cmdMessageIDCompare msgid) rs) in
      if found = None then Some (Done (msgid, cs, rs))
      else if next_id msgid = start then Some (Done (0, cs, rs))
      else assign_token_loop start (next_id msgid) cs rs)"

definition MQTTAsync_assignMsgId :: "nat \<Rightarrow> ('k, 'p, 'u) mqtt \<Rightarrow> (int \<times> ('k, 'p, 'u) mqtt) outcome" where
  "MQTTAsync_assignMsgId i st =
     (let start = msgID (client_at i st) in
      obind (run_loop (assign_token_loop start (next_id start) (commands st) (responses (handle_at i st)))) (\<lambda>(msgid, cs, rs).
        let st = upd_handle i (\<lambda>h. h\<lparr>responses := rs\<rparr>) (st\<lparr>commands := cs\<rparr>) in
        Done (msgid, if msgid \<noteq> 0 then upd_client i (\<lambda>c. c\<lparr>msgID := msgid\<rparr>) st else st)))"

section \<open>Requests\<close>

text \<open>
  The callbacks of \<open>MQTTAsync_responseOptions\<close>; the functions also return the token, 0 where no command
  was queued.
\<close>

record 'u response_options =
  rsp_success :: "(success_data option \<Rightarrow> 'u \<Rightarrow> 'u) option"
  rsp_failure :: "(failure_data option \<Rightarrow> 'u \<Rightarrow> 'u) option"

definition request :: "'u response_options option \<Rightarrow> msgTypes \<Rightarrow> int \<Rightarrow> command_details \<Rightarrow> 'u command" where
  "request response type msgid d =
     (let c = zero_command\<lparr>cmd_type := type, cmd_token := msgid, details := d\<rparr> in
      case response of None \<Rightarrow> c | Some r \<Rightarrow> c\<lparr>on_success := rsp_success r, on_failure := rsp_failure r\<rparr>)"

definition add_request ::
    "('k, 'a) env \<Rightarrow> nat \<Rightarrow> 'u command \<Rightarrow> ('k, 'p, 'u) mqtt \<Rightarrow> (int \<times> int \<times> ('k, 'p, 'u) mqtt) outcome" where
  "add_request E i c st =
     (let (q, st) = new_command i c st in
      obind (MQTTAsync_addCommand E q st) (\<lambda>(rc, st). Done (rc, cmd_token c, st)))"

fun check_subscriptions :: "(u8 list \<times> int) list \<Rightarrow> int outcome" where
  "check_subscriptions [] = Done MQTTASYNC_SUCCESS"
| "check_subscriptions ((topic, qos) # ts) =
     obind (UTF8_validateString (topic @ [0])) (\<lambda>ok.
       if \<not> ok then Done MQTTASYNC_BAD_UTF8_STRING
       else if qos < 0 \<or> 2 < qos then Done MQTTASYNC_BAD_QOS
       else check_subscriptions ts)"

definition MQTTAsync_subscribeMany ::
    "('k, 'a) env \<Rightarrow> nat \<Rightarrow> (u8 list \<times> int) list \<Rightarrow> 'u response_options option \<Rightarrow> ('k, 'p, 'u) mqtt
      \<Rightarrow> (int \<times> int \<times> ('k, 'p, 'u) mqtt) outcome" where
  "MQTTAsync_subscribeMany E i topics response st =
     (if \<not> connected (client_at i st) then Done (MQTTASYNC_DISCONNECTED, 0, st)
      else obind (check_subscriptions topics) (\<lambda>rc.
        if rc \<noteq> MQTTASYNC_SUCCESS then Done (rc, 0, st)
        else obind (MQTTAsync_assignMsgId i st) (\<lambda>(msgid, st).
          if msgid = 0 then Done (MQTTASYNC_NO_MORE_MSGIDS, 0, st)
          else add_request E i (request response SUBSCRIBE msgid (Sub (map (\<lambda>(t, qos). (t, of_int qos)) topics))) st)))"

definition MQTTAsync_subscribe ::
    "('k, 'a) env \<Rightarrow> nat \<Rightarrow> u8 list \<Rightarrow> int \<Rightarrow> 'u response_options option \<Rightarrow> ('k, 'p, 'u) mqtt
      \<Rightarrow> (int \<times> int \<times> ('k, 'p, 'u) mqtt) outcome" where
  "MQTTAsync_subscribe E i topic qos response st = MQTTAsync_subscribeMany E i [(topic, qos)] response st"

fun check_topics :: "u8 list list \<Rightarrow> int outcome" where
  "check_topics [] = Done MQTTASYNC_SUCCESS"
| "check_topics (topic # ts) =
     obind (UTF8_validateString (topic @ [0])) (\<lambda>ok. if \<not> ok then Done MQTTASYNC_BAD_UTF8_STRING else check_topics ts)"

definition MQTTAsync_unsubscribeMany ::
    "('k, 'a) env \<Rightarrow> nat \<Rightarrow> u8 list list \<Rightarrow> 'u response_options option \<Rightarrow> ('k, 'p, 'u) mqtt
      \<Rightarrow> (int \<times> int \<times> ('k, 'p, 'u) mqtt) outcome" where
  "MQTTAsync_unsubscribeMany E i topics response st =
     (if \<not> connected (client_at i st) then Done (MQTTASYNC_DISCONNECTED, 0, st)
      else obind (check_topics topics) (\<lambda>rc.
        if rc \<noteq> MQTTASYNC_SUCCESS then Done (rc, 0, st)
        else obind (MQTTAsync_assignMsgId i st) (\<lambda>(msgid, st).
          if msgid = 0 then Done (MQTTASYNC_NO_MORE_MSGIDS, 0, st)
          else add_request E i (request response UNSUBSCRIBE msgid (Unsub topics)) st)))"

definition MQTTAsync_unsubscribe ::
    "('k, 'a) env \<Rightarrow> nat \<Rightarrow> u8 list \<Rightarrow> 'u response_options option \<Rightarrow> ('k, 'p, 'u) mqtt
      \<Rightarrow> (int \<times> int \<times> ('k, 'p, 'u) mqtt) outcome" where
  "MQTTAsync_unsubscribe E i topic response st = MQTTAsync_unsubscribeMany E i [topic] response st"

text \<open>\<open>body\<close> is the memory behind \<open>payload\<close>.\<close>

definition MQTTAsync_send ::
    "('k, 'a) env \<Rightarrow> nat \<Rightarrow> u8 list \<Rightarrow> int \<Rightarrow> u8 list \<Rightarrow> int \<Rightarrow> int \<Rightarrow> 'u response_options option
      \<Rightarrow> ('k, 'p, 'u) mqtt \<Rightarrow> (int \<times> int \<times> ('k, 'p, 'u) mqtt) outcome" where
  "MQTTAsync_send E i destinationName payloadlen body qos retained response st =
     (if \<not> connected (client_at i st) then Done (MQTTASYNC_DISCONNECTED, 0, st)
      else obind (UTF8_validateString (destinationName @ [0])) (\<lambda>ok.
        if \<not> ok then Done (MQTTASYNC_BAD_UTF8_STRING, 0, st)
        else if qos < 0 \<or> 2 < qos then Done (MQTTASYNC_BAD_QOS, 0, st)
        else obind (if 0 < qos then MQTTAsync_assignMsgId i st else Done (0, st)) (\<lambda>(msgid, st).
          if 0 < qos \<and> msgid = 0 then Done (MQTTASYNC_NO_MORE_MSGIDS, 0, st)
          else check (0 \<le> payloadlen \<and> nat payloadlen \<le> length body)
            (add_request E i (request response PUBLISH msgid
              (Pub (Some destinationName) (take (nat payloadlen) body) qos retained)) st))))"

record app_message = async_message +
  am_struct_id :: "u8 list"
  am_struct_version :: int

definition MQTTAsync_sendMessage ::
    "('k, 'a) env \<Rightarrow> nat \<Rightarrow> u8 list \<Rightarrow> app_message option \<Rightarrow> 'u response_options option \<Rightarrow> ('k, 'p, 'u) mqtt
      \<Rightarrow> (int \<times> int \<times> ('k, 'p, 'u) mqtt) outcome" where
  "MQTTAsync_sendMessage E i destinationName message response st =
     (case message of None \<Rightarrow> Done (MQTTASYNC_NULL_PARAMETER, 0, st)
      | Some m \<Rightarrow>
          if am_struct_id m \<noteq> ascii ''MQTM'' \<or> am_struct_version m \<noteq> 0 then Done (MQTTASYNC_BAD_STRUCTURE, 0, st)
          else MQTTAsync_send E i destinationName (am_payloadlen m) (am_payload m) (am_qos m) (am_retained m) response st)"

section \<open>Connecting and disconnecting\<close>

record will_options =
  wo_struct_id :: "u8 list"
  wo_struct_version :: int
  wo_topicName :: "u8 list"
  wo_message :: "u8 list"
  wo_retained :: bool
  wo_qos :: int

text \<open>Of the SSL options only the fields that are looked at without OpenSSL: the eyecatcher and the version.\<close>

record 'u connect_options =
  co_struct_id :: "u8 list"
  co_struct_version :: int
  co_keepAliveInterval :: int
  co_cleansession :: bool
  co_maxInflight :: int
  co_will :: "will_options option"
  co_username :: "u8 list option"
  co_password :: "u8 list option"
  co_connectTimeout :: int
  co_retryInterval :: int
  co_ssl :: "(u8 list \<times> int) option"
  co_success :: "(success_data option \<Rightarrow> 'u \<Rightarrow> 'u) option"
  co_failure :: "(failure_data option \<Rightarrow> 'u \<Rightarrow> 'u) option"
  co_serverURIs :: "u8 list list"
  co_MQTTVersion :: int

definition check_will :: "will_options option \<Rightarrow> int" where
  "check_will w =
     (case w of None \<Rightarrow> MQTTASYNC_SUCCESS
      | Some w \<Rightarrow> if wo_struct_id w \<noteq> ascii ''MQTW'' \<or> wo_struct_version w \<noteq> 0 then MQTTASYNC_BAD_STRUCTURE
          else if wo_qos w < 0 \<or> 2 < wo_qos w then MQTTASYNC_BAD_QOS else MQTTASYNC_SUCCESS)"

definition check_string :: "u8 list option \<Rightarrow> bool outcome" where
  "check_string s = (case s of None \<Rightarrow> Done True | Some s \<Rightarrow> UTF8_validateString (s @ [0]))"

definition check_options :: "'u connect_options \<Rightarrow> int outcome" where
  "check_options options =
     (if co_struct_id options \<noteq> ascii ''MQTC'' \<or> co_struct_version options \<notin> {0, 1, 2, 3} then Done MQTTASYNC_BAD_STRUCTURE
      else if check_will (co_will options) \<noteq> MQTTASYNC_SUCCESS then Done (check_will (co_will options))
      else if co_struct_version options \<noteq> 0 \<and> (case co_ssl options of None \<Rightarrow> False | Some (sid, v) \<Rightarrow> sid \<noteq> ascii ''MQTS'' \<or> v \<noteq> 0)
      then Done MQTTASYNC_BAD_STRUCTURE
      else obind (check_string (co_username options)) (\<lambda>user.
        if \<not> user then Done MQTTASYNC_BAD_UTF8_STRING
        else obind (check_string (co_password options)) (\<lambda>pass.
          Done (if \<not> pass then MQTTASYNC_BAD_UTF8_STRING else MQTTASYNC_SUCCESS))))"

definition will_of :: "will_options \<Rightarrow> will_message" where
  "will_of w = \<lparr>will_topic = wo_topicName w, will_msg = wo_message w, will_retained = wo_retained w, will_qos = nat (wo_qos w)\<rparr>"

text \<open>The URIs of a connect command are copied to an array of their own.\<close>

definition connect_details :: "'u connect_options \<Rightarrow> ('k, 'p, 'u) mqtt \<Rightarrow> conn_details \<times> ('k, 'p, 'u) mqtt" where
  "connect_details options st =
     (let d = \<lparr>conn_timeout = co_connectTimeout options, serverURIcount = 0, serverURIs = 0, currentURI = 0, conn_version = 0\<rparr> in
      if 2 \<le> co_struct_version options \<and> co_serverURIs options \<noteq> []
      then (d\<lparr>serverURIcount := length (co_serverURIs options), serverURIs := next_addr st\<rparr>,
        st\<lparr>heap_uris := (heap_uris st)(next_addr st \<mapsto> co_serverURIs options), next_addr := next_addr st + 1\<rparr>)
      else (d, st))"

definition MQTTAsync_connect ::
    "('k, 'a) env \<Rightarrow> nat \<Rightarrow> 'u connect_options option \<Rightarrow> ('k, 'p, 'u) mqtt \<Rightarrow> (int \<times> ('k, 'p, 'u) mqtt) outcome" where
  "MQTTAsync_connect E i options st =
     (case options of None \<Rightarrow> Done (MQTTASYNC_NULL_PARAMETER, st)
      | Some options \<Rightarrow>
        obind (check_options options) (\<lambda>rc.
          if rc \<noteq> MQTTASYNC_SUCCESS then Done (rc, st)
          else
            let st = upd_handle i (\<lambda>h. h\<lparr>h_connect := (h_connect h)\<lparr>on_success := co_success options, on_failure := co_failure options\<rparr>\<rparr>) st;
                st = upd_client i (\<lambda>c. c\<lparr>keepAliveInterval := co_keepAliveInterval options, cleansession := co_cleansession options,
                  maxInflightMessages := co_maxInflight options,
                  MQTTVersion := (if co_struct_version options = 3 then co_MQTTVersion options else 0),
                  will := map_option will_of (co_will options), username := co_username options, password := co_password options,
                  retryInterval := co_retryInterval options\<rparr>) st;
                (d, st) = connect_details options st;
                (conn, st) = new_command i (zero_command\<lparr>cmd_type := CONNECT, on_success := co_success options,
                  on_failure := co_failure options, details := Conn d\<rparr>) st in
            MQTTAsync_addCommand E conn st))"

text \<open>Passing no options leaves the callbacks and the timeout zero.\<close>

definition MQTTAsync_disconnect ::
    "('k, 'a) env \<Rightarrow> nat \<Rightarrow> 'u disconnect_options option \<Rightarrow> ('k, 'p, 'u) mqtt \<Rightarrow> (int \<times> ('k, 'p, 'u) mqtt) outcome" where
  "MQTTAsync_disconnect E i options st =
     MQTTAsync_disconnect1 E i (case options of None \<Rightarrow> \<lparr>dis_success = None, dis_failure = None, dis_timeout = 0\<rparr> | Some d \<Rightarrow> d) False st"

definition MQTTAsync_isConnected :: "nat \<Rightarrow> ('k, 'p, 'u) mqtt \<Rightarrow> bool" where
  "MQTTAsync_isConnected i st = connected (client_at i st)"

definition MQTTAsync_setCallbacks ::
    "nat \<Rightarrow> ('u \<Rightarrow> 'u) option \<Rightarrow> (u8 list \<Rightarrow> int \<Rightarrow> async_message \<Rightarrow> 'u \<Rightarrow> int \<times> 'u) option \<Rightarrow> (int \<Rightarrow> 'u \<Rightarrow> 'u) option
      \<Rightarrow> ('k, 'p, 'u) mqtt \<Rightarrow> int \<times> ('k, 'p, 'u) mqtt" where
  "MQTTAsync_setCallbacks i cl ma dc st =
     (if ma = None \<or> connect_state (client_at i st) \<noteq> 0 then (MQTTASYNC_FAILURE, st)
      else (MQTTASYNC_SUCCESS, upd_handle i (\<lambda>h. h\<lparr>conn_lost := cl, msg_arrived := ma, delivery_complete := dc\<rparr>) st))"

section \<open>Asking for completion\<close>

text \<open>The tokens of the client, with the end marker; \<open>None\<close> where there is none.\<close>

definition MQTTAsync_getPendingTokens :: "nat \<Rightarrow> ('k, 'p, 'u) mqtt \<Rightarrow> int \<times> int list option" where
  "MQTTAsync_getPendingTokens i st =
     (let queued = map cmd_token (filter (\<lambda>q. cmd_client q = i) (items (commands st)));
          inflight = map m_msgid (items (outboundMsgs (client_at i st))) in
      (MQTTASYNC_SUCCESS, if queued @ inflight = [] then None else Some (queued @ inflight @ [-1])))"

definition MQTTAsync_isComplete :: "nat \<Rightarrow> int \<Rightarrow> ('k, 'p, 'u) mqtt \<Rightarrow> int" where
  "MQTTAsync_isComplete i dt st =
     (if (\<exists>q \<in> set (items (commands st)). cmd_client q = i \<and> cmd_token q = dt) then MQTTASYNC_SUCCESS
      else if (\<exists>m \<in> set (items (outboundMsgs (client_at i st))). m_msgid m = dt) then MQTTASYNC_SUCCESS
      else MQTTASYNC_TRUE)"

definition MQTTAsync_sleep :: "('k, 'a) env \<Rightarrow> int \<Rightarrow> ('k, 'p, 'u) mqtt \<Rightarrow> ('k, 'p, 'u) mqtt" where
  "MQTTAsync_sleep E milliseconds st =
     st\<lparr>socks := (socks st)\<lparr>os := sys_usleep (kern E) (milliseconds * 1000) (os (socks st))\<rparr>\<rparr>"

text \<open>
  \<open>others\<close> is what the other threads do while this one sleeps.  The result has a flag that tells whether
  the mutex of the library is still locked.
\<close>

partial_function (option) wait_loop ::
    "('k, 'a) env \<Rightarrow> (('k, 'p, 'u) mqtt \<Rightarrow> ('k, 'p, 'u) mqtt) \<Rightarrow> nat \<Rightarrow> int \<Rightarrow> int \<Rightarrow> int \<Rightarrow> ('k, 'p, 'u) mqtt
      \<Rightarrow> (int \<times> bool \<times> ('k, 'p, 'u) mqtt) outcome option" where
  "wait_loop E others i dt timeout start st =
     (if MQTTAsync_elapsed E start st < timeout
      then let st = others (MQTTAsync_sleep E 100 st) in
           if MQTTAsync_isComplete i dt st = 1 then Some (Done (MQTTASYNC_SUCCESS, False, st))
           else wait_loop E others i dt timeout start st
      else Some (Done (MQTTASYNC_FAILURE, False, st)))"

definition MQTTAsync_waitForCompletion ::
    "('k, 'a) env \<Rightarrow> (('k, 'p, 'u) mqtt \<Rightarrow> ('k, 'p, 'u) mqtt) \<Rightarrow> nat \<Rightarrow> int \<Rightarrow> int \<Rightarrow> ('k, 'p, 'u) mqtt
      \<Rightarrow> (int \<times> bool \<times> ('k, 'p, 'u) mqtt) outcome" where
  "MQTTAsync_waitForCompletion E others i dt timeout st =
     (if \<not> connected (client_at i st) then Done (MQTTASYNC_DISCONNECTED, True, st)
      else if MQTTAsync_isComplete i dt st = 1 then Done (MQTTASYNC_SUCCESS, False, st)
      else run_loop (wait_loop E others i dt timeout (clock_of E (os (socks st))) st))"

section \<open>Creating and destroying\<close>

definition zero_client :: "'p client" where
  "zero_client = \<lparr>clientID = [], username = None, password = None, cleansession = False, keepAliveInterval = 0, will = None,
     connected = False, good = False, ping_outstanding = False, connect_state = 0, net_socket = 0, lastSent = 0,
     lastReceived = 0, msgID = 0, retryInterval = 0, maxInflightMessages = 0, inboundMsgs = cl_new, outboundMsgs = cl_new,
     messageQueue = cl_new, qentry_seqno = 0, phandle = 0, persistence_of = None, MQTTVersion = 0\<rparr>"

definition strip_tcp :: "u8 list \<Rightarrow> u8 list" where
  "strip_tcp uri = (if take 6 uri = ascii ''tcp://'' then drop 6 uri else uri)"

text \<open>
  The new client is the last one of the list; here it is in the list before its persistent store is
  opened.  The initialisation of the library by the first call is the initial state.
\<close>

definition MQTTAsync_create ::
    "('k, 'a) env \<Rightarrow> ('u queued_command \<Rightarrow> int) \<Rightarrow> u8 list option \<Rightarrow> u8 list option \<Rightarrow> int \<Rightarrow> 'p persistence \<Rightarrow> 'p persistence option
      \<Rightarrow> ('k, 'p, 'u) mqtt \<Rightarrow> (int \<times> ('k, 'p, 'u) mqtt) outcome" where
  "MQTTAsync_create E overlay uri cid type default_files user st =
     (case (uri, cid) of
        (Some uri, Some cid) \<Rightarrow>
          obind (UTF8_validateString (cid @ [0])) (\<lambda>ok.
            if \<not> ok then Done (MQTTASYNC_BAD_UTF8_STRING, st)
            else
              let i = length (items (clients st)); uri = strip_tcp uri;
                  (rc, per) = MQTTPersistence_create type default_files user;
                  h = \<lparr>h_client = i, msg_arrived = None, conn_lost = None, delivery_complete = None, h_serverURI = uri,
                    h_connect = zero_command, h_disconnect = zero_command, pending_write = None, responses = cl_new,
                    command_seqno = 0\<rparr>;
                  st = st\<lparr>handles := cl_append h (handles st),
                    clients := cl_append (zero_client\<lparr>clientID := cid, persistence_of := per\<rparr>) (clients st)\<rparr> in
              if rc \<noteq> 0 then Done (rc, st)
              else obind (MQTTPersistence_initialize E i uri st) (\<lambda>(rc, st).
                if rc \<noteq> 0 then Done (rc, st)
                else obind (MQTTAsync_restoreCommands overlay i st) (\<lambda>(_, st).
                  obind (MQTTPersistence_restoreMessageQueue i st) (\<lambda>(_, st). Done (rc, st)))))
      | _ \<Rightarrow> Done (MQTTASYNC_NULL_PARAMETER, st))"

text \<open>
  When the client at position \<open>i\<close> goes, the positions behind it move down by one.  Ending the library
  with its last client is left out.
\<close>

definition MQTTAsync_destroy :: "nat \<Rightarrow> ('k, 'p, 'u) mqtt \<Rightarrow> ('k, 'p, 'u) mqtt outcome" where
  "MQTTAsync_destroy i st =
     (let st = MQTTAsync_removeResponsesAndCommands i st;
          (_, st) = MQTTPersistence_close i st;
          st = MQTTAsync_emptyMessageQueue i st;
          down = (\<lambda>j. if i < j then j - 1 else j) in
      obind (MQTTProtocol_freeClient i st) (\<lambda>st.
        let hs = snd (cl_unlink (\<lambda>h. h_client h = i) (handles st)) in
        Done (st\<lparr>clients := cl_delete i (clients st),
          handles := hs\<lparr>items := map (\<lambda>h. h\<lparr>h_client := down (h_client h), responses := (responses h)\<lparr>items :=
            map (\<lambda>q. q\<lparr>cmd_client := down (cmd_client q)\<rparr>) (items (responses h))\<rparr>\<rparr>) (items hs)\<rparr>,
          commands := (commands st)\<lparr>items := map (\<lambda>q. q\<lparr>cmd_client := down (cmd_client q)\<rparr>) (items (commands st))\<rparr>\<rparr>)))"

end
