(* ===== verification/Async_Send.thy ===== *)
theory Async_Send
  imports Async_Api
begin

text \<open>
  The send thread of \<^verbatim>\<open>mqtt/source/MQTTAsync.c\<close>: choosing the next command, carrying it out, what
  becomes of it afterwards, the timeouts, and the callback for completed writes.
\<close>

section \<open>Completed writes\<close>

definition publish_success :: "('u, 'z) command_scheme \<Rightarrow> ('k, 'p, 'u) mqtt \<Rightarrow> ('k, 'p, 'u) mqtt outcome" where
  "publish_success c st =
     (if on_success c = None then Done st
      else case details c of
        Pub dest body qos retained \<Rightarrow> Done (call_success c (Some (Pub_data (cmd_token c) dest body qos retained)) st)
      | _ \<Rightarrow> Fault)"

text \<open>
  The loop over the responses compares the pending write of the client of each with that of the client
  itself: it stops at the first response, whichever that is, and this one is detached and released.
  Without any response a null pointer is released.  \<open>pending_write\<close> points into a queued command: where
  no response is at its address, the command has been released.
\<close>

definition MQTTAsync_writeComplete ::
    "('k, 'a) env \<Rightarrow> int \<Rightarrow> ('k, 'p, 'u) mqtt \<Rightarrow> ('k, 'p, 'u) mqtt outcome" where
  "MQTTAsync_writeComplete E socket st =
     obind (MQTTProtocol_checkPendingWrites st) (\<lambda>st.
       case cl_find (\<lambda>h. net_socket (client_at (h_client h) st) = socket) (handles st) of
         (None, _) \<Rightarrow> Done st
       | (Some k, hs) \<Rightarrow>
           (let i = h_client (items hs ! k);
                st = upd_client i (\<lambda>c. c\<lparr>lastSent := now E (st\<lparr>handles := hs\<rparr>)\<rparr>) (st\<lparr>handles := hs\<rparr>);
                rs = responses (handle_at i st) in
            case pending_write (handle_at i st) of None \<Rightarrow> Done st
            | Some a \<Rightarrow>
                (case (items rs, find (\<lambda>q. cmd_addr q = a) (items rs)) of
                   (com # _, Some command) \<Rightarrow>
                     obind (publish_success command st) (\<lambda>st.
                       Done (upd_handle i (\<lambda>h. h\<lparr>pending_write := None,
                         responses := snd (cl_unlink (\<lambda>q. cmd_addr q = cmd_addr com) (responses h))\<rparr>) st))
                 | _ \<Rightarrow> Fault)))"

section \<open>Choosing a command\<close>

definition needs_id :: "msgTypes \<Rightarrow> bool" where
  "needs_id t \<longleftrightarrow> t = PUBLISH \<or> t = SUBSCRIBE \<or> t = UNSUBSCRIBE"

text \<open>\<open>ignored\<close> are the clients of which a command has been skipped.\<close>

fun pick_command ::
    "'u queued_command list \<Rightarrow> nat list \<Rightarrow> ('k, 'p, 'u) mqtt \<Rightarrow> 'u queued_command option \<times> ('k, 'p, 'u) mqtt" where
  "pick_command [] ignored st = (None, st)"
| "pick_command (cmd # cmds) ignored st =
     (if cmd_client cmd \<in> set ignored then pick_command cmds ignored st
      else
        let c = client_at (cmd_client cmd) st;
            (ready, st) =
              (if cmd_type cmd = CONNECT \<or> cmd_type cmd = DISCONNECT then (True, st)
               else if connected c \<and> connect_state c = 0
               then let (none, ss) = Socket_noPendingWrites (net_socket c) (socks st) in (none, st\<lparr>socks := ss\<rparr>)
               else (False, st)) in
        if ready \<and> \<not> (needs_id (cmd_type cmd) \<and> MAX_MSG_ID - 1 \<le> int (length (items (outboundMsgs c))))
        then (Some cmd, st)
        else pick_command cmds (ignored @ [cmd_client cmd]) st)"

section \<open>Carrying it out\<close>

text \<open>The server to try and the version of the protocol.\<close>

definition next_server :: "nat \<Rightarrow> conn_details \<Rightarrow> ('k, 'p, 'u) mqtt \<Rightarrow> (u8 list \<times> conn_details) outcome" where
  "next_server i d st =
     (if 0 < serverURIcount d
      then let d = (if MQTTVersion (client_at i st) = MQTTVERSION_DEFAULT
               then (if conn_version d = 3 then d\<lparr>currentURI := currentURI d + 1, conn_version := 4\<rparr> else d)
               else d\<lparr>currentURI := currentURI d + 1\<rparr>) in
           (case heap_uris st (serverURIs d) of None \<Rightarrow> Fault
            | Some uris \<Rightarrow> check (currentURI d < length uris) (Done (strip_tcp (uris ! currentURI d), d)))
      else Done (h_serverURI (handle_at i st), d))"

definition next_version :: "nat \<Rightarrow> conn_details \<Rightarrow> ('k, 'p, 'u) mqtt \<Rightarrow> conn_details" where
  "next_version i d st =
     (let v = MQTTVersion (client_at i st) in
      if v = MQTTVERSION_DEFAULT
      then (if conn_version d = 0 then d\<lparr>conn_version := MQTTVERSION_3_1_1\<rparr>
            else if conn_version d = MQTTVERSION_3_1_1 then d\<lparr>conn_version := MQTTVERSION_3_1\<rparr> else d)
      else d\<lparr>conn_version := v\<rparr>)"

text \<open>\<open>MQTTProtocol_connect\<close> may change the string it gets, which is the one in the command or the handle.\<close>

definition keep_server :: "nat \<Rightarrow> conn_details \<Rightarrow> u8 list \<Rightarrow> ('k, 'p, 'u) mqtt \<Rightarrow> ('k, 'p, 'u) mqtt" where
  "keep_server i d uri st =
     (if 0 < serverURIcount d
      then st\<lparr>heap_uris := (heap_uris st)(serverURIs d := map_option (\<lambda>uris.
             uris[currentURI d := take (length (uris ! currentURI d) - length uri) (uris ! currentURI d) @ uri])
           (heap_uris st (serverURIs d)))\<rparr>
      else upd_handle i (\<lambda>h. h\<lparr>h_serverURI := uri\<rparr>) st)"

definition do_connect ::
    "('k, 'a) env \<Rightarrow> 'u queued_command \<Rightarrow> ('k, 'p, 'u) mqtt \<Rightarrow> (int \<times> 'u queued_command \<times> ('k, 'p, 'u) mqtt) outcome" where
  "do_connect E q st =
     (let i = cmd_client q in
      if connect_state (client_at i st) \<noteq> 0 \<or> connected (client_at i st) then Done (0, q, st)
      else obind (conn_of q) (\<lambda>d.
        obind (next_server i d st) (\<lambda>(uri, d).
          let d = next_version i d st in
          obind (MQTTProtocol_connect E uri i (conn_version d) st) (\<lambda>(rc, uri, st).
            let st = keep_server i d uri st;
                rc = (if connect_state (client_at i st) = 0 then SOCKET_ERROR else rc);
                st = (if rc = EINPROGRESS
                  then st\<lparr>socks := Socket_addPendingWrite (net_socket (client_at i st)) (socks st)\<rparr> else st) in
            Done (rc, q\<lparr>details := Conn d\<rparr>, st)))))"

definition do_publish ::
    "('k, 'a) env \<Rightarrow> 'u queued_command \<Rightarrow> ('k, 'p, 'u) mqtt \<Rightarrow> (int \<times> 'u queued_command \<times> ('k, 'p, 'u) mqtt) outcome" where
  "do_publish E q st =
     (case details q of
        Pub (Some dest) body qos retained \<Rightarrow>
          (let p = \<lparr>pub_header = 0, pub_topic = dest, pub_topiclen = int (length dest), pub_msgId = cmd_token q,
                 pub_payload = body, pub_payloadlen = int (length body)\<rparr>;
               taken = q\<lparr>details := Pub None body qos retained\<rparr> in
           obind (MQTTProtocol_startPublish E (cmd_client q) p qos (retained \<noteq> 0) None st) (\<lambda>(rc, _, st).
             if qos = 0
             then if rc = TCPSOCKET_COMPLETE then obind (publish_success q st) (\<lambda>st. Done (rc, q, st))
                  else Done (rc, taken, upd_handle (cmd_client q) (\<lambda>h. h\<lparr>pending_write := Some (cmd_addr q)\<rparr>) st)
             else Done (rc, taken, st)))
      | _ \<Rightarrow> Fault)"

definition do_command ::
    "('k, 'a) env \<Rightarrow> 'u queued_command \<Rightarrow> ('k, 'p, 'u) mqtt \<Rightarrow> (int \<times> 'u queued_command \<times> ('k, 'p, 'u) mqtt) outcome" where
  "do_command E q st =
     (let i = cmd_client q in
      if cmd_type q = CONNECT then do_connect E q st
      else if cmd_type q = SUBSCRIBE
      then (case details q of
          Sub topics \<Rightarrow> obind (MQTTProtocol_subscribe E i topics (cmd_token q) st) (\<lambda>(rc, st). Done (rc, q, st))
        | _ \<Rightarrow> Fault)
      else if cmd_type q = UNSUBSCRIBE
      then (case details q of
          Unsub topics \<Rightarrow> obind (MQTTProtocol_unsubscribe E i topics (cmd_token q) st) (\<lambda>(rc, st). Done (rc, q, st))
        | _ \<Rightarrow> Fault)
      else if cmd_type q = PUBLISH then do_publish E q st
      else if cmd_type q = DISCONNECT
      then if connect_state (client_at i st) \<noteq> 0 \<or> connected (client_at i st)
           then obind (MQTTAsync_checkDisconnect E i q (upd_client i (\<lambda>c. c\<lparr>connect_state := -2\<rparr>) st)) (\<lambda>st. Done (0, q, st))
           else Done (0, q, st)
      else Done (0, q, st))"

definition publish_qos :: "'u queued_command \<Rightarrow> int" where
  "publish_qos q = (case details q of Pub _ _ qos _ \<Rightarrow> qos | _ \<Rightarrow> -1)"

definition await_response :: "'u queued_command \<Rightarrow> ('k, 'p, 'u) mqtt \<Rightarrow> ('k, 'p, 'u) mqtt" where
  "await_response q st = upd_handle (cmd_client q) (\<lambda>h. h\<lparr>responses := cl_append q (responses h)\<rparr>) st"

text \<open>What becomes of the command after it returned \<open>rc\<close>.\<close>

definition finish_command ::
    "('k, 'a) env \<Rightarrow> int \<Rightarrow> 'u queued_command \<Rightarrow> ('k, 'p, 'u) mqtt \<Rightarrow> ('k, 'p, 'u) mqtt outcome" where
  "finish_command E rc q st =
     (let i = cmd_client q; failed = (rc = SOCKET_ERROR \<or> rc = MQTTASYNC_PERSISTENCE_ERROR) in
      if cmd_type q = CONNECT \<and> \<not> failed then Done (upd_handle i (\<lambda>h. h\<lparr>h_connect := command.truncate q\<rparr>) st)
      else if cmd_type q = DISCONNECT then Done (upd_handle i (\<lambda>h. h\<lparr>h_disconnect := command.truncate q\<rparr>) st)
      else if cmd_type q = PUBLISH \<and> publish_qos q = 0
      then Done (if rc = TCPSOCKET_INTERRUPTED then await_response q st else st)
      else if failed
      then obind (if cmd_type q = CONNECT
             then MQTTAsync_disconnect E i (Some \<lparr>dis_success = None, dis_failure = None, dis_timeout = 0\<rparr>) st
             else MQTTAsync_disconnect_internal E i 0 st) (\<lambda>(_, st).
           obind (if cmd_type q = CONNECT then obind (conn_of q) (\<lambda>d. Done (MQTTAsync_checkConn d i st)) else Done False) (\<lambda>more.
             if more then obind (MQTTAsync_addCommand E q st) (\<lambda>(_, st). Done st)
             else MQTTAsync_freeConnect q (call_failure q None st)))
      else Done (await_response q st))"

definition MQTTAsync_processCommand :: "('k, 'a) env \<Rightarrow> ('k, 'p, 'u) mqtt \<Rightarrow> ('k, 'p, 'u) mqtt outcome" where
  "MQTTAsync_processCommand E st =
     (case pick_command (items (commands st)) [] st of
        (None, st) \<Rightarrow> Done st
      | (Some q, st) \<Rightarrow>
          (let st = st\<lparr>commands := snd (cl_unlink (\<lambda>x. cmd_addr x = cmd_addr q) (commands st))\<rparr> in
           obind (if persistence_of (client_at (cmd_client q) st) = None then Done st
                  else obind (MQTTAsync_unpersistCommand q st) (\<lambda>(_, st). Done st)) (\<lambda>st.
             obind (do_command E q st) (\<lambda>(rc, q, st). finish_command E rc q st))))"

section \<open>Timeouts\<close>

text \<open>The loop over the responses leaves at once: \<open>if (1)\<close> stands before its \<open>break\<close>.\<close>

definition check_timeout :: "('k, 'a) env \<Rightarrow> nat \<Rightarrow> ('k, 'p, 'u) mqtt \<Rightarrow> ('k, 'p, 'u) mqtt outcome" where
  "check_timeout E k st =
     (let i = h_client (items (handles st) ! k); h = handle_at i st; state = connect_state (client_at i st) in
      obind (if state = 0 then Done False
             else obind (conn_of (h_connect h)) (\<lambda>d.
               Done (conn_timeout d * 1000 < MQTTAsync_elapsed E (start_time (h_connect h)) st))) (\<lambda>late.
        if late then connect_failed E i None st
        else if state = -2 then MQTTAsync_checkDisconnect E i (h_disconnect h) st
        else Done st))"

definition MQTTAsync_checkTimeouts :: "('k, 'a) env \<Rightarrow> ('k, 'p, 'u) mqtt \<Rightarrow> ('k, 'p, 'u) mqtt outcome" where
  "MQTTAsync_checkTimeouts E st =
     (if now E st - last_timeouts st < 3 then Done st
      else for_clients (check_timeout E) [0..<length (items (handles st))] (st\<lparr>last_timeouts := now E st\<rparr>))"

section \<open>The thread\<close>

text \<open>Commands are processed as long as that changes their number.\<close>

partial_function (option) process_commands ::
    "('k, 'a) env \<Rightarrow> ('k, 'p, 'u) mqtt \<Rightarrow> ('k, 'p, 'u) mqtt outcome option" where
  "process_commands E st =
     (if items (commands st) = [] then Some (Done st)
      else case MQTTAsync_processCommand E st of
        Stuck \<Rightarrow> Some Stuck
      | Fault \<Rightarrow> Some Fault
      | Done st' \<Rightarrow> if length (items (commands st)) = length (items (commands st')) then Some (Done st')
          else process_commands E st')"

text \<open>One turn of the loop of the thread.\<close>

definition MQTTAsync_sendThread :: "('k, 'a) env \<Rightarrow> ('k, 'p, 'u) mqtt \<Rightarrow> ('k, 'p, 'u) mqtt outcome" where
  "MQTTAsync_sendThread E st = obind (run_loop (process_commands E st)) (MQTTAsync_checkTimeouts E)"

end
