(* ===== verification/Async_Receive.thy ===== *)
theory Async_Receive
  imports Async_Send
begin

text \<open>
  The receive thread of \<^verbatim>\<open>mqtt/source/MQTTAsync.c\<close>: waiting for a socket, completing a connection,
  reading a packet and handing it to the protocol functions and to the callbacks.
\<close>

section \<open>Waiting for a socket\<close>

text \<open>
  \<open>Socket_getReadySocket\<close> calls \<open>MQTTAsync_writeComplete\<close>, which works on the whole state: the state is
  passed through the socket layer beside that of the kernel.
\<close>

definition map_os :: "('k \<Rightarrow> 'l) \<Rightarrow> 'k sockets \<Rightarrow> 'l sockets" where
  "map_os f s = \<lparr>sbuf = sbuf s, rset = rset s, rset_saved = rset_saved s, wset = wset s, pending_wset = pending_wset s,
     maxfdp1 = maxfdp1 s, clientsds = clientsds s, cur_clientsds = cur_clientsds s, connect_pending = connect_pending s,
     write_pending = write_pending s, released = released s, os = f (os s)\<rparr>"

definition beside :: "('r \<times> 'k) \<Rightarrow> 's \<Rightarrow> 'r \<times> ('k \<times> 's)" where
  "beside rk x = (fst rk, (snd rk, x))"

definition lift_kernel :: "('k, 'a) kernel \<Rightarrow> ('k \<times> 's, 'a) kernel" where
  "lift_kernel K = \<lparr>sys_recv = (\<lambda>fd n k. beside (sys_recv K fd n (fst k)) (snd k)),
     sys_writev = (\<lambda>fd v k. beside (sys_writev K fd v (fst k)) (snd k)),
     sys_select = (\<lambda>n r w t k. beside (sys_select K n r w t (fst k)) (snd k)),
     sys_getfl = (\<lambda>fd k. beside (sys_getfl K fd (fst k)) (snd k)),
     sys_setfl = (\<lambda>fd v k. beside (sys_setfl K fd v (fst k)) (snd k)),
     sys_shutdown = (\<lambda>fd k. beside (sys_shutdown K fd (fst k)) (snd k)),
     sys_close = (\<lambda>fd k. beside (sys_close K fd (fst k)) (snd k)),
     sys_getaddrinfo = (\<lambda>a k. beside (sys_getaddrinfo K a (fst k)) (snd k)),
     sys_socket = (\<lambda>f k. beside (sys_socket K f (fst k)) (snd k)),
     sys_connect = (\<lambda>fd a k. beside (sys_connect K fd a (fst k)) (snd k)),
     sys_errno = (\<lambda>k. sys_errno K (fst k)),
     sys_so_error = (\<lambda>fd k. beside (sys_so_error K fd (fst k)) (snd k)),
     sys_usleep = (\<lambda>n k. (sys_usleep K n (fst k), snd k))\<rparr>"

definition write_complete_callback ::
    "('k, 'a) env \<Rightarrow> int \<Rightarrow> ('k \<times> ('k, 'p, 'u) mqtt) sockets \<Rightarrow> ('k \<times> ('k, 'p, 'u) mqtt) sockets outcome" where
  "write_complete_callback E socket ss =
     obind (MQTTAsync_writeComplete E socket ((snd (os ss))\<lparr>socks := map_os fst ss\<rparr>)) (\<lambda>st.
       Done (map_os (\<lambda>k. (k, st)) (socks st)))"

definition ready_socket :: "('k, 'a) env \<Rightarrow> int \<times> int \<Rightarrow> ('k, 'p, 'u) mqtt \<Rightarrow> (int \<times> ('k, 'p, 'u) mqtt) outcome" where
  "ready_socket E tp st =
     obind (Socket_getReadySocket (lift_kernel (kern E)) (write_complete_callback E) False (Some tp)
         (map_os (\<lambda>k. (k, st)) (socks st)))
       (\<lambda>(sock, ss). Done (sock, (snd (os ss))\<lparr>socks := map_os fst ss\<rparr>))"

section \<open>Connecting\<close>

definition SSL_FATAL :: int where "SSL_FATAL = -3"

definition MQTTAsync_connecting :: "('k, 'a) env \<Rightarrow> nat \<Rightarrow> ('k, 'p, 'u) mqtt \<Rightarrow> (int \<times> ('k, 'p, 'u) mqtt) outcome" where
  "MQTTAsync_connecting E i st =
     obind (if connect_state (client_at i st) = 1
       then let sock = net_socket (client_at i st);
                ((rc, error), ss) = on_os (sys_so_error (kern E) sock (os (socks st))) (socks st);
                st = st\<lparr>socks := ss\<rparr>;
                rc = (if rc = 0 then error else rc) in
            if rc \<noteq> 0 then Done (rc, st)
            else let st = upd_client i (\<lambda>c. c\<lparr>connect_state := 3\<rparr>) (st\<lparr>socks := Socket_clearPendingWrite sock (socks st)\<rparr>) in
                 obind (conn_of (h_connect (handle_at i st))) (\<lambda>d.
                   with_net (MQTTPacket_send_connect (client_ids.truncate (client_at i st)) (conn_version d)) E i st)
       else Done (-1, st))
     (\<lambda>(rc, st).
       if rc \<noteq> 0 \<and> rc \<noteq> TCPSOCKET_INTERRUPTED \<and> connect_state (client_at i st) \<noteq> 2 \<or> rc = SSL_FATAL
       then obind (connect_failed E i None st) (\<lambda>st. Done (rc, st))
       else Done (rc, st))"

definition touch_all :: "nat \<Rightarrow> ('k, 'p, 'u) mqtt \<Rightarrow> ('k, 'p, 'u) mqtt" where
  "touch_all i st = upd_client i (\<lambda>c. c\<lparr>outboundMsgs := (outboundMsgs c)\<lparr>items :=
     map (\<lambda>m. m\<lparr>lastTouch := 0\<rparr>) (items (outboundMsgs c))\<rparr>\<rparr>) st"

definition MQTTAsync_completeConnection ::
    "('k, 'a) env \<Rightarrow> nat \<Rightarrow> connack \<Rightarrow> ('k, 'p, 'u) mqtt \<Rightarrow> (int \<times> ('k, 'p, 'u) mqtt) outcome" where
  "MQTTAsync_completeConnection E i connack st =
     (if connect_state (client_at i st) \<noteq> 3 then Done (MQTTASYNC_FAILURE, st)
      else if connack_rc connack \<noteq> 0 then Done (sint (connack_rc connack), st)
      else
        let st = upd_client i (\<lambda>c. c\<lparr>connected := True, good := True, connect_state := 0\<rparr>) st in
        obind (if cleansession (client_at i st) then MQTTAsync_cleanSession i st else Done (0, st)) (\<lambda>(rc, st).
          if items (outboundMsgs (client_at i st)) \<noteq> []
          then obind (MQTTProtocol_retry E 0 True True (touch_all i st)) (\<lambda>st.
                 Done (if connected (client_at i st) then rc else MQTTASYNC_DISCONNECTED, st))
          else Done (rc, st)))"

section \<open>One cycle\<close>

definition find_socket :: "int \<Rightarrow> ('k, 'p, 'u) mqtt \<Rightarrow> nat option \<times> ('k, 'p, 'u) mqtt" where
  "find_socket sock st =
     (case cl_find (\<lambda>h. net_socket (client_at (h_client h) st) = sock) (handles st) of
        (None, hs) \<Rightarrow> (None, st\<lparr>handles := hs\<rparr>)
      | (Some k, hs) \<Rightarrow> (Some (h_client (items hs ! k)), st\<lparr>handles := hs\<rparr>))"

definition MQTTAsync_retry :: "('k, 'a) env \<Rightarrow> ('k, 'p, 'u) mqtt \<Rightarrow> ('k, 'p, 'u) mqtt outcome" where
  "MQTTAsync_retry E st =
     (let t = now E st in
      if 5 < t - last_retry st
      then obind (MQTTProtocol_keepalive E t (st\<lparr>last_retry := t\<rparr>)) (MQTTProtocol_retry E t True False)
      else MQTTProtocol_retry E t False False st)"

text \<open>The first response of the client with the token, taken from the list.\<close>

definition take_response :: "nat \<Rightarrow> int \<Rightarrow> ('k, 'p, 'u) mqtt \<Rightarrow> 'u queued_command option \<times> ('k, 'p, 'u) mqtt" where
  "take_response i token st =
     (case find (\<lambda>q. cmd_token q = token) (items (responses (handle_at i st))) of
        None \<Rightarrow> (None, st)
      | Some q \<Rightarrow> (Some q, upd_handle i (\<lambda>h. h\<lparr>responses := snd (cl_unlink (\<lambda>x. cmd_addr x = cmd_addr q) (responses h))\<rparr>) st))"

definition delivered :: "nat \<Rightarrow> int \<Rightarrow> ('k, 'p, 'u) mqtt \<Rightarrow> ('k, 'p, 'u) mqtt outcome" where
  "delivered i msgid st =
     (let st = (case delivery_complete (handle_at i st) of None \<Rightarrow> st | Some f \<Rightarrow> st\<lparr>app := f msgid (app st)\<rparr>) in
      case take_response i msgid st of
        (None, st) \<Rightarrow> Done st
      | (Some q, st) \<Rightarrow> publish_success q st)"

text \<open>The packets of the message flows; the others are left for the caller.\<close>

definition handle_flow ::
    "('k, 'a) env \<Rightarrow> nat option \<Rightarrow> packet \<Rightarrow> nat \<Rightarrow> int \<Rightarrow> int \<Rightarrow> ('k, 'p, 'u) mqtt
      \<Rightarrow> (packet option \<times> int \<times> ('k, 'p, 'u) mqtt) outcome" where
  "handle_flow E m pack ptype sock rc st =
     (let taken = (\<lambda>(rc, st). Done (None, rc, st)) in
      if ptype = msg_code PUBLISH
      then (case pack of Publish p \<Rightarrow> obind (MQTTProtocol_handlePublishes E p sock st) taken | _ \<Rightarrow> Fault)
      else if ptype = msg_code PUBACK \<or> ptype = msg_code PUBCOMP
      then (case pack of
          Ack a \<Rightarrow>
            obind (if ptype = msg_code PUBCOMP then MQTTProtocol_handlePubcomps E a sock st
                   else MQTTProtocol_handlePubacks E a sock st) (\<lambda>(rc, st).
              case m of None \<Rightarrow> Done (None, rc, st)
              | Some i \<Rightarrow> obind (delivered i (ack_msgId a) st) (\<lambda>st. Done (None, rc, st)))
        | _ \<Rightarrow> Fault)
      else if ptype = msg_code PUBREC
      then (case pack of Ack a \<Rightarrow> obind (MQTTProtocol_handlePubrecs E a sock st) taken | _ \<Rightarrow> Fault)
      else if ptype = msg_code PUBREL
      then (case pack of Ack a \<Rightarrow> obind (MQTTProtocol_handlePubrels E a sock st) taken | _ \<Rightarrow> Fault)
      else if ptype = msg_code PINGRESP then obind (MQTTProtocol_handlePingresps sock st) taken
      else Done (Some pack, rc, st))"

definition packet_header :: "packet \<Rightarrow> u8" where
  "packet_header pack = (case pack of Header_only h \<Rightarrow> h | Connack c \<Rightarrow> connack_header c | Publish p \<Rightarrow> pub_header p
     | Ack a \<Rightarrow> ack_header a | Suback s \<Rightarrow> suback_header s)"

text \<open>The packet is read, or the connection made, while the mutex is held.\<close>

definition read_socket ::
    "('k, 'a) env \<Rightarrow> nat \<Rightarrow> ('k, 'p, 'u) mqtt \<Rightarrow> (packet option \<times> int \<times> ('k, 'p, 'u) mqtt) outcome" where
  "read_socket E i st =
     obind (if connect_state (client_at i st) = 1 \<or> connect_state (client_at i st) = 2
            then obind (MQTTAsync_connecting E i st) (\<lambda>(rc, st). Done (None, rc, st))
            else obind (MQTTPacket_Factory (client_net E i) (Done st)) (\<lambda>(pack, rc, n). obind n (\<lambda>st. Done (pack, rc, st))))
       (\<lambda>(pack, rc, st).
         if connect_state (client_at i st) = 3 \<and> rc = SOCKET_ERROR
         then obind (connect_failed E i None st) (\<lambda>st. Done (pack, rc, st))
         else Done (pack, rc, st))"

definition MQTTAsync_cycle ::
    "('k, 'a) env \<Rightarrow> int \<Rightarrow> int \<Rightarrow> ('k, 'p, 'u) mqtt \<Rightarrow> (packet option \<times> int \<times> int \<times> ('k, 'p, 'u) mqtt) outcome" where
  "MQTTAsync_cycle E timeout rc st =
     (let tp = (if 0 < timeout then (timeout div 1000, timeout mod 1000 * 1000) else (0, 0)) in
      obind (ready_socket E tp st) (\<lambda>(sock, st).
      let st = (if sock = 0 \<and> (0 < fst tp \<or> 0 < snd tp) then MQTTAsync_sleep E 100 st else st) in
      obind (if 0 < sock
        then let (m, st) = find_socket sock st in
             obind (case m of None \<Rightarrow> Done (None, rc, st) | Some i \<Rightarrow> read_socket E i st) (\<lambda>(pack, rc, st).
               case pack of None \<Rightarrow> Done (None, rc, st)
               | Some p \<Rightarrow> handle_flow E m p (header_type (packet_header p)) sock rc st)
        else Done (None, rc, st))
      (\<lambda>(pack, rc, st). obind (MQTTAsync_retry E st) (\<lambda>st. Done (pack, sock, rc, st)))))"

section \<open>The thread\<close>

text \<open>
  A queued message is handed to the application again.  When it is taken, its entry is released and then
  looked at once more to remove its record: with a persistent store that is a fault.
\<close>

definition deliver_queued :: "nat \<Rightarrow> ('k, 'p, 'u) mqtt \<Rightarrow> ('k, 'p, 'u) mqtt outcome" where
  "deliver_queued i st =
     (case items (messageQueue (client_at i st)) of [] \<Rightarrow> Done st
      | qe # _ \<Rightarrow>
          (let tlen = (if int (length (c_string (topicName qe))) = topicLen qe then 0 else topicLen qe);
               (rc, st) = (case msg_arrived (handle_at i st) of
                   None \<Rightarrow> (1, st)
                 | Some ma \<Rightarrow> MQTTAsync_deliverMessage ma (topicName qe) tlen (qe_msg qe) st) in
           if rc = 0 then Done st
           else check (persistence_of (client_at i st) = None)
             (Done (upd_client i (\<lambda>c. c\<lparr>messageQueue := cl_delete 0 (messageQueue c)\<rparr>) st))))"

text \<open>
  The URI of the server that was connected to is read for the callback after the array of URIs has been
  released.
\<close>

definition connack_received :: "('k, 'a) env \<Rightarrow> nat \<Rightarrow> connack \<Rightarrow> ('k, 'p, 'u) mqtt \<Rightarrow> ('k, 'p, 'u) mqtt outcome" where
  "connack_received E i connack st =
     obind (MQTTAsync_completeConnection E i connack st) (\<lambda>(rc, st).
       if rc = MQTTASYNC_SUCCESS
       then obind (MQTTAsync_freeConnect (h_connect (handle_at i st)) st) (\<lambda>st.
            let c = h_connect (handle_at i st) in
            if on_success c = None then Done st
            else obind (conn_of c) (\<lambda>d.
              obind (if 0 < serverURIcount d
                then (case heap_uris st (serverURIs d) of None \<Rightarrow> Fault
                  | Some uris \<Rightarrow> check (currentURI d < length uris) (Done (uris ! currentURI d)))
                else Done (h_serverURI (handle_at i st))) (\<lambda>uri.
                Done (call_success c (Some (Conn_data uri (conn_version d) (bit (connack_flags connack) 0))) st))))
       else connect_failed E i (Some \<lparr>fail_token = 0, fail_code = rc\<rparr>) st)"

definition MQTT_BAD_SUBSCRIBE :: u8 where "MQTT_BAD_SUBSCRIBE = 0x80"

definition suback_received :: "nat \<Rightarrow> suback \<Rightarrow> ('k, 'p, 'u) mqtt \<Rightarrow> (int \<times> ('k, 'p, 'u) mqtt) outcome" where
  "suback_received i sub st =
     (let (found, st) = take_response i (suback_msgId sub) st;
          st = (case found of None \<Rightarrow> st
            | Some q \<Rightarrow>
                if qoss sub = [MQTT_BAD_SUBSCRIBE]
                then call_failure q (Some \<lparr>fail_token = cmd_token q, fail_code = uint MQTT_BAD_SUBSCRIBE\<rparr>) st
                else call_success q (Some (Sub_data (cmd_token q) (qoss sub))) st) in
      MQTTProtocol_handleSubacks (net_socket (client_at i st)) st)"

definition unsuback_received :: "nat \<Rightarrow> ack \<Rightarrow> ('k, 'p, 'u) mqtt \<Rightarrow> (int \<times> ('k, 'p, 'u) mqtt) outcome" where
  "unsuback_received i a st =
     (let (found, st) = take_response i (ack_msgId a) st in
      case found of
        None \<Rightarrow> MQTTProtocol_handleUnsubacks (net_socket (client_at i st)) st
      | Some q \<Rightarrow>
          obind (MQTTProtocol_handleUnsubacks (net_socket (client_at i st)) st) (\<lambda>(rc, st).
            Done (rc, call_success q None st)))"

definition handle_rest :: "('k, 'a) env \<Rightarrow> nat \<Rightarrow> packet \<Rightarrow> ('k, 'p, 'u) mqtt \<Rightarrow> ('k, 'p, 'u) mqtt outcome" where
  "handle_rest E i pack st =
     (let ptype = header_type (packet_header pack) in
      if ptype = msg_code CONNACK then (case pack of Connack c \<Rightarrow> connack_received E i c st | _ \<Rightarrow> Fault)
      else if ptype = msg_code SUBACK
      then (case pack of Suback s \<Rightarrow> obind (suback_received i s st) (\<lambda>(_, st). Done st) | _ \<Rightarrow> Fault)
      else if ptype = msg_code UNSUBACK
      then (case pack of Ack a \<Rightarrow> obind (unsuback_received i a st) (\<lambda>(_, st). Done st) | _ \<Rightarrow> Fault)
      else Done st)"

text \<open>One turn of the loop of the thread.\<close>

definition MQTTAsync_receiveThread :: "('k, 'a) env \<Rightarrow> int \<Rightarrow> ('k, 'p, 'u) mqtt \<Rightarrow> ('k, 'p, 'u) mqtt outcome" where
  "MQTTAsync_receiveThread E timeout st =
     obind (MQTTAsync_cycle E timeout SOCKET_ERROR st) (\<lambda>(pack, sock, rc, st).
       if sock = 0 then Done st
       else let (m, st) = find_socket sock st in
         case m of None \<Rightarrow> Done st
         | Some i \<Rightarrow>
             if rc = SOCKET_ERROR
             then if connected (client_at i st) then obind (MQTTAsync_disconnect_internal E i 0 st) (\<lambda>(_, st). Done st)
                  else MQTTAsync_closeOnly E i st
             else obind (deliver_queued i st) (\<lambda>st.
               case pack of None \<Rightarrow> Done st | Some p \<Rightarrow> handle_rest E i p st))"

end
