(* ===== verification/Async_Order.thy ===== *)
theory Async_Order
  imports Async_Send Mqtt_Sender
begin

text \<open>
  The order in which the send thread of \<^verbatim>\<open>mqtt/source/MQTTAsync.c\<close> takes the queued commands.  The one
  queue of the library stands for a queue of each client, read as \<open>queue_of\<close>; what is carried out next
  is the first command, in the order of the whole queue, that is at the front of its client's queue and
  \<open>ready\<close>.
\<close>

section \<open>The specification\<close>

definition queue_of :: "nat \<Rightarrow> 'u queued_command clist \<Rightarrow> 'u queued_command list" where
  "queue_of i l = filter (\<lambda>q. cmd_client q = i) (items l)"

fun fronts :: "nat set \<Rightarrow> 'u queued_command list \<Rightarrow> 'u queued_command list" where
  "fronts seen [] = []"
| "fronts seen (q # qs) =
     (if cmd_client q \<in> seen then fronts seen qs else q # fronts (insert (cmd_client q) seen) qs)"

definition ready :: "('k, 'p, 'u) mqtt \<Rightarrow> 'u queued_command \<Rightarrow> bool" where
  "ready st q \<longleftrightarrow>
     (let c = client_at (cmd_client q) st in
      (cmd_type q \<in> {CONNECT, DISCONNECT}
         \<or> connected c \<and> connect_state c = 0 \<and> net_socket c \<notin> set (items (write_pending (socks st))))
      \<and> (cmd_type q \<in> {PUBLISH, SUBSCRIBE, UNSUBSCRIBE} \<longrightarrow> int (length (items (outboundMsgs c))) < MAX_MSG_ID - 1))"

definition carry_out :: "('k, 'a) env \<Rightarrow> 'u queued_command \<Rightarrow> ('k, 'p, 'u) mqtt \<Rightarrow> ('k, 'p, 'u) mqtt outcome" where
  "carry_out E q st =
     obind (if persistence_of (client_at (cmd_client q) st) = None then Done st
            else obind (MQTTAsync_unpersistCommand q st) (\<lambda>(_, st). Done st)) (\<lambda>st.
       obind (do_command E q st) (\<lambda>(rc, q, st). finish_command E rc q st))"

text \<open>Looking for a pending write moves the search position of its list.\<close>

definition looked :: "('k, 'p, 'u) mqtt \<Rightarrow> ('k, 'p, 'u) mqtt \<Rightarrow> bool" where
  "looked st st' \<longleftrightarrow>
     (\<exists>ws. items ws = items (write_pending (socks st)) \<and> st' = st\<lparr>socks := (socks st)\<lparr>write_pending := ws\<rparr>\<rparr>)"

section \<open>The choice\<close>

lemma looked_refl: "looked st st"
  by (auto simp: looked_def intro!: exI [of _ "write_pending (socks st)"])

lemma looked_trans: "looked st1 st2 \<Longrightarrow> looked st2 st3 \<Longrightarrow> looked st1 st3"
  by (auto simp: looked_def)

lemma looked_ready: "looked st st' \<Longrightarrow> ready st' = ready st"
  by (auto simp: looked_def ready_def client_at_def fun_eq_iff)

lemma looked_noPending:
  "looked st (st\<lparr>socks := snd (Socket_noPendingWrites s (socks st))\<rparr>)"
  "fst (Socket_noPendingWrites s (socks st)) \<longleftrightarrow> s \<notin> set (items (write_pending (socks st)))"
proof -
  obtain found ws where f: "cl_find (intcompare s) (write_pending (socks st)) = (found, ws)"
    by fastforce
  have "items ws = items (write_pending (socks st))" "found = None \<longleftrightarrow> s \<notin> set (items (write_pending (socks st)))"
    using items_find [of "intcompare s" "write_pending (socks st)"]
      cl_find_None [of "intcompare s" "write_pending (socks st)"]
    by (auto simp: f intcompare_def)
  then show "looked st (st\<lparr>socks := snd (Socket_noPendingWrites s (socks st))\<rparr>)"
    "fst (Socket_noPendingWrites s (socks st)) \<longleftrightarrow> s \<notin> set (items (write_pending (socks st)))"
    by (auto simp: looked_def Socket_noPendingWrites_def f)
qed

lemma pick_ready:
  assumes "cmd_client q \<notin> set ignored"
  obtains st' where "looked st st'"
    "pick_command (q # qs) ignored st =
       (if ready st q then (Some q, st') else pick_command qs (ignored @ [cmd_client q]) st')"
proof -
  let ?c = "client_at (cmd_client q) st"
  consider "cmd_type q \<in> {CONNECT, DISCONNECT}"
    | "cmd_type q \<notin> {CONNECT, DISCONNECT}" "connected ?c \<and> connect_state ?c = 0"
    | "cmd_type q \<notin> {CONNECT, DISCONNECT}" "\<not> (connected ?c \<and> connect_state ?c = 0)"
    by blast
  then show ?thesis
  proof cases
    case 2
    then show ?thesis
      using assms looked_noPending [where st = st and s = "net_socket ?c"]
      by (intro that [of "st\<lparr>socks := snd (Socket_noPendingWrites (net_socket ?c) (socks st))\<rparr>"])
        (auto simp: ready_def needs_id_def Let_def split: prod.split)
  qed (use assms in \<open>auto intro!: that [of st] simp: ready_def needs_id_def looked_refl Let_def\<close>)
qed

lemma pick_command_find:
  "\<exists>st'. looked st st' \<and> pick_command qs ignored st = (find (ready st) (fronts (set ignored) qs), st')"
proof (induction qs arbitrary: ignored st)
  case Nil
  then show ?case
    by (auto intro: looked_refl)
next
  case (Cons q qs)
  show ?case
  proof (cases "cmd_client q \<in> set ignored")
    case True
    then show ?thesis
      using Cons.IH [of st ignored] by simp
  next
    case False
    obtain st1 where st1: "looked st st1" "pick_command (q # qs) ignored st =
       (if ready st q then (Some q, st1) else pick_command qs (ignored @ [cmd_client q]) st1)"
      using pick_ready [OF False] by blast
    obtain st2 where "looked st1 st2"
      "pick_command qs (ignored @ [cmd_client q]) st1 = (find (ready st) (fronts (set (ignored @ [cmd_client q])) qs), st2)"
      using Cons.IH [of st1 "ignored @ [cmd_client q]"] looked_ready [OF st1(1)] by auto
    then show ?thesis
      using st1 False looked_trans [OF st1(1)] by auto
  qed
qed

text \<open>A front command is the head of its client's queue.\<close>

lemma fronts_first:
  "q \<in> set (fronts seen qs) \<Longrightarrow>
   \<exists>us vs. qs = us @ q # vs \<and> cmd_client q \<notin> seen \<and> (\<forall>u \<in> set us. cmd_client u \<noteq> cmd_client q)"
proof (induction qs arbitrary: seen)
  case (Cons a qs)
  show ?case
  proof (cases "cmd_client a \<notin> seen \<and> a = q")
    case True
    then show ?thesis
      by (intro exI [of _ "[]"] exI [of _ qs]) auto
  next
    case False
    let ?seen = "if cmd_client a \<in> seen then seen else insert (cmd_client a) seen"
    have "q \<in> set (fronts ?seen qs)"
      using Cons.prems False by (auto split: if_splits)
    then obtain us vs where "qs = us @ q # vs" "cmd_client q \<notin> ?seen" "\<forall>u \<in> set us. cmd_client u \<noteq> cmd_client q"
      using Cons.IH by blast
    moreover have "cmd_client a \<noteq> cmd_client q"
      using calculation(2) by (auto split: if_splits)
    ultimately show ?thesis
      by (intro exI [of _ "a # us"] exI [of _ vs]) (auto split: if_splits)
  qed
qed simp

lemma unlink_item:
  assumes "distinct (map cmd_addr (us @ q # vs))" "items l = us @ q # vs"
  shows "items (snd (cl_unlink (\<lambda>x. cmd_addr x = cmd_addr q) l)) = us @ vs"
proof -
  let ?P = "\<lambda>x. cmd_addr x = cmd_addr q"
  have only: "j = length us" if "j < length (items l)" "?P (items l ! j)" for j
  proof -
    have "map cmd_addr (items l) ! j = map cmd_addr (items l) ! length us" "length us < length (items l)"
      unfolding nth_map [OF that(1)] using that(2) by (simp_all add: assms(2) nth_append)
    moreover have "distinct (map cmd_addr (items l))"
      using assms by (simp only:)
    ultimately show ?thesis
      using that(1) by (metis length_map nth_eq_iff_index_eq)
  qed
  obtain k where k: "cl_index ?P l = Some k"
    using cl_index_None [of ?P l] assms(2) by (cases "cl_index ?P l") auto
  then have "k = length us"
    using cl_index_Some [OF k] only by blast
  then show ?thesis
    using k assms(2) by (simp add: cl_unlink_def items_delete)
qed

section \<open>The order\<close>

text \<open>
  C12: \<open>MQTTAsync_processCommand\<close> implements a queue of each client: it carries out the first command of
  the whole queue that is at the front of its client's queue and ready, takes it from the front of that
  queue and leaves every other client's queue as it is; without such a command it does nothing.
\<close>

theorem processCommand_in_order:
  assumes "distinct (map cmd_addr (items (commands st)))"
  shows "\<exists>st'. looked st st' \<and>
    (case find (ready st) (fronts {} (items (commands st))) of
       None \<Rightarrow> MQTTAsync_processCommand E st = Done st'
     | Some q \<Rightarrow> (\<exists>l. MQTTAsync_processCommand E st = carry_out E q (st'\<lparr>commands := l\<rparr>)
         \<and> queue_of (cmd_client q) (commands st) = q # queue_of (cmd_client q) l
         \<and> (\<forall>j. j \<noteq> cmd_client q \<longrightarrow> queue_of j l = queue_of j (commands st))))"
proof -
  obtain st' where st': "looked st st'"
    "pick_command (items (commands st)) [] st = (find (ready st) (fronts {} (items (commands st))), st')"
    using pick_command_find [of st "items (commands st)" "[]"] by auto
  have same: "commands st' = commands st"
    using st'(1) by (auto simp: looked_def)
  show ?thesis
  proof (cases "find (ready st) (fronts {} (items (commands st)))")
    case None
    then show ?thesis
      using st' by (auto simp: MQTTAsync_processCommand_def)
  next
    case (Some q)
    let ?l = "snd (cl_unlink (\<lambda>x. cmd_addr x = cmd_addr q) (commands st))"
    have "q \<in> set (fronts {} (items (commands st)))"
      using Some by (auto simp: find_Some_iff)
    then obtain us vs where uv: "items (commands st) = us @ q # vs" "\<forall>u \<in> set us. cmd_client u \<noteq> cmd_client q"
      using fronts_first by blast
    then have "items ?l = us @ vs"
      using assms by (intro unlink_item) simp_all
    then have "queue_of (cmd_client q) (commands st) = q # queue_of (cmd_client q) ?l"
      "\<forall>j. j \<noteq> cmd_client q \<longrightarrow> queue_of j ?l = queue_of j (commands st)"
      using uv by (auto simp: queue_of_def)
    moreover have "MQTTAsync_processCommand E st = carry_out E q (st'\<lparr>commands := ?l\<rparr>)"
      using st'(2) same by (simp add: MQTTAsync_processCommand_def carry_out_def Some Let_def)
    ultimately show ?thesis
      using st'(1) Some by auto
  qed
qed

text \<open>One connected client and its handle, and a command of it.\<close>

definition idle_handle :: "'u async_handle" where
  "idle_handle = \<lparr>h_client = 0, msg_arrived = None, conn_lost = None, delivery_complete = None, h_serverURI = [104],
     h_connect = zero_command, h_disconnect = zero_command, pending_write = None, responses = cl_new, command_seqno = 0\<rparr>"

definition async_start :: "(nat list \<times> u8 list, unit, unit) mqtt" where
  "async_start = one_session 5 [idle_handle] ([], []) ()"

definition queued :: "nat \<Rightarrow> 'u command \<Rightarrow> 'u queued_command" where
  "queued a c = command.extend c \<lparr>cmd_client = 0, cmd_seqno = 0, cmd_addr = a\<rparr>"

lemma queued_fields [simp]:
  "cmd_client (queued a c) = 0" "cmd_addr (queued a c) = a" "cmd_type (queued a c) = cmd_type c"
  "cmd_token (queued a c) = cmd_token c" "details (queued a c) = details c" "on_success (queued a c) = on_success c"
  "on_failure (queued a c) = on_failure c" "start_time (queued a c) = start_time c"
  by (simp_all add: queued_def command.defs)

definition publish_command :: "int \<Rightarrow> unit command" where
  "publish_command token = zero_command\<lparr>cmd_type := PUBLISH, cmd_token := token, details := Pub (Some [97]) [1] 1 0\<rparr>"

lemma publish_command_fields [simp]:
  "cmd_type (publish_command t) = PUBLISH" "cmd_token (publish_command t) = t"
  "details (publish_command t) = Pub (Some [97]) [1] 1 0" "on_success (publish_command t) = None"
  by (simp_all add: publish_command_def zero_command_def)

lemma async_start_fields [simp]:
  "items (clients async_start) = [idle_client 5]" "items (handles async_start) = [idle_handle]"
  "items (commands async_start) = []" "items (write_pending (socks async_start)) = []"
  "client_at 0 async_start = idle_client 5" "handle_at 0 async_start = idle_handle"
  by (simp_all add: async_start_def one_session_def nothing_pending_def client_at_def handle_at_def idle_handle_def)

lemma handle_at_update [simp]:
  "handle_at i (st\<lparr>commands := c\<rparr>) = handle_at i st" "client_at i (st\<lparr>commands := c\<rparr>) = client_at i st"
  by (simp_all add: handle_at_def client_at_def)

definition two_publishes :: "(nat list \<times> u8 list, unit, unit) mqtt" where
  "two_publishes = async_start\<lparr>commands :=
     \<lparr>items = [queued 1 (publish_command 3), queued 2 (publish_command 4)], cursor = None\<rparr>\<rparr>"

theorem processCommand_in_order_witness:
  "\<exists>st' l. looked two_publishes st'
     \<and> MQTTAsync_processCommand taking_env two_publishes = carry_out taking_env (queued 1 (publish_command 3)) (st'\<lparr>commands := l\<rparr>)
     \<and> queue_of 0 l = [queued 2 (publish_command 4)]"
proof -
  have st: "items (commands two_publishes) = [queued 1 (publish_command 3), queued 2 (publish_command 4)]"
    "ready two_publishes (queued 1 (publish_command 3))"
    by (simp_all add: two_publishes_def ready_def idle_client_def MAX_MSG_ID_def)
  have addrs: "distinct (map cmd_addr (items (commands two_publishes)))"
    by (simp add: st)
  have chosen: "find (ready two_publishes) (fronts {} (items (commands two_publishes))) = Some (queued 1 (publish_command 3))"
    using st(2) by (simp add: st(1))
  have queue: "queue_of 0 (commands two_publishes) = [queued 1 (publish_command 3), queued 2 (publish_command 4)]"
    by (simp add: queue_of_def st(1))
  show ?thesis
    using processCommand_in_order [OF addrs, of taking_env, unfolded chosen option.case]
    unfolding queued_fields queue by (metis list.inject)
qed

end
