(* ===== verification/Async_Tokens.thy ===== *)
theory Async_Tokens
  imports Async_Order Mqtt_Ids
begin

text \<open>
  The tokens of \<^verbatim>\<open>MQTTAsync_assignMsgId\<close> in \<^verbatim>\<open>mqtt/source/MQTTAsync.c\<close>, the second search for a free id.
\<close>

type_synonym 'u token_lists = "'u queued_command clist \<times> 'u queued_command clist"

definition tokens_held :: "'u token_lists \<Rightarrow> 'u queued_command list \<times> 'u queued_command list" where
  "tokens_held s = (items (fst s), items (snd s))"

definition token_used :: "'u queued_command list \<times> 'u queued_command list \<Rightarrow> int \<Rightarrow> bool" where
  "token_used v x \<longleftrightarrow> x \<in> cmd_token ` (set (fst v) \<union> set (snd v))"

definition token_found :: "int \<Rightarrow> 'u token_lists \<Rightarrow> 'u token_lists" where
  "token_found x s = (case cl_find (cmdMessageIDCompare x) (fst s) of
     (None, cs) \<Rightarrow> (cs, snd (cl_find (cmdMessageIDCompare x) (snd s))) | (Some _, cs) \<Rightarrow> (cs, snd s))"

lemma find_token:
  obtains l' where "cl_find (cmdMessageIDCompare x) l = (None, l')" "items l' = items l" "x \<notin> cmd_token ` set (items l)"
  | k l' where "cl_find (cmdMessageIDCompare x) l = (Some k, l')" "items l' = items l" "x \<in> cmd_token ` set (items l)"
proof -
  obtain f l' where f: "cl_find (cmdMessageIDCompare x) l = (f, l')"
    by fastforce
  moreover have "items l' = items l" "f = None \<longleftrightarrow> x \<notin> cmd_token ` set (items l)"
    using items_find [of "cmdMessageIDCompare x" l] cl_find_None [of "cmdMessageIDCompare x" l]
    by (auto simp: f cmdMessageIDCompare_def)
  ultimately show ?thesis
    using that by (cases f) auto
qed

interpretation tokens: id_search "\<lambda>start x s. assign_token_loop start x (fst s) (snd s)" tokens_held token_used token_found
proof
  fix start x :: int and s :: "'u token_lists"
  show "assign_token_loop start x (fst s) (snd s) = (if token_used (tokens_held s) x
      then if next_id x = start then Some (Done (0, token_found x s))
        else assign_token_loop start (next_id x) (fst (token_found x s)) (snd (token_found x s))
      else Some (Done (x, token_found x s)))"
    by (cases rule: find_token [of x "fst s"]; cases rule: find_token [of x "snd s"]; subst assign_token_loop.simps)
      (simp_all add: token_used_def tokens_held_def token_found_def image_Un)
  show "tokens_held (token_found x s) = tokens_held s"
    by (cases rule: find_token [of x "fst s"]; cases rule: find_token [of x "snd s"])
      (simp_all add: tokens_held_def token_found_def)
qed



end
