(* ===== verification/Async_Frame.thy ===== *)
theory Async_Frame
  imports Async_Receive Mqtt_Sender
begin

text \<open>
  What the protocol operations leave alone.  \<open>pc Q m\<close> says that \<open>Q\<close> holds of the result of \<open>m\<close> whenever
  \<open>m\<close> returns one; with it, each operation of \<^verbatim>\<open>mqtt/source/MQTTProtocolClient.c\<close> and
  \<^verbatim>\<open>mqtt/source/MQTTProtocolOut.c\<close> is shown to keep the part of the state that \<open>steady\<close> or \<open>quiet\<close> reads:
  the connection of every client, the handles, and for \<open>quiet\<close> also the state of the application.
\<close>

section \<open>Partial correctness\<close>

definition pc :: "('r \<Rightarrow> bool) \<Rightarrow> 'r outcome \<Rightarrow> bool" where
  "pc Q m \<longleftrightarrow> (\<forall>x. m = Done x \<longrightarrow> Q x)"

named_theorems pc_intros
named_theorems keep_simps

lemma pc_simps [simp]: "pc Q (Done x) \<longleftrightarrow> Q x" "pc Q Stuck" "pc Q Fault"
  by (simp_all add: pc_def)

lemma pc_check [pc_intros]: "(b \<Longrightarrow> pc Q m) \<Longrightarrow> pc Q (check b m)"
  by (simp add: check_def)

lemma pc_if [pc_intros]: "(b \<Longrightarrow> pc Q m) \<Longrightarrow> (\<not> b \<Longrightarrow> pc Q n) \<Longrightarrow> pc Q (if b then m else n)"
  by simp

lemma pc_bind: "pc P m \<Longrightarrow> (\<And>x. P x \<Longrightarrow> pc Q (f x)) \<Longrightarrow> pc Q (obind m f)"
  by (cases m) simp_all

lemma pc_bind_any [pc_intros]: "(\<And>x. pc Q (f x)) \<Longrightarrow> pc Q (obind m f)"
  by (cases m) simp_all

lemma pc_mono: "pc P m \<Longrightarrow> (\<And>x. P x \<Longrightarrow> Q x) \<Longrightarrow> pc Q m"
  by (cases m) simp_all

lemma pc_Done: "pc Q m \<Longrightarrow> m = Done x \<Longrightarrow> Q x"
  by simp

text \<open>The results of the operations: a state, a code and a state, two values and a state.\<close>

abbreviation ends1 :: "('s \<Rightarrow> bool) \<Rightarrow> 's outcome \<Rightarrow> bool" where
  "ends1 P \<equiv> pc P"
abbreviation ends2 :: "('s \<Rightarrow> bool) \<Rightarrow> ('a \<times> 's) outcome \<Rightarrow> bool" where
  "ends2 P \<equiv> pc (\<lambda>(_, s). P s)"
abbreviation ends3 :: "('s \<Rightarrow> bool) \<Rightarrow> ('a \<times> 'b \<times> 's) outcome \<Rightarrow> bool" where
  "ends3 P \<equiv> pc (\<lambda>(_, _, s). P s)"

lemma bind1: "ends1 P m \<Longrightarrow> (\<And>s. P s \<Longrightarrow> pc Q (f s)) \<Longrightarrow> pc Q (obind m f)"
  by (rule pc_bind)

lemma bind2: "ends2 P m \<Longrightarrow> (\<And>a s. P s \<Longrightarrow> pc Q (f (a, s))) \<Longrightarrow> pc Q (obind m f)"
  by (cases m) auto

lemma bind3: "ends3 P m \<Longrightarrow> (\<And>a b s. P s \<Longrightarrow> pc Q (f (a, b, s))) \<Longrightarrow> pc Q (obind m f)"
  by (cases m) auto

section \<open>Packets\<close>

text \<open>
  A property of the network that every operation of the packet layer keeps is kept by reading a packet
  and by sending any packet.
\<close>

locale packet_user =
  fixes ops :: "'n net_ops" and Q :: "'n \<Rightarrow> bool"
  assumes getch_keeps: "Q n \<Longrightarrow> Q (snd (snd (getch ops n)))"
    and getdata_keeps: "Q n \<Longrightarrow> Q (snd (getdata ops k n))"
    and putdatas_keeps: "Q n \<Longrightarrow> Q (snd (putdatas ops b0 bs n))"
    and persist_keeps: "Q n \<Longrightarrow> Q (snd (persist_put ops b0 bs htype msgid scr n))"
    and received_keeps: "Q n \<Longrightarrow> Q (stamp_received ops n)"
    and sent_keeps: "Q n \<Longrightarrow> Q (stamp_sent ops n)"
begin

lemma put_ends: "Q n \<Longrightarrow>
   ends2 Q (let (rc, n) = putdatas ops b0 bs n in Done (rc, if rc = TCPSOCKET_COMPLETE then stamp_sent ops n else n))"
  using putdatas_keeps [of n b0 bs] sent_keeps by (auto split: prod.split)

lemma send_ends: "Q n \<Longrightarrow> ends2 Q (MQTTPacket_send ops h buf n)"
  unfolding MQTTPacket_send_def
  by (rule pc_bind_any, rule bind1 [OF _ put_ends]) (auto intro!: pc_intros persist_keeps split: prod.split)

lemma sends_ends: "Q n \<Longrightarrow> ends2 Q (MQTTPacket_sends ops h bufs n)"
  unfolding MQTTPacket_sends_def
  by (rule pc_bind_any, rule bind1 [OF _ put_ends]) (auto intro!: pc_intros persist_keeps split: prod.split)

lemma packets_end:
  assumes "Q n"
  shows "ends2 Q (MQTTPacket_send_disconnect ops n)" "ends2 Q (MQTTPacket_send_pingreq ops n)"
    "ends2 Q (MQTTPacket_send_puback m ops n)" "ends2 Q (MQTTPacket_send_pubrec m ops n)"
    "ends2 Q (MQTTPacket_send_pubrel m d ops n)" "ends2 Q (MQTTPacket_send_pubcomp m ops n)"
    "ends2 Q (MQTTPacket_send_publish t b m d q r ops n)" "ends2 Q (MQTTPacket_send_connect c v ops n)"
    "ends2 Q (MQTTPacket_send_subscribe ts m d ops n)" "ends2 Q (MQTTPacket_send_unsubscribe us m d ops n)"
  unfolding MQTTPacket_send_disconnect_def MQTTPacket_send_pingreq_def MQTTPacket_send_puback_def
    MQTTPacket_send_pubrec_def MQTTPacket_send_pubrel_def MQTTPacket_send_pubcomp_def MQTTPacket_send_ack_def
    MQTTPacket_send_publish_def MQTTPacket_send_connect_def MQTTPacket_send_subscribe_def
    MQTTPacket_send_unsubscribe_def Let_def
  using assms by (auto intro!: pc_intros send_ends sends_ends split: prod.split)

lemma decode_keeps: "Q n \<Longrightarrow> Q (snd (snd (decode_loop (getch ops) len mul v n)))"
proof (induction "getch ops" len mul v n rule: decode_loop.induct)
  case (1 len mul v n)
  then show ?case
    using getch_keeps [of n] by (subst decode_loop.simps) (auto simp: Let_def split: prod.split)
qed

lemma factory_ends:
  assumes "Q n"
  shows "ends3 Q (MQTTPacket_Factory ops n)"
proof -
  obtain e h n1 where g: "getch ops n = (e, h, n1)"
    by (metis prod_cases3)
  obtain e2 len n2 where d: "MQTTPacket_decode (getch ops) n1 = (e2, len, n2)"
    by (metis prod_cases3)
  obtain data got n3 where t: "getdata ops len n2 = ((data, got), n3)"
    by (metis prod.exhaust)
  have n1: "Q n1"
    using getch_keeps [OF assms] g by simp
  have n2: "Q n2"
    using decode_keeps [OF n1] d by (metis MQTTPacket_decode_def snd_conv)
  have n3: "Q n3"
    using getdata_keeps [OF n2, of len] t by simp
  have stored: "ends2 Q (if b then obind m (\<lambda>b0. Done (persist_put ops b0 bs ty mid True n3)) else Done (x, n3))" for b m bs ty mid x
    using persist_keeps [OF n3] n3 by (auto intro!: pc_intros simp: case_prod_beta)
  have tail: "ends3 Q (obind (if b then obind m (\<lambda>b0. Done (persist_put ops b0 bs ty mid True n3)) else Done (x, n3))
      (\<lambda>(err, n). Done (p, err, stamp_received ops n)))" for b m bs ty mid x and p :: "packet option"
    by (rule bind2 [OF stored]) (simp add: received_keeps)
  show ?thesis
    unfolding MQTTPacket_Factory_def Let_def g prod.case d t
  proof (intro pc_if)
    show "ends3 Q (case data of None \<Rightarrow> Done (None, SOCKET_ERROR, n3)
      | Some mem \<Rightarrow> if got \<noteq> len then Done (None, TCPSOCKET_INTERRUPTED, n3)
          else if header_type h < msg_code CONNECT \<or> msg_code DISCONNECT < header_type h \<or> new_packets (header_type h) = None
          then Done (None, e2, n3)
          else obind (the (new_packets (header_type h)) h mem (nat len)) (\<lambda>pack. case pack of
            None \<Rightarrow> Done (None, BAD_MQTT_PACKET, n3)
          | Some p \<Rightarrow> obind (if header_type h = msg_code PUBLISH \<and> header_qos h = 2
              then obind (fixed_header h len) (\<lambda>buf0. Done (persist_put ops buf0 [take (nat len) mem] (header_type h)
                (case p of Publish pub \<Rightarrow> pub_msgId pub | _ \<Rightarrow> 0) True n3))
              else Done (e2, n3)) (\<lambda>(err, n). Done (Some p, err, stamp_received ops n))))"
    proof (cases data)
      case (Some mem)
      show ?thesis
        unfolding Some option.case
      proof (intro pc_if pc_bind_any)
        fix pack
        show "ends3 Q (case pack of None \<Rightarrow> Done (None, BAD_MQTT_PACKET, n3)
          | Some p \<Rightarrow> obind (if header_type h = msg_code PUBLISH \<and> header_qos h = 2
              then obind (fixed_header h len) (\<lambda>buf0. Done (persist_put ops buf0 [take (nat len) mem] (header_type h)
                (case p of Publish pub \<Rightarrow> pub_msgId pub | _ \<Rightarrow> 0) True n3))
              else Done (e2, n3)) (\<lambda>(err, n). Done (Some p, err, stamp_received ops n)))"
        proof (cases pack)
          case (Some p)
          show ?thesis
            unfolding Some option.case by (rule tail)
        qed (simp add: n3)
      qed (simp_all add: n3)
    qed (simp add: n3)
  qed (simp_all add: n1 n2)
qed

end

section \<open>The part of the state\<close>

definition conn_view :: "'p client \<Rightarrow> bool \<times> int \<times> int \<times> bool \<times> 'p persistence option" where
  "conn_view c = (connected c, connect_state c, MQTTVersion c, cleansession c, persistence_of c)"

definition steady :: "('k, 'p, 'u) mqtt
    \<Rightarrow> (bool \<times> int \<times> int \<times> bool \<times> 'p persistence option) list \<times> 'u async_handle list \<times> (nat \<Rightarrow> u8 list list option) \<times> int \<times> int" where
  "steady st = (map conn_view (items (clients st)), items (handles st), heap_uris st, last_timeouts st, last_retry st)"

definition quiet where
  "quiet st = (steady st, app st)"

lemma quiet_fields [keep_simps]:
  "quiet (st\<lparr>socks := v1\<rparr>) = quiet st" "quiet (st\<lparr>store := v2\<rparr>) = quiet st" "quiet (st\<lparr>heap_pubs := v3\<rparr>) = quiet st"
  "quiet (st\<lparr>next_pub := v4\<rparr>) = quiet st" "quiet (st\<lparr>stored := v5\<rparr>) = quiet st" "quiet (st\<lparr>msgs_received := v6\<rparr>) = quiet st"
  "quiet (st\<lparr>msgs_sent := v7\<rparr>) = quiet st" "quiet (st\<lparr>pending_qos0 := v8\<rparr>) = quiet st" "quiet (st\<lparr>commands := v9\<rparr>) = quiet st"
  "quiet (st\<lparr>next_addr := v10\<rparr>) = quiet st"
  by (simp_all add: quiet_def steady_def)

lemma steady_fields [keep_simps]:
  "steady (st\<lparr>socks := v1\<rparr>) = steady st" "steady (st\<lparr>store := v2\<rparr>) = steady st" "steady (st\<lparr>heap_pubs := v3\<rparr>) = steady st"
  "steady (st\<lparr>next_pub := v4\<rparr>) = steady st" "steady (st\<lparr>stored := v5\<rparr>) = steady st" "steady (st\<lparr>msgs_received := v6\<rparr>) = steady st"
  "steady (st\<lparr>msgs_sent := v7\<rparr>) = steady st" "steady (st\<lparr>pending_qos0 := v8\<rparr>) = steady st" "steady (st\<lparr>commands := v9\<rparr>) = steady st"
  "steady (st\<lparr>next_addr := v10\<rparr>) = steady st" "steady (st\<lparr>app := v11\<rparr>) = steady st"
  by (simp_all add: steady_def)

lemma steady_client [keep_simps]:
  assumes "conn_view (f (client_at i st)) = conn_view (client_at i st)"
  shows "steady (upd_client i f st) = steady st" "quiet (upd_client i f st) = quiet st"
proof -
  have "map conn_view (items (clients (upd_client i f st))) = map conn_view (items (clients st))"
    using assms list_update_id [of "map conn_view (items (clients st))" i]
    by (cases "i < length (items (clients st))") (simp_all add: upd_client_def client_at_def map_update list_update_beyond)
  then show "steady (upd_client i f st) = steady st" "quiet (upd_client i f st) = quiet st"
    by (simp_all add: quiet_def steady_def upd_client_def)
qed

lemma steady_searched:
  "items cs = items (clients st) \<Longrightarrow> quiet (st\<lparr>clients := cs\<rparr>) = quiet st"
  "items cs = items (clients st) \<Longrightarrow> steady (st\<lparr>clients := cs\<rparr>) = steady st"
  "items hs = items (handles st) \<Longrightarrow> quiet (st\<lparr>handles := hs\<rparr>) = quiet st"
  "items hs = items (handles st) \<Longrightarrow> steady (st\<lparr>handles := hs\<rparr>) = steady st"
  by (simp_all add: quiet_def steady_def)

lemma cl_find_items: "cl_find P l = (f, l') \<Longrightarrow> items l' = items l"
  using items_find [of P l] by simp

declare conn_view_def [keep_simps]

lemma quiet_steady: "quiet st' = quiet st \<Longrightarrow> steady st' = steady st"
  by (simp add: quiet_def)

section \<open>The operations\<close>

lemma client_of_quiet: "quiet st = X \<Longrightarrow> ends2 (\<lambda>s. quiet s = X) (client_of sock st)"
  by (auto simp: client_of_def steady_searched dest: cl_find_items split: prod.split option.split)

lemma put_quiet: "quiet st = X \<Longrightarrow> ends2 (\<lambda>s. quiet s = X) (MQTTPersistence_put sock b0 bs ty m scr st)"
  unfolding MQTTPersistence_put_def Let_def
  by (rule bind2 [OF client_of_quiet], assumption) (auto simp: keep_simps split: option.split prod.split intro!: pc_intros)

definition net_quiet where
  "net_quiet X n \<longleftrightarrow> (\<forall>st. n = Done st \<longrightarrow> quiet st = X)"

lemma over_quiet:
  assumes "\<And>st. quiet st = X \<Longrightarrow> ends2 (\<lambda>s. quiet s = X) (f st)" "net_quiet X n"
  shows "net_quiet X (snd (over_outcome x f n))"
  using assms by (cases n) (auto simp: over_outcome_def net_quiet_def pc_def split: outcome.splits)

lemma socks_quiet: "quiet st = X \<Longrightarrow> ends2 (\<lambda>s. quiet s = X) (on_socks f st)"
  by (cases "f (socks st)") (auto simp: on_socks_def keep_simps)

interpretation quiet_net: packet_user "client_net E i" "net_quiet X :: ('k, 'p, 'u) mqtt outcome \<Rightarrow> bool"
  for E :: "('k, 'a) env" and i X
proof
  fix n :: "('k, 'p, 'u) mqtt outcome" and k b0 and bs :: "u8 list list" and htype and msgid :: int and scr
  assume n: "net_quiet X n"
  show "net_quiet X (snd (snd (getch (client_net E i) n)))"
    using over_quiet [OF socks_quiet n, where x = "(SOCKET_ERROR, 0)"] by (simp add: client_net_def case_prod_beta Let_def)
  show "net_quiet X (snd (getdata (client_net E i) k n))"
    using over_quiet [OF socks_quiet n, where x = "(None, 0)"] by (simp add: client_net_def)
  show "net_quiet X (snd (putdatas (client_net E i) b0 bs n))"
    using over_quiet [OF socks_quiet n, where x = SOCKET_ERROR] by (simp add: client_net_def)
  show "net_quiet X (snd (persist_put (client_net E i) b0 bs htype msgid scr n))"
    using over_quiet [OF put_quiet n, where x = 0] by (simp add: client_net_def)
  show "net_quiet X (stamp_received (client_net E i) n)" "net_quiet X (stamp_sent (client_net E i) n)"
    using n by (cases n; simp add: client_net_def net_quiet_def keep_simps)+
qed

lemma with_net_quiet:
  assumes "ends2 (net_quiet X) (f (client_net E i) (Done st))"
  shows "ends2 (\<lambda>s. quiet s = X) (with_net f E i st)"
  unfolding with_net_def by (rule bind2 [OF assms]) (auto simp: net_quiet_def pc_def obind_eq_Done)

lemma start_quiet: "quiet st = X \<Longrightarrow> net_quiet X (Done st)"
  by (simp add: net_quiet_def)

lemma sending_quiet:
  assumes "quiet st = X"
  shows "ends2 (\<lambda>s. quiet s = X) (with_net MQTTPacket_send_disconnect E i st)"
    "ends2 (\<lambda>s. quiet s = X) (with_net MQTTPacket_send_pingreq E i st)"
    "ends2 (\<lambda>s. quiet s = X) (with_net (MQTTPacket_send_puback m) E i st)"
    "ends2 (\<lambda>s. quiet s = X) (with_net (MQTTPacket_send_pubrec m) E i st)"
    "ends2 (\<lambda>s. quiet s = X) (with_net (MQTTPacket_send_pubrel m d) E i st)"
    "ends2 (\<lambda>s. quiet s = X) (with_net (MQTTPacket_send_pubcomp m) E i st)"
    "ends2 (\<lambda>s. quiet s = X) (with_net (MQTTPacket_send_publish t b m d q r) E i st)"
    "ends2 (\<lambda>s. quiet s = X) (with_net (MQTTPacket_send_connect c v) E i st)"
    "ends2 (\<lambda>s. quiet s = X) (with_net (MQTTPacket_send_subscribe ts m d) E i st)"
    "ends2 (\<lambda>s. quiet s = X) (with_net (MQTTPacket_send_unsubscribe us m d) E i st)"
  by (rule with_net_quiet, rule quiet_net.packets_end [OF start_quiet [OF assms]])+

text \<open>Publications and records.\<close>

lemma storage_quiet:
  assumes "quiet st = X"
  shows "ends2 (\<lambda>s. quiet s = X) (MQTTProtocol_storePublication p st)" "quiet (remove_stored a st) = X"
    "ends1 (\<lambda>s. quiet s = X) (MQTTProtocol_removePublication a st)"
    "ends2 (\<lambda>s. quiet s = X) (MQTTPersistence_remove i ty q m st)"
    "ends2 (\<lambda>s. quiet s = X) (Done (MQTTPersistence_clear i st))"
    "ends2 (\<lambda>s. quiet s = X) (MQTTPersistence_unpersistQueueEntry i qe st)"
    "ends3 (\<lambda>s. quiet s = X) (MQTTPersistence_persistQueueEntry i qe st)"
    "ends2 (\<lambda>s. quiet s = X) (MQTTAsync_unpersistCommand c st)"
proof -
  show rs: "quiet (remove_stored a st) = X" for a
    using assms by (simp add: remove_stored_def keep_simps split: prod.split)
  show "ends1 (\<lambda>s. quiet s = X) (MQTTProtocol_removePublication a st)"
    using assms by (auto simp: MQTTProtocol_removePublication_def remove_stored_def keep_simps Let_def split: option.split prod.split)
qed (use assms in \<open>auto simp: MQTTProtocol_storePublication_def MQTTPersistence_remove_def MQTTPersistence_clear_def
    MQTTPersistence_unpersistQueueEntry_def MQTTPersistence_persistQueueEntry_def MQTTAsync_unpersistCommand_def
    keep_simps Let_def split: option.split prod.split intro!: pc_intros\<close>)

text \<open>Publishing and acknowledging.\<close>

lemma send_publish_quiet: "quiet st = X \<Longrightarrow> ends2 (\<lambda>s. quiet s = X) (send_publish E i p dup qos retained st)"
  by (simp add: send_publish_def check_def sending_quiet)

lemma storeQoS0_quiet: "quiet st = X \<Longrightarrow> ends1 (\<lambda>s. quiet s = X) (MQTTProtocol_storeQoS0 i p st)"
  unfolding MQTTProtocol_storeQoS0_def Let_def
  by (rule bind2 [OF storage_quiet(1)], assumption) (auto simp: keep_simps split: option.split intro!: pc_intros)

lemma startPublishCommon_quiet:
  "quiet st = X \<Longrightarrow> ends2 (\<lambda>s. quiet s = X) (MQTTProtocol_startPublishCommon E i p qos retained st)"
  unfolding MQTTProtocol_startPublishCommon_def
  by (rule bind2 [OF send_publish_quiet], assumption) (auto intro!: bind1 [OF storeQoS0_quiet])

lemma createMessage_quiet: "quiet st = X \<Longrightarrow> ends2 (\<lambda>s. quiet s = X) (MQTTProtocol_createMessage E p mm qos retained st)"
  unfolding MQTTProtocol_createMessage_def Let_def
  by (rule bind2 [of "\<lambda>s. quiet s = X"]) (auto simp: keep_simps storage_quiet split: option.split)

lemma startPublish_quiet: "quiet st = X \<Longrightarrow> ends3 (\<lambda>s. quiet s = X) (MQTTProtocol_startPublish E i p qos retained mm st)"
  unfolding MQTTProtocol_startPublish_def Let_def
  by (auto simp: keep_simps split: option.split intro!: pc_if bind2 [OF createMessage_quiet] bind2 [OF startPublishCommon_quiet])

lemma acks_quiet:
  assumes "quiet st = X"
  shows "ends2 (\<lambda>s. quiet s = X) (MQTTProtocol_handlePubacks E a sock st)"
    "ends2 (\<lambda>s. quiet s = X) (MQTTProtocol_handlePubrecs E a sock st)"
    "ends2 (\<lambda>s. quiet s = X) (MQTTProtocol_handlePubcomps E a sock st)"
    "ends2 (\<lambda>s. quiet s = X) (MQTTProtocol_handlePingresps sock st)"
    "ends2 (\<lambda>s. quiet s = X) (MQTTProtocol_handleSubacks sock st)"
    "ends2 (\<lambda>s. quiet s = X) (MQTTProtocol_handleUnsubacks sock st)"
    "ends2 (\<lambda>s. quiet s = X) (MQTTProtocol_subscribe E i ts m st)"
    "ends2 (\<lambda>s. quiet s = X) (MQTTProtocol_unsubscribe E i us m st)"
  using assms
  by (auto simp: MQTTProtocol_handlePubacks_def MQTTProtocol_handlePubrecs_def MQTTProtocol_handlePubcomps_def
      MQTTProtocol_handlePingresps_def MQTTProtocol_handleSubacks_def MQTTProtocol_handleUnsubacks_def
      MQTTProtocol_subscribe_def MQTTProtocol_unsubscribe_def Let_def keep_simps sending_quiet
      split: prod.split option.split
      intro!: bind2 [OF client_of_quiet] bind2 [OF storage_quiet(4)] bind1 [OF storage_quiet(3)] bind2 [OF sending_quiet(5)])

text \<open>Closing, keeping alive, retrying.\<close>

lemma closing_quiet:
  assumes "quiet st = X"
  shows "ends2 (\<lambda>s. quiet s = X) (MQTTAsync_disconnect_internal E i t st)"
    "ends1 (\<lambda>s. quiet s = X) (MQTTProtocol_closeSession E i st)"
proof -
  show d: "ends2 (\<lambda>s. quiet s = X) (MQTTAsync_disconnect_internal E i t st)" for t
    using assms by (auto simp: MQTTAsync_disconnect_internal_def MQTTAsync_disconnect1_def MQTTAsync_addCommand_def
        new_command_def command.defs zero_command_def Let_def keep_simps split: list.split)
  show "ends1 (\<lambda>s. quiet s = X) (MQTTProtocol_closeSession E i st)"
    unfolding MQTTProtocol_closeSession_def by (rule bind2 [OF d]) simp
qed

lemma noPending_quiet: "quiet (st\<lparr>socks := ss\<rparr>) = quiet st"
  by (simp add: keep_simps)

lemma for_clients_keeps:
  "(\<And>i st. P st \<Longrightarrow> ends1 P (f i st)) \<Longrightarrow> P st \<Longrightarrow> ends1 P (for_clients f is st)"
  by (induction "is" arbitrary: st) (auto intro!: bind1 [of P])

lemma close_queued_quiet [keep_simps]: "quiet (close_queued E i st) = quiet st"
  using closing_quiet(2) [of st "quiet st" E i] by simp

lemma keepalive_client_quiet: "quiet st = X \<Longrightarrow> ends1 (\<lambda>s. quiet s = X) (keepalive_client E t i st)"
  by (auto simp: keepalive_client_def Let_def keep_simps split: prod.split intro!: bind2 [OF sending_quiet(2)])

lemma keepalive_quiet: "quiet st = X \<Longrightarrow> ends1 (\<lambda>s. quiet s = X) (MQTTProtocol_keepalive E t st)"
  unfolding MQTTProtocol_keepalive_def by (rule for_clients_keeps [OF keepalive_client_quiet])

lemma retry_message_quiet: "quiet st = X \<Longrightarrow> ends2 (\<lambda>s. quiet s = X) (retry_message E t i regardless j st)"
  unfolding retry_message_def Let_def
  by (auto simp: keep_simps split: option.split
      intro!: bind2 [OF send_publish_quiet] bind2 [OF sending_quiet(5)] bind1 [OF closing_quiet(2)])

lemma retry_messages_quiet: "quiet st = X \<Longrightarrow> ends1 (\<lambda>s. quiet s = X) (retry_messages E t i regardless js st)"
  by (induction js arbitrary: st) (auto simp: Let_def keep_simps split: prod.split intro!: bind2 [OF retry_message_quiet])

lemma retry_client_quiet: "quiet st = X \<Longrightarrow> ends1 (\<lambda>s. quiet s = X) (retry_client E t doRetry regardless i st)"
  by (auto simp: retry_client_def MQTTProtocol_retries_def Let_def keep_simps split: prod.split intro!: retry_messages_quiet)

lemma retry_quiet: "quiet st = X \<Longrightarrow> ends1 (\<lambda>s. quiet s = X) (MQTTProtocol_retry E t doRetry regardless st)"
  unfolding MQTTProtocol_retry_def by (rule for_clients_keeps [OF retry_client_quiet])

lemma remove_publications_quiet: "quiet st = X \<Longrightarrow> ends1 (\<lambda>s. quiet s = X) (remove_publications ms st)"
  by (induction ms arbitrary: st) (auto intro!: bind1 [OF storage_quiet(3)])

lemma emptyMessageList_quiet: "quiet st = X \<Longrightarrow> ends2 (\<lambda>s. quiet s = X) (MQTTProtocol_emptyMessageList l st)"
  unfolding MQTTProtocol_emptyMessageList_def by (rule bind1 [OF remove_publications_quiet]) auto

lemma check_writes_quiet: "quiet st = X \<Longrightarrow> ends1 (\<lambda>s. quiet s = X) (check_writes j st)"
proof (induction j st rule: check_writes.induct)
  case (1 j st)
  obtain none ss where s: "Socket_noPendingWrites (fst (items (pending_qos0 st) ! j)) (socks st) = (none, ss)"
    by fastforce
  have "quiet (st\<lparr>socks := ss\<rparr>) = X"
    using "1.prems" by (simp add: keep_simps)
  note rem = storage_quiet(3) [OF this, of "snd (items (pending_qos0 st) ! j)"]
  show ?case
    using "1.IH" "1.prems" s rem
    by (subst check_writes.simps) (auto simp: keep_simps Let_def split: outcome.split)
qed

section \<open>Delivery\<close>

text \<open>The other operations keep \<open>steady\<close> because they keep \<open>quiet\<close>.\<close>

lemma steady_ends:
  "ends1 (\<lambda>s. quiet s = quiet st) m1 \<Longrightarrow> steady st = Y \<Longrightarrow> ends1 (\<lambda>s. steady s = Y) m1"
  "ends2 (\<lambda>s. quiet s = quiet st) m2 \<Longrightarrow> steady st = Y \<Longrightarrow> ends2 (\<lambda>s. steady s = Y) m2"
  "ends3 (\<lambda>s. quiet s = quiet st) m3 \<Longrightarrow> steady st = Y \<Longrightarrow> ends3 (\<lambda>s. steady s = Y) m3"
  by (auto simp: pc_def dest: quiet_steady)

lemma delivery_steady:
  assumes "steady st = X"
  shows "ends1 (\<lambda>s. steady s = X) (Protocol_processPublication E p i st)"
proof -
  obtain rc st1 where d: "try_deliver p (publication_message p) i st = (rc, st1)"
    by fastforce
  then have "steady st1 = X"
    using assms by (auto simp: try_deliver_def MQTTAsync_deliverMessage_def Let_def keep_simps steady_searched
        dest!: cl_find_items split: if_splits prod.splits option.splits)
  moreover have "ends3 (\<lambda>s. steady s = X) (MQTTPersistence_persistQueueEntry i qe st1)" for qe
    using steady_ends(3) [OF storage_quiet(7) [OF refl]] calculation by blast
  ultimately show ?thesis
    unfolding Protocol_processPublication_def Let_def d prod.case
    by (auto simp: keep_simps split: option.split intro!: pc_check bind2 [of "\<lambda>s. steady s = X"] bind3 [of "\<lambda>s. steady s = X"])
qed

lemma removed_steady [keep_simps]: "steady (remove_stored a st) = steady st"
  using storage_quiet(2) [OF refl] by (rule quiet_steady)

lemma incoming_steady:
  assumes "steady st = X"
  shows "ends2 (\<lambda>s. steady s = X) (MQTTProtocol_handlePublishes E p sock st)"
    "ends2 (\<lambda>s. steady s = X) (MQTTProtocol_handlePubrels E a sock st)"
proof -
  note here = steady_ends(2) [OF client_of_quiet [OF refl]] steady_ends(2) [OF sending_quiet(3) [OF refl]]
    steady_ends(2) [OF sending_quiet(4) [OF refl]] steady_ends(2) [OF sending_quiet(6) [OF refl]]
    steady_ends(2) [OF storage_quiet(1) [OF refl]] steady_ends(1) [OF storage_quiet(3) [OF refl]]
    steady_ends(2) [OF storage_quiet(4) [OF refl]]
  show "ends2 (\<lambda>s. steady s = X) (MQTTProtocol_handlePublishes E p sock st)"
    unfolding MQTTProtocol_handlePublishes_def Let_def
    by (rule bind2 [OF here(1)], rule assms)
      (auto simp: keep_simps split: prod.split option.split
        intro!: bind2 [OF here(2)] bind2 [OF here(5)] bind1 [OF delivery_steady] delivery_steady bind1 [of "\<lambda>s. steady s = X"]
          bind1 [OF here(6)] here(3))
  show "ends2 (\<lambda>s. steady s = X) (MQTTProtocol_handlePubrels E a sock st)"
    unfolding MQTTProtocol_handlePubrels_def Let_def
    by (rule bind2 [OF here(1)], rule assms)
      (auto simp: keep_simps split: prod.split option.split
        intro!: bind2 [OF here(4)] bind1 [OF delivery_steady [OF refl]] bind2 [OF here(7) [OF refl]] here(4))
qed

end
