(* ===== verification/Async_Connect.thy ===== *)
theory Async_Connect
  imports Async_Order
begin

text \<open>
  Which servers, and with which version of the protocol, a connect command of \<^verbatim>\<open>mqtt/source/MQTTAsync.c\<close>
  tries one after the other while every attempt fails.
\<close>

section \<open>The attempts\<close>

text \<open>The details of the command after \<open>k\<close> failed attempts, and what attempt \<open>k\<close> tries.\<close>

fun after_tries :: "nat \<Rightarrow> nat \<Rightarrow> conn_details \<Rightarrow> ('k, 'p, 'u) mqtt \<Rightarrow> conn_details outcome" where
  "after_tries 0 i d st = Done d"
| "after_tries (Suc k) i d st =
     obind (after_tries k i d st) (\<lambda>d. obind (next_server i d st) (\<lambda>(_, d). Done (next_version i d st)))"

definition nth_try :: "nat \<Rightarrow> nat \<Rightarrow> conn_details \<Rightarrow> ('k, 'p, 'u) mqtt \<Rightarrow> (u8 list \<times> int) outcome" where
  "nth_try k i d st =
     obind (after_tries k i d st) (\<lambda>d. obind (next_server i d st) (\<lambda>(uri, d). Done (uri, conn_version (next_version i d st))))"

definition more_to_try :: "nat \<Rightarrow> nat \<Rightarrow> conn_details \<Rightarrow> ('k, 'p, 'u) mqtt \<Rightarrow> bool outcome" where
  "more_to_try k i d st = obind (after_tries (Suc k) i d st) (\<lambda>d. Done (MQTTAsync_checkConn d i st))"

text \<open>
  C14: Without a list of servers, a connect command that leaves the version open is tried with version
  3.1.1 and then with 3.1, and is over after that; one that asks for a version is tried once.
\<close>

theorem connect_falls_back:
  assumes "connect_details options st0 = (d, st)" "co_struct_version options < 2 \<or> co_serverURIs options = []"
  shows "if MQTTVersion (client_at i st) = MQTTVERSION_DEFAULT
    then nth_try 0 i d st = Done (h_serverURI (handle_at i st), MQTTVERSION_3_1_1) \<and> more_to_try 0 i d st = Done True
      \<and> nth_try 1 i d st = Done (h_serverURI (handle_at i st), MQTTVERSION_3_1) \<and> more_to_try 1 i d st = Done False
    else nth_try 0 i d st = Done (h_serverURI (handle_at i st), MQTTVersion (client_at i st)) \<and> more_to_try 0 i d st = Done False"
proof -
  have "d = \<lparr>conn_timeout = co_connectTimeout options, serverURIcount = 0, serverURIs = 0, currentURI = 0, conn_version = 0\<rparr>"
    using assms by (auto simp: connect_details_def Let_def split: if_splits)
  then show ?thesis
    by (simp add: nth_try_def more_to_try_def next_server_def next_version_def MQTTAsync_checkConn_def mqtt_versions)
qed

section \<open>A list of servers\<close>

definition list_details :: "conn_details \<Rightarrow> nat \<Rightarrow> int \<Rightarrow> conn_details" where
  "list_details d k v = d\<lparr>currentURI := k, conn_version := v\<rparr>"

lemma step_default:
  assumes "heap_uris st (serverURIs d) = Some us" "serverURIcount d = length us" "us \<noteq> []"
    and "MQTTVersion (client_at i st) = MQTTVERSION_DEFAULT"
  shows "next_server i (list_details d 0 0) st = Done (strip_tcp (us ! 0), list_details d 0 0)"
    "next_server i (list_details d 0 4) st = Done (strip_tcp (us ! 0), list_details d 0 4)"
    "next_server i (list_details d k 3) st = check (Suc k < length us) (Done (strip_tcp (us ! Suc k), list_details d (Suc k) 4))"
    "next_version i (list_details d k 0) st = list_details d k 4"
    "next_version i (list_details d k 4) st = list_details d k 3"
  using assms by (auto simp: next_server_def next_version_def list_details_def mqtt_versions)

lemma step_chosen:
  assumes "heap_uris st (serverURIs d) = Some us" "serverURIcount d = length us" "us \<noteq> []"
    and "MQTTVersion (client_at i st) \<noteq> MQTTVERSION_DEFAULT"
  shows "next_server i (list_details d k v) st = check (Suc k < length us) (Done (strip_tcp (us ! Suc k), list_details d (Suc k) v))"
    "next_version i (list_details d k v) st = list_details d k (MQTTVersion (client_at i st))"
  using assms by (cases d; auto simp: next_server_def next_version_def list_details_def mqtt_versions)+

lemma after_default:
  assumes "heap_uris st (serverURIs d) = Some us" "serverURIcount d = length us" "us \<noteq> []"
    and "MQTTVersion (client_at i st) = MQTTVERSION_DEFAULT"
  shows "k < length us \<Longrightarrow> after_tries (Suc (Suc k)) i (list_details d 0 0) st = Done (list_details d k 3)"
proof (induction k)
  case 0
  then show ?case
    by (simp add: step_default [OF assms])
next
  case (Suc k)
  then have IH: "after_tries (Suc (Suc k)) i (list_details d 0 0) st = Done (list_details d k 3)"
    by simp
  have "after_tries (Suc (Suc (Suc k))) i (list_details d 0 0) st
      = obind (after_tries (Suc (Suc k)) i (list_details d 0 0) st)
          (\<lambda>d. obind (next_server i d st) (\<lambda>(_, d). Done (next_version i d st)))"
    by (rule after_tries.simps(2))
  then show ?case
    unfolding IH using Suc.prems by (simp add: step_default [OF assms])
qed

lemma after_chosen:
  assumes "heap_uris st (serverURIs d) = Some us" "serverURIcount d = length us" "us \<noteq> []"
    and "MQTTVersion (client_at i st) \<noteq> MQTTVERSION_DEFAULT"
  shows "k < length us \<Longrightarrow>
    after_tries k i (list_details d 0 0) st = Done (list_details d k (if k = 0 then 0 else MQTTVersion (client_at i st)))"
proof (induction k)
  case (Suc k)
  then show ?case
    by (simp add: step_chosen [OF assms])
qed simp

text \<open>
  C15: With a list of servers, one that leaves the version open tries the first server with version 3.1.1
  and again with 3.1, every other server with 3.1 only; one that asks for a version never tries the first
  server.  When every server has failed, both read the list past its end.
\<close>

theorem server_list_overrun:
  assumes "connect_details options st0 = (d, st)" "2 \<le> co_struct_version options" "co_serverURIs options = us" "us \<noteq> []"
  shows "if MQTTVersion (client_at i st) = MQTTVERSION_DEFAULT
    then nth_try 0 i d st = Done (strip_tcp (us ! 0), MQTTVERSION_3_1_1) \<and> more_to_try 0 i d st = Done True
      \<and> (\<forall>k < length us. nth_try (Suc k) i d st = Done (strip_tcp (us ! k), MQTTVERSION_3_1) \<and> more_to_try (Suc k) i d st = Done True)
      \<and> nth_try (Suc (length us)) i d st = Fault
    else (\<forall>k. Suc k < length us \<longrightarrow> nth_try k i d st = Done (strip_tcp (us ! Suc k), MQTTVersion (client_at i st))
        \<and> more_to_try k i d st = Done True)
      \<and> nth_try (length us - 1) i d st = Fault"
proof -
  have d: "d = list_details d 0 0" and u: "heap_uris st (serverURIs d) = Some us" "serverURIcount d = length us"
    using assms by (auto simp: connect_details_def list_details_def Let_def split: if_splits)
  have more: "MQTTAsync_checkConn (list_details d k v) i st" if "k < length us" for k v
    using that u by (simp add: MQTTAsync_checkConn_def list_details_def)
  show ?thesis
  proof (cases "MQTTVersion (client_at i st) = MQTTVERSION_DEFAULT")
    case v: True
    note steps = step_default [OF u assms(4) v] and after = after_default [OF u assms(4) v]
    have first: "nth_try 0 i d st = Done (strip_tcp (us ! 0), MQTTVERSION_3_1_1)" "more_to_try 0 i d st = Done True"
      using assms(4) by (subst d; simp add: nth_try_def more_to_try_def steps more; simp add: list_details_def mqtt_versions)+
    have tries: "nth_try (Suc k) i d st = Done (strip_tcp (us ! k), MQTTVERSION_3_1)" "more_to_try (Suc k) i d st = Done True"
      if k: "k < length us" for k
    proof -
      show "more_to_try (Suc k) i d st = Done True"
        by (subst d) (simp only: more_to_try_def after [OF k] obind.simps more [OF k])
      show "nth_try (Suc k) i d st = Done (strip_tcp (us ! k), MQTTVERSION_3_1)"
      proof (cases k)
        case 0
        then show ?thesis
          by (subst d) (simp add: nth_try_def steps, simp add: list_details_def mqtt_versions)
      next
        case (Suc j)
        then have j: "after_tries (Suc k) i (list_details d 0 0) st = Done (list_details d j 3)"
          using after [of j] k by simp
        show ?thesis
          by (subst d) (simp only: nth_try_def j obind.simps, use k Suc in \<open>simp add: steps\<close>,
            simp add: list_details_def mqtt_versions)
      qed
    qed
    have j: "after_tries (Suc (length us)) i (list_details d 0 0) st = Done (list_details d (length us - 1) 3)"
      using after [of "length us - 1"] assms(4) by simp
    have "nth_try (Suc (length us)) i d st = Fault"
      by (subst d) (simp only: nth_try_def j obind.simps, use assms(4) in \<open>simp add: steps\<close>)
    then show ?thesis
      using first tries v by simp
  next
    case v: False
    note steps = step_chosen [OF u assms(4) v] and after = after_chosen [OF u assms(4) v]
    have tries: "nth_try k i d st = Done (strip_tcp (us ! Suc k), MQTTVersion (client_at i st))" "more_to_try k i d st = Done True"
      if k: "Suc k < length us" for k
    proof -
      show "more_to_try k i d st = Done True"
        by (subst d) (simp only: more_to_try_def after [OF k] obind.simps more [OF k])
      show "nth_try k i d st = Done (strip_tcp (us ! Suc k), MQTTVersion (client_at i st))"
        by (subst d) (simp only: nth_try_def after [OF Suc_lessD [OF k]] obind.simps, use k in \<open>simp add: steps\<close>,
          simp add: list_details_def)
    qed
    have last: "length us - 1 < length us"
      using assms(4) by simp
    have "nth_try (length us - 1) i d st = Fault"
      by (subst d) (simp only: nth_try_def after [OF last] obind.simps, use assms(4) in \<open>simp add: steps\<close>)
    then show ?thesis
      using tries v by simp
  qed
qed

section \<open>Examples\<close>

definition server_options :: "u8 list list \<Rightarrow> unit connect_options" where
  "server_options us = \<lparr>co_struct_id = ascii ''MQTC'', co_struct_version = 2, co_keepAliveInterval = 20, co_cleansession = True,
     co_maxInflight = 10, co_will = None, co_username = None, co_password = None, co_connectTimeout = 30, co_retryInterval = 20,
     co_ssl = None, co_success = None, co_failure = None, co_serverURIs = us, co_MQTTVersion = 0\<rparr>"

definition open_version :: "(nat list \<times> u8 list, unit, unit) mqtt" where
  "open_version = upd_client 0 (\<lambda>c. c\<lparr>MQTTVersion := 0\<rparr>) async_start"

lemma open_version_fields:
  "handle_at 0 open_version = idle_handle" "MQTTVersion (client_at 0 open_version) = 0"
  using async_start_fields(1,6) by (simp_all add: open_version_def upd_client_def client_at_def handle_at_def)

theorem connect_falls_back_witness:
  "nth_try 1 0 (fst (connect_details (server_options []) open_version)) open_version = Done ([104], 3)"
proof -
  have "connect_details (server_options []) open_version = (fst (connect_details (server_options []) open_version), open_version)"
    "co_struct_version (server_options []) < 2 \<or> co_serverURIs (server_options []) = []"
    by (simp_all add: connect_details_def server_options_def)
  from connect_falls_back [OF this, of 0] show ?thesis
    by (simp add: open_version_fields mqtt_versions idle_handle_def)
qed

theorem server_list_overrun_witness:
  "nth_try 3 0 (fst (connect_details (server_options [[104], [105]]) open_version))
     (snd (connect_details (server_options [[104], [105]]) open_version)) = Fault"
proof -
  let ?us = "[[104], [105]] :: u8 list list"
  have "connect_details (server_options ?us) open_version
      = (fst (connect_details (server_options ?us) open_version), snd (connect_details (server_options ?us) open_version))"
    "2 \<le> co_struct_version (server_options ?us)" "co_serverURIs (server_options ?us) = ?us" "?us \<noteq> []"
    by (simp_all add: server_options_def)
  note overrun = server_list_overrun [OF this, of 0]
  have "MQTTVersion (client_at 0 (snd (connect_details (server_options ?us) open_version))) = MQTTVERSION_DEFAULT"
    using open_version_fields(2) by (simp add: connect_details_def server_options_def client_at_def mqtt_versions Let_def)
  then show ?thesis
    using overrun by (simp add: numeral_3_eq_3)
qed

end
