(* ===== verification/Async_Machine.thy ===== *)
theory Async_Machine
  imports Async_Frame Async_Connect
begin

text \<open>
  The connection of a client as a state machine.  Its state is the pair of \<open>connected\<close> and
  \<open>connect_state\<close>; the steps are those that \<^verbatim>\<open>mqtt/source/MQTTAsync.c\<close> takes in different places, and
  every operation of the asynchronous client is shown to take each client along them.
\<close>

section \<open>The machine\<close>

inductive conn_step :: "bool \<times> int \<Rightarrow> bool \<times> int \<Rightarrow> bool" where
  start: "conn_step (False, 0) (False, 1)"
| direct: "conn_step (False, 0) (False, 3)"
| opened: "conn_step (c, 1) (c, 3)"
| accepted: "conn_step (c, 3) (True, 0)"
| leaving: "c \<or> s \<noteq> 0 \<Longrightarrow> conn_step (c, s) (c, -2)"
| closed: "conn_step (c, s) (False, 0)"

inductive_cases conn_step_cases: "conn_step p q"

definition conn_of_client :: "'p client \<Rightarrow> bool \<times> int" where
  "conn_of_client c = (connected c, connect_state c)"

definition conns :: "('k, 'p, 'u) mqtt \<Rightarrow> (bool \<times> int) list" where
  "conns st = map conn_of_client (items (clients st))"

definition moved :: "(bool \<times> int) list \<Rightarrow> ('k, 'p, 'u) mqtt \<Rightarrow> bool" where
  "moved X st \<longleftrightarrow> list_all2 conn_step\<^sup>*\<^sup>* X (conns st)"

section \<open>What keeps the connections\<close>

lemma moved_refl: "moved (conns st) st"
  by (simp add: moved_def list_all2_refl)

lemma conns_steady: "conns st = map (\<lambda>v. (fst v, fst (snd v))) (fst (steady st))"
  by (simp add: conns_def steady_def conn_view_def conn_of_client_def)

lemma moved_steady: "steady s = steady st \<Longrightarrow> moved X st \<Longrightarrow> moved X s"
  by (simp add: moved_def conns_steady)

lemma moved_quiet: "quiet s = quiet st \<Longrightarrow> moved X st \<Longrightarrow> moved X s"
  by (rule moved_steady) (rule quiet_steady)

lemma moved_ends:
  "ends1 (\<lambda>s. steady s = steady st) m1 \<Longrightarrow> moved X st \<Longrightarrow> ends1 (moved X) m1"
  "ends2 (\<lambda>s. steady s = steady st) m2 \<Longrightarrow> moved X st \<Longrightarrow> ends2 (moved X) m2"
  "ends3 (\<lambda>s. steady s = steady st) m3 \<Longrightarrow> moved X st \<Longrightarrow> ends3 (moved X) m3"
  by (cases m1; cases m2; cases m3; force intro: moved_steady)+

lemma moved_ends_quiet:
  "ends1 (\<lambda>s. quiet s = quiet st) m1 \<Longrightarrow> moved X st \<Longrightarrow> ends1 (moved X) m1"
  "ends2 (\<lambda>s. quiet s = quiet st) m2 \<Longrightarrow> moved X st \<Longrightarrow> ends2 (moved X) m2"
  "ends3 (\<lambda>s. quiet s = quiet st) m3 \<Longrightarrow> moved X st \<Longrightarrow> ends3 (moved X) m3"
  by (cases m1; cases m2; cases m3; force intro: moved_quiet)+

named_theorems moved_simps

lemma moved_fields [moved_simps]:
  "moved X (st\<lparr>socks := v1\<rparr>) = moved X st" "moved X (st\<lparr>store := v2\<rparr>) = moved X st" "moved X (st\<lparr>heap_pubs := v3\<rparr>) = moved X st"
  "moved X (st\<lparr>commands := v4\<rparr>) = moved X st" "moved X (st\<lparr>next_addr := v5\<rparr>) = moved X st" "moved X (st\<lparr>app := v6\<rparr>) = moved X st"
  "moved X (st\<lparr>handles := v7\<rparr>) = moved X st" "moved X (st\<lparr>heap_uris := v8\<rparr>) = moved X st"
  "moved X (st\<lparr>last_timeouts := v9\<rparr>) = moved X st" "moved X (st\<lparr>last_retry := v9\<rparr>) = moved X st"
  "moved X (upd_handle i f st) = moved X st" "moved X (call_success c d1 st) = moved X st" "moved X (call_failure c d2 st) = moved X st"
  by (simp_all add: moved_def conns_def upd_handle_def call_success_def call_failure_def split: option.split)

lemma conns_client: "conns (upd_client i f st) = (conns st)[i := conn_of_client (f (client_at i st))]"
  by (simp add: conns_def upd_client_def client_at_def map_update)

lemma conns_at: "i < length (conns st) \<Longrightarrow> conn_of_client (client_at i st) = conns st ! i"
  by (simp add: conns_def client_at_def)

lemma moved_client [moved_simps]:
  "conn_of_client (f (client_at i st)) = conn_of_client (client_at i st) \<Longrightarrow> moved X (upd_client i f st) = moved X st"
proof -
  assume "conn_of_client (f (client_at i st)) = conn_of_client (client_at i st)"
  then have "conns (upd_client i f st) = (conns st)[i := conn_of_client (client_at i st)]"
    by (simp add: conns_client)
  also have "\<dots> = conns st"
    using list_update_id [of "conns st" i]
    by (cases "i < length (conns st)") (simp_all add: conns_at list_update_beyond)
  finally show ?thesis
    by (simp add: moved_def)
qed

declare conn_of_client_def [moved_simps]

lemma moved_step:
  assumes "moved X st" "conn_step (conn_of_client (client_at i st)) (conn_of_client (f (client_at i st)))"
  shows "moved X (upd_client i f st)"
proof (cases "i < length (items (clients st))")
  case True
  then have "conns st ! i = conn_of_client (client_at i st)" "i < length (conns st)" "length X = length (conns st)"
    using assms(1) by (simp_all add: conns_def client_at_def moved_def list_all2_lengthD)
  then show ?thesis
    using assms by (auto simp: moved_def conns_client list_all2_conv_all_nth nth_list_update
        intro: rtranclp.rtrancl_into_rtrancl)
next
  case False
  then have "conns (upd_client i f st) = conns st"
    unfolding conns_client by (simp add: conns_def list_update_beyond)
  then show ?thesis
    using assms(1) by (simp add: moved_def)
qed

section \<open>Closing a session\<close>

lemma persistCommand_moved: "moved X st \<Longrightarrow> ends3 (moved X) (MQTTAsync_persistCommand c st)"
  by (auto simp: MQTTAsync_persistCommand_def Let_def moved_simps split: option.split prod.split intro!: pc_bind_any)

lemma addCommand_moved: "moved X st \<Longrightarrow> ends2 (moved X) (MQTTAsync_addCommand E c st)"
  by (auto simp: MQTTAsync_addCommand_def Let_def moved_simps split: list.split
      intro!: bind3 [OF persistCommand_moved])

lemma new_command_moved: "new_command i c st = (q, st') \<Longrightarrow> moved X st' = moved X st"
  by (auto simp: new_command_def moved_simps)

lemma disconnect_moved:
  assumes "moved X st"
  shows "ends2 (moved X) (MQTTAsync_disconnect1 E i options internal st)" "ends2 (moved X) (MQTTAsync_disconnect_internal E i t st)"
    "ends2 (moved X) (MQTTAsync_disconnect E i opts st)"
proof -
  show "ends2 (moved X) (MQTTAsync_disconnect1 E i options internal st)" for options internal
    using assms by (auto simp: MQTTAsync_disconnect1_def dest: new_command_moved split: prod.split intro!: addCommand_moved)
  then show "ends2 (moved X) (MQTTAsync_disconnect_internal E i t st)" "ends2 (moved X) (MQTTAsync_disconnect E i opts st)"
    by (simp_all add: MQTTAsync_disconnect_internal_def MQTTAsync_disconnect_def)
qed

lemma moved_closed: "moved X st \<Longrightarrow> moved X (upd_client i (\<lambda>c. c\<lparr>connected := False, connect_state := 0\<rparr>) st)"
  by (rule moved_step) (simp_all add: conn_of_client_def conn_step.closed)

lemma closeOnly_moved:
  assumes "moved X st"
  shows "ends1 (moved X) (MQTTAsync_closeOnly E i st)"
proof -
  let ?st = "upd_client i (\<lambda>c. c\<lparr>good := False, ping_outstanding := False\<rparr>) st"
  have "moved X ?st"
    using assms by (simp add: moved_simps)
  then show ?thesis
    unfolding MQTTAsync_closeOnly_def Let_def
    by (auto simp: moved_simps intro!: bind1 [of "moved X"] moved_closed
        bind2 [OF moved_ends_quiet(2) [OF sending_quiet(1) [OF refl]]])
qed

lemma cleanSession_moved: "moved X st \<Longrightarrow> ends2 (moved X) (MQTTAsync_cleanSession i st)"
proof -
  assume st: "moved X st"
  obtain rc st1 where c: "MQTTPersistence_clear i st = (rc, st1)"
    by fastforce
  have "quiet st1 = quiet st"
    using storage_quiet(5) [OF refl, of st i] by (simp add: c)
  then have "moved X st1"
    using moved_quiet st by blast
  then show ?thesis
    unfolding MQTTAsync_cleanSession_def c prod.case Let_def
    by (auto simp: moved_simps MQTTAsync_emptyMessageQueue_def MQTTAsync_removeResponsesAndCommands_def Let_def split: prod.split
        intro!: bind2 [OF moved_ends_quiet(2) [OF emptyMessageList_quiet [OF refl]]])
qed

lemma closeSession_moved: "moved X st \<Longrightarrow> ends1 (moved X) (MQTTAsync_closeSession E i st)"
  unfolding MQTTAsync_closeSession_def
  by (rule bind1 [OF closeOnly_moved], assumption) (auto intro!: bind2 [OF cleanSession_moved])

lemma freeConnect_moved: "moved X st \<Longrightarrow> ends1 (moved X) (MQTTAsync_freeConnect c st)"
  by (auto simp: MQTTAsync_freeConnect_def moved_simps intro!: pc_intros)

lemma checkDisconnect_moved: "moved X st \<Longrightarrow> ends1 (moved X) (MQTTAsync_checkDisconnect E i c st)"
  unfolding MQTTAsync_checkDisconnect_def
  by (rule pc_bind_any) (auto simp: moved_simps Let_def split: option.split intro!: bind1 [OF closeSession_moved])

lemma connect_failed_moved: "moved X st \<Longrightarrow> ends1 (moved X) (connect_failed E i d st)"
  unfolding connect_failed_def
  by (rule pc_bind_any) (auto simp: moved_simps new_command_def Let_def intro!: bind1 [OF closeOnly_moved] bind2 [OF addCommand_moved]
      bind1 [OF closeSession_moved] bind1 [OF freeConnect_moved])

section \<open>The send thread\<close>

text \<open>The connection of one client, where there is such a client.\<close>

definition conn_is :: "nat \<Rightarrow> bool \<times> int \<Rightarrow> ('k, 'p, 'u) mqtt \<Rightarrow> bool" where
  "conn_is i v st \<longleftrightarrow> (i < length (conns st) \<longrightarrow> conns st ! i = v)"

lemma conn_is_here: "conn_is i (conn_of_client (client_at i st)) st"
  by (simp add: conn_is_def conns_at)

lemma conn_is_quiet: "quiet s = quiet st \<Longrightarrow> conn_is i v st \<Longrightarrow> conn_is i v s"
  using quiet_steady [of s st] by (simp add: conn_is_def conns_steady)

lemma conn_is_fields [moved_simps]:
  "conn_is i v (st\<lparr>socks := v1\<rparr>) = conn_is i v st" "conn_is i v (st\<lparr>handles := v2\<rparr>) = conn_is i v st"
  "conn_is i v (upd_handle j f st) = conn_is i v st" "conn_is i v (st\<lparr>heap_uris := v8\<rparr>) = conn_is i v st"
  by (simp_all add: conn_is_def conns_def upd_handle_def)

lemma conn_is_client [moved_simps]:
  assumes "\<And>c. conn_of_client (f c) = conn_of_client c"
  shows "conn_is i v (upd_client i f st) = conn_is i v st"
  using assms by (auto simp: conn_is_def conns_client conns_at)

lemma moved_from:
  assumes "moved X st" "conn_is i (conn_of_client c0) st" "conn_step (conn_of_client c0) v"
    and "\<And>c. conn_of_client c = conn_of_client c0 \<Longrightarrow> conn_of_client (f c) = v"
  shows "moved X (upd_client i f st)"
proof (cases "i < length (conns st)")
  case True
  then have "conn_of_client (client_at i st) = conn_of_client c0"
    using assms(2) by (simp add: conn_is_def conns_at)
  then show ?thesis
    using assms by (intro moved_step) simp_all
next
  case False
  then show ?thesis
    using assms(1) by (simp add: moved_def conns_client list_update_beyond)
qed

lemma moved_start:
  assumes "moved X st" "conn_is i (False, 0) st" "s = 0 \<or> s = 1 \<or> s = 3"
  shows "moved X (upd_client i (\<lambda>c. c\<lparr>connect_state := s\<rparr>) st)"
  by (rule moved_from [OF assms(1), of i "zero_client\<lparr>connected := False, connect_state := 0\<rparr>" "(False, s)"])
    (use assms(2,3) in \<open>auto simp: conn_of_client_def conn_step.intros\<close>)

lemma sent_at:
  "moved X s \<and> conn_is i w s \<Longrightarrow> ends2 (\<lambda>s. moved X s \<and> conn_is i w s) (with_net (MQTTPacket_send_connect c v) E i s)"
  using sending_quiet(8) [OF refl, of s c v E i] by (auto simp: pc_def dest: moved_quiet conn_is_quiet)

lemma connect_moved:
  assumes "moved X st" "conn_of_client (client_at i st) = (False, 0)"
  shows "ends3 (moved X) (MQTTProtocol_connect E uri i v st)"
proof -
  have at: "conn_is i (False, 0) st"
    using conn_is_here [of i st] assms(2) by simp
  let ?st = "upd_client i (\<lambda>c. c\<lparr>good := True\<rparr>) st"
  have st: "moved X ?st" "conn_is i (False, 0) ?st"
    using assms(1) at by (simp_all add: moved_simps)
  show ?thesis
    unfolding MQTTProtocol_connect_def Let_def
    using st by (intro pc_bind_any) (auto simp: moved_simps split: prod.split intro!: moved_start bind2 [OF sent_at])
qed

lemma keep_server_moved [moved_simps]: "moved X (keep_server i d uri st) = moved X st"
  by (simp add: keep_server_def moved_simps)

lemma do_connect_moved: "moved X st \<Longrightarrow> ends3 (moved X) (do_connect E q st)"
  unfolding do_connect_def Let_def
  by (auto simp: moved_simps intro!: pc_if pc_bind_any [of _ _ "conn_of q"] pc_bind_any [of _ _ "next_server a b c" for a b c]
      bind3 [OF connect_moved])

lemma publish_success_moved: "moved X st \<Longrightarrow> ends1 (moved X) (publish_success c st)"
  by (auto simp: publish_success_def moved_simps split: command_details.split)

lemma do_publish_moved: "moved X st \<Longrightarrow> ends3 (moved X) (do_publish E q st)"
  by (auto simp: do_publish_def Let_def moved_simps split: command_details.split option.split
      intro!: bind3 [OF moved_ends_quiet(3) [OF startPublish_quiet [OF refl]]] bind1 [OF publish_success_moved])

lemma moved_leaving:
  "moved X st \<Longrightarrow> connect_state (client_at i st) \<noteq> 0 \<or> connected (client_at i st) \<Longrightarrow>
   moved X (upd_client i (\<lambda>c. c\<lparr>connect_state := -2\<rparr>) st)"
  by (rule moved_step) (auto simp: conn_of_client_def intro!: conn_step.leaving)

lemma do_command_moved: "moved X st \<Longrightarrow> ends3 (moved X) (do_command E q st)"
  unfolding do_command_def Let_def
  by (auto simp: moved_simps split: command_details.split
      intro!: do_connect_moved do_publish_moved bind2 [OF moved_ends_quiet(2) [OF acks_quiet(7) [OF refl]]]
        bind2 [OF moved_ends_quiet(2) [OF acks_quiet(8) [OF refl]]] bind1 [OF checkDisconnect_moved] moved_leaving)

lemma finish_command_moved:
  assumes "moved X st"
  shows "ends1 (moved X) (finish_command E rc q st)"
proof -
  have again: "ends1 (moved X) (obind m (\<lambda>more. if more then obind (MQTTAsync_addCommand E q s) (\<lambda>(_, st). Done st)
      else MQTTAsync_freeConnect q (call_failure q None s)))" if "moved X s" for m s
    using that by (intro pc_bind_any) (auto simp: moved_simps intro!: bind2 [OF addCommand_moved] freeConnect_moved)
  show ?thesis
    using assms unfolding finish_command_def Let_def
    by (auto simp: moved_simps await_response_def intro!: bind2 [OF disconnect_moved(2)] bind2 [OF disconnect_moved(3)] again freeConnect_moved)
qed

lemma looked_moved: "looked st st' \<Longrightarrow> moved X st \<Longrightarrow> moved X st'"
  by (auto simp: looked_def moved_simps)

lemma processCommand_moved: "moved X st \<Longrightarrow> ends1 (moved X) (MQTTAsync_processCommand E st)"
proof -
  assume st: "moved X st"
  obtain st' where p: "looked st st'" "pick_command (items (commands st)) [] st = (find (ready st) (fronts (set []) (items (commands st))), st')"
    using pick_command_find by blast
  then have "moved X st'"
    using looked_moved st by blast
  then show ?thesis
    unfolding MQTTAsync_processCommand_def p(2) Let_def
    by (auto simp: moved_simps split: option.split intro!: bind1 [of "moved X"] bind3 [OF do_command_moved]
        finish_command_moved bind2 [OF moved_ends_quiet(2) [OF storage_quiet(8) [OF refl]]])
qed

lemma process_commands_moved:
  assumes "process_commands E st = Some m" "moved X st"
  shows "ends1 (moved X) m"
proof -
  let ?P = "\<lambda>E st m. moved X st \<longrightarrow> ends1 (moved X) m"
  have "?P E st m"
  proof (rule process_commands.raw_induct [where P = ?P, OF _ assms(1)])
    fix loop E st m
    assume IH: "\<And>E s m. loop E s = Some m \<Longrightarrow> ?P E s m"
      and body: "(if items (commands st) = [] then Some (Done st)
        else case MQTTAsync_processCommand E st of
          Stuck \<Rightarrow> Some Stuck | Fault \<Rightarrow> Some Fault
        | Done st' \<Rightarrow> if length (items (commands st)) = length (items (commands st')) then Some (Done st') else loop E st') = Some m"
    show "?P E st m"
    proof
      assume st: "moved X st"
      show "ends1 (moved X) m"
      proof (cases "MQTTAsync_processCommand E st")
        case (Done s)
        then have "moved X s"
          using processCommand_moved [OF st, of E] by simp
        moreover have "(if items (commands st) = [] then Some (Done st)
            else if length (items (commands st)) = length (items (commands s)) then Some (Done s) else loop E s) = Some m"
          using body by (simp only: Done outcome.case)
        ultimately show ?thesis
          using st IH by (auto split: if_splits)
      qed (use body st in \<open>auto split: if_splits\<close>)
    qed
  qed
  then show ?thesis
    using assms(2) by blast
qed

lemma check_timeout_moved: "moved X st \<Longrightarrow> ends1 (moved X) (check_timeout E k st)"
  unfolding check_timeout_def Let_def
  by (rule pc_bind_any) (auto intro!: connect_failed_moved checkDisconnect_moved)

lemma sendThread_moved: "moved X st \<Longrightarrow> ends1 (moved X) (MQTTAsync_sendThread E st)"
proof -
  assume st: "moved X st"
  have "ends1 (moved X) (run_loop (process_commands E st))"
    using process_commands_moved [of E st _ X] st by (auto simp: run_loop_def split: option.split)
  then show ?thesis
    unfolding MQTTAsync_sendThread_def
    by (rule bind1) (auto simp: MQTTAsync_checkTimeouts_def moved_simps intro!: for_clients_keeps [of "moved X"] check_timeout_moved)
qed

section \<open>The socket layer with its callback\<close>

text \<open>What every system call and the callback keep of the state of the kernel, waiting for a socket keeps.\<close>

lemma continue_loop_keeps:
  assumes "continue_loop K wc pw cur ss = Some m"
    and "\<And>s v k. P k \<Longrightarrow> P (snd (sys_writev K s v k))"
    and "\<And>s ss. P (os ss) \<Longrightarrow> ends1 (\<lambda>ss. P (os ss)) (wc s ss)" and "P (os ss)"
  shows "ends1 (\<lambda>ss. P (os ss)) m"
proof -
  let ?ok = "\<lambda>K. \<forall>s v k. P k \<longrightarrow> P (snd (sys_writev K s v k))"
  let ?wc = "\<lambda>wc. \<forall>s ss. P (os ss) \<longrightarrow> ends1 (\<lambda>ss. P (os ss)) (wc s ss)"
  let ?P = "\<lambda>K wc pw cur ss m. ?ok K \<longrightarrow> ?wc wc \<longrightarrow> P (os ss) \<longrightarrow> ends1 (\<lambda>ss. P (os ss)) m"
  have "?P K wc pw cur ss m"
  proof (rule continue_loop.raw_induct [where P = ?P, OF _ assms(1)])
    fix loop K wc pw cur ss m
    assume IH: "\<And>K wc pw cur ss m. loop K wc pw cur ss = Some m \<Longrightarrow> ?P K wc pw cur ss m"
      and body: "(case cur of None \<Rightarrow> Some (Done ss)
      | Some i \<Rightarrow>
          if length (items (write_pending ss)) \<le> i then Some Fault
          else (let socket = items (write_pending ss) ! i in
            case (if pw socket then Socket_continueWrite K socket ss else Done (0, ss)) of
              Stuck \<Rightarrow> Some Stuck
            | Fault \<Rightarrow> Some Fault
            | Done (rc, st) \<Rightarrow>
                if rc \<noteq> 0
                then (let (_, st) = on_buffers (SocketBuffer_writeComplete socket (sbuf st)) st;
                          st = st\<lparr>pending_wset := FD_CLR socket (pending_wset st)\<rparr>;
                          st = st\<lparr>write_pending := cl_delete i (write_pending st)\<rparr>;
                          curpending = cursor (write_pending st) in
                      case wc socket st of
                        Stuck \<Rightarrow> Some Stuck
                      | Fault \<Rightarrow> Some Fault
                      | Done st \<Rightarrow> loop K wc pw curpending st)
                else loop K wc pw
                       (if Suc i < length (items (write_pending st)) then Some (Suc i) else None) st)) = Some m"
    show "?P K wc pw cur ss m"
    proof (intro impI)
      assume ok: "?ok K" and wc: "?wc wc" and P: "P (os ss)"
      have cont: "ends2 (\<lambda>s. P (os s)) (Socket_continueWrite K s ss)" for s
        using ok P by (auto simp: Socket_continueWrite_def Socket_writev_def on_buffers_def on_os_def Let_def check_def
            split: prod.split option.split)
      show "ends1 (\<lambda>ss. P (os ss)) m"
      proof (cases "\<exists>i. cur = Some i \<and> i < length (items (write_pending ss))")
        case True
        then obtain i where i: "cur = Some i" "\<not> length (items (write_pending ss)) \<le> i"
          by auto
        let ?s = "items (write_pending ss) ! i"
        let ?r = "if pw ?s then Socket_continueWrite K ?s ss else Done (0, ss)"
        have r: "ends2 (\<lambda>s. P (os s)) ?r"
          using cont P by simp
        show ?thesis
        proof (cases ?r)
          case (Done rs)
          obtain rc st where rs: "rs = (rc, st)"
            by fastforce
          have st: "P (os st)"
            using r Done rs by simp
          let ?st = "snd (on_buffers (SocketBuffer_writeComplete ?s (sbuf st)) st)"
          let ?st = "?st\<lparr>pending_wset := FD_CLR ?s (pending_wset ?st)\<rparr>"
          let ?st = "?st\<lparr>write_pending := cl_delete i (write_pending ?st)\<rparr>"
          have "ends1 (\<lambda>ss. P (os ss)) (wc ?s ?st)"
            using wc st by (simp add: on_buffers_def)
          show ?thesis
          proof (cases "rc = 0")
            case True
            then obtain cur where "loop K wc pw cur st = Some m"
              using body i Done rs by (auto simp: Let_def)
            from IH [OF this] show ?thesis
              using ok wc st by simp
          next
            case False
            have wcs: "ends1 (\<lambda>ss. P (os ss)) (wc ?s ?st)"
              using wc st by (simp add: on_buffers_def)
            have m: "(case wc ?s ?st of Stuck \<Rightarrow> Some Stuck | Fault \<Rightarrow> Some Fault
                | Done s \<Rightarrow> loop K wc pw (cursor (write_pending ?st)) s) = Some m"
              using body i Done rs False by (simp add: Let_def split_def)
            show ?thesis
            proof (cases "wc ?s ?st")
              case (Done s)
              then have "loop K wc pw (cursor (write_pending ?st)) s = Some m"
                using m by simp
              from IH [OF this] show ?thesis
                using ok wc wcs Done by simp
            qed (use m in auto)
          qed
        qed (use body i in \<open>auto simp: Let_def\<close>)
      qed (use body P in \<open>auto split: option.splits\<close>)
    qed
  qed
  then show ?thesis
    using assms(2-4) by blast
qed

lemma scan_ready_os [simp]: "os (scan_ready i ds ss) = os ss"
  by (induction i ds ss rule: scan_ready.induct)
    (auto simp: isReady_def Socket_noPendingWrites_def Let_def split: prod.split)

lemma scan_cursor_os [simp]: "os (scan_from_cursor ss) = os ss"
  by (auto simp: scan_from_cursor_def split: option.split)

lemma getReadySocket_keeps:
  assumes "\<And>s v k. P k \<Longrightarrow> P (snd (sys_writev K s v k))" "\<And>n r w t k. P k \<Longrightarrow> P (snd (sys_select K n r w t k))"
    and "\<And>s ss. P (os ss) \<Longrightarrow> ends1 (\<lambda>ss. P (os ss)) (wc s ss)" and "P (os ss)"
  shows "ends2 (\<lambda>ss. P (os ss)) (Socket_getReadySocket K wc mw tp ss)"
proof -
  have writes: "ends2 (\<lambda>ss. P (os ss)) (Socket_continueWrites K wc pw ss)" if "P (os ss)" for pw and ss
  proof -
    have "ends1 (\<lambda>ss. P (os ss)) (run_loop (continue_loop K wc pw cur ss))" for cur
      using continue_loop_keeps [of K wc pw cur ss _ P] assms(1,3) that by (auto simp: run_loop_def split: option.split)
    then show ?thesis
      unfolding Socket_continueWrites_def by (rule bind1) simp
  qed
  show ?thesis
    unfolding Socket_getReadySocket_def Let_def
    using assms(2) [of "os ss"] assms(2) assms(4)
    by (auto simp: on_os_def split: option.split prod.split intro!: bind2 [OF writes])
qed

section \<open>The receive thread\<close>

lemma checkPendingWrites_moved: "moved X st \<Longrightarrow> ends1 (moved X) (MQTTProtocol_checkPendingWrites st)"
  unfolding MQTTProtocol_checkPendingWrites_def by (rule moved_ends_quiet(1) [OF check_writes_quiet [OF refl]])

lemma writeComplete_moved: "moved X st \<Longrightarrow> ends1 (moved X) (MQTTAsync_writeComplete E s st)"
  unfolding MQTTAsync_writeComplete_def Let_def
  by (rule bind1 [OF checkPendingWrites_moved], assumption)
    (auto simp: moved_simps split: option.split prod.split list.split intro!: bind1 [OF publish_success_moved])

lemma ready_socket_moved: "moved X st \<Longrightarrow> ends2 (moved X) (ready_socket E tp st)"
proof -
  assume st: "moved X st"
  have kept: "ends2 (\<lambda>ss. moved X (snd (os ss))) (Socket_getReadySocket (lift_kernel (kern E)) (write_complete_callback E) False
      (Some tp) (map_os (\<lambda>k. (k, st)) (socks st)))"
  proof (rule getReadySocket_keeps [where P = "\<lambda>k. moved X (snd k)"])
    fix s and ss :: "('a \<times> ('a, 'b, 'c) mqtt) sockets"
    assume "moved X (snd (os ss))"
    then have "moved X ((snd (os ss))\<lparr>socks := map_os fst ss\<rparr>)"
      by (simp add: moved_simps)
    then show "ends1 (\<lambda>ss. moved X (snd (os ss))) (write_complete_callback E s ss)"
      unfolding write_complete_callback_def by (intro bind1 [OF writeComplete_moved]) (simp_all add: map_os_def)
  qed (use st in \<open>simp_all add: lift_kernel_def beside_def map_os_def\<close>)
  show ?thesis
    unfolding ready_socket_def by (rule bind2 [OF kept]) (simp add: moved_simps)
qed

lemma moved_open:
  assumes "moved X st" "connect_state (client_at i st) = 1"
  shows "moved X (upd_client i (\<lambda>c. c\<lparr>connect_state := 3\<rparr>) st)"
  by (rule moved_step [OF assms(1)]) (simp add: conn_of_client_def assms(2) conn_step.opened)

lemma moved_accepted:
  assumes "moved X st" "connect_state (client_at i st) = 3"
  shows "moved X (upd_client i (\<lambda>c. c\<lparr>connected := True, good := True, connect_state := 0\<rparr>) st)"
  by (rule moved_step [OF assms(1)]) (simp add: conn_of_client_def assms(2) conn_step.accepted)

lemma connecting_moved: "moved X st \<Longrightarrow> ends2 (moved X) (MQTTAsync_connecting E i st)"
  unfolding MQTTAsync_connecting_def Let_def
  by (rule bind2 [of "moved X"])
    (auto simp: moved_simps client_at_def split: prod.split intro!: pc_bind_any [of _ _ "conn_of x" for x]
      moved_ends_quiet(2) [OF sending_quiet(8) [OF refl]] moved_open bind1 [OF connect_failed_moved])

lemma completeConnection_moved: "moved X st \<Longrightarrow> ends2 (moved X) (MQTTAsync_completeConnection E i c st)"
  unfolding MQTTAsync_completeConnection_def Let_def
  by (auto simp: moved_simps touch_all_def intro!: moved_accepted bind2 [of "moved X"] cleanSession_moved
      bind1 [OF moved_ends_quiet(1) [OF retry_quiet [OF refl]]])

lemma find_socket_moved: "find_socket s st = (m, st') \<Longrightarrow> moved X st' = moved X st"
  by (auto simp: find_socket_def moved_simps split: prod.splits option.splits)

lemma asyncRetry_moved: "moved X st \<Longrightarrow> ends1 (moved X) (MQTTAsync_retry E st)"
  by (auto simp: MQTTAsync_retry_def moved_simps Let_def intro!: bind1 [OF moved_ends_quiet(1) [OF keepalive_quiet [OF refl]]]
      moved_ends_quiet(1) [OF retry_quiet [OF refl]])

lemma take_response_moved: "take_response i t st = (q, st') \<Longrightarrow> moved X st' = moved X st"
  by (auto simp: take_response_def moved_simps split: option.splits)

lemma delivered_moved: "moved X st \<Longrightarrow> ends1 (moved X) (delivered i m st)"
  by (auto simp: delivered_def Let_def moved_simps split: prod.split option.split dest!: take_response_moved [where X = X]
      intro!: publish_success_moved)

lemma handle_flow_moved: "moved X st \<Longrightarrow> ends3 (moved X) (handle_flow E m p ty sock rc st)"
  unfolding handle_flow_def Let_def
  by (auto split: packet.split option.split intro!: bind2 [OF moved_ends(2) [OF incoming_steady(1) [OF refl]]]
      bind2 [OF moved_ends(2) [OF incoming_steady(2) [OF refl]]] bind2 [OF moved_ends_quiet(2) [OF acks_quiet(1) [OF refl]]]
      bind2 [OF moved_ends_quiet(2) [OF acks_quiet(2) [OF refl]]] bind2 [OF moved_ends_quiet(2) [OF acks_quiet(3) [OF refl]]]
      bind2 [OF moved_ends_quiet(2) [OF acks_quiet(4) [OF refl]]] bind1 [OF delivered_moved])

lemma read_socket_moved: "moved X st \<Longrightarrow> ends3 (moved X) (read_socket E i st)"
proof -
  assume st: "moved X st"
  have "ends3 (moved X) (obind (MQTTPacket_Factory (client_net E i) (Done st)) (\<lambda>(pack, rc, n). obind n (\<lambda>st. Done (pack, rc, st))))"
    by (rule bind3 [OF quiet_net.factory_ends [OF start_quiet [OF refl]]])
      (auto simp: net_quiet_def pc_def obind_eq_Done intro: moved_quiet st)
  then show ?thesis
    unfolding read_socket_def using st
    by (intro bind3 [of "moved X"]) (auto intro!: bind2 [OF connecting_moved] bind1 [OF connect_failed_moved])
qed

lemma cycle_moved: "moved X st \<Longrightarrow> pc (\<lambda>(_, _, _, s). moved X s) (MQTTAsync_cycle E timeout rc st)"
proof -
  assume st: "moved X st"
  have retried: "pc (\<lambda>(_, _, _, s). moved X s) (obind (MQTTAsync_retry E s) (\<lambda>st. Done (a, b, c, st)))" if "moved X s" for a b c s
    using that by (intro bind1 [OF asyncRetry_moved]) auto
  show ?thesis
    unfolding MQTTAsync_cycle_def Let_def
    by (rule bind2 [OF ready_socket_moved [OF st]], unfold prod.case, rule bind3 [of "moved X"])
      (auto simp: MQTTAsync_sleep_def moved_simps dest!: find_socket_moved [where X = X]
        split: prod.split option.split intro!: bind3 [of "moved X"] read_socket_moved handle_flow_moved retried)
qed

lemma deliver_queued_moved: "moved X st \<Longrightarrow> ends1 (moved X) (deliver_queued i st)"
  by (auto simp: deliver_queued_def MQTTAsync_deliverMessage_def Let_def moved_simps split: list.split option.split prod.split
      intro!: pc_check)

lemma connack_received_moved: "moved X st \<Longrightarrow> ends1 (moved X) (connack_received E i c st)"
  unfolding connack_received_def
  by (rule bind2 [OF completeConnection_moved], assumption)
    (auto intro!: connect_failed_moved bind1 [OF freeConnect_moved]; auto simp: moved_simps Let_def intro!: pc_bind_any)

lemma suback_received_moved: "moved X st \<Longrightarrow> ends2 (moved X) (suback_received i s st)"
  unfolding suback_received_def
  by (auto simp: Let_def moved_simps split: prod.split option.split dest!: take_response_moved [where X = X]
      intro!: moved_ends_quiet(2) [OF acks_quiet(5) [OF refl]])

lemma unsuback_received_moved: "moved X st \<Longrightarrow> ends2 (moved X) (unsuback_received i a st)"
  unfolding unsuback_received_def
  by (auto simp: Let_def moved_simps split: prod.split option.split dest!: take_response_moved [where X = X]
      intro!: moved_ends_quiet(2) [OF acks_quiet(6) [OF refl]] bind2 [OF moved_ends_quiet(2) [OF acks_quiet(6) [OF refl]]])

lemma receiveThread_moved: "moved X st \<Longrightarrow> ends1 (moved X) (MQTTAsync_receiveThread E timeout st)"
proof -
  assume st: "moved X st"
  have rest: "ends1 (moved X) (handle_rest E i p s)" if "moved X s" for i p s
    using that by (auto simp: handle_rest_def Let_def split: packet.split
        intro!: connack_received_moved bind2 [OF suback_received_moved] bind2 [OF unsuback_received_moved])
  show ?thesis
    unfolding MQTTAsync_receiveThread_def
    by (rule pc_bind [OF cycle_moved [OF st]])
      (auto simp: Let_def split: prod.split option.split dest!: find_socket_moved [where X = X]
        intro!: bind2 [OF disconnect_moved(2)] closeOnly_moved bind1 [OF deliver_queued_moved] rest)
qed

section \<open>The application\<close>

lemma assignToken_moved: "moved X st \<Longrightarrow> ends2 (moved X) (MQTTAsync_assignMsgId i st)"
  unfolding MQTTAsync_assignMsgId_def Let_def by (rule pc_bind_any) (auto simp: moved_simps split: prod.split)

lemma add_request_moved: "moved X st \<Longrightarrow> ends3 (moved X) (add_request E i c st)"
  by (auto simp: add_request_def moved_simps dest!: new_command_moved [where X = X] split: prod.split
      intro!: bind2 [OF addCommand_moved])

lemma token_request_moved:
  "moved X st \<Longrightarrow> ends3 (moved X) (obind (MQTTAsync_assignMsgId i st) (\<lambda>(msgid, st).
     if msgid = 0 then Done (e, 0, st) else add_request E i (c msgid) st))"
  by (rule bind2 [OF assignToken_moved]) (auto intro: add_request_moved)

lemma requests_moved:
  assumes "moved X st"
  shows "ends3 (moved X) (MQTTAsync_subscribeMany E i ts r st)" "ends3 (moved X) (MQTTAsync_unsubscribeMany E i us r st)"
    "ends3 (moved X) (MQTTAsync_send E i d n b q ret r st)"
proof -
  have sending: "ends3 (moved X) (obind (if 0 < q then MQTTAsync_assignMsgId i st else Done (0, st)) (\<lambda>(msgid, st).
      if 0 < q \<and> msgid = 0 then Done (MQTTASYNC_NO_MORE_MSGIDS, 0, st)
      else check (0 \<le> n \<and> nat n \<le> length b)
        (add_request E i (request r PUBLISH msgid (Pub (Some d) (take (nat n) b) q ret)) st)))"
    by (rule bind2 [of "moved X"]) (use assms in \<open>auto intro!: assignToken_moved add_request_moved pc_check\<close>)
  show "ends3 (moved X) (MQTTAsync_subscribeMany E i ts r st)"
    unfolding MQTTAsync_subscribeMany_def
    using assms by (intro pc_if, simp, rule_tac pc_bind_any) (auto intro!: token_request_moved)
  show "ends3 (moved X) (MQTTAsync_unsubscribeMany E i us r st)"
    unfolding MQTTAsync_unsubscribeMany_def
    using assms by (intro pc_if, simp, rule_tac pc_bind_any) (auto intro!: token_request_moved)
  show "ends3 (moved X) (MQTTAsync_send E i d n b q ret r st)"
    unfolding MQTTAsync_send_def
    by (intro pc_if, simp add: assms, rule pc_bind_any, intro pc_if; (rule sending | simp add: assms))
qed

lemma async_connect_moved: "moved X st \<Longrightarrow> ends2 (moved X) (MQTTAsync_connect E i options st)"
proof -
  assume st: "moved X st"
  have queued: "ends2 (moved X) (case connect_details opts s of (d, s) \<Rightarrow> case new_command i (c d) s of (conn, s) \<Rightarrow> MQTTAsync_addCommand E conn s)"
    if "moved X s" for opts c s
    using that by (auto simp: connect_details_def Let_def moved_simps dest!: new_command_moved [where X = X]
        split: prod.splits if_splits intro!: addCommand_moved)
  show ?thesis
    unfolding MQTTAsync_connect_def Let_def
    using st by (cases options) (auto simp: moved_simps intro!: pc_bind_any queued)
qed

lemma setCallbacks_moved: "moved X st \<Longrightarrow> moved X (snd (MQTTAsync_setCallbacks i cl ma dc st))"
  by (simp add: MQTTAsync_setCallbacks_def moved_simps)

section \<open>The operations of the client\<close>

text \<open>
  What happens to a set of clients: what the application asks for, and the turns of the two threads.
  \<open>Waiting\<close> is the time another thread sleeps.
\<close>

datatype 'u async_op =
  Connect nat "'u connect_options option"
| Disconnect nat "'u disconnect_options option"
| Subscribe nat "(u8 list \<times> int) list" "'u response_options option"
| Unsubscribe nat "u8 list list" "'u response_options option"
| Send nat "u8 list" int "u8 list" int int "'u response_options option"
| Set_callbacks nat "('u \<Rightarrow> 'u) option" "(u8 list \<Rightarrow> int \<Rightarrow> async_message \<Rightarrow> 'u \<Rightarrow> int \<times> 'u) option" "(int \<Rightarrow> 'u \<Rightarrow> 'u) option"
| Waiting int
| Send_turn
| Receive_turn int

fun async_step :: "('k, 'a) env \<Rightarrow> 'u async_op \<Rightarrow> ('k, 'p, 'u) mqtt \<Rightarrow> ('k, 'p, 'u) mqtt outcome" where
  "async_step E (Connect i options) st = obind (MQTTAsync_connect E i options st) (\<lambda>(_, st). Done st)"
| "async_step E (Disconnect i options) st = obind (MQTTAsync_disconnect E i options st) (\<lambda>(_, st). Done st)"
| "async_step E (Subscribe i topics r) st = obind (MQTTAsync_subscribeMany E i topics r st) (\<lambda>(_, _, st). Done st)"
| "async_step E (Unsubscribe i topics r) st = obind (MQTTAsync_unsubscribeMany E i topics r st) (\<lambda>(_, _, st). Done st)"
| "async_step E (Send i dest n body qos retained r) st =
     obind (MQTTAsync_send E i dest n body qos retained r st) (\<lambda>(_, _, st). Done st)"
| "async_step E (Set_callbacks i cl ma dc) st = Done (snd (MQTTAsync_setCallbacks i cl ma dc st))"
| "async_step E (Waiting n) st = Done (MQTTAsync_sleep E n st)"
| "async_step E Send_turn st = MQTTAsync_sendThread E st"
| "async_step E (Receive_turn timeout) st = MQTTAsync_receiveThread E timeout st"

lemma async_step_moved: "moved X st \<Longrightarrow> ends1 (moved X) (async_step E op st)"
proof (cases op)
  case (Set_callbacks i cl ma dc)
  then show "moved X st \<Longrightarrow> ends1 (moved X) (async_step E op st)"
    using setCallbacks_moved by (metis async_step.simps(6) pc_simps(1))
qed (auto simp: moved_simps MQTTAsync_sleep_def sendThread_moved receiveThread_moved
      intro!: bind2 [OF async_connect_moved] bind2 [OF disconnect_moved(3)] bind3 [OF requests_moved(1)]
        bind3 [OF requests_moved(2)] bind3 [OF requests_moved(3)])

lemma step_machine:
  assumes "async_step E op st = Done st'"
  shows "list_all2 (\<lambda>c c'. conn_step\<^sup>*\<^sup>* (connected c, connect_state c) (connected c', connect_state c'))
    (items (clients st)) (items (clients st'))"
proof -
  have "moved (conns st) st'"
    using async_step_moved [OF moved_refl, where E = E and op = op and st = st] assms by simp
  then show ?thesis
    by (simp add: moved_def conns_def list.rel_map conn_of_client_def)
qed



inductive async_reachable :: "('k, 'a) env \<Rightarrow> ('k, 'p, 'u) mqtt \<Rightarrow> bool" for E where
  fresh: "\<forall>c \<in> set (items (clients st)). \<not> connected c \<and> connect_state c = 0 \<Longrightarrow> async_reachable E st"
| step: "async_reachable E st \<Longrightarrow> async_step E op st = Done st' \<Longrightarrow> async_reachable E st'"

definition conn_ok :: "bool \<times> int \<Rightarrow> bool" where
  "conn_ok p \<longleftrightarrow> snd p \<in> {-2, 0, 1, 3} \<and> (fst p \<longrightarrow> snd p \<in> {-2, 0})"

lemma conn_step_ok: "conn_step p q \<Longrightarrow> conn_ok p \<Longrightarrow> conn_ok q"
  by (induction rule: conn_step.induct) (auto simp: conn_ok_def)

lemma conn_steps_ok: "conn_step\<^sup>*\<^sup>* p q \<Longrightarrow> conn_ok p \<Longrightarrow> conn_ok q"
  by (induction rule: rtranclp_induct) (auto intro: conn_step_ok)

text \<open>
  C11: From clients that are not connected, as \<open>MQTTAsync_create\<close> makes them, the threads and the
  application reach only states in which a client's \<open>connect_state\<close> is -2, 0, 1 or 3, and in which a
  connected client is never in the middle of connecting.
\<close>

theorem connection_invariant:
  assumes "async_reachable E st" "c \<in> set (items (clients st))"
  shows "connect_state c \<in> {-2, 0, 1, 3} \<and> (connected c \<longrightarrow> connect_state c = -2 \<or> connect_state c = 0)"
proof -
  have "\<forall>c \<in> set (items (clients st)). conn_ok (connected c, connect_state c)"
    using assms(1)
  proof induction
    case (step st op st')
    then show ?case
      using step_machine [OF step.hyps(2)] conn_steps_ok
      by (fastforce simp: list_all2_conv_all_nth in_set_conv_nth)
  qed (auto simp: conn_ok_def)
  then show ?thesis
    using assms(2) by (auto simp: conn_ok_def)
qed

definition closed_start :: "(nat list \<times> u8 list, unit, unit) mqtt" where
  "closed_start = upd_client 0 (\<lambda>c. c\<lparr>connected := False\<rparr>) async_start"

lemma connect_added: "cmd_type c = CONNECT \<Longrightarrow> \<exists>st'. MQTTAsync_addCommand E c st = Done (0, st')"
  by (auto simp: MQTTAsync_addCommand_def Let_def split: list.split)

lemma connect_returns:
  assumes "check_options options = Done MQTTASYNC_SUCCESS"
  shows "\<exists>st'. MQTTAsync_connect E i (Some options) st = Done (0, st')"
  unfolding MQTTAsync_connect_def option.case assms obind.simps Let_def split_def
  by (subst if_not_P, simp, rule connect_added, simp add: new_command_def command.defs)

theorem connection_invariant_witness:
  "\<exists>st'. async_step taking_env (Connect 0 (Some (server_options []))) closed_start = Done st'
     \<and> (\<forall>c \<in> set (items (clients st')). connect_state c \<in> {-2, 0, 1, 3})"
proof -
  have start: "async_reachable taking_env closed_start"
    by (rule fresh) (simp add: closed_start_def upd_client_def idle_client_def)
  have "check_options (server_options []) = Done MQTTASYNC_SUCCESS"
    by (simp add: check_options_def server_options_def check_will_def check_string_def async_codes)
  then obtain s where "MQTTAsync_connect taking_env 0 (Some (server_options [])) closed_start = Done (0, s)"
    using connect_returns by blast
  then have st': "async_step taking_env (Connect 0 (Some (server_options []))) closed_start = Done s"
    by simp
  from connection_invariant [OF step [OF start st']] st' show ?thesis
    by blast
qed

end
