(* ===== verification/Packet_Types.thy ===== *)
theory Packet_Types
  imports Async_Receive
begin

text \<open>
  The types of received packets.  The C code casts the block that \<open>MQTTPacket_Factory\<close> returns to the
  structure its packet type stands for, in \<open>MQTTAsync_cycle\<close>, in \<open>MQTTAsync_receiveThread\<close> and in the
  handlers of the protocol.  Here: the structure the factory builds is the one each of these casts expects.
\<close>

primrec well_typed :: "packet \<Rightarrow> bool" where
  "well_typed (Header_only h) \<longleftrightarrow> header_type h \<in> msg_code ` {PINGREQ, PINGRESP, DISCONNECT}"
| "well_typed (Connack c) \<longleftrightarrow> header_type (connack_header c) = msg_code CONNACK"
| "well_typed (Publish p) \<longleftrightarrow> header_type (pub_header p) = msg_code PUBLISH"
| "well_typed (Ack a) \<longleftrightarrow>
     header_type (ack_header a) \<in> msg_code ` {PUBACK, PUBREC, PUBREL, PUBCOMP, UNSUBACK}"
| "well_typed (Suback s) \<longleftrightarrow> header_type (suback_header s) = msg_code SUBACK"

text \<open>Each parser keeps the header it was given.\<close>

lemma parser_header:
  "MQTTPacket_connack h mem = Done p \<Longrightarrow> \<exists>c. p = Connack c \<and> connack_header c = h"
  "MQTTPacket_ack h mem = Done p \<Longrightarrow> \<exists>a. p = Ack a \<and> ack_header a = h"
  "MQTTPacket_suback h mem n = Done p \<Longrightarrow> \<exists>s. p = Suback s \<and> suback_header s = h"
  "MQTTPacket_publish h mem n = Done (Some p) \<Longrightarrow> \<exists>q. p = Publish q \<and> pub_header q = h"
  unfolding MQTTPacket_connack_def MQTTPacket_ack_def MQTTPacket_suback_def MQTTPacket_publish_def
  by (auto simp: obind_eq_Done split: option.splits)

lemma some_packet_eq: "some_packet m = Done (Some p) \<longleftrightarrow> m = Done p"
  by (auto simp: some_packet_def obind_eq_Done)

lemma parsed_typed:
  assumes "new_packets (header_type h) = Some f" "header_type h \<le> 14" "f h mem n = Done (Some p)"
  shows "well_typed p"
proof -
  consider "header_type h \<in> {0, 1, 8, 10}" | "header_type h = 2" | "header_type h = 3"
    | "header_type h \<in> {4, 5, 6, 7, 11}" | "header_type h = 9" | "header_type h \<in> {12, 13, 14}"
  proof -
    have "header_type h \<in> {0, 1, 8, 10} \<or> header_type h = 2 \<or> header_type h = 3
        \<or> header_type h \<in> {4, 5, 6, 7, 11} \<or> header_type h = 9 \<or> header_type h \<in> {12, 13, 14}"
      using assms(2) unfolding insert_iff empty_iff by presburger
    then show ?thesis
      using that by blast
  qed
  then show ?thesis
  proof cases
    case 1 then show ?thesis
      using assms(1) by (auto simp: new_packets_def)
  next
    case 2 then show ?thesis
      using assms(1,3) parser_header(1) [of h mem p] by (auto simp: new_packets_def some_packet_eq)
  next
    case 3 then show ?thesis
      using assms(1,3) parser_header(4) [of h mem n p] by (auto simp: new_packets_def)
  next
    case 4 then show ?thesis
      using assms(1,3) parser_header(2) [of h mem p] by (auto simp: new_packets_def some_packet_eq)
  next
    case 5 then show ?thesis
      using assms(1,3) parser_header(3) [of h mem n p] by (auto simp: new_packets_def some_packet_eq)
  next
    case 6 then show ?thesis
      using assms(1,3) by (auto simp: new_packets_def MQTTPacket_header_only_def)
  qed
qed

lemma factory_parsed:
  assumes "MQTTPacket_Factory ops n = Done (Some p, err, n')"
  obtains h f mem k where "header_type h \<le> 14" "new_packets (header_type h) = Some f" "f h mem k = Done (Some p)"
proof -
  obtain e1 h n1 where 1: "getch ops n = (e1, h, n1)"
    by (cases "getch ops n") auto
  obtain e2 len n2 where 2: "MQTTPacket_decode (getch ops) n1 = (e2, len, n2)"
    by (cases "MQTTPacket_decode (getch ops) n1") auto
  obtain mem len' n3 where 3: "getdata ops len n2 = ((mem, len'), n3)"
    by (cases "getdata ops len n2") auto
  have "\<not> (header_type h < msg_code CONNECT \<or> msg_code DISCONNECT < header_type h \<or> new_packets (header_type h) = None)
      \<and> the (new_packets (header_type h)) h (the mem) (nat len) = Done (Some p)"
    using assms unfolding MQTTPacket_Factory_def Let_def 1 2 3 prod.case
    by (cases mem) (auto simp: obind_eq_Done simp del: msg_code.simps split: if_splits option.splits)
  then show ?thesis
    using that [of h "the (new_packets (header_type h))" "the mem" "nat len"] by auto
qed

lemma factory_parsed_typed: "MQTTPacket_Factory ops n = Done (Some p, err, n') \<Longrightarrow> well_typed p"
  by (erule factory_parsed, rule parsed_typed)

text \<open>
  C24: Type safety of received packets.  Whatever the network delivers, a packet that
  \<open>MQTTPacket_Factory\<close> returns is the structure its header says: the casts by packet type in the
  dispatcher and in the handlers never read a block of another structure.
\<close>

theorem factory_typed:
  assumes "MQTTPacket_Factory ops n = Done (Some p, err, n')"
  shows "well_typed p"
  using assms by (rule factory_parsed_typed)

theorem factory_typed_witness:
  "well_typed (Ack \<lparr>ack_header = header_byte 6 False 1 False, ack_msgId = 513\<rparr>)"
  by (rule factory_typed
      [of pipe_ops "header_byte 6 False 1 False # encode_loop 2 @ [2, 1] @ []" _ TCPSOCKET_COMPLETE "[]"])
    (use pipe_factory [of "[2, 1]" "header_byte 6 False 1 False"
        "\<lambda>h mem n. some_packet (MQTTPacket_ack h mem)"
        "Ack \<lparr>ack_header = header_byte 6 False 1 False, ack_msgId = 513\<rparr>" "[]"] in
      \<open>simp add: take_bit_eq_mod new_packets_def some_packet_eq MQTTPacket_ack_def readInt_def\<close>)

text \<open>The packet the receive thread gets from a cycle is one of the four kinds it looks at itself.\<close>

lemma read_socket_typed:
  "read_socket E i st = Done (Some p, rc, st') \<Longrightarrow> well_typed p"
  unfolding read_socket_def
  by (auto simp: obind_eq_Done split: if_splits dest!: factory_parsed_typed)

lemma handle_flow_returns:
  assumes "handle_flow E m p (header_type (packet_header p)) sock rc st = Done (Some q, rc', st')"
  shows "q = p \<and> header_type (packet_header p) \<notin> msg_code ` {PUBLISH, PUBACK, PUBREC, PUBREL, PUBCOMP, PINGRESP}"
  using assms unfolding handle_flow_def Let_def
  by (cases p) (auto simp: obind_eq_Done split: if_splits option.splits)

theorem cycle_typed:
  assumes "MQTTAsync_cycle E timeout rc st = Done (Some p, sock, rc', st')"
  shows "case p of Connack c \<Rightarrow> header_type (connack_header c) = msg_code CONNACK
    | Suback s \<Rightarrow> header_type (suback_header s) = msg_code SUBACK
    | Ack a \<Rightarrow> header_type (ack_header a) = msg_code UNSUBACK
    | Header_only h \<Rightarrow> header_type h \<in> msg_code ` {PINGREQ, DISCONNECT}
    | Publish _ \<Rightarrow> False"
proof -
  have "well_typed p \<and> header_type (packet_header p) \<notin> msg_code ` {PUBLISH, PUBACK, PUBREC, PUBREL, PUBCOMP, PINGRESP}"
    using assms unfolding MQTTAsync_cycle_def Let_def
    by (auto simp: obind_eq_Done simp del: msg_code.simps split: if_splits option.splits prod.splits
        dest!: handle_flow_returns dest: read_socket_typed)
  then show ?thesis
    by (cases p) (auto simp: packet_header_def)
qed

end
