(* ===== verification/Rb_Tree.thy ===== *)
theory Rb_Tree
  imports Linked_List "HOL-Library.Tree"
begin

text \<open>
  The red-black tree of \<^verbatim>\<open>mqtt/source/Tree.c\<close> over an explicit store of nodes.  A \<open>Tree\<close> has up to two
  indexes, each with its own nodes and comparison function over the same contents.  The comparison
  takes a content and, chosen by its flag, a key (0, \<open>Inl\<close>) or a content (1, \<open>Inr\<close>).  The second
  element of the array \<open>child\<close> is \<open>child n RIGHT\<close>.  Reading a node that is not allocated is a fault, a
  loop that does not end and the call of \<open>exit\<close> are \<open>Stuck\<close>.
\<close>

section \<open>The data\<close>

abbreviation LEFT :: bool where "LEFT \<equiv> False"
abbreviation RIGHT :: bool where "RIGHT \<equiv> True"

record 'c tree_node =
  parent :: "addr option"
  child :: "bool \<Rightarrow> addr option"
  node_content :: "'c option"
  node_size :: int
  red :: bool

record ('c, 'k) tree_index =
  root :: "addr option"
  compare :: "'c \<Rightarrow> 'k + 'c \<Rightarrow> int"

record ('c, 'k) rb_tree =
  tree_nodes :: "addr \<rightharpoonup> 'c tree_node"
  index :: "('c, 'k) tree_index list"
  indexes :: nat
  tree_count :: int
  tree_size :: int
  heap_tracking :: bool
  allow_duplicates :: bool

definition tree_node_at :: "addr option \<Rightarrow> ('c, 'k) rb_tree \<Rightarrow> 'c tree_node outcome" where
  "tree_node_at p T = (case p of None \<Rightarrow> Fault | Some a \<Rightarrow>
     (case tree_nodes T a of None \<Rightarrow> Fault | Some n \<Rightarrow> Done n))"

definition set_tree_node :: "addr option \<Rightarrow> ('c tree_node \<Rightarrow> 'c tree_node) \<Rightarrow> ('c, 'k) rb_tree \<Rightarrow> ('c, 'k) rb_tree outcome" where
  "set_tree_node p f T = obind (tree_node_at p T) (\<lambda>n. Done (T\<lparr>tree_nodes := (tree_nodes T)(the p \<mapsto> f n)\<rparr>))"

definition parent_of :: "addr option \<Rightarrow> ('c, 'k) rb_tree \<Rightarrow> addr option outcome" where
  "parent_of p T = obind (tree_node_at p T) (\<lambda>n. Done (parent n))"

definition child_of :: "addr option \<Rightarrow> bool \<Rightarrow> ('c, 'k) rb_tree \<Rightarrow> addr option outcome" where
  "child_of p d T = obind (tree_node_at p T) (\<lambda>n. Done (child n d))"

definition set_child :: "addr option \<Rightarrow> bool \<Rightarrow> addr option \<Rightarrow> ('c, 'k) rb_tree \<Rightarrow> ('c, 'k) rb_tree outcome" where
  "set_child p d q T = set_tree_node p (\<lambda>n. n\<lparr>child := (child n)(d := q)\<rparr>) T"

definition set_parent :: "addr option \<Rightarrow> addr option \<Rightarrow> ('c, 'k) rb_tree \<Rightarrow> ('c, 'k) rb_tree outcome" where
  "set_parent p q T = set_tree_node p (\<lambda>n. n\<lparr>parent := q\<rparr>) T"

definition set_red :: "addr option \<Rightarrow> bool \<Rightarrow> ('c, 'k) rb_tree \<Rightarrow> ('c, 'k) rb_tree outcome" where
  "set_red p r T = set_tree_node p (\<lambda>n. n\<lparr>red := r\<rparr>) T"

definition root_of :: "nat \<Rightarrow> ('c, 'k) rb_tree \<Rightarrow> addr option" where
  "root_of i T = root (index T ! i)"

definition set_root :: "nat \<Rightarrow> addr option \<Rightarrow> ('c, 'k) rb_tree \<Rightarrow> ('c, 'k) rb_tree" where
  "set_root i p T = T\<lparr>index := (index T)[i := (index T ! i)\<lparr>root := p\<rparr>]\<rparr>"

text \<open>Calling the comparison function of an index on the content of a node.\<close>

definition compare_at :: "nat \<Rightarrow> addr option \<Rightarrow> 'k + 'c \<Rightarrow> ('c, 'k) rb_tree \<Rightarrow> int outcome" where
  "compare_at i p v T = obind (tree_node_at p T) (\<lambda>n.
     case node_content n of None \<Rightarrow> Fault | Some c \<Rightarrow> Done (compare (index T ! i) c v))"

section \<open>Creating a tree\<close>

definition TreeInitializeNoMalloc :: "('c \<Rightarrow> 'k + 'c \<Rightarrow> int) \<Rightarrow> ('c, 'k) rb_tree" where
  "TreeInitializeNoMalloc cmp =
     \<lparr>tree_nodes = Map.empty,
      index = [\<lparr>root = None, compare = cmp\<rparr>, \<lparr>root = None, compare = \<lambda>_ _. 0\<rparr>],
      indexes = 1, tree_count = 0, tree_size = 0, heap_tracking = True, allow_duplicates = False\<rparr>"

definition TreeInitialize :: "('c \<Rightarrow> 'k + 'c \<Rightarrow> int) \<Rightarrow> ('c, 'k) rb_tree" where
  "TreeInitialize cmp = TreeInitializeNoMalloc cmp"

definition TreeAddIndex :: "('c \<Rightarrow> 'k + 'c \<Rightarrow> int) \<Rightarrow> ('c, 'k) rb_tree \<Rightarrow> ('c, 'k) rb_tree outcome" where
  "TreeAddIndex cmp T =
     check (indexes T < length (index T))
       (Done (T\<lparr>index := (index T)[indexes T := (index T ! indexes T)\<lparr>compare := cmp\<rparr>], indexes := indexes T + 1\<rparr>))"

section \<open>Colours and depth\<close>

definition isRed :: "addr option \<Rightarrow> ('c, 'k) rb_tree \<Rightarrow> bool outcome" where
  "isRed p T = (if p = None then Done False else obind (tree_node_at p T) (\<lambda>n. Done (red n)))"

definition isBlack :: "addr option \<Rightarrow> ('c, 'k) rb_tree \<Rightarrow> bool outcome" where
  "isBlack p T = (if p = None then Done True else obind (tree_node_at p T) (\<lambda>n. Done (\<not> red n)))"

partial_function (option) walk_loop :: "('c, 'k) rb_tree \<Rightarrow> addr option \<Rightarrow> int \<Rightarrow> int outcome option" where
  "walk_loop T curnode depth =
     (if curnode = None then Some (Done depth)
      else case tree_node_at curnode T of
        Done n \<Rightarrow>
          Option.bind (walk_loop T (child n LEFT) (depth + 1)) (\<lambda>l.
          Option.bind (walk_loop T (child n RIGHT) (depth + 1)) (\<lambda>r.
          Some (obind l (\<lambda>lchild. obind r (\<lambda>rchild. Done (if lchild > rchild then lchild else rchild))))))
      | Stuck \<Rightarrow> Some Stuck | Fault \<Rightarrow> Some Fault)"

definition TreeWalk :: "('c, 'k) rb_tree \<Rightarrow> addr option \<Rightarrow> int \<Rightarrow> int outcome" where
  "TreeWalk T curnode depth = run_loop (walk_loop T curnode depth)"

definition TreeMaxDepth :: "('c, 'k) rb_tree \<Rightarrow> int outcome" where
  "TreeMaxDepth T = TreeWalk T (root_of 0 T) 0"

section \<open>Adding\<close>

definition TreeRotate :: "addr option \<Rightarrow> bool \<Rightarrow> nat \<Rightarrow> ('c, 'k) rb_tree \<Rightarrow> ('c, 'k) rb_tree outcome" where
  "TreeRotate curnode direction i T =
     obind (child_of curnode (\<not> direction) T) (\<lambda>other.
     obind (child_of other direction T) (\<lambda>inner.
     obind (set_child curnode (\<not> direction) inner T) (\<lambda>T.
     obind (child_of other direction T) (\<lambda>inner.
     obind (if inner \<noteq> None then set_parent inner curnode T else Done T) (\<lambda>T.
     obind (parent_of curnode T) (\<lambda>up.
     obind (set_parent other up T) (\<lambda>T.
     obind (parent_of curnode T) (\<lambda>up.
     obind (if up = None then Done (set_root i other T)
            else obind (child_of up direction T) (\<lambda>same.
              if curnode = same then set_child up direction other T
              else set_child up (\<not> direction) other T)) (\<lambda>T.
     obind (set_child other direction curnode T) (\<lambda>T.
     set_parent curnode other T))))))))))"

definition TreeBAASub :: "addr option \<Rightarrow> bool \<Rightarrow> nat \<Rightarrow> ('c, 'k) rb_tree \<Rightarrow> (addr option \<times> ('c, 'k) rb_tree) outcome" where
  "TreeBAASub curnode which i T =
     obind (parent_of curnode T) (\<lambda>up.
     obind (parent_of up T) (\<lambda>upup.
     obind (child_of upup which T) (\<lambda>uncle.
     obind (isRed uncle T) (\<lambda>r.
     if r then
       obind (set_red uncle False T) (\<lambda>T.
       obind (set_red up False T) (\<lambda>T.
       obind (parent_of curnode T) (\<lambda>up.
       obind (parent_of up T) (\<lambda>curnode.
       obind (set_red curnode True T) (\<lambda>T. Done (curnode, T))))))
     else
       obind (child_of up which T) (\<lambda>inner.
       obind (if curnode = inner then obind (TreeRotate up (\<not> which) i T) (\<lambda>T. Done (up, T))
              else Done (curnode, T)) (\<lambda>(curnode, T).
       obind (parent_of curnode T) (\<lambda>up.
       obind (set_red up False T) (\<lambda>T.
       obind (parent_of up T) (\<lambda>upup.
       obind (set_red upup True T) (\<lambda>T.
       obind (TreeRotate upup which i T) (\<lambda>T. Done (curnode, T))))))))))))"

text \<open>The condition and the body of the loop of \<open>TreeBalanceAfterAdd\<close>.\<close>

definition add_unbalanced :: "addr option \<Rightarrow> ('c, 'k) rb_tree \<Rightarrow> bool outcome" where
  "add_unbalanced curnode T =
     (if curnode = None then Done False
      else obind (parent_of curnode T) (\<lambda>up.
           obind (isRed up T) (\<lambda>r.
           if \<not> r then Done False else obind (parent_of up T) (\<lambda>upup. Done (upup \<noteq> None)))))"

definition balance_add_step :: "addr option \<Rightarrow> nat \<Rightarrow> ('c, 'k) rb_tree \<Rightarrow> (addr option \<times> ('c, 'k) rb_tree) outcome" where
  "balance_add_step curnode i T =
     obind (parent_of curnode T) (\<lambda>up.
     obind (parent_of up T) (\<lambda>upup.
     obind (child_of upup LEFT T) (\<lambda>lchild.
     if up = lchild then TreeBAASub curnode RIGHT i T else TreeBAASub curnode LEFT i T)))"

partial_function (option) balance_add_loop :: "addr option \<Rightarrow> nat \<Rightarrow> ('c, 'k) rb_tree \<Rightarrow> ('c, 'k) rb_tree outcome option" where
  "balance_add_loop curnode i T =
     (case add_unbalanced curnode T of
        Done b \<Rightarrow>
          if \<not> b then Some (Done T)
          else (case balance_add_step curnode i T of
                  Done (curnode, T) \<Rightarrow> balance_add_loop curnode i T
                | Stuck \<Rightarrow> Some Stuck | Fault \<Rightarrow> Some Fault)
      | Stuck \<Rightarrow> Some Stuck | Fault \<Rightarrow> Some Fault)"

definition TreeBalanceAfterAdd :: "addr option \<Rightarrow> nat \<Rightarrow> ('c, 'k) rb_tree \<Rightarrow> ('c, 'k) rb_tree outcome" where
  "TreeBalanceAfterAdd curnode i T =
     obind (run_loop (balance_add_loop curnode i T)) (\<lambda>T. set_red (root_of i T) False T)"

text \<open>
  Going down to the content or to the place for it: the last node and its parent, the result of the
  last comparison and the side taken.
\<close>

partial_function (option) add_search ::
    "nat \<Rightarrow> 'c \<Rightarrow> ('c, 'k) rb_tree \<Rightarrow> addr option \<Rightarrow> addr option \<Rightarrow> int \<Rightarrow> bool
      \<Rightarrow> (addr option \<times> addr option \<times> int \<times> bool) outcome option" where
  "add_search i c T curparent curnode result side =
     (if curnode = None then Some (Done (curparent, curnode, result, side))
      else case compare_at i curnode (Inr c) T of
        Done result \<Rightarrow>
          let side = (result > 0) in
          if result = 0 then Some (Done (curparent, curnode, result, side))
          else (case child_of curnode side T of
                  Done next_node \<Rightarrow> add_search i c T curnode next_node result side
                | Stuck \<Rightarrow> Some Stuck | Fault \<Rightarrow> Some Fault)
      | Stuck \<Rightarrow> Some Stuck | Fault \<Rightarrow> Some Fault)"

definition zero_node :: "'c tree_node" where
  "zero_node = \<lparr>parent = None, child = \<lambda>_. None, node_content = None, node_size = 0, red = False\<rparr>"

text \<open>\<open>new\<close> is the address \<open>malloc\<close> gives to a new node.\<close>

definition TreeAddByIndex ::
    "addr \<Rightarrow> 'c \<Rightarrow> int \<Rightarrow> nat \<Rightarrow> ('c, 'k) rb_tree \<Rightarrow> ('c option \<times> ('c, 'k) rb_tree) outcome" where
  "TreeAddByIndex new c sz i T =
     check (i < length (index T))
     (obind (run_loop (add_search i c T None (root_of i T) 1 False)) (\<lambda>(curparent, curnode, result, side).
      obind
        (if result = 0 then
           (if allow_duplicates T then Stuck
            else obind (tree_node_at curnode T) (\<lambda>n.
                 Done (curnode, node_content n, if i = 0 then T\<lparr>tree_size := tree_size T + (sz - node_size n)\<rparr> else T)))
         else
           let T = T\<lparr>tree_nodes := (tree_nodes T)(new \<mapsto> zero_node)\<rparr> in
           obind (if curparent \<noteq> None then set_child curparent side (Some new) T
                  else Done (set_root i (Some new) T)) (\<lambda>T.
           obind (set_parent (Some new) curparent T) (\<lambda>T.
           obind (set_red (Some new) True T) (\<lambda>T.
           Done (Some new, None,
             if i = 0 then T\<lparr>tree_count := tree_count T + 1, tree_size := tree_size T + sz\<rparr> else T)))))
        (\<lambda>(newel, rc, T).
      obind (set_tree_node newel (\<lambda>n. n\<lparr>node_content := Some c, node_size := sz\<rparr>) T) (\<lambda>T.
      obind (TreeBalanceAfterAdd newel i T) (\<lambda>T. Done (rc, T))))))"

primrec add_indexes :: "(nat \<Rightarrow> addr) \<Rightarrow> 'c \<Rightarrow> int \<Rightarrow> nat list \<Rightarrow> 'c option \<Rightarrow> ('c, 'k) rb_tree
    \<Rightarrow> ('c option \<times> ('c, 'k) rb_tree) outcome" where
  "add_indexes new c sz [] rc T = Done (rc, T)"
| "add_indexes new c sz (i # is) rc T =
     obind (TreeAddByIndex (new i) c sz i T) (\<lambda>(rc, T). add_indexes new c sz is rc T)"

definition TreeAdd :: "(nat \<Rightarrow> addr) \<Rightarrow> 'c \<Rightarrow> int \<Rightarrow> ('c, 'k) rb_tree \<Rightarrow> ('c option \<times> ('c, 'k) rb_tree) outcome" where
  "TreeAdd new c sz T = add_indexes new c sz [0..<indexes T] None T"

section \<open>Searching and walking\<close>

partial_function (option) find_node :: "nat \<Rightarrow> 'k + 'c \<Rightarrow> ('c, 'k) rb_tree \<Rightarrow> addr option \<Rightarrow> addr option outcome option" where
  "find_node i v T curnode =
     (if curnode = None then Some (Done curnode)
      else case compare_at i curnode v T of
        Done result \<Rightarrow>
          if result = 0 then Some (Done curnode)
          else (case child_of curnode (result > 0) T of
                  Done next_node \<Rightarrow> find_node i v T next_node
                | Stuck \<Rightarrow> Some Stuck | Fault \<Rightarrow> Some Fault)
      | Stuck \<Rightarrow> Some Stuck | Fault \<Rightarrow> Some Fault)"

definition TreeFindIndex1 :: "'k + 'c \<Rightarrow> nat \<Rightarrow> ('c, 'k) rb_tree \<Rightarrow> addr option outcome" where
  "TreeFindIndex1 v i T = check (i < length (index T)) (run_loop (find_node i v T (root_of i T)))"

definition TreeFindIndex :: "'k \<Rightarrow> nat \<Rightarrow> ('c, 'k) rb_tree \<Rightarrow> addr option outcome" where
  "TreeFindIndex key i T = TreeFindIndex1 (Inl key) i T"

definition TreeFindContentIndex :: "'c \<Rightarrow> nat \<Rightarrow> ('c, 'k) rb_tree \<Rightarrow> addr option outcome" where
  "TreeFindContentIndex c i T = TreeFindIndex1 (Inr c) i T"

definition TreeFind :: "'k \<Rightarrow> ('c, 'k) rb_tree \<Rightarrow> addr option outcome" where
  "TreeFind key T = TreeFindIndex key 0 T"

partial_function (option) minimum_loop :: "('c, 'k) rb_tree \<Rightarrow> addr option \<Rightarrow> addr option outcome option" where
  "minimum_loop T curnode =
     (case child_of curnode LEFT T of
        Done lchild \<Rightarrow> if lchild = None then Some (Done curnode) else minimum_loop T lchild
      | Stuck \<Rightarrow> Some Stuck | Fault \<Rightarrow> Some Fault)"

definition TreeMinimum :: "addr option \<Rightarrow> ('c, 'k) rb_tree \<Rightarrow> addr option outcome" where
  "TreeMinimum curnode T = (if curnode = None then Done None else run_loop (minimum_loop T curnode))"

partial_function (option) climb_loop :: "('c, 'k) rb_tree \<Rightarrow> addr option \<Rightarrow> addr option \<Rightarrow> addr option outcome option" where
  "climb_loop T curnode curparent =
     (if curparent = None then Some (Done curparent)
      else case child_of curparent RIGHT T of
        Done rchild \<Rightarrow>
          if curnode \<noteq> rchild then Some (Done curparent)
          else (case parent_of curparent T of
                  Done up \<Rightarrow> climb_loop T curparent up
                | Stuck \<Rightarrow> Some Stuck | Fault \<Rightarrow> Some Fault)
      | Stuck \<Rightarrow> Some Stuck | Fault \<Rightarrow> Some Fault)"

definition TreeSuccessor :: "addr option \<Rightarrow> ('c, 'k) rb_tree \<Rightarrow> addr option outcome" where
  "TreeSuccessor curnode T =
     obind (child_of curnode RIGHT T) (\<lambda>rchild.
     if rchild \<noteq> None then TreeMinimum rchild T
     else obind (parent_of curnode T) (\<lambda>curparent. run_loop (climb_loop T curnode curparent)))"

definition TreeNextElementIndex :: "addr option \<Rightarrow> nat \<Rightarrow> ('c, 'k) rb_tree \<Rightarrow> addr option outcome" where
  "TreeNextElementIndex curnode i T =
     (if curnode = None then check (i < length (index T)) (TreeMinimum (root_of i T) T)
      else TreeSuccessor curnode T)"

definition TreeNextElement :: "addr option \<Rightarrow> ('c, 'k) rb_tree \<Rightarrow> addr option outcome" where
  "TreeNextElement curnode T = TreeNextElementIndex curnode 0 T"

section \<open>Removing\<close>

text \<open>
  The two halves of \<open>TreeBARSub\<close>: a red sibling is rotated away, and then the cases of the children
  of the sibling.
\<close>

definition bar_red_sibling ::
    "addr option \<Rightarrow> bool \<Rightarrow> nat \<Rightarrow> addr option \<Rightarrow> addr option \<Rightarrow> ('c, 'k) rb_tree \<Rightarrow> (addr option \<times> ('c, 'k) rb_tree) outcome" where
  "bar_red_sibling curnode which i up sibling T =
     obind (set_red sibling False T) (\<lambda>T.
     obind (set_red up True T) (\<lambda>T.
     obind (TreeRotate up (\<not> which) i T) (\<lambda>T.
     obind (parent_of curnode T) (\<lambda>up.
     obind (child_of up which T) (\<lambda>sibling. Done (sibling, T))))))"

definition bar_red_inner ::
    "addr option \<Rightarrow> bool \<Rightarrow> nat \<Rightarrow> addr option \<Rightarrow> addr option \<Rightarrow> ('c, 'k) rb_tree \<Rightarrow> (addr option \<times> ('c, 'k) rb_tree) outcome" where
  "bar_red_inner curnode which i inner sibling T =
     obind (set_red inner False T) (\<lambda>T.
     obind (set_red sibling True T) (\<lambda>T.
     obind (TreeRotate sibling which i T) (\<lambda>T.
     obind (parent_of curnode T) (\<lambda>up.
     obind (child_of up which T) (\<lambda>sibling. Done (sibling, T))))))"

definition bar_red_outer ::
    "addr option \<Rightarrow> bool \<Rightarrow> nat \<Rightarrow> addr option \<Rightarrow> ('c, 'k) rb_tree \<Rightarrow> (addr option \<times> ('c, 'k) rb_tree) outcome" where
  "bar_red_outer curnode which i sibling T =
     obind (parent_of curnode T) (\<lambda>up.
     obind (tree_node_at up T) (\<lambda>n.
     obind (set_red sibling (red n) T) (\<lambda>T.
     obind (set_red up False T) (\<lambda>T.
     obind (child_of sibling which T) (\<lambda>outer.
     obind (set_red outer False T) (\<lambda>T.
     obind (TreeRotate up (\<not> which) i T) (\<lambda>T.
     Done (root_of i T, T))))))))"

definition bar_black_sibling ::
    "addr option \<Rightarrow> bool \<Rightarrow> nat \<Rightarrow> addr option \<Rightarrow> ('c, 'k) rb_tree \<Rightarrow> (addr option \<times> ('c, 'k) rb_tree) outcome" where
  "bar_black_sibling curnode which i sibling T =
     (if sibling = None then obind (parent_of curnode T) (\<lambda>up. Done (up, T))
      else
        obind (child_of sibling (\<not> which) T) (\<lambda>inner.
        obind (isBlack inner T) (\<lambda>inner_black.
        obind (child_of sibling which T) (\<lambda>outer.
        obind (isBlack outer T) (\<lambda>outer_black.
        if inner_black \<and> outer_black then
          obind (set_red sibling True T) (\<lambda>T.
          obind (parent_of curnode T) (\<lambda>up. Done (up, T)))
        else
          obind (if outer_black then bar_red_inner curnode which i inner sibling T else Done (sibling, T)) (\<lambda>(sibling, T).
          bar_red_outer curnode which i sibling T))))))"

definition TreeBARSub :: "addr option \<Rightarrow> bool \<Rightarrow> nat \<Rightarrow> ('c, 'k) rb_tree \<Rightarrow> (addr option \<times> ('c, 'k) rb_tree) outcome" where
  "TreeBARSub curnode which i T =
     obind (parent_of curnode T) (\<lambda>up.
     obind (child_of up which T) (\<lambda>sibling.
     obind (isRed sibling T) (\<lambda>r.
     obind (if r then bar_red_sibling curnode which i up sibling T else Done (sibling, T)) (\<lambda>(sibling, T).
     bar_black_sibling curnode which i sibling T))))"

definition balance_remove_step :: "addr option \<Rightarrow> nat \<Rightarrow> ('c, 'k) rb_tree \<Rightarrow> (addr option \<times> ('c, 'k) rb_tree) outcome" where
  "balance_remove_step curnode i T =
     obind (tree_node_at curnode T) (\<lambda>n.
     obind (child_of (parent n) LEFT T) (\<lambda>lchild.
     if (if node_content n \<noteq> None then curnode else None) = lchild then TreeBARSub curnode RIGHT i T
     else TreeBARSub curnode LEFT i T))"

partial_function (option) balance_remove_loop :: "addr option \<Rightarrow> nat \<Rightarrow> ('c, 'k) rb_tree
    \<Rightarrow> (addr option \<times> ('c, 'k) rb_tree) outcome option" where
  "balance_remove_loop curnode i T =
     (if curnode = root_of i T then Some (Done (curnode, T))
      else case isBlack curnode T of
        Done b \<Rightarrow>
          if \<not> b then Some (Done (curnode, T))
          else (case balance_remove_step curnode i T of
                  Done (curnode, T) \<Rightarrow> balance_remove_loop curnode i T
                | Stuck \<Rightarrow> Some Stuck | Fault \<Rightarrow> Some Fault)
      | Stuck \<Rightarrow> Some Stuck | Fault \<Rightarrow> Some Fault)"

definition TreeBalanceAfterRemove :: "addr option \<Rightarrow> nat \<Rightarrow> ('c, 'k) rb_tree \<Rightarrow> ('c, 'k) rb_tree outcome" where
  "TreeBalanceAfterRemove curnode i T =
     obind (run_loop (balance_remove_loop curnode i T)) (\<lambda>(curnode, T). set_red curnode False T)"

text \<open>
  \<open>temp\<close> is the address of the local variable that stands for a removed leaf while the tree is
  rebalanced.
\<close>

definition TreeRemoveNodeIndex ::
    "addr \<Rightarrow> addr option \<Rightarrow> nat \<Rightarrow> ('c, 'k) rb_tree \<Rightarrow> ('c option \<times> ('c, 'k) rb_tree) outcome" where
  "TreeRemoveNodeIndex temp curnode i T =
     check (i < length (index T))
     (obind (tree_node_at curnode T) (\<lambda>n.
      obind (if child n LEFT \<noteq> None \<and> child n RIGHT \<noteq> None then TreeSuccessor curnode T else Done curnode) (\<lambda>redundant.
      obind (child_of redundant LEFT T) (\<lambda>lchild.
      obind (child_of redundant (if lchild \<noteq> None then LEFT else RIGHT) T) (\<lambda>curchild.
      obind (parent_of redundant T) (\<lambda>up.
      obind (if curchild \<noteq> None then set_parent curchild up T else Done T) (\<lambda>T.
      obind (if up = None then Done (set_root i curchild T)
             else obind (child_of up LEFT T) (\<lambda>lchild.
               if redundant = lchild then set_child up LEFT curchild T else set_child up RIGHT curchild T)) (\<lambda>T.
      obind (if redundant \<noteq> curnode then
               obind (tree_node_at redundant T) (\<lambda>m.
               set_tree_node curnode (\<lambda>n. n\<lparr>node_content := node_content m, node_size := node_size m\<rparr>) T)
             else Done T) (\<lambda>T.
      obind (isBlack redundant T) (\<lambda>b.
      obind (if \<not> b then Done T
             else if curchild = None then
               obind (parent_of redundant T) (\<lambda>up.
               if up = None then Done T
               else
                 let T = T\<lparr>tree_nodes := (tree_nodes T)(temp \<mapsto> zero_node\<lparr>parent := up\<rparr>)\<rparr> in
                 obind (TreeBalanceAfterRemove (Some temp) i T) (\<lambda>T.
                 Done (T\<lparr>tree_nodes := (tree_nodes T)(temp := None)\<rparr>)))
             else TreeBalanceAfterRemove curchild i T) (\<lambda>T.
      let T = T\<lparr>tree_nodes := (tree_nodes T)(the redundant := None)\<rparr> in
      Done (node_content n,
        if i = 0 then T\<lparr>tree_size := tree_size T - node_size n, tree_count := tree_count T - 1\<rparr> else T))))))))))))"

definition TreeRemoveIndex :: "addr \<Rightarrow> 'c \<Rightarrow> nat \<Rightarrow> ('c, 'k) rb_tree \<Rightarrow> ('c option \<times> ('c, 'k) rb_tree) outcome" where
  "TreeRemoveIndex temp c i T =
     obind (TreeFindContentIndex c i T) (\<lambda>curnode.
     if curnode = None then Done (None, T) else TreeRemoveNodeIndex temp curnode i T)"

primrec remove_indexes :: "addr \<Rightarrow> 'c \<Rightarrow> nat list \<Rightarrow> 'c option \<Rightarrow> ('c, 'k) rb_tree
    \<Rightarrow> ('c option \<times> ('c, 'k) rb_tree) outcome" where
  "remove_indexes temp c [] rc T = Done (rc, T)"
| "remove_indexes temp c (i # is) rc T =
     obind (TreeRemoveIndex temp c i T) (\<lambda>(rc, T). remove_indexes temp c is rc T)"

definition TreeRemove :: "addr \<Rightarrow> 'c \<Rightarrow> ('c, 'k) rb_tree \<Rightarrow> ('c option \<times> ('c, 'k) rb_tree) outcome" where
  "TreeRemove temp c T = remove_indexes temp c [0..<indexes T] None T"

text \<open>
  Removing by a key: the content found in one index is looked for in the others; the content of the
  last removal is what the next one looks for.
\<close>

primrec remove_other_indexes :: "addr \<Rightarrow> nat \<Rightarrow> nat list \<Rightarrow> 'c option \<Rightarrow> ('c, 'k) rb_tree
    \<Rightarrow> ('c option \<times> ('c, 'k) rb_tree) outcome" where
  "remove_other_indexes temp k [] c T = Done (c, T)"
| "remove_other_indexes temp k (i # is) c T =
     (if i = k then remove_other_indexes temp k is c T
      else case c of None \<Rightarrow> if root_of i T = None then remove_other_indexes temp k is None T else Fault
        | Some x \<Rightarrow> obind (TreeRemoveIndex temp x i T) (\<lambda>(c, T). remove_other_indexes temp k is c T))"

definition TreeRemoveKeyIndex :: "addr \<Rightarrow> 'k \<Rightarrow> nat \<Rightarrow> ('c, 'k) rb_tree \<Rightarrow> ('c option \<times> ('c, 'k) rb_tree) outcome" where
  "TreeRemoveKeyIndex temp key i T =
     obind (TreeFindIndex key i T) (\<lambda>curnode.
     if curnode = None then Done (None, T)
     else obind (TreeRemoveNodeIndex temp curnode i T) (\<lambda>(c, T).
       remove_other_indexes temp i [0..<indexes T] c T))"

definition TreeRemoveKey :: "addr \<Rightarrow> 'k \<Rightarrow> ('c, 'k) rb_tree \<Rightarrow> ('c option \<times> ('c, 'k) rb_tree) outcome" where
  "TreeRemoveKey temp key T = TreeRemoveKeyIndex temp key 0 T"

section \<open>The comparison functions\<close>

definition TreeIntCompare :: "int \<Rightarrow> int + int \<Rightarrow> int" where
  "TreeIntCompare a v = (let b = (case v of Inl k \<Rightarrow> k | Inr c \<Rightarrow> c) in if a > b then -1 else if a = b then 0 else 1)"

definition TreePtrCompare :: "addr \<Rightarrow> addr + addr \<Rightarrow> int" where
  "TreePtrCompare a v = (let b = (case v of Inl k \<Rightarrow> k | Inr c \<Rightarrow> c) in if a > b then -1 else if a = b then 0 else 1)"

text \<open>\<open>strcmp\<close> on the bytes before the terminator; only the sign of its result is specified.\<close>

fun strcmp :: "u8 list \<Rightarrow> u8 list \<Rightarrow> int" where
  "strcmp [] [] = 0"
| "strcmp [] (b # bs) = -1"
| "strcmp (a # as) [] = 1"
| "strcmp (a # as) (b # bs) = (if a < b then -1 else if a > b then 1 else strcmp as bs)"

definition TreeStringCompare :: "u8 list \<Rightarrow> u8 list + u8 list \<Rightarrow> int" where
  "TreeStringCompare a v = strcmp a (case v of Inl k \<Rightarrow> k | Inr c \<Rightarrow> c)"

end
