(* ===== verification/Rb_Shape.thy ===== *)
theory Rb_Shape
  imports Rb_Tree
begin

text \<open>
  The tree that the linked nodes of \<^verbatim>\<open>mqtt/source/Tree.c\<close> stand for, at a position of it: the subtree
  below the position and the path above it.
\<close>

section \<open>Trees and positions\<close>

text \<open>A node of the tree: its address, colour, content and size.\<close>

type_synonym 'c cell = "addr \<times> bool \<times> 'c \<times> int"
type_synonym 'c path = "(bool \<times> 'c cell \<times> 'c cell tree) list"

definition nd :: "bool \<Rightarrow> 'a tree \<Rightarrow> 'a \<Rightarrow> 'a tree \<Rightarrow> 'a tree" where
  "nd d l x r = (if d then Node r x l else Node l x r)"

definition kid :: "bool \<Rightarrow> addr option \<Rightarrow> addr option \<Rightarrow> bool \<Rightarrow> addr option" where
  "kid d p q = (\<lambda>e. if e = d then p else q)"

definition mk :: "addr option \<Rightarrow> (bool \<Rightarrow> addr option) \<Rightarrow> bool \<Rightarrow> 'c \<Rightarrow> int \<Rightarrow> 'c tree_node" where
  "mk up ch r c s = \<lparr>parent = up, child = ch, node_content = Some c, node_size = s, red = r\<rparr>"

fun ptr :: "'c cell tree \<Rightarrow> addr option" where
  "ptr Leaf = None"
| "ptr (Node l (a, _) r) = Some a"

fun par_of :: "'c path \<Rightarrow> addr option" where
  "par_of [] = None"
| "par_of ((d, (a, _), s) # k) = Some a"

fun shape :: "(addr \<rightharpoonup> 'c tree_node) \<Rightarrow> addr option \<Rightarrow> 'c cell tree \<Rightarrow> bool" where
  "shape h up Leaf \<longleftrightarrow> True"
| "shape h up (Node l (a, r, c, s) t) \<longleftrightarrow>
     h a = Some (mk up (kid LEFT (ptr l) (ptr t)) r c s) \<and> shape h (Some a) l \<and> shape h (Some a) t"

fun around :: "(addr \<rightharpoonup> 'c tree_node) \<Rightarrow> addr option \<Rightarrow> addr option \<Rightarrow> 'c path \<Rightarrow> bool" where
  "around h rt p [] \<longleftrightarrow> rt = p"
| "around h rt p ((d, (a, r, c, s), sib) # k) \<longleftrightarrow>
     h a = Some (mk (par_of k) (kid d p (ptr sib)) r c s) \<and> shape h (Some a) sib \<and> around h rt (Some a) k"

fun plug :: "'c path \<Rightarrow> 'c cell tree \<Rightarrow> 'c cell tree" where
  "plug [] t = t"
| "plug ((d, x, sib) # k) t = plug k (nd d t x sib)"

definition addrs :: "'c cell tree \<Rightarrow> addr list" where
  "addrs t = map fst (inorder t)"

fun path_addrs :: "'c path \<Rightarrow> addr list" where
  "path_addrs [] = []"
| "path_addrs ((d, x, sib) # k) = fst x # addrs sib @ path_addrs k"

definition at :: "('c, 'k) rb_tree \<Rightarrow> nat \<Rightarrow> 'c path \<Rightarrow> 'c cell tree \<Rightarrow> bool" where
  "at T i k t \<longleftrightarrow> i < length (index T) \<and> around (tree_nodes T) (root_of i T) (ptr t) k
     \<and> shape (tree_nodes T) (par_of k) t \<and> distinct (addrs t @ path_addrs k)"

section \<open>Generic facts\<close>

lemma addrs_simps [simp]:
  "addrs Leaf = []" "addrs (Node l x r) = addrs l @ fst x # addrs r"
  by (simp_all add: addrs_def)

lemma set_addrs_nd [simp]: "set (addrs (nd d l x r)) = insert (fst x) (set (addrs l) \<union> set (addrs r))"
  by (auto simp: nd_def)

lemma distinct_nd [simp]: "distinct (addrs (nd d l x r)) \<longleftrightarrow>
    distinct (addrs l) \<and> distinct (addrs r) \<and> fst x \<notin> set (addrs l) \<and> fst x \<notin> set (addrs r)
    \<and> set (addrs l) \<inter> set (addrs r) = {}"
  by (auto simp: nd_def)

lemma kid_simps [simp]:
  "kid d p q d = p" "kid d p q (\<not> d) = q" "kid (\<not> d) p q d = q"
  "(kid d p q)(d := x) = kid d x q" "(kid d p q)((\<not> d) := x) = kid d p x"
  "(kid (\<not> d) p q)(d := x) = kid (\<not> d) p x"
  by (auto simp: kid_def fun_eq_iff)

lemma kid_sides [simp]:
  "kid LEFT p q RIGHT = q" "kid RIGHT p q LEFT = q"
  "(kid LEFT p q)(RIGHT := x) = kid LEFT p x" "(kid RIGHT p q)(LEFT := x) = kid RIGHT p x"
  by (auto simp: kid_def fun_eq_iff)

lemma kid_flip: "kid (\<not> d) p q = kid d q p"
  by (auto simp: kid_def fun_eq_iff)

lemma mk_simps [simp]:
  "parent (mk up ch r c s) = up" "child (mk up ch r c s) = ch" "node_content (mk up ch r c s) = Some c"
  "node_size (mk up ch r c s) = s" "red (mk up ch r c s) = r"
  "(mk up ch r c s)\<lparr>parent := x\<rparr> = mk x ch r c s" "(mk up ch r c s)\<lparr>child := y\<rparr> = mk up y r c s"
  "(mk up ch r c s)\<lparr>red := z\<rparr> = mk up ch z c s"
  "(mk up ch r c s)\<lparr>node_content := Some c', node_size := s'\<rparr> = mk up ch r c' s'"
  by (simp_all add: mk_def)

lemma ptr_nd [simp]: "ptr (nd d l (a, x) r) = Some a" "ptr (nd d l y r) = Some (fst y)"
  by (simp add: nd_def, cases y, simp add: nd_def)

lemma nd_not_Leaf [simp]: "nd d l x r \<noteq> Leaf" "Leaf \<noteq> nd d l x r"
  by (auto simp: nd_def)

lemma nd_cases [case_names Leaf nd]:
  "(t = Leaf \<Longrightarrow> P) \<Longrightarrow> (\<And>l a r c s u. t = nd d l (a, r, c, s) u \<Longrightarrow> P) \<Longrightarrow> P"
  by (cases t; cases d) (auto simp: nd_def)

lemma ptr_None [simp]: "ptr t = None \<longleftrightarrow> t = Leaf" "None = ptr t \<longleftrightarrow> t = Leaf"
  by (cases t rule: ptr.cases; simp)+

lemma ptr_in: "ptr t = Some a \<Longrightarrow> a \<in> set (addrs t)"
  by (cases t rule: ptr.cases) auto

lemma shape_nd [simp]: "shape h up (nd d l (a, r, c, s) t) \<longleftrightarrow>
    h a = Some (mk up (kid d (ptr l) (ptr t)) r c s) \<and> shape h (Some a) l \<and> shape h (Some a) t"
  by (auto simp: nd_def kid_flip [of False, simplified])

lemma shape_other [simp]: "a \<notin> set (addrs t) \<Longrightarrow> shape (h(a := v)) up t = shape h up t"
  by (induction t arbitrary: up rule: tree.induct) (auto simp: fun_upd_def [symmetric])


lemma par_of_in: "par_of k = Some a \<Longrightarrow> a \<in> set (path_addrs k)"
  by (cases k rule: par_of.cases) auto

lemma around_other [simp]: "a \<notin> set (path_addrs k) \<Longrightarrow> around (h(a := v)) rt p k = around h rt p k"
  by (induction h rt p k rule: around.induct) (auto simp: fun_upd_def [symmetric])

lemma set_addrs_plug: "set (addrs (plug k t)) = set (addrs t) \<union> set (path_addrs k)"
  by (induction k t rule: plug.induct) auto

lemma at_move: "at T i k (nd d l (a, r, c, s) u) \<longleftrightarrow> at T i ((d, (a, r, c, s), u) # k) l"
  by (auto simp: at_def)

lemma at_move2: "at T i k (nd d l (a, r, c, s) u) \<longleftrightarrow> at T i ((\<not> d, (a, r, c, s), l) # k) u"
  by (auto simp: at_def kid_flip)

lemma at_plug: "at T i [] (plug k t) \<longleftrightarrow> at T i k t"
proof (induction k t rule: plug.induct)
  case (2 d x sib k t)
  then show ?case
    by (cases x) (simp add: at_move)
qed simp

text \<open>What an operation on the nodes of one index leaves alone.\<close>

definition meta :: "('c, 'k) rb_tree \<Rightarrow> ('c \<Rightarrow> 'k + 'c \<Rightarrow> int) list \<times> nat \<times> int \<times> int \<times> bool \<times> bool" where
  "meta T = (map compare (index T), indexes T, tree_count T, tree_size T, heap_tracking T, allow_duplicates T)"

definition inside :: "addr set \<Rightarrow> ('c, 'k) rb_tree \<Rightarrow> ('c, 'k) rb_tree \<Rightarrow> bool" where
  "inside S T T' \<longleftrightarrow> meta T' = meta T \<and> (\<forall>a. a \<notin> S \<longrightarrow> tree_nodes T' a = tree_nodes T a)"

lemma inside_refl [simp, intro]: "inside S T T"
  by (simp add: inside_def)

lemma inside_trans: "inside S T T' \<Longrightarrow> inside S T' T'' \<Longrightarrow> inside S T T''"
  by (simp add: inside_def)

lemma meta_length: "meta T' = meta T \<Longrightarrow> length (index T') = length (index T)"
  by (auto simp: meta_def dest: map_eq_imp_length_eq)

lemma meta_compare: "meta T' = meta T \<Longrightarrow> i < length (index T) \<Longrightarrow> compare (index T' ! i) = compare (index T ! i)"
proof -
  assume m: "meta T' = meta T" and i: "i < length (index T)"
  then have "map compare (index T') ! i = map compare (index T) ! i"
    by (simp add: meta_def)
  then show ?thesis
    using i meta_length [OF m] by simp
qed

definition cells_of :: "'c path \<Rightarrow> 'c cell tree \<Rightarrow> addr set" where
  "cells_of k t = set (addrs t) \<union> set (path_addrs k)"

lemmas node_ops = tree_node_at_def set_tree_node_def parent_of_def child_of_def set_child_def set_parent_def set_red_def
  root_of_def set_root_def


text \<open>Changing the parent of the root of a subtree, and the link from the path down to it.\<close>

definition reparent :: "addr option \<Rightarrow> addr option \<Rightarrow> (addr \<rightharpoonup> 'c tree_node) \<Rightarrow> (addr \<rightharpoonup> 'c tree_node)" where
  "reparent q p h = (case p of None \<Rightarrow> h | Some b \<Rightarrow> h(b := map_option (\<lambda>n. n\<lparr>parent := q\<rparr>) (h b)))"

definition relink :: "'c path \<Rightarrow> addr option \<Rightarrow> (addr \<rightharpoonup> 'c tree_node) \<Rightarrow> (addr \<rightharpoonup> 'c tree_node)" where
  "relink k p h = (case k of [] \<Rightarrow> h
     | (d, (a, _), _) # _ \<Rightarrow> h(a := map_option (\<lambda>n. n\<lparr>child := (child n)(d := p)\<rparr>) (h a)))"

lemma reparent_at [simp]: "p \<noteq> Some a \<Longrightarrow> reparent q p h a = h a"
  by (auto simp: reparent_def split: option.splits)

lemma relink_at [simp]: "par_of k \<noteq> Some a \<Longrightarrow> relink k p h a = h a"
  by (cases k rule: par_of.cases) (auto simp: relink_def)

lemma shape_reparent [simp]: "set_option p \<inter> set (addrs t) = {} \<Longrightarrow> shape (reparent q p h) u t = shape h u t"
  by (cases p) (simp_all add: reparent_def)

lemma around_reparent [simp]: "set_option p \<inter> set (path_addrs k) = {} \<Longrightarrow> around (reparent q p h) rt u k = around h rt u k"
  by (cases p) (simp_all add: reparent_def)

lemma shape_relink [simp]: "set_option (par_of k) \<inter> set (addrs t) = {} \<Longrightarrow> shape (relink k p h) u t = shape h u t"
  by (cases k rule: par_of.cases) (simp_all add: relink_def)

lemma shape_reparent_root: "shape h u t \<Longrightarrow> distinct (addrs t) \<Longrightarrow> shape (reparent q (ptr t) h) q t"
  by (cases t rule: ptr.cases) (auto simp: reparent_def)

lemma around_relink: "around h rt p k \<Longrightarrow> distinct (path_addrs k) \<Longrightarrow>
    around (relink k q h) (if k = [] then q else rt) q k"
  by (cases k rule: par_of.cases) (auto simp: relink_def)

lemma root_of_set [simp]: "i < length (index T) \<Longrightarrow> root_of i (set_root i p T) = p"
  by (simp add: root_of_def set_root_def)

lemma root_of_nodes [simp]: "root_of i (T\<lparr>tree_nodes := h\<rparr>) = root_of i T"
  by (simp add: root_of_def)

lemma meta_nodes [simp]: "meta (T\<lparr>tree_nodes := h\<rparr>) = meta T"
  by (simp add: meta_def)

lemma set_root_simps [simp]:
  "tree_nodes (set_root i p T) = tree_nodes T" "length (index (set_root i p T)) = length (index T)"
  "meta (set_root i p T) = meta T"
proof -
  have "map compare ((index T)[i := (index T ! i)\<lparr>root := p\<rparr>]) = map compare (index T)"
    by (cases "i < length (index T)") (simp_all add: map_update list_update_same_conv list_update_beyond)
  then show "meta (set_root i p T) = meta T"
    by (simp add: set_root_def meta_def)
qed (simp_all add: set_root_def)

section \<open>Rotation\<close>

lemma rotate_run:
  assumes "tree_nodes T x = Some (mk (par_of k) (kid d p (Some y)) xr xc xs)"
    and "tree_nodes T y = Some (mk (Some x) (kid d b q) yr yc ys)"
    and "x \<noteq> y" "b \<noteq> Some x" "b \<noteq> Some y" "par_of k \<noteq> Some x" "par_of k \<noteq> Some y"
    and "\<And>c. b = Some c \<Longrightarrow> tree_nodes T c = Some bn \<and> par_of k \<noteq> Some c"
    and "around (tree_nodes T) (root_of i T) (Some x) k" "x \<notin> set (path_addrs k)"
  shows "TreeRotate (Some x) d i T = Done ((if k = [] then set_root i (Some y) T else T)
    \<lparr>tree_nodes := (relink k (Some y) (reparent (Some x) b (tree_nodes T)))
       (x \<mapsto> mk (Some y) (kid d p b) xr xc xs, y \<mapsto> mk (par_of k) (kid d (Some x) q) yr yc ys)\<rparr>)"
proof (cases k rule: par_of.cases)
  case 1
  then show ?thesis
    using assms(1-8)
    by (cases b) (simp_all add: TreeRotate_def node_ops reparent_def relink_def fun_eq_iff)
next
  case (2 e a z sib k')
  then have "ptr sib \<noteq> Some x" "\<exists>r c s. z = (r, c, s)"
    using assms(10) ptr_in by (fastforce, cases z, auto)
  then show ?thesis
    using assms(1-9) 2
    by (cases b; cases e; cases d) (auto simp: TreeRotate_def node_ops reparent_def relink_def fun_eq_iff)
qed


lemma rotate_at:
  assumes at: "at T i k (nd d A (x, xr, xc, xs) (nd d B (y, yr, yc, ys) C))"
  shows "\<exists>T'. TreeRotate (Some x) d i T = Done T' \<and> at T' i k (nd d (nd d A (x, xr, xc, xs) B) (y, yr, yc, ys) C)
    \<and> inside (cells_of k (nd d A (x, xr, xc, xs) (nd d B (y, yr, yc, ys) C))) T T'"
proof -
  let ?h = "tree_nodes T"
  have h: "i < length (index T)" "around ?h (root_of i T) (Some x) k"
    "?h x = Some (mk (par_of k) (kid d (ptr A) (Some y)) xr xc xs)" "?h y = Some (mk (Some x) (kid d (ptr B) (ptr C)) yr yc ys)"
    "shape ?h (Some x) A" "shape ?h (Some y) B" "shape ?h (Some y) C"
    and ds: "distinct (addrs A)" "distinct (addrs B)" "distinct (addrs C)" "distinct (path_addrs k)"
    and ne: "x \<noteq> y" "x \<notin> set (addrs A)" "x \<notin> set (addrs B)" "x \<notin> set (addrs C)" "x \<notin> set (path_addrs k)"
      "y \<notin> set (addrs A)" "y \<notin> set (addrs B)" "y \<notin> set (addrs C)" "y \<notin> set (path_addrs k)"
      "set (addrs A) \<inter> set (addrs B) = {}" "set (addrs A) \<inter> set (addrs C) = {}" "set (addrs B) \<inter> set (addrs C) = {}"
      "set (addrs A) \<inter> set (path_addrs k) = {}" "set (addrs B) \<inter> set (path_addrs k) = {}" "set (addrs C) \<inter> set (path_addrs k) = {}"
    using at by (auto simp: at_def)
  have pB: "set_option (ptr B) \<subseteq> set (addrs B)" and pk: "set_option (par_of k) \<subseteq> set (path_addrs k)"
    by (auto dest: ptr_in par_of_in)
  let ?h' = "relink k (Some y) (reparent (Some x) (ptr B) ?h)"
  obtain bn where bn: "\<And>c. ptr B = Some c \<Longrightarrow> ?h c = Some bn"
    using h(6) by (cases B rule: ptr.cases) auto
  have "ptr B \<noteq> Some x" "ptr B \<noteq> Some y" "par_of k \<noteq> Some x" "par_of k \<noteq> Some y" "\<And>c. ptr B = Some c \<Longrightarrow> par_of k \<noteq> Some c"
    using ne by (auto dest!: ptr_in par_of_in simp: disjoint_iff)
  then have run: "TreeRotate (Some x) d i T = Done ((if k = [] then set_root i (Some y) T else T)
    \<lparr>tree_nodes := ?h'(x \<mapsto> mk (Some y) (kid d (ptr A) (ptr B)) xr xc xs, y \<mapsto> mk (par_of k) (kid d (Some x) (ptr C)) yr yc ys)\<rparr>)"
    using h(2-4) ne(1,5) bn by (intro rotate_run) auto
  have off: "set_option (par_of k) \<inter> set (addrs A) = {}" "set_option (par_of k) \<inter> set (addrs B) = {}"
      "set_option (par_of k) \<inter> set (addrs C) = {}" "set_option (ptr B) \<inter> set (addrs A) = {}"
      "set_option (ptr B) \<inter> set (addrs C) = {}" "set_option (ptr B) \<inter> set (path_addrs k) = {}"
    using pB pk ne by (blast, blast, blast, blast, blast, blast)
  have "shape ?h' (Some x) A" "shape ?h' (Some x) B" "shape ?h' (Some y) C"
    using h(5-7) ds(2) by (simp_all add: off shape_reparent_root)
  moreover have "around ?h' (if k = [] then Some y else root_of i T) (Some y) k"
    using h(2) ds(4) by (intro around_relink [of _ _ "Some x"]) (simp_all add: off)
  ultimately have "at ((if k = [] then set_root i (Some y) T else T)
    \<lparr>tree_nodes := ?h'(x \<mapsto> mk (Some y) (kid d (ptr A) (ptr B)) xr xc xs, y \<mapsto> mk (par_of k) (kid d (Some x) (ptr C)) yr yc ys)\<rparr>)
      i k (nd d (nd d A (x, xr, xc, xs) B) (y, yr, yc, ys) C)"
    using h(1) ds ne by (auto simp: at_def)
  moreover have "?h' a = ?h a" if "a \<notin> set (addrs B)" "a \<notin> set (path_addrs k)" for a
    using that by (metis par_of_in ptr_in relink_at reparent_at)
  ultimately show ?thesis
    using run by (auto simp: inside_def cells_of_def)
qed

end
