(* ===== verification/Rb_Balance.thy ===== *)
theory Rb_Balance
  imports Rb_Shape
begin

text \<open>
  The red-black invariant of a tree and of a position in it, and what reading and recolouring a node
  does at a position.
\<close>

section \<open>Colours and black heights\<close>

fun root_red :: "'c cell tree \<Rightarrow> bool" where
  "root_red Leaf = False"
| "root_red (Node l (a, r, c, s) t) = r"

fun bh :: "'c cell tree \<Rightarrow> nat" where
  "bh Leaf = 0"
| "bh (Node l (a, r, c, s) t) = bh l + (if r then 0 else 1)"

fun invc :: "'c cell tree \<Rightarrow> bool" where
  "invc Leaf = True"
| "invc (Node l (a, r, c, s) t) \<longleftrightarrow> (r \<longrightarrow> \<not> root_red l \<and> \<not> root_red t) \<and> invc l \<and> invc t"

fun invh :: "'c cell tree \<Rightarrow> bool" where
  "invh Leaf = True"
| "invh (Node l x t) \<longleftrightarrow> bh l = bh t \<and> invh l \<and> invh t"

definition rb :: "'c cell tree \<Rightarrow> bool" where
  "rb t \<longleftrightarrow> invc t \<and> invh t \<and> \<not> root_red t"

fun path_red :: "'c path \<Rightarrow> bool" where
  "path_red [] = False"
| "path_red ((d, (a, r, c, s), sib) # k) = r"

fun path_h :: "nat \<Rightarrow> 'c path \<Rightarrow> bool" where
  "path_h n [] = True"
| "path_h n ((d, (a, r, c, s), sib) # k) \<longleftrightarrow> bh sib = n \<and> invh sib \<and> path_h (n + (if r then 0 else 1)) k"

fun path_c :: "'c path \<Rightarrow> bool" where
  "path_c [] = True"
| "path_c ((d, (a, r, c, s), sib) # k) \<longleftrightarrow>
     invc sib \<and> (r \<longrightarrow> \<not> root_red sib \<and> k \<noteq> [] \<and> \<not> path_red k) \<and> path_c k"

lemma nd_colours [simp]:
  "root_red (nd d l (a, r, c, s) t) = r"
  "invc (nd d l (a, r, c, s) t) \<longleftrightarrow> (r \<longrightarrow> \<not> root_red l \<and> \<not> root_red t) \<and> invc l \<and> invc t"
  "invh (nd d l x t) \<longleftrightarrow> bh l = bh t \<and> invh l \<and> invh t"
  "bh l = bh t \<Longrightarrow> bh (nd d l (a, r, c, s) t) = bh l + (if r then 0 else 1)"
  by (auto simp: nd_def)

lemma invh_plug: "invh (plug k t) \<longleftrightarrow> invh t \<and> path_h (bh t) k"
proof (induction k t rule: plug.induct)
  case (2 d x sib k t)
  show ?case
  proof (cases "bh t = bh sib")
    case True
    then show ?thesis
      using 2 by (cases x) auto
  next
    case False
    then show ?thesis
      using 2 by (cases x) auto
  qed
qed simp

lemma invc_plug:
  "invc (plug k t) \<and> \<not> root_red (plug k t) \<longleftrightarrow>
     invc t \<and> path_c k \<and> (root_red t \<longrightarrow> k \<noteq> [] \<and> \<not> path_red k)"
proof (induction k t rule: plug.induct)
  case (2 d x sib k t)
  then show ?case
    by (cases x) auto
qed simp

lemma plug_Leaf [simp]: "plug k t = Leaf \<longleftrightarrow> k = [] \<and> t = Leaf"
  by (induction k t rule: plug.induct) auto

lemma rb_plug: "rb (plug k t) \<longleftrightarrow>
    invc t \<and> path_c k \<and> (root_red t \<longrightarrow> k \<noteq> [] \<and> \<not> path_red k) \<and> invh t \<and> path_h (bh t) k"
  using invc_plug [of k t] invh_plug [of k t] by (auto simp: rb_def)

section \<open>Contents in order\<close>

definition items :: "'c cell tree \<Rightarrow> ('c \<times> int) list" where
  "items t = map (snd \<circ> snd) (inorder t)"

fun before :: "'c path \<Rightarrow> ('c \<times> int) list" where
  "before [] = []"
| "before ((d, (a, r, c, s), sib) # k) = before k @ (if d then items sib @ [(c, s)] else [])"

fun after :: "'c path \<Rightarrow> ('c \<times> int) list" where
  "after [] = []"
| "after ((d, (a, r, c, s), sib) # k) = (if d then [] else (c, s) # items sib) @ after k"

lemma items_simps [simp]:
  "items Leaf = []" "items (Node l (a, r, c, s) t) = items l @ (c, s) # items t"
  by (simp_all add: items_def)

lemma items_nd: "items (nd d l (a, r, c, s) t) = (if d then items t @ (c, s) # items l else items l @ (c, s) # items t)"
  by (simp add: nd_def)

lemma items_plug: "items (plug k t) = before k @ items t @ after k"
proof (induction k t rule: plug.induct)
  case (2 d x sib k t)
  then show ?case
    by (cases x) (simp add: items_nd)
qed simp

section \<open>Reading and recolouring at a position\<close>

lemma at_node: "at T i k (nd d l (a, r, c, s) t) \<Longrightarrow>
    tree_node_at (Some a) T = Done (mk (par_of k) (kid d (ptr l) (ptr t)) r c s)"
  by (simp add: at_def tree_node_at_def)

lemma at_up: "at T i ((d, (a, r, c, s), sib) # k) t \<Longrightarrow>
    tree_node_at (Some a) T = Done (mk (par_of k) (kid d (ptr t) (ptr sib)) r c s)"
  by (rule at_node) (simp add: at_move)

lemma at_red: "at T i k t \<Longrightarrow> isRed (ptr t) T = Done (root_red t)" "at T i k t \<Longrightarrow> isBlack (ptr t) T = Done (\<not> root_red t)"
  by (cases t rule: root_red.cases; auto simp: at_def isRed_def isBlack_def tree_node_at_def)+

lemma at_parent: "at T i k t \<Longrightarrow> t \<noteq> Leaf \<Longrightarrow> parent_of (ptr t) T = Done (par_of k)"
  by (cases t rule: ptr.cases) (auto simp: at_def parent_of_def tree_node_at_def)

lemma at_sibling: "at T i ((d, (a, r, c, s), sib) # k) t \<Longrightarrow> at T i ((\<not> d, (a, r, c, s), t) # k) sib"
  by (metis at_move at_move2)

lemma at_grandparent: "at T i ((d, (a, r, c, s), sib) # k) t \<Longrightarrow> at T i k (nd d t (a, r, c, s) sib)"
  by (simp add: at_move)

lemma set_node_at:
  assumes at: "at T i k (nd d l (a, r, c, s) t)" and f: "\<And>u ch. f (mk u ch r c s) = mk u ch r' c' s'"
  shows "\<exists>T'. set_tree_node (Some a) f T = Done T' \<and> at T' i k (nd d l (a, r', c', s') t) \<and> inside {a} T T'"
proof -
  let ?T = "T\<lparr>tree_nodes := (tree_nodes T)(a \<mapsto> mk (par_of k) (kid d (ptr l) (ptr t)) r' c' s')\<rparr>"
  have "set_tree_node (Some a) f T = Done ?T"
    using at_node [OF at] f by (simp add: set_tree_node_def)
  moreover have "at ?T i k (nd d l (a, r', c', s') t)"
    using at by (auto simp: at_def)
  ultimately show ?thesis
    by (simp add: inside_def)
qed

lemma set_red_at:
  assumes "at T i k (nd d l (a, r, c, s) t)"
  shows "\<exists>T'. set_red (Some a) r' T = Done T' \<and> at T' i k (nd d l (a, r', c, s) t) \<and> inside {a} T T'"
  unfolding set_red_def by (rule set_node_at [OF assms]) simp

lemma inside_mono: "inside S T T' \<Longrightarrow> S \<subseteq> S' \<Longrightarrow> inside S' T T'"
  by (auto simp: inside_def)


section \<open>Operations on the nodes of one index\<close>

text \<open>
  \<open>pos S T\<^sub>0 i T k t\<close>: after operations on the nodes at the addresses \<open>S\<close> that started in \<open>T\<^sub>0\<close>, index
  \<open>i\<close> of \<open>T\<close> is the tree \<open>plug k t\<close>.
\<close>

definition pos :: "addr set \<Rightarrow> ('c, 'k) rb_tree \<Rightarrow> nat \<Rightarrow> ('c, 'k) rb_tree \<Rightarrow> 'c path \<Rightarrow> 'c cell tree \<Rightarrow> bool" where
  "pos S T0 i T k t \<longleftrightarrow> at T i k t \<and> inside S T0 T \<and> S = cells_of k t"

fun paint :: "bool \<Rightarrow> 'c cell tree \<Rightarrow> 'c cell tree" where
  "paint r Leaf = Leaf"
| "paint r (Node l (a, _, c, s) t) = Node l (a, r, c, s) t"

lemma paint_nd [simp]: "paint r (nd d l (a, r', c, s) t) = nd d l (a, r, c, s) t"
  by (simp add: nd_def)

lemma paint_simps [simp]:
  "ptr (paint r t) = ptr t" "addrs (paint r t) = addrs t" "items (paint r t) = items t"
  "paint r t = Leaf \<longleftrightarrow> t = Leaf" "root_red (paint r t) \<longleftrightarrow> r \<and> t \<noteq> Leaf" "invh (paint r t) = invh t"
  by (cases t rule: invc.cases; simp)+

lemma paint_black: "invc t \<Longrightarrow> invc (paint False t)" "invh t \<Longrightarrow> root_red t \<Longrightarrow> bh (paint False t) = Suc (bh t)"
  "paint False t = t \<longleftrightarrow> \<not> root_red t"
  by (cases t rule: invc.cases; simp)+

lemma cells_of_nd: "cells_of k (nd d l x t) = cells_of ((d, x, t) # k) l"
  by (auto simp: cells_of_def)

lemma cells_of_paint [simp]: "cells_of k (paint r t) = cells_of k t"
  by (simp add: cells_of_def)

lemma cells_of_plug: "cells_of k t = set (addrs (plug k t))"
  by (simp add: cells_of_def set_addrs_plug)

lemma pos_move: "pos S T0 i T k (nd d l (a, r, c, s) t) \<longleftrightarrow> pos S T0 i T ((d, (a, r, c, s), t) # k) l"
  by (simp add: pos_def at_move cells_of_nd)

lemma pos_sibling: "pos S T0 i T ((d, (a, r, c, s), sib) # k) t \<longleftrightarrow> pos S T0 i T ((\<not> d, (a, r, c, s), t) # k) sib"
  by (auto simp: pos_def cells_of_def dest: at_sibling)

lemma nd_flip: "nd (\<not> d) l x t = nd d t x l"
  by (auto simp: nd_def)

lemma pos_plug: "pos S T0 i T [] (plug k t) \<longleftrightarrow> pos S T0 i T k t"
  by (auto simp: pos_def at_plug cells_of_plug)

lemma pos_set_red:
  assumes "pos S T0 i T k t" "t \<noteq> Leaf"
  shows "\<exists>T'. set_red (ptr t) r T = Done T' \<and> pos S T0 i T' k (paint r t)"
proof -
  obtain l a r' c s u where t: "t = nd False l (a, r', c, s) u"
    using assms(2) by (cases t rule: nd_cases [of _ _ False]) auto
  obtain T' where "set_red (Some a) r T = Done T'" "at T' i k (nd False l (a, r, c, s) u)" "inside {a} T T'"
    using assms(1) set_red_at [of T i k False l a r' c s u r] unfolding t pos_def by blast
  moreover have "a \<in> S"
    using assms(1) by (auto simp: pos_def t cells_of_def)
  ultimately have "set_red (Some a) r T = Done T'" "pos S T0 i T' k (paint r t)"
    using assms(1) inside_trans [OF _ inside_mono [of "{a}" T T' S]] by (auto simp: pos_def t cells_of_def)
  then show ?thesis
    by (simp add: t)
qed

lemma pos_rotate:
  assumes "pos S T0 i T k (nd d A (x, xr, xc, xs) (nd d B (y, yr, yc, ys) C))"
  shows "\<exists>T'. TreeRotate (Some x) d i T = Done T' \<and> pos S T0 i T' k (nd d (nd d A (x, xr, xc, xs) B) (y, yr, yc, ys) C)"
proof -
  obtain T' where "TreeRotate (Some x) d i T = Done T'" "at T' i k (nd d (nd d A (x, xr, xc, xs) B) (y, yr, yc, ys) C)"
    "inside S T T'"
    using assms rotate_at unfolding pos_def by metis
  moreover have "cells_of k (nd d (nd d A (x, xr, xc, xs) B) (y, yr, yc, ys) C) = S"
    using assms by (auto simp: pos_def cells_of_def)
  ultimately show ?thesis
    using assms inside_trans unfolding pos_def by blast
qed

lemma pos_red: "pos S T0 i T k t \<Longrightarrow> isRed (ptr t) T = Done (root_red t)"
  "pos S T0 i T k t \<Longrightarrow> isBlack (ptr t) T = Done (\<not> root_red t)"
  unfolding pos_def using at_red by blast+

lemma pos_parent: "pos S T0 i T k t \<Longrightarrow> t \<noteq> Leaf \<Longrightarrow> parent_of (ptr t) T = Done (par_of k)"
  unfolding pos_def using at_parent by blast

lemma pos_up: "pos S T0 i T ((d, (a, r, c, s), sib) # k) t \<Longrightarrow>
    tree_node_at (Some a) T = Done (mk (par_of k) (kid d (ptr t) (ptr sib)) r c s)"
  unfolding pos_def by (elim conjE) (rule at_up)

lemma pos_distinct: "pos S T0 i T k t \<Longrightarrow> distinct (addrs t @ path_addrs k)"
  by (simp add: pos_def at_def)

lemma pos_root: "pos S T0 i T [] t \<Longrightarrow> root_of i T = ptr t"
  by (simp add: pos_def at_def)

lemma root_of_plug: "pos S T0 i T k t \<Longrightarrow> root_of i T = ptr (plug k t)"
  by (metis pos_plug pos_root)


lemmas cell_reads = parent_of_def child_of_def

end
