(* ===== verification/Rb_Search.thy ===== *)
theory Rb_Search
  imports Rb_Balance
begin

text \<open>
  Searching the tree of \<^verbatim>\<open>mqtt/source/Tree.c\<close>, and the interface \<open>content_order\<close> to the comparison
  functions: what a comparison has to promise for a search to find what is there.
\<close>

section \<open>The way down\<close>

fun locate :: "('c \<Rightarrow> 'k + 'c \<Rightarrow> int) \<Rightarrow> 'k + 'c \<Rightarrow> 'c path \<Rightarrow> 'c cell tree \<Rightarrow> 'c path \<times> 'c cell tree" where
  "locate cmp v k Leaf = (k, Leaf)"
| "locate cmp v k (Node l (a, r, c, s) u) =
     (if cmp c v = 0 then (k, Node l (a, r, c, s) u)
      else if cmp c v > 0 then locate cmp v ((RIGHT, (a, r, c, s), l) # k) u
      else locate cmp v ((LEFT, (a, r, c, s), u) # k) l)"

lemma locate_plug: "plug (fst (locate cmp v k t)) (snd (locate cmp v k t)) = plug k t"
  by (induction cmp v k t rule: locate.induct) (auto simp: nd_def)

lemma at_left: "at T i k (Node l (a, r, c, s) u) \<longleftrightarrow> at T i ((LEFT, (a, r, c, s), u) # k) l"
  using at_move [of T i k LEFT l a r c s u] by (simp add: nd_def)

lemma at_right: "at T i k (Node l (a, r, c, s) u) \<longleftrightarrow> at T i ((RIGHT, (a, r, c, s), l) # k) u"
  using at_move [of T i k RIGHT u a r c s l] by (simp add: nd_def)

lemma at_Node: "at T i k (Node l (a, r, c, s) u) \<Longrightarrow>
    tree_node_at (Some a) T = Done (mk (par_of k) (kid LEFT (ptr l) (ptr u)) r c s)"
  using at_node [of T i k LEFT l a r c s u] by (simp add: nd_def)

lemma find_node_locate:
  "at T i k t \<Longrightarrow> compare (index T ! i) = cmp \<Longrightarrow>
     find_node i v T (ptr t) = Some (Done (ptr (snd (locate cmp v k t))))"
proof (induction cmp v k t rule: locate.induct)
  case (1 cmp v k)
  then show ?case
    by (subst find_node.simps) simp
next
  case (2 cmp v k l a r c s u)
  show ?case
    using 2(2,3) at_Node [OF 2(3)] 2(1) [unfolded at_right [symmetric]] 2
    by (subst find_node.simps) (auto simp: compare_at_def child_of_def at_left at_right)
qed

lemma add_search_locate:
  fixes c :: 'c and T :: "('c, 'k) rb_tree"
  shows "at T i k t \<Longrightarrow> compare (index T ! i) = cmp \<Longrightarrow> result \<noteq> 0 \<Longrightarrow> (k \<noteq> [] \<Longrightarrow> side = fst (hd k)) \<Longrightarrow>
     \<exists>result' side'. add_search i c T (par_of k) (ptr t) result side
         = Some (Done (par_of (fst (locate cmp (Inr c) k t)), ptr (snd (locate cmp (Inr c) k t)), result', side'))
       \<and> (result' = 0 \<longleftrightarrow> snd (locate cmp (Inr c) k t) \<noteq> Leaf)
       \<and> (snd (locate cmp (Inr c) k t) = Leaf \<longrightarrow> fst (locate cmp (Inr c) k t) \<noteq> []
           \<longrightarrow> side' = fst (hd (fst (locate cmp (Inr c) k t))))"
proof (induction cmp "Inr c :: 'k + 'c" k t arbitrary: result side rule: locate.induct)
  case (1 cmp k)
  then show ?case
    by (subst add_search.simps) simp
next
  case (2 cmp k l a r c' s u)
  have step: "add_search i c T (par_of k) (Some a) result side =
     (if cmp c' (Inr c) = 0 then Some (Done (par_of k, Some a, 0, False))
      else add_search i c T (Some a) (kid LEFT (ptr l) (ptr u) (cmp c' (Inr c) > 0)) (cmp c' (Inr c)) (cmp c' (Inr c) > 0))"
    using at_Node [OF 2(3)] 2(4) by (subst add_search.simps) (simp add: compare_at_def child_of_def Let_def)
  consider "cmp c' (Inr c) = 0" | "cmp c' (Inr c) > 0" | "cmp c' (Inr c) < 0"
    by linarith
  then show ?case
  proof cases
    case 2: 2
    then show ?thesis
      using step "2.hyps"(1) [OF _ _ "2.prems"(1) [unfolded at_right] "2.prems"(2), of "cmp c' (Inr c)" True] by simp
  next
    case 3
    then show ?thesis
      using step "2.hyps"(2) [OF _ _ "2.prems"(1) [unfolded at_left] "2.prems"(2), of "cmp c' (Inr c)" False] by simp
  qed (use step in \<open>auto intro: exI [of _ False]\<close>)
qed

section \<open>Order\<close>

lemma find_append: "find P (xs @ ys) = (case find P xs of None \<Rightarrow> find P ys | Some x \<Rightarrow> Some x)"
  by (induction xs) auto

text \<open>What an item is to a key, by the sign of the comparison, and the lists a tree stands for.\<close>

definition under :: "('c \<Rightarrow> 'k + 'c \<Rightarrow> int) \<Rightarrow> 'k + 'c \<Rightarrow> 'c \<times> int \<Rightarrow> bool" where
  "under cmp v x \<longleftrightarrow> cmp (fst x) v > 0"

definition over :: "('c \<Rightarrow> 'k + 'c \<Rightarrow> int) \<Rightarrow> 'k + 'c \<Rightarrow> 'c \<times> int \<Rightarrow> bool" where
  "over cmp v x \<longleftrightarrow> cmp (fst x) v < 0"

definition same :: "('c \<Rightarrow> 'k + 'c \<Rightarrow> int) \<Rightarrow> 'k + 'c \<Rightarrow> 'c \<times> int \<Rightarrow> bool" where
  "same cmp v x \<longleftrightarrow> cmp (fst x) v = 0"

definition ordered :: "('c \<Rightarrow> 'k + 'c \<Rightarrow> int) \<Rightarrow> ('c \<times> int) list \<Rightarrow> bool" where
  "ordered cmp xs \<longleftrightarrow> sorted_wrt (\<lambda>x y. over cmp (Inr (fst x)) y) xs"

definition insert_item :: "('c \<Rightarrow> 'k + 'c \<Rightarrow> int) \<Rightarrow> 'c \<Rightarrow> int \<Rightarrow> ('c \<times> int) list \<Rightarrow> ('c \<times> int) list" where
  "insert_item cmp c s xs = filter (under cmp (Inr c)) xs @ (c, s) # filter (over cmp (Inr c)) xs"

definition remove_item :: "('c \<Rightarrow> 'k + 'c \<Rightarrow> int) \<Rightarrow> 'k + 'c \<Rightarrow> ('c \<times> int) list \<Rightarrow> ('c \<times> int) list" where
  "remove_item cmp v xs = filter (\<lambda>x. \<not> same cmp v x) xs"

text \<open>The items before a place are below the key and those after it above.\<close>

definition place :: "('c \<Rightarrow> 'k + 'c \<Rightarrow> int) \<Rightarrow> 'k + 'c \<Rightarrow> 'c path \<Rightarrow> bool" where
  "place cmp v k \<longleftrightarrow> (\<forall>x \<in> set (before k). under cmp v x) \<and> (\<forall>x \<in> set (after k). over cmp v x)"

locale content_order =
  fixes cmp :: "'c \<Rightarrow> 'k + 'c \<Rightarrow> int" and val :: "'k + 'c \<Rightarrow> 'o" and less :: "'o \<Rightarrow> 'o \<Rightarrow> bool"
  assumes irrefl: "\<not> less x x"
    and trans: "less x y \<Longrightarrow> less y z \<Longrightarrow> less x z"
    and compare_eq: "cmp c v = 0 \<longleftrightarrow> val (Inr c) = val v"
    and compare_less: "cmp c v > 0 \<longleftrightarrow> less (val (Inr c)) (val v)"
    and compare_greater: "cmp c v < 0 \<longleftrightarrow> less (val v) (val (Inr c))"
begin

lemma under_val: "under cmp v x \<longleftrightarrow> less (val (Inr (fst x))) (val v)"
  by (simp add: under_def compare_less)

lemma over_val: "over cmp v x \<longleftrightarrow> less (val v) (val (Inr (fst x)))"
  by (simp add: over_def compare_greater)

lemma same_val: "same cmp v x \<longleftrightarrow> val (Inr (fst x)) = val v"
  by (simp add: same_def compare_eq)

lemma trichotomy: "under cmp v x \<or> same cmp v x \<or> over cmp v x"
  using compare_eq [of "fst x" v] compare_less [of "fst x" v] compare_greater [of "fst x" v]
  by (auto simp: under_val same_val over_val)

lemma exclusive: "under cmp v x \<Longrightarrow> \<not> same cmp v x" "under cmp v x \<Longrightarrow> \<not> over cmp v x" "over cmp v x \<Longrightarrow> \<not> same cmp v x" "same cmp v x \<Longrightarrow> \<not> over cmp v x"
  "over cmp v x \<Longrightarrow> \<not> under cmp v x" "same cmp v x \<Longrightarrow> \<not> under cmp v x"
  using irrefl trans by (auto simp: under_val same_val over_val)

lemma all_under:
  "\<forall>x \<in> set xs. under cmp v x \<Longrightarrow> filter (under cmp v) xs = xs \<and> filter (over cmp v) xs = [] \<and> find (same cmp v) xs = None
     \<and> filter (\<lambda>x. \<not> same cmp v x) xs = xs"
  by (induction xs) (auto dest: exclusive)

lemma all_over:
  "\<forall>x \<in> set xs. over cmp v x \<Longrightarrow> filter (over cmp v) xs = xs \<and> filter (under cmp v) xs = [] \<and> find (same cmp v) xs = None
     \<and> filter (\<lambda>x. \<not> same cmp v x) xs = xs"
  by (induction xs) (auto dest: exclusive)

lemma ordered_append: "ordered cmp (xs @ ys) \<longleftrightarrow> ordered cmp xs \<and> ordered cmp ys \<and> (\<forall>x \<in> set xs. \<forall>y \<in> set ys. over cmp (Inr (fst x)) y)"
  by (simp add: ordered_def sorted_wrt_append)

lemma ordered_Cons: "ordered cmp (x # ys) \<longleftrightarrow> ordered cmp ys \<and> (\<forall>y \<in> set ys. over cmp (Inr (fst x)) y)"
  by (auto simp: ordered_def)

lemma ordered_Nil [simp]: "ordered cmp []"
  by (simp add: ordered_def)

lemma locate_place:
  "ordered cmp (items (plug k t)) \<Longrightarrow> place cmp v k \<Longrightarrow>
     place cmp v (fst (locate cmp v k t)) \<and> (case snd (locate cmp v k t) of Leaf \<Rightarrow> True | Node l (a, r, c, s) u \<Rightarrow> same cmp v (c, s))"
proof (induction t arbitrary: k)
  case (Node l x u)
  obtain a r c s where x: "x = (a, r, c, s)"
    by (cases x) auto
  have o: "ordered cmp (before k @ items l @ (c, s) # items u @ after k)"
    using Node.prems(1) by (simp add: x items_plug)
  consider (same) "cmp c v = 0" | (right) "cmp c v > 0" | (left) "cmp c v < 0"
    by linarith
  then show ?case
  proof cases
    case right
    then have "under cmp v (c, s)"
      by (simp add: under_val compare_less)
    moreover have "under cmp v y" if "y \<in> set (items l)" for y
      using o that calculation trans by (fastforce simp: ordered_append ordered_Cons over_val under_val)
    ultimately have "place cmp v ((RIGHT, x, l) # k)"
      using Node.prems(2) by (auto simp: place_def x)
    then show ?thesis
      using Node.IH(2) [of "(RIGHT, x, l) # k"] Node.prems(1) right by (simp add: x nd_def)
  next
    case left
    then have "over cmp v (c, s)"
      by (simp add: over_val compare_greater)
    moreover have "over cmp v y" if "y \<in> set (items u)" for y
      using o that calculation trans by (fastforce simp: ordered_append ordered_Cons over_val)
    ultimately have "place cmp v ((LEFT, x, u) # k)"
      using Node.prems(2) by (auto simp: place_def x)
    then show ?thesis
      using Node.IH(1) [of "(LEFT, x, u) # k"] Node.prems(1) left by (simp add: x nd_def)
  qed (use Node.prems(2) in \<open>simp add: x same_val compare_eq\<close>)
qed simp

lemma place_root [simp]: "place cmp v []"
  by (simp add: place_def)

lemma filter_place:
  assumes "place cmp v k"
  shows "filter (under cmp v) (items (plug k Leaf)) = before k" "filter (over cmp v) (items (plug k Leaf)) = after k"
    "find (same cmp v) (items (plug k Leaf)) = None"
  using assms all_under [of "before k" v] all_over [of "after k" v]
  by (auto simp: place_def items_plug find_append)

lemma same_over: "same cmp v x \<Longrightarrow> over cmp (Inr (fst x)) y \<longleftrightarrow> over cmp v y" "same cmp v x \<Longrightarrow> over cmp (Inr (fst y)) x \<longleftrightarrow> under cmp v y"
  by (simp_all add: same_val over_val under_val)

lemma filter_found:
  assumes o: "ordered cmp (items (plug k (Node l (a, r, c, s) u)))" and v: "same cmp v (c, s)"
  shows "filter (under cmp v) (items (plug k (Node l (a, r, c, s) u))) = before k @ items l"
    "filter (over cmp v) (items (plug k (Node l (a, r, c, s) u))) = items u @ after k"
    "find (same cmp v) (items (plug k (Node l (a, r, c, s) u))) = Some (c, s)"
    "filter (\<lambda>x. \<not> same cmp v x) (items (plug k (Node l (a, r, c, s) u))) = before k @ items l @ items u @ after k"
proof -
  have lo: "\<forall>x \<in> set (before k @ items l). under cmp v x" and hi: "\<forall>x \<in> set (items u @ after k). over cmp v x"
    using o same_over [OF v] by (auto simp: items_plug ordered_append ordered_Cons)
  have v': "\<not> under cmp v (c, s)" "\<not> over cmp v (c, s)"
    using v by (auto dest: exclusive)
  note parts = all_under [OF lo] all_over [OF hi]
  show "filter (under cmp v) (items (plug k (Node l (a, r, c, s) u))) = before k @ items l"
    "filter (over cmp v) (items (plug k (Node l (a, r, c, s) u))) = items u @ after k"
    "find (same cmp v) (items (plug k (Node l (a, r, c, s) u))) = Some (c, s)"
    "filter (\<lambda>x. \<not> same cmp v x) (items (plug k (Node l (a, r, c, s) u))) = before k @ items l @ items u @ after k"
    using parts v v' by (simp_all add: items_plug find_append split: option.splits)
qed

lemma ordered_filter: "ordered cmp xs \<Longrightarrow> ordered cmp (filter P xs)"
  unfolding ordered_def by (rule sorted_wrt_filter)

lemma ordered_insert: "ordered cmp xs \<Longrightarrow> ordered cmp (insert_item cmp c s xs)"
  using trans by (auto simp: insert_item_def ordered_append ordered_Cons ordered_filter under_val over_val)

lemma ordered_remove: "ordered cmp xs \<Longrightarrow> ordered cmp (remove_item cmp v xs)"
  by (simp add: remove_item_def ordered_filter)

end

section \<open>The comparison functions of the source\<close>

interpretation int_order: content_order TreeIntCompare "case_sum id id" "(<)"
  by unfold_locales (auto simp: TreeIntCompare_def Let_def split: sum.splits)

interpretation ptr_order: content_order TreePtrCompare "case_sum id id" "(<)"
  by unfold_locales (auto simp: TreePtrCompare_def Let_def split: sum.splits)

lemma strcmp_sym: "strcmp a b < 0 \<longleftrightarrow> strcmp b a > 0" "strcmp a b = 0 \<longleftrightarrow> a = b"
  by (induction a b rule: strcmp.induct) auto

lemma strcmp_trans: "strcmp a b < 0 \<Longrightarrow> strcmp b c < 0 \<Longrightarrow> strcmp a c < 0"
proof (induction a b arbitrary: c rule: strcmp.induct)
  case (2 b bs)
  then show ?case
    by (cases c) auto
next
  case (4 a as b bs)
  then show ?case
    by (cases c) (auto split: if_splits)
qed simp_all

text \<open>Strings are kept in descending order: the comparison has the sign of \<open>strcmp\<close>, the others the opposite one.\<close>

interpretation string_order: content_order TreeStringCompare "case_sum id id" "\<lambda>a b. strcmp a b > 0"
proof unfold_locales
  show "\<not> 0 < strcmp x x" for x
    using strcmp_sym(2) [of x x] by simp
  show "0 < strcmp x y \<Longrightarrow> 0 < strcmp y z \<Longrightarrow> 0 < strcmp x z" for x y z
    by (metis strcmp_sym(1) strcmp_trans)
qed (auto simp: TreeStringCompare_def strcmp_sym split: sum.splits)

end
