(* ===== verification/Rb_Add.thy ===== *)
theory Rb_Add
  imports Rb_Search
begin

text \<open>
  Adding to the red-black tree of \<^verbatim>\<open>mqtt/source/Tree.c\<close>: the loop that restores the colours, and the
  refinement of the addition to a sorted list.
\<close>

section \<open>One step of the balancing loop\<close>

lemma baasub_recolour:
  assumes p: "pos S T0 i T ((d1, (p, pr, pc, ps), sib) # (d2, (g, gr, gc, gs), U) # k) t"
    and t: "t \<noteq> Leaf" and U: "root_red U"
  shows "\<exists>T'. TreeBAASub (ptr t) (\<not> d2) i T = Done (Some g, T')
    \<and> pos S T0 i T' k (nd d2 (nd d1 t (p, False, pc, ps) sib) (g, True, gc, gs) (paint False U))"
proof -
  let ?P = "nd d1 t (p, pr, pc, ps) sib" and ?P' = "nd d1 t (p, False, pc, ps) sib"
  have p1: "pos S T0 i T ((d2, (g, gr, gc, gs), U) # k) ?P"
    using p by (simp add: pos_move)
  have U0: "U \<noteq> Leaf"
    using U by auto
  obtain T1 where T1: "set_red (ptr U) False T = Done T1" "pos S T0 i T1 ((\<not> d2, (g, gr, gc, gs), ?P) # k) (paint False U)"
    using pos_set_red [OF _ U0] p1 [unfolded pos_sibling [of _ _ _ _ d2]] by blast
  then have "pos S T0 i T1 ((d2, (g, gr, gc, gs), paint False U) # k) ?P"
    by (simp add: pos_sibling [of _ _ _ _ d2])
  then obtain T2 where T2: "set_red (Some p) False T1 = Done T2" "pos S T0 i T2 ((d2, (g, gr, gc, gs), paint False U) # k) ?P'"
    using pos_set_red [of S T0 i T1 _ ?P False] by auto
  then obtain T3 where T3: "set_red (Some g) True T2 = Done T3"
    "pos S T0 i T3 k (nd d2 ?P' (g, True, gc, gs) (paint False U))"
    using pos_set_red [of S T0 i T2 k "nd d2 ?P' (g, gr, gc, gs) (paint False U)" True] by (auto simp: pos_move)
  have "parent_of (ptr t) T = Done (Some p)" "parent_of (Some p) T = Done (Some g)" "child_of (Some g) (\<not> d2) T = Done (ptr U)"
    "isRed (ptr U) T = Done True"
    using pos_parent [OF p t] pos_up [OF p] pos_up [OF p1] pos_red(1) [of S T0 i T _ U] p1 [unfolded pos_sibling [of _ _ _ _ d2]] U
    by (auto simp: cell_reads)
  moreover have "parent_of (ptr t) T2 = Done (Some p)" "parent_of (Some p) T2 = Done (Some g)"
    using T2(2) t pos_parent [of S T0 i T2 _ t] pos_up [of S T0 i T2 d1 p False pc ps sib _ t]
    by (auto simp: cell_reads pos_move)
  ultimately show ?thesis
    using T1(1) T2(1) T3 by (simp add: TreeBAASub_def)
qed


lemma finish_rotate:
  assumes p: "pos S T0 i T ((d, (p, pr, pc, ps), sib) # (d, (g, gr, gc, gs), U) # k) t" and t: "t \<noteq> Leaf"
  shows "\<exists>T'. obind (parent_of (ptr t) T) (\<lambda>up. obind (set_red up False T) (\<lambda>T. obind (parent_of up T) (\<lambda>upup.
      obind (set_red upup True T) (\<lambda>T. obind (TreeRotate upup (\<not> d) i T) (\<lambda>T. Done (ptr t, T)))))) = Done (ptr t, T')
    \<and> pos S T0 i T' ((d, (p, False, pc, ps), nd d sib (g, True, gc, gs) U) # k) t"
proof -
  let ?P = "nd d t (p, pr, pc, ps) sib" and ?P' = "nd d t (p, False, pc, ps) sib"
  obtain T1 where T1: "set_red (Some p) False T = Done T1" "pos S T0 i T1 ((d, (g, gr, gc, gs), U) # k) ?P'"
    using pos_set_red [of S T0 i T _ ?P False] p by (auto simp: pos_move)
  then obtain T2 where T2: "set_red (Some g) True T1 = Done T2" "pos S T0 i T2 k (nd d ?P' (g, True, gc, gs) U)"
    using pos_set_red [of S T0 i T1 k "nd d ?P' (g, gr, gc, gs) U" True] by (auto simp: pos_move)
  then have r: "pos S T0 i T2 k (nd (\<not> d) U (g, True, gc, gs) (nd (\<not> d) sib (p, False, pc, ps) t))"
    by (simp add: nd_flip)
  obtain T3 where T3: "TreeRotate (Some g) (\<not> d) i T2 = Done T3"
    "pos S T0 i T3 k (nd (\<not> d) (nd (\<not> d) U (g, True, gc, gs) sib) (p, False, pc, ps) t)"
    using pos_rotate [OF r] by blast
  have "parent_of (ptr t) T = Done (Some p)" "parent_of (Some p) T1 = Done (Some g)"
    using pos_parent [OF p t] T1(2) pos_up [of S T0 i T1 d p False pc ps sib _ t] by (auto simp: cell_reads pos_move)
  then show ?thesis
    using T1(1) T2(1) T3 by (simp add: nd_flip pos_move)
qed

lemma baasub_outer:
  assumes p: "pos S T0 i T ((d, (p, pr, pc, ps), sib) # (d, (g, gr, gc, gs), U) # k) t"
    and t: "t \<noteq> Leaf" and U: "\<not> root_red U"
  shows "\<exists>T'. TreeBAASub (ptr t) (\<not> d) i T = Done (ptr t, T')
    \<and> pos S T0 i T' ((d, (p, False, pc, ps), nd d sib (g, True, gc, gs) U) # k) t"
proof -
  have p1: "pos S T0 i T ((d, (g, gr, gc, gs), U) # k) (nd d t (p, pr, pc, ps) sib)"
    using p by (simp add: pos_move)
  have "ptr t \<noteq> ptr sib"
    using pos_distinct [OF p] t by (cases t rule: ptr.cases) (auto dest!: ptr_in [OF sym])
  moreover have "parent_of (ptr t) T = Done (Some p)" "parent_of (Some p) T = Done (Some g)"
    "child_of (Some g) (\<not> d) T = Done (ptr U)" "child_of (Some p) (\<not> d) T = Done (ptr sib)" "isRed (ptr U) T = Done False"
    using pos_parent [OF p t] pos_up [OF p] pos_up [OF p1] pos_red(1) [of S T0 i T _ U] p1 [unfolded pos_sibling [of _ _ _ _ d]] U
    by (auto simp: cell_reads)
  ultimately show ?thesis
    using finish_rotate [OF p t] by (simp add: TreeBAASub_def)
qed

lemma baasub_inner:
  assumes p: "pos S T0 i T ((\<not> d, (p, pr, pc, ps), sib) # (d, (g, gr, gc, gs), U) # k) (nd d B (x, xr, xc, xs) C)"
    and U: "\<not> root_red U"
  shows "\<exists>T'. TreeBAASub (Some x) (\<not> d) i T = Done (Some p, T')
    \<and> pos S T0 i T' ((d, (x, False, xc, xs), nd d C (g, True, gc, gs) U) # k) (nd d sib (p, pr, pc, ps) B)"
proof -
  let ?t = "nd d B (x, xr, xc, xs) C"
  have "pos S T0 i T ((d, (p, pr, pc, ps), ?t) # (d, (g, gr, gc, gs), U) # k) sib"
    using p by (subst (asm) pos_sibling) simp
  then have p1: "pos S T0 i T ((d, (g, gr, gc, gs), U) # k) (nd d sib (p, pr, pc, ps) ?t)"
    by (subst pos_move)
  obtain T1 where T1: "TreeRotate (Some p) d i T = Done T1"
    "pos S T0 i T1 ((d, (g, gr, gc, gs), U) # k) (nd d (nd d sib (p, pr, pc, ps) B) (x, xr, xc, xs) C)"
    using pos_rotate [OF p1] by blast
  then have "pos S T0 i T1 ((d, (x, xr, xc, xs), C) # (d, (g, gr, gc, gs), U) # k) (nd d sib (p, pr, pc, ps) B)"
    by (simp add: pos_move)
  then obtain T2 where T2: "obind (parent_of (Some p) T1) (\<lambda>up. obind (set_red up False T1) (\<lambda>T. obind (parent_of up T) (\<lambda>upup.
      obind (set_red upup True T) (\<lambda>T. obind (TreeRotate upup (\<not> d) i T) (\<lambda>T. Done (Some p, T)))))) = Done (Some p, T2)"
    "pos S T0 i T2 ((d, (x, False, xc, xs), nd d C (g, True, gc, gs) U) # k) (nd d sib (p, pr, pc, ps) B)"
    using finish_rotate [of S T0 i T1 d x xr xc xs C g gr gc gs U k "nd d sib (p, pr, pc, ps) B"] by auto
  have "parent_of (Some x) T = Done (Some p)" "parent_of (Some p) T = Done (Some g)"
    "child_of (Some g) (\<not> d) T = Done (ptr U)" "child_of (Some p) (\<not> d) T = Done (Some x)" "isRed (ptr U) T = Done False"
    using pos_parent [OF p] pos_up [OF p] pos_up [OF p1] pos_red(1) [of S T0 i T _ U] p1 [unfolded pos_sibling [of _ _ _ _ d]] U
    by (auto simp: cell_reads)
  then show ?thesis
    using T1(1) T2 by (simp add: TreeBAASub_def)
qed


section \<open>The loop\<close>

lemma add_loop_stop:
  assumes p: "pos S T0 i T k t" and t: "t \<noteq> Leaf" and k: "\<not> path_red k"
  shows "balance_add_loop (ptr t) i T = Some (Done T)"
proof -
  have "isRed (par_of k) T = Done False"
  proof (cases k rule: path_red.cases)
    case (2 d a r c s sib k')
    then show ?thesis
      using p k pos_up by (fastforce simp: isRed_def)
  qed (simp add: isRed_def)
  then have "add_unbalanced (ptr t) T = Done False"
    using pos_parent [OF p t] t by (simp add: add_unbalanced_def)
  then show ?thesis
    by (subst balance_add_loop.simps) simp
qed

lemma add_loop_step:
  assumes p: "pos S T0 i T ((d1, (p, True, pc, ps), sib) # (d2, (g, gr, gc, gs), U) # k) t" and t: "t \<noteq> Leaf"
    and s: "TreeBAASub (ptr t) (\<not> d2) i T = Done (c', T')"
  shows "balance_add_loop (ptr t) i T = balance_add_loop c' i T'"
proof -
  have p1: "pos S T0 i T ((d2, (g, gr, gc, gs), U) # k) (nd d1 t (p, True, pc, ps) sib)"
    using p by (simp add: pos_move)
  have up: "parent_of (ptr t) T = Done (Some p)" "parent_of (Some p) T = Done (Some g)" "isRed (Some p) T = Done True"
    "child_of (Some g) LEFT T = Done (kid d2 (Some p) (ptr U) LEFT)"
    using pos_parent [OF p t] pos_up [OF p] pos_up [OF p1] by (auto simp: cell_reads isRed_def)
  have "add_unbalanced (ptr t) T = Done True"
    using up t by (simp add: add_unbalanced_def)
  moreover have "ptr U \<noteq> Some p"
    using pos_distinct [OF p] by (auto dest!: ptr_in)
  then have "balance_add_step (ptr t) i T = TreeBAASub (ptr t) (\<not> d2) i T"
    using up by (cases d2) (auto simp: balance_add_step_def)
  ultimately show ?thesis
    using s by (subst balance_add_loop.simps) simp
qed

text \<open>\<open>fresh\<close> says that the node the loop starts from is the root of a red-black tree that is red.\<close>

lemma add_loop:
  assumes "pos S T0 i T k t" "t \<noteq> Leaf" "path_c k"
    and "fresh \<Longrightarrow> root_red t \<and> invc t \<and> invh t \<and> path_h (bh t) k"
  shows "\<exists>T' t'. balance_add_loop (ptr t) i T = Some (Done T') \<and> pos S T0 i T' [] t' \<and> t' \<noteq> Leaf
    \<and> items t' = items (plug k t) \<and> (fresh \<longrightarrow> invh t' \<and> invc (paint False t'))"
  using assms
proof (induction "length k" arbitrary: k t T rule: less_induct)
  case less
  note p = less.prems(1) and t = less.prems(2) and c = less.prems(3) and f = less.prems(4)
  have stop: ?case if "\<not> path_red k"
  proof (intro exI conjI impI)
    show "balance_add_loop (ptr t) i T = Some (Done T)"
      using p t that by (rule add_loop_stop)
    show "pos S T0 i T [] (plug k t)" "plug k t \<noteq> Leaf" "items (plug k t) = items (plug k t)"
      using p t by (simp_all add: pos_plug)
    show "invh (plug k t)" if fresh
      using f [OF that] by (simp add: invh_plug)
    show "invc (paint False (plug k t))" if fresh
      using f [OF that] c \<open>\<not> path_red k\<close> invc_plug [of k t] by (cases k) (auto intro: paint_black)
  qed
  show ?case
  proof (cases "path_red k")
    case True
    then obtain d1 p0 pc ps sib d2 g gc gs U k2 where
      k: "k = (d1, (p0, True, pc, ps), sib) # (d2, (g, False, gc, gs), U) # k2" and sib: "\<not> root_red sib"
      using c by (cases k rule: path_red.cases; cases "tl k" rule: path_red.cases) auto
    note p = p [unfolded k]
    show ?thesis
    proof (cases "root_red U")
      case U: True
      obtain ul ua uc us ur where Ut: "U = Node ul (ua, True, uc, us) ur"
        using U by (cases U rule: root_red.cases) auto
      let ?t2 = "nd d2 (nd d1 t (p0, False, pc, ps) sib) (g, True, gc, gs) (paint False U)"
      obtain T2 where T2: "TreeBAASub (ptr t) (\<not> d2) i T = Done (Some g, T2)" "pos S T0 i T2 k2 ?t2"
        using baasub_recolour [OF p t U] by blast
      have "root_red ?t2 \<and> invc ?t2 \<and> invh ?t2 \<and> path_h (bh ?t2) k2" if fresh
        using f [OF that] c by (auto simp: k Ut)
      moreover have "path_c k2" "length k2 < length k" "?t2 \<noteq> Leaf"
        using c by (auto simp: k)
      ultimately obtain T' t' where "balance_add_loop (ptr ?t2) i T2 = Some (Done T')" "pos S T0 i T' [] t'" "t' \<noteq> Leaf"
        "items t' = items (plug k2 ?t2)" "fresh \<longrightarrow> invh t' \<and> invc (paint False t')"
        using less.hyps [OF _ T2(2)] by blast
      then show ?thesis
        using add_loop_step [OF p t T2(1)] by (auto simp: k items_plug items_nd)
    next
      case U: False
      have over: "?thesis" if T2: "TreeBAASub (ptr t) (\<not> d2) i T = Done (ptr t2, T2)" "pos S T0 i T2 ((d2, (x, False, xc, xs), G) # k2) t2"
          "t2 \<noteq> Leaf" "items (plug ((d2, (x, False, xc, xs), G) # k2) t2) = items (plug k t)"
          and inv: "fresh \<Longrightarrow> invc t2 \<and> invh t2 \<and> invc G \<and> invh G \<and> bh G = bh t2 \<and> path_h (bh t2 + 1) k2"
        for T2 t2 x xc xs G
      proof (intro exI conjI impI)
        show "balance_add_loop (ptr t) i T = Some (Done T2)"
          using add_loop_step [OF p t T2(1)] add_loop_stop [OF T2(2,3)] by simp
        show "pos S T0 i T2 [] (plug ((d2, (x, False, xc, xs), G) # k2) t2)"
          using T2(2) by (simp only: pos_plug)
        show "invh (plug ((d2, (x, False, xc, xs), G) # k2) t2)" if fresh
          using inv [OF that] by (simp add: invh_plug del: plug.simps)
        show "invc (paint False (plug ((d2, (x, False, xc, xs), G) # k2) t2))" if fresh
          using inv [OF that] c invc_plug [of "(d2, (x, False, xc, xs), G) # k2" t2]
          by (auto simp: k simp del: plug.simps intro: paint_black)
      qed (use T2 in simp_all)
      show ?thesis
      proof (cases "d1 = d2")
        case True
        obtain T2 where T2: "TreeBAASub (ptr t) (\<not> d2) i T = Done (ptr t, T2)"
          "pos S T0 i T2 ((d2, (p0, False, pc, ps), nd d2 sib (g, True, gc, gs) U) # k2) t"
          using baasub_outer [OF p [unfolded True] t U] by blast
        show ?thesis
          by (rule over [OF T2]) (use f c U sib t in \<open>auto simp: k True items_plug items_nd\<close>)
      next
        case False
        then have d: "d1 = (\<not> d2)"
          by blast
        obtain Bt x xr xc xs C where x: "t = nd d2 Bt (x, xr, xc, xs) C"
          using t by (cases t rule: nd_cases [of _ _ d2]) auto
        obtain T2 where T2: "TreeBAASub (ptr t) (\<not> d2) i T = Done (ptr (nd d2 sib (p0, True, pc, ps) Bt), T2)"
          "pos S T0 i T2 ((d2, (x, False, xc, xs), nd d2 C (g, True, gc, gs) U) # k2) (nd d2 sib (p0, True, pc, ps) Bt)"
          using baasub_inner [OF p [unfolded d x] U] by (auto simp: x)
        show ?thesis
          by (rule over [OF T2]) (use f c U sib t in \<open>auto simp: k d x items_plug items_nd\<close>)
      qed
    qed
  qed (rule stop)
qed


lemma balance_after_add:
  assumes "pos S T0 i T k t" "t \<noteq> Leaf" "path_c k"
    and "fresh \<Longrightarrow> root_red t \<and> invc t \<and> invh t \<and> path_h (bh t) k"
  shows "\<exists>T' t'. TreeBalanceAfterAdd (ptr t) i T = Done T' \<and> pos S T0 i T' [] t'
    \<and> items t' = items (plug k t) \<and> (fresh \<longrightarrow> rb t')"
proof -
  obtain T1 t1 where T1: "balance_add_loop (ptr t) i T = Some (Done T1)" "pos S T0 i T1 [] t1" "t1 \<noteq> Leaf"
    "items t1 = items (plug k t)" "fresh \<longrightarrow> invh t1 \<and> invc (paint False t1)"
    using add_loop [OF assms] by blast
  then obtain T2 where "set_red (ptr t1) False T1 = Done T2" "pos S T0 i T2 [] (paint False t1)"
    using pos_set_red by blast
  then show ?thesis
    using T1 pos_root [OF T1(2)] by (auto simp: TreeBalanceAfterAdd_def run_loop_def rb_def)
qed

section \<open>The new node\<close>

lemma kid_None: "kid d None None = (\<lambda>_. None)"
  by (auto simp: kid_def)

lemma link_new:
  assumes "at T i k Leaf" "new \<notin> set (path_addrs k)" "k \<noteq> [] \<Longrightarrow> side = fst (hd k)"
  shows "obind (if par_of k \<noteq> None then set_child (par_of k) side (Some new) (T\<lparr>tree_nodes := (tree_nodes T)(new \<mapsto> zero_node)\<rparr>)
        else Done (set_root i (Some new) (T\<lparr>tree_nodes := (tree_nodes T)(new \<mapsto> zero_node)\<rparr>)))
      (\<lambda>T. obind (set_parent (Some new) (par_of k) T) (\<lambda>T. obind (set_red (Some new) True T) f))
    = f ((if k = [] then set_root i (Some new) T else T)\<lparr>tree_nodes := (relink k (Some new) (tree_nodes T))
        (new \<mapsto> zero_node\<lparr>parent := par_of k, red := True\<rparr>)\<rparr>)"
proof (cases k rule: par_of.cases)
  case 1
  then show ?thesis
    by (simp add: set_parent_def set_red_def set_tree_node_def tree_node_at_def relink_def zero_node_def set_root_def)
next
  case (2 d a x sib k')
  have "a \<noteq> new" "tree_nodes T a \<noteq> None"
    using assms(1,2) by (cases x; auto simp: at_def 2)+
  then show ?thesis
    using assms(3) by (auto simp: 2 set_child_def set_parent_def set_red_def set_tree_node_def tree_node_at_def relink_def zero_node_def
        fun_upd_twist)
qed

lemma new_at:
  assumes at: "at T i k Leaf" and new: "new \<notin> set (path_addrs k)"
    and T': "T' = (if k = [] then set_root i (Some new) T else T)\<lparr>tree_nodes := (relink k (Some new) (tree_nodes T))
        (new \<mapsto> mk (par_of k) (kid LEFT None None) True c sz)\<rparr>"
  shows "at T' i k (Node Leaf (new, True, c, sz) Leaf)" "inside (insert new (set (path_addrs k))) T T'"
proof -
  have "around (relink k (Some new) (tree_nodes T)) (if k = [] then Some new else root_of i T) (Some new) k"
    using at by (intro around_relink [of _ _ None]) (auto simp: at_def)
  then show "at T' i k (Node Leaf (new, True, c, sz) Leaf)"
    using at new by (auto simp: at_def T')
  show "inside (insert new (set (path_addrs k))) T T'"
    by (auto simp: inside_def T' dest: par_of_in intro: relink_at)
qed

text \<open>The number of nodes and the sum of their sizes are kept for the first index only.\<close>

definition counted :: "nat \<Rightarrow> int \<Rightarrow> int \<Rightarrow> ('c, 'k) rb_tree \<Rightarrow> ('c, 'k) rb_tree" where
  "counted i n sz T = (if i = 0 then T\<lparr>tree_count := tree_count T + n, tree_size := tree_size T + sz\<rparr> else T)"

lemma counted_simps [simp]:
  "tree_nodes (counted i n sz T) = tree_nodes T" "index (counted i n sz T) = index T" "root_of j (counted i n sz T) = root_of j T"
  "at (counted i n sz T) j k t = at T j k t" "indexes (counted i n sz T) = indexes T"
  "heap_tracking (counted i n sz T) = heap_tracking T" "allow_duplicates (counted i n sz T) = allow_duplicates T"
  by (auto simp: counted_def root_of_def at_def)

lemma counted_one: "(if i = 0 then T\<lparr>tree_count := tree_count T + 1, tree_size := tree_size T + sz\<rparr> else T) = counted i 1 sz T"
  by (simp add: counted_def)

lemma counted_zero: "(if i = 0 then T\<lparr>tree_size := tree_size T + sz\<rparr> else T) = counted i 0 sz T"
  by (auto simp: counted_def intro!: rb_tree.equality)

lemma zero_mk: "zero_node\<lparr>parent := p, red := True, node_content := Some c, node_size := sz\<rparr> = mk p (kid LEFT None None) True c sz"
  by (simp add: zero_node_def mk_def kid_None)

context content_order
begin

lemma add_by_index_new:
  fixes T :: "('c, 'k) rb_tree"
  assumes at: "at T i [] t" and t: "rb t" "ordered cmp (items t)" and cmp: "compare (index T ! i) = cmp"
    and new: "new \<notin> set (addrs t)" and absent: "find (same cmp (Inr c)) (items t) = None"
  shows "\<exists>T' t'. TreeAddByIndex new c sz i T = Done (None, T') \<and> at T' i [] t' \<and> rb t' \<and> items t' = insert_item cmp c sz (items t)
    \<and> set (addrs t') = insert new (set (addrs t)) \<and> inside (insert new (set (addrs t))) (counted i 1 sz T) T'"
proof -
  obtain k t0 where L: "locate cmp (Inr c :: 'k + 'c) [] t = (k, t0)"
    by fastforce
  have plug: "plug k t0 = t"
    using locate_plug [of cmp "Inr c" "[]" t] by (simp add: L)
  have place: "place cmp (Inr c) k" "case t0 of Leaf \<Rightarrow> True | Node l (a, r, c', s) u \<Rightarrow> same cmp (Inr c) (c', s)"
    using locate_place [of "[]" t "Inr c"] t by (simp_all add: L)
  have t0: "t0 = Leaf"
  proof (rule ccontr)
    assume "t0 \<noteq> Leaf"
    then show False
      using place(2) absent t(2) filter_found(3) [of k] plug by (cases t0 rule: ptr.cases) (auto split: prod.splits)
  qed
  obtain result side where S: "run_loop (add_search i c T None (root_of i T) 1 False) = Done (par_of k, None, result, side)"
    "result \<noteq> 0" "k \<noteq> [] \<longrightarrow> side = fst (hd k)"
    using add_search_locate [OF at cmp, of 1 False c] at by (auto simp: L t0 run_loop_def at_def)
  have atk: "at T i k Leaf"
    using at plug t0 by (metis at_plug)
  have nk: "new \<notin> set (path_addrs k)" and S0: "insert new (set (addrs t)) = cells_of k (Node Leaf (new, True, c, sz) Leaf)"
    using new plug set_addrs_plug [of k t0] t0 by (auto simp: cells_of_def)
  define T1 where "T1 = (if k = [] then set_root i (Some new) T else T)\<lparr>tree_nodes := (relink k (Some new) (tree_nodes T))
        (new \<mapsto> mk (par_of k) (kid LEFT None None) True c sz)\<rparr>"
  have T1: "at T1 i k (Node Leaf (new, True, c, sz) Leaf)" "inside (insert new (set (addrs t))) T T1"
    using new_at [OF atk nk T1_def] inside_mono [of _ T T1 "insert new (set (addrs t))"] S0 by (auto simp: cells_of_def)
  let ?T2 = "counted i 1 sz T1"
  have "inside (insert new (set (addrs t))) (counted i 1 sz T) ?T2"
    using T1(2) by (auto simp: inside_def counted_def meta_def)
  then have p: "pos (insert new (set (addrs t))) (counted i 1 sz T) i ?T2 k (Node Leaf (new, True, c, sz) Leaf)"
    using T1(1) by (simp add: pos_def S0)
  have "path_c k \<and> path_h 0 k"
    using t(1) plug t0 rb_plug [of k Leaf] by auto
  then obtain T3 t3 where T3: "TreeBalanceAfterAdd (Some new) i ?T2 = Done T3"
    "pos (insert new (set (addrs t))) (counted i 1 sz T) i T3 [] t3"
    "items t3 = items (plug k (Node Leaf (new, True, c, sz) Leaf))" "rb t3"
    using balance_after_add [OF p, of True] by auto
  have "set_tree_node (Some new) (\<lambda>n. n\<lparr>node_content := Some c, node_size := sz\<rparr>)
     (counted i 1 sz ((if k = [] then set_root i (Some new) T else T)\<lparr>tree_nodes := (relink k (Some new) (tree_nodes T))
        (new \<mapsto> zero_node\<lparr>parent := par_of k, red := True\<rparr>)\<rparr>)) = Done ?T2"
    by (auto simp: set_tree_node_def tree_node_at_def counted_def T1_def zero_mk intro!: rb_tree.equality)
  then have "TreeAddByIndex new c sz i T = Done (None, T3)"
    using at S T3(1)
    by (simp add: link_new [OF atk nk S(3) [rule_format]] TreeAddByIndex_def at_def Let_def obind_assoc counted_one del: not_None_eq split del: if_split cong: if_cong)
  moreover have "items t3 = insert_item cmp c sz (items t)"
    using filter_place [OF place(1)] T3(3) by (simp add: insert_item_def items_plug plug [symmetric] t0)
  ultimately show ?thesis
    using T3 by (auto simp: pos_def cells_of_def)
qed

lemma add_by_index_found:
  fixes T :: "('c, 'k) rb_tree"
  assumes at: "at T i [] t" and t: "rb t" "ordered cmp (items t)" and cmp: "compare (index T ! i) = cmp"
    and dup: "\<not> allow_duplicates T" and found: "find (same cmp (Inr c)) (items t) = Some (c0, s0)"
  shows "\<exists>T' t'. TreeAddByIndex new c sz i T = Done (Some c0, T') \<and> at T' i [] t' \<and> items t' = insert_item cmp c sz (items t)
    \<and> set (addrs t') = set (addrs t) \<and> inside (set (addrs t)) (counted i 0 (sz - s0) T) T'"
proof -
  obtain k t0 where L: "locate cmp (Inr c :: 'k + 'c) [] t = (k, t0)"
    by fastforce
  have plug: "plug k t0 = t"
    using locate_plug [of cmp "Inr c" "[]" t] by (simp add: L)
  have place: "place cmp (Inr c) k" "case t0 of Leaf \<Rightarrow> True | Node l (a, r, c', s) u \<Rightarrow> same cmp (Inr c) (c', s)"
    using locate_place [of "[]" t "Inr c"] t by (simp_all add: L)
  have "t0 \<noteq> Leaf"
    using filter_place(3) [OF place(1)] found plug by auto
  then obtain l a r c' s u where t0: "t0 = Node l (a, r, c', s) u" and same: "same cmp (Inr c) (c', s)"
    using place(2) by (cases t0 rule: ptr.cases) (auto split: prod.splits)
  note parts = filter_found [OF _ same, of k l a r u, folded t0, unfolded plug, OF t(2)]
  then have c': "c' = c0" "s = s0"
    using found by simp_all
  obtain side where S: "run_loop (add_search i c T None (root_of i T) 1 False) = Done (par_of k, Some a, 0, side)"
    using add_search_locate [OF at cmp, of 1 False c] at by (auto simp: L t0 run_loop_def at_def)
  have "at T i k t0"
    using at plug by (metis at_plug)
  then have atk: "at T i k (nd LEFT l (a, r, c0, s0) u)"
    by (simp add: t0 c' nd_def)
  have S0: "set (addrs t) = cells_of k (nd LEFT l (a, r, c, sz) u)"
    using cells_of_plug [of k t0] plug by (auto simp: cells_of_def t0)
  let ?T1 = "counted i 0 (sz - s0) T"
  obtain T2 where T2: "set_tree_node (Some a) (\<lambda>n. n\<lparr>node_content := Some c, node_size := sz\<rparr>) ?T1 = Done T2"
    "at T2 i k (nd LEFT l (a, r, c, sz) u)" "inside {a} ?T1 T2"
    using set_node_at [of ?T1 i k LEFT l a r c0 s0 u "\<lambda>n. n\<lparr>node_content := Some c, node_size := sz\<rparr>" r c sz] atk by auto
  have p: "pos (set (addrs t)) ?T1 i T2 k (nd LEFT l (a, r, c, sz) u)"
    using T2(2) inside_mono [OF T2(3)] S0 by (auto simp: pos_def cells_of_def)
  have "path_c k"
    using t(1) plug rb_plug [of k t0] by auto
  then obtain T3 t3 where T3: "TreeBalanceAfterAdd (Some a) i T2 = Done T3" "pos (set (addrs t)) ?T1 i T3 [] t3"
    "items t3 = items (plug k (nd LEFT l (a, r, c, sz) u))"
    using balance_after_add [OF p, of False] by auto
  have "tree_node_at (Some a) T = Done (mk (par_of k) (kid LEFT (ptr l) (ptr u)) r c0 s0)"
    using at_node [OF atk] .
  then have "TreeAddByIndex new c sz i T = Done (Some c0, T3)"
    using at S T2(1) T3(1) dup by (simp add: TreeAddByIndex_def at_def counted_zero split del: if_split)
  moreover have "items t3 = insert_item cmp c sz (items t)"
    using T3(3) parts(1,2) by (simp add: insert_item_def items_plug nd_def)
  ultimately show ?thesis
    using T3 by (auto simp: pos_def cells_of_def)
qed

end

end
