(* ===== verification/Rb_Remove.thy ===== *)
theory Rb_Remove
  imports Rb_Add
begin

text \<open>
  Removing from the red-black tree of \<^verbatim>\<open>mqtt/source/Tree.c\<close>: the loop that restores the colours, the
  removal of a node, and its refinement to a sorted list.
\<close>

section \<open>The place where a black node is missing\<close>

text \<open>
  The loop runs on the subtree \<open>t\<close> that lacks a black node; an empty one is stood for by a node
  outside the tree.
\<close>

definition hole :: "addr set \<Rightarrow> ('c, 'k) rb_tree \<Rightarrow> nat \<Rightarrow> ('c, 'k) rb_tree \<Rightarrow> 'c path \<Rightarrow> 'c cell tree \<Rightarrow> addr option \<Rightarrow> bool" where
  "hole S T0 i T k t c \<longleftrightarrow> pos S T0 i T k t \<and>
     (if t = Leaf then \<exists>tmp. c = Some tmp \<and> tmp \<notin> S \<and> tree_nodes T tmp = Some (zero_node\<lparr>parent := par_of k\<rparr>) else c = ptr t)"

lemma hole_node:
  assumes "hole S T0 i T k t c"
  shows "\<exists>n. tree_node_at c T = Done n \<and> parent n = par_of k \<and> red n = root_red t \<and> (node_content n = None \<longleftrightarrow> t = Leaf)
    \<and> c \<noteq> None \<and> (t \<noteq> Leaf \<longrightarrow> c = ptr t)"
proof (cases t rule: invc.cases)
  case 1
  then obtain tmp where "c = Some tmp" "tree_nodes T tmp = Some (zero_node\<lparr>parent := par_of k\<rparr>)"
    using assms by (auto simp: hole_def)
  then show ?thesis
    by (simp add: 1 tree_node_at_def zero_node_def)
next
  case (2 l a r c' s u)
  then show ?thesis
    using assms by (simp add: hole_def pos_def at_def tree_node_at_def)
qed

lemma hole_reads:
  assumes "hole S T0 i T k t c"
  shows "parent_of c T = Done (par_of k)" "isBlack c T = Done (\<not> root_red t)"
  using hole_node [OF assms] by (auto simp: parent_of_def isBlack_def)

text \<open>Operations on the nodes of the index leave the node outside the tree alone.\<close>

lemma hole_keep:
  assumes "hole S T0 i T k t c" "pos S T0 i T' k' t" "par_of k' = par_of k"
  shows "hole S T0 i T' k' t c"
proof (cases "t = Leaf")
  case True
  then obtain tmp where "c = Some tmp" "tmp \<notin> S" "tree_nodes T tmp = Some (zero_node\<lparr>parent := par_of k\<rparr>)"
    using assms(1) by (auto simp: hole_def)
  moreover have "inside S T0 T" "inside S T0 T'"
    using assms by (auto simp: hole_def pos_def)
  ultimately show ?thesis
    using assms(2,3) True by (simp add: hole_def inside_def)
next
  case False
  then show ?thesis
    using assms by (auto simp: hole_def)
qed

lemma hole_pos: "hole S T0 i T k t c \<Longrightarrow> pos S T0 i T k t"
  by (simp add: hole_def)

section \<open>One step of the loop\<close>

lemma bar_red_sibling_run:
  assumes h: "hole S T0 i T ((d, (x, xr, xc, xs), nd d B (y, True, yc, ys) C) # k) t c"
  shows "\<exists>T'. bar_red_sibling c (\<not> d) i (Some x) (Some y) T = Done (ptr B, T')
    \<and> hole S T0 i T' ((d, (x, True, xc, xs), B) # (d, (y, False, yc, ys), C) # k) t c"
proof -
  let ?S = "nd d B (y, True, yc, ys) C" and ?S' = "nd d B (y, False, yc, ys) C"
  have p: "pos S T0 i T ((\<not> d, (x, xr, xc, xs), t) # k) ?S"
    using hole_pos [OF h] by (subst (asm) pos_sibling) simp
  obtain T1 where T1: "set_red (Some y) False T = Done T1" "pos S T0 i T1 ((\<not> d, (x, xr, xc, xs), t) # k) ?S'"
    using pos_set_red [OF p, of False] by auto
  have "pos S T0 i T1 k (nd d t (x, xr, xc, xs) ?S')"
    using T1(2) by (subst pos_move) (subst pos_sibling, simp)
  then obtain T2 where T2: "set_red (Some x) True T1 = Done T2" "pos S T0 i T2 k (nd d t (x, True, xc, xs) ?S')"
    using pos_set_red [of S T0 i T1 k "nd d t (x, xr, xc, xs) ?S'" True] by auto
  obtain T3 where T3: "TreeRotate (Some x) d i T2 = Done T3"
    "pos S T0 i T3 k (nd d (nd d t (x, True, xc, xs) B) (y, False, yc, ys) C)"
    using pos_rotate [OF T2(2)] by blast
  then have p3: "pos S T0 i T3 ((d, (x, True, xc, xs), B) # (d, (y, False, yc, ys), C) # k) t"
    by (simp add: pos_move)
  then have h3: "hole S T0 i T3 ((d, (x, True, xc, xs), B) # (d, (y, False, yc, ys), C) # k) t c"
    using hole_keep [OF h] by simp
  have "child_of (Some x) (\<not> d) T3 = Done (ptr B)"
    using pos_up [OF p3] by (simp add: child_of_def)
  then show ?thesis
    using T1(1) T2(1) T3(1) h3 hole_reads(1) [OF h3] by (simp add: bar_red_sibling_def)
qed

lemma kids:
  assumes "pos S T0 i T k (nd d I (s, sr, sc, ss) O')"
  shows "child_of (Some s) d T = Done (ptr I)" "child_of (Some s) (\<not> d) T = Done (ptr O')"
    "isBlack (ptr I) T = Done (\<not> root_red I)" "isBlack (ptr O') T = Done (\<not> root_red O')"
proof -
  have l: "pos S T0 i T ((d, (s, sr, sc, ss), O') # k) I"
    using assms by (simp add: pos_move)
  show "child_of (Some s) d T = Done (ptr I)" "child_of (Some s) (\<not> d) T = Done (ptr O')"
    using pos_up [OF l] by (simp_all add: child_of_def)
  show "isBlack (ptr I) T = Done (\<not> root_red I)" "isBlack (ptr O') T = Done (\<not> root_red O')"
    using pos_red(2) [OF l] pos_red(2) [OF l [unfolded pos_sibling [of _ _ _ _ d]]] by auto
qed

lemma bar_recolour_run:
  assumes h: "hole S T0 i T ((d, (x, xr, xc, xs), nd d I (s, sr, sc, ss) O') # k) t c"
    and black: "\<not> root_red I" "\<not> root_red O'"
  shows "\<exists>T'. bar_black_sibling c (\<not> d) i (Some s) T = Done (Some x, T')
    \<and> pos S T0 i T' k (nd d t (x, xr, xc, xs) (nd d I (s, True, sc, ss) O'))"
proof -
  let ?S = "nd d I (s, sr, sc, ss) O'" and ?S' = "nd d I (s, True, sc, ss) O'"
  have p: "pos S T0 i T ((\<not> d, (x, xr, xc, xs), t) # k) ?S"
    using hole_pos [OF h] by (subst (asm) pos_sibling) simp
  obtain T1 where T1: "set_red (Some s) True T = Done T1" "pos S T0 i T1 ((\<not> d, (x, xr, xc, xs), t) # k) ?S'"
    using pos_set_red [OF p, of True] by auto
  have p1: "pos S T0 i T1 ((d, (x, xr, xc, xs), ?S') # k) t"
    using T1(2) by (subst pos_sibling)
  have "parent_of c T1 = Done (Some x)"
    using hole_reads(1) [OF hole_keep [OF h p1]] by simp
  moreover have "child_of (Some s) d T = Done (ptr I)" "child_of (Some s) (\<not> d) T = Done (ptr O')"
    "isBlack (ptr I) T = Done True" "isBlack (ptr O') T = Done True"
    using kids [OF p] black by auto
  ultimately show ?thesis
    using T1(1) p1 by (simp add: bar_black_sibling_def pos_move)
qed


lemma bar_red_outer_run:
  assumes h: "hole S T0 i T ((d, (x, xr, xc, xs), nd d I (s, sr, sc, ss) O') # k) t c" and O': "O' \<noteq> Leaf"
  shows "\<exists>T'. bar_red_outer c (\<not> d) i (Some s) T = Done (root_of i T', T')
    \<and> pos S T0 i T' k (nd d (nd d t (x, False, xc, xs) I) (s, xr, sc, ss) (paint False O'))"
proof -
  let ?S = "nd d I (s, sr, sc, ss) O'" and ?S' = "nd d I (s, xr, sc, ss) O'" and ?S2 = "nd d I (s, xr, sc, ss) (paint False O')"
  have p: "pos S T0 i T ((\<not> d, (x, xr, xc, xs), t) # k) ?S"
    using hole_pos [OF h] by (subst (asm) pos_sibling) simp
  obtain T1 where T1: "set_red (Some s) xr T = Done T1" "pos S T0 i T1 ((\<not> d, (x, xr, xc, xs), t) # k) ?S'"
    using pos_set_red [OF p, of xr] by auto
  have p1: "pos S T0 i T1 ((d, (x, xr, xc, xs), ?S') # k) t"
    using T1(2) by (subst pos_sibling)
  then have "pos S T0 i T1 k (nd d t (x, xr, xc, xs) ?S')"
    by (simp add: pos_move)
  then obtain T2 where T2: "set_red (Some x) False T1 = Done T2" "pos S T0 i T2 k (nd d t (x, False, xc, xs) ?S')"
    using pos_set_red [of S T0 i T1 k "nd d t (x, xr, xc, xs) ?S'" False] by auto
  then have "pos S T0 i T2 ((d, (x, False, xc, xs), ?S') # k) t"
    by (simp add: pos_move)
  then have p2: "pos S T0 i T2 ((\<not> d, (x, False, xc, xs), t) # k) ?S'"
    by (subst (asm) pos_sibling)
  then have "pos S T0 i T2 ((\<not> d, (s, xr, sc, ss), I) # (\<not> d, (x, False, xc, xs), t) # k) O'"
    by (simp add: pos_move pos_sibling [of _ _ _ _ d])
  then obtain T3 where T3: "set_red (ptr O') False T2 = Done T3"
    "pos S T0 i T3 ((\<not> d, (s, xr, sc, ss), I) # (\<not> d, (x, False, xc, xs), t) # k) (paint False O')"
    using pos_set_red O' by blast
  have "pos S T0 i T3 ((d, (s, xr, sc, ss), paint False O') # (\<not> d, (x, False, xc, xs), t) # k) I"
    using T3(2) by (subst pos_sibling)
  then have "pos S T0 i T3 ((\<not> d, (x, False, xc, xs), t) # k) ?S2"
    by (simp add: pos_move)
  then have "pos S T0 i T3 ((d, (x, False, xc, xs), ?S2) # k) t"
    by (subst pos_sibling)
  then have p3: "pos S T0 i T3 k (nd d t (x, False, xc, xs) ?S2)"
    by (simp add: pos_move)
  obtain T4 where T4: "TreeRotate (Some x) d i T3 = Done T4"
    "pos S T0 i T4 k (nd d (nd d t (x, False, xc, xs) I) (s, xr, sc, ss) (paint False O'))"
    using pos_rotate [OF p3] by blast
  have "tree_node_at (Some x) T = Done (mk (par_of k) (kid d (ptr t) (Some s)) xr xc xs)"
    using pos_up [OF hole_pos [OF h]] by simp
  then show ?thesis
    using T1(1) T2(1) T3(1) T4 hole_reads(1) [OF h] kids(2) [OF p2] by (simp add: bar_red_outer_def)
qed

lemma bar_red_inner_run:
  assumes h: "hole S T0 i T ((d, (x, xr, xc, xs), nd d (nd d I1 (w, wr, wc, ws) I2) (s, sr, sc, ss) O') # k) t c"
  shows "\<exists>T'. bar_red_inner c (\<not> d) i (Some w) (Some s) T = Done (Some w, T')
    \<and> hole S T0 i T' ((d, (x, xr, xc, xs), nd d I1 (w, False, wc, ws) (nd d I2 (s, True, sc, ss) O')) # k) t c"
proof -
  let ?W = "nd d I1 (w, wr, wc, ws) I2" and ?W' = "nd d I1 (w, False, wc, ws) I2"
  have p: "pos S T0 i T ((\<not> d, (x, xr, xc, xs), t) # k) (nd d ?W (s, sr, sc, ss) O')"
    using hole_pos [OF h] by (subst (asm) pos_sibling) simp
  then have "pos S T0 i T ((d, (s, sr, sc, ss), O') # (\<not> d, (x, xr, xc, xs), t) # k) ?W"
    by (subst (asm) pos_move)
  then obtain T1 where T1: "set_red (Some w) False T = Done T1" "pos S T0 i T1 ((d, (s, sr, sc, ss), O') # (\<not> d, (x, xr, xc, xs), t) # k) ?W'"
    using pos_set_red [of S T0 i T _ ?W False] by auto
  then have "pos S T0 i T1 ((\<not> d, (x, xr, xc, xs), t) # k) (nd d ?W' (s, sr, sc, ss) O')"
    by (subst pos_move)
  then obtain T2 where T2: "set_red (Some s) True T1 = Done T2" "pos S T0 i T2 ((\<not> d, (x, xr, xc, xs), t) # k) (nd d ?W' (s, True, sc, ss) O')"
    using pos_set_red [of S T0 i T1 _ "nd d ?W' (s, sr, sc, ss) O'" True] by auto
  then have p2: "pos S T0 i T2 ((\<not> d, (x, xr, xc, xs), t) # k) (nd (\<not> d) O' (s, True, sc, ss) (nd (\<not> d) I2 (w, False, wc, ws) I1))"
    by (simp add: nd_flip)
  obtain T3 where T3: "TreeRotate (Some s) (\<not> d) i T2 = Done T3"
    "pos S T0 i T3 ((\<not> d, (x, xr, xc, xs), t) # k) (nd (\<not> d) (nd (\<not> d) O' (s, True, sc, ss) I2) (w, False, wc, ws) I1)"
    using pos_rotate [OF p2] by blast
  then have p3: "pos S T0 i T3 ((d, (x, xr, xc, xs), nd d I1 (w, False, wc, ws) (nd d I2 (s, True, sc, ss) O')) # k) t"
    by (subst pos_sibling) (simp add: nd_flip)
  have h3: "hole S T0 i T3 ((d, (x, xr, xc, xs), nd d I1 (w, False, wc, ws) (nd d I2 (s, True, sc, ss) O')) # k) t c"
    using hole_keep [OF h p3] by simp
  have "child_of (Some x) (\<not> d) T3 = Done (Some w)"
    using pos_up [OF p3] by (simp add: child_of_def)
  then show ?thesis
    using T1(1) T2(1) T3(1) h3 hole_reads(1) [OF h3] by (simp add: bar_red_inner_def)
qed


section \<open>The loop\<close>

definition lacks :: "'c path \<Rightarrow> 'c cell tree \<Rightarrow> bool" where
  "lacks k t \<longleftrightarrow> invh t \<and> invc (paint False t) \<and> path_h (bh t + 1) k \<and> path_c k"

lemma invc_black: "invc (paint False t) \<Longrightarrow> \<not> root_red t \<Longrightarrow> invc t"
  using paint_black(3) [of t] by simp

lemma bar_black_sibling_run:
  assumes h: "hole S T0 i T ((d, (x, xr, xc, xs), nd d I (s, False, sc, ss) O') # k) t c"
    and l: "lacks ((d, (x, xr, xc, xs), nd d I (s, False, sc, ss) O') # k) t" and t: "\<not> root_red t"
  shows "\<exists>T' k' t'. bar_black_sibling c (\<not> d) i (Some s) T = Done (ptr t', T') \<and> pos S T0 i T' k' t' \<and> t' \<noteq> Leaf
    \<and> lacks k' t' \<and> items (plug k' t') = items (plug ((d, (x, xr, xc, xs), nd d I (s, False, sc, ss) O') # k) t)
    \<and> (k' = [] \<or> k' = k \<and> root_red t' = xr)"
proof -
  have inv: "invh t" "invc t" "bh I = bh t" "bh O' = bh t" "invh I" "invh O'" "invc I" "invc O'" "path_c k"
    "path_h (bh t + 1 + (if xr then 0 else 1)) k" "xr \<longrightarrow> k \<noteq> [] \<and> \<not> path_red k"
    using l invc_black [OF _ t] by (auto simp: lacks_def)
  have p: "pos S T0 i T ((\<not> d, (x, xr, xc, xs), t) # k) (nd d I (s, False, sc, ss) O')"
    using hole_pos [OF h] by (subst (asm) pos_sibling) simp
  have outer: "\<exists>T' t'. bar_red_outer c (\<not> d) i (Some s') T1 = Done (ptr t', T') \<and> pos S T0 i T' [] t' \<and> t' \<noteq> Leaf
      \<and> lacks [] t' \<and> items t' = items (plug ((d, (x, xr, xc, xs), nd d I' (s', sr, sc', ss') O'') # k) t)"
    if h1: "hole S T0 i T1 ((d, (x, xr, xc, xs), nd d I' (s', sr, sc', ss') O'') # k) t c"
      and kid: "root_red O''" "bh I' = bh t" "bh O'' = bh t" "invh I'" "invh O''" "invc I'" "invc O''"
    for T1 I' s' sr sc' ss' O''
  proof -
    let ?F = "nd d (nd d t (x, False, xc, xs) I') (s', xr, sc', ss') (paint False O'')"
    obtain T2 where T2: "bar_red_outer c (\<not> d) i (Some s') T1 = Done (root_of i T2, T2)" "pos S T0 i T2 k ?F"
      using bar_red_outer_run [OF h1] kid(1) by (cases "O'' = Leaf") auto
    have "invh (plug k ?F)"
      using inv kid by (auto simp: invh_plug paint_black)
    moreover have "invc (plug k ?F)"
      using inv kid invc_plug [of k ?F] by (auto intro: paint_black)
    ultimately have "lacks [] (plug k ?F)"
      by (simp add: lacks_def paint_black)
    moreover have "pos S T0 i T2 [] (plug k ?F)" "root_of i T2 = ptr (plug k ?F)"
      using T2(2) root_of_plug [OF T2(2)] by (simp_all add: pos_plug)
    ultimately show ?thesis
      using T2(1) by (intro exI [of _ T2] exI [of _ "plug k ?F"]) (simp add: items_plug items_nd)
  qed
  show ?thesis
  proof (cases "root_red O'")
    case True
    then show ?thesis
      using outer [OF h True] inv kids [OF p] by (fastforce simp: bar_black_sibling_def)
  next
    case O: False
    show ?thesis
    proof (cases "root_red I")
      case True
      then obtain I1 w wc ws I2 where I: "I = nd d I1 (w, True, wc, ws) I2"
        by (cases I rule: nd_cases [of _ _ d]) auto
      obtain T1 where T1: "bar_red_inner c (\<not> d) i (Some w) (Some s) T = Done (Some w, T1)"
        "hole S T0 i T1 ((d, (x, xr, xc, xs), nd d I1 (w, False, wc, ws) (nd d I2 (s, True, sc, ss) O')) # k) t c"
        using bar_red_inner_run [OF h [unfolded I]] by blast
      have "bh I1 = bh t" "bh (nd d I2 (s, True, sc, ss) O') = bh t" "invh I1" "invh (nd d I2 (s, True, sc, ss) O')"
        "invc I1" "invc (nd d I2 (s, True, sc, ss) O')"
        using inv O by (auto simp: I)
      then show ?thesis
        using outer [OF T1(2)] T1(1) kids [OF p] O by (fastforce simp: bar_black_sibling_def I items_plug items_nd)
    next
      case False
      let ?t = "nd d t (x, xr, xc, xs) (nd d I (s, True, sc, ss) O')"
      obtain T1 where "bar_black_sibling c (\<not> d) i (Some s) T = Done (Some x, T1)" "pos S T0 i T1 k ?t"
        using bar_recolour_run [OF h False O] by blast
      moreover have "lacks k ?t"
        using inv False O by (simp add: lacks_def)
      ultimately show ?thesis
        by (intro exI [of _ T1] exI [of _ k] exI [of _ ?t]) (simp add: items_plug items_nd)
    qed
  qed
qed


lemma bar_step:
  assumes h: "hole S T0 i T ((d, (x, xr, xc, xs), S0) # k) t c"
    and l: "lacks ((d, (x, xr, xc, xs), S0) # k) t" and t: "\<not> root_red t"
  shows "\<exists>T' k' t'. TreeBARSub c (\<not> d) i T = Done (ptr t', T') \<and> pos S T0 i T' k' t' \<and> t' \<noteq> Leaf \<and> lacks k' t'
    \<and> items (plug k' t') = items (plug ((d, (x, xr, xc, xs), S0) # k) t) \<and> (root_red t' \<or> length k' \<le> length k)"
proof -
  have "bh S0 = bh t + 1"
    using l by (simp add: lacks_def)
  then obtain I s sr sc ss O' where S0: "S0 = nd d I (s, sr, sc, ss) O'"
    by (cases S0 rule: nd_cases [of _ _ d]) auto
  note h = h [unfolded S0] and l = l [unfolded S0]
  have reads: "parent_of c T = Done (Some x)" "child_of (Some x) (\<not> d) T = Done (Some s)" "isRed (Some s) T = Done sr"
    using hole_reads(1) [OF h] pos_up [OF hole_pos [OF h]]
      pos_red(1) [OF hole_pos [OF h, unfolded pos_sibling [of _ _ _ _ d]]] by (auto simp: child_of_def)
  show ?thesis
  proof (cases sr)
    case True
    then have sr: "sr = True"
      by simp
    obtain T1 where T1: "bar_red_sibling c (\<not> d) i (Some x) (Some s) T = Done (ptr I, T1)"
      "hole S T0 i T1 ((d, (x, True, xc, xs), I) # (d, (s, False, sc, ss), O') # k) t c"
      using bar_red_sibling_run [OF h [unfolded sr]] by blast
    have l1: "lacks ((d, (x, True, xc, xs), I) # (d, (s, False, sc, ss), O') # k) t" and I: "\<not> root_red I" "bh I = bh t + 1"
      using l by (auto simp: lacks_def sr)
    then obtain I1 w wc ws I2 where I': "I = nd d I1 (w, False, wc, ws) I2"
      by (cases I rule: nd_cases [of _ _ d]) auto
    from bar_black_sibling_run [OF T1(2) [unfolded I'] l1 [unfolded I'] t] obtain T2 k2 t2 where
      "bar_black_sibling c (\<not> d) i (Some w) T1 = Done (ptr t2, T2)" "pos S T0 i T2 k2 t2" "t2 \<noteq> Leaf" "lacks k2 t2"
      "items (plug k2 t2) = items (plug ((d, (x, True, xc, xs), I) # (d, (s, False, sc, ss), O') # k) t)"
      "k2 = [] \<or> root_red t2"
      by (auto simp: I')
    then show ?thesis
      using reads T1(1) by (intro exI [of _ T2] exI [of _ k2] exI [of _ t2])
        (auto simp: TreeBARSub_def sr S0 I' items_plug items_nd)
  next
    case False
    then have sr: "sr = False"
      by simp
    from bar_black_sibling_run [OF h [unfolded sr] l [unfolded sr] t] obtain T2 k2 t2 where
      "bar_black_sibling c (\<not> d) i (Some s) T = Done (ptr t2, T2)" "pos S T0 i T2 k2 t2" "t2 \<noteq> Leaf" "lacks k2 t2"
      "items (plug k2 t2) = items (plug ((d, (x, xr, xc, xs), nd d I (s, False, sc, ss) O') # k) t)"
      "k2 = [] \<or> k2 = k"
      by blast
    then show ?thesis
      using reads by (intro exI [of _ T2] exI [of _ k2] exI [of _ t2]) (auto simp: TreeBARSub_def sr S0)
  qed
qed

lemma step_side:
  assumes h: "hole S T0 i T ((d, (x, xr, xc, xs), S0) # k) t c" and S0: "S0 \<noteq> Leaf"
  shows "balance_remove_step c i T = TreeBARSub c (\<not> d) i T"
proof -
  obtain n where n: "tree_node_at c T = Done n" "parent n = Some x" "node_content n = None \<longleftrightarrow> t = Leaf" "t \<noteq> Leaf \<longrightarrow> c = ptr t"
    using hole_node [OF h] by auto
  have "child_of (Some x) LEFT T = Done (kid d (ptr t) (ptr S0) LEFT)"
    using pos_up [OF hole_pos [OF h]] by (simp add: child_of_def)
  moreover have "ptr S0 \<noteq> ptr t"
    using pos_distinct [OF hole_pos [OF h]] S0 by (cases t rule: ptr.cases) (auto dest!: ptr_in)
  ultimately show ?thesis
    using n by (cases d; cases "t = Leaf") (auto simp: balance_remove_step_def)
qed

lemma pos_root_iff:
  assumes "pos S T0 i T k t" "t \<noteq> Leaf"
  shows "root_of i T = ptr t \<longleftrightarrow> k = []"
proof
  assume r: "root_of i T = ptr t"
  show "k = []"
  proof (rule ccontr)
    assume "k \<noteq> []"
    then obtain d x sib k' where k: "k = k' @ [(d, x, sib)]"
      by (cases k rule: rev_cases) auto
    have "plug (k' @ [(d, x, sib)]) t = nd d (plug k' t) x sib"
      by (induction k' t rule: plug.induct) auto
    then have "ptr t = Some (fst x)"
      using root_of_plug [OF assms(1)] r by (simp add: k)
    moreover have "fst x \<in> set (path_addrs k)"
      unfolding k by (induction k') auto
    ultimately show False
      using pos_distinct [OF assms(1)] by (auto dest!: ptr_in)
  qed
qed (use assms pos_root in auto)

lemma remove_loop:
  "hole S T0 i T k t c \<Longrightarrow> lacks k t \<Longrightarrow> (t = Leaf \<longrightarrow> k \<noteq> []) \<Longrightarrow>
     \<exists>T' k' t'. balance_remove_loop c i T = Some (Done (ptr t', T')) \<and> pos S T0 i T' k' t' \<and> t' \<noteq> Leaf \<and> lacks k' t'
       \<and> items (plug k' t') = items (plug k t) \<and> (root_red t' \<or> k' = [])"
proof (induction "length k + (if root_red t then 0 else 1)" arbitrary: k t c T rule: less_induct)
  case less
  note h = less.prems(1) and l = less.prems(2)
  show ?case
  proof (cases "t \<noteq> Leaf \<and> (k = [] \<or> root_red t)")
    case True
    then have "balance_remove_loop c i T = Some (Done (c, T))" "c = ptr t"
      using hole_reads(2) [OF h] h pos_root [of S T0 i T t] by (auto simp: hole_def intro!: balance_remove_loop.simps [THEN trans])
    then show ?thesis
      using True h l by (auto simp: hole_def)
  next
    case False
    then obtain d x xr xc xs S0 k1 where k: "k = (d, (x, xr, xc, xs), S0) # k1" and t: "\<not> root_red t"
      using less.prems(3) by (cases k rule: par_of.cases; cases "t = Leaf") auto
    have "bh S0 = bh t + 1"
      using l by (simp add: lacks_def k)
    then have S0: "S0 \<noteq> Leaf"
      by auto
    obtain T1 k2 t2 where T1: "TreeBARSub c (\<not> d) i T = Done (ptr t2, T1)" "pos S T0 i T1 k2 t2" "t2 \<noteq> Leaf" "lacks k2 t2"
      "items (plug k2 t2) = items (plug k t)" "root_red t2 \<or> length k2 \<le> length k1"
      using bar_step [OF h [unfolded k] l [unfolded k] t] by (auto simp: k)
    have "c \<noteq> root_of i T"
    proof (cases "t = Leaf")
      case True
      then have "c \<noteq> ptr (plug k t)"
        using h ptr_in by (fastforce simp: hole_def pos_def cells_of_plug)
      then show ?thesis
        using root_of_plug [OF hole_pos [OF h]] by simp
    qed (use h pos_root_iff [OF hole_pos [OF h]] k in \<open>auto simp: hole_def\<close>)
    then have next_turn: "balance_remove_loop c i T = balance_remove_loop (ptr t2) i T1"
      using hole_reads(2) [OF h] t step_side [OF h [unfolded k] S0] T1(1)
      by (subst balance_remove_loop.simps) simp
    show ?thesis
    proof (cases "length k2 + (if root_red t2 then 0 else 1) < length k + (if root_red t then 0 else 1)")
      case True
      then show ?thesis
        using less.hyps [OF True, of T1 "ptr t2"] T1 next_turn by (auto simp: hole_def)
    next
      case False
      have "balance_remove_loop (ptr t2) i T1 = Some (Done (ptr t2, T1))" if "root_red t2"
        using pos_red(2) [OF T1(2)] that by (subst balance_remove_loop.simps) simp
      then show ?thesis
        using False T1 next_turn by (auto simp: k t split: if_splits)
    qed
  qed
qed

lemma balance_after_remove:
  assumes "hole S T0 i T k t c" "lacks k t" "t = Leaf \<longrightarrow> k \<noteq> []"
  shows "\<exists>T' t'. TreeBalanceAfterRemove c i T = Done T' \<and> pos S T0 i T' [] t' \<and> rb t' \<and> items t' = items (plug k t)"
proof -
  obtain T1 k1 t1 where T1: "balance_remove_loop c i T = Some (Done (ptr t1, T1))" "pos S T0 i T1 k1 t1" "t1 \<noteq> Leaf" "lacks k1 t1"
    "items (plug k1 t1) = items (plug k t)" "root_red t1 \<or> k1 = []"
    using remove_loop [OF assms] by blast
  obtain T2 where T2: "set_red (ptr t1) False T1 = Done T2" "pos S T0 i T2 k1 (paint False t1)"
    using pos_set_red [OF T1(2,3)] by blast
  have "rb (plug k1 (paint False t1))"
  proof (cases "k1 = []")
    case True
    then show ?thesis
      using T1(4) by (simp add: lacks_def rb_def)
  next
    case False
    then show ?thesis
      unfolding rb_plug using T1(4,6) by (simp add: lacks_def paint_black)
  qed
  moreover have "items (plug k1 (paint False t1)) = items (plug k1 t1)"
    by (simp add: items_plug)
  ultimately show ?thesis
    using T1(1,5) T2 by (intro exI [of _ T2] exI [of _ "plug k1 (paint False t1)"])
      (simp add: TreeBalanceAfterRemove_def run_loop_def pos_plug)
qed

end
