(* ===== verification/Rb_Unlink.thy ===== *)
theory Rb_Unlink
  imports Rb_Remove
begin

text \<open>
  Taking a node out of the tree of \<^verbatim>\<open>mqtt/source/Tree.c\<close>: the successor, unlinking a node with at most
  one child, and \<open>TreeRemoveNodeIndex\<close> as a whole.
\<close>

section \<open>The successor\<close>

lemma minimum_at:
  "at T i k t \<Longrightarrow> t \<noteq> Leaf \<Longrightarrow>
     \<exists>kl x u. minimum_loop T (ptr t) = Some (Done (Some (fst x))) \<and> plug kl (Node Leaf x u) = t \<and> before kl = []"
proof (induction t arbitrary: k)
  case (Node l x u)
  obtain a r c s where x: "x = (a, r, c, s)"
    by (cases x) auto
  have "tree_node_at (Some a) T = Done (mk (par_of k) (kid LEFT (ptr l) (ptr u)) r c s)"
    using Node.prems(1) at_Node by (simp add: x)
  then have step: "minimum_loop T (Some a) = (if l = Leaf then Some (Done (Some a)) else minimum_loop T (ptr l))"
    by (subst minimum_loop.simps) (simp add: child_of_def)
  show ?case
  proof (cases "l = Leaf")
    case True
    then show ?thesis
      using step by (intro exI [of _ "[]"] exI [of _ x] exI [of _ u]) (simp add: x)
  next
    case False
    obtain kl y v where "minimum_loop T (ptr l) = Some (Done (Some (fst y)))" "plug kl (Node Leaf y v) = l" "before kl = []"
      using Node.IH(1) [of "(LEFT, x, u) # k"] Node.prems(1) False by (auto simp: x at_left)
    moreover have "plug (kl @ [(LEFT, x, u)]) t = nd LEFT (plug kl t) x u" "before (kl @ [(LEFT, x, u)]) = before kl" for t
      by (induction kl arbitrary: t) (auto simp: x)
    ultimately show ?thesis
      using step False by (intro exI [of _ "kl @ [(LEFT, x, u)]"] exI [of _ y] exI [of _ v]) (simp add: x nd_def)
  qed
qed simp

lemma plug_append: "plug (k1 @ k2) t = plug k2 (plug k1 t)"
  by (induction k1 t rule: plug.induct) auto

lemma at_append: "at T i (k1 @ k2) t \<longleftrightarrow> at T i k2 (plug k1 t)"
  using at_plug [of T i "k1 @ k2" t] at_plug [of T i k2 "plug k1 t"] by (simp add: plug_append)

section \<open>Unlinking\<close>

lemma at_other:
  assumes "a \<notin> cells_of k t"
  shows "at (T\<lparr>tree_nodes := (tree_nodes T)(a := v)\<rparr>) i k t = at T i k t"
  using assms by (simp add: at_def cells_of_def)

definition unlinked :: "nat \<Rightarrow> 'c path \<Rightarrow> addr option \<Rightarrow> ('c, 'k) rb_tree \<Rightarrow> ('c, 'k) rb_tree" where
  "unlinked i k p T = (if k = [] then set_root i p T else T)\<lparr>tree_nodes := relink k p (reparent (par_of k) p (tree_nodes T))\<rparr>"

lemma unlink_run:
  assumes at: "at T i k (Node l (a, r, c, s) u)" and one: "ch = l \<or> ch = u"
  shows "obind (if ptr ch \<noteq> None then set_parent (ptr ch) (par_of k) T else Done T) (\<lambda>T.
      obind (if par_of k = None then Done (set_root i (ptr ch) T)
             else obind (child_of (par_of k) LEFT T) (\<lambda>lchild.
               if Some a = lchild then set_child (par_of k) LEFT (ptr ch) T else set_child (par_of k) RIGHT (ptr ch) T)) f)
    = f (unlinked i k (ptr ch) T)"
proof -
  have ch: "ptr ch = None \<or> (\<exists>b n. ptr ch = Some b \<and> tree_nodes T b = Some n \<and> par_of k \<noteq> Some b)"
    using at one by (cases l rule: ptr.cases; cases u rule: ptr.cases) (auto simp: at_def dest!: par_of_in)
  show ?thesis
  proof (cases k rule: par_of.cases)
    case 1
    then show ?thesis
      using ch by (auto simp: unlinked_def set_parent_def set_tree_node_def tree_node_at_def set_root_def relink_def reparent_def
          intro!: arg_cong [of _ _ f] rb_tree.equality)
  next
    case (2 d b x sib k')
    obtain br bc bs where x: "x = (br, bc, bs)"
      by (cases x) auto
    have "tree_nodes T b = Some (mk (par_of k') (kid d (Some a) (ptr sib)) br bc bs)" "ptr sib \<noteq> Some a"
      using at by (auto simp: at_def 2 x dest!: ptr_in)
    then show ?thesis
      using ch by (cases d) (auto simp: 2 x unlinked_def set_parent_def set_child_def child_of_def set_tree_node_def tree_node_at_def
          relink_def reparent_def)
  qed
qed

lemma unlinked_at:
  assumes at: "at T i k (Node l (a, r, c, s) u)" and one: "l = Leaf \<and> ch = u \<or> u = Leaf \<and> ch = l"
  shows "at (unlinked i k (ptr ch) T) i k ch" "inside (cells_of k ch) T (unlinked i k (ptr ch) T)"
    "tree_nodes (unlinked i k (ptr ch) T) a = tree_nodes T a" "cells_of k (Node l (a, r, c, s) u) = insert a (cells_of k ch)"
    "a \<notin> cells_of k ch"
proof -
  let ?h = "tree_nodes T"
  have h: "i < length (index T)" "around ?h (root_of i T) (Some a) k" "shape ?h (Some a) ch"
    "distinct (addrs ch)" "distinct (path_addrs k)" "a \<notin> set (addrs ch)" "a \<notin> set (path_addrs k)"
    "set (addrs ch) \<inter> set (path_addrs k) = {}"
    using at one by (auto simp: at_def)
  have p: "set_option (ptr ch) \<subseteq> set (addrs ch)" "set_option (par_of k) \<subseteq> set (path_addrs k)"
    by (auto dest: ptr_in par_of_in)
  have off: "set_option (par_of k) \<inter> set (addrs ch) = {}" "set_option (ptr ch) \<inter> set (path_addrs k) = {}"
    using p h(8) by (blast, blast)
  have "shape (relink k (ptr ch) (reparent (par_of k) (ptr ch) ?h)) (par_of k) ch"
    using h(3,4) by (simp add: off shape_reparent_root)
  moreover have "around (relink k (ptr ch) (reparent (par_of k) (ptr ch) ?h)) (if k = [] then ptr ch else root_of i T) (ptr ch) k"
    using h(2,5) by (intro around_relink [of _ _ "Some a"]) (simp_all add: off)
  ultimately show "at (unlinked i k (ptr ch) T) i k ch"
    using h by (auto simp: at_def unlinked_def)
  have out: "relink k (ptr ch) (reparent (par_of k) (ptr ch) ?h) b = ?h b" if "b \<notin> cells_of k ch" for b
    using that p by (metis UnCI cells_of_def par_of_in ptr_in relink_at reparent_at)
  show "a \<notin> cells_of k ch"
    using h by (simp add: cells_of_def)
  then show "tree_nodes (unlinked i k (ptr ch) T) a = tree_nodes T a"
    by (simp add: unlinked_def out)
  show "inside (cells_of k ch) T (unlinked i k (ptr ch) T)"
    by (auto simp: inside_def unlinked_def out)
  show "cells_of k (Node l (a, r, c, s) u) = insert a (cells_of k ch)"
    using one by (auto simp: cells_of_def)
qed

section \<open>Colours after unlinking\<close>

lemma rb_unlink:
  assumes "rb (plug k (Node l (a, r, c, s) u))" and one: "l = Leaf \<and> ch = u \<or> u = Leaf \<and> ch = l"
  shows "if r then ch = Leaf \<and> rb (plug k ch) else lacks k ch"
proof -
  have inv: "invc (Node l (a, r, c, s) u)" "invh (Node l (a, r, c, s) u)" "path_c k" "path_h (bh (Node l (a, r, c, s) u)) k"
    using assms(1) unfolding rb_plug by auto
  have "bh ch = 0"
    using inv(2) one by auto
  moreover from this have "ch = Leaf \<or> root_red ch"
    by (cases ch rule: root_red.cases) (auto split: if_splits)
  ultimately show ?thesis
    using inv one unfolding rb_plug by (auto simp: lacks_def intro: paint_black)
qed

lemma path_content_addrs:
  "path_addrs (k1 @ (d, (a, r, c, s), sib) # k2) = path_addrs (k1 @ (d, (a, r, c', s'), sib) # k2)"
  by (induction k1 rule: path_addrs.induct) auto

lemma path_content:
  "path_h n (k1 @ (d, (a, r, c, s), sib) # k2) = path_h n (k1 @ (d, (a, r, c', s'), sib) # k2)"
  "path_c (k1 @ (d, (a, r, c, s), sib) # k2) = path_c (k1 @ (d, (a, r, c', s'), sib) # k2)"
  "par_of (k1 @ (d, (a, r, c, s), sib) # k2) = par_of (k1 @ (d, (a, r, c', s'), sib) # k2)"
proof -
  show p: "par_of (k1 @ (d, (a, r, c, s), sib) # k2) = par_of (k1 @ (d, (a, r, c', s'), sib) # k2)"
    by (cases k1 rule: par_of.cases) auto
  have "path_red (k1 @ (d, (a, r, c, s), sib) # k2) = path_red (k1 @ (d, (a, r, c', s'), sib) # k2)" for k1
    by (cases k1 rule: path_red.cases) auto
  then show "path_c (k1 @ (d, (a, r, c, s), sib) # k2) = path_c (k1 @ (d, (a, r, c', s'), sib) # k2)"
    by (induction k1 rule: path_c.induct) auto
  show "path_h n (k1 @ (d, (a, r, c, s), sib) # k2) = path_h n (k1 @ (d, (a, r, c', s'), sib) # k2)"
    by (induction n k1 rule: path_h.induct) auto
qed


section \<open>Removing a node\<close>

lemma shape_live: "shape h up t \<Longrightarrow> a \<in> set (addrs t) \<Longrightarrow> h a \<noteq> None"
  by (induction h up t rule: shape.induct) auto

lemma at_live: "at T i k t \<Longrightarrow> a \<in> cells_of k t \<Longrightarrow> tree_nodes T a \<noteq> None"
  using shape_live [of "tree_nodes T" None "plug k t" a] at_plug [of T i k t] by (simp add: at_def cells_of_plug)

lemma rebalance_run:
  assumes at: "at T i k ch" and inv: "if r then ch = Leaf \<and> rb (plug k ch) else lacks k ch"
    and a: "tree_nodes T a = Some (mk (par_of k) kd r c s)" and tmp: "tree_nodes T tmp = None"
  shows "\<exists>T' t'. (\<forall>f. obind (isBlack (Some a) T) (\<lambda>b. obind (if \<not> b then Done T
       else if ptr ch = None then
         obind (parent_of (Some a) T) (\<lambda>up. if up = None then Done T else
           let T = T\<lparr>tree_nodes := (tree_nodes T)(tmp \<mapsto> zero_node\<lparr>parent := up\<rparr>)\<rparr> in
           obind (TreeBalanceAfterRemove (Some tmp) i T) (\<lambda>T. Done (T\<lparr>tree_nodes := (tree_nodes T)(tmp := None)\<rparr>)))
       else TreeBalanceAfterRemove (ptr ch) i T) f) = f T')
     \<and> pos (cells_of k ch) T i T' [] t' \<and> rb t' \<and> items t' = items (plug k ch)"
proof -
  have reads: "isBlack (Some a) T = Done (\<not> r)" "parent_of (Some a) T = Done (par_of k)"
    using a by (simp_all add: isBlack_def parent_of_def tree_node_at_def)
  have here: "pos (cells_of k ch) T i T [] (plug k ch)"
    using at by (simp add: pos_plug) (simp add: pos_def)
  consider "r \<or> ch = Leaf \<and> k = []" | "\<not> r" "ch = Leaf" "k \<noteq> []" | "\<not> r" "ch \<noteq> Leaf"
    by blast
  then show ?thesis
  proof cases
    case 1
    then have "rb (plug k ch)"
      using inv by (cases r) (auto simp: rb_def)
    then show ?thesis
      using here reads 1 inv by (intro exI [of _ T] exI [of _ "plug k ch"]) auto
  next
    case 2
    have off: "tmp \<notin> cells_of k ch"
    proof
      assume "tmp \<in> cells_of k ch"
      then show False
        using at_live [OF at] tmp by blast
    qed
    obtain b where b: "par_of k = Some b"
      using 2(3) by (cases k rule: par_of.cases) auto
    let ?T = "T\<lparr>tree_nodes := (tree_nodes T)(tmp \<mapsto> zero_node\<lparr>parent := Some b\<rparr>)\<rparr>"
    have h: "hole (cells_of k Leaf) ?T i ?T k Leaf (Some tmp)"
      using at off 2(2) at_other [of tmp k Leaf T "Some (zero_node\<lparr>parent := Some b\<rparr>)" i] by (simp add: hole_def pos_def b)
    then obtain T1 t1 where T1: "TreeBalanceAfterRemove (Some tmp) i ?T = Done T1" "pos (cells_of k Leaf) ?T i T1 [] t1"
      "rb t1" "items t1 = items (plug k Leaf)"
      using balance_after_remove [OF h] inv 2 by auto
    let ?T' = "T1\<lparr>tree_nodes := (tree_nodes T1)(tmp := None)\<rparr>"
    have "tmp \<notin> cells_of [] t1" "cells_of [] t1 = cells_of k Leaf"
      using T1(2) off 2(2) by (simp_all add: pos_def)
    then have "pos (cells_of k Leaf) T i ?T' [] t1"
      using T1(2) tmp off 2(2) at_other [of tmp "[]" t1 T1 None i] by (auto simp: pos_def inside_def)
    then show ?thesis
      using T1 reads 2 b by (intro exI [of _ ?T'] exI [of _ t1]) (simp add: Let_def)
  next
    case 3
    then have "hole (cells_of k ch) T i T k ch (ptr ch)"
      using at by (simp add: hole_def pos_def)
    then show ?thesis
      using balance_after_remove [of _ _ i T k ch "ptr ch"] inv 3 reads by fastforce
  qed
qed

lemma remove_rest:
  fixes T :: "('c, 'k) rb_tree"
  assumes n0: "tree_node_at (Some a0) T = Done n" "i < length (index T)"
    and succ: "(if child n LEFT \<noteq> None \<and> child n RIGHT \<noteq> None then TreeSuccessor (Some a0) T else Done (Some a0)) = Done (Some a)"
    and at: "at T i k (Node l (a, r, c, s) u)" and one: "l = Leaf \<and> ch = u \<or> u = Leaf \<and> ch = l"
    and content: "(if a \<noteq> a0 then obind (tree_node_at (Some a) (unlinked i k (ptr ch) T)) (\<lambda>m.
        set_tree_node (Some a0) (\<lambda>n. n\<lparr>node_content := node_content m, node_size := node_size m\<rparr>) (unlinked i k (ptr ch) T))
      else Done (unlinked i k (ptr ch) T)) = Done T2"
    and at2: "at T2 i k' ch" "par_of k' = par_of k" "tree_nodes T2 a = tree_nodes T a" "tree_nodes T2 tmp = None"
      "inside (cells_of k' ch) T T2" "a \<notin> cells_of k' ch"
    and inv: "if r then ch = Leaf \<and> rb (plug k' ch) else lacks k' ch"
  shows "\<exists>T' t'. TreeRemoveNodeIndex tmp (Some a0) i T = Done (node_content n, T') \<and> at T' i [] t' \<and> rb t'
    \<and> items t' = items (plug k' ch) \<and> set (addrs t') = cells_of k' ch
    \<and> inside (set (addrs t')) (counted i (- 1) (- node_size n) (T\<lparr>tree_nodes := (tree_nodes T)(a := None)\<rparr>)) T'"
proof -
  have na: "tree_node_at (Some a) T = Done (mk (par_of k) (kid LEFT (ptr l) (ptr u)) r c s)"
    using at_Node [OF at] .
  then have "tree_nodes T2 a = Some (mk (par_of k') (kid LEFT (ptr l) (ptr u)) r c s)"
    using at2(2,3) by (simp add: tree_node_at_def split: option.splits)
  from rebalance_run [OF at2(1) inv this at2(4)] obtain T3 t3 where T3:
    "\<And>f :: ('c, 'k) rb_tree \<Rightarrow> ('c option \<times> ('c, 'k) rb_tree) outcome. obind (isBlack (Some a) T2) (\<lambda>b. obind (if \<not> b then Done T2
       else if ptr ch = None then
         obind (parent_of (Some a) T2) (\<lambda>up. if up = None then Done T2 else
           let T = T2\<lparr>tree_nodes := (tree_nodes T2)(tmp \<mapsto> zero_node\<lparr>parent := up\<rparr>)\<rparr> in
           obind (TreeBalanceAfterRemove (Some tmp) i T) (\<lambda>T. Done (T\<lparr>tree_nodes := (tree_nodes T)(tmp := None)\<rparr>)))
       else TreeBalanceAfterRemove (ptr ch) i T2) f) = f T3"
    "pos (cells_of k' ch) T2 i T3 [] t3" "rb t3" "items t3 = items (plug k' ch)"
    by blast
  let ?T4 = "T3\<lparr>tree_nodes := (tree_nodes T3)(a := None)\<rparr>"
  have child: "child_of (Some a) LEFT T = Done (ptr l)" "child_of (Some a) (if ptr l \<noteq> None then LEFT else RIGHT) T = Done (ptr ch)"
    "parent_of (Some a) T = Done (par_of k)"
    using na one by (auto simp: child_of_def parent_of_def)
  have one': "ch = l \<or> ch = u"
    using one by blast
  have "TreeRemoveNodeIndex tmp (Some a0) i T = (let T = T3\<lparr>tree_nodes := (tree_nodes T3)(the (Some a) := None)\<rparr> in
      Done (node_content n, if i = 0 then T\<lparr>tree_size := tree_size T - node_size n, tree_count := tree_count T - 1\<rparr> else T))"
    unfolding TreeRemoveNodeIndex_def
    by (simp only: n0 check_True obind.simps succ child unlink_run [OF at one'] option.inject content T3(1))
  also have "\<dots> = Done (node_content n, counted i (- 1) (- node_size n) ?T4)"
    by (auto simp: Let_def counted_def intro!: rb_tree.equality)
  finally have "TreeRemoveNodeIndex tmp (Some a0) i T = Done (node_content n, counted i (- 1) (- node_size n) ?T4)" .
  moreover have "set (addrs t3) = cells_of k' ch"
    using T3(2) by (simp add: pos_def cells_of_def)
  moreover have "at (counted i (- 1) (- node_size n) ?T4) i [] t3"
    using T3(2) at2(6) at_other [of a "[]" t3 T3 None i] by (simp add: pos_def)
  moreover have "inside (cells_of k' ch) (counted i (- 1) (- node_size n) (T\<lparr>tree_nodes := (tree_nodes T)(a := None)\<rparr>))
      (counted i (- 1) (- node_size n) ?T4)"
    using T3(2) at2(5) by (auto simp: pos_def inside_def counted_def meta_def)
  ultimately show ?thesis
    using T3(3,4) by auto
qed


lemma remove_node:
  fixes T :: "('c, 'k) rb_tree"
  assumes at: "at T i k0 (Node l0 (a0, r0, c0, s0) u0)" and rb: "rb (plug k0 (Node l0 (a0, r0, c0, s0) u0))"
    and tmp: "tree_nodes T tmp = None"
  shows "\<exists>T' t' a. TreeRemoveNodeIndex tmp (Some a0) i T = Done (Some c0, T') \<and> at T' i [] t' \<and> rb t'
    \<and> items t' = before k0 @ items l0 @ items u0 @ after k0
    \<and> a \<notin> set (addrs t') \<and> set (addrs (plug k0 (Node l0 (a0, r0, c0, s0) u0))) = insert a (set (addrs t'))
    \<and> inside (set (addrs t')) (counted i (- 1) (- s0) (T\<lparr>tree_nodes := (tree_nodes T)(a := None)\<rparr>)) T'"
proof -
  let ?N0 = "Node l0 (a0, r0, c0, s0) u0" and ?n = "mk (par_of k0) (kid LEFT (ptr l0) (ptr u0)) r0 c0 s0"
  have n0: "tree_node_at (Some a0) T = Done ?n" and i: "i < length (index T)"
    using at_Node [OF at] at by (simp_all add: at_def)
  show ?thesis
  proof (cases "l0 = Leaf \<or> u0 = Leaf")
    case True
    then obtain ch where one: "l0 = Leaf \<and> ch = u0 \<or> u0 = Leaf \<and> ch = l0"
      by blast
    note un = unlinked_at [OF at one]
    have "tree_nodes (unlinked i k0 (ptr ch) T) tmp = None"
      using un(2) at_live [OF un(1)] tmp by (metis inside_def at_live [OF at] insertI2 un(4))
    moreover have "items (plug k0 ch) = before k0 @ items l0 @ items u0 @ after k0"
      using one by (auto simp: items_plug)
    ultimately obtain T' t' where "TreeRemoveNodeIndex tmp (Some a0) i T = Done (Some c0, T')" "at T' i [] t'" "rb t'"
      "items t' = before k0 @ items l0 @ items u0 @ after k0" "set (addrs t') = cells_of k0 ch"
      "inside (set (addrs t')) (counted i (- 1) (- s0) (T\<lparr>tree_nodes := (tree_nodes T)(a0 := None)\<rparr>)) T'"
      using remove_rest [OF n0 i _ at one _ un(1) refl un(3) _ un(2) un(5) rb_unlink [OF rb one], of tmp] one by auto
    then show ?thesis
      using un(4,5) cells_of_plug [of k0 ?N0] by (intro exI [of _ T'] exI [of _ t'] exI [of _ a0]) simp
  next
    case False
    have atu: "at T i ((RIGHT, (a0, r0, c0, s0), l0) # k0) u0"
      using at by (simp add: at_right)
    obtain kl x u where m: "minimum_loop T (ptr u0) = Some (Done (Some (fst x)))" "plug kl (Node Leaf x u) = u0" "before kl = []"
      using minimum_at [OF atu] False by auto
    obtain a r c s where x: "x = (a, r, c, s)"
      by (cases x) auto
    let ?k = "kl @ (RIGHT, (a0, r0, c0, s0), l0) # k0" and ?k' = "kl @ (RIGHT, (a0, r0, c, s), l0) # k0"
    have atm: "at T i ?k (Node Leaf (a, r, c, s) u)"
      using atu m(2) by (simp add: at_append x)
    have succ: "TreeSuccessor (Some a0) T = Done (Some a)"
      using n0 False m(1) by (simp add: TreeSuccessor_def child_of_def TreeMinimum_def run_loop_def x)
    have one: "(Leaf :: 'c cell tree) = Leaf \<and> u = u \<or> u = Leaf \<and> u = Leaf"
      by simp
    note un = unlinked_at [OF atm one]
    have plug: "plug ?k (Node Leaf (a, r, c, s) u) = plug k0 ?N0"
      using m(2) by (simp add: plug_append x nd_def)
    have aa: "a \<noteq> a0" and cells: "cells_of ?k' u = cells_of ?k u" "a0 \<in> cells_of ?k u"
    proof -
      have a0: "a0 \<in> set (path_addrs (kl @ (d, (a0, y), v) # k2))" for d y v k2
        by (induction kl) auto
      then show "a0 \<in> cells_of ?k u"
        by (simp add: cells_of_def)
      then show "a \<noteq> a0"
        using un(5) by blast
      show "cells_of ?k' u = cells_of ?k u"
        using path_content_addrs [of kl RIGHT a0 r0 c s l0 k0 c0 s0] by (simp add: cells_of_def)
    qed
    let ?T1 = "unlinked i ?k (ptr u) T"
    have "at ?T1 i k0 (nd RIGHT (plug kl u) (a0, r0, c0, s0) l0)"
      using un(1) by (simp add: at_append at_move)
    then obtain T2 where T2: "set_tree_node (Some a0) (\<lambda>n. n\<lparr>node_content := Some c, node_size := s\<rparr>) ?T1 = Done T2"
      "at T2 i k0 (nd RIGHT (plug kl u) (a0, r0, c, s) l0)" "inside {a0} ?T1 T2"
      using set_node_at [of ?T1 i k0 RIGHT "plug kl u" a0 r0 c0 s0 l0 "\<lambda>n. n\<lparr>node_content := Some c, node_size := s\<rparr>" r0 c s]
      by auto
    have at2: "at T2 i ?k' u"
      using T2(2) by (simp add: at_append at_move)
    have ins: "inside (cells_of ?k' u) T T2"
      using inside_trans [OF un(2) inside_mono [OF T2(3)]] cells by simp
    have na: "tree_nodes T2 a = tree_nodes T a" "tree_node_at (Some a) ?T1 = Done (mk (par_of ?k) (kid LEFT None (ptr u)) r c s)"
      using ins un(3,5) cells(1) at_Node [OF atm] by (simp_all add: inside_def tree_node_at_def)
    have "tmp \<notin> cells_of ?k u"
      using at_live [OF atm, of tmp] tmp un(4) by auto
    then have nt: "tree_nodes T2 tmp = None"
      using ins tmp by (simp add: inside_def cells(1))
    have inv: "if r then u = Leaf \<and> rb (plug ?k' u) else lacks ?k' u"
      using rb_unlink [OF rb [folded plug] one]
        path_content(1) [where n = "bh u" and ?k1.0 = kl and d = RIGHT and a = a0 and r = r0 and c = c0 and s = s0 and sib = l0 and ?k2.0 = k0 and c' = c and s' = s]
        path_content(1) [where n = "bh u + 1" and ?k1.0 = kl and d = RIGHT and a = a0 and r = r0 and c = c0 and s = s0 and sib = l0 and ?k2.0 = k0 and c' = c and s' = s]
        path_content(2) [where ?k1.0 = kl and d = RIGHT and a = a0 and r = r0 and c = c0 and s = s0 and sib = l0 and ?k2.0 = k0 and c' = c and s' = s]
      by (cases r) (auto simp: lacks_def rb_plug)
    have "items (plug ?k' u) = before k0 @ items l0 @ items u0 @ after k0"
      using m(3) by (simp add: plug_append items_plug items_nd flip: m(2)) (simp add: x)
    then obtain T' t' where "TreeRemoveNodeIndex tmp (Some a0) i T = Done (Some c0, T')" "at T' i [] t'" "rb t'"
      "items t' = before k0 @ items l0 @ items u0 @ after k0" "set (addrs t') = cells_of ?k' u"
      "inside (set (addrs t')) (counted i (- 1) (- s0) (T\<lparr>tree_nodes := (tree_nodes T)(a := None)\<rparr>)) T'"
      using remove_rest [OF n0 i _ atm one _ at2 path_content(3) na(1) nt ins _ inv] succ aa na(2) T2(1) un(5) cells(1) False
      by auto
    then show ?thesis
      using un(4,5) cells(1) cells_of_plug [of ?k "Node Leaf (a, r, c, s) u"] plug
      by (intro exI [of _ T'] exI [of _ t'] exI [of _ a]) simp
  qed
qed

end
