(* ===== verification/Rb_Refine.thy ===== *)
theory Rb_Refine
  imports Rb_Unlink
begin

text \<open>
  The tree of \<^verbatim>\<open>mqtt/source/Tree.c\<close> with one index, as \<^verbatim>\<open>mqtt/source/Heap.c\<close> uses it, refines a list of
  contents in order, and is balanced.
\<close>

section \<open>The list a tree stands for\<close>

definition search_tree :: "('c \<Rightarrow> 'k + 'c \<Rightarrow> int) \<Rightarrow> ('c \<times> int) list \<Rightarrow> ('c, 'k) rb_tree \<Rightarrow> bool" where
  "search_tree cmp xs T \<longleftrightarrow> (\<exists>t. at T 0 [] t \<and> rb t \<and> items t = xs \<and> dom (tree_nodes T) = set (addrs t)) \<and> ordered cmp xs
     \<and> compare (index T ! 0) = cmp \<and> indexes T = 1 \<and> \<not> allow_duplicates T
     \<and> tree_count T = int (length xs) \<and> tree_size T = sum_list (map snd xs)"

datatype ('c, 'k) tree_op = Add addr 'c int | Remove addr 'c | Remove_key addr 'k | Find 'k

fun tree_step :: "('c, 'k) tree_op \<Rightarrow> ('c, 'k) rb_tree \<Rightarrow> ('c option \<times> ('c, 'k) rb_tree) outcome" where
  "tree_step (Add new c sz) T = TreeAdd (\<lambda>_. new) c sz T"
| "tree_step (Remove temp c) T = TreeRemove temp c T"
| "tree_step (Remove_key temp k) T = TreeRemoveKey temp k T"
| "tree_step (Find k) T = obind (TreeFind k T) (\<lambda>p.
     if p = None then Done (None, T) else obind (tree_node_at p T) (\<lambda>n. Done (node_content n, T)))"

fun list_step :: "('c \<Rightarrow> 'k + 'c \<Rightarrow> int) \<Rightarrow> ('c, 'k) tree_op \<Rightarrow> ('c \<times> int) list \<Rightarrow> 'c option \<times> ('c \<times> int) list" where
  "list_step cmp (Add new c sz) xs = (None, insert_item cmp c sz xs)"
| "list_step cmp (Remove temp c) xs = (map_option fst (find (same cmp (Inr c)) xs), remove_item cmp (Inr c) xs)"
| "list_step cmp (Remove_key temp k) xs = (map_option fst (find (same cmp (Inl k)) xs), remove_item cmp (Inl k) xs)"
| "list_step cmp (Find k) xs = (map_option fst (find (same cmp (Inl k)) xs), xs)"

text \<open>
  A new node is where nothing is allocated, what is added is not yet there, and the local node of a
  removal is not in the heap.
\<close>

fun tree_pre :: "('c \<Rightarrow> 'k + 'c \<Rightarrow> int) \<Rightarrow> ('c, 'k) tree_op \<Rightarrow> ('c \<times> int) list \<Rightarrow> ('c, 'k) rb_tree \<Rightarrow> bool" where
  "tree_pre cmp (Add new c sz) xs T \<longleftrightarrow> tree_nodes T new = None \<and> find (same cmp (Inr c)) xs = None"
| "tree_pre cmp (Remove temp c) xs T \<longleftrightarrow> tree_nodes T temp = None"
| "tree_pre cmp (Remove_key temp k) xs T \<longleftrightarrow> tree_nodes T temp = None"
| "tree_pre cmp (Find k) xs T \<longleftrightarrow> True"

lemma dom_at:
  assumes "at T i [] t" "inside (set (addrs t)) T0 T" "dom (tree_nodes T0) - set (addrs t) = {}"
  shows "dom (tree_nodes T) = set (addrs t)"
proof
  show "set (addrs t) \<subseteq> dom (tree_nodes T)"
    using at_live [OF assms(1)] by (auto simp: cells_of_def)
  show "dom (tree_nodes T) \<subseteq> set (addrs t)"
    using assms(2,3) by (fastforce simp: inside_def)
qed

lemma meta_fields:
  "meta T' = meta (counted 0 n sz T) \<Longrightarrow> i < length (index T) \<Longrightarrow>
     compare (index T' ! i) = compare (index T ! i) \<and> indexes T' = indexes T \<and> allow_duplicates T' = allow_duplicates T
     \<and> tree_count T' = tree_count T + n \<and> tree_size T' = tree_size T + sz"
  using meta_compare [of T' "counted 0 n sz T" i] by (auto simp: meta_def counted_def)

text \<open>Looking for a key and taking its node out of the first index.\<close>

definition removal :: "('c \<Rightarrow> 'k + 'c \<Rightarrow> int) \<Rightarrow> 'k + 'c \<Rightarrow> ('c \<times> int) list \<Rightarrow> ('c, 'k) rb_tree \<Rightarrow> addr \<Rightarrow> addr option
    \<Rightarrow> ('c, 'k) rb_tree \<Rightarrow> bool" where
  "removal cmp v xs T temp p T' \<longleftrightarrow> TreeFindIndex1 v 0 T = Done p
     \<and> (if p = None then find (same cmp v) xs = None \<and> remove_item cmp v xs = xs
        else TreeRemoveNodeIndex temp p 0 T = Done (map_option fst (find (same cmp v) xs), T')
          \<and> (\<exists>n. tree_node_at p T = Done n \<and> node_content n = map_option fst (find (same cmp v) xs))
          \<and> find (same cmp v) xs \<noteq> None \<and> search_tree cmp (remove_item cmp v xs) T'
          \<and> dom (tree_nodes T') \<subseteq> dom (tree_nodes T))"

context content_order
begin

lemma find_located:
  fixes T :: "('c, 'k) rb_tree"
  assumes "search_tree cmp xs T"
  shows "\<exists>k t. TreeFindIndex1 v 0 T = Done (ptr t) \<and> at T 0 k t \<and> rb (plug k t) \<and> items (plug k t) = xs
    \<and> dom (tree_nodes T) = set (addrs (plug k t))
    \<and> (case t of Leaf \<Rightarrow> find (same cmp v) xs = None | Node l (a, r, c, s) u \<Rightarrow>
         find (same cmp v) xs = Some (c, s) \<and> remove_item cmp v xs = before k @ items l @ items u @ after k)"
proof -
  obtain t where t: "at T 0 [] t" "rb t" "items t = xs" "dom (tree_nodes T) = set (addrs t)" "ordered cmp xs" "compare (index T ! 0) = cmp"
    using assms by (auto simp: search_tree_def)
  obtain k t0 where L: "locate cmp v [] t = (k, t0)"
    by fastforce
  have plug: "plug k t0 = t"
    using locate_plug [of cmp v "[]" t] by (simp add: L)
  have place: "place cmp v k" "case t0 of Leaf \<Rightarrow> True | Node l (a, r, c', s) u \<Rightarrow> same cmp v (c', s)"
    using locate_place [of "[]" t v] t by (simp_all add: L)
  have "TreeFindIndex1 v 0 T = Done (ptr t0)"
    using find_node_locate [OF t(1,6), of v] t(1) by (auto simp: TreeFindIndex1_def run_loop_def L at_def)
  moreover have "at T 0 k t0"
    using t(1) plug by (metis at_plug)
  moreover have "find (same cmp v) xs = None" if "t0 = Leaf"
    using filter_place(3) [OF place(1)] plug t(3) that by auto
  moreover have "find (same cmp v) xs = Some (c, s) \<and> remove_item cmp v xs = before k @ items l @ items u @ after k"
    if "t0 = Node l (a, r, c, s) u" for l a r c s u
  proof -
    have o: "ordered cmp (items (plug k (Node l (a, r, c, s) u)))" and sm: "same cmp v (c, s)"
      using t(3,5) plug place(2) that by auto
    have "items (plug k (Node l (a, r, c, s) u)) = xs"
      using t(3) plug that by simp
    then show ?thesis
      using filter_found(3,4) [OF o sm] by (simp add: remove_item_def)
  qed
  ultimately show ?thesis
    using t plug by (intro exI [of _ k] exI [of _ t0]) (auto split: tree.split)
qed

lemma insert_counts:
  assumes "find (same cmp (Inr c)) xs = None"
  shows "length (insert_item cmp c sz xs) = Suc (length xs)"
    "sum_list (map snd (insert_item cmp c sz xs)) = sum_list (map snd xs) + sz"
proof -
  have "\<forall>x \<in> set xs. \<not> same cmp (Inr c) x \<Longrightarrow>
      length (filter (under cmp (Inr c)) xs) + length (filter (over cmp (Inr c)) xs) = length xs
      \<and> sum_list (map snd (filter (under cmp (Inr c)) xs)) + sum_list (map snd (filter (over cmp (Inr c)) xs)) = sum_list (map snd xs)"
  proof (induction xs)
    case (Cons x xs)
    then have "under cmp (Inr c) x \<noteq> over cmp (Inr c) x"
      using trichotomy [of "Inr c" x] exclusive(2) [of "Inr c" x] by auto
    then show ?case
      using Cons by auto
  qed simp
  moreover have "\<forall>x \<in> set xs. \<not> same cmp (Inr c) x"
    using assms by (auto simp: find_None_iff)
  ultimately show "length (insert_item cmp c sz xs) = Suc (length xs)"
    "sum_list (map snd (insert_item cmp c sz xs)) = sum_list (map snd xs) + sz"
    by (simp_all add: insert_item_def)
qed

lemma add_refines:
  fixes T :: "('c, 'k) rb_tree"
  assumes s: "search_tree cmp xs T" and new: "tree_nodes T new = None" and absent: "find (same cmp (Inr c)) xs = None"
  shows "\<exists>T'. TreeAdd (\<lambda>_. new) c sz T = Done (None, T') \<and> search_tree cmp (insert_item cmp c sz xs) T'"
proof -
  obtain t where t: "at T 0 [] t" "rb t" "items t = xs" "dom (tree_nodes T) = set (addrs t)" "ordered cmp xs"
      "compare (index T ! 0) = cmp" "indexes T = 1" "0 < length (index T)"
    using s by (auto simp: search_tree_def at_def)
  have "new \<notin> set (addrs t)"
    using new t(4) by (metis domIff)
  then obtain T' t' where T': "TreeAddByIndex new c sz 0 T = Done (None, T')" "at T' 0 [] t'" "rb t'"
    "items t' = insert_item cmp c sz xs" "set (addrs t') = insert new (set (addrs t))"
    "inside (insert new (set (addrs t))) (counted 0 1 sz T) T'"
    using add_by_index_new [OF t(1,2) _ t(6)] t(3,5) absent by metis
  have "dom (tree_nodes T') = set (addrs t')"
    using T'(6) t(4) by (intro dom_at [OF T'(2)]) (auto simp: T'(5) inside_def)
  then have "search_tree cmp (insert_item cmp c sz xs) T'"
    using T' t(5-8) s meta_fields [of T' 1 sz T 0] insert_counts [OF absent, of sz] ordered_insert [OF t(5)]
    by (auto simp: search_tree_def inside_def)
  then show ?thesis
    using T'(1) t(7) by (auto simp: TreeAdd_def)
qed

lemma remove_located:
  fixes T :: "('c, 'k) rb_tree"
  assumes s: "search_tree cmp xs T" and temp: "tree_nodes T temp = None"
  shows "\<exists>p T'. removal cmp v xs T temp p T'"
proof -
  obtain k t where L: "TreeFindIndex1 v 0 T = Done (ptr t)" "at T 0 k t" "rb (plug k t)" "items (plug k t) = xs"
    "dom (tree_nodes T) = set (addrs (plug k t))"
    "case t of Leaf \<Rightarrow> find (same cmp v) xs = None | Node l (a, r, c, s) u \<Rightarrow>
         find (same cmp v) xs = Some (c, s) \<and> remove_item cmp v xs = before k @ items l @ items u @ after k"
    using find_located [OF s, of v] by blast
  show ?thesis
  proof (cases t rule: ptr.cases)
    case 1
    then have f: "find (same cmp v) xs = None"
      using L(6) by simp
    then have "remove_item cmp v xs = xs"
      by (auto simp: remove_item_def find_None_iff filter_id_conv)
    then show ?thesis
      using L(1) 1 f by (auto simp: removal_def)
  next
    case (2 l a y u)
    obtain r c sz where y: "y = (r, c, sz)"
      by (cases y) auto
    have f: "find (same cmp v) xs = Some (c, sz)" and rem: "remove_item cmp v xs = before k @ items l @ items u @ after k"
      using L(6) by (simp_all add: 2 y)
    obtain T' t' b where T': "TreeRemoveNodeIndex temp (Some a) 0 T = Done (Some c, T')" "at T' 0 [] t'" "rb t'"
      "items t' = remove_item cmp v xs" "b \<notin> set (addrs t')" "set (addrs (plug k t)) = insert b (set (addrs t'))"
      "inside (set (addrs t')) (counted 0 (- 1) (- sz) (T\<lparr>tree_nodes := (tree_nodes T)(b := None)\<rparr>)) T'"
      using remove_node [OF L(2,3) [unfolded 2 y] temp] rem by (auto simp: 2 y)
    have "dom (tree_nodes T') = set (addrs t')"
      using T'(5-7) L(5) by (intro dom_at [OF T'(2) T'(7)]) auto
    moreover have "length (items (plug k t)) = length xs" "sum_list (map snd (items (plug k t))) = sum_list (map snd xs)"
      using L(4) by simp_all
    then have "length xs = Suc (length (remove_item cmp v xs))" "sum_list (map snd xs) = sum_list (map snd (remove_item cmp v xs)) + sz"
      by (simp_all add: rem 2 y items_plug)
    moreover have "ordered cmp (remove_item cmp v xs)"
      using s ordered_remove by (simp add: search_tree_def)
    ultimately have "search_tree cmp (remove_item cmp v xs) T'"
      using T'(2-4,7) s meta_fields [of T' "- 1" "- sz" "T\<lparr>tree_nodes := (tree_nodes T)(b := None)\<rparr>" 0]
      by (auto simp: search_tree_def inside_def at_def)
    moreover have "dom (tree_nodes T') \<subseteq> dom (tree_nodes T)"
      using \<open>dom (tree_nodes T') = set (addrs t')\<close> T'(6) L(5) by auto
    moreover have "tree_node_at (Some a) T = Done (mk (par_of k) (kid LEFT (ptr l) (ptr u)) r c sz)"
      using at_Node L(2) by (simp add: 2 y)
    ultimately show ?thesis
      using L(1) T'(1) f by (auto simp: 2 removal_def)
  qed
qed

lemma remove_key_refines:
  fixes T :: "('c, 'k) rb_tree"
  assumes s: "search_tree cmp xs T" and temp: "tree_nodes T temp = None"
  shows "\<exists>T'. TreeRemoveKey temp k T = Done (map_option fst (find (same cmp (Inl k)) xs), T')
    \<and> search_tree cmp (remove_item cmp (Inl k) xs) T' \<and> dom (tree_nodes T') \<subseteq> dom (tree_nodes T)"
proof -
  obtain p T' where r: "removal cmp (Inl k) xs T temp p T'"
    using remove_located [OF s temp] by blast
  show ?thesis
  proof (cases p)
    case None
    then show ?thesis
      using r s by (simp add: removal_def TreeRemoveKey_def TreeRemoveKeyIndex_def TreeFindIndex_def)
  next
    case (Some a)
    then have "[0..<indexes T'] = [0]"
      using r by (simp add: removal_def search_tree_def)
    then show ?thesis
      using r Some by (simp add: removal_def TreeRemoveKey_def TreeRemoveKeyIndex_def TreeFindIndex_def)
  qed
qed

lemma remove_refines:
  fixes T :: "('c, 'k) rb_tree"
  assumes s: "search_tree cmp xs T" and temp: "tree_nodes T temp = None"
  shows "\<exists>T'. TreeRemove temp c T = Done (map_option fst (find (same cmp (Inr c)) xs), T')
    \<and> search_tree cmp (remove_item cmp (Inr c) xs) T'"
proof -
  obtain p T' where r: "removal cmp (Inr c) xs T temp p T'"
    using remove_located [OF s temp] by blast
  then show ?thesis
    using s by (cases p) (simp_all add: removal_def TreeRemove_def TreeRemoveIndex_def TreeFindContentIndex_def search_tree_def)
qed

lemma tree_step_refines:
  fixes T :: "('c, 'k) rb_tree"
  assumes s: "search_tree cmp xs T" and pre: "tree_pre cmp op xs T"
  shows "\<exists>T'. tree_step op T = Done (fst (list_step cmp op xs), T') \<and> search_tree cmp (snd (list_step cmp op xs)) T'"
proof -
  show ?thesis
  proof (cases op)
    case (Add new c sz)
    then show ?thesis
      using add_refines [OF s] pre by simp
  next
    case (Remove temp c)
    then show ?thesis
      using remove_refines [OF s, of temp c] pre by simp
  next
    case (Remove_key temp k)
    then show ?thesis
      using remove_key_refines [OF s, of temp k] pre by auto
  next
    case (Find key)
    obtain k t where L: "TreeFindIndex1 (Inl key) 0 T = Done (ptr t)" "at T 0 k t"
      "case t of Leaf \<Rightarrow> find (same cmp (Inl key)) xs = None | Node l (a, r, c, s) u \<Rightarrow>
         find (same cmp (Inl key)) xs = Some (c, s) \<and> remove_item cmp (Inl key) xs = before k @ items l @ items u @ after k"
      using find_located [OF s, of "Inl key"] by blast
    show ?thesis
    proof (cases t rule: invc.cases)
      case 1
      then show ?thesis
        using s L by (simp add: Find TreeFind_def TreeFindIndex_def)
    next
      case (2 l a r c z u)
      then show ?thesis
        using s L at_Node [OF L(2) [unfolded 2]] by (simp add: Find TreeFind_def TreeFindIndex_def)
    qed
  qed
qed

end

section \<open>The properties\<close>

text \<open>
  C18: With a comparison function that orders the contents, every addition of a content that is not
  there, every removal by content or by key and every search by key on the linked nodes do what they
  do on the list of contents in order, return what it returns, and leave a red-black tree that again
  stands for the list.
\<close>

theorem tree_refines_list:
  assumes "content_order cmp val less" "search_tree cmp xs T" "tree_pre cmp op xs T"
  shows "\<exists>T'. tree_step op T = Done (fst (list_step cmp op xs), T') \<and> search_tree cmp (snd (list_step cmp op xs)) T'"
  using assms by (rule content_order.tree_step_refines)

lemma search_tree_new: "search_tree cmp [] (TreeInitialize cmp)"
  unfolding search_tree_def
  by (intro conjI exI [of _ Leaf])
    (simp_all add: TreeInitialize_def TreeInitializeNoMalloc_def at_def root_of_def rb_def ordered_def)

theorem tree_refines_list_witness:
  "\<exists>T T'. tree_step (Add 7 (5 :: int) 4) (TreeInitialize TreeIntCompare) = Done (None, T)
     \<and> tree_step (Find 5) T = Done (Some 5, T') \<and> search_tree TreeIntCompare [(5, 4)] T'"
proof -
  have "tree_nodes (TreeInitialize TreeIntCompare) 7 = None"
    by (simp add: TreeInitialize_def TreeInitializeNoMalloc_def)
  then obtain T where T: "tree_step (Add 7 5 4) (TreeInitialize TreeIntCompare) = Done (None, T)" "search_tree TreeIntCompare [(5, 4)] T"
    using tree_refines_list [OF int_order.content_order_axioms search_tree_new, of "Add 7 5 4"] by (auto simp: insert_item_def)
  moreover obtain T' where "tree_step (Find 5) T = Done (Some 5, T')" "search_tree TreeIntCompare [(5, 4)] T'"
    using tree_refines_list [OF int_order.content_order_axioms T(2), of "Find 5"]
    by (auto simp: same_def TreeIntCompare_def)
  ultimately show ?thesis
    by blast
qed

section \<open>Depth\<close>

lemma walk_at: "at T i k t \<Longrightarrow> walk_loop T (ptr t) n = Some (Done (n + int (height t)))"
proof (induction t arbitrary: k n)
  case (Node l x u)
  obtain a r c s where x: "x = (a, r, c, s)"
    by (cases x) auto
  have "at T i ((LEFT, x, u) # k) l" "at T i ((RIGHT, x, l) # k) u"
    using Node.prems at_left [of T i k l a r c s u] at_right [of T i k l a r c s u] by (simp_all only: x)
  then show ?case
    using Node.IH(1) [of "(LEFT, x, u) # k" "n + 1"] Node.IH(2) [of "(RIGHT, x, l) # k" "n + 1"] Node.prems at_Node [of T i k l a r c s u]
    by (subst walk_loop.simps) (simp add: x max_def)
next
  case Leaf
  show ?case
    by (subst walk_loop.simps) simp
qed

lemma height_bh: "invc t \<Longrightarrow> invh t \<Longrightarrow> height t \<le> 2 * bh t + (if root_red t then 1 else 0)"
  by (induction t rule: invc.induct) (auto split: if_splits)

lemma bh_size: "invh t \<Longrightarrow> 2 ^ bh t \<le> length (items t) + 1"
proof (induction t rule: invc.induct)
  case (2 l a r c s t)
  then have "2 ^ bh l \<le> length (items l) + 1" "2 ^ bh l \<le> length (items t) + 1"
    by simp_all
  then show ?case
    by auto
qed simp



end
