(* ===== verification/Rb_Replace.thy ===== *)
theory Rb_Replace
  imports Rb_Refine
begin

text \<open>
  Replacing a content of the tree of \<^verbatim>\<open>mqtt/source/Tree.c\<close>: \<open>TreeAddByIndex\<close> runs the balancing loop from
  the node that was there as if it were new.
\<close>

definition six_cells :: "int cell tree" where
  "six_cells = Node (Node Leaf (1, False, 1, 4) Leaf) (2, False, 2, 4)
     (Node (Node Leaf (3, False, 3, 4) Leaf) (4, True, 4, 4) (Node Leaf (5, False, 5, 4) (Node Leaf (6, True, 6, 4) Leaf)))"

fun cell_nodes :: "addr option \<Rightarrow> 'c cell tree \<Rightarrow> (addr \<rightharpoonup> 'c tree_node) \<Rightarrow> (addr \<rightharpoonup> 'c tree_node)" where
  "cell_nodes up Leaf h = h"
| "cell_nodes up (Node l (a, r, c, s) u) h =
     cell_nodes (Some a) l (cell_nodes (Some a) u (h(a \<mapsto> mk up (kid LEFT (ptr l) (ptr u)) r c s)))"

definition six :: "(int, int) rb_tree" where
  "six = (TreeInitialize TreeIntCompare)\<lparr>tree_nodes := cell_nodes None six_cells Map.empty,
     index := [\<lparr>root = Some 2, compare = TreeIntCompare\<rparr>, \<lparr>root = None, compare = \<lambda>_ _. 0\<rparr>], tree_count := 6, tree_size := 24\<rparr>"

lemma six_fields [simp]:
  "tree_nodes six = cell_nodes None six_cells Map.empty" "root_of 0 six = Some 2" "index six ! 0 = \<lparr>root = Some 2, compare = TreeIntCompare\<rparr>"
  "indexes six = 1" "allow_duplicates six = False" "length (index six) = 2" "tree_size six = 24" "tree_count six = 6"
  by (simp_all add: six_def TreeInitialize_def TreeInitializeNoMalloc_def root_of_def)

lemma six_tree: "search_tree TreeIntCompare [(1, 4), (2, 4), (3, 4), (4, 4), (5, 4), (6, 4)] six"
  unfolding search_tree_def
proof (intro conjI exI [of _ six_cells])
  show "at six 0 [] six_cells"
    by (simp add: at_def six_cells_def)
  show "dom (tree_nodes six) = set (addrs six_cells)"
    by (auto simp: six_cells_def split: if_splits)
qed (simp_all add: six_cells_def rb_def ordered_def over_def TreeIntCompare_def)

text \<open>The nodes of an index are those of one tree only.\<close>

lemma kid_eq: "kid d p q = kid d p' q' \<longleftrightarrow> p = p' \<and> q = q'"
  by (metis kid_simps(1,2))

lemma shape_unique: "shape h up t \<Longrightarrow> shape h up t' \<Longrightarrow> ptr t = ptr t' \<Longrightarrow> t = t'"
proof (induction h up t arbitrary: t' rule: shape.induct)
  case (2 h up l a r c s u)
  then obtain l' r' c' s' u' where t': "t' = Node l' (a, r', c', s') u'"
    by (cases t' rule: ptr.cases) auto
  then have "mk up (kid LEFT (ptr l) (ptr u)) r c s = mk up (kid LEFT (ptr l') (ptr u')) r' c' s'"
    using 2(3,4) by simp
  then have "ptr l = ptr l'" "ptr u = ptr u'" "r = r'" "c = c'" "s = s'"
    by (simp_all add: mk_def kid_eq)
  then show ?case
    using 2 t' by simp
qed simp

lemma at_unique: "at T i [] t \<Longrightarrow> at T i [] t' \<Longrightarrow> t = t'"
  using shape_unique [of "tree_nodes T" None t t'] by (simp add: at_def)

text \<open>
  C39: Adding a content that is already there can leave a tree that is no longer balanced, and that the
  operations do not have to cope with: adding 3 again to the tree that holds 1 to 6 rotates its node,
  which is black, as if it were red.
\<close>

theorem replacing_unbalances: "search_tree TreeIntCompare [(1, 4), (2, 4), (3, 4), (4, 4), (5, 4), (6, 4)] six
    \<and> (\<exists>T'. TreeAdd (\<lambda>_. 7) 3 4 six = Done (Some 3, T') \<and> (\<forall>xs. \<not> search_tree TreeIntCompare xs T'))"
proof -
  let ?U = "Node Leaf (1, False, 1, 4) Leaf :: int cell tree" and ?S = "Node Leaf (5, False, 5, 4) (Node Leaf (6, True, 6, 4) Leaf) :: int cell tree"
  let ?k = "[(\<not> RIGHT, (4, True, 4, 4), ?S), (RIGHT, (2, False, 2, 4), ?U)] :: int path"
  let ?G = "nd RIGHT Leaf (2, True, 2, 4) ?U" and ?P = "nd RIGHT ?S (4, True, 4, 4) Leaf"
  have s: "run_loop (add_search 0 3 six None (Some 2) 1 False) = Done (Some 4, Some 3, 0, False)"
    by (simp add: run_loop_def add_search.simps compare_at_def child_of_def tree_node_at_def six_cells_def TreeIntCompare_def Let_def)
  have p: "pos (cells_of [] six_cells) six 0 six ?k (nd RIGHT Leaf (3, False, 3, 4) Leaf)"
    using six_tree by (simp add: pos_def at_def six_cells_def nd_def kid_def cells_of_def) (auto simp: fun_eq_iff)
  obtain T1 where T1: "TreeBAASub (Some 3) (\<not> RIGHT) 0 six = Done (Some 4, T1)"
    "pos (cells_of [] six_cells) six 0 T1 [(RIGHT, (3, False, 3, 4), ?G)] ?P"
    using baasub_inner [OF p] by auto
  have "balance_add_loop (Some 3) 0 six = balance_add_loop (Some 4) 0 T1"
    using add_loop_step [OF p, of "Some 4" T1] T1(1) by simp
  also have "\<dots> = Some (Done T1)"
    using add_loop_stop [OF T1(2)] by simp
  finally have "balance_add_loop (Some 3) 0 six = Some (Done T1)" .
  moreover have "pos (cells_of [] six_cells) six 0 T1 [] (nd RIGHT ?P (3, False, 3, 4) ?G)"
    using T1(2) by (simp add: pos_move)
  then obtain T2 where "set_red (root_of 0 T1) False T1 = Done T2" "pos (cells_of [] six_cells) six 0 T2 [] (nd RIGHT ?P (3, False, 3, 4) ?G)"
    using pos_set_red [of _ _ _ T1 "[]" "nd RIGHT ?P (3, False, 3, 4) ?G" False] pos_root by fastforce
  ultimately have "TreeBalanceAfterAdd (Some 3) 0 six = Done T2" "at T2 0 [] (nd RIGHT ?P (3, False, 3, 4) ?G)"
    by (simp_all add: TreeBalanceAfterAdd_def run_loop_def pos_def)
  moreover have "set_tree_node (Some 3) (\<lambda>n. n\<lparr>node_content := Some 3, node_size := 4\<rparr>) (six\<lparr>tree_size := 24 + (4 - 4)\<rparr>) = Done six"
    by (auto simp: set_tree_node_def tree_node_at_def six_cells_def intro!: rb_tree.equality)
  ultimately have "TreeAdd (\<lambda>_. 7) 3 4 six = Done (Some 3, T2)" "\<not> rb (nd RIGHT ?P (3, False, 3, 4) ?G)"
    using s by (simp_all add: TreeAdd_def TreeAddByIndex_def tree_node_at_def six_cells_def rb_def nd_def)
  then show ?thesis
    using six_tree \<open>at T2 0 [] _\<close> at_unique by (auto simp: search_tree_def)
qed

end
