(* ===== verification/Rb_Walk.thy ===== *)
theory Rb_Walk
  imports Rb_Refine
begin

text \<open>Going through the contents of the tree of \<^verbatim>\<open>mqtt/source/Tree.c\<close> in order.\<close>

fun before_addrs :: "'c path \<Rightarrow> addr list" where
  "before_addrs [] = []"
| "before_addrs ((d, x, sib) # k) = before_addrs k @ (if d then addrs sib @ [fst x] else [])"

fun after_addrs :: "'c path \<Rightarrow> addr list" where
  "after_addrs [] = []"
| "after_addrs ((d, x, sib) # k) = (if d then [] else fst x # addrs sib) @ after_addrs k"

definition head_opt :: "'a list \<Rightarrow> 'a option" where
  "head_opt xs = (case xs of [] \<Rightarrow> None | x # _ \<Rightarrow> Some x)"

definition last_opt :: "'a list \<Rightarrow> 'a option" where
  "last_opt xs = (if xs = [] then None else Some (last xs))"

lemma head_opt_simps [simp]:
  "head_opt [] = None" "head_opt (x # xs) = Some x"
  by (simp_all add: head_opt_def)

lemma head_opt_append: "head_opt (xs @ ys) = (if xs = [] then head_opt ys else head_opt xs)"
  by (cases xs) simp_all

lemma addrs_Nil [simp]: "addrs t = [] \<longleftrightarrow> t = Leaf"
  by (cases t) auto

lemma last_opt_simps [simp]: "last_opt [] = None" "last_opt (xs @ [x]) = Some x"
  by (simp_all add: last_opt_def)

lemma addrs_plug: "addrs (plug k t) = before_addrs k @ addrs t @ after_addrs k"
  by (induction k t rule: plug.induct) (auto simp: nd_def)

lemma climb_at:
  "at T i k t \<Longrightarrow> t \<noteq> Leaf \<Longrightarrow> climb_loop T (ptr t) (par_of k) = Some (Done (head_opt (after_addrs k)))"
proof (induction k arbitrary: t)
  case Nil
  then show ?case
    by (subst climb_loop.simps) simp
next
  case (Cons e k)
  obtain d a r c s sib where e: "e = (d, (a, r, c, s), sib)"
    by (cases e) auto
  have up: "tree_node_at (Some a) T = Done (mk (par_of k) (kid d (ptr t) (ptr sib)) r c s)"
    using Cons.prems(1) at_up by (simp add: e)
  show ?case
  proof (cases d)
    case True
    have "at T i k (nd d t (a, r, c, s) sib)"
      using Cons.prems(1) by (simp add: e at_move)
    then have "climb_loop T (Some a) (par_of k) = Some (Done (head_opt (after_addrs k)))"
      using Cons.IH by fastforce
    then show ?thesis
      using up True by (subst climb_loop.simps) (simp add: e child_of_def parent_of_def)
  next
    case False
    have "ptr t \<noteq> ptr sib"
      using Cons.prems by (cases t rule: ptr.cases) (auto simp: e at_def dest!: ptr_in [OF sym])
    then show ?thesis
      using up False by (subst climb_loop.simps) (simp add: e child_of_def kid_def)
  qed
qed

lemma minimum_first: "at T i k t \<Longrightarrow> t \<noteq> Leaf \<Longrightarrow> minimum_loop T (ptr t) = Some (Done (head_opt (addrs t)))"
proof (induction t arbitrary: k)
  case (Node l x u)
  obtain a r c s where x: "x = (a, r, c, s)"
    by (cases x) auto
  have "at T i ((LEFT, x, u) # k) l"
    using Node.prems at_left [of T i k l a r c s u] by (simp only: x)
  then show ?case
    using Node.IH(1) [of "(LEFT, x, u) # k"] at_Node [of T i k l a r c s u] Node.prems
    by (subst minimum_loop.simps) (simp add: x child_of_def head_opt_append)
qed simp

lemma successor_at:
  assumes "at T i k (Node l (a, r, c, s) u)"
  shows "TreeSuccessor (Some a) T = Done (head_opt (addrs u @ after_addrs k))"
proof (cases "u = Leaf")
  case True
  then show ?thesis
    using at_Node [OF assms] climb_at [OF assms] by (simp add: TreeSuccessor_def child_of_def parent_of_def run_loop_def)
next
  case False
  then show ?thesis
    using at_Node [OF assms] minimum_first [OF assms [unfolded at_right] False] False
    by (simp add: TreeSuccessor_def child_of_def TreeMinimum_def run_loop_def head_opt_append)
qed

lemma position: "a \<in> set (addrs t) \<Longrightarrow> \<exists>k l y u. plug k (Node l (a, y) u) = t"
proof (induction t)
  case (Node l x u)
  consider "a = fst x" | "a \<in> set (addrs l)" | "a \<in> set (addrs u)"
    using Node.prems by auto
  then show ?case
  proof cases
    case 1
    then show ?thesis
      by (intro exI [of _ "[]"] exI [of _ l] exI [of _ "snd x"] exI [of _ u]) simp
  next
    case 2
    then obtain k l' y u' where "plug k (Node l' (a, y) u') = l"
      using Node.IH(1) by blast
    then show ?thesis
      by (intro exI [of _ "k @ [(LEFT, x, u)]"] exI [of _ l'] exI [of _ y] exI [of _ u']) (simp add: plug_append nd_def)
  next
    case 3
    then obtain k l' y u' where "plug k (Node l' (a, y) u') = u"
      using Node.IH(2) by blast
    then show ?thesis
      by (intro exI [of _ "k @ [(RIGHT, x, l)]"] exI [of _ l'] exI [of _ y] exI [of _ u']) (simp add: plug_append nd_def)
  qed
qed simp

lemma next_element:
  assumes at: "at T 0 [] t" and xs: "addrs t = xs @ ys"
  shows "TreeNextElement (last_opt xs) T = Done (head_opt ys)"
proof (cases xs rule: rev_cases)
  case Nil
  then have "addrs t = ys"
    using xs by simp
  then show ?thesis
    using minimum_first [OF at] at Nil
    by (cases "t = Leaf") (simp_all add: TreeNextElement_def TreeNextElementIndex_def TreeMinimum_def run_loop_def at_def)
next
  case (snoc zs a)
  then obtain k l y u where t: "plug k (Node l (a, y) u) = t"
    using position [of a t] xs by auto
  obtain r c s where y: "y = (r, c, s)"
    by (cases y) auto
  have parts: "addrs t = (before_addrs k @ addrs l) @ a # addrs u @ after_addrs k"
    using addrs_plug [of k "Node l (a, y) u"] t by simp
  have "distinct (addrs t)"
    using at by (simp add: at_def)
  then have "a \<notin> set (before_addrs k @ addrs l)" "a \<notin> set (addrs u @ after_addrs k)"
    unfolding parts by auto
  then have "addrs u @ after_addrs k = ys"
    using append_Cons_eq_iff [of a "before_addrs k @ addrs l" "addrs u @ after_addrs k" zs ys] parts xs snoc by simp
  moreover have "at T 0 k (Node l (a, r, c, s) u)"
    using at t y by (metis at_plug)
  ultimately show ?thesis
    using successor_at snoc by (fastforce simp: TreeNextElement_def TreeNextElementIndex_def)
qed

end
