(* ===== verification/Heap_Tracking.thy ===== *)
theory Heap_Tracking
  imports Rb_Walk
begin

text \<open>
  The allocation tracker of \<^verbatim>\<open>mqtt/source/Heap.c\<close>, which the build puts in the place of \<open>malloc\<close>,
  \<open>realloc\<close> and \<open>free\<close> of the client library.  Every block is kept between two eyecatchers and recorded
  in a tree ordered by address.  The system's allocator is a parameter of each call: which of its
  requests succeed, and the addresses it gives.  Memory that was not written is \<open>None\<close>.  Sizes are the
  values the callers pass, below \<open>2 ^ 31\<close>.  The mutex is not recursive: locking it twice is \<open>Stuck\<close>.
\<close>

section \<open>The data\<close>

record storage_element =
  se_file :: "u8 list"
  se_line :: int
  se_ptr :: int
  se_size :: int

text \<open>What is logged as an error or listed by a scan.\<close>

datatype heap_report =
  Allocation_error
| Bad_start
| Bad_end
| Remove_failed
| Reallocate_failed
| Possible_leak
| Scan_item storage_element

record heap_state =
  heap_tree :: "(storage_element, int) rb_tree"
  current_size :: int
  max_size :: int
  blocks :: "int \<rightharpoonup> u8 option list"
  heap_mutex :: bool
  reports :: "heap_report list"

record allocation =
  got_struct :: bool
  got_file :: bool
  got_block :: "int option"
  node_address :: addr

definition eyecatcher :: "u8 option list" where
  "eyecatcher = replicate 4 (Some 0x88)"

definition SIZEOF_INT :: int where "SIZEOF_INT = 4"
definition SIZEOF_STORAGE :: int where "SIZEOF_STORAGE = 32"

definition Heap_roundup :: "int \<Rightarrow> int" where
  "Heap_roundup sz = (let multsize = 4 * SIZEOF_INT in
     if sz mod multsize \<noteq> 0 then sz + (multsize - sz mod multsize) else sz)"

definition ptrCompare :: "storage_element \<Rightarrow> int + storage_element \<Rightarrow> int" where
  "ptrCompare a v =
     (let b = (case v of Inl p \<Rightarrow> p | Inr s \<Rightarrow> se_ptr s) in
      if se_ptr a > b then -1 else if se_ptr a = b then 0 else 1)"

definition Thread_lock_mutex :: "heap_state \<Rightarrow> heap_state outcome" where
  "Thread_lock_mutex H = (if heap_mutex H then Stuck else Done (H\<lparr>heap_mutex := True\<rparr>))"

definition Thread_unlock_mutex :: "heap_state \<Rightarrow> heap_state" where
  "Thread_unlock_mutex H = H\<lparr>heap_mutex := False\<rparr>"

definition report :: "heap_report list \<Rightarrow> heap_state \<Rightarrow> heap_state" where
  "report rs H = H\<lparr>reports := reports H @ rs\<rparr>"

definition grown :: "int \<Rightarrow> heap_state \<Rightarrow> heap_state" where
  "grown n H = H\<lparr>current_size := current_size H + n, max_size := max (max_size H) (current_size H + n)\<rparr>"

section \<open>Allocating\<close>

definition mymalloc :: "allocation \<Rightarrow> u8 list \<Rightarrow> int \<Rightarrow> int \<Rightarrow> heap_state \<Rightarrow> (int option \<times> heap_state) outcome" where
  "mymalloc A file line sz H =
     (let filenamelen = int (length file) + 1 in
      obind (Thread_lock_mutex H) (\<lambda>H.
      let sz = Heap_roundup sz in
      if \<not> got_struct A then Done (None, report [Allocation_error] H)
      else if \<not> got_file A then Done (None, report [Allocation_error] H)
      else case got_block A of
        None \<Rightarrow> Done (None, report [Allocation_error] H)
      | Some p \<Rightarrow>
          let space = SIZEOF_STORAGE + filenamelen + (sz + 2 * SIZEOF_INT);
              H = H\<lparr>blocks := (blocks H)(p \<mapsto> eyecatcher @ replicate (nat sz) None @ eyecatcher)\<rparr> in
          obind (TreeAdd (\<lambda>_. node_address A) \<lparr>se_file = file, se_line = line, se_ptr = p, se_size = sz\<rparr> space (heap_tree H))
            (\<lambda>(_, T). Done (Some (p + SIZEOF_INT), Thread_unlock_mutex (grown sz (H\<lparr>heap_tree := T\<rparr>))))))"

section \<open>Checking and freeing\<close>

definition damage :: "u8 option list \<Rightarrow> int \<Rightarrow> heap_report list" where
  "damage b sz = (if take 4 b \<noteq> eyecatcher then [Bad_start] else [])
     @ (if take 4 (drop (4 + nat sz) b) \<noteq> eyecatcher then [Bad_end] else [])"

definition checkEyecatchers :: "int \<Rightarrow> int \<Rightarrow> heap_state \<Rightarrow> heap_state outcome" where
  "checkEyecatchers p sz H =
     (case blocks H (p - SIZEOF_INT) of None \<Rightarrow> Fault | Some b \<Rightarrow>
        check (0 \<le> sz \<and> nat sz + 8 \<le> length b) (Done (report (damage b sz) H)))"

definition Internal_heap_unlink :: "addr \<Rightarrow> int \<Rightarrow> heap_state \<Rightarrow> (bool \<times> heap_state) outcome" where
  "Internal_heap_unlink temp p H =
     obind (TreeFind (p - SIZEOF_INT) (heap_tree H)) (\<lambda>e.
     if e = None then Done (False, report [Remove_failed] H)
     else
       obind (tree_node_at e (heap_tree H)) (\<lambda>n. case node_content n of None \<Rightarrow> Fault | Some s \<Rightarrow>
       obind (checkEyecatchers p (se_size s) H) (\<lambda>H.
       let H = H\<lparr>current_size := current_size H - se_size s\<rparr> in
       obind (TreeRemoveNodeIndex temp e 0 (heap_tree H)) (\<lambda>(_, T).
       Done (True, H\<lparr>heap_tree := T\<rparr>)))))"

definition myfree :: "addr \<Rightarrow> int \<Rightarrow> heap_state \<Rightarrow> heap_state outcome" where
  "myfree temp p H =
     obind (Thread_lock_mutex H) (\<lambda>H.
     obind (Internal_heap_unlink temp p H) (\<lambda>(rc, H).
     obind (if rc then check (blocks H (p - SIZEOF_INT) \<noteq> None) (Done (H\<lparr>blocks := (blocks H)(p - SIZEOF_INT := None)\<rparr>))
            else Done H) (\<lambda>H.
     Done (Thread_unlock_mutex H))))"

definition Heap_unlink :: "addr \<Rightarrow> int \<Rightarrow> heap_state \<Rightarrow> heap_state outcome" where
  "Heap_unlink temp p H =
     obind (Thread_lock_mutex H) (\<lambda>H.
     obind (Internal_heap_unlink temp p H) (\<lambda>(_, H). Done (Thread_unlock_mutex H)))"

text \<open>
  What \<open>realloc\<close> leaves of a block: the bytes that fit, and memory that was not written.  The file name
  is reallocated without a test of the result.
\<close>

definition resized :: "nat \<Rightarrow> u8 option list \<Rightarrow> u8 option list" where
  "resized n b = take n b @ replicate (n - length b) None"

definition between_eyecatchers :: "nat \<Rightarrow> u8 option list \<Rightarrow> u8 option list" where
  "between_eyecatchers sz b = eyecatcher @ take sz (drop 4 b) @ eyecatcher"

definition myrealloc :: "addr \<Rightarrow> allocation \<Rightarrow> u8 list \<Rightarrow> int \<Rightarrow> int \<Rightarrow> int \<Rightarrow> heap_state \<Rightarrow> (int option \<times> heap_state) outcome" where
  "myrealloc temp A file line p sz H =
     obind (Thread_lock_mutex H) (\<lambda>H.
     obind (TreeRemoveKey temp (p - SIZEOF_INT) (heap_tree H)) (\<lambda>(c, T).
     let H = H\<lparr>heap_tree := T\<rparr> in
     case c of
       None \<Rightarrow> Done (None, Thread_unlock_mutex (report [Reallocate_failed] H))
     | Some s \<Rightarrow>
         let filenamelen = int (length file) + 1 in
         obind (checkEyecatchers p (se_size s) H) (\<lambda>H.
         let sz = Heap_roundup sz; H = grown (sz - se_size s) H in
         case got_block A of
           None \<Rightarrow> Done (None, report [Allocation_error] H)
         | Some q \<Rightarrow>
             (case blocks H (se_ptr s) of None \<Rightarrow> Fault | Some b \<Rightarrow>
              let space = SIZEOF_STORAGE + (sz + 2 * SIZEOF_INT - se_size s) - int (length (se_file s)) + filenamelen;
                  b = between_eyecatchers (nat sz) (resized (nat sz + 8) b);
                  H = H\<lparr>blocks := (blocks H)(se_ptr s := None, q \<mapsto> b)\<rparr> in
              check (got_file A)
              (obind (TreeAdd (\<lambda>_. node_address A) \<lparr>se_file = file, se_line = line, se_ptr = q, se_size = sz\<rparr> space (heap_tree H))
                (\<lambda>(_, T). Done (Some (q + SIZEOF_INT), Thread_unlock_mutex (H\<lparr>heap_tree := T\<rparr>))))))))"

section \<open>Looking at the heap\<close>

definition Heap_findItem :: "int \<Rightarrow> heap_state \<Rightarrow> (storage_element option \<times> heap_state) outcome" where
  "Heap_findItem p H =
     obind (Thread_lock_mutex H) (\<lambda>H.
     obind (TreeFind (p - SIZEOF_INT) (heap_tree H)) (\<lambda>e.
     let H = Thread_unlock_mutex H in
     if e = None then Done (None, H)
     else obind (tree_node_at e (heap_tree H)) (\<lambda>n. Done (node_content n, H))))"

partial_function (option) scan_loop :: "addr option \<Rightarrow> heap_state \<Rightarrow> heap_state outcome option" where
  "scan_loop cur H =
     (case TreeNextElement cur (heap_tree H) of
        Done None \<Rightarrow> Some (Done H)
      | Done (Some e) \<Rightarrow>
          (case tree_node_at (Some e) (heap_tree H) of
             Done n \<Rightarrow> (case node_content n of None \<Rightarrow> Some Fault
                         | Some s \<Rightarrow> scan_loop (Some e) (report [Scan_item s] H))
           | Stuck \<Rightarrow> Some Stuck | Fault \<Rightarrow> Some Fault)
      | Stuck \<Rightarrow> Some Stuck | Fault \<Rightarrow> Some Fault)"

definition HeapScan :: "heap_state \<Rightarrow> heap_state outcome" where
  "HeapScan H =
     obind (Thread_lock_mutex H) (\<lambda>H.
     obind (run_loop (scan_loop None H)) (\<lambda>H. Done (Thread_unlock_mutex H)))"

definition Heap_initialize :: "heap_state \<Rightarrow> heap_state" where
  "Heap_initialize H = H\<lparr>heap_tree := (TreeInitializeNoMalloc ptrCompare)\<lparr>heap_tracking := False\<rparr>\<rparr>"

definition Heap_terminate :: "heap_state \<Rightarrow> heap_state outcome" where
  "Heap_terminate H = (if current_size H > 20 then HeapScan (report [Possible_leak] H) else Done H)"

definition Heap_get_info :: "heap_state \<Rightarrow> int \<times> int" where
  "Heap_get_info H = (current_size H, max_size H)"

text \<open>
  Dumping: \<open>ok k\<close> says whether the \<open>k\<close>th \<open>fwrite\<close> succeeds.  The bytes written for an item are those from
  the start of its block, as many as the tree has recorded as the size of the item; the address and
  the size written before them are left out.
\<close>

definition HeapDumpString :: "(nat \<Rightarrow> bool) \<Rightarrow> u8 list option \<Rightarrow> int" where
  "HeapDumpString ok str =
     (let len = (case str of None \<Rightarrow> 0 | Some s \<Rightarrow> length s + 1) in
      if \<not> ok 0 then -1 else if \<not> ok 1 then -1 else if len > 0 \<and> \<not> ok 2 then -1 else 0)"

partial_function (option) dump_loop ::
    "(nat \<Rightarrow> bool) \<Rightarrow> nat \<Rightarrow> addr option \<Rightarrow> heap_state \<Rightarrow> u8 option list \<Rightarrow> (int \<times> u8 option list) outcome option" where
  "dump_loop ok k cur H out =
     (case TreeNextElement cur (heap_tree H) of
        Done None \<Rightarrow> Some (Done (0, out))
      | Done (Some e) \<Rightarrow>
          (case tree_node_at (Some e) (heap_tree H) of
             Done n \<Rightarrow> (case node_content n of None \<Rightarrow> Some Fault
               | Some s \<Rightarrow>
                   if \<not> ok k then Some (Done (-1, out))
                   else if \<not> ok (k + 1) then Some (Done (-1, out))
                   else (case blocks H (se_ptr s) of None \<Rightarrow> Some Fault
                     | Some b \<Rightarrow>
                         if node_size n < 0 \<or> int (length b) < node_size n then Some Fault
                         else if node_size n = 0 \<or> \<not> ok (k + 2) then Some (Done (-1, out))
                         else dump_loop ok (k + 3) (Some e) H (out @ take (nat (node_size n)) b)))
           | Stuck \<Rightarrow> Some Stuck | Fault \<Rightarrow> Some Fault)
      | Stuck \<Rightarrow> Some Stuck | Fault \<Rightarrow> Some Fault)"

definition HeapDump :: "(nat \<Rightarrow> bool) \<Rightarrow> heap_state \<Rightarrow> (int \<times> u8 option list) outcome" where
  "HeapDump ok H = run_loop (dump_loop ok 0 None H [])"

end
