(* ===== verification/Heap_Accounts.thy ===== *)
theory Heap_Accounts
  imports Heap_Tracking
begin

text \<open>
  What \<^verbatim>\<open>mqtt/source/Heap.c\<close> promises: the tree records exactly the blocks that are allocated, the sizes
  add up, a damaged block is reported when it is given back; and what happens when memory runs out or
  the heap is dumped.
\<close>

interpretation heap_order: content_order ptrCompare "case_sum id se_ptr" "(<)"
  by unfold_locales (auto simp: ptrCompare_def Let_def split: sum.splits)

section \<open>The blocks that are recorded\<close>

definition tracks :: "(storage_element \<times> int) list \<Rightarrow> heap_state \<Rightarrow> bool" where
  "tracks xs H \<longleftrightarrow> search_tree ptrCompare xs (heap_tree H)
     \<and> current_size H = sum_list (map (se_size \<circ> fst) xs) \<and> current_size H \<le> max_size H
     \<and> dom (blocks H) = se_ptr ` fst ` set xs
     \<and> (\<forall>x \<in> set xs. 0 \<le> se_size (fst x) \<and> map_option length (blocks H (se_ptr (fst x))) = Some (nat (se_size (fst x)) + 8))
     \<and> \<not> heap_mutex H"

datatype heap_op =
  Malloc allocation "u8 list" int int
| Free addr int
| Realloc addr allocation "u8 list" int int int

fun heap_step :: "heap_op \<Rightarrow> heap_state \<Rightarrow> (int option \<times> heap_state) outcome" where
  "heap_step (Malloc A file line sz) H = mymalloc A file line sz H"
| "heap_step (Free temp p) H = obind (myfree temp p H) (\<lambda>H. Done (None, H))"
| "heap_step (Realloc temp A file line p sz) H = myrealloc temp A file line p sz H"

abbreviation recorded :: "int \<Rightarrow> (storage_element \<times> int) list \<Rightarrow> storage_element option" where
  "recorded p xs \<equiv> map_option fst (find (same ptrCompare (Inl (p - 4))) xs)"

text \<open>The same on the list of the recorded blocks in the order of their addresses.\<close>

fun heap_spec :: "heap_op \<Rightarrow> (storage_element \<times> int) list \<Rightarrow> int option \<times> (storage_element \<times> int) list" where
  "heap_spec (Malloc A file line sz) xs =
     (let q = the (got_block A); n = Heap_roundup sz in
      (Some (q + 4), insert_item ptrCompare \<lparr>se_file = file, se_line = line, se_ptr = q, se_size = n\<rparr>
         (32 + (int (length file) + 1) + (n + 8)) xs))"
| "heap_spec (Free temp p) xs = (None, remove_item ptrCompare (Inl (p - 4)) xs)"
| "heap_spec (Realloc temp A file line p sz) xs =
     (case recorded p xs of None \<Rightarrow> (None, xs)
      | Some s \<Rightarrow>
          let q = the (got_block A); n = Heap_roundup sz in
          (Some (q + 4), insert_item ptrCompare \<lparr>se_file = file, se_line = line, se_ptr = q, se_size = n\<rparr>
             (32 + (n + 8 - se_size s) - int (length (se_file s)) + (int (length file) + 1))
             (remove_item ptrCompare (Inl (p - 4)) xs)))"

text \<open>The allocator succeeds and gives a block that is not in use; the new node is not in use either.\<close>

definition succeeds :: "allocation \<Rightarrow> int option \<Rightarrow> heap_state \<Rightarrow> bool" where
  "succeeds A old H \<longleftrightarrow> got_struct A \<and> got_file A
     \<and> (\<exists>q. got_block A = Some q \<and> (blocks H q = None \<or> old = Some q)) \<and> tree_nodes (heap_tree H) (node_address A) = None"

fun heap_pre :: "heap_op \<Rightarrow> (storage_element \<times> int) list \<Rightarrow> heap_state \<Rightarrow> bool" where
  "heap_pre (Malloc A file line sz) xs H \<longleftrightarrow> 0 \<le> sz \<and> succeeds A None H"
| "heap_pre (Free temp p) xs H \<longleftrightarrow> tree_nodes (heap_tree H) temp = None"
| "heap_pre (Realloc temp A file line p sz) xs H \<longleftrightarrow>
     0 \<le> sz \<and> tree_nodes (heap_tree H) temp = None \<and> succeeds A (map_option se_ptr (recorded p xs)) H"

lemma roundup_nonneg: "0 \<le> sz \<Longrightarrow> 0 \<le> Heap_roundup sz"
  by (auto simp: Heap_roundup_def SIZEOF_INT_def Let_def)

lemma same_ptr: "same ptrCompare v x \<longleftrightarrow> se_ptr (fst x) = case_sum id se_ptr v"
  by (auto simp: heap_order.same_val split: sum.splits)

lemma set_insert_item:
  assumes "find (same ptrCompare (Inr s)) xs = None"
  shows "set (insert_item ptrCompare s n xs) = insert (s, n) (set xs)"
  using assms heap_order.trichotomy [of "Inr s"] by (auto simp: insert_item_def find_None_iff)

lemma sizes_insert_item:
  assumes "find (same ptrCompare (Inr s)) xs = None"
  shows "sum_list (map (se_size \<circ> fst) (insert_item ptrCompare s n xs)) = sum_list (map (se_size \<circ> fst) xs) + se_size s"
proof -
  have "\<forall>x \<in> set xs. \<not> same ptrCompare (Inr s) x \<Longrightarrow>
      sum_list (map (se_size \<circ> fst) (filter (under ptrCompare (Inr s)) xs)) + sum_list (map (se_size \<circ> fst) (filter (over ptrCompare (Inr s)) xs))
        = sum_list (map (se_size \<circ> fst) xs)"
  proof (induction xs)
    case (Cons x xs)
    then have "under ptrCompare (Inr s) x \<noteq> over ptrCompare (Inr s) x"
      using heap_order.trichotomy [of "Inr s" x] heap_order.exclusive(2) [of "Inr s" x] by auto
    then show ?case
      using Cons by auto
  qed simp
  moreover have "\<forall>x \<in> set xs. \<not> same ptrCompare (Inr s) x"
    using assms by (auto simp: find_None_iff)
  ultimately show ?thesis
    by (simp add: insert_item_def)
qed

lemma absent: "tracks xs H \<Longrightarrow> blocks H (se_ptr s) = None \<Longrightarrow> find (same ptrCompare (Inr s)) xs = None"
  by (fastforce simp: tracks_def find_None_iff same_ptr domIff)

section \<open>Allocating\<close>

text \<open>
  Recording a block that is in memory but not in the tree.
\<close>

lemma record_block:
  assumes t: "search_tree ptrCompare xs T" "find (same ptrCompare (Inr s)) xs = None" "tree_nodes T a = None"
    and sz: "cs = sum_list (map (se_size \<circ> fst) xs) + se_size s" "cs \<le> ms"
    and b: "dom bs = insert (se_ptr s) (se_ptr ` fst ` set xs)"
      "\<forall>x \<in> insert (s, n) (set xs). 0 \<le> se_size (fst x) \<and> map_option length (bs (se_ptr (fst x))) = Some (nat (se_size (fst x)) + 8)"
  shows "\<exists>T'. TreeAdd (\<lambda>_. a) s n T = Done (None, T') \<and> tracks (insert_item ptrCompare s n xs)
    \<lparr>heap_tree = T', current_size = cs, max_size = ms, blocks = bs, heap_mutex = False, reports = rs\<rparr>"
proof -
  obtain T' where "TreeAdd (\<lambda>_. a) s n T = Done (None, T')" "search_tree ptrCompare (insert_item ptrCompare s n xs) T'"
    using heap_order.add_refines [OF t(1,3,2)] by blast
  then show ?thesis
    using sz b set_insert_item [OF t(2), of n] sizes_insert_item [OF t(2), of n] by (auto simp: tracks_def)
qed

lemma malloc_tracks:
  assumes H: "tracks xs H" and A: "succeeds A None H" and sz: "0 \<le> sz"
  shows "\<exists>H'. mymalloc A file line sz H = Done (fst (heap_spec (Malloc A file line sz) xs), H')
    \<and> tracks (snd (heap_spec (Malloc A file line sz) xs)) H'"
proof -
  obtain q where q: "got_block A = Some q" "blocks H q = None" and a: "tree_nodes (heap_tree H) (node_address A) = None"
    using A by (auto simp: succeeds_def)
  let ?n = "Heap_roundup sz" and ?bs = "(blocks H)(q \<mapsto> eyecatcher @ replicate (nat (Heap_roundup sz)) None @ eyecatcher)"
  let ?s = "\<lparr>se_file = file, se_line = line, se_ptr = q, se_size = ?n\<rparr>"
  let ?sp = "32 + (int (length file) + 1) + (?n + 8)"
  let ?ms = "max (max_size H) (current_size H + ?n)"
  have "\<exists>T'. TreeAdd (\<lambda>_. node_address A) ?s ?sp (heap_tree H) = Done (None, T') \<and> tracks (insert_item ptrCompare ?s ?sp xs)
    \<lparr>heap_tree = T', current_size = current_size H + ?n, max_size = ?ms, blocks = ?bs, heap_mutex = False, reports = reports H\<rparr>"
  proof (rule record_block)
    show "find (same ptrCompare (Inr ?s)) xs = None"
      using absent [OF H, of ?s] q(2) by simp
    have "se_ptr (fst x) \<noteq> q" if "x \<in> set xs" for x
      using H that q(2) by (fastforce simp: tracks_def)
    then show "\<forall>x \<in> insert (?s, ?sp) (set xs). 0 \<le> se_size (fst x) \<and> map_option length (?bs (se_ptr (fst x))) = Some (nat (se_size (fst x)) + 8)"
      using H roundup_nonneg [OF sz] by (auto simp: tracks_def eyecatcher_def)
  qed (use H a in \<open>auto simp: tracks_def\<close>)
  then obtain T' where T': "TreeAdd (\<lambda>_. node_address A) ?s ?sp (heap_tree H) = Done (None, T')" "tracks (insert_item ptrCompare ?s ?sp xs)
    \<lparr>heap_tree = T', current_size = current_size H + ?n, max_size = ?ms, blocks = ?bs, heap_mutex = False, reports = reports H\<rparr>"
    by blast
  have "mymalloc A file line sz H = Done (Some (q + 4),
    \<lparr>heap_tree = T', current_size = current_size H + ?n, max_size = ?ms, blocks = ?bs, heap_mutex = False, reports = reports H\<rparr>)"
    using A H q(1) T'(1)
    by (simp add: mymalloc_def succeeds_def Thread_lock_mutex_def tracks_def Let_def SIZEOF_STORAGE_def SIZEOF_INT_def
        Thread_unlock_mutex_def grown_def)
  then show ?thesis
    using T'(2) q(1) by (simp add: Let_def)
qed


section \<open>Giving back\<close>

context content_order
begin

lemma filter_same: "ordered cmp xs \<Longrightarrow> find (same cmp v) xs = Some x \<Longrightarrow> filter (same cmp v) xs = [x]"
proof (induction xs)
  case (Cons y xs)
  have over: "\<forall>z \<in> set xs. over cmp (Inr (fst y)) z" and o: "ordered cmp xs"
    using Cons.prems(1) by (simp_all add: ordered_Cons)
  show ?case
  proof (cases "same cmp v y")
    case True
    then have "\<forall>z \<in> set xs. \<not> same cmp v z"
      using over same_over(1) [OF True] exclusive(3) by blast
    then show ?thesis
      using Cons.prems(2) True by (simp add: filter_empty_conv)
  next
    case False
    then show ?thesis
      using Cons.IH [OF o] Cons.prems(2) by simp
  qed
qed simp

end

lemma sum_parts: "sum_list (map f xs) = sum_list (map f (filter P xs)) + (sum_list (map f (filter (\<lambda>x. \<not> P x) xs)) :: int)"
  by (induction xs) auto

lemma removed_parts:
  assumes o: "ordered ptrCompare xs" and f: "find (same ptrCompare v) xs = Some (s, n)"
  shows "sum_list (map (se_size \<circ> fst) (remove_item ptrCompare v xs)) = sum_list (map (se_size \<circ> fst) xs) - se_size s"
    "se_ptr ` fst ` set (remove_item ptrCompare v xs) = se_ptr ` fst ` set xs - {se_ptr s}"
    "set (remove_item ptrCompare v xs) \<subseteq> set xs" "(s, n) \<in> set xs" "se_ptr s = case_sum id se_ptr v"
proof -
  show "sum_list (map (se_size \<circ> fst) (remove_item ptrCompare v xs)) = sum_list (map (se_size \<circ> fst) xs) - se_size s"
    using sum_parts [of "se_size \<circ> fst" xs "same ptrCompare v"] heap_order.filter_same [OF o f] by (simp add: remove_item_def)
  have "same ptrCompare v (s, n) \<and> (s, n) \<in> set xs"
    using f find_Some_iff [of "same ptrCompare v" xs "(s, n)"] by (metis nth_mem)
  then show "(s, n) \<in> set xs" and v: "se_ptr s = case_sum id se_ptr v"
    using same_ptr [of v "(s, n)"] by simp_all
  show "se_ptr ` fst ` set (remove_item ptrCompare v xs) = se_ptr ` fst ` set xs - {se_ptr s}"
    by (force simp: remove_item_def same_ptr v)
qed (auto simp: remove_item_def)

lemma unlink_found:
  assumes H: "tracks xs H" and temp: "tree_nodes (heap_tree H) temp = None" and s: "recorded p xs = Some s"
  shows "\<exists>T' b. blocks H (p - 4) = Some b \<and> search_tree ptrCompare (remove_item ptrCompare (Inl (p - 4)) xs) T'
    \<and> Internal_heap_unlink temp p (H\<lparr>heap_mutex := True\<rparr>)
      = Done (True, H\<lparr>heap_tree := T', current_size := current_size H - se_size s, heap_mutex := True,
          reports := reports H @ damage b (se_size s)\<rparr>)"
proof -
  obtain n where f: "find (same ptrCompare (Inl (p - 4))) xs = Some (s, n)"
    using s by auto
  have t: "search_tree ptrCompare xs (heap_tree H)" and o: "ordered ptrCompare xs"
    using H by (auto simp: tracks_def search_tree_def)
  note parts = removed_parts [OF o f]
  then obtain b where b: "blocks H (p - 4) = Some b" "length b = nat (se_size s) + 8" "0 \<le> se_size s"
    using H by (fastforce simp: tracks_def)
  obtain e T' where r: "removal ptrCompare (Inl (p - 4)) xs (heap_tree H) temp e T'"
    using heap_order.remove_located [OF t temp] by blast
  then have "TreeFind (p - 4) (heap_tree H) = Done e" "e \<noteq> None" "TreeRemoveNodeIndex temp e 0 (heap_tree H) = Done (Some s, T')"
    "search_tree ptrCompare (remove_item ptrCompare (Inl (p - 4)) xs) T'" "\<exists>n. tree_node_at e (heap_tree H) = Done n \<and> node_content n = Some s"
    using f by (auto simp: removal_def TreeFind_def TreeFindIndex_def split: if_splits)
  then show ?thesis
    using b by (auto simp: Internal_heap_unlink_def SIZEOF_INT_def checkEyecatchers_def report_def Let_def)
qed

lemma unlink_missing:
  assumes H: "tracks xs H" and p: "recorded p xs = None"
  shows "Internal_heap_unlink temp p (H\<lparr>heap_mutex := True\<rparr>) = Done (False, report [Remove_failed] (H\<lparr>heap_mutex := True\<rparr>))"
proof -
  have "search_tree ptrCompare xs (heap_tree H)"
    using H by (simp add: tracks_def)
  then obtain k t where "TreeFindIndex1 (Inl (p - 4)) 0 (heap_tree H) = Done (ptr t)"
    "case t of Leaf \<Rightarrow> find (same ptrCompare (Inl (p - 4))) xs = None
     | Node l (a, r, c, s) u \<Rightarrow> find (same ptrCompare (Inl (p - 4))) xs = Some (c, s)
         \<and> remove_item ptrCompare (Inl (p - 4)) xs = before k @ items l @ items u @ after k"
    using heap_order.find_located [of xs "heap_tree H" "Inl (p - 4)"] by blast
  then have "TreeFind (p - 4) (heap_tree H) = Done None"
    using p by (cases t rule: invc.cases) (auto simp: TreeFind_def TreeFindIndex_def)
  then show ?thesis
    by (simp add: Internal_heap_unlink_def SIZEOF_INT_def)
qed

lemma free_tracks:
  assumes H: "tracks xs H" and temp: "tree_nodes (heap_tree H) temp = None"
  shows "\<exists>H'. myfree temp p H = Done H' \<and> tracks (remove_item ptrCompare (Inl (p - 4)) xs) H'
    \<and> blocks H' = (if recorded p xs = None then blocks H else (blocks H)(p - 4 := None))
    \<and> reports H' = reports H @ (case recorded p xs of None \<Rightarrow> [Remove_failed] | Some s \<Rightarrow> damage (the (blocks H (p - 4))) (se_size s))"
proof (cases "recorded p xs")
  case None
  then have "remove_item ptrCompare (Inl (p - 4)) xs = xs"
    by (auto simp: remove_item_def find_None_iff filter_id_conv)
  moreover have "tracks xs (Thread_unlock_mutex (report [Remove_failed] (H\<lparr>heap_mutex := True\<rparr>)))"
    using H by (simp add: tracks_def Thread_unlock_mutex_def report_def)
  ultimately show ?thesis
    using unlink_missing [OF H None, of temp] H None
    by (simp add: myfree_def Thread_lock_mutex_def tracks_def Thread_unlock_mutex_def report_def)
next
  case (Some s)
  then obtain n where f: "find (same ptrCompare (Inl (p - 4))) xs = Some (s, n)"
    by auto
  obtain T' b where u: "blocks H (p - 4) = Some b" "search_tree ptrCompare (remove_item ptrCompare (Inl (p - 4)) xs) T'"
    "Internal_heap_unlink temp p (H\<lparr>heap_mutex := True\<rparr>)
      = Done (True, H\<lparr>heap_tree := T', current_size := current_size H - se_size s, heap_mutex := True,
          reports := reports H @ damage b (se_size s)\<rparr>)"
    using unlink_found [OF H temp Some] by blast
  have o: "ordered ptrCompare xs"
    using H by (auto simp: tracks_def search_tree_def)
  note parts = removed_parts [OF o f]
  let ?H' = "H\<lparr>heap_tree := T', current_size := current_size H - se_size s, blocks := (blocks H)(p - 4 := None),
    heap_mutex := False, reports := reports H @ damage b (se_size s)\<rparr>"
  have "0 \<le> se_size s" "\<forall>x \<in> set (remove_item ptrCompare (Inl (p - 4)) xs). se_ptr (fst x) \<noteq> p - 4"
    using H parts(4) by (auto simp: tracks_def remove_item_def same_ptr)
  then have "tracks (remove_item ptrCompare (Inl (p - 4)) xs) ?H'"
    using H u(2) parts by (auto simp: tracks_def)
  moreover have "myfree temp p H = Done ?H'"
    using H u(1,3) by (simp add: myfree_def Thread_lock_mutex_def tracks_def Thread_unlock_mutex_def SIZEOF_INT_def)
  ultimately show ?thesis
    using f u(1) by simp
qed


section \<open>Changing the size\<close>

lemma length_resized: "length (resized n b) = n"
  by (simp add: resized_def)

lemma length_between: "length (between_eyecatchers (nat n) (resized (nat n + 8) b)) = nat n + 8"
  by (simp add: between_eyecatchers_def length_resized eyecatcher_def)

lemma realloc_tracks:
  assumes H: "tracks xs H" and temp: "tree_nodes (heap_tree H) temp = None" and sz: "0 \<le> sz"
    and A: "succeeds A (map_option se_ptr (recorded p xs)) H"
  shows "\<exists>H'. myrealloc temp A file line p sz H = Done (fst (heap_spec (Realloc temp A file line p sz) xs), H')
    \<and> tracks (snd (heap_spec (Realloc temp A file line p sz) xs)) H'"
proof -
  have t: "search_tree ptrCompare xs (heap_tree H)" and o: "ordered ptrCompare xs" and unlocked: "\<not> heap_mutex H"
    using H by (auto simp: tracks_def search_tree_def)
  obtain T1 where T1: "TreeRemoveKey temp (p - 4) (heap_tree H) = Done (recorded p xs, T1)"
    "search_tree ptrCompare (remove_item ptrCompare (Inl (p - 4)) xs) T1" "dom (tree_nodes T1) \<subseteq> dom (tree_nodes (heap_tree H))"
    using heap_order.remove_key_refines [OF t temp] by blast
  show ?thesis
  proof (cases "recorded p xs")
    case None
    then have "remove_item ptrCompare (Inl (p - 4)) xs = xs"
      by (auto simp: remove_item_def find_None_iff filter_id_conv)
    then have "tracks xs (H\<lparr>heap_tree := T1, reports := reports H @ [Reallocate_failed], heap_mutex := False\<rparr>)"
      using H T1(2) by (simp add: tracks_def)
    then show ?thesis
      using T1(1) None unlocked
      by (simp add: myrealloc_def Thread_lock_mutex_def SIZEOF_INT_def Let_def Thread_unlock_mutex_def report_def)
  next
    case (Some s)
    then obtain n where f: "find (same ptrCompare (Inl (p - 4))) xs = Some (s, n)"
      by auto
    note parts = removed_parts [OF o f]
    have p: "se_ptr s = p - 4"
      using parts(5) by simp
    obtain b where b: "blocks H (p - 4) = Some b" "length b = nat (se_size s) + 8" "0 \<le> se_size s"
      using H parts(4) p by (fastforce simp: tracks_def)
    obtain q where q: "got_block A = Some q" "blocks H q = None \<or> q = p - 4" and ok: "got_file A"
      and a: "tree_nodes (heap_tree H) (node_address A) = None"
      using A Some p by (auto simp: succeeds_def)
    let ?ys = "remove_item ptrCompare (Inl (p - 4)) xs"
    let ?n = "Heap_roundup sz" and ?b = "between_eyecatchers (nat (Heap_roundup sz)) (resized (nat (Heap_roundup sz) + 8) b)"
    let ?bs = "(blocks H)(p - 4 := None, q \<mapsto> ?b)" and ?s = "\<lparr>se_file = file, se_line = line, se_ptr = q, se_size = Heap_roundup sz\<rparr>"
    let ?sp = "32 + (?n + 8 - se_size s) - int (length (se_file s)) + (int (length file) + 1)"
    let ?cs = "current_size H + (?n - se_size s)"
    let ?ms = "max (max_size H) ?cs" and ?rs = "reports H @ damage b (se_size s)"
    have away: "se_ptr (fst x) \<noteq> p - 4" "se_ptr (fst x) \<noteq> q" if "x \<in> set ?ys" for x
    proof -
      show "se_ptr (fst x) \<noteq> p - 4"
        using that by (simp add: remove_item_def same_ptr)
      then show "se_ptr (fst x) \<noteq> q"
        using that q(2) H parts(3) by (fastforce simp: tracks_def)
    qed
    have "\<exists>T'. TreeAdd (\<lambda>_. node_address A) ?s ?sp T1 = Done (None, T') \<and> tracks (insert_item ptrCompare ?s ?sp ?ys)
      \<lparr>heap_tree = T', current_size = ?cs, max_size = ?ms, blocks = ?bs, heap_mutex = False, reports = ?rs\<rparr>"
    proof (rule record_block)
      show "find (same ptrCompare (Inr ?s)) ?ys = None"
        using away(2) by (fastforce simp: find_None_iff same_ptr)
      show "tree_nodes T1 (node_address A) = None"
        using T1(3) a by blast
      show "?cs = sum_list (map (se_size \<circ> fst) ?ys) + se_size ?s"
        using H parts(1) by (simp add: tracks_def)
      show "dom ?bs = insert (se_ptr ?s) (se_ptr ` fst ` set ?ys)"
        using H parts(2) p by (auto simp: tracks_def)
      show "\<forall>x \<in> insert (?s, ?sp) (set ?ys). 0 \<le> se_size (fst x) \<and> map_option length (?bs (se_ptr (fst x))) = Some (nat (se_size (fst x)) + 8)"
      proof -
        have "\<forall>x \<in> set ?ys. ?bs (se_ptr (fst x)) = blocks H (se_ptr (fst x))"
          using away by simp
        then show ?thesis
          using H parts(3) roundup_nonneg [OF sz] length_between [of ?n b] by (auto simp: tracks_def simp del: fun_upd_apply) simp_all
      qed
    qed (use T1(2) in auto)
    then obtain T' where T': "TreeAdd (\<lambda>_. node_address A) ?s ?sp T1 = Done (None, T')" "tracks (insert_item ptrCompare ?s ?sp ?ys)
      \<lparr>heap_tree = T', current_size = ?cs, max_size = ?ms, blocks = ?bs, heap_mutex = False, reports = ?rs\<rparr>"
      by blast
    have "myrealloc temp A file line p sz H = Done (Some (q + 4),
      \<lparr>heap_tree = T', current_size = ?cs, max_size = ?ms, blocks = ?bs, heap_mutex = False, reports = ?rs\<rparr>)"
      using T1(1) T'(1) Some unlocked b q(1) ok p
      by (simp add: myrealloc_def Thread_lock_mutex_def SIZEOF_INT_def SIZEOF_STORAGE_def checkEyecatchers_def Let_def
          Thread_unlock_mutex_def report_def grown_def)
    then show ?thesis
      using T'(2) q(1) f by (simp add: Let_def)
  qed
qed


section \<open>The properties\<close>

text \<open>
  C20: While the allocator finds memory, \<open>mymalloc\<close>, \<open>myrealloc\<close> and \<open>myfree\<close> keep the record of the heap
  exact: the tree holds the allocated blocks in the order of their addresses and no other, the sizes
  add up, and each call gives the address, and leaves the record, that it would on a plain list.
\<close>

theorem heap_refines_list:
  assumes "tracks xs H" "heap_pre op xs H"
  shows "\<exists>H'. heap_step op H = Done (fst (heap_spec op xs), H') \<and> tracks (snd (heap_spec op xs)) H'"
proof (cases op)
  case (Malloc A name line sz)
  then show ?thesis
    using malloc_tracks [OF assms(1)] assms(2) by simp
next
  case (Free temp p)
  then show ?thesis
    using free_tracks [OF assms(1), of temp p] assms(2) by auto
next
  case (Realloc temp A name line p sz)
  then show ?thesis
    using realloc_tracks [OF assms(1)] assms(2) by simp
qed

definition empty_heap :: heap_state where
  "empty_heap = Heap_initialize \<lparr>heap_tree = TreeInitialize ptrCompare, current_size = 0, max_size = 0, blocks = Map.empty,
     heap_mutex = False, reports = []\<rparr>"

lemma empty_heap_fields [simp]:
  "tree_nodes (heap_tree empty_heap) = Map.empty" "current_size empty_heap = 0" "max_size empty_heap = 0"
  "blocks empty_heap = Map.empty" "heap_mutex empty_heap = False" "reports empty_heap = []"
  by (simp_all add: empty_heap_def Heap_initialize_def TreeInitializeNoMalloc_def)

lemma empty_heap_tracks: "tracks [] empty_heap"
proof -
  have "search_tree ptrCompare [] (heap_tree empty_heap)"
    unfolding search_tree_def
    by (intro conjI exI [of _ Leaf])
      (simp_all add: empty_heap_def Heap_initialize_def TreeInitializeNoMalloc_def at_def root_of_def rb_def ordered_def)
  then show ?thesis
    by (simp add: tracks_def)
qed

definition one_block :: allocation where
  "one_block = \<lparr>got_struct = True, got_file = True, got_block = Some 4096, node_address = 1\<rparr>"

lemma one_malloc:
  "\<exists>H'. mymalloc one_block [] 1 10 empty_heap = Done (Some 4100, H')
     \<and> tracks [(\<lparr>se_file = [], se_line = 1, se_ptr = 4096, se_size = 16\<rparr>, 57)] H'"
  using malloc_tracks [OF empty_heap_tracks, of one_block 10 "[]" 1]
  by (simp add: succeeds_def one_block_def Heap_roundup_def SIZEOF_INT_def insert_item_def Let_def)

theorem heap_refines_list_witness:
  "\<exists>H'. heap_step (Malloc one_block [] 1 10) empty_heap = Done (Some 4100, H')
     \<and> tracks [(\<lparr>se_file = [], se_line = 1, se_ptr = 4096, se_size = 16\<rparr>, 57)] H'"
  using heap_refines_list [OF empty_heap_tracks, of "Malloc one_block [] 1 10"]
  by (simp add: succeeds_def one_block_def Heap_roundup_def SIZEOF_INT_def insert_item_def Let_def)



section \<open>Going through the heap\<close>

lemma cell_node:
  assumes "at T i [] t" "(a, r, c, s) \<in> set (inorder t)"
  shows "\<exists>up ch. tree_node_at (Some a) T = Done (mk up ch r c s)"
proof -
  have "shape h up t \<Longrightarrow> (a, r, c, s) \<in> set (inorder t) \<Longrightarrow> \<exists>up ch. h a = Some (mk up ch r c s)" for h up
    by (induction h up t rule: shape.induct) auto
  then show ?thesis
    using assms by (fastforce simp: at_def tree_node_at_def)
qed

lemma scan_from:
  assumes "at T 0 [] t"
  shows "inorder t = us @ vs \<Longrightarrow> heap_tree H = T \<Longrightarrow> scan_loop (last_opt (map fst us)) H
    = Some (Done (report (map (\<lambda>x. Scan_item (fst (snd (snd x)))) vs) H))"
proof (induction vs arbitrary: us H)
  case Nil
  then show ?case
    using next_element [OF assms(1), of "map fst us" "[]"]
    by (subst scan_loop.simps) (simp add: addrs_def report_def)
next
  case (Cons v vs)
  obtain a r s n where v: "v = (a, r, s, n)"
    by (cases v) auto
  have "TreeNextElement (last_opt (map fst us)) (heap_tree H) = Done (Some a)"
    using next_element [OF assms(1), of "map fst us" "a # map fst vs"] Cons.prems by (simp add: addrs_def v)
  moreover obtain up ch where "tree_node_at (Some a) T = Done (mk up ch r s n)"
    using cell_node [OF assms, of a r s n] Cons.prems(1) by (auto simp: v)
  moreover have "scan_loop (Some a) (report [Scan_item s] H)
      = Some (Done (report (map (\<lambda>x. Scan_item (fst (snd (snd x)))) vs) (report [Scan_item s] H)))"
    using Cons.IH [of "us @ [v]" "report [Scan_item s] H"] Cons.prems by (simp add: v report_def)
  ultimately show ?case
    using Cons.prems by (subst scan_loop.simps) (simp add: v report_def)
qed

text \<open>
  C22: A scan of the heap ends, and lists every recorded block once, in the order of the addresses.
\<close>

theorem scan_lists_heap:
  assumes "tracks xs H"
  shows "HeapScan H = Done (report (map (Scan_item \<circ> fst) xs) H)"
proof -
  obtain t where t: "at (heap_tree H) 0 [] t" "items t = xs"
    using assms by (auto simp: tracks_def search_tree_def)
  have "scan_loop None (H\<lparr>heap_mutex := True\<rparr>) = Some (Done (report (map (\<lambda>x. Scan_item (fst (snd (snd x)))) (inorder t)) (H\<lparr>heap_mutex := True\<rparr>)))"
    using scan_from [OF t(1), of "[]" "inorder t" "H\<lparr>heap_mutex := True\<rparr>"] by simp
  then show ?thesis
    using assms t(2) by (auto simp: HeapScan_def Thread_lock_mutex_def tracks_def run_loop_def Thread_unlock_mutex_def report_def
        items_def comp_def)
qed

theorem scan_lists_heap_witness: "HeapScan empty_heap = Done (report [] empty_heap)"
  using scan_lists_heap [OF empty_heap_tracks] by simp

section \<open>Failures\<close>



text \<open>
  Dumping a heap reads past the end of its first block: the size in the tree, which is how much is
  written, counts the record and the file name too.
\<close>

theorem dump_reads_past_block:
  assumes "tracks ((s, n) # xs) H" "n = 32 + (int (length (se_file s)) + 1) + (se_size s + 8)"
  shows "HeapDump (\<lambda>_. True) H = Fault"
proof -
  obtain t where t: "at (heap_tree H) 0 [] t" "items t = (s, n) # xs"
    using assms(1) by (auto simp: tracks_def search_tree_def)
  then obtain a r us where i: "inorder t = (a, r, s, n) # us"
    by (auto simp: items_def)
  have "TreeNextElement None (heap_tree H) = Done (Some a)"
    using next_element [OF t(1), of "[]" "a # map fst us"] i by (simp add: addrs_def)
  moreover obtain up ch where "tree_node_at (Some a) (heap_tree H) = Done (mk up ch r s n)"
    using cell_node [OF t(1), of a r s n] i by auto
  moreover obtain b where "blocks H (se_ptr s) = Some b" "length b = nat (se_size s) + 8" "0 \<le> se_size s"
    using assms(1) by (auto simp: tracks_def)
  ultimately have "dump_loop (\<lambda>_. True) 0 None H [] = Some Fault"
    using assms(2) by (subst dump_loop.simps) simp
  then show ?thesis
    by (simp add: HeapDump_def run_loop_def)
qed

theorem dump_reads_past_block_witness:
  "\<exists>H'. mymalloc one_block [] 1 10 empty_heap = Done (Some 4100, H') \<and> HeapDump (\<lambda>_. True) H' = Fault"
proof -
  obtain H' where "mymalloc one_block [] 1 10 empty_heap = Done (Some 4100, H')"
    "tracks [(\<lparr>se_file = [], se_line = 1, se_ptr = 4096, se_size = 16\<rparr>, 57)] H'"
    using one_malloc by blast
  with dump_reads_past_block [OF this(2)] show ?thesis
    by simp
qed

end
