(* ===== verification/Tester.thy ===== *)
theory Tester
  imports Node_Main
begin

text \<open>
  The console of the tester, \<^verbatim>\<open>tester/source/main.c\<close>: it reads lines from the terminal, takes them
  apart into words and publishes commands for the nodes.  The array \<open>sub_cmd\<close> of eight rows of eight bytes
  is one block of memory, so that a long word runs on into the next row; its bytes are not initialised
  (\<open>None\<close>).  The line read so far, \<open>cmd\<close>, is a text in 128 bytes.  Each character is added with
  \<open>strcat(cmd, &ch)\<close>, which takes the bytes behind the variable \<open>ch\<close> as the rest of a string: they are a
  parameter, \<open>behind_ch\<close>, up to the first zero byte.  The console is the list of its characters; the end of
  the input, which the program does not look at, is the byte 255.
\<close>

record 'n console =
  world_of :: "'n world"
  async_disconnect :: "'n \<Rightarrow> int \<times> 'n"
  behind_ch :: "u8 list"

record 'n tester =
  app_state :: "'n glue icp"
  cmd :: "u8 list"
  sub_cmd :: "nat \<Rightarrow> u8 option"

definition CMD_SIZE :: nat where "CMD_SIZE = 128"
definition SUB_CMDS :: nat where "SUB_CMDS = 8"

section \<open>Words\<close>

text \<open>\<open>strtok(s, " ")\<close>: the first word and what is behind its delimiter.\<close>

definition strtok :: "u8 list \<Rightarrow> (u8 list \<times> u8 list) option" where
  "strtok s =
     (let t = dropWhile (\<lambda>b. b = 0x20) s in
      if t = [] then None
      else Some (takeWhile (\<lambda>b. b \<noteq> 0x20) t, drop 1 (dropWhile (\<lambda>b. b \<noteq> 0x20) t)))"

lemma strtok_shorter: "strtok s = Some (w, rest) \<Longrightarrow> length rest < length s"
proof -
  assume a: "strtok s = Some (w, rest)"
  let ?t = "dropWhile (\<lambda>b. b = 0x20) s"
  have t: "?t \<noteq> []" "rest = drop 1 (dropWhile (\<lambda>b. b \<noteq> 0x20) ?t)"
    using a by (auto simp: strtok_def Let_def split: if_splits)
  then have "hd ?t \<noteq> 0x20"
    using hd_dropWhile [OF t(1)] by simp
  then have "length (dropWhile (\<lambda>b. b \<noteq> 0x20) ?t) \<le> length ?t - 1"
    using t(1) length_dropWhile_le by (cases ?t) auto
  then show ?thesis
    using t length_dropWhile_le [of "\<lambda>b. b = 0x20" s] by (cases ?t) auto
qed

text \<open>\<open>strcpy(sub_cmd[i], w)\<close>\<close>

definition store_word :: "nat \<Rightarrow> u8 list \<Rightarrow> (nat \<Rightarrow> u8 option) \<Rightarrow> (nat \<Rightarrow> u8 option) outcome" where
  "store_word i w sub =
     check (8 * i + length w < 8 * SUB_CMDS)
       (Done (\<lambda>j. if 8 * i \<le> j \<and> j \<le> 8 * i + length w then Some ((w @ [0]) ! (j - 8 * i)) else sub j))"

function store_words :: "nat \<Rightarrow> u8 list \<Rightarrow> (nat \<Rightarrow> u8 option) \<Rightarrow> (nat \<Rightarrow> u8 option) outcome" where
  "store_words i s sub =
     (case strtok s of None \<Rightarrow> Done sub
      | Some (w, rest) \<Rightarrow> obind (store_word i w sub) (store_words (i + 1) rest))"
  by auto
termination
  by (relation "measure (\<lambda>(i, s, sub). length s)") (auto dest: strtok_shorter)

declare store_words.simps [simp del]

text \<open>
  The bytes that can be read from row \<open>k\<close> on, \<open>strncmp(sub_cmd[k], word, length) == 0\<close>, the chain of such
  tests joined by \<open>||\<close>, and the text \<open>strcpy(str, sub_cmd[k])\<close> finds.
\<close>

definition readable :: "nat \<Rightarrow> (nat \<Rightarrow> u8 option) \<Rightarrow> u8 list" where
  "readable k sub = map the (takeWhile (\<lambda>b. b \<noteq> None) (map sub [8 * k ..< 8 * SUB_CMDS]))"

definition word_is :: "nat \<Rightarrow> string \<Rightarrow> (nat \<Rightarrow> u8 option) \<Rightarrow> bool outcome" where
  "word_is k w sub = text_is (readable k sub) w"

primrec any_word :: "nat \<Rightarrow> string list \<Rightarrow> (nat \<Rightarrow> u8 option) \<Rightarrow> bool outcome" where
  "any_word k [] sub = Done False"
| "any_word k (w # ws) sub = obind (word_is k w sub) (\<lambda>b. if b then Done True else any_word k ws sub)"

definition word_text :: "nat \<Rightarrow> (nat \<Rightarrow> u8 option) \<Rightarrow> u8 list outcome" where
  "word_text k sub = strcpy_text 128 (readable k sub)"

section \<open>A command\<close>

text \<open>The literal \<open>all\<close> is compared with four bytes, its terminator included.\<close>

definition receiver_of :: "(nat \<Rightarrow> u8 option) \<Rightarrow> mac_addr outcome" where
  "receiver_of sub = dispatch (readable 0 sub)
     [(''cam'', Done NODE_CAM), (''cdhs'', Done NODE_CDHS), (''pc'', Done NODE_PC), (''eps'', Done NODE_EPS),
      (''test'', Done NODE_TEST), (''bus'', Done NODE_BUS)]
     (obind (strncmp_eq (readable 0 sub) (ascii ''all'' @ [0]) 4) (\<lambda>b.
        Done (if b then BROADCAST else INVALID_MAC_ADDR)))"

definition topic_for :: "mac_addr \<Rightarrow> u8 list" where
  "topic_for receiver = topic_names TOPIC_SIMULATOR_BASE
     @ (if receiver \<noteq> INVALID_MAC_ADDR \<and> receiver \<noteq> BROADCAST then ascii (mac_addrs receiver) else [])"

text \<open>What a line leads to: the end of the program, nothing, or a message.\<close>

datatype line_action = Quit | Nothing | Send "u8 list"

text \<open>The information output names the receiver, which reads the table of the names.\<close>

definition name_receiver :: "mac_addr \<Rightarrow> 'n glue icp \<Rightarrow> 'a outcome \<Rightarrow> 'a outcome" where
  "name_receiver receiver s m = check (g_sys_enable_info_output (env s) \<longrightarrow> mac_num receiver < mac_num NUM_OF_NODES) m"

definition send_text :: "nat \<Rightarrow> (nat \<Rightarrow> u8 option) \<Rightarrow> line_action outcome" where
  "send_text k sub = obind (word_text k sub) (\<lambda>str. Done (Send str))"

definition set_text :: "(nat \<Rightarrow> u8 option) \<Rightarrow> line_action outcome" where
  "set_text sub =
     obind (word_text 1 sub) (\<lambda>a. obind (word_text 2 sub) (\<lambda>b. obind (word_text 3 sub) (\<lambda>c. obind (word_text 4 sub) (\<lambda>d.
       let str = a @ 0x20 # b @ 0x20 # c @ 0x20 # d in check (length str < 128) (Done (Send str))))))"

definition set_command :: "mac_addr \<Rightarrow> 'n glue icp \<Rightarrow> (nat \<Rightarrow> u8 option) \<Rightarrow> line_action outcome" where
  "set_command receiver s sub =
     (if receiver = INVALID_MAC_ADDR then Done Nothing
      else
        obind (any_word 2 [''icp'', ''mqtt'', ''sys'', ''all''] sub) (\<lambda>b.
        obind (if b then any_word 3 [''debug'', ''err'', ''warn'', ''info'', ''all''] sub else Done False) (\<lambda>b.
        obind (if b then any_word 4 [''true'', ''false''] sub else Done False) (\<lambda>b.
        if b then name_receiver receiver s (set_text sub) else Done Nothing))))"

definition ping_command :: "mac_addr \<Rightarrow> 'n glue icp \<Rightarrow> (nat \<Rightarrow> u8 option) \<Rightarrow> line_action outcome" where
  "ping_command receiver s sub =
     obind (any_word 2 [''cdhs'', ''cam'', ''pc'', ''eps'', ''bus''] sub) (\<lambda>b.
       if b then name_receiver receiver s (send_text 2 sub) else Done Nothing)"

text \<open>The chain of tests; \<open>sync\<close> restarts the clock as well.\<close>

definition line_command :: "'n console \<Rightarrow> mac_addr \<Rightarrow> 'n tester \<Rightarrow> (line_action \<times> 'n glue icp) outcome" where
  "line_command C receiver t =
     (let s = app_state t; sub = sub_cmd t; plainly = (\<lambda>m. obind m (\<lambda>a. Done (a, s))) in
      obind (word_is 0 ''q'' sub) (\<lambda>q.
      if q then Done (Quit, s)
      else if cmd t = [] then Done (Nothing, s)
      else obind (any_word 0 [''clean'', ''update'', ''reset'', ''stopupdate'', ''sync'', ''time''] sub) (\<lambda>b.
      if b then
        obind (send_text 0 sub) (\<lambda>a. obind (word_is 0 ''sync'' sub) (\<lambda>sy.
          Done (a, glue_do (\<lambda>g. g\<lparr>sent := False, net := (if sy then sync_clock (world_of C) (net g) else net g)\<rparr>) s)))
      else obind (any_word 1 [''clean'', ''update'', ''stopupdate'', ''reset'', ''time''] sub) (\<lambda>b.
      if b then plainly (name_receiver receiver s (send_text 1 sub))
      else obind (word_is 1 ''ping'' sub) (\<lambda>b.
      if b then plainly (ping_command receiver s sub)
      else obind (word_is 1 ''set'' sub) (\<lambda>b.
      if b then plainly (set_command receiver s sub) else Done (Nothing, s)))))))"

text \<open>What follows the command: the message is published and its delivery awaited; then the line is cleared.\<close>

definition send_line :: "'n console \<Rightarrow> u8 list \<Rightarrow> u8 list \<Rightarrow> 'n glue icp \<Rightarrow> 'n glue icp outcome" where
  "send_line C topic str s =
     obind (sendmsg (world_of C) topic str (glue_do (\<lambda>g. g\<lparr>sent := False\<rparr>) s)) (\<lambda>(_, s).
       wait_until (world_of C) (\<lambda>s. sent (env s)) s)"

definition clear_rows :: "(nat \<Rightarrow> u8 option) \<Rightarrow> nat \<Rightarrow> u8 option" where
  "clear_rows sub = (\<lambda>j. if j < 8 * SUB_CMDS \<and> j mod 8 = 0 then Some 0 else sub j)"

definition end_line :: "'n tester \<Rightarrow> 'n tester" where
  "end_line t = t\<lparr>cmd := [], sub_cmd := clear_rows (sub_cmd t)\<rparr>"

text \<open>One line, when its end was read; the result says whether the console goes on.\<close>

definition tester_line :: "'n console \<Rightarrow> 'n tester \<Rightarrow> (bool \<times> 'n tester) outcome" where
  "tester_line C t =
     obind (store_words 0 (cmd t) (sub_cmd t)) (\<lambda>sub.
     let t = t\<lparr>sub_cmd := sub\<rparr> in
     obind (receiver_of sub) (\<lambda>receiver.
     obind (line_command C receiver t) (\<lambda>(act, s).
     let t = t\<lparr>app_state := s\<rparr> in
     case act of
       Quit \<Rightarrow> Done (False, t)
     | Nothing \<Rightarrow> Done (True, end_line t)
     | Send str \<Rightarrow> obind (send_line C (topic_for receiver) str s) (\<lambda>s. Done (True, end_line (t\<lparr>app_state := s\<rparr>))))))"

definition tester_char :: "'n console \<Rightarrow> u8 \<Rightarrow> 'n tester \<Rightarrow> (bool \<times> 'n tester) outcome" where
  "tester_char C ch t =
     (if ch \<noteq> 0x0A
      then let added = (if ch = 0 then [] else ch # behind_ch C) in
           check (length (cmd t @ added) < CMD_SIZE) (Done (True, t\<lparr>cmd := cmd t @ added\<rparr>))
      else tester_line C t)"

fun tester_loop :: "'n console \<Rightarrow> u8 list \<Rightarrow> 'n tester \<Rightarrow> (bool \<times> 'n tester) outcome" where
  "tester_loop C [] t = Done (True, t)"
| "tester_loop C (ch # chs) t =
     obind (tester_char C ch t) (\<lambda>(goes_on, t). if goes_on then tester_loop C chs t else Done (False, t))"

section \<open>The program\<close>

definition tester_start :: "'n console \<Rightarrow> 'n glue icp \<Rightarrow> (bool \<times> 'n glue icp) outcome" where
  "tester_start C s =
     (let (_, s) = mqtt_enable_debug_output True s;
          (rc, n) = async_connect (world_of C) (net (env s)); s = glue_do (\<lambda>g. g\<lparr>net := n\<rparr>) s in
      if rc \<noteq> ASYNC_SUCCESS then Stuck
      else obind (wait_until (world_of C) (\<lambda>s. connected (env s)) s) (\<lambda>s. Done (\<not> finished (env s), s)))"

definition tester_stop :: "'n console \<Rightarrow> 'n glue icp \<Rightarrow> 'n glue icp outcome" where
  "tester_stop C s =
     (let (rc, n) = async_disconnect C (net (env s)); s = glue_do (\<lambda>g. g\<lparr>net := n\<rparr>) s in
      if rc \<noteq> ASYNC_SUCCESS then Stuck else wait_until (world_of C) (\<lambda>s. connected (env s)) s)"

text \<open>The program on a console of which \<open>chs\<close> was read; the result says whether it waits for more.\<close>

definition tester_main :: "'n console \<Rightarrow> (nat \<Rightarrow> u8 option) \<Rightarrow> u8 list \<Rightarrow> 'n glue icp \<Rightarrow> (bool \<times> 'n glue icp) outcome" where
  "tester_main C memory chs s =
     obind (tester_start C s) (\<lambda>(goes_on, s).
       if \<not> goes_on then Done (False, s)
       else obind (tester_loop C chs \<lparr>app_state = s, cmd = [], sub_cmd = memory\<rparr>) (\<lambda>(waits, t).
         if waits then Done (True, app_state t)
         else obind (tester_stop C (app_state t)) (\<lambda>s. Done (False, s))))"

end
