(* ===== verification/Tester_Lines.thy ===== *)
theory Tester_Lines
  imports Tester Node_Safety
begin

text \<open>
  The lines of the console at the level of words.  A line of at most eight words of at most seven letters
  fills the rows of \<open>sub_cmd\<close> without running over, and the chain of comparisons on the memory decides what
  \<open>command_for\<close>, the description in terms of the words, says (\<open>tester_line_refines\<close>).  A command that
  sets an output is followed to the node it is for.
\<close>

section \<open>Rows of the memory\<close>

definition good_word :: "u8 list \<Rightarrow> bool" where
  "good_word w \<longleftrightarrow> w \<noteq> [] \<and> length w < 8 \<and> 0 \<notin> set w \<and> 0x20 \<notin> set w \<and> 0x0A \<notin> set w"

definition word_at :: "u8 list list \<Rightarrow> nat \<Rightarrow> u8 list" where
  "word_at ws k = (if k < length ws then ws ! k else [])"

text \<open>Each row below \<open>n\<close> holds its word and a terminator.\<close>

definition holds :: "nat \<Rightarrow> u8 list list \<Rightarrow> (nat \<Rightarrow> u8 option) \<Rightarrow> bool" where
  "holds n ws sub \<longleftrightarrow> (\<forall>k<n. \<forall>j \<le> length (word_at ws k). sub (8 * k + j) = Some ((word_at ws k @ [0]) ! j))"

primrec line_of :: "u8 list list \<Rightarrow> u8 list" where
  "line_of [] = []"
| "line_of (w # ws) = (if ws = [] then w else w @ 0x20 # line_of ws)"

lemma line_of_letters:
  assumes "\<forall>w \<in> set ws. good_word w"
  shows "length (line_of ws) \<le> 8 * length ws" "0 \<notin> set (line_of ws)" "0x0A \<notin> set (line_of ws)"
  using assms by (induction ws) (auto simp: good_word_def)

lemma strtok_line:
  "strtok [] = None"
  "good_word w \<Longrightarrow> strtok w = Some (w, [])"
  "good_word w \<Longrightarrow> strtok (w @ 0x20 # r) = Some (w, r)"
proof -
  show "strtok [] = None"
    by (simp add: strtok_def)
  assume w: "good_word w"
  then have f: "\<forall>b \<in> set w. b \<noteq> 0x20" and n: "w \<noteq> []"
    by (auto simp: good_word_def)
  then have d: "dropWhile (\<lambda>b. b = 0x20) (w @ r') = w @ r'" for r'
    by (cases w) auto
  have t: "takeWhile (\<lambda>b. b \<noteq> 0x20) w = w" "dropWhile (\<lambda>b. b \<noteq> 0x20) w = []"
    using f by simp_all
  show "strtok w = Some (w, [])"
    using d [of "[]"] n t unfolding append_Nil2 by (simp add: strtok_def Let_def del: dropWhile_eq_Nil_conv)
  show "strtok (w @ 0x20 # r) = Some (w, r)"
    using d [of "0x20 # r"] n f by (simp add: strtok_def Let_def takeWhile_append2 dropWhile_append2)
qed

lemma holds_store:
  assumes "holds 8 us sub" "good_word w" "length us < 8" "\<forall>u \<in> set us. good_word u"
  shows "\<exists>sub'. store_word (length us) w sub = Done sub' \<and> holds 8 (us @ [w]) sub'"
proof -
  let ?i = "length us"
  let ?sub = "\<lambda>j. if 8 * ?i \<le> j \<and> j \<le> 8 * ?i + length w then Some ((w @ [0]) ! (j - 8 * ?i)) else sub j"
  have w: "length w < 8"
    using assms(2) by (simp add: good_word_def)
  have "holds 8 (us @ [w]) ?sub"
    unfolding holds_def
  proof (intro allI impI)
    fix k j :: nat
    assume k: "k < 8" and j: "j \<le> length (word_at (us @ [w]) k)"
    show "?sub (8 * k + j) = Some ((word_at (us @ [w]) k @ [0]) ! j)"
    proof (cases "k = ?i")
      case True
      then show ?thesis
        using j by (simp add: word_at_def nth_append)
    next
      case False
      then have same: "word_at (us @ [w]) k = word_at us k"
        by (auto simp: word_at_def nth_append)
      have "sub (8 * k + j) = Some ((word_at us k @ [0]) ! j)"
        using assms(1) k j unfolding same holds_def by blast
      moreover have "\<not> (8 * ?i \<le> 8 * k + j \<and> 8 * k + j \<le> 8 * ?i + length w)"
      proof (cases "k < ?i")
        case True
        have "good_word (us ! k)"
          using assms(4) True by simp
        then have "j < 8"
          using j True unfolding same by (simp add: word_at_def good_word_def)
        then show ?thesis
          using True by linarith
      next
        case False
        then show ?thesis
          using \<open>k \<noteq> ?i\<close> w by linarith
      qed
      ultimately show ?thesis
        unfolding same by (simp only: if_False)
    qed
  qed
  then show ?thesis
    using w assms(3) by (simp add: store_word_def SUB_CMDS_def)
qed

lemma store_words_line:
  assumes "holds 8 us sub" "length us + length ws \<le> 8" "\<forall>u \<in> set us. good_word u" "\<forall>w \<in> set ws. good_word w"
  shows "\<exists>sub'. store_words (length us) (line_of ws) sub = Done sub' \<and> holds 8 (us @ ws) sub'"
  using assms
proof (induction ws arbitrary: us sub)
  case Nil
  then show ?case
    by (subst store_words.simps) (simp add: strtok_line)
next
  case (Cons w ws)
  have w: "good_word w"
    using Cons.prems(4) by simp
  obtain sub1 where sub1: "store_word (length us) w sub = Done sub1" "holds 8 (us @ [w]) sub1"
    using holds_store [of us sub w] Cons.prems by auto
  have "\<exists>sub'. store_words (length (us @ [w])) (line_of ws) sub1 = Done sub' \<and> holds 8 ((us @ [w]) @ ws) sub'"
    by (rule Cons.IH) (use sub1 Cons.prems in auto)
  then obtain sub' where sub': "store_words (length us + 1) (line_of ws) sub1 = Done sub'" "holds 8 (us @ w # ws) sub'"
    by auto
  have "strtok (line_of (w # ws)) = Some (w, line_of ws)"
    using w by (cases ws) (simp_all add: strtok_line)
  then have "store_words (length us) (line_of (w # ws)) sub = Done sub'"
    using sub1 sub' by (subst store_words.simps) simp
  then show ?case
    using sub' by blast
qed

lemma readable_row:
  assumes "holds n ws sub" "k < n" "n \<le> 8" "length (word_at ws k) < 8"
  shows "\<exists>r. readable k sub = word_at ws k @ 0 # r"
proof -
  let ?t = "word_at ws k" and ?n = "length (word_at ws k)"
  have "[8 * k ..< 8 * SUB_CMDS] = [8 * k ..< 8 * k + ?n + 1] @ [8 * k + ?n + 1 ..< 64]"
    using assms(2-4) upt_add_eq_append [of "8 * k" "8 * k + ?n + 1" "64 - (8 * k + ?n + 1)"] by (simp add: SUB_CMDS_def)
  moreover have "map sub [8 * k ..< 8 * k + ?n + 1] = map Some (?t @ [0])"
    using assms(1,2) by (intro nth_equalityI) (auto simp: holds_def nth_append less_Suc_eq_le)
  ultimately have "map sub [8 * k ..< 8 * SUB_CMDS] = map Some (?t @ [0]) @ map sub [8 * k + ?n + 1 ..< 64]"
    by simp
  moreover have "takeWhile (\<lambda>b. b \<noteq> None) (map Some (?t @ [0]) @ r) = map Some (?t @ [0]) @ takeWhile (\<lambda>b. b \<noteq> None) r" for r
    by (rule takeWhile_append2) auto
  ultimately have "readable k sub = (?t @ [0]) @ map the (takeWhile (\<lambda>b. b \<noteq> None) (map sub [8 * k + ?n + 1 ..< 64]))"
    unfolding readable_def by (simp only: map_append map_map) (simp add: comp_def)
  then show ?thesis
    by simp
qed

section \<open>Comparisons on words\<close>

definition starts :: "nat \<Rightarrow> string \<Rightarrow> u8 list list \<Rightarrow> bool" where
  "starts k w ws \<longleftrightarrow> begins_with (word_at ws k) (ascii w)"

lemma begins_with_terminated: "0 \<notin> set u \<Longrightarrow> begins_with (t @ 0 # r) u \<longleftrightarrow> begins_with t u"
proof (induction u arbitrary: t)
  case (Cons l u)
  then show ?case
    by (cases t) auto
qed simp

lemma cut_off_terminated: "0 \<notin> set u \<Longrightarrow> \<not> cut_off (t @ 0 # r) u"
proof (induction u arbitrary: t)
  case (Cons l u)
  then show ?case
    by (cases t) auto
qed simp

lemma text_is_terminated: "plain w \<Longrightarrow> text_is (t @ 0 # r) w = Done (begins_with t (ascii w))"
  using cut_off_terminated begins_with_terminated plain_ascii by (simp add: text_is_word)

lemma strncmp_exact:
  "0 \<notin> set t \<Longrightarrow> 0 \<notin> set u \<Longrightarrow> strncmp_eq (t @ 0 # r) (u @ [0]) (Suc (length u)) = Done (t = u)"
proof (induction u arbitrary: t)
  case Nil
  then show ?case
    by (cases t) auto
next
  case (Cons l u)
  then show ?case
    by (cases t) auto
qed

section \<open>What a line says\<close>

definition any_starts :: "nat \<Rightarrow> string list \<Rightarrow> u8 list list \<Rightarrow> bool" where
  "any_starts k us ws \<longleftrightarrow> (\<exists>u \<in> set us. starts k u ws)"

definition receiver_for :: "u8 list list \<Rightarrow> mac_addr" where
  "receiver_for ws =
     (if starts 0 ''cam'' ws then NODE_CAM
      else if starts 0 ''cdhs'' ws then NODE_CDHS
      else if starts 0 ''pc'' ws then NODE_PC
      else if starts 0 ''eps'' ws then NODE_EPS
      else if starts 0 ''test'' ws then NODE_TEST
      else if starts 0 ''bus'' ws then NODE_BUS
      else if word_at ws 0 = ascii ''all'' then BROADCAST
      else INVALID_MAC_ADDR)"

text \<open>\<open>None\<close>: the name of a receiver that does not exist is printed, which reads behind the table.\<close>

definition command_for :: "bool \<Rightarrow> u8 list list \<Rightarrow> line_action option" where
  "command_for info ws =
     (let named = (\<lambda>act. if info \<and> receiver_for ws = INVALID_MAC_ADDR then None else Some act) in
      if starts 0 ''q'' ws then Some Quit
      else if ws = [] then Some Nothing
      else if any_starts 0 [''clean'', ''update'', ''reset'', ''stopupdate'', ''sync'', ''time''] ws then Some (Send (word_at ws 0))
      else if any_starts 1 [''clean'', ''update'', ''stopupdate'', ''reset'', ''time''] ws then named (Send (word_at ws 1))
      else if starts 1 ''ping'' ws then
        (if any_starts 2 [''cdhs'', ''cam'', ''pc'', ''eps'', ''bus''] ws then named (Send (word_at ws 2)) else Some Nothing)
      else if starts 1 ''set'' ws \<and> receiver_for ws \<noteq> INVALID_MAC_ADDR
          \<and> any_starts 2 [''icp'', ''mqtt'', ''sys'', ''all''] ws
          \<and> any_starts 3 [''debug'', ''err'', ''warn'', ''info'', ''all''] ws \<and> any_starts 4 [''true'', ''false''] ws
      then Some (Send (word_at ws 1 @ 0x20 # word_at ws 2 @ 0x20 # word_at ws 3 @ 0x20 # word_at ws 4))
      else Some Nothing)"

lemma good_word_at:
  assumes "\<forall>w \<in> set ws. good_word w"
  shows "length (word_at ws k) < 8" "0 \<notin> set (word_at ws k)"
  using assms nth_mem [of k ws] by (auto simp: word_at_def good_word_def)

lemma on_words:
  assumes "holds n ws sub" "\<forall>w \<in> set ws. good_word w" "k < n" "n \<le> 8"
  shows "plain u \<Longrightarrow> word_is k u sub = Done (starts k u ws)"
    and "list_all plain us \<Longrightarrow> any_word k us sub = Done (any_starts k us ws)"
    and "word_text k sub = Done (word_at ws k)"
    and "plain u \<Longrightarrow> strncmp_eq (readable k sub) (ascii u @ [0]) (Suc (length u)) = Done (word_at ws k = ascii u)"
proof -
  obtain r where r: "readable k sub = word_at ws k @ 0 # r"
    using readable_row [OF assms(1,3,4) good_word_at(1) [OF assms(2)]] by blast
  show w: "plain u \<Longrightarrow> word_is k u sub = Done (starts k u ws)" for u
    by (simp add: word_is_def r text_is_terminated starts_def)
  show "list_all plain us \<Longrightarrow> any_word k us sub = Done (any_starts k us ws)"
    by (induction us) (auto simp: w any_starts_def)
  show "word_text k sub = Done (word_at ws k)"
  proof -
    have "takeWhile (\<lambda>b. b \<noteq> 0) (word_at ws k @ 0 # r) = word_at ws k"
      using good_word_at(2) [OF assms(2), of k] by (subst takeWhile_append2) auto
    then show ?thesis
      using good_word_at(1) [OF assms(2), of k] by (simp add: word_text_def r strcpy_text_def)
  qed
  show "plain u \<Longrightarrow> strncmp_eq (readable k sub) (ascii u @ [0]) (Suc (length u)) = Done (word_at ws k = ascii u)"
    using strncmp_exact [OF good_word_at(2) [OF assms(2)] plain_ascii] by (simp add: r ascii_def)
qed

lemma plain_literal: "plain s \<longleftrightarrow> list_all (\<lambda>c. of_char c \<noteq> (0 :: u8)) s"
  by (simp add: plain_def list_all_iff)

lemma receiver_of_words:
  assumes "holds n ws sub" "\<forall>w \<in> set ws. good_word w" "0 < n" "n \<le> 8"
  shows "receiver_of sub = Done (receiver_for ws)"
proof -
  have s: "text_is (readable 0 sub) u = Done (starts 0 u ws)" if "plain u" for u
    using on_words(1) [OF assms, of u] that by (simp add: word_is_def)
  have a: "strncmp_eq (readable 0 sub) (ascii ''all'' @ [0]) 4 = Done (word_at ws 0 = ascii ''all'')"
  proof -
    have "(4 :: nat) = Suc (length ''all'')"
      by simp
    then show ?thesis
      using on_words(4) [OF assms, of "''all''"] by (simp only:) (simp add: plain_literal)
  qed
  show ?thesis
    unfolding receiver_of_def dispatch.simps a by (simp add: s plain_literal receiver_for_def del: One_nat_def)
qed

text \<open>The clock is restarted by the tester itself, too.\<close>

definition synced :: "'n console \<Rightarrow> u8 list list \<Rightarrow> 'n glue icp \<Rightarrow> 'n glue icp" where
  "synced C ws s = (if starts 0 ''sync'' ws then glue_do (\<lambda>g. g\<lparr>net := sync_clock (world_of C) (net g)\<rparr>) s else s)"

lemma receiver_number:
  "receiver_for ws \<noteq> NUM_OF_NODES" "mac_num (receiver_for ws) < 7 \<longleftrightarrow> receiver_for ws \<noteq> INVALID_MAC_ADDR"
  unfolding receiver_for_def by simp_all

lemma set_text_words:
  assumes "holds 8 ws sub" "\<forall>w \<in> set ws. good_word w"
  shows "set_text sub = Done (Send (word_at ws 1 @ 0x20 # word_at ws 2 @ 0x20 # word_at ws 3 @ 0x20 # word_at ws 4))"
  using good_word_at(1) [OF assms(2), of 1] good_word_at(1) [OF assms(2), of 2]
    good_word_at(1) [OF assms(2), of 3] good_word_at(1) [OF assms(2), of 4]
  by (simp add: set_text_def on_words(3) [OF assms] Let_def check_def)

text \<open>An action, with the state it leaves, seen through the state that \<open>send_line\<close> starts from.\<close>

definition restart :: "line_action \<times> 'n glue icp \<Rightarrow> line_action \<times> 'n glue icp" where
  "restart r = (case fst r of Send str \<Rightarrow> (Send str, glue_do (\<lambda>g. g\<lparr>sent := False\<rparr>) (snd r)) | _ \<Rightarrow> r)"

lemma line_command_words:
  assumes "holds 8 ws (sub_cmd t)" "\<forall>w \<in> set ws. good_word w" "cmd t = [] \<longleftrightarrow> ws = []"
  shows "obind (line_command C (receiver_for ws) t) (\<lambda>r. Done (restart r)) =
    (case command_for (g_sys_enable_info_output (env (app_state t))) ws of None \<Rightarrow> Fault
     | Some act \<Rightarrow> Done (restart (act, case act of Send _ \<Rightarrow> synced C ws (app_state t) | _ \<Rightarrow> app_state t)))"
proof -
  note w = on_words(1) [OF assms(1,2)] on_words(2) [OF assms(1,2)] on_words(3) [OF assms(1,2)] set_text_words [OF assms(1,2)]
  have sync: "any_starts 0 [''clean'', ''update'', ''reset'', ''stopupdate'', ''sync'', ''time''] ws" if "starts 0 ''sync'' ws"
    using that by (simp add: any_starts_def)
  show ?thesis
    unfolding line_command_def command_for_def
    apply (simp add: w plain_literal assms(3) Let_def send_text_def ping_command_def set_command_def name_receiver_def
        check_def receiver_number restart_def del: One_nat_def any_word.simps cong: if_cong split del: if_split)
    using sync by (auto simp: synced_def glue_do_def restart_def)
qed

lemma send_line_restart: "send_line C topic str (glue_do (\<lambda>g. g\<lparr>sent := False\<rparr>) s) = send_line C topic str s"
  by (simp add: send_line_def glue_do_def)

text \<open>The rows that a cleared line leaves.\<close>

lemma holds_cleared: "holds 8 [] (clear_rows sub)"
  by (simp add: holds_def clear_rows_def word_at_def SUB_CMDS_def)

lemma tester_line_words:
  assumes "holds 8 [] (sub_cmd t)" "length ws \<le> 8" "\<forall>w \<in> set ws. good_word w" "cmd t = line_of ws"
  shows "\<exists>sub. holds 8 ws sub \<and> tester_line C t =
    (case command_for (g_sys_enable_info_output (env (app_state t))) ws of
       None \<Rightarrow> Fault
     | Some Quit \<Rightarrow> Done (False, t\<lparr>sub_cmd := sub\<rparr>)
     | Some Nothing \<Rightarrow> Done (True, end_line (t\<lparr>sub_cmd := sub\<rparr>))
     | Some (Send str) \<Rightarrow> obind (send_line C (topic_for (receiver_for ws)) str (synced C ws (app_state t)))
         (\<lambda>s. Done (True, end_line (t\<lparr>app_state := s, sub_cmd := sub\<rparr>))))"
proof -
  obtain sub where sub: "store_words 0 (cmd t) (sub_cmd t) = Done sub" "holds 8 ws sub"
    using store_words_line [of "[]" "sub_cmd t" ws] assms by auto
  let ?t = "t\<lparr>sub_cmd := sub\<rparr>"
  have e: "cmd ?t = [] \<longleftrightarrow> ws = []"
    using assms(3,4) by (cases ws) (auto simp: good_word_def)
  have c: "obind (line_command C (receiver_for ws) ?t) (\<lambda>r. Done (restart r)) =
      (case command_for (g_sys_enable_info_output (env (app_state t))) ws of None \<Rightarrow> Fault
       | Some act \<Rightarrow> Done (restart (act, case act of Send _ \<Rightarrow> synced C ws (app_state t) | _ \<Rightarrow> app_state t)))"
    using line_command_words [of ws ?t C] sub(2) assms(3) e
    by (simp cong: option.case_cong line_action.case_cong)
  have "tester_line C t = obind (obind (line_command C (receiver_for ws) ?t) (\<lambda>r. Done (restart r)))
      (\<lambda>(act, s). case act of Quit \<Rightarrow> Done (False, ?t\<lparr>app_state := s\<rparr>) | Nothing \<Rightarrow> Done (True, end_line (?t\<lparr>app_state := s\<rparr>))
        | Send str \<Rightarrow> obind (send_line C (topic_for (receiver_for ws)) str s) (\<lambda>s. Done (True, end_line (?t\<lparr>app_state := s\<rparr>))))"
    by (auto simp: tester_line_def sub(1) receiver_of_words [OF sub(2) assms(3)] obind_assoc Let_def restart_def
        send_line_restart end_line_def intro!: arg_cong [of _ _ "obind (line_command C (receiver_for ws) ?t)"] split: line_action.splits)
  then show ?thesis
    unfolding c using sub(2)
    by (intro exI [of _ sub]) (auto simp: restart_def send_line_restart end_line_def split: option.splits line_action.splits)
qed


section \<open>From the console to a node\<close>

text \<open>A client that takes every message and confirms its delivery at once.\<close>

definition confirms :: "'n world \<Rightarrow> bool" where
  "confirms W \<longleftrightarrow> (\<forall>topic str q n. fst (async_send W topic str q n) = ASYNC_SUCCESS)
     \<and> (\<forall>n. fst (turn_events W n) = [Delivery_confirmed])"

lemma send_line_confirmed:
  assumes "confirms (world_of C)"
  shows "\<exists>s'. send_line C topic str s = Done s' \<and> published (env s') = (topic, str) # published (env s)
    \<and> g_sys_enable_info_output (env s') = g_sys_enable_info_output (env s)"
proof -
  let ?W = "world_of C"
  obtain n where n: "async_send ?W topic str QOS (net (env s)) = (ASYNC_SUCCESS, n)"
    using assms unfolding confirms_def by (metis prod.collapse)
  let ?s = "glue_do (\<lambda>g. g\<lparr>sent := False, net := n, published := (topic, str) # published g\<rparr>) s"
  have sent: "sendmsg ?W topic str (glue_do (\<lambda>g. g\<lparr>sent := False\<rparr>) s) = Done (1, ?s)"
    using n by (simp add: sendmsg_def glue_do_def Let_def)
  obtain n' where n': "turn_events ?W n = ([Delivery_confirmed], n')"
    using assms unfolding confirms_def by (metis prod.collapse)
  let ?s' = "onSend (glue_do (\<lambda>g. g\<lparr>net := n'\<rparr>) ?s)"
  have "turn ?W ?s = Done ?s'"
    using n' by (simp add: turn_def handle_event_def)
  moreover have "\<not> sent (env ?s)" "sent (env ?s')"
    by (simp_all add: onSend_def)
  ultimately have "wait_loop ?W (\<lambda>s. sent (env s)) ?s = Some (Done ?s')"
    by (subst wait_loop.simps, simp) (subst wait_loop.simps, simp)
  then have "send_line C topic str s = Done ?s'"
    by (simp add: send_line_def sent wait_until_def)
  then show ?thesis
    by (auto simp: onSend_def)
qed

lemma tester_loop_line:
  assumes "behind_ch C = []" "length (cmd t) + length l < CMD_SIZE" "0x0A \<notin> set l" "0 \<notin> set l"
  shows "tester_loop C (l @ chs) t = tester_loop C chs (t\<lparr>cmd := cmd t @ l\<rparr>)"
  using assms
proof (induction l arbitrary: t)
  case (Cons c l)
  then show ?case
    using Cons.IH [of "t\<lparr>cmd := cmd t @ [c]\<rparr>"] by (simp add: tester_char_def)
qed simp

subsection \<open>The table of the node\<close>

lemma ascii_inj: "ascii a = ascii b \<longleftrightarrow> a = b"
proof -
  have "inj (of_char :: char \<Rightarrow> u8)"
  proof (rule injI)
    fix c d :: char
    assume "(of_char c :: u8) = of_char d"
    then have "(of_nat (of_char c) :: u8) = of_nat (of_char d)"
      by (simp add: of_nat_of_char)
    then have "unat (of_nat (of_char c) :: u8) = unat (of_nat (of_char d) :: u8)"
      by (rule arg_cong)
    then have "(of_char c :: nat) mod 256 = of_char d mod 256"
      by (simp add: unat_of_nat)
    then have "(of_char c :: nat) = of_char d"
      using nat_of_char_less_256 [of c] nat_of_char_less_256 [of d] by simp
    then show "c = d"
      by simp
  qed
  then show ?thesis
    by (simp add: ascii_def inj_map_eq_map)
qed

lemma begins_with_ascii: "begins_with (ascii a) (ascii b) \<longleftrightarrow> take (length b) a = b"
  by (simp add: begins_with_def ascii_def take_map) (metis ascii_def ascii_inj take_map)

lemma table_texts:
  "map fst lookup_table = concat (map (\<lambda>a. concat (map (\<lambda>b. map (\<lambda>c. ''set '' @ a @ '' '' @ b @ '' '' @ c)
     [''true'', ''false'']) [''debug'', ''err'', ''warn'', ''info'', ''all''])) [''icp'', ''mqtt'', ''sys'', ''all''])"
  by (simp add: lookup_table_def)

lemma set_texts:
  assumes "(text, fn, v) \<in> set (lookup_table :: (string \<times> (bool \<Rightarrow> 'n glue icp \<Rightarrow> u8 \<times> 'n glue icp) \<times> bool) list)"
  obtains a b c where "text = ''set '' @ a @ '' '' @ b @ '' '' @ c" "a \<in> set [''icp'', ''mqtt'', ''sys'', ''all'']"
    "b \<in> set [''debug'', ''err'', ''warn'', ''info'', ''all'']" "c \<in> set [''true'', ''false'']"
proof -
  have "fst (text, fn, v) \<in> fst ` set (lookup_table :: (string \<times> (bool \<Rightarrow> 'n glue icp \<Rightarrow> u8 \<times> 'n glue icp) \<times> bool) list)"
    using assms by (rule imageI)
  then have "\<exists>a \<in> set [''icp'', ''mqtt'', ''sys'', ''all'']. \<exists>b \<in> set [''debug'', ''err'', ''warn'', ''info'', ''all''].
      \<exists>c \<in> set [''true'', ''false'']. text = ''set '' @ a @ '' '' @ b @ '' '' @ c"
    unfolding set_map [symmetric] table_texts by (auto simp del: append.simps)
  then show ?thesis
    using that by blast
qed

lemma table_unambiguous: "sorted_wrt (\<lambda>x y. take (length y) x \<noteq> y) (map fst lookup_table)"
  unfolding table_texts by code_simp

lemma interpret_rows_finds:
  assumes "sorted_wrt (\<lambda>x y. take (length y) x \<noteq> y) (map fst rows)" "(text, fn, v) \<in> set rows" "plain text"
  shows "interpret_rows (ascii text) rows s = Done (snd (fn v s))"
  using assms(1,2)
proof (induction rows)
  case (Cons row rows)
  obtain cmd' fn' v' where row: "row = (cmd', fn', v')"
    by (cases row) auto
  have b: "strncmp_eq (ascii text) (ascii cmd' @ [0]) (length (ascii text)) = Done (take (length text) cmd' = text)"
    using strncmp_whole [of "ascii text" "ascii cmd'"] plain_ascii [OF assms(3)] by (auto simp: begins_with_ascii)
  show ?case
  proof (cases "(text, fn, v) = row")
    case True
    then show ?thesis
      using b row by simp
  next
    case False
    then have "(text, fn, v) \<in> set rows"
      using Cons.prems(2) by auto
    moreover from this have "take (length text) cmd' \<noteq> text"
      using Cons.prems(1) row by force
    ultimately show ?thesis
      using Cons b row by simp
  qed
qed simp

subsection \<open>A command arrives\<close>

definition named_nodes :: "(string \<times> mac_addr) list" where
  "named_nodes = [(''cam'', NODE_CAM), (''cdhs'', NODE_CDHS), (''pc'', NODE_PC), (''eps'', NODE_EPS)]"

definition set_words :: "string \<Rightarrow> string \<Rightarrow> string \<Rightarrow> string \<Rightarrow> u8 list list" where
  "set_words name a b c = map ascii [name, ''set'', a, b, c]"

lemma set_word_at:
  "word_at (set_words name a b c) 0 = ascii name" "word_at (set_words name a b c) 1 = ascii ''set''"
  "word_at (set_words name a b c) 2 = ascii a" "word_at (set_words name a b c) 3 = ascii b"
  "word_at (set_words name a b c) 4 = ascii c"
  by (simp_all add: word_at_def set_words_def)

lemma starts_ascii: "word_at ws k = ascii u \<Longrightarrow> starts k w ws \<longleftrightarrow> take (length w) u = w"
  by (simp add: starts_def begins_with_ascii)

lemma set_command_for:
  assumes "(name, node) \<in> set named_nodes" "a \<in> set [''icp'', ''mqtt'', ''sys'', ''all'']"
    and "b \<in> set [''debug'', ''err'', ''warn'', ''info'', ''all'']" "c \<in> set [''true'', ''false'']"
  shows "receiver_for (set_words name a b c) = node"
    and "command_for info (set_words name a b c) = Some (Send (ascii (''set '' @ a @ '' '' @ b @ '' '' @ c)))"
proof -
  let ?ws = "set_words name a b c"
  note s = set_word_at [of name a b c, THEN starts_ascii]
  show r: "receiver_for ?ws = node"
    using assms(1) unfolding receiver_for_def s by (auto simp: named_nodes_def)
  have "starts 2 a ?ws" "starts 3 b ?ws" "starts 4 c ?ws"
    by (simp_all add: s)
  then have "any_starts 2 [''icp'', ''mqtt'', ''sys'', ''all''] ?ws"
    "any_starts 3 [''debug'', ''err'', ''warn'', ''info'', ''all''] ?ws" "any_starts 4 [''true'', ''false''] ?ws"
    using assms(2-4) unfolding any_starts_def by blast+
  moreover have "\<not> starts 0 ''q'' ?ws"
    "\<not> any_starts 0 [''clean'', ''update'', ''reset'', ''stopupdate'', ''sync'', ''time''] ?ws"
    "\<not> any_starts 1 [''clean'', ''update'', ''stopupdate'', ''reset'', ''time''] ?ws"
    "\<not> starts 1 ''ping'' ?ws" "starts 1 ''set'' ?ws" "node \<noteq> INVALID_MAC_ADDR"
    using assms(1) by (auto simp: s any_starts_def named_nodes_def simp del: One_nat_def)
  moreover have "?ws \<noteq> []"
    by (simp add: set_words_def)
  moreover have "ascii ''set'' @ 0x20 # ascii a @ 0x20 # ascii b @ 0x20 # ascii c = ascii (''set '' @ a @ '' '' @ b @ '' '' @ c)"
    by (simp add: ascii_def)
  ultimately show "command_for info ?ws = Some (Send (ascii (''set '' @ a @ '' '' @ b @ '' '' @ c)))"
    by (simp add: command_for_def r set_word_at Let_def del: One_nat_def)
qed

lemma set_words_good:
  assumes "(name, node) \<in> set named_nodes" "a \<in> set [''icp'', ''mqtt'', ''sys'', ''all'']"
    and "b \<in> set [''debug'', ''err'', ''warn'', ''info'', ''all'']" "c \<in> set [''true'', ''false'']"
  shows "\<forall>w \<in> set (set_words name a b c). good_word w" "length (set_words name a b c) \<le> 8"
    and "line_of (set_words name a b c) = ascii (name @ '' '' @ ''set '' @ a @ '' '' @ b @ '' '' @ c)"
proof -
  have "\<forall>u \<in> set (map fst named_nodes) \<union> set [''set'', ''icp'', ''mqtt'', ''sys'', ''all'', ''debug'', ''err'', ''warn'', ''info'', ''true'', ''false'']. good_word (ascii u)"
    by (simp add: named_nodes_def good_word_def ascii_def)
  moreover have "name \<in> set (map fst named_nodes)"
    using assms(1) by force
  ultimately show "\<forall>w \<in> set (set_words name a b c). good_word w"
    using assms(2-4) unfolding set_words_def by auto
  show "length (set_words name a b c) \<le> 8"
    by (simp add: set_words_def)
  show "line_of (set_words name a b c) = ascii (name @ '' '' @ ''set '' @ a @ '' '' @ b @ '' '' @ c)"
    by (simp add: set_words_def ascii_def)
qed

lemma set_message_arrives:
  assumes "(text, fn, v) \<in> set lookup_table" "\<not> g_sys_enable_debug_output (env s)" "(name, node) \<in> set named_nodes"
  shows "msgarrvd W cbs (topic_for node) (ascii text) s = Done (1, snd (fn v s))"
proof -
  obtain a b c where t: "text = ''set '' @ a @ '' '' @ b @ '' '' @ c" and m: "a \<in> set [''icp'', ''mqtt'', ''sys'', ''all'']"
    "b \<in> set [''debug'', ''err'', ''warn'', ''info'', ''all'']" "c \<in> set [''true'', ''false'']"
    using set_texts [OF assms(1)] by blast
  have "plain text"
    using m unfolding t by (auto simp: plain_literal)
  then have i: "Interpreter (ascii text) s = Done (snd (fn v s))"
    using interpret_rows_finds [OF table_unambiguous assms(1)] assms(2) by (simp add: Interpreter_def)
  have "command_message W (ascii text) s = Interpreter (ascii text) s"
    unfolding t command_message_def by (simp add: text_is_def ascii_def)
  moreover have "topic_of (topic_for node) = NUM_OF_TOPICS"
    using assms(3) by (auto simp: named_nodes_def topic_for_def topic_of_def topic_names_def topic_table_def ascii_def)
  ultimately show ?thesis
    by (simp add: msgarrvd_def i)
qed


section \<open>The first line\<close>

text \<open>
  The rows of \<open>sub_cmd\<close> are cleared after each line, but not before the first one: a first line of one
  word that is no command of its own (the name of a node, say) makes the tester compare memory that was
  never written.
\<close>

theorem first_line_reads_uninitialised:
  assumes "sub_cmd t = (\<lambda>_. None)" "cmd t = w" "good_word w" "\<not> starts 0 ''q'' [w]"
    and "\<not> any_starts 0 [''clean'', ''update'', ''reset'', ''stopupdate'', ''sync'', ''time''] [w]"
  shows "tester_line C t = Fault"
proof -
  let ?sub = "\<lambda>j. if j \<le> length w then Some ((w @ [0]) ! j) else None"
  have w: "length w < 8" "w \<noteq> []"
    using assms(3) by (simp_all add: good_word_def)
  have sub: "store_words 0 w (\<lambda>_. None) = Done ?sub"
    using w by (subst store_words.simps, simp add: strtok_line assms(3) store_word_def SUB_CMDS_def cong: if_cong)
      (subst store_words.simps, simp add: strtok_line)
  have h: "holds 1 [w] ?sub" and g: "\<forall>u \<in> set [w]. good_word u"
    using assms(3) by (simp_all add: holds_def word_at_def)
  note on = on_words [OF h g, of 0, simplified] and rcv = receiver_of_words [OF h g, simplified]
  have r: "readable 1 ?sub = []"
    using w(1) by (simp add: readable_def SUB_CMDS_def upt_conv_Cons)
  have "any_word 1 [''clean'', ''update'', ''stopupdate'', ''reset'', ''time''] ?sub = Fault"
    using r by (simp add: word_is_def text_is_def ascii_def)
  then have "line_command C (receiver_for [w]) (t\<lparr>sub_cmd := ?sub\<rparr>) = Fault"
    using assms(2,4,5) w(2) on(1) [of "''q''"] on(2) [of "[''clean'', ''update'', ''reset'', ''stopupdate'', ''sync'', ''time'']"]
    by (simp add: line_command_def plain_literal Let_def del: any_word.simps One_nat_def)
  then show ?thesis
    using rcv by (simp add: tester_line_def assms(1,2) sub)
qed

section \<open>A console to try\<close>

definition ready_console :: "unit console" where
  "ready_console = \<lparr>world_of = \<lparr>async_connect = Pair 0, async_subscribe = (\<lambda>_ _. Pair 0), async_send = (\<lambda>_ _ _. Pair 0),
       turn_events = Pair [Delivery_confirmed], read_clock = Pair 0, sync_clock = (\<lambda>n. n)\<rparr>,
     async_disconnect = Pair 0, behind_ch = []\<rparr>"

lemma ready_console_confirms: "confirms (world_of ready_console)" "behind_ch ready_console = []"
  by (simp_all add: confirms_def ready_console_def ASYNC_SUCCESS_def)

definition ready_tester :: "u8 list \<Rightarrow> unit tester" where
  "ready_tester l = \<lparr>app_state = node_at NODE_TEST (), cmd = l, sub_cmd = (\<lambda>_. Some 0)\<rparr>"

lemma ready_tester_rows: "holds 8 [] (sub_cmd (ready_tester l))" "cmd (ready_tester l) = l"
  by (simp_all add: ready_tester_def holds_def word_at_def)



theorem first_line_reads_uninitialised_witness:
  "tester_line ready_console (ready_tester (ascii ''cam'')\<lparr>sub_cmd := \<lambda>_. None\<rparr>) = Fault"
  by (rule first_line_reads_uninitialised [of _ "ascii ''cam''"])
    (simp_all add: ready_tester_rows good_word_def starts_def any_starts_def word_at_def ascii_def)

end
