(* ===== verification/Spec2Isabelle.thy ===== *)
theory Spec2Isabelle
  imports Icp_Api Utf8 Mqtt_Ids Mqtt_Sender Node_Line Mqtt_Requeue Async_Receive
    Async_Order Async_Tokens Async_Machine Packet_Types Rb_Replace Heap_Accounts
    Tester_Lines
begin

text \<open>
  A verification library of the ICP bus protocol and of the MQTT client it is simulated over.
\<close>

end
